(* ===== verification/Prelude.thy ===== *)
theory Prelude
  imports Main "HOL-Library.Char_ord" "HOL-Library.List_Lexorder" "HOL-Library.Sublist"
begin

text \<open>
  Shared vocabulary of the development.

  Go strings are byte strings, so they are HOL strings (lists of 8-bit characters); their
  order is the bytewise one of \<^verbatim>\<open>List_Lexorder\<close>, which is Go's string order.  The theory
  models the few functions of Go's \<^verbatim>\<open>strings\<close> package that the control plane calls on every
  command (\<^verbatim>\<open>TrimSpace\<close>, \<^verbatim>\<open>HasPrefix\<close>, \<^verbatim>\<open>CutPrefix\<close>, \<^verbatim>\<open>Cut\<close>), the generic lemmas on
  lists, maps and sorted keys the components share, and the collections of rewrite rules several of them add to.
  The contracts of secondary indexes are in \<^verbatim>\<open>Index_Laws\<close>, those of paged reads in \<^verbatim>\<open>Paging\<close> and those of
  operator-managed tables in \<^verbatim>\<open>Versioned_Store\<close>.
\<close>

named_theorems row_state "the states of a placement row, unfolded"
named_theorems entry_eval "the definitions that evaluate the egress entry grammar on a concrete text"

section \<open>Strings\<close>

text \<open>The UTF-8 encodings of the code points that Go's \<^verbatim>\<open>unicode.IsSpace\<close> accepts.\<close>

definition byteStr :: "nat list \<Rightarrow> string" where
  "byteStr ns = map char_of ns"

definition spaceRunes :: "string list" where
  "spaceRunes = map byteStr
     ([[9], [10], [11], [12], [13], [32], [194, 133], [194, 160], [225, 154, 128],
       [226, 128, 168], [226, 128, 169], [226, 128, 175], [226, 129, 159], [227, 128, 128]]
      @ map (\<lambda>n. [226, 128, n]) [128..<139])"

definition leadingRune :: "string list \<Rightarrow> string \<Rightarrow> string option" where
  "leadingRune ws s = find (\<lambda>w. w \<noteq> [] \<and> take (length w) s = w) ws"

lemma leadingRune_SomeD:
  assumes "leadingRune ws s = Some w"
  shows "w \<noteq> []" "prefix w s" "length w \<le> length s" "w \<in> set ws"
proof -
  have *: "w \<noteq> [] \<and> take (length w) s = w \<and> w \<in> set ws"
    using assms by (auto simp: leadingRune_def find_Some_iff)
  then show "w \<noteq> []" "w \<in> set ws" by auto
  show "prefix w s" using * by (metis take_is_prefix)
  then show "length w \<le> length s" by (rule prefix_length_le)
qed

function trimLeftRunes :: "string list \<Rightarrow> string \<Rightarrow> string" where
  "trimLeftRunes ws s =
     (case leadingRune ws s of None \<Rightarrow> s | Some w \<Rightarrow> trimLeftRunes ws (drop (length w) s))"
  by pat_completeness auto
termination
proof (relation "measure (\<lambda>(ws, s). length s)", goal_cases)
  case (2 ws s w)
  then have "w \<noteq> []" "length w \<le> length s" by (auto dest: leadingRune_SomeD)
  then have "0 < length w" "0 < length s" by auto
  then show ?case by simp
qed simp

declare trimLeftRunes.simps [simp del]

text \<open>Go's \<^verbatim>\<open>strings.TrimSpace\<close>: whitespace code points are dropped at both ends.\<close>

definition trimSpace :: "string \<Rightarrow> string" where
  "trimSpace s =
     rev (trimLeftRunes (map rev spaceRunes) (rev (trimLeftRunes spaceRunes s)))"

lemma trimLeftRunes_None: "leadingRune ws s = None \<Longrightarrow> trimLeftRunes ws s = s"
  by (simp add: trimLeftRunes.simps)

lemma trimLeftRunes_Some:
  "leadingRune ws s = Some w \<Longrightarrow> trimLeftRunes ws s = trimLeftRunes ws (drop (length w) s)"
  by (subst trimLeftRunes.simps) simp

lemma trimLeftRunes_suffix: "suffix (trimLeftRunes ws s) s"
proof (induction ws s rule: trimLeftRunes.induct)
  case (1 ws s)
  show ?case
  proof (cases "leadingRune ws s")
    case None
    then show ?thesis by (simp add: trimLeftRunes_None)
  next
    case (Some w)
    then have "suffix (trimLeftRunes ws (drop (length w) s)) (drop (length w) s)"
      by (rule 1)
    with suffix_drop[of "length w" s] show ?thesis
      unfolding trimLeftRunes_Some[OF Some] by (meson suffix_order.trans)
  qed
qed

lemma trimLeftRunes_clean: "leadingRune ws (trimLeftRunes ws s) = None"
proof (induction ws s rule: trimLeftRunes.induct)
  case (1 ws s)
  show ?case
  proof (cases "leadingRune ws s")
    case None
    then show ?thesis by (simp add: trimLeftRunes_None)
  next
    case (Some w)
    then show ?thesis unfolding trimLeftRunes_Some[OF Some] by (rule 1)
  qed
qed

lemma leadingRune_None_prefix:
  assumes "leadingRune ws s = None" and "prefix t s"
  shows "leadingRune ws t = None"
proof (rule ccontr)
  assume "leadingRune ws t \<noteq> None"
  then obtain w where w: "leadingRune ws t = Some w" by auto
  then have "prefix w s" "w \<noteq> []" "w \<in> set ws"
    using assms(2) by (auto dest: leadingRune_SomeD intro: prefix_order.trans)
  then have "take (length w) s = w" by (auto simp: prefix_def)
  with \<open>w \<noteq> []\<close> \<open>w \<in> set ws\<close> assms(1) show False
    by (auto simp: leadingRune_def find_None_iff)
qed

lemma trimSpace_idem [simp]: "trimSpace (trimSpace s) = trimSpace s"
proof -
  let ?L = "trimLeftRunes spaceRunes" and ?R = "\<lambda>s. rev (trimLeftRunes (map rev spaceRunes) (rev s))"
  have "prefix (?R (?L s)) (?L s)"
    using trimLeftRunes_suffix[of "map rev spaceRunes" "rev (?L s)"]
    by (simp add: suffix_to_prefix)
  then have "leadingRune spaceRunes (?R (?L s)) = None"
    by (rule leadingRune_None_prefix[OF trimLeftRunes_clean])
  then have "?L (?R (?L s)) = ?R (?L s)" by (rule trimLeftRunes_None)
  moreover have "?R (?R (?L s)) = ?R (?L s)"
    by (simp add: trimLeftRunes_None trimLeftRunes_clean)
  ultimately show ?thesis by (simp add: trimSpace_def)
qed

lemma trimSpace_Nil [simp]: "trimSpace [] = []"
  by (simp add: trimSpace_def trimLeftRunes_None leadingRune_def find_None_iff)

lemma trimSpace_subset: "set (trimSpace s) \<subseteq> set s"
  using set_mono_suffix[OF trimLeftRunes_suffix[of "map rev spaceRunes" "rev (trimLeftRunes spaceRunes s)"]]
    set_mono_suffix[OF trimLeftRunes_suffix[of spaceRunes s]]
  by (simp add: trimSpace_def)

lemma trimSpace_eq_NilD: "s = [] \<Longrightarrow> trimSpace s = []"
  by simp

text \<open>A string of visible ASCII characters is its own trimming.\<close>

definition visibleChar :: "char \<Rightarrow> bool" where
  "visibleChar c \<longleftrightarrow> 33 \<le> (of_char c :: nat) \<and> (of_char c :: nat) < 127"

lemma spaceRunes_not_visible:
  assumes "w \<in> set spaceRunes" "c \<in> set w"
  shows "\<not> visibleChar c"
proof -
  have "\<forall>w \<in> set spaceRunes. list_all (\<lambda>c. \<not> visibleChar c) w"
    by (simp add: spaceRunes_def byteStr_def visibleChar_def upt_rec)
  then show ?thesis using assms by (auto simp: list_all_iff)
qed

lemma leadingRune_visible:
  assumes "s = [] \<or> visibleChar (hd s)" "\<forall>w \<in> set ws. list_all (\<lambda>c. \<not> visibleChar c) w"
  shows "leadingRune ws s = None"
proof (rule ccontr)
  assume "leadingRune ws s \<noteq> None"
  then obtain w where w: "leadingRune ws s = Some w" by auto
  then have "w \<noteq> []" "prefix w s" "w \<in> set ws" by (auto dest: leadingRune_SomeD)
  then have "hd w \<in> set w" "hd w = hd s" "s \<noteq> []" by (auto simp: prefix_def)
  with assms \<open>w \<in> set ws\<close> show False by (auto simp: list_all_iff)
qed

lemma trimSpace_ends:
  assumes "s \<noteq> []" "visibleChar (hd s)" "visibleChar (last s)"
  shows "trimSpace s = s"
proof -
  have "\<forall>w \<in> set spaceRunes. list_all (\<lambda>c. \<not> visibleChar c) w"
       "\<forall>w \<in> set (map rev spaceRunes). list_all (\<lambda>c. \<not> visibleChar c) w"
    using spaceRunes_not_visible by (auto simp: list_all_iff)
  then have "leadingRune spaceRunes s = None" "leadingRune (map rev spaceRunes) (rev s) = None"
    using assms by (simp_all add: leadingRune_visible hd_rev)
  then show ?thesis by (simp add: trimSpace_def trimLeftRunes_None)
qed

lemma trimSpace_visible: "list_all visibleChar s \<Longrightarrow> trimSpace s = s"
  using trimSpace_ends[of s] by (cases "s = []") (auto simp: list_all_iff)

lemma trimSpace_visible_Cons [simp]:
  "visibleChar c \<Longrightarrow> list_all visibleChar s \<Longrightarrow> trimSpace (c # s) = c # s"
  by (rule trimSpace_visible) simp

text \<open>A trimmed string stays trimmed behind a prefix with visible ends: no code point straddles.\<close>

lemma trimSpace_clean_end: "leadingRune (map rev spaceRunes) (rev (trimSpace s)) = None"
  by (simp add: trimSpace_def trimLeftRunes_clean)

lemma trimSpace_append:
  assumes "p \<noteq> []" "visibleChar (hd p)" "visibleChar (last p)" "t \<noteq> []" "trimSpace t = t"
  shows "trimSpace (p @ t) = p @ t"
proof -
  have invis: "\<not> visibleChar c" if "w \<in> set (map rev spaceRunes)" "c \<in> set w" for w c
    using that spaceRunes_not_visible by auto
  have "leadingRune spaceRunes (p @ t) = None"
    using assms spaceRunes_not_visible by (intro leadingRune_visible) (auto simp: list_all_iff)
  moreover have "leadingRune (map rev spaceRunes) (rev (p @ t)) = None"
  proof (rule ccontr)
    assume "leadingRune (map rev spaceRunes) (rev (p @ t)) \<noteq> None"
    then obtain w where w: "leadingRune (map rev spaceRunes) (rev (p @ t)) = Some w" by auto
    then have ws: "w \<noteq> []" "prefix w (rev t @ rev p)" "w \<in> set (map rev spaceRunes)"
      by (auto dest: leadingRune_SomeD)
    have "prefix w (rev t)"
    proof (rule ccontr)
      assume "\<not> prefix w (rev t)"
      with ws(2) obtain v where v: "w = rev t @ v" "prefix v (rev p)" "v \<noteq> []"
        by (auto simp: prefix_append)
      then have "hd v = last p" "hd v \<in> set w" using assms(1) by (auto simp: prefix_def hd_rev[symmetric])
      with invis[OF ws(3)] assms(3) show False by auto
    qed
    then have "take (length w) (rev t) = w" by (auto simp: prefix_def)
    moreover have "leadingRune (map rev spaceRunes) (rev t) = None"
      using trimSpace_clean_end[of t] assms(5) by simp
    ultimately show False using ws by (auto simp: leadingRune_def find_None_iff)
  qed
  ultimately show ?thesis by (simp add: trimSpace_def trimLeftRunes_None)
qed

text \<open>\<^verbatim>\<open>strings.CutPrefix\<close> and \<^verbatim>\<open>strings.Cut\<close> with a one-byte separator.\<close>

definition cutPrefix :: "string \<Rightarrow> string \<Rightarrow> string option" where
  "cutPrefix s p = (if prefix p s then Some (drop (length p) s) else None)"

fun cutAt :: "char \<Rightarrow> string \<Rightarrow> (string \<times> string) option" where
  "cutAt sep [] = None"
| "cutAt sep (c # cs) =
     (if c = sep then Some ([], cs)
      else map_option (\<lambda>(a, b). (c # a, b)) (cutAt sep cs))"

lemma cutAt_append: "sep \<notin> set a \<Longrightarrow> cutAt sep (a @ sep # b) = Some (a, b)"
  by (induction a) auto

lemma cutAt_SomeD: "cutAt sep s = Some (a, b) \<Longrightarrow> s = a @ sep # b \<and> sep \<notin> set a"
  by (induction s arbitrary: a) (auto split: if_splits)

lemma cutPrefix_append [simp]: "cutPrefix (p @ s) p = Some s"
  by (simp add: cutPrefix_def)

section \<open>Tables listed and rebuilt\<close>

text \<open>A snapshot lists a table's rows in key order; a restore folds the rows back into an empty
  table, skipping the rows its guard refuses.\<close>

definition sortedRows :: "('k::linorder \<rightharpoonup> 'r) \<Rightarrow> 'r list" where
  "sortedRows m = map (\<lambda>k. the (m k)) (sorted_list_of_set (dom m))"

definition rebuildRows :: "('r \<Rightarrow> bool) \<Rightarrow> ('r \<Rightarrow> 'k) \<Rightarrow> 'r list \<Rightarrow> ('k \<rightharpoonup> 'r)" where
  "rebuildRows ok keyOf rows = fold (\<lambda>r m. if ok r then m(keyOf r \<mapsto> r) else m) rows Map.empty"

lemma rebuild_fold:
  assumes "\<And>k r. m k = Some r \<Longrightarrow> keyOf r = k \<and> ok r" "set ks \<subseteq> dom m"
  shows "fold (\<lambda>r m. if ok r then m(keyOf r \<mapsto> r) else m) (map (\<lambda>k. the (m k)) ks) acc k =
         (if k \<in> set ks then m k else acc k)"
  using assms(2)
proof (induction ks arbitrary: acc)
  case Nil
  then show ?case by simp
next
  case (Cons j ks)
  then obtain r where "m j = Some r" by auto
  with assms(1)[OF this] Cons show ?case by simp
qed

lemma rebuild_sortedRows:
  assumes "finite (dom m)" "\<And>k r. m k = Some r \<Longrightarrow> keyOf r = k \<and> ok r"
  shows "rebuildRows ok keyOf (sortedRows m) = m"
  unfolding rebuildRows_def sortedRows_def
  by (rule ext, subst rebuild_fold[of m keyOf ok]) (use assms in \<open>auto simp: domIff\<close>)

lemma set_sortedRows: "finite (dom m) \<Longrightarrow> set (sortedRows m) = ran m"
  by (force simp: sortedRows_def ran_def image_iff domIff)

lemma card_dom_upd:
  "finite (dom m) \<Longrightarrow> card (dom (m(k \<mapsto> v))) = (if m k = None then Suc (card (dom m)) else card (dom m))"
  by (auto simp: domIff insert_absorb)

section \<open>Tallies\<close>

text \<open>The sum of a measure over the values of a finite map, and how one update moves it.\<close>

definition tally :: "('i \<rightharpoonup> 'c) \<Rightarrow> ('c \<Rightarrow> 'n) \<Rightarrow> 'n::linordered_idom" where
  "tally m v = (\<Sum>i \<in> dom m. v (the (m i)))"

lemma tally_empty [simp]: "tally Map.empty v = 0"
  by (simp add: tally_def)

lemma tally_remove:
  assumes "finite (dom m)" and "m i = Some c"
  shows "tally (m(i := None)) v = tally m v - v c"
proof -
  have "tally (m(i := None)) v = (\<Sum>j \<in> dom m - {i}. v (the (m j)))"
    unfolding tally_def by (rule sum.cong) auto
  also have "\<dots> = tally m v - v c"
    using assms by (subst sum_diff1) (auto simp: tally_def)
  finally show ?thesis .
qed

lemma tally_insert:
  assumes "finite (dom m)" and "m i = None"
  shows "tally (m(i \<mapsto> c)) v = tally m v + v c"
  using tally_remove[of "m(i \<mapsto> c)" i c v] assms by (simp add: fun_upd_idem)

lemma tally_replace:
  assumes "finite (dom m)" and "m i = Some c"
  shows "tally (m(i \<mapsto> c')) v = tally m v - v c + v c'"
  using tally_insert[of "m(i := None)" i c' v] tally_remove[OF assms, of v] assms by simp

lemma tally_member:
  assumes "finite (dom m)" and "m i = Some c" and "\<And>x. 0 \<le> v x"
  shows "v c \<le> tally m v"
proof -
  have "0 \<le> tally (m(i := None)) v" unfolding tally_def by (intro sum_nonneg assms(3))
  then show ?thesis using tally_remove[OF assms(1,2), of v] by simp
qed

lemma tally_filter:
  assumes "finite (dom m)"
  shows "tally (\<lambda>i. case m i of None \<Rightarrow> None | Some c \<Rightarrow> if P c then Some c else None) v =
         tally m (\<lambda>c. if P c then v c else 0)"
  unfolding tally_def using assms
  by (intro sum.mono_neutral_cong_left) (auto split: option.splits if_splits)

end
