(* ===== verification/Change_Log.thy ===== *)
theory Change_Log
  imports Prelude
begin

text \<open>
  The placement change log (\<^verbatim>\<open>internal/cluster/placement_changelog.go\<close>): a bounded ring of
  (Raft index, sandbox id) entries, written by every apply that touches a placement row, and the
  versioned delta feed served from it.  Rows are a type parameter here.  The ring is shown to
  implement a bounded queue, the floor to be an honest coverage boundary, and one answer of the
  feed to bring a client that was in step at the cursor into step at the returned cursor.
\<close>

section \<open>The ring\<close>

record placementChangeEntry =
  ceIndex :: nat
  ceId :: string
  ceDeleted :: bool

record placementChangeLog =
  clBuf :: "placementChangeEntry list"
  clStart :: nat
  clN :: nat
  clFloor :: nat
  clLast :: nat

definition zeroChangeEntry :: placementChangeEntry where
  "zeroChangeEntry = \<lparr>ceIndex = 0, ceId = [], ceDeleted = False\<rparr>"

definition defaultPlacementChangeLogCap :: int where
  "defaultPlacementChangeLogCap = 65536"

definition newPlacementChangeLog :: "int \<Rightarrow> placementChangeLog" where
  "newPlacementChangeLog capacity =
     (let capacity = (if capacity \<le> 0 then defaultPlacementChangeLogCap else capacity)
      in \<lparr>clBuf = replicate (nat capacity) zeroChangeEntry, clStart = 0, clN = 0,
          clFloor = 0, clLast = 0\<rparr>)"

definition logReset :: "nat \<Rightarrow> placementChangeLog \<Rightarrow> placementChangeLog" where
  "logReset floor l =
     l\<lparr>clBuf := map (\<lambda>_. zeroChangeEntry) (clBuf l), clStart := 0, clN := 0,
       clFloor := floor, clLast := floor\<rparr>"

definition logRecord :: "nat \<Rightarrow> string \<Rightarrow> bool \<Rightarrow> placementChangeLog \<Rightarrow> placementChangeLog" where
  "logRecord index i deleted l =
     (let l = (if index < clLast l
               then logReset (if index > 0 then index - 1 else 0) l else l);
          l = (if clN l = length (clBuf l)
               then let evicted = clBuf l ! clStart l in
                    l\<lparr>clStart := (clStart l + 1) mod length (clBuf l), clN := clN l - 1,
                      clFloor := (if ceIndex evicted > clFloor l then ceIndex evicted
                                  else clFloor l)\<rparr>
               else l)
      in l\<lparr>clBuf := (clBuf l)[(clStart l + clN l) mod length (clBuf l) :=
                        \<lparr>ceIndex = index, ceId = i, ceDeleted = deleted\<rparr>],
           clN := clN l + 1, clLast := index\<rparr>)"

definition logAt :: "placementChangeLog \<Rightarrow> nat \<Rightarrow> placementChangeEntry" where
  "logAt l i = clBuf l ! ((clStart l + i) mod length (clBuf l))"

text \<open>The live entries, oldest first, and the well-formedness of the ring.\<close>

definition logEntries :: "placementChangeLog \<Rightarrow> placementChangeEntry list" where
  "logEntries l = map (logAt l) [0..<clN l]"

definition logWf :: "placementChangeLog \<Rightarrow> bool" where
  "logWf l \<longleftrightarrow> clBuf l \<noteq> [] \<and> clStart l < length (clBuf l) \<and> clN l \<le> length (clBuf l)"

section \<open>The delta feed\<close>

record 'p PlacementChange =
  chIndex :: nat
  chSandboxID :: string
  chDeleted :: bool
  chPlacement :: "'p option"

record 'p PlacementChangesResponse =
  respChanges :: "'p PlacementChange list"
  respNext :: nat
  respResnapshot :: bool
  respFloor :: nat

definition placementChangeSize :: "string \<Rightarrow> int" where
  "placementChangeSize i = 1024 + int (length i)"

text \<open>One entry of a group: the latest value wins, at the position of the first sighting.\<close>

definition serveEntry ::
  "(string \<rightharpoonup> 'p) \<Rightarrow> 'p PlacementChange list \<times> (string \<rightharpoonup> nat) \<Rightarrow> placementChangeEntry
     \<Rightarrow> 'p PlacementChange list \<times> (string \<rightharpoonup> nat)" where
  "serveEntry placements acc e =
     (let (changes, pos) = acc;
          ch = (case placements (ceId e) of
                  Some p \<Rightarrow> \<lparr>chIndex = ceIndex e, chSandboxID = ceId e, chDeleted = False,
                             chPlacement = Some p\<rparr>
                | None \<Rightarrow> \<lparr>chIndex = ceIndex e, chSandboxID = ceId e, chDeleted = True,
                          chPlacement = None\<rparr>)
      in case pos (ceId e) of
           Some k \<Rightarrow> (changes[k := ch], pos)
         | None \<Rightarrow> (changes @ [ch], pos(ceId e \<mapsto> length changes)))"

text \<open>The walk over the entries newer than the cursor, one index group at a time.  The result is
  the changes, the last complete index, and the entries left for the next call.\<close>

function serveGroups ::
  "(string \<rightharpoonup> 'p) \<Rightarrow> int \<Rightarrow> (string \<rightharpoonup> nat) \<Rightarrow> 'p PlacementChange list \<Rightarrow> nat
     \<Rightarrow> placementChangeEntry list
     \<Rightarrow> 'p PlacementChange list \<times> nat \<times> placementChangeEntry list" where
  "serveGroups placements budget pos changes lastComplete [] = (changes, lastComplete, [])"
| "serveGroups placements budget pos changes lastComplete (e # es) =
     (let grp = takeWhile (\<lambda>x. ceIndex x = ceIndex e) (e # es);
          rest = dropWhile (\<lambda>x. ceIndex x = ceIndex e) (e # es);
          groupBytes = sum_list (map (\<lambda>x. placementChangeSize (ceId x)) grp)
      in if groupBytes > budget \<and> changes \<noteq> []
         then (changes, lastComplete, e # es)
         else let (changes', pos') = foldl (serveEntry placements) (changes, pos) grp
              in serveGroups placements (budget - groupBytes) pos' changes' (ceIndex e) rest)"
  by pat_completeness auto
termination
  by (relation "measure (\<lambda>(placements, budget, pos, changes, lastComplete, es). length es)")
     (auto simp: le_imp_less_Suc length_dropWhile_le)

definition changesSinceLocked ::
  "int \<Rightarrow> (string \<rightharpoonup> 'p) \<Rightarrow> nat \<Rightarrow> placementChangeLog \<Rightarrow> nat \<Rightarrow> 'p PlacementChangesResponse" where
  "changesSinceLocked budget placements version l since =
     (if since < clFloor l
      then \<lparr>respChanges = [], respNext = version, respResnapshot = True, respFloor = clFloor l\<rparr>
      else let newer = dropWhile (\<lambda>e. ceIndex e \<le> since) (logEntries l);
               (changes, lastComplete, left) =
                 serveGroups placements budget Map.empty [] since newer
           in \<lparr>respChanges = changes,
               respNext = (if left = [] then max version lastComplete else lastComplete),
               respResnapshot = False, respFloor = clFloor l\<rparr>)"

text \<open>The read entry point: a state machine that recorded nothing yet has no log.\<close>

definition placementChanges ::
  "int \<Rightarrow> (string \<rightharpoonup> 'p) \<Rightarrow> nat \<Rightarrow> placementChangeLog option \<Rightarrow> nat
     \<Rightarrow> 'p PlacementChangesResponse" where
  "placementChanges budget placements version lo since =
     (case lo of
        None \<Rightarrow> \<lparr>respChanges = [], respNext = version, respResnapshot = (since < version),
                 respFloor = version\<rparr>
      | Some l \<Rightarrow> changesSinceLocked budget placements version l since)"

definition recordPlacementChange ::
  "nat \<Rightarrow> string \<Rightarrow> bool \<Rightarrow> placementChangeLog option \<Rightarrow> placementChangeLog option" where
  "recordPlacementChange version i deleted lo =
     Some (logRecord version i deleted
             (case lo of None \<Rightarrow> newPlacementChangeLog 0 | Some l \<Rightarrow> l))"

definition resetPlacementChanges ::
  "nat \<Rightarrow> placementChangeLog option \<Rightarrow> placementChangeLog option" where
  "resetPlacementChanges floor lo =
     Some (logReset floor (case lo of None \<Rightarrow> newPlacementChangeLog 0 | Some l \<Rightarrow> l))"

section \<open>The ring is a bounded queue\<close>

lemma ring_slots_distinct:
  assumes "i < n" "n < (c::nat)"
  shows "(s + i) mod c \<noteq> (s + n) mod c"
proof
  assume "(s + i) mod c = (s + n) mod c"
  then have "c dvd (s + n) - (s + i)" using assms by (metis mod_eq_dvd_iff_nat nat_add_left_cancel_le less_imp_le)
  then have "c dvd n - i" by simp
  with assms show False by (auto dest: dvd_imp_le)
qed

lemma logEntries_push:
  assumes "logWf l" "clN l < length (clBuf l)"
  shows "logEntries (l\<lparr>clBuf := (clBuf l)[(clStart l + clN l) mod length (clBuf l) := e],
                       clN := Suc (clN l), clLast := k\<rparr>) = logEntries l @ [e]"
proof -
  have "(clStart l + clN l) mod length (clBuf l) \<noteq> (clStart l + i) mod length (clBuf l)"
    if "i < clN l" for i
    using ring_slots_distinct[OF that assms(2), of "clStart l"] by simp
  then show ?thesis
    using assms by (simp add: logEntries_def logAt_def logWf_def)
qed

lemma logEntries_pop:
  assumes "logWf l" "clN l > 0"
  shows "logEntries (l\<lparr>clStart := (clStart l + 1) mod length (clBuf l), clN := clN l - 1,
                       clFloor := k\<rparr>) = tl (logEntries l)"
proof -
  obtain n where n: "clN l = Suc n" using assms(2) by (cases "clN l") auto
  have "logAt (l\<lparr>clStart := (clStart l + 1) mod length (clBuf l), clN := n, clFloor := k\<rparr>) i
        = logAt l (Suc i)" for i
    by (simp add: logAt_def mod_simps)
  then show ?thesis
    by (simp add: logEntries_def n upt_conv_Cons map_Suc_upt[symmetric] del: upt_Suc)
qed

lemma logEntries_reset [simp]: "logEntries (logReset f l) = []"
  by (simp add: logEntries_def logReset_def)

lemma logWf_reset [simp]: "logWf l \<Longrightarrow> logWf (logReset f l)"
  by (auto simp: logWf_def logReset_def)

lemma logWf_new [simp]: "logWf (newPlacementChangeLog c)"
  by (simp add: newPlacementChangeLog_def logWf_def Let_def defaultPlacementChangeLogCap_def)

lemma logEntries_new [simp]: "logEntries (newPlacementChangeLog c) = []"
  by (simp add: newPlacementChangeLog_def logEntries_def Let_def)

lemma length_logEntries [simp]: "length (logEntries l) = clN l"
  by (simp add: logEntries_def)

lemma hd_logEntries: "0 < clN l \<Longrightarrow> logWf l \<Longrightarrow> hd (logEntries l) = clBuf l ! clStart l"
  by (simp add: logEntries_def logAt_def logWf_def hd_map upt_rec)

text \<open>The abstract log: the retained entries, the floor and the highest index.\<close>

record absLog =
  alEntries :: "placementChangeEntry list"
  alFloor :: nat
  alLast :: nat

definition absOf :: "placementChangeLog \<Rightarrow> absLog" where
  "absOf l = \<lparr>alEntries = logEntries l, alFloor = clFloor l, alLast = clLast l\<rparr>"

lemma absOf_sel [simp]:
  "alEntries (absOf l) = logEntries l" "alFloor (absOf l) = clFloor l" "alLast (absOf l) = clLast l"
  by (simp_all add: absOf_def)

definition absRecord :: "nat \<Rightarrow> nat \<Rightarrow> string \<Rightarrow> bool \<Rightarrow> absLog \<Rightarrow> absLog" where
  "absRecord cap index i deleted a =
     (let a = (if index < alLast a
               then \<lparr>alEntries = [], alFloor = index - 1, alLast = index - 1\<rparr> else a);
          a = (if length (alEntries a) = cap
               then a\<lparr>alFloor := max (alFloor a) (ceIndex (hd (alEntries a))),
                      alEntries := tl (alEntries a)\<rparr> else a)
      in a\<lparr>alEntries := alEntries a @ [\<lparr>ceIndex = index, ceId = i, ceDeleted = deleted\<rparr>],
           alLast := index\<rparr>)"

lemma logWf_full_pop:
  "logWf l \<Longrightarrow> clN l = length (clBuf l) \<Longrightarrow>
   logWf (l\<lparr>clStart := (clStart l + 1) mod length (clBuf l), clN := clN l - 1, clFloor := k\<rparr>)"
  by (auto simp: logWf_def)

lemma logRecord_wf: "logWf l \<Longrightarrow> logWf (logRecord index i d l) \<and>
    length (clBuf (logRecord index i d l)) = length (clBuf l)"
  by (auto simp: logRecord_def logWf_def Let_def logReset_def Suc_le_eq)

lemma absOf_reset [simp]:
  "absOf (logReset f l) = \<lparr>alEntries = [], alFloor = f, alLast = f\<rparr>"
  by (simp add: absOf_def) (simp add: logReset_def)

lemma absOf_trim:
  assumes "logWf l" "clN l = length (clBuf l)"
  shows "absOf (l\<lparr>clStart := (clStart l + 1) mod length (clBuf l), clN := clN l - 1,
                  clFloor := (if ceIndex (clBuf l ! clStart l) > clFloor l
                              then ceIndex (clBuf l ! clStart l) else clFloor l)\<rparr>)
       = (absOf l)\<lparr>alFloor := max (alFloor (absOf l)) (ceIndex (hd (alEntries (absOf l)))),
                    alEntries := tl (alEntries (absOf l))\<rparr>"
proof -
  have "0 < clN l" using assms by (auto simp: logWf_def)
  from logEntries_pop[OF assms(1) this] hd_logEntries[OF this assms(1)]
  show ?thesis by (simp add: absOf_def max_def)
qed

lemma absOf_push:
  assumes "logWf l" "clN l < length (clBuf l)"
  shows "absOf (l\<lparr>clBuf := (clBuf l)[(clStart l + clN l) mod length (clBuf l) := e],
                  clN := Suc (clN l), clLast := k\<rparr>)
       = (absOf l)\<lparr>alEntries := alEntries (absOf l) @ [e], alLast := k\<rparr>"
  by (simp add: absOf_def logEntries_push[OF assms])

lemma logRecord_refines:
  assumes "logWf l"
  shows "absOf (logRecord index i d l) = absRecord (length (clBuf l)) index i d (absOf l)"
proof -
  define l1 where "l1 = (if index < clLast l then logReset (index - 1) l else l)"
  define l2 where "l2 = (if clN l1 = length (clBuf l1)
      then l1\<lparr>clStart := (clStart l1 + 1) mod length (clBuf l1), clN := clN l1 - 1,
              clFloor := (if ceIndex (clBuf l1 ! clStart l1) > clFloor l1
                          then ceIndex (clBuf l1 ! clStart l1) else clFloor l1)\<rparr> else l1)"
  have wf1: "logWf l1" and cap1: "length (clBuf l1) = length (clBuf l)"
    using assms by (auto simp: l1_def) (auto simp: logReset_def)
  have wf2: "logWf l2" and cap2: "length (clBuf l2) = length (clBuf l)"
    and room: "clN l2 < length (clBuf l2)"
    using wf1 cap1 logWf_full_pop[OF wf1] by (auto simp: l2_def) (auto simp: logWf_def)
  have rec: "logRecord index i d l =
     l2\<lparr>clBuf := (clBuf l2)[(clStart l2 + clN l2) mod length (clBuf l2) :=
          \<lparr>ceIndex = index, ceId = i, ceDeleted = d\<rparr>], clN := Suc (clN l2), clLast := index\<rparr>"
    by (simp add: logRecord_def l1_def l2_def Let_def)
  have abs1: "absOf l1 = (if index < alLast (absOf l)
      then \<lparr>alEntries = [], alFloor = index - 1, alLast = index - 1\<rparr> else absOf l)"
    by (simp add: l1_def)
  have len1: "length (alEntries (absOf l1)) = clN l1" by (simp add: absOf_def)
  have abs2: "absOf l2 = (if length (alEntries (absOf l1)) = length (clBuf l)
      then (absOf l1)\<lparr>alFloor := max (alFloor (absOf l1)) (ceIndex (hd (alEntries (absOf l1)))),
                      alEntries := tl (alEntries (absOf l1))\<rparr> else absOf l1)"
    using absOf_trim[OF wf1] by (simp add: l2_def len1 cap1)
  show ?thesis
    unfolding rec absOf_push[OF wf2 room] absRecord_def Let_def abs2 abs1 by simp
qed

text \<open>The two ways the state machine changes the log: it records an applied change, or a restore
  starts the log again.\<close>

datatype changeLogStep = RecordStep nat string bool | ResetStep nat

fun logStep :: "placementChangeLog \<Rightarrow> changeLogStep \<Rightarrow> placementChangeLog" where
  "logStep l (RecordStep index i deleted) = logRecord index i deleted l"
| "logStep l (ResetStep floor) = logReset floor l"

fun absStep :: "nat \<Rightarrow> absLog \<Rightarrow> changeLogStep \<Rightarrow> absLog" where
  "absStep cap a (RecordStep index i deleted) = absRecord cap index i deleted a"
| "absStep cap a (ResetStep floor) = \<lparr>alEntries = [], alFloor = floor, alLast = floor\<rparr>"

lemma logStep_refines:
  assumes "logWf l"
  shows "absOf (logStep l s) = absStep (length (clBuf l)) (absOf l) s \<and>
         logWf (logStep l s) \<and> length (clBuf (logStep l s)) = length (clBuf l)"
  using assms logRecord_wf[OF assms] logRecord_refines[OF assms]
  by (cases s) (simp_all, simp add: logReset_def)

section \<open>The floor is honest\<close>

definition logRun :: "placementChangeLog \<Rightarrow> placementChangeEntry list \<Rightarrow> placementChangeLog" where
  "logRun l h = foldl (\<lambda>l e. logRecord (ceIndex e) (ceId e) (ceDeleted e) l) l h"

definition covers :: "placementChangeEntry list \<Rightarrow> absLog \<Rightarrow> bool" where
  "covers h a \<longleftrightarrow> (\<exists>old. h = old @ alEntries a \<and> (\<forall>e \<in> set old. ceIndex e \<le> alFloor a))"

lemma absRecord_covers:
  assumes "covers h a" "alLast a \<le> ceIndex e" "0 < cap"
  shows "covers (h @ [e]) (absRecord cap (ceIndex e) (ceId e) (ceDeleted e) a) \<and>
         alLast (absRecord cap (ceIndex e) (ceId e) (ceDeleted e) a) = ceIndex e"
proof -
  obtain old where h: "h = old @ alEntries a" and old: "\<forall>x \<in> set old. ceIndex x \<le> alFloor a"
    using assms(1) by (auto simp: covers_def)
  show ?thesis
  proof (cases "length (alEntries a) = cap")
    case True
    then obtain x xs where xs: "alEntries a = x # xs" using assms(3) by (cases "alEntries a") auto
    show ?thesis
      using assms(2) True old
      by (auto simp: covers_def absRecord_def Let_def h xs max_def intro!: exI[of _ "old @ [x]"])
  next
    case False
    then show ?thesis
      using assms(2) old by (auto simp: covers_def absRecord_def Let_def h)
  qed
qed

lemma logRun_covers:
  assumes "logWf l" "covers h0 (absOf l)" "sorted (clLast l # map ceIndex h)"
  shows "logWf (logRun l h) \<and> covers (h0 @ h) (absOf (logRun l h))"
  using assms
proof (induction h arbitrary: l h0)
  case Nil
  then show ?case by (simp add: logRun_def)
next
  case (Cons e h)
  let ?l = "logRecord (ceIndex e) (ceId e) (ceDeleted e) l"
  have "0 < length (clBuf l)" using Cons.prems(1) by (simp add: logWf_def)
  then have step: "covers (h0 @ [e]) (absOf ?l)" "alLast (absOf ?l) = ceIndex e"
    using absRecord_covers[OF Cons.prems(2), of e "length (clBuf l)"] Cons.prems(3)
    by (auto simp: logRecord_refines[OF Cons.prems(1)])
  then have "sorted (clLast ?l # map ceIndex h)" using Cons.prems(3) by simp
  from Cons.IH[OF _ step(1) this] show ?case
    using logRecord_wf[OF Cons.prems(1)] by (simp add: logRun_def)
qed

lemma logRun_floor_kept:
  assumes "logWf l" "clN l + length h \<le> length (clBuf l)" "sorted (clLast l # map ceIndex h)"
  shows "clFloor (logRun l h) = clFloor l"
  using assms
proof (induction h arbitrary: l)
  case (Cons e h)
  let ?l = "logRecord (ceIndex e) (ceId e) (ceDeleted e) l"
  have "clN ?l = Suc (clN l)" "clLast ?l = ceIndex e" "clFloor ?l = clFloor l"
    using Cons.prems by (auto simp: logRecord_def Let_def)
  then show ?case
    using Cons.IH[of ?l] Cons.prems logRecord_wf[OF Cons.prems(1)] by (simp add: logRun_def)
qed (simp add: logRun_def)

lemma changed_between:
  "{ceId e |e. e \<in> set h \<and> a < ceIndex e \<and> ceIndex e \<le> b} =
   ceId ` set (filter (\<lambda>e. a < ceIndex e \<and> ceIndex e \<le> b) h)"
  by auto

lemma split_at_cursor:
  assumes "filter (\<lambda>e. since < ceIndex e) h = fin @ left"
    and "\<forall>e \<in> set fin. ceIndex e \<le> nx" "\<forall>e \<in> set left. nx < ceIndex e"
  shows "set fin = {e \<in> set h. since < ceIndex e \<and> ceIndex e \<le> nx}"
proof -
  have "{e \<in> set h. since < ceIndex e} = set fin \<union> set left"
    using arg_cong[OF assms(1), of set] by auto
  with assms(2,3) show ?thesis by (auto simp: set_eq_iff not_le[symmetric])
qed

lemma covers_no_gap:
  assumes "covers h a" "alFloor a \<le> since"
  shows "filter (\<lambda>e. since < ceIndex e) h = filter (\<lambda>e. since < ceIndex e) (alEntries a)"
  using assms by (force simp: covers_def filter_empty_conv)


lemma covers_sorted: "covers h a \<Longrightarrow> sorted (map ceIndex h) \<Longrightarrow> sorted (map ceIndex (alEntries a))"
  by (auto simp: covers_def sorted_append)

section \<open>The feed brings a client into step\<close>

definition currentChange :: "(string \<rightharpoonup> 'p) \<Rightarrow> 'p PlacementChange \<Rightarrow> bool" where
  "currentChange rows ch \<longleftrightarrow>
     chPlacement ch = rows (chSandboxID ch) \<and> (chDeleted ch \<longleftrightarrow> rows (chSandboxID ch) = None)"

definition servedChanges :: "(string \<rightharpoonup> 'p) \<Rightarrow> 'p PlacementChange list \<Rightarrow> bool" where
  "servedChanges rows changes \<longleftrightarrow>
     distinct (map chSandboxID changes) \<and> (\<forall>ch \<in> set changes. currentChange rows ch)"

definition served :: "(string \<rightharpoonup> 'p) \<Rightarrow> 'p PlacementChange list \<Rightarrow> (string \<rightharpoonup> nat) \<Rightarrow> bool" where
  "served rows changes pos \<longleftrightarrow>
     servedChanges rows changes \<and>
     (\<forall>i k. pos i = Some k \<longleftrightarrow> k < length changes \<and> chSandboxID (changes ! k) = i)"

abbreviation changeIds :: "'p PlacementChange list \<Rightarrow> string set" where
  "changeIds changes \<equiv> chSandboxID ` set changes"

lemma served_ids: "served rows changes pos \<Longrightarrow> dom pos = changeIds changes"
  by (force simp: served_def in_set_conv_nth)

lemma serveEntry_served:
  assumes "served rows changes pos" "serveEntry rows (changes, pos) e = (changes', pos')"
  shows "served rows changes' pos' \<and> changeIds changes' = insert (ceId e) (changeIds changes)"
proof (cases "pos (ceId e)")
  case None
  then have fresh: "ceId e \<notin> changeIds changes" using served_ids[OF assms(1)] by auto
  then have "chSandboxID (changes ! k) \<noteq> ceId e" if "k < length changes" for k
    using that by (metis image_eqI nth_mem)
  with fresh None assms show ?thesis
    by (auto simp: serveEntry_def served_def servedChanges_def currentChange_def nth_append
                   less_Suc_eq
             split: option.splits if_splits)
next
  case (Some k)
  then have k: "k < length changes" "chSandboxID (changes ! k) = ceId e"
    using assms(1) by (auto simp: served_def)
  obtain ch where ch: "changes' = changes[k := ch]" "pos' = pos" "chSandboxID ch = ceId e"
      "currentChange rows ch"
    using assms(2) Some
    by (auto simp: serveEntry_def currentChange_def split: option.splits)
  have ids: "map chSandboxID (changes[k := ch]) = map chSandboxID changes"
    using k ch by (simp add: map_update list_update_same_conv)
  have "served rows changes' pos'"
    using assms(1) ids ch k unfolding served_def servedChanges_def
    by (auto simp: nth_list_update dest!: set_update_subset_insert[THEN subsetD])
  moreover have "changeIds changes' = changeIds changes"
    using ids ch(1) by (metis list.set_map)
  moreover have "ceId e \<in> changeIds changes" using k by (metis image_eqI nth_mem)
  ultimately show ?thesis by auto
qed

lemma foldl_serveEntry_served:
  assumes "served rows changes pos"
    and "foldl (serveEntry rows) (changes, pos) es = (changes', pos')"
  shows "served rows changes' pos' \<and> changeIds changes' = ceId ` set es \<union> changeIds changes"
  using assms
proof (induction es arbitrary: changes pos)
  case Nil
  then show ?case by simp
next
  case (Cons e es)
  obtain c p where step: "serveEntry rows (changes, pos) e = (c, p)" by fastforce
  from serveEntry_served[OF Cons.prems(1) step] Cons.IH[of c p] Cons.prems(2) step
  show ?case by auto
qed

text \<open>The walk serves whole index groups: what it leaves has a larger index than all it served.\<close>

definition groupsServed ::
  "(string \<rightharpoonup> 'p) \<Rightarrow> 'p PlacementChange list \<Rightarrow> nat \<Rightarrow> placementChangeEntry list
     \<Rightarrow> 'p PlacementChange list \<Rightarrow> nat \<Rightarrow> placementChangeEntry list \<Rightarrow> bool" where
  "groupsServed rows changes lastC es changes' lastC' left \<longleftrightarrow>
     (\<exists>fin. es = fin @ left \<and> servedChanges rows changes' \<and>
        changeIds changes' = ceId ` set fin \<union> changeIds changes \<and>
        lastC \<le> lastC' \<and> (\<forall>e \<in> set fin. ceIndex e \<le> lastC') \<and>
        (fin \<noteq> [] \<longrightarrow> lastC' = ceIndex (last fin) \<and> (\<forall>e \<in> set left. lastC' < ceIndex e)) \<and>
        (fin = [] \<longrightarrow> lastC' = lastC \<and> (changes = [] \<longrightarrow> es = [])))"

lemma groupsServed_step:
  assumes grp: "grp = takeWhile (\<lambda>x. ceIndex x = ceIndex e) (e # es)"
    and rest: "rest = dropWhile (\<lambda>x. ceIndex x = ceIndex e) (e # es)"
    and srt: "sorted (lastC # map ceIndex (e # es))"
    and ids: "changeIds changes1 = ceId ` set grp \<union> changeIds changes"
    and ih: "groupsServed rows changes1 (ceIndex e) rest changes' lastC' left"
  shows "groupsServed rows changes lastC (e # es) changes' lastC' left"
proof -
  have split: "e # es = grp @ rest" by (simp only: grp rest takeWhile_dropWhile_id)
  have grp_idx: "\<forall>x \<in> set grp. ceIndex x = ceIndex e" unfolding grp by (meson set_takeWhileD)
  have grp_ne: "grp \<noteq> []" by (simp add: grp)
  have above: "\<forall>x \<in> set rest. ceIndex e < ceIndex x"
  proof (cases rest)
    case (Cons r rs)
    have "ceIndex r \<noteq> ceIndex e"
      using hd_dropWhile[of "\<lambda>x. ceIndex x = ceIndex e" "e # es"] Cons
      unfolding rest[symmetric] by simp
    moreover have "sorted (map ceIndex (e # es))" using srt by simp
    then have srt': "sorted (map ceIndex grp @ map ceIndex (r # rs))"
      by (simp only: split map_append Cons)
    have "last grp \<in> set grp" using grp_ne by simp
    with srt' have "\<forall>x \<in> set rs. ceIndex r \<le> ceIndex x" "ceIndex (last grp) \<le> ceIndex r"
      unfolding sorted_append by auto
    ultimately show ?thesis
      using Cons grp_idx \<open>last grp \<in> set grp\<close> by (auto simp: le_less order.strict_trans1)
  qed simp
  obtain fin where fin: "rest = fin @ left" "servedChanges rows changes'"
      "changeIds changes' = ceId ` set fin \<union> changeIds changes1" "ceIndex e \<le> lastC'"
      "\<forall>x \<in> set fin. ceIndex x \<le> lastC'"
      "fin \<noteq> [] \<longrightarrow> lastC' = ceIndex (last fin) \<and> (\<forall>x \<in> set left. lastC' < ceIndex x)"
      "fin = [] \<longrightarrow> lastC' = ceIndex e"
    using ih unfolding groupsServed_def by blast
  show ?thesis
    unfolding groupsServed_def
  proof (intro exI[of _ "grp @ fin"] conjI)
    show "e # es = (grp @ fin) @ left" using split fin(1) by simp
    show "servedChanges rows changes'" by (rule fin(2))
    show "changeIds changes' = ceId ` set (grp @ fin) \<union> changeIds changes"
      using fin(3) ids by auto
    show "lastC \<le> lastC'" using srt fin(4) by simp
    show "\<forall>x \<in> set (grp @ fin). ceIndex x \<le> lastC'" using grp_idx fin(4,5) by auto
    show "grp @ fin \<noteq> [] \<longrightarrow>
        lastC' = ceIndex (last (grp @ fin)) \<and> (\<forall>x \<in> set left. lastC' < ceIndex x)"
      using fin(1,6,7) grp_ne grp_idx above by (cases "fin = []") auto
    show "grp @ fin = [] \<longrightarrow> lastC' = lastC \<and> (changes = [] \<longrightarrow> e # es = [])"
      using grp_ne by simp
  qed
qed

lemma serveGroups_spec:
  assumes "served rows changes pos" "sorted (lastC # map ceIndex es)"
    and "serveGroups rows budget pos changes lastC es = (changes', lastC', left)"
  shows "groupsServed rows changes lastC es changes' lastC' left"
  using assms
proof (induction rows budget pos changes lastC es arbitrary: changes' lastC' left rule: serveGroups.induct)
  case (1 rows budget pos changes lastC)
  then show ?case by (auto simp: groupsServed_def served_def)
next
  case (2 rows budget pos changes lastC e es)
  define grp where "grp = takeWhile (\<lambda>x. ceIndex x = ceIndex e) (e # es)"
  define rest where "rest = dropWhile (\<lambda>x. ceIndex x = ceIndex e) (e # es)"
  define bytes where "bytes = sum_list (map (\<lambda>x. placementChangeSize (ceId x)) grp)"
  have eq: "serveGroups rows budget pos changes lastC (e # es) =
      (if bytes > budget \<and> changes \<noteq> [] then (changes, lastC, e # es)
       else let (c, p) = foldl (serveEntry rows) (changes, pos) grp
            in serveGroups rows (budget - bytes) p c (ceIndex e) rest)"
    by (simp only: serveGroups.simps grp_def rest_def bytes_def Let_def)
  show ?case
  proof (cases "bytes > budget \<and> changes \<noteq> []")
    case True
    then have "changes' = changes" "lastC' = lastC" "left = e # es"
      using "2.prems"(3) unfolding eq by auto
    then show ?thesis
      using True "2.prems"(1) unfolding groupsServed_def served_def by auto
  next
    case False
    obtain changes1 pos1 where f: "foldl (serveEntry rows) (changes, pos) grp = (changes1, pos1)"
      by fastforce
    note s1 = foldl_serveEntry_served[OF "2.prems"(1) f]
    have run: "serveGroups rows (budget - bytes) pos1 changes1 (ceIndex e) rest
               = (changes', lastC', left)"
      using "2.prems"(3) False f unfolding eq if_not_P[OF False] by simp
    have "e # es = grp @ rest" by (simp only: grp_def rest_def takeWhile_dropWhile_id)
    then have "sorted (map ceIndex (e # es))" "set rest \<subseteq> insert e (set es)"
      using "2.prems"(2) by (simp, metis Un_upper2 list.simps(15) set_append)
    then have srt: "sorted (ceIndex e # map ceIndex rest)"
      by (simp only: \<open>e # es = grp @ rest\<close> map_append sorted_append)
         (use "2.prems"(2) in auto)
    have "groupsServed rows changes1 (ceIndex e) rest changes' lastC' left"
      using "2.IH"[OF grp_def rest_def bytes_def False f[symmetric] refl _ srt run] s1 by blast
    with s1 show ?thesis
      by (intro groupsServed_step[OF grp_def rest_def "2.prems"(2)]) auto
  qed
qed

text \<open>A client that merges an answer row by row, and what it means for its view to be in step
  with the server's rows at a cursor: it may differ only on ids changed after the cursor.\<close>

definition applyChange :: "(string \<rightharpoonup> 'p) \<Rightarrow> 'p PlacementChange \<Rightarrow> (string \<rightharpoonup> 'p)" where
  "applyChange view ch = view(chSandboxID ch := (if chDeleted ch then None else chPlacement ch))"

definition inStep ::
  "(string \<rightharpoonup> 'p) \<Rightarrow> placementChangeEntry list \<Rightarrow> nat \<Rightarrow> (string \<rightharpoonup> 'p) \<Rightarrow> bool" where
  "inStep rows h cursor view \<longleftrightarrow>
     (\<forall>i. view i \<noteq> rows i \<longrightarrow> (\<exists>e \<in> set h. ceId e = i \<and> cursor < ceIndex e))"

lemma foldl_applyChange:
  assumes "\<forall>ch \<in> set chs. currentChange rows ch"
  shows "foldl applyChange view chs i = (if i \<in> changeIds chs then rows i else view i)"
  using assms
proof (induction chs arbitrary: view)
  case (Cons ch chs)
  then show ?case by (auto simp: applyChange_def currentChange_def)
qed simp

lemma dropWhile_index_filter:
  "sorted (map ceIndex es) \<Longrightarrow>
   dropWhile (\<lambda>e. ceIndex e \<le> since) es = filter (\<lambda>e. since < ceIndex e) es"
proof (induction es)
  case (Cons e es)
  show ?case
  proof (cases "ceIndex e \<le> since")
    case False
    with Cons.prems have "\<forall>x \<in> set es. since < ceIndex x" by auto
    then have "filter (\<lambda>e. since < ceIndex e) es = es" by (simp add: filter_id_conv)
    with False show ?thesis by simp
  qed (use Cons in auto)
qed simp

text \<open>What one covered answer says: the entries newer than the cursor split into a served part,
  with indexes up to the new cursor, and a part with larger indexes left for the next call.\<close>

lemma changesSince_covered:
  assumes srt: "sorted (map ceIndex (logEntries l))" and cov: "clFloor l \<le> since"
    and resp: "r = changesSinceLocked budget rows version l since"
    and ver: "\<forall>e \<in> set (logEntries l). ceIndex e \<le> version"
  shows "\<exists>fin left. filter (\<lambda>e. since < ceIndex e) (logEntries l) = fin @ left \<and>
           servedChanges rows (respChanges r) \<and> changeIds (respChanges r) = ceId ` set fin \<and>
           (\<forall>e \<in> set fin. ceIndex e \<le> respNext r) \<and> (\<forall>e \<in> set left. respNext r < ceIndex e) \<and>
           (fin @ left \<noteq> [] \<longrightarrow> fin \<noteq> []) \<and> \<not> respResnapshot r"
proof -
  define newer where "newer = filter (\<lambda>e. since < ceIndex e) (logEntries l)"
  have newer: "dropWhile (\<lambda>e. ceIndex e \<le> since) (logEntries l) = newer"
    unfolding newer_def by (rule dropWhile_index_filter[OF srt])
  obtain chs lc left where g: "serveGroups rows budget Map.empty [] since newer = (chs, lc, left)"
    by (metis prod_cases3)
  have "sorted (map ceIndex newer)" unfolding newer_def using srt by (rule sorted_filter)
  moreover have "\<forall>e \<in> set newer. since < ceIndex e" by (simp add: newer_def)
  ultimately have "sorted (since # map ceIndex newer)" by auto
  from serveGroups_spec[OF _ this g] obtain fin where fin: "newer = fin @ left"
      "servedChanges rows chs" "changeIds chs = ceId ` set fin" "\<forall>e \<in> set fin. ceIndex e \<le> lc"
      "fin \<noteq> [] \<longrightarrow> (\<forall>e \<in> set left. lc < ceIndex e)" "fin = [] \<longrightarrow> newer = []"
    by (auto simp: groupsServed_def served_def servedChanges_def)
  have r: "respChanges r = chs" "respNext r = (if left = [] then max version lc else lc)"
      "\<not> respResnapshot r"
    using cov by (simp_all add: resp changesSinceLocked_def newer g)
  show ?thesis
    unfolding newer_def[symmetric] using fin r by (intro exI[of _ fin] exI[of _ left]) auto
qed

section \<open>Properties\<close>

text \<open>Property C28.  The ring buffer implements a bounded queue: for every sequence of recorded
  changes and resets, in any order, the ring's live entries, floor and last index are those of the
  abstract log that keeps the newest entries in a list, raises its floor to the index of every entry
  it drops, and starts again at the given floor when it is reset.\<close>

theorem change_log_ring_refines_queue:
  assumes "logWf l"
  shows "absOf (foldl logStep l steps) = foldl (absStep (length (clBuf l))) (absOf l) steps"
  using assms
proof (induction steps arbitrary: l)
  case (Cons s steps)
  from Cons.IH[of "logStep l s"] logStep_refines[OF Cons.prems, of s] show ?case by simp
qed simp

theorem change_log_ring_refines_queue_witness:
  "absOf (foldl logStep (newPlacementChangeLog 2)
     [RecordStep 1 ''a'' False, RecordStep 2 ''b'' False, RecordStep 3 ''a'' True, ResetStep 5, RecordStep 6 ''c'' False]) =
   \<lparr>alEntries = [\<lparr>ceIndex = 6, ceId = ''c'', ceDeleted = False\<rparr>], alFloor = 5, alLast = 6\<rparr>"
  using change_log_ring_refines_queue[OF logWf_new, of 2
     "[RecordStep 1 ''a'' False, RecordStep 2 ''b'' False, RecordStep 3 ''a'' True, ResetStep 5, RecordStep 6 ''c'' False]"]
  by (simp add: absRecord_def absOf_def newPlacementChangeLog_def logEntries_def)

text \<open>Property C29.  No silent gap: when changes were recorded in Raft order since the log was created
  or last reset, an answer of the change feed either asks for a resnapshot and carries nothing, which
  happens only for a cursor below the floor, or names exactly the sandboxes that changed after the
  cursor and up to the returned one, each once and with its current row, and moves on whenever there
  is a later change; the feed asks for no resnapshot as long as the ring has dropped nothing.\<close>

theorem change_log_no_gap:
  assumes "logWf l" "logEntries l = []" "sorted (clLast l # map ceIndex h)"
    and "\<forall>e \<in> set h. ceIndex e \<le> version"
    and "r = placementChanges budget rows version (Some (logRun l h)) since"
  shows "(if respResnapshot r then since < clFloor (logRun l h) \<and> respChanges r = []
          else changeIds (respChanges r) = {ceId e |e. e \<in> set h \<and> since < ceIndex e \<and> ceIndex e \<le> respNext r} \<and>
               servedChanges rows (respChanges r) \<and>
               ((\<exists>e \<in> set h. since < ceIndex e) \<longrightarrow> respChanges r \<noteq> [] \<and> since < respNext r)) \<and>
         (clFloor l \<le> since \<and> length h \<le> length (clBuf l) \<longrightarrow> \<not> respResnapshot r)"
proof -
  let ?l = "logRun l h"
  have "covers [] (absOf l)" using assms(2) by (simp add: covers_def)
  from logRun_covers[OF assms(1) this assms(3)] have cov: "covers h (absOf ?l)" by simp
  have floor: "clFloor ?l = clFloor l" if "length h \<le> length (clBuf l)"
    using logRun_floor_kept[OF assms(1) _ assms(3)] that assms(2) length_logEntries[of l] by simp
  show ?thesis
  proof (cases "since < clFloor ?l")
    case True
    then have "respResnapshot r" "respChanges r = []"
      by (simp_all add: assms(5) placementChanges_def changesSinceLocked_def)
    then show ?thesis using True floor by auto
  next
    case False
    then have le: "clFloor ?l \<le> since" by simp
    have newer: "filter (\<lambda>e. since < ceIndex e) (logEntries ?l) = filter (\<lambda>e. since < ceIndex e) h"
      using covers_no_gap[OF cov] le by simp
    have srt: "sorted (map ceIndex (logEntries ?l))" using covers_sorted[OF cov] assms(3) by simp
    have sub: "set (logEntries ?l) \<subseteq> set h"
      using cov unfolding covers_def by (metis absOf_sel(1) set_append Un_upper2)
    have ver: "\<forall>e \<in> set (logEntries ?l). ceIndex e \<le> version" using assms(4) sub by blast
    have resp: "r = changesSinceLocked budget rows version ?l since"
      by (simp add: assms(5) placementChanges_def)
    obtain fin left where *: "filter (\<lambda>e. since < ceIndex e) h = fin @ left"
        "servedChanges rows (respChanges r)" "changeIds (respChanges r) = ceId ` set fin"
        "\<forall>e \<in> set fin. ceIndex e \<le> respNext r" "\<forall>e \<in> set left. respNext r < ceIndex e"
        "fin @ left \<noteq> [] \<longrightarrow> fin \<noteq> []" "\<not> respResnapshot r"
      using changesSince_covered[OF srt le resp ver] unfolding newer by blast
    have fin: "set fin = {e \<in> set h. since < ceIndex e \<and> ceIndex e \<le> respNext r}"
      using split_at_cursor[OF *(1,4,5)] .
    have "respChanges r \<noteq> [] \<and> since < respNext r" if "\<exists>e \<in> set h. since < ceIndex e"
    proof -
      have "filter (\<lambda>e. since < ceIndex e) h \<noteq> []" using that by (auto simp: filter_empty_conv)
      then have "fin \<noteq> []" using *(6) unfolding *(1) by (rule rev_mp)
      then have hd: "hd fin \<in> set fin" by simp
      then have "ceId (hd fin) \<in> changeIds (respChanges r)" using *(3) by blast
      moreover have "since < respNext r" using hd unfolding fin by simp
      ultimately show ?thesis by auto
    qed
    moreover have "changeIds (respChanges r) = {ceId e |e. e \<in> set h \<and> since < ceIndex e \<and> ceIndex e \<le> respNext r}"
      unfolding *(3) fin by blast
    ultimately show ?thesis using *(2,7) by (simp only: if_False simp_thms) blast
  qed
qed

theorem change_log_no_gap_witness:
  "changeIds (respChanges (placementChanges 4096 [''b'' \<mapsto> (7::nat)] 3 (Some (logRun (newPlacementChangeLog 2)
     [\<lparr>ceIndex = 1, ceId = ''c'', ceDeleted = False\<rparr>, \<lparr>ceIndex = 2, ceId = ''b'', ceDeleted = False\<rparr>,
      \<lparr>ceIndex = 3, ceId = ''a'', ceDeleted = True\<rparr>])) 1)) = {''a'', ''b''} \<and>
   respResnapshot (placementChanges 4096 [''b'' \<mapsto> (7::nat)] 3 (Some (logRun (newPlacementChangeLog 2)
     [\<lparr>ceIndex = 1, ceId = ''c'', ceDeleted = False\<rparr>, \<lparr>ceIndex = 2, ceId = ''b'', ceDeleted = False\<rparr>,
      \<lparr>ceIndex = 3, ceId = ''a'', ceDeleted = True\<rparr>])) 0)"
proof -
  let ?h = "[\<lparr>ceIndex = 1, ceId = ''c'', ceDeleted = False\<rparr>, \<lparr>ceIndex = 2, ceId = ''b'', ceDeleted = False\<rparr>,
      \<lparr>ceIndex = 3, ceId = ''a'', ceDeleted = True\<rparr>]"
  let ?r = "placementChanges 4096 [''b'' \<mapsto> (7::nat)] 3 (Some (logRun (newPlacementChangeLog 2) ?h))"
  have ev: "respResnapshot (?r 0)" "\<not> respResnapshot (?r 1)" "respNext (?r 1) = 3" by code_simp+
  have "changeIds (respChanges (?r 1)) = {ceId e |e. e \<in> set ?h \<and> 1 < ceIndex e \<and> ceIndex e \<le> respNext (?r 1)}"
    using change_log_no_gap[OF logWf_new logEntries_new _ _ refl, of 2 ?h 3 4096 "[''b'' \<mapsto> (7::nat)]" 1] ev(2)
    by (simp add: newPlacementChangeLog_def)
  also have "\<dots> = {''b'', ''a''}" unfolding changed_between ev(3) by simp
  finally show ?thesis using ev(1) by (simp only: insert_commute simp_thms)
qed

text \<open>One covered answer of the delta feed keeps a client in step: if the client's
  view differed from the rows only on ids changed after its cursor, then after merging the answer
  it differs only on ids changed after the returned cursor; the answer names no id twice, never
  asks for a resnapshot, and makes progress whenever something newer exists.\<close>

theorem change_feed_in_step:
  assumes "sorted (map ceIndex (logEntries l))" "clFloor l \<le> since"
    and "\<forall>e \<in> set (logEntries l). ceIndex e \<le> version"
    and "inStep rows (logEntries l) since view"
    and "r = changesSinceLocked budget rows version l since"
  shows "inStep rows (logEntries l) (respNext r) (foldl applyChange view (respChanges r)) \<and>
         distinct (map chSandboxID (respChanges r)) \<and> \<not> respResnapshot r \<and>
         (filter (\<lambda>e. since < ceIndex e) (logEntries l) = [] \<or>
            respChanges r \<noteq> [] \<and> since < respNext r)"
proof -
  obtain fin left where *: "filter (\<lambda>e. since < ceIndex e) (logEntries l) = fin @ left"
      "servedChanges rows (respChanges r)" "changeIds (respChanges r) = ceId ` set fin"
      "\<forall>e \<in> set fin. ceIndex e \<le> respNext r" "\<forall>e \<in> set left. respNext r < ceIndex e"
      "fin @ left \<noteq> [] \<longrightarrow> fin \<noteq> []" "\<not> respResnapshot r"
    using changesSince_covered[OF assms(1,2,5,3)] by blast
  have "inStep rows (logEntries l) (respNext r) (foldl applyChange view (respChanges r))"
    unfolding inStep_def
  proof (intro allI impI)
    fix i
    assume diff: "foldl applyChange view (respChanges r) i \<noteq> rows i"
    have fold: "foldl applyChange view (respChanges r) i =
                (if i \<in> changeIds (respChanges r) then rows i else view i)"
      using *(2) by (intro foldl_applyChange) (simp add: servedChanges_def)
    with diff have i: "i \<notin> ceId ` set fin" "view i \<noteq> rows i" using *(3) by (auto split: if_splits)
    with assms(4) obtain e where e: "e \<in> set (logEntries l)" "ceId e = i" "since < ceIndex e"
      by (auto simp: inStep_def)
    then have "e \<in> set (filter (\<lambda>e. since < ceIndex e) (logEntries l))" by simp
    then have "e \<in> set (fin @ left)" by (simp only: *(1))
    with i e *(5) show "\<exists>e \<in> set (logEntries l). ceId e = i \<and> respNext r < ceIndex e" by auto
  qed
  moreover have "since < respNext r \<and> respChanges r \<noteq> []" if "fin \<noteq> []"
  proof -
    have "hd fin \<in> set (filter (\<lambda>e. since < ceIndex e) (logEntries l))" "hd fin \<in> set fin"
      using that *(1) by auto
    with *(3,4) show ?thesis by fastforce
  qed
  moreover have "distinct (map chSandboxID (respChanges r))" using *(2) by (simp add: servedChanges_def)
  ultimately show ?thesis unfolding *(1) using *(6,7) by blast
qed

definition feedExampleLog :: placementChangeLog where
  "feedExampleLog = logRun (newPlacementChangeLog 4)
     [\<lparr>ceIndex = 1, ceId = ''a'', ceDeleted = False\<rparr>, \<lparr>ceIndex = 2, ceId = ''b'', ceDeleted = False\<rparr>,
      \<lparr>ceIndex = 3, ceId = ''a'', ceDeleted = True\<rparr>]"

lemma feedExampleLog_entries:
  "logEntries feedExampleLog =
     [\<lparr>ceIndex = 1, ceId = ''a'', ceDeleted = False\<rparr>, \<lparr>ceIndex = 2, ceId = ''b'', ceDeleted = False\<rparr>,
      \<lparr>ceIndex = 3, ceId = ''a'', ceDeleted = True\<rparr>]" "clFloor feedExampleLog = 0"
  by code_simp+

theorem change_feed_in_step_witness:
  "inStep [''b'' \<mapsto> (7::nat)] (logEntries feedExampleLog)
     (respNext (changesSinceLocked 4096 [''b'' \<mapsto> (7::nat)] 3 feedExampleLog 1))
     (foldl applyChange [''a'' \<mapsto> 5]
        (respChanges (changesSinceLocked 4096 [''b'' \<mapsto> (7::nat)] 3 feedExampleLog 1)))"
proof -
  have "inStep [''b'' \<mapsto> (7::nat)] (logEntries feedExampleLog) 1 [''a'' \<mapsto> 5]"
    by (auto simp: inStep_def feedExampleLog_entries)
  then show ?thesis
    using change_feed_in_step[of feedExampleLog 1 3 "[''b'' \<mapsto> (7::nat)]" "[''a'' \<mapsto> 5]" _ 4096, OF _ _ _ _ refl]
    by (simp add: feedExampleLog_entries)
qed

end
