(* ===== verification/Index_Laws.thy ===== *)
theory Index_Laws
  imports Prelude
begin

text \<open>
  The two index contracts of the placement state machine.

  A \<^emph>\<open>set index\<close> maps a key to the set of row identifiers filed under it; the code deletes a key
  whose set empties.  A \<^emph>\<open>unique index\<close> maps a key to the one row that holds it, and a release
  drops the entry only if the releasing row is the recorded holder.  For both, an index is exact
  when it files exactly the keys that the rows of the authoritative map have.  The locales derive
  the three moves the operations make (insert a row, remove a row, replace a row) from the laws
  of the claim and release functions; each concrete pair of functions is interpreted in the theory
  that defines it.
\<close>

section \<open>Set-valued indexes\<close>

definition idxGet :: "('k \<rightharpoonup> 'i set) \<Rightarrow> 'k \<Rightarrow> 'i set" where
  "idxGet m k = (case m k of None \<Rightarrow> {} | Some s \<Rightarrow> s)"

definition idxAdd :: "'k \<Rightarrow> 'i \<Rightarrow> ('k \<rightharpoonup> 'i set) \<Rightarrow> ('k \<rightharpoonup> 'i set)" where
  "idxAdd k i m = m(k \<mapsto> insert i (idxGet m k))"

definition idxDel :: "'k \<Rightarrow> 'i \<Rightarrow> ('k \<rightharpoonup> 'i set) \<Rightarrow> ('k \<rightharpoonup> 'i set)" where
  "idxDel k i m =
     (case m k of
        None \<Rightarrow> m
      | Some s \<Rightarrow> if s - {i} = {} then m(k := None) else m(k \<mapsto> s - {i}))"

definition idxWf :: "('k \<rightharpoonup> 'i set) \<Rightarrow> bool" where
  "idxWf m \<longleftrightarrow> (\<forall>k s. m k = Some s \<longrightarrow> finite s \<and> s \<noteq> {})"

definition idxExact :: "('i \<Rightarrow> 'r \<Rightarrow> 'k set) \<Rightarrow> ('i \<rightharpoonup> 'r) \<Rightarrow> ('k \<rightharpoonup> 'i set) \<Rightarrow> bool" where
  "idxExact keysOf rows m \<longleftrightarrow>
     idxWf m \<and> (\<forall>k. idxGet m k = {i. \<exists>r. rows i = Some r \<and> k \<in> keysOf i r})"

lemma idxGet_empty [simp]: "idxGet Map.empty k = {}"
  by (simp add: idxGet_def)

lemma idxGet_add [simp]: "idxGet (idxAdd k i m) k' = (if k' = k then insert i (idxGet m k) else idxGet m k')"
  by (simp add: idxGet_def idxAdd_def)

lemma idxGet_del [simp]: "idxGet (idxDel k i m) k' = (if k' = k then idxGet m k - {i} else idxGet m k')"
  by (auto simp: idxGet_def idxDel_def split: option.splits)

lemma idxWf_empty [simp]: "idxWf Map.empty"
  by (simp add: idxWf_def)

lemma idxWf_finite: "idxWf m \<Longrightarrow> finite (idxGet m k)"
  by (auto simp: idxWf_def idxGet_def split: option.splits)

lemma idxWf_add [simp]: "idxWf m \<Longrightarrow> idxWf (idxAdd k i m)"
  using idxWf_finite[of m k] by (auto simp: idxWf_def idxAdd_def)

lemma idxWf_del [simp]: "idxWf m \<Longrightarrow> idxWf (idxDel k i m)"
  by (auto simp: idxWf_def idxDel_def split: option.splits)

lemma idxWf_ext: "idxWf m \<Longrightarrow> idxWf m' \<Longrightarrow> (\<And>k. idxGet m k = idxGet m' k) \<Longrightarrow> m = m'"
  unfolding idxWf_def idxGet_def
  by (rule ext) (metis (no_types, lifting) not_None_eq option.simps(4,5))

text \<open>An exact index is determined by the rows: there is only one.\<close>

lemma idxExact_unique: "idxExact ks rows m \<Longrightarrow> idxExact ks rows m' \<Longrightarrow> m = m'"
  by (rule idxWf_ext) (auto simp: idxExact_def)

lemma idxExact_empty [simp]: "idxExact ks Map.empty Map.empty"
  by (simp add: idxExact_def)

lemma idxExact_finite: "idxExact ks rows m \<Longrightarrow> finite (idxGet m k)"
  using idxWf_finite[of m k] unfolding idxExact_def by blast

lemma idxExact_member:
  "idxExact ks rows m \<Longrightarrow> i \<in> idxGet m k \<longleftrightarrow> (\<exists>r. rows i = Some r \<and> k \<in> ks i r)"
  by (simp add: idxExact_def)

lemma idxExact_same_keys:
  assumes "idxExact ks rows m" and "rows i = Some r" and "ks i r' = ks i r"
  shows "idxExact ks (rows(i \<mapsto> r')) m"
  using assms by (auto simp: idxExact_def)

lemma idxExact_insert_no_keys:
  assumes "idxExact ks rows m" and "rows i = None" and "ks i r' = {}"
  shows "idxExact ks (rows(i \<mapsto> r')) m"
  using assms by (auto simp: idxExact_def)

locale set_index =
  fixes keysOf :: "'i \<Rightarrow> 'r \<Rightarrow> 'k set"
    and claim :: "'i \<Rightarrow> 'r \<Rightarrow> ('k \<rightharpoonup> 'i set) \<Rightarrow> ('k \<rightharpoonup> 'i set)"
    and release :: "'i \<Rightarrow> 'r \<Rightarrow> ('k \<rightharpoonup> 'i set) \<Rightarrow> ('k \<rightharpoonup> 'i set)"
  assumes claim_get:
      "idxGet (claim i r m) k = (if k \<in> keysOf i r then insert i (idxGet m k) else idxGet m k)"
    and claim_wf: "idxWf m \<Longrightarrow> idxWf (claim i r m)"
    and release_own: "k \<in> keysOf i r \<Longrightarrow> i \<notin> idxGet (release i r m) k"
    and release_others: "j \<noteq> i \<Longrightarrow> j \<in> idxGet (release i r m) k \<longleftrightarrow> j \<in> idxGet m k"
    and release_sub: "i \<in> idxGet (release i r m) k \<Longrightarrow> i \<in> idxGet m k"
    and release_wf: "idxWf m \<Longrightarrow> idxWf (release i r m)"
begin

lemma release_member:
  assumes "idxExact keysOf rows m" and "rows i = Some r"
  shows "j \<in> idxGet (release i r m) k \<longleftrightarrow> j \<noteq> i \<and> j \<in> idxGet m k"
  using assms release_own[of k i r m] release_others[of j i r m k] release_sub[of i r m k]
  by (auto simp: idxExact_member)

lemma remove:
  assumes "idxExact keysOf rows m" and "rows i = Some r"
  shows "idxExact keysOf (rows(i := None)) (release i r m)"
  unfolding idxExact_def
proof (intro conjI allI set_eqI)
  show "idxWf (release i r m)" using assms(1) by (simp add: idxExact_def release_wf)
  fix k j
  show "j \<in> idxGet (release i r m) k \<longleftrightarrow>
        j \<in> {i'. \<exists>q. (rows(i := None)) i' = Some q \<and> k \<in> keysOf i' q}"
    using assms by (auto simp: release_member idxExact_member)
qed

lemma insert:
  assumes "idxExact keysOf rows m" and "rows i = None"
  shows "idxExact keysOf (rows(i \<mapsto> r)) (claim i r m)"
  using assms by (auto simp: idxExact_def claim_get claim_wf)

lemma replace:
  assumes "idxExact keysOf rows m" and "rows i = Some r"
  shows "idxExact keysOf (rows(i \<mapsto> r')) (claim i r' (release i r m))"
  using insert[OF remove[OF assms], of i r'] by simp

lemma claim_exact:
  assumes "idxExact keysOf (rows(i := None)) m"
  shows "idxExact keysOf (rows(i \<mapsto> r)) (claim i r m)"
  using insert[OF assms, of i r] by simp

end

section \<open>Unique indexes\<close>

definition uniqExact :: "('i \<Rightarrow> 'r \<Rightarrow> 'k set) \<Rightarrow> ('i \<rightharpoonup> 'r) \<Rightarrow> ('k \<rightharpoonup> 'i) \<Rightarrow> bool" where
  "uniqExact keysOf rows m \<longleftrightarrow>
     (\<forall>k i. m k = Some i \<longleftrightarrow> (\<exists>r. rows i = Some r \<and> k \<in> keysOf i r))"

text \<open>The weaker half: every key of a row is indexed to that row (stale extra entries allowed).\<close>

definition uniqCovers :: "('i \<Rightarrow> 'r \<Rightarrow> 'k set) \<Rightarrow> ('i \<rightharpoonup> 'r) \<Rightarrow> ('k \<rightharpoonup> 'i) \<Rightarrow> bool" where
  "uniqCovers keysOf rows m \<longleftrightarrow> (\<forall>k i r. rows i = Some r \<longrightarrow> k \<in> keysOf i r \<longrightarrow> m k = Some i)"

lemma uniqExact_empty [simp]: "uniqExact ks Map.empty Map.empty"
  by (simp add: uniqExact_def)

lemma uniqCovers_empty [simp]: "uniqCovers ks Map.empty m"
  by (simp add: uniqCovers_def)

lemma uniqExact_covers: "uniqExact ks rows m \<Longrightarrow> uniqCovers ks rows m"
  by (auto simp: uniqExact_def uniqCovers_def)

lemma uniqExact_unique: "uniqExact ks rows m \<Longrightarrow> uniqExact ks rows m' \<Longrightarrow> m = m'"
  unfolding uniqExact_def by (rule ext) (metis not_None_eq)

lemma uniqCovers_disjoint:
  assumes "uniqCovers ks rows m" "rows i = Some r" "rows j = Some q" "k \<in> ks i r" "k \<in> ks j q"
  shows "i = j"
proof -
  have "m k = Some i" "m k = Some j" using assms unfolding uniqCovers_def by blast+
  then show ?thesis by simp
qed

lemma uniqExact_disjoint:
  assumes "uniqExact ks rows m" "rows i = Some r" "rows j = Some q" "k \<in> ks i r" "k \<in> ks j q"
  shows "i = j"
  using uniqCovers_disjoint[OF uniqExact_covers] assms by metis

lemma uniqExact_same_keys:
  assumes "uniqExact ks rows m" and "rows i = Some r" and "ks i r' = ks i r"
  shows "uniqExact ks (rows(i \<mapsto> r')) m"
  using assms by (auto simp: uniqExact_def)

lemma uniqCovers_sub_keys:
  assumes "uniqCovers ks rows m" and "rows i = Some r" and "ks i r' \<subseteq> ks i r"
  shows "uniqCovers ks (rows(i \<mapsto> r')) m"
  using assms by (auto simp: uniqCovers_def)

lemma uniqCovers_remove_row: "uniqCovers ks rows m \<Longrightarrow> uniqCovers ks (rows(i := None)) m"
  by (auto simp: uniqCovers_def)

locale unique_index =
  fixes keysOf :: "'i \<Rightarrow> 'r \<Rightarrow> 'k set"
    and claim :: "'i \<Rightarrow> 'r \<Rightarrow> ('k \<rightharpoonup> 'i) \<Rightarrow> ('k \<rightharpoonup> 'i)"
    and release :: "'i \<Rightarrow> 'r \<Rightarrow> ('k \<rightharpoonup> 'i) \<Rightarrow> ('k \<rightharpoonup> 'i)"
  assumes claim_at: "claim i r m k = (if k \<in> keysOf i r then Some i else m k)"
    and release_at: "release i r m k = (if k \<in> keysOf i r \<and> m k = Some i then None else m k)"
begin

lemma remove:
  assumes "uniqExact keysOf rows m" and "rows i = Some r"
  shows "uniqExact keysOf (rows(i := None)) (release i r m)"
proof -
  have other: "j = i" if "rows j = Some q" "k \<in> keysOf j q" "k \<in> keysOf i r" for j q k
    using uniqExact_disjoint[OF assms(1) that(1) assms(2) that(2,3)] .
  show ?thesis
    unfolding uniqExact_def release_at
  proof (intro allI)
    fix k j
    have "m k = Some j \<longleftrightarrow> (\<exists>q. rows j = Some q \<and> k \<in> keysOf j q)"
         "m k = Some i \<longleftrightarrow> (\<exists>q. rows i = Some q \<and> k \<in> keysOf i q)"
      using assms(1) by (simp_all add: uniqExact_def)
    then show "(if k \<in> keysOf i r \<and> m k = Some i then None else m k) = Some j \<longleftrightarrow>
        (\<exists>q. (rows(i := None)) j = Some q \<and> k \<in> keysOf j q)"
      using assms(2) other by auto
  qed
qed

lemma insert:
  assumes "uniqExact keysOf rows m" and "rows i = None" and "\<And>k. k \<in> keysOf i r \<Longrightarrow> m k = None"
  shows "uniqExact keysOf (rows(i \<mapsto> r)) (claim i r m)"
  using assms unfolding uniqExact_def claim_at by (fastforce split: if_splits)

lemma replace:
  assumes "uniqExact keysOf rows m" and "rows i = Some r"
    and "\<And>k. k \<in> keysOf i r' \<Longrightarrow> m k = None \<or> m k = Some i"
  shows "uniqExact keysOf (rows(i \<mapsto> r')) (claim i r' (release i r m))"
proof -
  have "release i r m k = None" if "k \<in> keysOf i r'" for k
    using assms that unfolding release_at uniqExact_def by force
  from insert[OF remove[OF assms(1,2)], of i r', OF _ this] show ?thesis by simp
qed

lemma covers_remove:
  assumes "uniqCovers keysOf rows m"
  shows "uniqCovers keysOf (rows(i := None)) (release i r m)"
  using assms unfolding uniqCovers_def release_at by auto

lemma covers_insert:
  assumes "uniqCovers keysOf (rows(i := None)) m"
    and "\<And>k. k \<in> keysOf i r \<Longrightarrow> m k = None \<or> m k = Some i"
  shows "uniqCovers keysOf (rows(i \<mapsto> r)) (claim i r m)"
  unfolding uniqCovers_def claim_at
proof (intro allI impI)
  fix k j q
  assume row: "(rows(i \<mapsto> r)) j = Some q" and key: "k \<in> keysOf j q"
  show "(if k \<in> keysOf i r then Some i else m k) = Some j"
  proof (cases "j = i")
    case True
    with row key show ?thesis by simp
  next
    case False
    with row key assms(1) have "m k = Some j" by (auto simp: uniqCovers_def)
    with assms(2)[of k] False show ?thesis by auto
  qed
qed

end

end
