(* ===== verification/Placement_Types.thy ===== *)
theory Placement_Types
  imports Complex_Main Index_Laws
begin

text \<open>
  The rows of the placement table and the pure functions on them (\<^verbatim>\<open>internal/cluster/cluster.go\<close>,
  \<^verbatim>\<open>exposed_ports.go\<close>, the row helpers of \<^verbatim>\<open>fsm.go\<close>, the recipient helpers of \<^verbatim>\<open>placement.go\<close>,
  \<^verbatim>\<open>pkg/secrets/envelope.go\<close> references).  Unbounded \<^typ>\<open>int\<close> stands for Go's 64-bit integers, exact
  rationals for \<^verbatim>\<open>float64\<close> CPU counts, \<^typ>\<open>nat\<close> for Raft indexes, and a nil map or slice is the empty
  one.  Of \<^verbatim>\<open>CreateSandboxRequest\<close> the record has the fields the control plane reads; the others
  travel opaquely in \<^verbatim>\<open>srOther\<close>.
\<close>

section \<open>Sandbox specs\<close>

record CreateSandboxRequest =
  srName :: string
  srImage :: string
  srCPU :: rat
  srMemoryMB :: int
  srDiskGB :: int
  srRuntime :: string
  srTemplateID :: string
  srOverlaySizeGB :: int
  srModuleRef :: string
  srGPUCount :: "int option"
  srNetworkAllowOut :: "string list"
  srEgressProfiles :: "string list"
  srAllowPublicTraffic :: "bool option"
  srOther :: string

definition specName :: "CreateSandboxRequest option \<Rightarrow> string" where
  "specName spec = (case spec of None \<Rightarrow> [] | Some s \<Rightarrow> trimSpace (srName s))"

definition DefaultCPU :: rat where "DefaultCPU = 1"
definition DefaultMemoryMB :: int where "DefaultMemoryMB = 1024"
definition DefaultDiskGB :: int where "DefaultDiskGB = 10"

definition QuotaSize :: "rat \<Rightarrow> int \<Rightarrow> rat \<times> int" where
  "QuotaSize cpu memoryMB =
     (if cpu \<le> 0 then DefaultCPU else cpu, if memoryMB \<le> 0 then DefaultMemoryMB else memoryMB)"

definition TeamOwnerPrefix :: string where "TeamOwnerPrefix = ''team:''"

definition TeamOfOwnerRef :: "string \<Rightarrow> string" where
  "TeamOfOwnerRef ownerRef =
     (case cutPrefix (trimSpace ownerRef) TeamOwnerPrefix of None \<Rightarrow> [] | Some team \<Rightarrow> team)"

text \<open>What a spec asks of a node: the axes the pending-reservation ledger adds up.\<close>

record capacityRequest =
  crCPU :: rat
  crMemoryMB :: int
  crDiskGB :: int
  crGPUs :: int
  crRuntime :: string

definition diskGBForCapacity :: "int \<Rightarrow> string \<Rightarrow> int \<Rightarrow> int" where
  "diskGBForCapacity base runtimeName overlaySizeGB =
     (if runtimeName = ''firecracker'' \<and> overlaySizeGB > 0 then base + overlaySizeGB else base)"

definition capacityRequestFromSpec :: "CreateSandboxRequest option \<Rightarrow> capacityRequest" where
  "capacityRequestFromSpec spec =
     (case spec of
        None \<Rightarrow> \<lparr>crCPU = DefaultCPU, crMemoryMB = DefaultMemoryMB, crDiskGB = DefaultDiskGB,
                crGPUs = 0, crRuntime = []\<rparr>
      | Some s \<Rightarrow>
          let cpu = (if srCPU s \<le> 0 then DefaultCPU else srCPU s);
              mem = (if srMemoryMB s \<le> 0 then DefaultMemoryMB else srMemoryMB s);
              disk = (if srDiskGB s \<le> 0 then DefaultDiskGB else srDiskGB s);
              templateID = trimSpace (srTemplateID s);
              runtimeName = trimSpace (srRuntime s);
              runtimeName = (if templateID \<noteq> [] \<and> runtimeName = [] then ''firecracker'' else runtimeName);
              runtimeName = (if runtimeName = [] then ''docker'' else runtimeName)
          in \<lparr>crCPU = cpu,
              crMemoryMB = (if runtimeName = ''wasm'' then mem + 8 else mem),
              crDiskGB = diskGBForCapacity disk runtimeName (srOverlaySizeGB s),
              crGPUs = (case srGPUCount s of None \<Rightarrow> 0 | Some want \<Rightarrow> if want \<le> 0 then 1 else want),
              crRuntime = runtimeName\<rparr>)"

section \<open>Placement rows\<close>

datatype PlacementState = PlacementStatePlaced | PlacementStateReserved | PlacementStateDeleting

datatype PlacementOwnerState = PlacementOwnerStateActive | PlacementOwnerStateOrphaned

record ExposedPortRoute =
  rtProtocol :: string
  rtHostPort :: int
  rtPublicURL :: string
  rtVisibility :: string

record Placement =
  pSandboxID :: string
  pOwnerNodeID :: string
  pOwnerAPIURL :: string
  pOwnerDataPlaneHost :: string
  pOwnerState :: PlacementOwnerState
  pOrphanedOwnerNodeID :: string
  pOrphanedUnix :: int
  pVersion :: nat
  pCreatedUnix :: int
  pUpdatedUnix :: int
  pName :: string
  pRecoveryRef :: string
  pSpec :: "CreateSandboxRequest option"
  pPublicTraffic :: bool
  pEgressProfiles :: "string list"
  pEgressInlineHostnames :: int
  pQuotaCPU :: rat
  pQuotaMemoryMB :: int
  pSecretRef :: string
  pSecretVersion :: int
  pSecretRecipients :: "string list"
  pIncarnationID :: string
  pSecretSealGeneration :: int
  pOwnerRef :: string
  pAuditNodeIDs :: "string list"
  pAuditNodesTruncated :: bool
  pExposedPorts :: "int \<rightharpoonup> string"
  pExposedPortRoutes :: "int \<rightharpoonup> ExposedPortRoute"
  pCustomHostnames :: "string list"
  pState :: PlacementState
  pExpiresUnix :: int

text \<open>Go's zero value of the row type.\<close>

definition zeroPlacement :: Placement where
  "zeroPlacement =
     \<lparr>pSandboxID = [], pOwnerNodeID = [], pOwnerAPIURL = [], pOwnerDataPlaneHost = [],
      pOwnerState = PlacementOwnerStateActive, pOrphanedOwnerNodeID = [], pOrphanedUnix = 0,
      pVersion = 0, pCreatedUnix = 0, pUpdatedUnix = 0, pName = [], pRecoveryRef = [],
      pSpec = None, pPublicTraffic = False, pEgressProfiles = [], pEgressInlineHostnames = 0,
      pQuotaCPU = 0, pQuotaMemoryMB = 0, pSecretRef = [], pSecretVersion = 0,
      pSecretRecipients = [], pIncarnationID = [], pSecretSealGeneration = 0, pOwnerRef = [],
      pAuditNodeIDs = [], pAuditNodesTruncated = False, pExposedPorts = Map.empty,
      pExposedPortRoutes = Map.empty, pCustomHostnames = [], pState = PlacementStatePlaced,
      pExpiresUnix = 0\<rparr>"

definition IsReserved :: "Placement \<Rightarrow> bool" where
  "IsReserved p \<longleftrightarrow> pState p = PlacementStateReserved"

definition IsDeleting :: "Placement \<Rightarrow> bool" where
  "IsDeleting p \<longleftrightarrow> pState p = PlacementStateDeleting"

definition IsOrphaned :: "Placement \<Rightarrow> bool" where
  "IsOrphaned p \<longleftrightarrow> pOwnerNodeID p = [] \<or> pOwnerState p = PlacementOwnerStateOrphaned"

definition placementName :: "Placement \<Rightarrow> string" where
  "placementName p = (if trimSpace (pName p) \<noteq> [] then trimSpace (pName p) else specName (pSpec p))"

definition exposedPortRoutesForPlacement :: "Placement \<Rightarrow> (int \<rightharpoonup> ExposedPortRoute)" where
  "exposedPortRoutesForPlacement p =
     (if pExposedPortRoutes p \<noteq> Map.empty then pExposedPortRoutes p
      else (\<lambda>port. map_option (\<lambda>protocol.
              \<lparr>rtProtocol = protocol, rtHostPort = 0, rtPublicURL = [], rtVisibility = []\<rparr>)
              (pExposedPorts p port)))"

definition existingHasHostname :: "Placement \<Rightarrow> string \<Rightarrow> bool" where
  "existingHasHostname p hostname \<longleftrightarrow> hostname \<in> set (pCustomHostnames p)"

text \<open>The loop of \<^verbatim>\<open>insertSortedHostname\<close>: \<^verbatim>\<open>orig\<close> is the slice returned unchanged when the
  hostname is met on the way.\<close>

fun insertSortedHostnameLoop ::
  "string list \<Rightarrow> string \<Rightarrow> bool \<Rightarrow> string list \<Rightarrow> string list \<Rightarrow> string list" where
  "insertSortedHostnameLoop orig hostname inserted out [] =
     (if inserted then out else out @ [hostname])"
| "insertSortedHostnameLoop orig hostname inserted out (h # hs) =
     (let (out, inserted) = (if \<not> inserted \<and> hostname < h then (out @ [hostname], True)
                             else (out, inserted))
      in if h = hostname then orig
         else insertSortedHostnameLoop orig hostname inserted (out @ [h]) hs)"

definition insertSortedHostname :: "string list \<Rightarrow> string \<Rightarrow> string list" where
  "insertSortedHostname existing hostname =
     (if hostname = [] then existing else insertSortedHostnameLoop existing hostname False [] existing)"

definition removeHostname :: "string list \<Rightarrow> string \<Rightarrow> string list" where
  "removeHostname existing hostname = remove1 hostname existing"

definition maxPlacementAuditNodes :: nat where "maxPlacementAuditNodes = 64"

definition recordPlacementAuditNode :: "string \<Rightarrow> Placement \<Rightarrow> Placement" where
  "recordPlacementAuditNode nodeID p =
     (let nodeID = trimSpace nodeID in
      if nodeID = [] then p
      else if nodeID \<in> set (pAuditNodeIDs p) then p
      else if length (pAuditNodeIDs p) \<ge> maxPlacementAuditNodes
           then p\<lparr>pAuditNodesTruncated := True\<rparr>
           else p\<lparr>pAuditNodeIDs := pAuditNodeIDs p @ [nodeID]\<rparr>)"

section \<open>Errors\<close>

datatype fsmError =
    ErrIncarnationConflict | ErrReservationConflict | ErrNameConflict | ErrUnknownSandbox
  | ErrOrphanClaimConflict | ErrInvalidSecretHandle | ErrSecretRecipientsCASMismatch
  | ErrHostPortReserved | ErrCustomHostnameConflict | ErrStuckReassignNotOwner
  | ErrUnknownVolume | ErrVolumeInUse | ErrVolumeQuotaExceeded | ErrVolumeReclaimMoved
  | ErrEgressProfileInUse | ErrEgressProfileCapExceeded | ErrTeamQuotaExceeded
  | ErrArtifactCatalogSuperseded | ErrAPITokenNameTaken | ErrAPITokenIDTaken
  | ErrWarmPoolLimit | ErrIdentityKeysConflict | ErrIdentityKeysInvalid
  | ErrMalformed | ErrRecoveryStore | ErrUnknownOp

text \<open>The incarnation guard every lifecycle write goes through.\<close>

definition requireCurrentPlacementIncarnation :: "Placement \<Rightarrow> string \<Rightarrow> fsmError option" where
  "requireCurrentPlacementIncarnation existing expected =
     (let expected = trimSpace expected; current = trimSpace (pIncarnationID existing)
      in if expected = [] \<or> current = [] \<or> expected \<noteq> current then Some ErrIncarnationConflict else None)"

section \<open>Row lemmas\<close>

lemma specName_trimmed [simp]: "trimSpace (specName spec) = specName spec"
  by (simp add: specName_def split: option.splits)

lemma specName_None [simp]: "specName None = []"
  by (simp add: specName_def)

lemma placementName_trimmed [simp]: "trimSpace (placementName p) = placementName p"
  by (simp add: placementName_def)

text \<open>The loop keeps a strictly sorted hostname slice strictly sorted and adds the hostname.\<close>

lemma insertSortedHostnameLoop_sorted:
  assumes "sorted_wrt (<) (out @ hs)"
    and "hostname \<notin> set hs"
    and "inserted \<Longrightarrow> hostname \<in> set out \<and> hostname \<notin> set hs"
    and "\<not> inserted \<Longrightarrow> \<forall>x \<in> set out. x < hostname"
  shows "sorted_wrt (<) (insertSortedHostnameLoop orig hostname inserted out hs) \<and>
         set (insertSortedHostnameLoop orig hostname inserted out hs) =
           insert hostname (set out \<union> set hs)"
  using assms
proof (induction orig hostname inserted out hs rule: insertSortedHostnameLoop.induct)
  case (1 orig hostname inserted out)
  then show ?case by (auto simp: sorted_wrt_append)
next
  case (2 orig hostname inserted out h hs)
  have ne: "h \<noteq> hostname" using "2.prems"(2) by auto
  show ?case
  proof (cases "\<not> inserted \<and> hostname < h")
    case True
    have step: "insertSortedHostnameLoop orig hostname inserted out (h # hs) =
        insertSortedHostnameLoop orig hostname True (out @ [hostname] @ [h]) hs"
      using True ne by simp
    have "sorted_wrt (<) ((out @ [hostname] @ [h]) @ hs)"
      using "2.prems"(1,4) True by (fastforce simp: sorted_wrt_append)
    then show ?thesis
      unfolding step using "2.IH"[of "(out @ [hostname], True)" "out @ [hostname]" True] True ne "2.prems"
      by auto
  next
    case False
    have step: "insertSortedHostnameLoop orig hostname inserted out (h # hs) =
        insertSortedHostnameLoop orig hostname inserted (out @ [h]) hs"
      using False ne by (auto simp: Let_def)
    have "\<not> inserted \<Longrightarrow> h < hostname" using False ne by auto
    then show ?thesis
      unfolding step using "2.IH"[of "(out, inserted)" out inserted] False ne "2.prems" by auto
  qed
qed

lemma insertSortedHostname_spec:
  assumes "sorted_wrt (<) hs" "hostname \<noteq> []" "hostname \<notin> set hs"
  shows "sorted_wrt (<) (insertSortedHostname hs hostname)"
    and "set (insertSortedHostname hs hostname) = insert hostname (set hs)"
  using insertSortedHostnameLoop_sorted[where out = "[]" and inserted = False and hs = hs
      and hostname = hostname and orig = hs] assms
  by (auto simp: insertSortedHostname_def)

lemma removeHostname_spec:
  assumes "sorted_wrt (<) hs"
  shows "sorted_wrt (<) (removeHostname hs hostname)"
    and "set (removeHostname hs hostname) = set hs - {hostname}"
  using assms by (auto simp: removeHostname_def strict_sorted_iff sorted_remove1 set_remove1_eq)

lemma recordPlacementAuditNode_frame [simp]:
  "pState (recordPlacementAuditNode n p) = pState p"
  "pOwnerNodeID (recordPlacementAuditNode n p) = pOwnerNodeID p"
  "pOwnerState (recordPlacementAuditNode n p) = pOwnerState p"
  "pOwnerRef (recordPlacementAuditNode n p) = pOwnerRef p"
  "pName (recordPlacementAuditNode n p) = pName p"
  "pSpec (recordPlacementAuditNode n p) = pSpec p"
  "pIncarnationID (recordPlacementAuditNode n p) = pIncarnationID p"
  "pSandboxID (recordPlacementAuditNode n p) = pSandboxID p"
  "pExposedPorts (recordPlacementAuditNode n p) = pExposedPorts p"
  "pExposedPortRoutes (recordPlacementAuditNode n p) = pExposedPortRoutes p"
  "pCustomHostnames (recordPlacementAuditNode n p) = pCustomHostnames p"
  "pRecoveryRef (recordPlacementAuditNode n p) = pRecoveryRef p"
  "pSecretRef (recordPlacementAuditNode n p) = pSecretRef p"
  "pSecretVersion (recordPlacementAuditNode n p) = pSecretVersion p"
  "pSecretRecipients (recordPlacementAuditNode n p) = pSecretRecipients p"
  "pSecretSealGeneration (recordPlacementAuditNode n p) = pSecretSealGeneration p"
  "pOrphanedOwnerNodeID (recordPlacementAuditNode n p) = pOrphanedOwnerNodeID p"
  "pExpiresUnix (recordPlacementAuditNode n p) = pExpiresUnix p"
  by (simp_all add: recordPlacementAuditNode_def Let_def)

definition auditNodesOk :: "Placement \<Rightarrow> bool" where
  "auditNodesOk p \<longleftrightarrow> length (pAuditNodeIDs p) \<le> maxPlacementAuditNodes \<and> distinct (pAuditNodeIDs p)"

lemma recordPlacementAuditNode_ok: "auditNodesOk p \<Longrightarrow> auditNodesOk (recordPlacementAuditNode n p)"
  by (simp add: auditNodesOk_def recordPlacementAuditNode_def Let_def)

text \<open>No evidence gap: the node is on the list afterwards, or the row says the list is truncated.\<close>

lemma recordPlacementAuditNode_complete:
  "trimSpace n \<noteq> [] \<Longrightarrow>
   trimSpace n \<in> set (pAuditNodeIDs (recordPlacementAuditNode n p)) \<or>
   pAuditNodesTruncated (recordPlacementAuditNode n p)"
  by (simp add: recordPlacementAuditNode_def Let_def)

end
