(* ===== verification/Secret_Handles.thy ===== *)
theory Secret_Handles
  imports Placement_Types
begin

text \<open>
  Secret provider handles: the \<^verbatim>\<open>cluster-secret://\<close> reference format of
  \<^verbatim>\<open>pkg/secrets/envelope.go\<close>, the handle and recipient validation of \<^verbatim>\<open>cluster.go\<close> and the
  recipient normalisation of \<^verbatim>\<open>placement.go\<close>.
\<close>

section \<open>References\<close>

definition RefVersion :: int where "RefVersion = 1"

definition refPrefix :: string where "refPrefix = ''cluster-secret://sandbox/''"

text \<open>\<^verbatim>\<open>strconv.Atoi\<close> and decimal printing.\<close>

definition isDigit :: "char \<Rightarrow> bool" where
  "isDigit c \<longleftrightarrow> 48 \<le> (of_char c :: nat) \<and> (of_char c :: nat) \<le> 57"

definition digitVal :: "char \<Rightarrow> int" where "digitVal c = int (of_char c) - 48"

definition atoi :: "string \<Rightarrow> int option" where
  "atoi s =
     (let (neg, ds) = (case s of
            [] \<Rightarrow> (False, [])
          | c # cs \<Rightarrow> if c = CHR ''-'' then (True, cs)
                     else if c = CHR ''+'' then (False, cs) else (False, s))
      in if ds = [] \<or> \<not> list_all isDigit ds then None
         else let v = foldl (\<lambda>a c. a * 10 + digitVal c) 0 ds in Some (if neg then - v else v))"

fun itoaNat :: "nat \<Rightarrow> string" where
  "itoaNat n = (if n < 10 then [char_of (48 + n)] else itoaNat (n div 10) @ [char_of (48 + n mod 10)])"

declare itoaNat.simps [simp del]

definition itoa :: "int \<Rightarrow> string" where
  "itoa v = (if v < 0 then CHR ''-'' # itoaNat (nat (- v)) else itoaNat (nat v))"

text \<open>\<^verbatim>\<open>strings.Index\<close> and \<^verbatim>\<open>strings.LastIndex\<close>: the first and the last position of a substring.\<close>

fun strIndex :: "string \<Rightarrow> string \<Rightarrow> nat option" where
  "strIndex sub [] = (if sub = [] then Some 0 else None)"
| "strIndex sub (c # cs) =
     (if prefix sub (c # cs) then Some 0 else map_option Suc (strIndex sub cs))"

fun strLastIndex :: "string \<Rightarrow> string \<Rightarrow> nat option" where
  "strLastIndex sub [] = (if sub = [] then Some 0 else None)"
| "strLastIndex sub (c # cs) =
     (case strLastIndex sub cs of
        Some n \<Rightarrow> Some (Suc n)
      | None \<Rightarrow> if prefix sub (c # cs) then Some 0 else None)"

definition FormatRef :: "string \<Rightarrow> string \<Rightarrow> int \<Rightarrow> string" where
  "FormatRef sandboxID incarnationID version =
     refPrefix @ trimSpace sandboxID @ ''/i/'' @ trimSpace incarnationID @ ''/v'' @ itoa version"

record ParsedRef =
  prSandboxID :: string
  prIncarnationID :: string
  prVersion :: int

definition ParseRef :: "string \<Rightarrow> ParsedRef option" where
  "ParseRef ref =
     (case cutPrefix (trimSpace ref) refPrefix of
        None \<Rightarrow> None
      | Some rest \<Rightarrow>
         (case strIndex ''/i/'' rest of
            None \<Rightarrow> None
          | Some i \<Rightarrow>
              if i = 0 then None
              else let sandboxID = take i rest; tail = drop (i + 3) rest
                   in (case strLastIndex ''/v'' tail of
                         None \<Rightarrow> None
                       | Some vIdx \<Rightarrow>
                           if vIdx = 0 then None
                           else let inc = trimSpace (take vIdx tail)
                                in (case atoi (drop (vIdx + 2) tail) of
                                      None \<Rightarrow> None
                                    | Some ver \<Rightarrow>
                                        if ver \<noteq> RefVersion \<or> sandboxID = [] \<or> inc = [] then None
                                        else Some \<lparr>prSandboxID = sandboxID, prIncarnationID = inc,
                                                   prVersion = ver\<rparr>))))"

section \<open>Recipients\<close>

fun normalizeLoop :: "string set \<Rightarrow> string list \<Rightarrow> string list" where
  "normalizeLoop seen [] = []"
| "normalizeLoop seen (i # ids) =
     (let i' = trimSpace i
      in if i' = [] \<or> i' \<in> seen then normalizeLoop seen ids
         else i' # normalizeLoop (insert i' seen) ids)"

definition normalizeSecretRecipientIDs :: "string list \<Rightarrow> string list" where
  "normalizeSecretRecipientIDs ids = normalizeLoop {} ids"

definition sameSecretRecipientSet :: "string list \<Rightarrow> string list \<Rightarrow> bool" where
  "sameSecretRecipientSet a b =
     (let a = normalizeSecretRecipientIDs a; b = normalizeSecretRecipientIDs b
      in if length a \<noteq> length b then False else list_all (\<lambda>i. i \<in> set a) b)"

section \<open>Handles\<close>

record PlacementSecrets =
  psRef :: string
  psVersion :: int
  psRecipients :: "string list"
  psOwnerRef :: string
  psIncarnationID :: string
  psSealGeneration :: int

definition hasUpdate :: "PlacementSecrets \<Rightarrow> bool" where
  "hasUpdate s \<longleftrightarrow> psRef s \<noteq> [] \<or> psVersion s \<noteq> 0 \<or> psSealGeneration s \<noteq> 0"

definition secretsFromPlacement :: "Placement \<Rightarrow> PlacementSecrets" where
  "secretsFromPlacement p =
     \<lparr>psRef = pSecretRef p, psVersion = pSecretVersion p, psRecipients = pSecretRecipients p,
      psOwnerRef = pOwnerRef p, psIncarnationID = pIncarnationID p,
      psSealGeneration = pSecretSealGeneration p\<rparr>"

definition validatePlacementSecretHandle :: "string \<Rightarrow> PlacementSecrets \<Rightarrow> fsmError option" where
  "validatePlacementSecretHandle sandboxID handle =
     (let sandboxID = trimSpace sandboxID; incarnationID = trimSpace (psIncarnationID handle)
      in if sandboxID = [] \<or> trimSpace (psRef handle) = [] \<or> psVersion handle \<noteq> RefVersion \<or>
            incarnationID = [] \<or> psSealGeneration handle \<le> 0
         then Some ErrInvalidSecretHandle
         else (case ParseRef (psRef handle) of
                 None \<Rightarrow> Some ErrInvalidSecretHandle
               | Some parsed \<Rightarrow>
                   if prSandboxID parsed \<noteq> sandboxID \<or> prIncarnationID parsed \<noteq> incarnationID \<or>
                      prVersion parsed \<noteq> psVersion handle
                   then Some ErrInvalidSecretHandle else None))"

definition validateSecretRecipientUpdate ::
  "string \<Rightarrow> string list \<Rightarrow> PlacementSecrets \<Rightarrow> string \<Rightarrow> int \<Rightarrow> fsmError option" where
  "validateSecretRecipientUpdate sandboxID recipients nxt expectedIncarnationID expectedSealGeneration =
     (let sandboxID = trimSpace sandboxID; expectedIncarnationID = trimSpace expectedIncarnationID
      in if sandboxID = [] \<or> normalizeSecretRecipientIDs recipients = []
         then Some ErrSecretRecipientsCASMismatch
         else if expectedIncarnationID = [] \<or> expectedSealGeneration \<le> 0
         then Some ErrSecretRecipientsCASMismatch
         else if trimSpace (psIncarnationID nxt) \<noteq> expectedIncarnationID \<or>
                 psVersion nxt \<noteq> RefVersion \<or> psSealGeneration nxt \<le> expectedSealGeneration
         then Some ErrSecretRecipientsCASMismatch
         else (case ParseRef (psRef nxt) of
                 None \<Rightarrow> Some ErrSecretRecipientsCASMismatch
               | Some parsed \<Rightarrow>
                   if prSandboxID parsed \<noteq> sandboxID \<or> prIncarnationID parsed \<noteq> expectedIncarnationID \<or>
                      prVersion parsed \<noteq> psVersion nxt
                   then Some ErrSecretRecipientsCASMismatch else None))"

section \<open>Lemmas\<close>

lemma itoa_one: "itoa 1 = ''1''"
  by code_simp

lemma normalizeLoop_spec:
  "distinct (normalizeLoop seen ids) \<and> set (normalizeLoop seen ids) = trimSpace ` set ids - {[]} - seen"
  by (induction seen ids rule: normalizeLoop.induct) (auto simp: Let_def)

lemma distinct_normalize [simp]: "distinct (normalizeSecretRecipientIDs ids)"
  by (simp add: normalizeSecretRecipientIDs_def normalizeLoop_spec)

lemma set_normalize: "set (normalizeSecretRecipientIDs ids) = trimSpace ` set ids - {[]}"
  by (simp add: normalizeSecretRecipientIDs_def normalizeLoop_spec)

lemma normalizeLoop_fixed:
  "distinct xs \<Longrightarrow> set xs \<inter> seen = {} \<Longrightarrow> \<forall>x \<in> set xs. trimSpace x = x \<and> x \<noteq> [] \<Longrightarrow>
   normalizeLoop seen xs = xs"
  by (induction seen xs rule: normalizeLoop.induct) (auto simp: Let_def)

lemma normalize_idem:
  "normalizeSecretRecipientIDs (normalizeSecretRecipientIDs ids) = normalizeSecretRecipientIDs ids"
proof -
  have "\<forall>x \<in> set (normalizeSecretRecipientIDs ids). trimSpace x = x \<and> x \<noteq> []"
    by (auto simp: set_normalize)
  then show ?thesis
    by (subst normalizeSecretRecipientIDs_def) (rule normalizeLoop_fixed, simp_all)
qed

lemma strIndex_sep:
  assumes "x \<notin> set a"
  shows "strIndex (x # sub) (a @ x # sub @ b) = Some (length a)"
  using assms by (induction a) auto

lemma strLastIndex_None: "x \<notin> set a \<Longrightarrow> strLastIndex (x # sub) a = None"
  by (induction a) auto

lemma strLastIndex_append:
  "strLastIndex sub b = Some n \<Longrightarrow> strLastIndex sub (a @ b) = Some (length a + n)"
  by (induction a) auto

lemma strLastIndex_sep:
  assumes "x \<notin> set sub" "x \<notin> set b"
  shows "strLastIndex (x # sub) (a @ x # sub @ b) = Some (length a)"
proof -
  have "strLastIndex (x # sub) (sub @ b) = None" using assms by (intro strLastIndex_None) auto
  then have "strLastIndex (x # sub) (x # sub @ b) = Some 0" by simp
  from strLastIndex_append[OF this] show ?thesis by simp
qed

section \<open>Properties\<close>

text \<open>Printing and parsing a secret reference round trip: for a sandbox id without a
  slash, the handle the code formats parses back to the same sandbox, incarnation and version, so
  the handle passes validation for exactly that lifecycle.\<close>

theorem secret_ref_roundtrip:
  assumes "trimSpace sb = sb" "sb \<noteq> []" "CHR ''/'' \<notin> set sb" "trimSpace inc = inc" "inc \<noteq> []" "gen > 0"
  shows "ParseRef (FormatRef sb inc RefVersion) =
           Some \<lparr>prSandboxID = sb, prIncarnationID = inc, prVersion = RefVersion\<rparr> \<and>
         validatePlacementSecretHandle sb
           \<lparr>psRef = FormatRef sb inc RefVersion, psVersion = RefVersion, psRecipients = rs,
            psOwnerRef = ow, psIncarnationID = inc, psSealGeneration = gen\<rparr> = None"
proof -
  have fmt: "FormatRef sb inc RefVersion = refPrefix @ sb @ ''/i/'' @ inc @ ''/v'' @ ''1''"
    using assms by (simp add: FormatRef_def RefVersion_def itoa_one)
  have trim: "trimSpace (FormatRef sb inc RefVersion) = FormatRef sb inc RefVersion"
    unfolding fmt by (rule trimSpace_ends) (simp_all add: refPrefix_def visibleChar_def)
  have idx: "strIndex ''/i/'' (sb @ ''/i/'' @ inc @ ''/v'' @ ''1'') = Some (length sb)"
    using strIndex_sep[OF assms(3), of "''i/''" "inc @ ''/v'' @ ''1''"] by simp
  have vidx: "strLastIndex ''/v'' (inc @ ''/v'' @ ''1'') = Some (length inc)"
    using strLastIndex_sep[of "CHR ''/''" "''v''" "''1''" inc] by simp
  have cut: "cutPrefix (trimSpace (FormatRef sb inc RefVersion)) refPrefix =
      Some (sb @ ''/i/'' @ inc @ ''/v'' @ ''1'')"
    unfolding trim by (simp only: fmt cutPrefix_append)
  have "atoi ''1'' = Some 1" by (simp add: atoi_def isDigit_def digitVal_def)
  then have parse: "ParseRef (FormatRef sb inc RefVersion) =
      Some \<lparr>prSandboxID = sb, prIncarnationID = inc, prVersion = RefVersion\<rparr>"
    unfolding ParseRef_def cut using assms idx vidx
    by (simp add: RefVersion_def)
  have "trimSpace (FormatRef sb inc RefVersion) \<noteq> []" unfolding trim by (simp add: fmt refPrefix_def)
  with parse assms show ?thesis
    by (simp add: validatePlacementSecretHandle_def)
qed

theorem secret_ref_roundtrip_witness:
  "ParseRef (FormatRef ''sb1'' ''ab/v9'' RefVersion) =
     Some \<lparr>prSandboxID = ''sb1'', prIncarnationID = ''ab/v9'', prVersion = RefVersion\<rparr>"
  using secret_ref_roundtrip[of "''sb1''" "''ab/v9''" 1] by (simp add: visibleChar_def)

text \<open>Two recipient lists are the same set exactly when their trimmed, non-empty
  members agree: order, repetition and surrounding white space do not matter.\<close>

theorem recipient_set_equality:
  "sameSecretRecipientSet a b \<longleftrightarrow> trimSpace ` set a - {[]} = trimSpace ` set b - {[]}"
proof -
  let ?a = "normalizeSecretRecipientIDs a" and ?b = "normalizeSecretRecipientIDs b"
  have "length ?a = card (set ?a)" "length ?b = card (set ?b)" by (simp_all add: distinct_card)
  then have "sameSecretRecipientSet a b \<longleftrightarrow> card (set ?a) = card (set ?b) \<and> set ?b \<subseteq> set ?a"
    by (auto simp: sameSecretRecipientSet_def Let_def list_all_iff)
  also have "\<dots> \<longleftrightarrow> set ?a = set ?b" using card_subset_eq[of "set ?a" "set ?b"] by auto
  finally have "sameSecretRecipientSet a b \<longleftrightarrow> set ?a = set ?b" .
  then show ?thesis by (simp only: set_normalize)
qed

end
