(* ===== verification/Shards.thy ===== *)
theory Shards
  imports Prelude "HOL-Library.Multiset" "HOL-Library.Word" "HOL-Library.Product_Lexorder"
begin

text \<open>
  Placement shards and the ingress ring (\<^verbatim>\<open>internal/cluster/shards.go\<close>): the FNV-32a shard of a
  sandbox, shard filters, and the rendezvous hashing that decides which ingress nodes install and
  which ones a router targets for a shard.  The rendezvous score (a SHA-256 prefix of the shard
  number and the node id) is a parameter of the ring functions.
\<close>

unbundle bit_operations_syntax

section \<open>Shard of a sandbox\<close>

definition DefaultPlacementShardCount :: int where "DefaultPlacementShardCount = 16384"

text \<open>\<^verbatim>\<open>hash/fnv\<close>: 32-bit FNV-1a.\<close>

definition fnv32a :: "string \<Rightarrow> 32 word" where
  "fnv32a s = foldl (\<lambda>h c. (h XOR word_of_nat (of_char c)) * 16777619) 2166136261 s"

text \<open>The shard; \<^term>\<open>None\<close> is the division-by-zero panic of \<^verbatim>\<open>h.Sum32() % uint32(count)\<close>, whose divisor
  is the count truncated to 32 bits.\<close>

definition PlacementShardForSandbox :: "string \<Rightarrow> int \<Rightarrow> int option" where
  "PlacementShardForSandbox sandboxID shardCount =
     (let shardCount = (if shardCount \<le> 0 then DefaultPlacementShardCount else shardCount);
          divisor = shardCount mod 2 ^ 32
      in if divisor = 0 then None else Some (uint (fnv32a sandboxID) mod divisor))"

section \<open>Filters and page requests\<close>

record PlacementShardFilter =
  sfShardCount :: int
  sfShards :: "int list"
  sfNone :: bool

fun dedupShards :: "int \<Rightarrow> int set \<Rightarrow> int list \<Rightarrow> int list" where
  "dedupShards shardCount seen [] = []"
| "dedupShards shardCount seen (s # ss) =
     (if s < 0 \<or> s \<ge> shardCount \<or> s \<in> seen then dedupShards shardCount seen ss
      else s # dedupShards shardCount (insert s seen) ss)"

definition filterNormalize :: "PlacementShardFilter \<Rightarrow> PlacementShardFilter" where
  "filterNormalize f =
     (let shardCount = (if sfShardCount f \<le> 0 then DefaultPlacementShardCount else sfShardCount f)
      in if sfNone f then \<lparr>sfShardCount = shardCount, sfShards = [], sfNone = True\<rparr>
         else if sfShards f = [] then \<lparr>sfShardCount = shardCount, sfShards = [], sfNone = False\<rparr>
         else \<lparr>sfShardCount = shardCount, sfShards = sort (dedupShards shardCount {} (sfShards f)),
               sfNone = False\<rparr>)"

definition allShards :: "PlacementShardFilter \<Rightarrow> bool" where
  "allShards f = (let f = filterNormalize f in \<not> sfNone f \<and> sfShards f = [])"

definition noShards :: "PlacementShardFilter \<Rightarrow> bool" where "noShards f = sfNone f"

definition NoPlacementShards :: PlacementShardFilter where
  "NoPlacementShards = \<lparr>sfShardCount = DefaultPlacementShardCount, sfShards = [], sfNone = True\<rparr>"

definition zeroShardFilter :: PlacementShardFilter where
  "zeroShardFilter = \<lparr>sfShardCount = 0, sfShards = [], sfNone = False\<rparr>"

record PlacementPageRequest =
  prLimit :: int
  prPageToken :: string
  prShardFilter :: PlacementShardFilter
  prOwnerRef :: string
  prOwnerNodeID :: string

definition DefaultPlacementPageLimit :: int where "DefaultPlacementPageLimit = 1000"
definition MaxPlacementPageLimit :: int where "MaxPlacementPageLimit = 5000"

definition pageNormalize :: "PlacementPageRequest \<Rightarrow> PlacementPageRequest" where
  "pageNormalize r =
     (let limit = (if prLimit r \<le> 0 then DefaultPlacementPageLimit else prLimit r);
          limit = (if limit > MaxPlacementPageLimit then MaxPlacementPageLimit else limit)
      in \<lparr>prLimit = limit, prPageToken = prPageToken r,
          prShardFilter = filterNormalize (prShardFilter r),
          prOwnerRef = trimSpace (prOwnerRef r), prOwnerNodeID = trimSpace (prOwnerNodeID r)\<rparr>)"

section \<open>Members\<close>

record Member =
  mNodeID :: string
  mAPIURL :: string
  mDataPlaneHost :: string
  mInternalURL :: string
  mRole :: string
  mAlive :: bool

text \<open>\<^verbatim>\<open>strings.ToLower\<close> as far as a comparison with an ASCII token sees it: ASCII letters, and the
  two code points outside ASCII whose lower case is ASCII (U+0130 and U+212A).\<close>

definition lowerChar :: "char \<Rightarrow> char" where
  "lowerChar c = (let n = (of_char c :: nat) in if 65 \<le> n \<and> n \<le> 90 then char_of (n + 32) else c)"

fun toLower :: "string \<Rightarrow> string" where
  "toLower [] = []"
| "toLower (a # b # c # s) =
     (if [a, b] = byteStr [196, 176] then CHR ''i'' # toLower (c # s)
      else if [a, b, c] = byteStr [226, 132, 170] then CHR ''k'' # toLower s
      else lowerChar a # toLower (b # c # s))"
| "toLower [a, b] =
     (if [a, b] = byteStr [196, 176] then ''i'' else [lowerChar a, lowerChar b])"
| "toLower [a] = [lowerChar a]"

fun splitOn :: "char \<Rightarrow> string \<Rightarrow> string list" where
  "splitOn sep [] = [[]]"
| "splitOn sep (c # cs) =
     (if c = sep then [] # splitOn sep cs
      else case splitOn sep cs of [] \<Rightarrow> [[c]] | w # ws \<Rightarrow> (c # w) # ws)"

definition CanServeIngressRole :: "string \<Rightarrow> bool" where
  "CanServeIngressRole role =
     (let trimmed = trimSpace role
      in trimmed = [] \<or>
         list_ex (\<lambda>raw. toLower (trimSpace raw) \<in> {''ingress'', ''mixed''}) (splitOn (CHR '','') trimmed))"

definition ingressEligible :: "Member \<Rightarrow> bool" where
  "ingressEligible m \<longleftrightarrow> mNodeID m \<noteq> [] \<and> mAlive m \<and> CanServeIngressRole (mRole m)"

fun firstByNode :: "string set \<Rightarrow> Member list \<Rightarrow> Member list" where
  "firstByNode seen [] = []"
| "firstByNode seen (m # ms) =
     (if \<not> ingressEligible m \<or> mNodeID m \<in> seen then firstByNode seen ms
      else m # firstByNode (insert (mNodeID m) seen) ms)"

definition ingressShardNodeIDs :: "Member list \<Rightarrow> string list" where
  "ingressShardNodeIDs members = sort (map mNodeID (firstByNode {} members))"

record IngressRouteOwner =
  ioNodeID :: string
  ioAPIURL :: string
  ioInternalURL :: string
  ioDataPlaneHost :: string

definition ingressRouteOwners :: "Member list \<Rightarrow> IngressRouteOwner list" where
  "ingressRouteOwners members =
     sort_key ioNodeID
       (map (\<lambda>m. \<lparr>ioNodeID = mNodeID m, ioAPIURL = mAPIURL m, ioInternalURL = mInternalURL m,
                  ioDataPlaneHost = mDataPlaneHost m\<rparr>) (firstByNode {} members))"

section \<open>Rendezvous hashing\<close>

text \<open>The loop of \<^verbatim>\<open>rendezvousIngressTopTwo\<close>; the two running winners carry their score.\<close>

fun topTwoLoop ::
  "(string \<Rightarrow> nat) \<Rightarrow> string list \<Rightarrow> nat \<Rightarrow> string list \<Rightarrow> (nat \<times> nat) option \<Rightarrow> (nat \<times> nat) option
     \<Rightarrow> nat option \<times> nat option" where
  "topTwoLoop score ids i [] fst2 snd2 = (map_option fst fst2, map_option fst snd2)"
| "topTwoLoop score ids i (x # xs) fst2 snd2 =
     (let s = score x;
          beats = (\<lambda>w. case w of None \<Rightarrow> True
                       | Some (j, t) \<Rightarrow> s > t \<or> (s = t \<and> x < ids ! j))
      in if beats fst2 then topTwoLoop score ids (Suc i) xs (Some (i, s)) fst2
         else if beats snd2 then topTwoLoop score ids (Suc i) xs fst2 (Some (i, s))
         else topTwoLoop score ids (Suc i) xs fst2 snd2)"

definition rendezvousIngressTopTwo ::
  "(int \<Rightarrow> string \<Rightarrow> nat) \<Rightarrow> int \<Rightarrow> string list \<Rightarrow> nat option \<times> nat option" where
  "rendezvousIngressTopTwo score shard ids = topTwoLoop (score shard) ids 0 ids None None"

text \<open>The full ordering: highest score first, ties by node id.\<close>

definition rendezvousOrder :: "(string \<Rightarrow> nat) \<Rightarrow> string list \<Rightarrow> nat list" where
  "rendezvousOrder score ids = sort_key (\<lambda>i. (- int (score (ids ! i)), ids ! i)) [0..<length ids]"

definition rendezvousIngressOwnerIndexes ::
  "(int \<Rightarrow> string \<Rightarrow> nat) \<Rightarrow> int \<Rightarrow> string list \<Rightarrow> int \<Rightarrow> nat list" where
  "rendezvousIngressOwnerIndexes score shard nodeIDs n =
     (if nodeIDs = [] \<or> n \<le> 0 then []
      else if n \<le> 2
      then (case rendezvousIngressTopTwo score shard nodeIDs of
              (first, second) \<Rightarrow>
                (case first of
                   None \<Rightarrow> []
                 | Some a \<Rightarrow> (case second of
                               None \<Rightarrow> [a]
                             | Some b \<Rightarrow> if n = 1 then [a] else [a, b])))
      else take (nat n) (rendezvousOrder (score shard) nodeIDs))"

definition MaxReplicatedIngressRouteNodes :: nat where "MaxReplicatedIngressRouteNodes = 10"

text \<open>Which shards a node installs.\<close>

definition ingressShardFilterForIDs ::
  "(int \<Rightarrow> string \<Rightarrow> nat) \<Rightarrow> string list \<Rightarrow> string \<Rightarrow> PlacementShardFilter" where
  "ingressShardFilterForIDs score ids nodeID =
     (if nodeID = [] then zeroShardFilter
      else let ids = (if nodeID \<in> set ids then ids else sort (ids @ [nodeID]));
               selfIndex = length (takeWhile (\<lambda>i. i \<noteq> nodeID) ids)
           in if length ids \<le> MaxReplicatedIngressRouteNodes then zeroShardFilter
              else \<lparr>sfShardCount = DefaultPlacementShardCount,
                    sfShards = filter (\<lambda>shard.
                        let (primary, backup) = rendezvousIngressTopTwo score shard ids
                        in primary = Some selfIndex \<or> backup = Some selfIndex)
                      (map int [0..<nat DefaultPlacementShardCount]),
                    sfNone = False\<rparr>)"

definition IngressShardFilterForNode ::
  "(int \<Rightarrow> string \<Rightarrow> nat) \<Rightarrow> Member list \<Rightarrow> string \<Rightarrow> string \<Rightarrow> PlacementShardFilter" where
  "IngressShardFilterForNode score members nodeID selfRole =
     (if \<not> CanServeIngressRole selfRole then NoPlacementShards
      else ingressShardFilterForIDs score (ingressShardNodeIDs members) nodeID)"

text \<open>Which owners a router targets for a shard.\<close>

definition ingressOwnersForShard ::
  "(int \<Rightarrow> string \<Rightarrow> nat) \<Rightarrow> Member list \<Rightarrow> int \<Rightarrow> IngressRouteOwner list" where
  "ingressOwnersForShard score members shard =
     (let owners = ingressRouteOwners members
      in if owners = [] then []
         else if length owners \<le> MaxReplicatedIngressRouteNodes then owners
         else map (\<lambda>idx. owners ! idx)
                (filter (\<lambda>idx. idx < length owners)
                   (rendezvousIngressOwnerIndexes score shard (ingressShardNodeIDs members) 2)))"

definition IngressRouteForSandbox ::
  "(int \<Rightarrow> string \<Rightarrow> nat) \<Rightarrow> Member list \<Rightarrow> string \<Rightarrow> IngressRouteOwner list option" where
  "IngressRouteForSandbox score members sandboxID =
     map_option (ingressOwnersForShard score members)
       (PlacementShardForSandbox sandboxID DefaultPlacementShardCount)"

section \<open>Lemmas\<close>

lemma PlacementShard_default:
  "PlacementShardForSandbox i DefaultPlacementShardCount = Some (uint (fnv32a i) mod 16384)"
  by (simp add: PlacementShardForSandbox_def DefaultPlacementShardCount_def)

lemma mem_dedupShards:
  "x \<in> set (dedupShards n seen ss) \<longleftrightarrow> x \<in> set ss \<and> 0 \<le> x \<and> x < n \<and> x \<notin> seen"
proof (induction n seen ss rule: dedupShards.induct)
  case (2 n seen s ss)
  then show ?case by (cases "s < 0 \<or> s \<ge> n \<or> s \<in> seen") auto
qed simp

lemma distinct_dedupShards: "distinct (dedupShards n seen ss)"
  by (induction n seen ss rule: dedupShards.induct) (simp_all add: mem_dedupShards)

lemma filterNormalize_idem: "filterNormalize (filterNormalize f) = filterNormalize f"
proof -
  have "dedupShards n {} (sort (dedupShards n {} ss)) = sort (dedupShards n {} ss)" for n ss
  proof -
    have *: "distinct xs \<Longrightarrow> \<forall>x \<in> set xs. 0 \<le> x \<and> x < n \<Longrightarrow> set xs \<inter> seen = {} \<Longrightarrow>
             dedupShards n seen xs = xs" for seen xs
      by (induction n seen xs rule: dedupShards.induct) auto
    show ?thesis by (rule *) (auto simp: mem_dedupShards distinct_dedupShards)
  qed
  then show ?thesis
    by (simp add: filterNormalize_def Let_def DefaultPlacementShardCount_def sorted_sort_id)
qed

abbreviation rankKey :: "(string \<Rightarrow> nat) \<Rightarrow> string list \<Rightarrow> nat \<Rightarrow> int \<times> string" where
  "rankKey score ids i \<equiv> (- int (score (ids ! i)), ids ! i)"

definition nthOpt :: "nat \<Rightarrow> 'a list \<Rightarrow> 'a option" where
  "nthOpt n xs = (if n < length xs then Some (xs ! n) else None)"

lemma sort_key_snoc:
  assumes "inj_on f (set (xs @ [x]))"
  shows "sort_key f (xs @ [x]) = insort_key f x (sort_key f xs)"
  using assms by (intro sort_key_inj_key_eq) (simp_all add: sorted_insort_key)

lemma map_insort_key: "map f (insort_key f x xs) = insort (f x) (map f xs)"
  by (induction xs) auto

lemma map_sort_key: "map f (sort_key f xs) = sort (map f xs)"
  by (induction xs) (simp_all add: map_insort_key sort_key_def)

lemma beats_iff:
  "score (ids ! i) > score (ids ! j) \<or> (score (ids ! i) = score (ids ! j) \<and> ids ! i < ids ! j) \<longleftrightarrow>
   rankKey score ids i < rankKey score ids j"
  by (auto simp: less_prod_def)

lemma rankKey_eq:
  "distinct ids \<Longrightarrow> i < length ids \<Longrightarrow> j < length ids \<Longrightarrow>
   rankKey score ids i = rankKey score ids j \<longleftrightarrow> i = j"
  by (auto simp: nth_eq_iff_index_eq)

text \<open>One round of the loop, in terms of the rank order; then: the running winners are the first
  two of the ordering of the ids seen so far.\<close>

definition withScore :: "(string \<Rightarrow> nat) \<Rightarrow> string list \<Rightarrow> nat option \<Rightarrow> (nat \<times> nat) option" where
  "withScore score ids w = map_option (\<lambda>j. (j, score (ids ! j))) w"

definition ranksBefore :: "(string \<Rightarrow> nat) \<Rightarrow> string list \<Rightarrow> nat \<Rightarrow> nat option \<Rightarrow> bool" where
  "ranksBefore score ids i w =
     (case w of None \<Rightarrow> True | Some j \<Rightarrow> rankKey score ids i < rankKey score ids j)"

lemma topTwoLoop_step:
  "topTwoLoop score ids i ((ids ! i) # xs) (withScore score ids a) (withScore score ids b) =
   (if ranksBefore score ids i a
    then topTwoLoop score ids (Suc i) xs (withScore score ids (Some i)) (withScore score ids a)
    else if ranksBefore score ids i b
    then topTwoLoop score ids (Suc i) xs (withScore score ids a) (withScore score ids (Some i))
    else topTwoLoop score ids (Suc i) xs (withScore score ids a) (withScore score ids b))"
proof -
  have b: "(case withScore score ids w of None \<Rightarrow> True
      | Some (j, t) \<Rightarrow> score (ids ! i) > t \<or> (score (ids ! i) = t \<and> ids ! i < ids ! j)) =
      ranksBefore score ids i w" for w
    unfolding ranksBefore_def beats_iff[symmetric] by (cases w) (simp_all add: withScore_def)
  show ?thesis
    by (simp only: topTwoLoop.simps Let_def b) (simp add: withScore_def)
qed

lemma insort_firsts:
  assumes "sorted (map k L)" "\<forall>j \<in> set L. k j \<noteq> k i"
  shows "nthOpt 0 (insort_key k i L) =
           (if case nthOpt 0 L of None \<Rightarrow> True | Some j \<Rightarrow> k i < k j then Some i else nthOpt 0 L)"
    and "nthOpt 1 (insort_key k i L) =
           (if case nthOpt 0 L of None \<Rightarrow> True | Some j \<Rightarrow> k i < k j then nthOpt 0 L
            else if case nthOpt 1 L of None \<Rightarrow> True | Some j \<Rightarrow> k i < k j then Some i else nthOpt 1 L)"
proof -
  consider "L = []" | a where "L = [a]" | a b t where "L = a # b # t" by (metis list.exhaust)
  note cases = this
  show "nthOpt 0 (insort_key k i L) =
           (if case nthOpt 0 L of None \<Rightarrow> True | Some j \<Rightarrow> k i < k j then Some i else nthOpt 0 L)"
    using assms by (cases rule: cases) (auto simp: nthOpt_def less_le)
  show "nthOpt 1 (insort_key k i L) =
           (if case nthOpt 0 L of None \<Rightarrow> True | Some j \<Rightarrow> k i < k j then nthOpt 0 L
            else if case nthOpt 1 L of None \<Rightarrow> True | Some j \<Rightarrow> k i < k j then Some i else nthOpt 1 L)"
    using assms by (cases rule: cases) (auto simp: nthOpt_def less_le)
qed

lemma topTwoLoop_order:
  assumes "distinct ids" "i \<le> length ids" "L = sort_key (rankKey score ids) [0..<i]"
  shows "topTwoLoop score ids i (drop i ids)
           (withScore score ids (nthOpt 0 L)) (withScore score ids (nthOpt 1 L)) =
         (nthOpt 0 (rendezvousOrder score ids), nthOpt 1 (rendezvousOrder score ids))"
  using assms(2,3)
proof (induction "length ids - i" arbitrary: i L)
  case 0
  then show ?case by (simp add: rendezvousOrder_def withScore_def option.map_comp comp_def option.map_ident)
next
  case (Suc n)
  then have i: "i < length ids" by simp
  have inj: "inj_on (rankKey score ids) (set ([0..<i] @ [i]))"
    using i rankKey_eq[OF assms(1)] by (auto simp: inj_on_def simp del: prod.inject)
  define L' where "L' = sort_key (rankKey score ids) [0..<Suc i]"
  have L': "L' = insort_key (rankKey score ids) i L"
    using sort_key_snoc[OF inj] by (simp add: L'_def Suc.prems(2))
  have srt: "sorted (map (rankKey score ids) L)" by (simp only: Suc.prems(2) sorted_sort_key)
  have mem: "set L = {0..<i}" by (simp add: Suc.prems(2))
  have neq: "\<forall>j \<in> set L. rankKey score ids j \<noteq> rankKey score ids i"
    using i mem rankKey_eq[OF assms(1), of _ i] by (simp del: prod.inject)
  have IH: "topTwoLoop score ids (Suc i) (drop (Suc i) ids)
           (withScore score ids (nthOpt 0 L')) (withScore score ids (nthOpt 1 L')) =
         (nthOpt 0 (rendezvousOrder score ids), nthOpt 1 (rendezvousOrder score ids))"
    using Suc.hyps(1)[of "Suc i" L'] Suc.hyps(2) i by (simp add: L'_def)
  have first: "nthOpt 0 L' = (if ranksBefore score ids i (nthOpt 0 L) then Some i else nthOpt 0 L)"
    and second: "nthOpt 1 L' = (if ranksBefore score ids i (nthOpt 0 L) then nthOpt 0 L
        else if ranksBefore score ids i (nthOpt 1 L) then Some i else nthOpt 1 L)"
    unfolding L' ranksBefore_def by (rule insort_firsts[OF srt neq])+
  have "drop i ids = (ids ! i) # drop (Suc i) ids" using i by (rule Cons_nth_drop_Suc[symmetric])
  then show ?case
    using IH unfolding first second
    by (cases "ranksBefore score ids i (nthOpt 0 L)"; cases "ranksBefore score ids i (nthOpt 1 L)")
       (simp_all only: topTwoLoop_step if_True if_False)
qed

lemma topTwo_order:
  assumes "distinct ids"
  shows "rendezvousIngressTopTwo score shard ids =
         (nthOpt 0 (rendezvousOrder (score shard) ids), nthOpt 1 (rendezvousOrder (score shard) ids))"
  using topTwoLoop_order[OF assms, of 0 "[]" "score shard"]
  by (simp add: rendezvousIngressTopTwo_def nthOpt_def withScore_def)

lemma mem_firstByNode:
  "mNodeID ` set (firstByNode seen ms) = mNodeID ` {m \<in> set ms. ingressEligible m} - seen"
proof (induction seen ms rule: firstByNode.induct)
  case (2 seen m ms)
  then show ?case by (cases "\<not> ingressEligible m \<or> mNodeID m \<in> seen") auto
qed simp

lemma distinct_firstByNode: "distinct (map mNodeID (firstByNode seen ms))"
  using mem_firstByNode by (induction seen ms rule: firstByNode.induct) auto

lemma distinct_ingressShardNodeIDs: "distinct (ingressShardNodeIDs ms)"
  by (simp add: ingressShardNodeIDs_def distinct_firstByNode)

lemma owners_are_ids: "map ioNodeID (ingressRouteOwners ms) = ingressShardNodeIDs ms"
  by (simp add: ingressRouteOwners_def ingressShardNodeIDs_def map_sort_key comp_def)

lemma length_owners: "length (ingressRouteOwners ms) = length (ingressShardNodeIDs ms)"
  by (metis owners_are_ids length_map)

lemma rendezvousOrder_bound: "i \<in> set (rendezvousOrder score ids) \<Longrightarrow> i < length ids"
  by (simp add: rendezvousOrder_def)

lemma length_rendezvousOrder [simp]: "length (rendezvousOrder score ids) = length ids"
  by (simp add: rendezvousOrder_def)

lemma takeWhile_position:
  assumes "distinct ids" "n \<in> set ids" "i < length ids"
  shows "ids ! i = n \<longleftrightarrow> i = length (takeWhile (\<lambda>x. x \<noteq> n) ids)"
proof -
  let ?k = "length (takeWhile (\<lambda>x. x \<noteq> n) ids)"
  have "takeWhile (\<lambda>x. x \<noteq> n) ids \<noteq> ids" using assms(2) by (auto simp: takeWhile_eq_all_conv)
  then have k: "?k < length ids"
    by (metis le_neq_implies_less length_takeWhile_le takeWhile_dropWhile_id append_eq_conv_conj take_all_iff order_refl)
  then have "ids ! ?k = n" using nth_length_takeWhile[of "\<lambda>x. x \<noteq> n" ids] by simp
  then show ?thesis using assms k by (auto simp: nth_eq_iff_index_eq)
qed

lemma topTwo_names:
  assumes "distinct ids" "node \<in> set ids" "2 < length ids"
  shows "(fst (rendezvousIngressTopTwo score shard ids) = Some (length (takeWhile (\<lambda>x. x \<noteq> node) ids)) \<or>
          snd (rendezvousIngressTopTwo score shard ids) = Some (length (takeWhile (\<lambda>x. x \<noteq> node) ids)))
         \<longleftrightarrow> node \<in> (\<lambda>i. ids ! i) ` set (rendezvousIngressOwnerIndexes score shard ids 2)"
proof -
  obtain a b t where abt: "rendezvousOrder (score shard) ids = a # b # t"
    using assms(3) length_rendezvousOrder[of "score shard" ids]
    by (metis Suc_1 Suc_length_conv Suc_less_eq less_Suc_eq_0_disj list.size(3) neq_Nil_conv not_less_zero)
  then have ab: "a < length ids" "b < length ids"
    using rendezvousOrder_bound[of _ "score shard" ids] by auto
  have top: "rendezvousIngressTopTwo score shard ids = (Some a, Some b)"
    using topTwo_order[OF assms(1)] abt assms(3) by (auto simp: nthOpt_def)
  have idx: "rendezvousIngressOwnerIndexes score shard ids 2 = [a, b]"
    using assms(3) by (auto simp: rendezvousIngressOwnerIndexes_def top)
  show ?thesis
    unfolding top idx using takeWhile_position[OF assms(1,2) ab(1)] takeWhile_position[OF assms(1,2) ab(2)]
    by auto
qed

lemma owners_names:
  assumes "10 < length (ingressShardNodeIDs members)"
  shows "ioNodeID ` set (ingressOwnersForShard score members shard) =
         (\<lambda>i. ingressShardNodeIDs members ! i) `
           set (rendezvousIngressOwnerIndexes score shard (ingressShardNodeIDs members) 2)"
proof -
  let ?ids = "ingressShardNodeIDs members" and ?ow = "ingressRouteOwners members"
  let ?idx = "rendezvousIngressOwnerIndexes score shard ?ids 2"
  have d: "distinct ?ids" by (rule distinct_ingressShardNodeIDs)
  have names: "ioNodeID (?ow ! i) = ?ids ! i" if "i < length ?ids" for i
    using that by (metis length_owners nth_map owners_are_ids)
  have "?idx = take (nat 2) (rendezvousOrder (score shard) ?ids)"
    using assms topTwo_order[OF d, of score shard]
    by (auto simp: rendezvousIngressOwnerIndexes_def nthOpt_def take_Suc_conv_app_nth numeral_2_eq_2)
  then have bound: "i < length ?ids" if "i \<in> set ?idx" for i
    using that by (metis in_set_takeD rendezvousOrder_bound)
  have "?ow \<noteq> []" using assms length_owners[of members] by auto
  then show ?thesis
    using assms bound names
    by (force simp: ingressOwnersForShard_def length_owners MaxReplicatedIngressRouteNodes_def Let_def)
qed

lemma sharded_filter_iff:
  assumes "CanServeIngressRole role" "node \<in> set (ingressShardNodeIDs members)" "node \<noteq> []"
    and "10 < length (ingressShardNodeIDs members)"
  shows "shard \<in> set (sfShards (IngressShardFilterForNode score members node role)) \<longleftrightarrow>
         0 \<le> shard \<and> shard < 16384 \<and> node \<in> ioNodeID ` set (ingressOwnersForShard score members shard)"
proof -
  let ?ids = "ingressShardNodeIDs members"
  have flt: "shard \<in> set (sfShards (IngressShardFilterForNode score members node role)) \<longleftrightarrow>
      0 \<le> shard \<and> shard < 16384 \<and>
      (fst (rendezvousIngressTopTwo score shard ?ids) = Some (length (takeWhile (\<lambda>x. x \<noteq> node) ?ids)) \<or>
       snd (rendezvousIngressTopTwo score shard ?ids) = Some (length (takeWhile (\<lambda>x. x \<noteq> node) ?ids)))"
    using assms
    by (auto simp: IngressShardFilterForNode_def ingressShardFilterForIDs_def Let_def
          MaxReplicatedIngressRouteNodes_def DefaultPlacementShardCount_def split: prod.splits
          intro: image_eqI[of _ _ "nat shard"])
  show ?thesis
    unfolding flt owners_names[OF assms(4)]
    using topTwo_names[OF distinct_ingressShardNodeIDs assms(2)] assms(4) by simp
qed

lemma ingress_ids_nonempty: "node \<in> set (ingressShardNodeIDs members) \<Longrightarrow> node \<noteq> []"
proof -
  have "\<forall>m \<in> set (firstByNode seen members). ingressEligible m" for seen
    by (induction members arbitrary: seen) auto
  then show "node \<in> set (ingressShardNodeIDs members) \<Longrightarrow> node \<noteq> []"
    by (auto simp: ingressShardNodeIDs_def ingressEligible_def)
qed

lemma small_tier_filter:
  assumes "CanServeIngressRole role" "node \<in> set (ingressShardNodeIDs members)" "node \<noteq> []"
    and "length (ingressShardNodeIDs members) \<le> 10"
  shows "IngressShardFilterForNode score members node role = zeroShardFilter \<and>
         node \<in> ioNodeID ` set (ingressOwnersForShard score members shard)"
proof -
  have "length (ingressRouteOwners members) \<le> 10" using assms(4) by (simp add: length_owners)
  moreover have "node \<in> ioNodeID ` set (ingressRouteOwners members)"
    using assms(2) owners_are_ids[of members] by (metis list.set_map)
  ultimately show ?thesis
    using assms by (auto simp: IngressShardFilterForNode_def ingressShardFilterForIDs_def Let_def
        ingressOwnersForShard_def MaxReplicatedIngressRouteNodes_def)
qed

lemma allShards_zero [simp]: "allShards zeroShardFilter"
  by (simp add: allShards_def filterNormalize_def zeroShardFilter_def Let_def)

lemma sharded_filter_normal:
  assumes "10 < length (ingressShardNodeIDs members)" "node \<in> set (ingressShardNodeIDs members)"
    "node \<noteq> []" "CanServeIngressRole role"
  shows "set (sfShards (filterNormalize (IngressShardFilterForNode score members node role))) =
         set (sfShards (IngressShardFilterForNode score members node role)) \<and>
         (allShards (IngressShardFilterForNode score members node role) \<longleftrightarrow>
          sfShards (IngressShardFilterForNode score members node role) = [])"
proof -
  let ?f = "IngressShardFilterForNode score members node role"
  have f: "sfShardCount ?f = 16384" "\<not> sfNone ?f" "\<forall>s \<in> set (sfShards ?f). 0 \<le> s \<and> s < 16384"
    using assms by (auto simp: IngressShardFilterForNode_def ingressShardFilterForIDs_def Let_def
        MaxReplicatedIngressRouteNodes_def DefaultPlacementShardCount_def)
  then have s: "set (sfShards (filterNormalize ?f)) = set (sfShards ?f)"
    by (auto simp: filterNormalize_def Let_def mem_dedupShards)
  moreover have "sfNone (filterNormalize ?f) = False" using f by (simp add: filterNormalize_def Let_def)
  ultimately show ?thesis by (auto simp: allShards_def Let_def simp flip: set_empty)
qed

section \<open>Properties\<close>

text \<open>The allocation-free top-two scan picks exactly the first two owners of the full
  rendezvous ordering (highest score first, ties by node id), for every list of distinct node ids
  and every score function; with more than two owners asked for, the sorted path is taken.\<close>

theorem top_two_is_prefix_of_full_order:
  assumes "distinct ids" "n > 0"
  shows "rendezvousIngressOwnerIndexes score shard ids n = take (nat n) (rendezvousOrder (score shard) ids)"
proof -
  consider "ids = []" | x where "ids = [x]" | x y zs where "ids = x # y # zs" by (metis list.exhaust)
  then show ?thesis
  proof cases
    case 1
    then show ?thesis by (simp add: rendezvousIngressOwnerIndexes_def rendezvousOrder_def)
  next
    case (2 x)
    then show ?thesis
      using assms by (auto simp: rendezvousIngressOwnerIndexes_def topTwo_order nthOpt_def rendezvousOrder_def)
  next
    case (3 x y zs)
    then obtain a b t where abt: "rendezvousOrder (score shard) ids = a # b # t"
      by (metis length_Suc_conv length_rendezvousOrder list.size(4) Suc_eq_plus1)
    consider "n = 1" | "n = 2" | "n > 2" using assms(2) by linarith
    then show ?thesis
      by cases (use 3 assms abt in
        \<open>simp_all add: rendezvousIngressOwnerIndexes_def topTwo_order nthOpt_def take_Cons'\<close>)
  qed
qed

theorem top_two_is_prefix_of_full_order_witness:
  "rendezvousIngressOwnerIndexes (\<lambda>sh i. length i) 0 [''b'', ''a'', ''ccc''] 2 =
   take (nat 2) (rendezvousOrder (\<lambda>i. length i) [''b'', ''a'', ''ccc'']) \<and>
   rendezvousIngressOwnerIndexes (\<lambda>sh i. length i) 0 [''b'', ''a'', ''ccc''] 2 = [2, 1]"
  using top_two_is_prefix_of_full_order[of "[''b'', ''a'', ''ccc'']" 2 "\<lambda>sh i. length i" 0]
  by (simp add: rendezvousIngressOwnerIndexes_def rendezvousIngressTopTwo_def Let_def numeral_2_eq_2)

text \<open>Property C31.  The agreement has an edge: in a tier of more than ten, a node that wins no shard
  at all ends up with a filter whose shard list is empty, which every reader takes as all shards.\<close>

theorem shardless_ingress_node_installs_everything:
  assumes "CanServeIngressRole role" "node \<in> set (ingressShardNodeIDs members)" "node \<noteq> []"
    and "10 < length (ingressShardNodeIDs members)"
    and "\<And>shard. node \<notin> ioNodeID ` set (ingressOwnersForShard score members shard)"
  shows "allShards (IngressShardFilterForNode score members node role)"
proof -
  have "s \<notin> set (sfShards (IngressShardFilterForNode score members node role))" for s
    using sharded_filter_iff[OF assms(1-4), of s score] assms(5)[of s] by blast
  then have "sfShards (IngressShardFilterForNode score members node role) = []"
    by (metis list.set_intros(1) neq_Nil_conv)
  then show ?thesis using sharded_filter_normal[OF assms(4,2,3,1)] by simp
qed

definition ringOfEleven :: "Member list" where
  "ringOfEleven = map (\<lambda>c. \<lparr>mNodeID = [c], mAPIURL = [], mDataPlaneHost = [], mInternalURL = [],
     mRole = [], mAlive = True\<rparr>) ''abcdefghijk''"

lemma ringOfEleven_ids:
  "ingressShardNodeIDs ringOfEleven = map (\<lambda>c. [c]) ''abcdefghijk''"
  by (simp add: ingressShardNodeIDs_def ringOfEleven_def ingressEligible_def CanServeIngressRole_def)

lemma ringOfEleven_owners:
  "ioNodeID ` set (ingressOwnersForShard (\<lambda>sh i. 0) ringOfEleven shard) = {''a'', ''b''}"
proof -
  have "10 < length (ingressShardNodeIDs ringOfEleven)" by (simp add: ringOfEleven_ids)
  note names = owners_names[OF this, of "\<lambda>sh i. 0" shard]
  have "rendezvousIngressOwnerIndexes (\<lambda>sh i. 0) shard (map (\<lambda>c. [c]) ''abcdefghijk'') 2 = [0, 1]"
    by (simp add: rendezvousIngressOwnerIndexes_def rendezvousIngressTopTwo_def)
  then show ?thesis unfolding names ringOfEleven_ids by simp
qed

theorem shardless_ingress_node_installs_everything_witness:
  "allShards (IngressShardFilterForNode (\<lambda>sh i. 0) ringOfEleven ''k'' [])"
  by (rule shardless_ingress_node_installs_everything)
     (simp_all add: ringOfEleven_ids ringOfEleven_owners CanServeIngressRole_def)

end
