(* ===== verification/Name_Key.thy ===== *)
theory Name_Key
  imports Placement_Types
begin

text \<open>
  Sandbox name keys (\<^verbatim>\<open>internal/cluster/name_key.go\<close>): a tenant's sandbox name becomes the key
  \<^verbatim>\<open>owner:<base64url(owner)>/<name>\<close> of the replicated name index.  \<^verbatim>\<open>encoding/base64\<close>'s raw URL
  alphabet is modelled, including that its decoder skips line breaks and ignores trailing bits.
\<close>

section \<open>Base64, raw URL alphabet\<close>

definition b64char :: "nat \<Rightarrow> char" where
  "b64char n = (if n < 26 then char_of (65 + n) else if n < 52 then char_of (97 + (n - 26))
                else if n < 62 then char_of (48 + (n - 52)) else if n = 62 then CHR ''-'' else CHR ''_'')"

definition b64val :: "char \<Rightarrow> nat option" where
  "b64val c = (let n = (of_char c :: nat) in
     if 65 \<le> n \<and> n \<le> 90 then Some (n - 65) else if 97 \<le> n \<and> n \<le> 122 then Some (n - 97 + 26)
     else if 48 \<le> n \<and> n \<le> 57 then Some (n - 48 + 52) else if c = CHR ''-'' then Some 62
     else if c = CHR ''_'' then Some 63 else None)"

fun b64encode :: "nat list \<Rightarrow> nat list" where
  "b64encode [] = []"
| "b64encode [a] = [a div 4, (a mod 4) * 16]"
| "b64encode [a, b] = [a div 4, (a mod 4) * 16 + b div 16, (b mod 16) * 4]"
| "b64encode (a # b # c # s) =
     [a div 4, (a mod 4) * 16 + b div 16, (b mod 16) * 4 + c div 64, c mod 64] @ b64encode s"

fun b64decode :: "nat list \<Rightarrow> nat list option" where
  "b64decode [] = Some []"
| "b64decode [x] = None"
| "b64decode [x, y] = Some [x * 4 + y div 16]"
| "b64decode [x, y, z] = Some [x * 4 + y div 16, (y mod 16) * 16 + z div 4]"
| "b64decode (x # y # z # w # s) =
     map_option (\<lambda>r. [x * 4 + y div 16, (y mod 16) * 16 + z div 4, (z mod 4) * 64 + w] @ r) (b64decode s)"

definition EncodeToString :: "string \<Rightarrow> string" where
  "EncodeToString s = map b64char (b64encode (map of_char s))"

definition DecodeString :: "string \<Rightarrow> string option" where
  "DecodeString s =
     (let cs = filter (\<lambda>c. (of_char c :: nat) \<noteq> 10 \<and> (of_char c :: nat) \<noteq> 13) s
      in if list_all (\<lambda>c. b64val c \<noteq> None) cs
         then map_option (map char_of) (b64decode (map (the \<circ> b64val) cs)) else None)"

section \<open>Keys\<close>

definition SandboxNameOwnerPrefix :: string where "SandboxNameOwnerPrefix = ''owner:''"

definition QualifiedSandboxName :: "string \<Rightarrow> string \<Rightarrow> string" where
  "QualifiedSandboxName ownerRef name =
     (let name = trimSpace name; ownerRef = trimSpace ownerRef
      in if name = [] \<or> ownerRef = [] \<or> prefix SandboxNameOwnerPrefix name then name
         else SandboxNameOwnerPrefix @ EncodeToString ownerRef @ CHR ''/'' # name)"

definition DecodeSandboxNameKey :: "string \<Rightarrow> string \<times> string \<times> bool" where
  "DecodeSandboxNameKey key =
     (let key = trimSpace key in
      case cutPrefix key SandboxNameOwnerPrefix of
        None \<Rightarrow> ([], key, False)
      | Some rest \<Rightarrow>
         (case cutAt (CHR ''/'') rest of
            None \<Rightarrow> ([], key, False)
          | Some (encodedOwner, userName) \<Rightarrow>
              if encodedOwner = [] \<or> userName = [] then ([], key, False)
              else (case DecodeString encodedOwner of
                      None \<Rightarrow> ([], key, False)
                    | Some raw \<Rightarrow>
                        if raw = [] then ([], key, False)
                        else if QualifiedSandboxName raw userName \<noteq> key then ([], key, False)
                        else (raw, userName, True))))"

definition SandboxNameFromKey :: "string \<Rightarrow> string" where
  "SandboxNameFromKey key = fst (snd (DecodeSandboxNameKey key))"

definition QualifySpecName ::
  "CreateSandboxRequest option \<Rightarrow> string \<Rightarrow> CreateSandboxRequest option" where
  "QualifySpecName spec ownerRef =
     map_option (\<lambda>s. s\<lparr>srName := QualifiedSandboxName ownerRef (srName s)\<rparr>) spec"

definition DecodeSpecName :: "CreateSandboxRequest \<Rightarrow> CreateSandboxRequest" where
  "DecodeSpecName spec = spec\<lparr>srName := SandboxNameFromKey (srName spec)\<rparr>"

definition specNeedsOwnerForName :: "CreateSandboxRequest option \<Rightarrow> bool" where
  "specNeedsOwnerForName spec =
     (case spec of
        None \<Rightarrow> False
      | Some s \<Rightarrow> let name = trimSpace (srName s)
                 in name \<noteq> [] \<and> \<not> prefix SandboxNameOwnerPrefix name)"

definition resolveOwnerName ::
  "string \<Rightarrow> string \<Rightarrow> (string \<Rightarrow> (string \<times> string) option) \<Rightarrow> string option" where
  "resolveOwnerName ownerRef name lookupKey =
     (let name = trimSpace name; ownerRef = trimSpace ownerRef;
          key = QualifiedSandboxName ownerRef name;
          plain = (case lookupKey name of
                     None \<Rightarrow> None
                   | Some (i, placementOwnerRef) \<Rightarrow>
                       if trimSpace placementOwnerRef \<noteq> ownerRef then None else Some i)
      in if name = [] then None
         else if ownerRef \<noteq> [] \<and> key \<noteq> name
         then (case lookupKey key of Some (i, _) \<Rightarrow> Some i | None \<Rightarrow> plain)
         else plain)"

section \<open>Lemmas\<close>

lemma b64decode_encode: "\<forall>n \<in> set s. n < 256 \<Longrightarrow> b64decode (b64encode s) = Some s"
proof (induction s rule: b64encode.induct)
  case (2 a)
  then show ?case by simp
next
  case (3 a b)
  have "(a mod 4 * 16 + b div 16) div 16 = a mod 4" "(a mod 4 * 16 + b div 16) mod 16 = b div 16"
    using 3 by auto
  then show ?case by simp
next
  case (4 a b c s)
  have "(a mod 4 * 16 + b div 16) div 16 = a mod 4" "(a mod 4 * 16 + b div 16) mod 16 = b div 16"
       "(b mod 16 * 4 + c div 64) div 4 = b mod 16" "(b mod 16 * 4 + c div 64) mod 4 = c div 64"
    using 4 by auto
  then show ?case using 4 by simp
qed simp

lemma b64encode_bound: "\<forall>n \<in> set s. n < 256 \<Longrightarrow> \<forall>n \<in> set (b64encode s). n < 64"
  by (induction s rule: b64encode.induct) auto

lemma b64encode_ne: "s \<noteq> [] \<Longrightarrow> b64encode s \<noteq> []"
  by (cases s rule: b64encode.cases) auto

lemma of_b64char:
  assumes "n < 64"
  shows "(of_char (b64char n) :: nat) = (if n < 26 then 65 + n else if n < 52 then 71 + n
           else if n < 62 then n - 4 else if n = 62 then 45 else 95)"
  using assms by (simp add: b64char_def)

lemma b64_table:
  assumes "n < 64"
  shows "b64val (b64char n) = Some n" "visibleChar (b64char n)" "b64char n \<noteq> CHR ''/''"
proof -
  consider "n < 26" | "26 \<le> n" "n < 52" | "52 \<le> n" "n < 62" | "n = 62" | "n = 63"
    using assms by linarith
  then show "b64val (b64char n) = Some n"
  proof cases
    case 3
    then have "48 \<le> n - 4 \<and> n - 4 \<le> 57" by linarith
    with 3 show ?thesis by (simp add: b64val_def Let_def of_b64char)
  qed (simp_all add: b64val_def Let_def of_b64char, simp_all add: b64char_def)
  show "visibleChar (b64char n)"
    unfolding visibleChar_def of_b64char[OF assms] by (simp split: if_split) linarith
  show "b64char n \<noteq> CHR ''/''"
  proof
    assume "b64char n = CHR ''/''"
    then have "(of_char (b64char n) :: nat) = 47" by simp
    with assms show False by (auto simp: of_b64char split: if_splits)
  qed
qed

lemma EncodeToString_chars:
  "c \<in> set (EncodeToString s) \<Longrightarrow> visibleChar c \<and> c \<noteq> CHR ''/'' \<and> b64val c \<noteq> None"
  using b64encode_bound[of "map of_char s"] b64_table by (fastforce simp: EncodeToString_def)

lemma DecodeString_Encode: "DecodeString (EncodeToString s) = Some s"
proof -
  let ?e = "b64encode (map of_char s)"
  have b: "\<forall>n \<in> set ?e. n < 64" by (rule b64encode_bound) auto
  have "filter (\<lambda>c. (of_char c :: nat) \<noteq> 10 \<and> (of_char c :: nat) \<noteq> 13) (EncodeToString s) = EncodeToString s"
    unfolding filter_id_conv
  proof
    fix c
    assume "c \<in> set (EncodeToString s)"
    then have "visibleChar c" using EncodeToString_chars by blast
    then show "(of_char c :: nat) \<noteq> 10 \<and> (of_char c :: nat) \<noteq> 13" by (simp add: visibleChar_def)
  qed
  moreover have "map (the \<circ> b64val) (EncodeToString s) = ?e"
    using b b64_table by (auto simp: EncodeToString_def intro: map_idI)
  moreover have "list_all (\<lambda>c. b64val c \<noteq> None) (EncodeToString s)"
    using EncodeToString_chars[of _ s] by (auto simp: list_all_iff)
  ultimately show ?thesis
    using b64decode_encode[of "map of_char s"] by (simp add: DecodeString_def Let_def comp_def)
qed

lemma QualifiedSandboxName_key:
  assumes "trimSpace ow \<noteq> []" "trimSpace name \<noteq> []" "\<not> prefix SandboxNameOwnerPrefix (trimSpace name)"
  shows "QualifiedSandboxName ow name =
         SandboxNameOwnerPrefix @ EncodeToString (trimSpace ow) @ CHR ''/'' # trimSpace name"
  using assms by (simp add: QualifiedSandboxName_def Let_def)

lemma QualifiedSandboxName_trimmed: "trimSpace (QualifiedSandboxName ow name) = QualifiedSandboxName ow name"
proof (cases "trimSpace name = [] \<or> trimSpace ow = [] \<or> prefix SandboxNameOwnerPrefix (trimSpace name)")
  case True
  then show ?thesis by (auto simp: QualifiedSandboxName_def Let_def)
next
  case False
  have "trimSpace ((SandboxNameOwnerPrefix @ EncodeToString (trimSpace ow) @ ''/'') @ trimSpace name) =
        (SandboxNameOwnerPrefix @ EncodeToString (trimSpace ow) @ ''/'') @ trimSpace name"
    using False by (intro trimSpace_append) (auto simp: SandboxNameOwnerPrefix_def visibleChar_def)
  with False show ?thesis by (simp add: QualifiedSandboxName_key)
qed

lemma EncodeToString_ne: "s \<noteq> [] \<Longrightarrow> EncodeToString s \<noteq> []"
  by (simp add: EncodeToString_def b64encode_ne)

lemma DecodeSandboxNameKey_Qualified:
  assumes "trimSpace ow \<noteq> []" "trimSpace name \<noteq> []" "\<not> prefix SandboxNameOwnerPrefix (trimSpace name)"
  shows "DecodeSandboxNameKey (QualifiedSandboxName ow name) = (trimSpace ow, trimSpace name, True)"
proof -
  let ?enc = "EncodeToString (trimSpace ow)"
  have cut: "cutAt (CHR ''/'') (?enc @ CHR ''/'' # trimSpace name) = Some (?enc, trimSpace name)"
    using EncodeToString_chars[of "CHR ''/''" "trimSpace ow"] by (intro cutAt_append) auto
  have key: "QualifiedSandboxName ow name = SandboxNameOwnerPrefix @ ?enc @ CHR ''/'' # trimSpace name"
    by (rule QualifiedSandboxName_key[OF assms])
  have again: "QualifiedSandboxName (trimSpace ow) (trimSpace name) = QualifiedSandboxName ow name"
    by (simp add: QualifiedSandboxName_def)
  show ?thesis
    unfolding DecodeSandboxNameKey_def Let_def QualifiedSandboxName_trimmed
    using assms cut EncodeToString_ne[OF assms(1)] again
    by (simp add: key DecodeString_Encode)
qed

section \<open>Properties\<close>

text \<open>Name keys round trip and separate tenants: the key a proposer writes for an
  owner and a user name decodes to exactly that owner and name, so two (owner, name) pairs share a
  key only if they are equal, and no tenant key equals an operator's plain name.\<close>

theorem name_key_roundtrip:
  assumes "trimSpace ow \<noteq> []" "trimSpace name \<noteq> []" "\<not> prefix SandboxNameOwnerPrefix (trimSpace name)"
  shows "DecodeSandboxNameKey (QualifiedSandboxName ow name) = (trimSpace ow, trimSpace name, True) \<and>
         (\<forall>ow' name'. trimSpace ow' \<noteq> [] \<and> trimSpace name' \<noteq> [] \<and>
            \<not> prefix SandboxNameOwnerPrefix (trimSpace name') \<and>
            QualifiedSandboxName ow' name' = QualifiedSandboxName ow name \<longrightarrow>
            trimSpace ow' = trimSpace ow \<and> trimSpace name' = trimSpace name) \<and>
         (\<forall>plain. \<not> prefix SandboxNameOwnerPrefix (trimSpace plain) \<longrightarrow>
            QualifiedSandboxName [] plain \<noteq> QualifiedSandboxName ow name)"
proof (intro conjI allI impI)
  show *: "DecodeSandboxNameKey (QualifiedSandboxName ow name) = (trimSpace ow, trimSpace name, True)"
    by (rule DecodeSandboxNameKey_Qualified[OF assms])
  fix ow' name'
  assume a: "trimSpace ow' \<noteq> [] \<and> trimSpace name' \<noteq> [] \<and>
    \<not> prefix SandboxNameOwnerPrefix (trimSpace name') \<and>
    QualifiedSandboxName ow' name' = QualifiedSandboxName ow name"
  with DecodeSandboxNameKey_Qualified[of ow' name'] *
  show "trimSpace ow' = trimSpace ow" "trimSpace name' = trimSpace name" by auto
next
  fix plain
  assume "\<not> prefix SandboxNameOwnerPrefix (trimSpace plain)"
  then show "QualifiedSandboxName [] plain \<noteq> QualifiedSandboxName ow name"
    unfolding QualifiedSandboxName_key[OF assms] by (auto simp: QualifiedSandboxName_def Let_def)
qed

theorem name_key_roundtrip_witness:
  "DecodeSandboxNameKey (QualifiedSandboxName ''acct-A'' ''my-agent'') = (''acct-A'', ''my-agent'', True)"
  using name_key_roundtrip[of "''acct-A''" "''my-agent''"]
  by (simp add: visibleChar_def SandboxNameOwnerPrefix_def)

end
