(* ===== verification/Versioned_Store.thy ===== *)
theory Versioned_Store
  imports Prelude
begin

text \<open>
  The contract shared by the operator-managed objects of the control plane (team quotas, egress
  profiles, warm pools): a put that changes nothing leaves the table alone, a put that changes an
  object raises its generation by one and keeps its creation stamp, and no put touches another
  key.  From these laws the locale derives that along any run of puts a generation identifies the
  object's content.
\<close>

locale versioned_store =
  fixes keyOf :: "'r \<Rightarrow> 'k"
    and genOf :: "'r \<Rightarrow> int"
    and createdOf :: "'r \<Rightarrow> int"
    and put :: "'r \<times> int \<Rightarrow> ('k \<rightharpoonup> 'r) \<Rightarrow> ('k \<rightharpoonup> 'r)"
  assumes put_other: "k \<noteq> keyOf r \<Longrightarrow> put (r, n) m k = m k"
    and put_fresh: "m (keyOf r) = None \<Longrightarrow> put (r, n) m (keyOf r) = Some q \<Longrightarrow> genOf q = 1 \<and> createdOf q = n"
    and put_over: "m (keyOf r) = Some old \<Longrightarrow>
       \<exists>q. put (r, n) m (keyOf r) = Some q \<and>
           (q = old \<or> genOf q = genOf old + 1 \<and> createdOf q = createdOf old)"
begin

lemma put_step:
  assumes "m k = Some a"
  shows "\<exists>b. put rn m k = Some b \<and> (b = a \<or> genOf b = genOf a + 1 \<and> createdOf b = createdOf a)"
proof (cases rn)
  case (Pair r n)
  then show ?thesis using assms put_other[of k r n m] put_over[of m r a n] by (cases "k = keyOf r") auto
qed

lemma puts_generation:
  assumes "m k = Some a"
  shows "\<exists>b. fold put ops m k = Some b \<and> genOf a \<le> genOf b \<and> createdOf b = createdOf a \<and>
             (genOf b = genOf a \<longrightarrow> b = a)"
  using assms
proof (induction ops arbitrary: m a)
  case Nil
  then show ?case by simp
next
  case (Cons rn ops)
  from put_step[of m k a rn, OF Cons.prems] obtain b where b: "put rn m k = Some b"
      "b = a \<or> genOf b = genOf a + 1 \<and> createdOf b = createdOf a" by blast
  from Cons.IH[of "put rn m" b, OF b(1)] obtain c where c: "fold put ops (put rn m) k = Some c" "genOf b \<le> genOf c"
      "createdOf c = createdOf b" "genOf c = genOf b \<longrightarrow> c = b" by blast
  show ?case
  proof (intro exI[of _ c] conjI)
    show "fold put (rn # ops) m k = Some c" using c(1) by simp
  qed (use b(2) c in auto)
qed

end

end
