(* ===== verification/Team_Quotas.thy ===== *)
theory Team_Quotas
  imports Placement_Types Versioned_Store
begin

text \<open>
  Per-team quotas (\<^verbatim>\<open>internal/cluster/fsm_team_quotas.go\<close>, \<^verbatim>\<open>pkg/models/team_quota.go\<close>): the
  replicated quota records, the usage index derived from the placement rows, and the leader-side
  admission check.  The state is the three team fields of \<^verbatim>\<open>placementFSM\<close>.
\<close>

section \<open>Records and state\<close>

record TeamQuotaRecord =
  tqTeam :: string
  tqMaxSandboxes :: int
  tqMaxCPU :: rat
  tqMaxMemoryMB :: int
  tqGeneration :: int
  tqCreatedUnixNano :: int
  tqUpdatedUnixNano :: int

record TeamQuotaRequest =
  tlMaxSandboxes :: int
  tlMaxCPU :: rat
  tlMaxMemoryMB :: int

record TeamQuotaUsage =
  tuSandboxes :: int
  tuCPU :: rat
  tuMemoryMB :: int

record teamUsageEntry =
  teTeam :: string
  teCPU :: rat
  teMemoryMB :: int

record teamQuotaState =
  teamQuotas :: "string \<rightharpoonup> TeamQuotaRecord"
  teamUsage :: "string \<rightharpoonup> TeamQuotaUsage"
  teamUsageEntries :: "string \<rightharpoonup> teamUsageEntry"

definition newTeamQuotaState :: teamQuotaState where
  "newTeamQuotaState = \<lparr>teamQuotas = Map.empty, teamUsage = Map.empty, teamUsageEntries = Map.empty\<rparr>"

definition quotaLimits :: "TeamQuotaRecord \<Rightarrow> TeamQuotaRequest" where
  "quotaLimits r = \<lparr>tlMaxSandboxes = tqMaxSandboxes r, tlMaxCPU = tqMaxCPU r,
                    tlMaxMemoryMB = tqMaxMemoryMB r\<rparr>"

definition zeroUsage :: TeamQuotaUsage where
  "zeroUsage = \<lparr>tuSandboxes = 0, tuCPU = 0, tuMemoryMB = 0\<rparr>"

section \<open>Usage\<close>

definition quotaTeamOf :: "Placement option \<Rightarrow> string" where
  "quotaTeamOf p = (case p of None \<Rightarrow> [] | Some q \<Rightarrow> TeamOfOwnerRef (pOwnerRef q))"

definition quotaSizeOf :: "Placement \<Rightarrow> teamUsageEntry option \<Rightarrow> rat \<times> int" where
  "quotaSizeOf p prev =
     (if pQuotaCPU p > 0 \<or> pQuotaMemoryMB p > 0 then QuotaSize (pQuotaCPU p) (pQuotaMemoryMB p)
      else (case prev of Some e \<Rightarrow> (teCPU e, teMemoryMB e) | None \<Rightarrow> QuotaSize 0 0))"

definition dropTeamUsage :: "string \<Rightarrow> teamQuotaState \<Rightarrow> teamQuotaState" where
  "dropTeamUsage i f =
     (case teamUsageEntries f i of
        None \<Rightarrow> f
      | Some prev \<Rightarrow>
          f\<lparr>teamUsage :=
              (case teamUsage f (teTeam prev) of
                 None \<Rightarrow> teamUsage f
               | Some u \<Rightarrow>
                   let u = \<lparr>tuSandboxes = tuSandboxes u - 1, tuCPU = tuCPU u - teCPU prev,
                            tuMemoryMB = tuMemoryMB u - teMemoryMB prev\<rparr>
                   in if tuSandboxes u \<le> 0 then (teamUsage f)(teTeam prev := None)
                      else (teamUsage f)(teTeam prev \<mapsto> u)),
            teamUsageEntries := (teamUsageEntries f)(i := None)\<rparr>)"

definition reindexTeamUsageLocked :: "string \<Rightarrow> Placement option \<Rightarrow> teamQuotaState \<Rightarrow> teamQuotaState" where
  "reindexTeamUsageLocked i nu f =
     (let prev = teamUsageEntries f i; f = dropTeamUsage i f; team = quotaTeamOf nu
      in case nu of
           None \<Rightarrow> f
         | Some p \<Rightarrow>
             if team = [] then f
             else let (cpu, mem) = quotaSizeOf p prev;
                      u = (case teamUsage f team of None \<Rightarrow> zeroUsage | Some u \<Rightarrow> u)
                  in f\<lparr>teamUsageEntries := (teamUsageEntries f)(i \<mapsto>
                           \<lparr>teTeam = team, teCPU = cpu, teMemoryMB = mem\<rparr>),
                       teamUsage := (teamUsage f)(team \<mapsto>
                           \<lparr>tuSandboxes = tuSandboxes u + 1, tuCPU = tuCPU u + cpu,
                            tuMemoryMB = tuMemoryMB u + mem\<rparr>)\<rparr>)"

section \<open>Quota records\<close>

definition applyPutTeamQuotaLocked ::
  "TeamQuotaRecord option \<Rightarrow> int \<Rightarrow> teamQuotaState
     \<Rightarrow> (fsmError + TeamQuotaRecord \<times> bool) \<times> teamQuotaState" where
  "applyPutTeamQuotaLocked inp stampUnixNano f =
     (case inp of
        None \<Rightarrow> (Inl ErrMalformed, f)
      | Some q \<Rightarrow>
          if trimSpace (tqTeam q) = [] then (Inl ErrMalformed, f)
          else (case teamQuotas f (tqTeam q) of
                  Some old \<Rightarrow>
                    if quotaLimits old = quotaLimits q then (Inr (old, False), f)
                    else let rec = q\<lparr>tqGeneration := tqGeneration old + 1,
                                     tqCreatedUnixNano := tqCreatedUnixNano old,
                                     tqUpdatedUnixNano := stampUnixNano\<rparr>
                         in (Inr (rec, True), f\<lparr>teamQuotas := (teamQuotas f)(tqTeam q \<mapsto> rec)\<rparr>)
                | None \<Rightarrow>
                    let rec = q\<lparr>tqGeneration := 1, tqCreatedUnixNano := stampUnixNano,
                                tqUpdatedUnixNano := stampUnixNano\<rparr>
                    in (Inr (rec, True), f\<lparr>teamQuotas := (teamQuotas f)(tqTeam q \<mapsto> rec)\<rparr>)))"

definition applyDeleteTeamQuotaLocked ::
  "TeamQuotaRecord option \<Rightarrow> teamQuotaState \<Rightarrow> fsmError option \<times> teamQuotaState" where
  "applyDeleteTeamQuotaLocked inp f =
     (case inp of
        None \<Rightarrow> (Some ErrMalformed, f)
      | Some q \<Rightarrow>
          if trimSpace (tqTeam q) = [] then (Some ErrMalformed, f)
          else (None, f\<lparr>teamQuotas := (teamQuotas f)(tqTeam q := None)\<rparr>))"

definition teamQuotaRead :: "string \<Rightarrow> teamQuotaState \<Rightarrow> TeamQuotaRecord option \<times> TeamQuotaUsage" where
  "teamQuotaRead team f =
     (teamQuotas f team, case teamUsage f team of None \<Rightarrow> zeroUsage | Some u \<Rightarrow> u)"

section \<open>Admission\<close>

record teamQuotaAsk =
  qaSandboxID :: string
  qaTeam :: string
  qaCPU :: rat
  qaMemoryMB :: int

text \<open>One ask of \<^verbatim>\<open>teamQuotaAsks\<close>: a command without a spec asks nothing.\<close>

definition quotaAskOf :: "string \<Rightarrow> string \<Rightarrow> CreateSandboxRequest option \<Rightarrow> teamQuotaAsk list" where
  "quotaAskOf i ownerRef spec =
     (case spec of
        None \<Rightarrow> []
      | Some s \<Rightarrow> let (cpu, mem) = QuotaSize (srCPU s) (srMemoryMB s)
                 in [\<lparr>qaSandboxID = i, qaTeam = TeamOfOwnerRef ownerRef, qaCPU = cpu, qaMemoryMB = mem\<rparr>])"

definition CheckTeamQuota ::
  "TeamQuotaRequest \<Rightarrow> TeamQuotaUsage \<Rightarrow> TeamQuotaUsage \<Rightarrow> fsmError option" where
  "CheckTeamQuota limits usage add =
     (if tlMaxSandboxes limits > 0 \<and> tuSandboxes usage + tuSandboxes add > tlMaxSandboxes limits
      then Some ErrTeamQuotaExceeded
      else if tlMaxCPU limits > 0 \<and> tuCPU usage + tuCPU add > tlMaxCPU limits + 1 / 10 ^ 9
      then Some ErrTeamQuotaExceeded
      else if tlMaxMemoryMB limits > 0 \<and> tuMemoryMB usage + tuMemoryMB add > tlMaxMemoryMB limits
      then Some ErrTeamQuotaExceeded
      else None)"

definition addUsage :: "TeamQuotaUsage \<Rightarrow> TeamQuotaUsage \<Rightarrow> TeamQuotaUsage" where
  "addUsage a b = \<lparr>tuSandboxes = tuSandboxes a + tuSandboxes b, tuCPU = tuCPU a + tuCPU b,
                   tuMemoryMB = tuMemoryMB a + tuMemoryMB b\<rparr>"

text \<open>A spec change carries no owner; the row it changes does.\<close>

definition askTeam :: "teamQuotaState \<Rightarrow> teamQuotaAsk \<Rightarrow> string" where
  "askTeam f a =
     (case teamUsageEntries f (qaSandboxID a) of
        Some prev \<Rightarrow> if qaTeam a = [] then teTeam prev else qaTeam a
      | None \<Rightarrow> qaTeam a)"

definition askDelta :: "teamQuotaState \<Rightarrow> teamQuotaAsk \<Rightarrow> TeamQuotaUsage" where
  "askDelta f a =
     (case teamUsageEntries f (qaSandboxID a) of
        Some prev \<Rightarrow>
          if teTeam prev = askTeam f a
          then \<lparr>tuSandboxes = 0, tuCPU = qaCPU a - teCPU prev, tuMemoryMB = qaMemoryMB a - teMemoryMB prev\<rparr>
          else \<lparr>tuSandboxes = 1, tuCPU = qaCPU a, tuMemoryMB = qaMemoryMB a\<rparr>
      | None \<Rightarrow> \<lparr>tuSandboxes = 1, tuCPU = qaCPU a, tuMemoryMB = qaMemoryMB a\<rparr>)"

fun checkTeamQuotasLoop ::
  "teamQuotaState \<Rightarrow> (string \<Rightarrow> TeamQuotaUsage) \<Rightarrow> teamQuotaAsk list \<Rightarrow> fsmError option" where
  "checkTeamQuotasLoop f added [] = None"
| "checkTeamQuotasLoop f added (a # asks) =
     (let team = askTeam f a; delta = askDelta f a
      in if team = [] then checkTeamQuotasLoop f added asks
         else (case teamQuotas f team of
                 None \<Rightarrow> checkTeamQuotasLoop f added asks
               | Some rec \<Rightarrow>
                   let usage = addUsage (case teamUsage f team of None \<Rightarrow> zeroUsage | Some u \<Rightarrow> u)
                                 (added team);
                       grow = \<lparr>tuSandboxes = max (tuSandboxes delta) 0, tuCPU = max (tuCPU delta) 0,
                               tuMemoryMB = max (tuMemoryMB delta) 0\<rparr>;
                       rest = checkTeamQuotasLoop f (added(team := addUsage (added team) delta)) asks
                   in if grow \<noteq> zeroUsage
                      then (case CheckTeamQuota (quotaLimits rec) usage grow of
                              Some e \<Rightarrow> Some e | None \<Rightarrow> rest)
                      else rest))"

definition checkTeamQuotasLocked :: "teamQuotaState \<Rightarrow> teamQuotaAsk list \<Rightarrow> fsmError option" where
  "checkTeamQuotasLocked f asks = checkTeamQuotasLoop f (\<lambda>_. zeroUsage) asks"

definition admitTeamQuotas :: "teamQuotaState \<Rightarrow> teamQuotaAsk list \<Rightarrow> fsmError option" where
  "admitTeamQuotas f asks = (if asks = [] then None else checkTeamQuotasLocked f asks)"

definition anyTeamQuotaFor :: "teamQuotaState \<Rightarrow> teamQuotaAsk list \<Rightarrow> bool" where
  "anyTeamQuotaFor f asks =
     list_ex (\<lambda>a. let team = (if qaTeam a = []
                              then (case teamUsageEntries f (qaSandboxID a) of
                                      None \<Rightarrow> [] | Some e \<Rightarrow> teTeam e)
                              else qaTeam a)
                  in teamQuotas f team \<noteq> None \<and> team \<noteq> []) asks"

text \<open>The put command as a step of the quota table, and the contract it shares with the other operator tables.\<close>

definition putTeamQuota ::
  "TeamQuotaRecord \<times> int \<Rightarrow> (string \<rightharpoonup> TeamQuotaRecord) \<Rightarrow> (string \<rightharpoonup> TeamQuotaRecord)" where
  "putTeamQuota rn m =
     teamQuotas (snd (applyPutTeamQuotaLocked (Some (fst rn)) (snd rn) (newTeamQuotaState\<lparr>teamQuotas := m\<rparr>)))"

interpretation quotaStore: versioned_store tqTeam tqGeneration tqCreatedUnixNano putTeamQuota
  by unfold_locales
     (auto simp: putTeamQuota_def applyPutTeamQuotaLocked_def Let_def split: if_splits option.splits)

section \<open>The usage index is exact\<close>

definition teamMembers :: "teamQuotaState \<Rightarrow> string \<Rightarrow> string set" where
  "teamMembers f t = {i. \<exists>e. teamUsageEntries f i = Some e \<and> teTeam e = t}"

definition memberMemory :: "teamQuotaState \<Rightarrow> string \<Rightarrow> int" where
  "memberMemory f i = (case teamUsageEntries f i of None \<Rightarrow> 0 | Some e \<Rightarrow> teMemoryMB e)"

definition usageOf :: "teamQuotaState \<Rightarrow> string \<Rightarrow> TeamQuotaUsage" where
  "usageOf f t = (case teamUsage f t of None \<Rightarrow> zeroUsage | Some u \<Rightarrow> u)"

definition usageExact :: "teamQuotaState \<Rightarrow> bool" where
  "usageExact f \<longleftrightarrow>
     finite (dom (teamUsageEntries f)) \<and>
     (\<forall>i e. teamUsageEntries f i = Some e \<longrightarrow> teTeam e \<noteq> [] \<and> teMemoryMB e > 0) \<and>
     (\<forall>t. (teamUsage f t = None \<longleftrightarrow> teamMembers f t = {}) \<and>
          tuSandboxes (usageOf f t) = int (card (teamMembers f t)) \<and>
          tuMemoryMB (usageOf f t) = (\<Sum>i \<in> teamMembers f t. memberMemory f i))"

lemma teamMembers_finite: "usageExact f \<Longrightarrow> finite (teamMembers f t)"
  unfolding usageExact_def teamMembers_def by (rule finite_subset[where B = "dom (teamUsageEntries f)"]) auto

lemma usageExact_new: "usageExact newTeamQuotaState"
  by (simp add: usageExact_def newTeamQuotaState_def teamMembers_def usageOf_def zeroUsage_def)

lemma entries_drop [simp]: "teamUsageEntries (dropTeamUsage i f) = (teamUsageEntries f)(i := None)"
  by (auto simp: dropTeamUsage_def split: option.splits)

lemma quotas_drop [simp]: "teamQuotas (dropTeamUsage i f) = teamQuotas f"
  by (simp add: dropTeamUsage_def split: option.splits)

lemma members_drop [simp]: "teamMembers (dropTeamUsage i f) t = teamMembers f t - {i}"
  by (auto simp: teamMembers_def)

lemma memory_drop: "j \<noteq> i \<Longrightarrow> memberMemory (dropTeamUsage i f) j = memberMemory f j"
  by (simp add: memberMemory_def)

lemma usageExact_drop:
  assumes "usageExact f"
  shows "usageExact (dropTeamUsage i f)"
proof (cases "teamUsageEntries f i")
  case None
  then show ?thesis using assms by (simp add: dropTeamUsage_def)
next
  case (Some prev)
  let ?g = "dropTeamUsage i f" and ?t0 = "teTeam prev"
  have fin: "finite (teamMembers f t)" for t using assms by (rule teamMembers_finite)
  have i0: "i \<in> teamMembers f ?t0" using Some by (simp add: teamMembers_def)
  then obtain u where u: "teamUsage f ?t0 = Some u" using assms by (auto simp: usageExact_def)
  have mem_i: "memberMemory f i = teMemoryMB prev" by (simp add: memberMemory_def Some)
  have sums: "(\<Sum>j \<in> teamMembers f t - {i}. memberMemory ?g j) = (\<Sum>j \<in> teamMembers f t - {i}. memberMemory f j)" for t
    by (rule sum.cong) (simp_all add: memory_drop)
  have gu: "teamUsage ?g ?t0 = (if tuSandboxes u - 1 \<le> 0 then None
      else Some \<lparr>tuSandboxes = tuSandboxes u - 1, tuCPU = tuCPU u - teCPU prev,
                 tuMemoryMB = tuMemoryMB u - teMemoryMB prev\<rparr>)"
    using u by (simp add: dropTeamUsage_def Some Let_def)
  have main: "(teamUsage ?g t = None \<longleftrightarrow> teamMembers ?g t = {}) \<and>
      tuSandboxes (usageOf ?g t) = int (card (teamMembers ?g t)) \<and>
      tuMemoryMB (usageOf ?g t) = (\<Sum>j \<in> teamMembers ?g t. memberMemory ?g j)" for t
  proof -
    have old: "tuSandboxes (usageOf f t) = int (card (teamMembers f t))"
      "tuMemoryMB (usageOf f t) = (\<Sum>j \<in> teamMembers f t. memberMemory f j)"
      "teamUsage f t = None \<longleftrightarrow> teamMembers f t = {}"
      using assms by (simp_all add: usageExact_def)
    show "(teamUsage ?g t = None \<longleftrightarrow> teamMembers ?g t = {}) \<and>
       tuSandboxes (usageOf ?g t) = int (card (teamMembers ?g t)) \<and>
       tuMemoryMB (usageOf ?g t) = (\<Sum>j \<in> teamMembers ?g t. memberMemory ?g j)"
    proof (cases "t = ?t0")
      case True
      define M where "M = teamMembers f t - {i}"
      have M: "teamMembers ?g t = M" "finite M"
        "(\<Sum>j \<in> M. memberMemory ?g j) = (\<Sum>j \<in> M. memberMemory f j)"
        using sums[of t] fin[of t] by (simp_all add: M_def)
      have "card (teamMembers f t) = Suc (card M)"
        unfolding M_def using card.remove[OF fin[of t]] i0 True by simp
      then have c: "int (card M) = tuSandboxes u - 1" using old(1) u True by (simp add: usageOf_def)
      have m: "(\<Sum>j \<in> M. memberMemory f j) = tuMemoryMB u - teMemoryMB prev"
        unfolding M_def using old(2) i0 fin u True mem_i by (simp add: usageOf_def sum_diff1)
      have gu': "teamUsage ?g t = (if M = {} then None
          else Some \<lparr>tuSandboxes = tuSandboxes u - 1, tuCPU = tuCPU u - teCPU prev,
                     tuMemoryMB = tuMemoryMB u - teMemoryMB prev\<rparr>)"
        using gu c M(2) True by (metis card_0_eq of_nat_le_0_iff)
      show "(teamUsage ?g t = None \<longleftrightarrow> teamMembers ?g t = {}) \<and>
         tuSandboxes (usageOf ?g t) = int (card (teamMembers ?g t)) \<and>
         tuMemoryMB (usageOf ?g t) = (\<Sum>j \<in> teamMembers ?g t. memberMemory ?g j)"
        unfolding M usageOf_def gu' using c m by (cases "M = {}") (simp_all add: zeroUsage_def)
    next
      case False
      then have ni: "teamMembers f t - {i} = teamMembers f t" using Some by (auto simp: teamMembers_def)
      have same: "teamUsage ?g t = teamUsage f t"
        using False u by (auto simp: dropTeamUsage_def Some Let_def)
      show "(teamUsage ?g t = None \<longleftrightarrow> teamMembers ?g t = {}) \<and>
         tuSandboxes (usageOf ?g t) = int (card (teamMembers ?g t)) \<and>
         tuMemoryMB (usageOf ?g t) = (\<Sum>j \<in> teamMembers ?g t. memberMemory ?g j)"
        using old same sums[of t] by (simp add: usageOf_def ni)
    qed
  qed
  show ?thesis using main assms by (simp add: usageExact_def)
qed

text \<open>Entering a share for an id that has none.\<close>

definition enterTeamUsage :: "string \<Rightarrow> string \<Rightarrow> rat \<Rightarrow> int \<Rightarrow> teamQuotaState \<Rightarrow> teamQuotaState" where
  "enterTeamUsage i team cpu mem f =
     f\<lparr>teamUsageEntries := (teamUsageEntries f)(i \<mapsto> \<lparr>teTeam = team, teCPU = cpu, teMemoryMB = mem\<rparr>),
       teamUsage := (teamUsage f)(team \<mapsto> \<lparr>tuSandboxes = tuSandboxes (usageOf f team) + 1,
          tuCPU = tuCPU (usageOf f team) + cpu, tuMemoryMB = tuMemoryMB (usageOf f team) + mem\<rparr>)\<rparr>"

lemma reindex_decomp:
  "reindexTeamUsageLocked i nu f =
     (case nu of None \<Rightarrow> dropTeamUsage i f
      | Some p \<Rightarrow> if quotaTeamOf nu = [] then dropTeamUsage i f
                  else enterTeamUsage i (quotaTeamOf nu) (fst (quotaSizeOf p (teamUsageEntries f i)))
                         (snd (quotaSizeOf p (teamUsageEntries f i))) (dropTeamUsage i f))"
  by (auto simp: reindexTeamUsageLocked_def enterTeamUsage_def usageOf_def Let_def
           split: option.splits prod.splits)

lemma usageExact_enter:
  assumes "usageExact f" "teamUsageEntries f i = None" "team \<noteq> []" "mem > 0"
  shows "usageExact (enterTeamUsage i team cpu mem f)"
proof -
  let ?g = "enterTeamUsage i team cpu mem f"
  have fin: "finite (teamMembers f t)" for t using assms(1) by (rule teamMembers_finite)
  have ni: "i \<notin> teamMembers f t" for t using assms(2) by (simp add: teamMembers_def)
  have mem: "teamMembers ?g t = (if t = team then insert i (teamMembers f t) else teamMembers f t)" for t
    using assms(2) by (auto simp: teamMembers_def enterTeamUsage_def)
  have mm: "memberMemory ?g j = (if j = i then mem else memberMemory f j)" for j
    by (simp add: memberMemory_def enterTeamUsage_def)
  have sums: "(\<Sum>j \<in> teamMembers f t. memberMemory ?g j) = (\<Sum>j \<in> teamMembers f t. memberMemory f j)" for t
    using ni by (intro sum.cong) (auto simp: mm)
  have us: "usageOf ?g t = (if t = team then \<lparr>tuSandboxes = tuSandboxes (usageOf f team) + 1,
      tuCPU = tuCPU (usageOf f team) + cpu, tuMemoryMB = tuMemoryMB (usageOf f team) + mem\<rparr>
      else usageOf f t)" for t
    by (simp add: usageOf_def enterTeamUsage_def)
  show ?thesis
    unfolding usageExact_def mem us
    using assms(1,3,4) fin ni sums mm
    by (auto simp: usageExact_def enterTeamUsage_def[of i team cpu mem f, THEN arg_cong[of _ _ teamUsage]]
          enterTeamUsage_def[of i team cpu mem f, THEN arg_cong[of _ _ teamUsageEntries]])
qed

lemma quotaSizeOf_pos: "usageExact f \<Longrightarrow> snd (quotaSizeOf p (teamUsageEntries f i)) > 0"
  by (auto simp: quotaSizeOf_def QuotaSize_def DefaultMemoryMB_def usageExact_def split: option.split)

lemma usageExact_reindex: "usageExact f \<Longrightarrow> usageExact (reindexTeamUsageLocked i nu f)"
  by (simp add: reindex_decomp usageExact_drop usageExact_enter quotaSizeOf_pos split: option.split)

text \<open>The same for CPU, with rational numbers for the machine's floating point.\<close>

definition memberCPU :: "teamQuotaState \<Rightarrow> string \<Rightarrow> rat" where
  "memberCPU f i = (case teamUsageEntries f i of None \<Rightarrow> 0 | Some e \<Rightarrow> teCPU e)"

definition cpuExact :: "teamQuotaState \<Rightarrow> bool" where
  "cpuExact f \<longleftrightarrow> (\<forall>i e. teamUsageEntries f i = Some e \<longrightarrow> teCPU e > 0) \<and>
     (\<forall>t. tuCPU (usageOf f t) = (\<Sum>i \<in> teamMembers f t. memberCPU f i))"

lemma cpuExact_new: "cpuExact newTeamQuotaState"
  by (simp add: cpuExact_def newTeamQuotaState_def teamMembers_def usageOf_def zeroUsage_def)

lemma cpuExact_drop:
  assumes "usageExact f" "cpuExact f"
  shows "cpuExact (dropTeamUsage i f)"
proof (cases "teamUsageEntries f i")
  case None
  then show ?thesis using assms by (simp add: dropTeamUsage_def)
next
  case (Some prev)
  let ?g = "dropTeamUsage i f" and ?t0 = "teTeam prev"
  have i0: "i \<in> teamMembers f ?t0" using Some by (simp add: teamMembers_def)
  then obtain u where u: "teamUsage f ?t0 = Some u" using assms(1) by (auto simp: usageExact_def)
  have left: "(\<Sum>j \<in> teamMembers ?g t. memberCPU ?g j) = (\<Sum>j \<in> teamMembers f t - {i}. memberCPU f j)" for t
    unfolding members_drop by (rule sum.cong) (simp_all add: memberCPU_def)
  have old: "tuCPU (usageOf f t) = (\<Sum>j \<in> teamMembers f t. memberCPU f j)" for t using assms(2) by (simp add: cpuExact_def)
  have "tuCPU (usageOf ?g t) = (\<Sum>j \<in> teamMembers ?g t. memberCPU ?g j)" for t
  proof (cases "t = ?t0")
    case True
    show ?thesis
    proof (cases "teamUsage ?g t")
      case None
      then have "teamMembers ?g t = {}" using usageExact_drop[OF assms(1), of i] by (simp add: usageExact_def)
      with None show ?thesis by (simp only: usageOf_def zeroUsage_def sum.empty option.case TeamQuotaUsage.simps)
    next
      case (Some v)
      then have "tuCPU v = tuCPU u - teCPU prev"
        using u True \<open>teamUsageEntries f i = Some prev\<close> by (auto simp: dropTeamUsage_def Let_def split: if_splits)
      moreover have "(\<Sum>j \<in> teamMembers f t - {i}. memberCPU f j) = tuCPU u - teCPU prev"
        using old[of t] u True i0 teamMembers_finite[OF assms(1), of t] \<open>teamUsageEntries f i = Some prev\<close>
        by (simp add: sum_diff1 usageOf_def memberCPU_def)
      ultimately show ?thesis using Some unfolding left usageOf_def by simp
    qed
  next
    case False
    then have "teamMembers f t - {i} = teamMembers f t" using Some by (auto simp: teamMembers_def)
    moreover have "usageOf ?g t = usageOf f t"
      using False u Some by (simp add: dropTeamUsage_def usageOf_def Let_def)
    ultimately show ?thesis unfolding left by (simp add: old)
  qed
  then show ?thesis using assms(2) by (simp add: cpuExact_def)
qed

lemma cpuExact_enter:
  assumes "usageExact f" "cpuExact f" "teamUsageEntries f i = None" "cpu > 0"
  shows "cpuExact (enterTeamUsage i team cpu mem f)"
proof -
  let ?g = "enterTeamUsage i team cpu mem f"
  have ni: "i \<notin> teamMembers f t" for t using assms(3) by (simp add: teamMembers_def)
  have mem: "teamMembers ?g t = (if t = team then insert i (teamMembers f t) else teamMembers f t)" for t
    using assms(3) by (auto simp: teamMembers_def enterTeamUsage_def)
  have mm: "memberCPU ?g j = (if j = i then cpu else memberCPU f j)" for j by (simp add: memberCPU_def enterTeamUsage_def)
  have sums: "(\<Sum>j \<in> teamMembers f t. memberCPU ?g j) = (\<Sum>j \<in> teamMembers f t. memberCPU f j)" for t
    using ni by (intro sum.cong) (auto simp: mm)
  have us: "tuCPU (usageOf ?g t) = tuCPU (usageOf f t) + (if t = team then cpu else 0)" for t
    by (simp add: usageOf_def enterTeamUsage_def)
  have "tuCPU (usageOf ?g t) = (\<Sum>j \<in> teamMembers ?g t. memberCPU ?g j)" for t
    using assms(2) sums[of t] sum.insert[OF teamMembers_finite[OF assms(1)] ni, of "memberCPU ?g" t] mm[of i]
    by (simp only: us mem cpuExact_def) auto
  moreover have "\<forall>j e. teamUsageEntries ?g j = Some e \<longrightarrow> teCPU e > 0"
    using assms(2,4) by (simp add: cpuExact_def enterTeamUsage_def)
  ultimately show ?thesis by (simp add: cpuExact_def)
qed

lemma quotaSizeOf_cpu: "cpuExact f \<Longrightarrow> fst (quotaSizeOf p (teamUsageEntries f i)) > 0"
  by (auto simp: quotaSizeOf_def QuotaSize_def DefaultCPU_def cpuExact_def split: option.split)

lemma cpuExact_reindex: "usageExact f \<Longrightarrow> cpuExact f \<Longrightarrow> cpuExact (reindexTeamUsageLocked i nu f)"
  by (simp add: reindex_decomp cpuExact_drop cpuExact_enter usageExact_drop quotaSizeOf_cpu split: option.split)

section \<open>Admission is sound\<close>

text \<open>The row an admitted ask leads to: it counts for the ask's team at the ask's size.\<close>

definition rowOfAsk :: "teamQuotaState \<Rightarrow> teamQuotaAsk \<Rightarrow> Placement \<Rightarrow> bool" where
  "rowOfAsk f a p \<longleftrightarrow>
     quotaTeamOf (Some p) = askTeam f a \<and> pQuotaMemoryMB p = qaMemoryMB a \<and> qaMemoryMB a > 0 \<and>
     pQuotaCPU p = qaCPU a \<and> qaCPU a > 0"

definition enterRows :: "(teamQuotaAsk \<Rightarrow> Placement) \<Rightarrow> teamQuotaAsk list \<Rightarrow> teamQuotaState \<Rightarrow> teamQuotaState" where
  "enterRows row asks f = foldl (\<lambda>f a. reindexTeamUsageLocked (qaSandboxID a) (Some (row a)) f) f asks"

definition deltaFor :: "teamQuotaState \<Rightarrow> string \<Rightarrow> teamQuotaAsk \<Rightarrow> TeamQuotaUsage" where
  "deltaFor f t a = (if askTeam f a = t then askDelta f a else zeroUsage)"

lemma reindex_other:
  assumes "j \<noteq> i"
  shows "teamUsageEntries (reindexTeamUsageLocked i nu f) j = teamUsageEntries f j"
    and "teamQuotas (reindexTeamUsageLocked i nu f) = teamQuotas f"
  using assms by (simp_all add: reindex_decomp enterTeamUsage_def split: option.split)

lemma reindex_usage_bound:
  assumes ok: "usageExact f" and row: "rowOfAsk f a p" and t: "t \<noteq> []"
  shows "tuSandboxes (usageOf (reindexTeamUsageLocked (qaSandboxID a) (Some p) f) t) \<le>
           tuSandboxes (usageOf f t) + tuSandboxes (deltaFor f t a) \<and>
         tuMemoryMB (usageOf (reindexTeamUsageLocked (qaSandboxID a) (Some p) f) t) \<le>
           tuMemoryMB (usageOf f t) + tuMemoryMB (deltaFor f t a)"
proof -
  let ?i = "qaSandboxID a" and ?g = "reindexTeamUsageLocked (qaSandboxID a) (Some p) f"
  have okg: "usageExact ?g" using ok by (rule usageExact_reindex)
  have fin: "finite (teamMembers f t)" using ok by (rule teamMembers_finite)
  have size: "snd (quotaSizeOf p prev) = qaMemoryMB a" for prev
    using row by (simp add: rowOfAsk_def quotaSizeOf_def QuotaSize_def)
  have team: "quotaTeamOf (Some p) = askTeam f a" using row by (simp add: rowOfAsk_def)
  have mem: "teamMembers ?g t = (if askTeam f a = t then insert ?i (teamMembers f t - {?i})
                                 else teamMembers f t - {?i})"
    using t team by (auto simp: reindex_decomp enterTeamUsage_def teamMembers_def)
  have mm: "memberMemory ?g j = memberMemory f j" if "j \<noteq> ?i" for j
    using that by (simp add: memberMemory_def reindex_other)
  have mi: "memberMemory ?g ?i = qaMemoryMB a" if "askTeam f a = t"
    using that t team size by (simp add: memberMemory_def reindex_decomp enterTeamUsage_def)
  have rest: "(\<Sum>j \<in> teamMembers f t - {?i}. memberMemory ?g j) = (\<Sum>j \<in> teamMembers f t - {?i}. memberMemory f j)"
    by (rule sum.cong) (simp_all add: mm)
  have own: "?i \<in> teamMembers f t \<longleftrightarrow> (\<exists>e. teamUsageEntries f ?i = Some e \<and> teTeam e = t)"
    by (simp add: teamMembers_def)
  have pos: "?i \<in> teamMembers f t \<Longrightarrow> memberMemory f ?i \<ge> 0"
    using ok by (force simp: teamMembers_def memberMemory_def usageExact_def)
  have cards: "tuSandboxes (usageOf ?g t) = int (card (teamMembers ?g t))"
      "tuSandboxes (usageOf f t) = int (card (teamMembers f t))"
      "tuMemoryMB (usageOf ?g t) = (\<Sum>j \<in> teamMembers ?g t. memberMemory ?g j)"
      "tuMemoryMB (usageOf f t) = (\<Sum>j \<in> teamMembers f t. memberMemory f j)"
    using ok okg by (simp_all add: usageExact_def)
  show ?thesis
  proof (cases "askTeam f a = t")
    case True
    have g: "card (teamMembers ?g t) = Suc (card (teamMembers f t - {?i}))"
      "(\<Sum>j \<in> teamMembers ?g t. memberMemory ?g j) = qaMemoryMB a + (\<Sum>j \<in> teamMembers f t - {?i}. memberMemory f j)"
      unfolding mem if_P[OF True]
      using card_insert_disjoint[of "teamMembers f t - {?i}" ?i]
        sum.insert[of "teamMembers f t - {?i}" ?i "memberMemory ?g"] fin mi[OF True] rest
      by simp_all
    show ?thesis
    proof (cases "?i \<in> teamMembers f t")
      case inT: True
      then obtain e where e: "teamUsageEntries f ?i = Some e" "teTeam e = t" using own by blast
      have "card (teamMembers f t) = Suc (card (teamMembers f t - {?i}))"
        "(\<Sum>j \<in> teamMembers f t. memberMemory f j) = teMemoryMB e + (\<Sum>j \<in> teamMembers f t - {?i}. memberMemory f j)"
        using card.remove[OF fin inT] sum.remove[OF fin inT, of "memberMemory f"] e
        by (simp_all add: memberMemory_def)
      then show ?thesis using g True e by (simp add: cards deltaFor_def askDelta_def)
    next
      case False
      then have "teamMembers f t - {?i} = teamMembers f t" by auto
      then have g': "int (card (teamMembers ?g t)) = int (card (teamMembers f t)) + 1"
        "(\<Sum>j \<in> teamMembers ?g t. memberMemory ?g j) = qaMemoryMB a + (\<Sum>j \<in> teamMembers f t. memberMemory f j)"
        using g by simp_all
      have "tuSandboxes (askDelta f a) = 1 \<and> tuMemoryMB (askDelta f a) = qaMemoryMB a"
        using False own True by (auto simp: askDelta_def split: option.splits)
      then show ?thesis using g' True by (simp add: cards deltaFor_def)
    qed
  next
    case False
    have "card (teamMembers f t - {?i}) \<le> card (teamMembers f t)" using fin by (simp add: card_Diff1_le)
    moreover have "(\<Sum>j \<in> teamMembers f t - {?i}. memberMemory f j) \<le> (\<Sum>j \<in> teamMembers f t. memberMemory f j)"
      using pos fin by (auto simp: sum_diff1)
    ultimately show ?thesis
      using False rest by (simp add: cards mem deltaFor_def zeroUsage_def)
  qed
qed

lemma reindex_cpu_bound:
  assumes ok: "usageExact f" "cpuExact f" and row: "rowOfAsk f a p" and t: "t \<noteq> []"
  shows "tuCPU (usageOf (reindexTeamUsageLocked (qaSandboxID a) (Some p) f) t) \<le>
           tuCPU (usageOf f t) + tuCPU (deltaFor f t a)"
proof -
  let ?i = "qaSandboxID a" and ?g = "reindexTeamUsageLocked (qaSandboxID a) (Some p) f" and ?M = "teamMembers f t"
  have fin: "finite ?M" using ok(1) by (rule teamMembers_finite)
  have team: "quotaTeamOf (Some p) = askTeam f a" "fst (quotaSizeOf p prev) = qaCPU a" for prev
    using row by (simp_all add: rowOfAsk_def quotaSizeOf_def QuotaSize_def)
  have mem: "teamMembers ?g t = (if askTeam f a = t then insert ?i (?M - {?i}) else ?M - {?i})"
    using t team(1) by (auto simp: reindex_decomp enterTeamUsage_def teamMembers_def)
  have mi: "memberCPU ?g ?i = qaCPU a" if "askTeam f a = t"
    using that t team by (simp add: memberCPU_def reindex_decomp enterTeamUsage_def)
  have rest: "(\<Sum>j \<in> ?M - {?i}. memberCPU ?g j) = (\<Sum>j \<in> ?M - {?i}. memberCPU f j)"
    by (rule sum.cong) (simp_all add: memberCPU_def reindex_other)
  have new: "tuCPU (usageOf ?g t) = (if askTeam f a = t then qaCPU a else 0) + (\<Sum>j \<in> ?M - {?i}. memberCPU f j)"
    using cpuExact_reindex[OF ok, of ?i "Some p"] mi rest sum.insert[of "?M - {?i}" ?i "memberCPU ?g"] fin
    by (simp only: cpuExact_def mem) (simp del: insert_Diff_single)
  have old: "tuCPU (usageOf f t) = (if ?i \<in> ?M then memberCPU f ?i else 0) + (\<Sum>j \<in> ?M - {?i}. memberCPU f j)"
    using ok(2) fin by (simp add: cpuExact_def sum.remove)
  have own: "teamUsageEntries f ?i = Some e \<Longrightarrow> ?i \<in> ?M \<longleftrightarrow> teTeam e = t"
    "teamUsageEntries f ?i = None \<Longrightarrow> ?i \<notin> ?M" for e by (simp_all add: teamMembers_def)
  have "(if askTeam f a = t then qaCPU a else 0) \<le> (if ?i \<in> ?M then memberCPU f ?i else 0) + tuCPU (deltaFor f t a)"
  proof (cases "teamUsageEntries f ?i")
    case None
    then show ?thesis using own(2) by (simp add: deltaFor_def askDelta_def zeroUsage_def)
  next
    case (Some e)
    then have "memberCPU f ?i = teCPU e" "teCPU e > 0" using ok(2) by (auto simp: memberCPU_def cpuExact_def)
    then show ?thesis using own(1)[OF Some] Some by (auto simp: deltaFor_def askDelta_def zeroUsage_def)
  qed
  then show ?thesis unfolding new old by simp
qed

definition withinQuota :: "TeamQuotaRecord \<Rightarrow> TeamQuotaUsage \<Rightarrow> bool" where
  "withinQuota rec u \<longleftrightarrow>
     (tqMaxSandboxes rec > 0 \<longrightarrow> tuSandboxes u \<le> tqMaxSandboxes rec) \<and>
     (tqMaxCPU rec > 0 \<longrightarrow> tuCPU u \<le> tqMaxCPU rec + 1 / 10 ^ 9) \<and>
     (tqMaxMemoryMB rec > 0 \<longrightarrow> tuMemoryMB u \<le> tqMaxMemoryMB rec)"

lemma withinQuota_mono:
  "withinQuota rec v \<Longrightarrow> tuSandboxes u \<le> tuSandboxes v \<Longrightarrow> tuCPU u \<le> tuCPU v \<Longrightarrow> tuMemoryMB u \<le> tuMemoryMB v \<Longrightarrow>
   withinQuota rec u"
  unfolding withinQuota_def by (blast intro: order.trans)

lemma check_step:
  assumes "checkTeamQuotasLoop f added (a # asks) = None" "teamQuotas f t = Some rec" "t \<noteq> []"
    and "withinQuota rec (addUsage (usageOf f t) (added t))"
  obtains added' where "checkTeamQuotasLoop f added' asks = None"
    and "added' t = addUsage (added t) (deltaFor f t a)"
    and "withinQuota rec (addUsage (usageOf f t) (added' t))"
proof (cases "askTeam f a = t")
  case False
  have "\<exists>added'. checkTeamQuotasLoop f added' asks = None \<and> added' t = added t"
    using assms(1) False by (auto simp: Let_def split: if_splits option.splits)
  then show ?thesis
    using False assms(4) that by (auto simp: deltaFor_def addUsage_def zeroUsage_def)
next
  case True
  let ?d = "askDelta f a" and ?added = "added(t := addUsage (added t) (askDelta f a))"
  have run: "checkTeamQuotasLoop f ?added asks = None"
    using assms(1,2,3) True by (auto simp: Let_def usageOf_def split: if_splits option.splits)
  let ?u = "addUsage (usageOf f t) (added t)"
  let ?grow = "\<lparr>tuSandboxes = max (tuSandboxes ?d) 0, tuCPU = max (tuCPU ?d) 0, tuMemoryMB = max (tuMemoryMB ?d) 0\<rparr>"
  have "?grow = zeroUsage \<or> CheckTeamQuota (quotaLimits rec) ?u ?grow = None"
    using assms(1,2,3) True by (auto simp: Let_def usageOf_def split: if_splits option.splits)
  then have grown: "withinQuota rec (addUsage ?u ?grow)"
  proof
    assume "?grow = zeroUsage"
    then show ?thesis using assms(4) by (simp add: addUsage_def zeroUsage_def)
  next
    assume "CheckTeamQuota (quotaLimits rec) ?u ?grow = None"
    then show ?thesis
      by (simp add: CheckTeamQuota_def quotaLimits_def withinQuota_def addUsage_def linorder_not_less imp_conv_disj split: if_splits)
  qed
  have "withinQuota rec (addUsage (usageOf f t) (addUsage (added t) ?d))"
    by (rule withinQuota_mono[OF grown]) (simp_all add: addUsage_def)
  with run True that[of ?added] show ?thesis by (simp add: deltaFor_def)
qed

lemma askTeam_cong:
  assumes same: "teamUsageEntries g (qaSandboxID a) = teamUsageEntries f (qaSandboxID a)"
  shows "askTeam g a = askTeam f a \<and> deltaFor g t a = deltaFor f t a"
proof -
  have team: "askTeam g a = askTeam f a" by (simp add: askTeam_def same)
  show ?thesis unfolding deltaFor_def askDelta_def team same by simp
qed

lemma admitted_rows_within:
  assumes "checkTeamQuotasLoop f added asks = None" "teamQuotas f t = Some rec" "t \<noteq> []"
    and "withinQuota rec (addUsage (usageOf f t) (added t))"
    and "usageExact g" "cpuExact g" "distinct (map qaSandboxID asks)"
    and "\<forall>a \<in> set asks. teamUsageEntries g (qaSandboxID a) = teamUsageEntries f (qaSandboxID a) \<and>
                        rowOfAsk f a (row a)"
    and "tuSandboxes (usageOf g t) \<le> tuSandboxes (addUsage (usageOf f t) (added t))"
    and "tuCPU (usageOf g t) \<le> tuCPU (addUsage (usageOf f t) (added t))"
    and "tuMemoryMB (usageOf g t) \<le> tuMemoryMB (addUsage (usageOf f t) (added t))"
  shows "usageExact (enterRows row asks g) \<and> withinQuota rec (usageOf (enterRows row asks g) t)"
  using assms
proof (induction asks arbitrary: added g)
  case Nil
  then show ?case by (auto simp: enterRows_def intro: withinQuota_mono)
next
  case (Cons a asks)
  let ?g = "reindexTeamUsageLocked (qaSandboxID a) (Some (row a)) g"
  obtain added' where ad: "checkTeamQuotasLoop f added' asks = None"
      "added' t = addUsage (added t) (deltaFor f t a)"
      "withinQuota rec (addUsage (usageOf f t) (added' t))"
    using check_step[OF Cons.prems(1-4)] .
  have same: "teamUsageEntries g (qaSandboxID a) = teamUsageEntries f (qaSandboxID a)"
    using Cons.prems(8) by simp
  then have row: "rowOfAsk g a (row a)" and d: "deltaFor g t a = deltaFor f t a"
    using Cons.prems(8) askTeam_cong[OF same] by (auto simp: rowOfAsk_def)
  from reindex_usage_bound[OF Cons.prems(5) row Cons.prems(3)] reindex_cpu_bound[OF Cons.prems(5,6) row Cons.prems(3)] Cons.prems(9-11)
  have bound: "tuSandboxes (usageOf ?g t) \<le> tuSandboxes (addUsage (usageOf f t) (added' t))"
    "tuCPU (usageOf ?g t) \<le> tuCPU (addUsage (usageOf f t) (added' t))"
    "tuMemoryMB (usageOf ?g t) \<le> tuMemoryMB (addUsage (usageOf f t) (added' t))"
    by (simp_all add: ad(2) d addUsage_def)
  have rest: "\<forall>b \<in> set asks. teamUsageEntries ?g (qaSandboxID b) = teamUsageEntries f (qaSandboxID b) \<and>
      rowOfAsk f b (row b)"
  proof
    fix b
    assume b: "b \<in> set asks"
    then have "qaSandboxID b \<noteq> qaSandboxID a" using Cons.prems(7) by (metis distinct.simps(2) image_eqI list.simps(9) list.set_map)
    then show "teamUsageEntries ?g (qaSandboxID b) = teamUsageEntries f (qaSandboxID b) \<and> rowOfAsk f b (row b)"
      using Cons.prems(8) b by (simp add: reindex_other)
  qed
  from Cons.IH[OF ad(1) Cons.prems(2,3) ad(3) usageExact_reindex[OF Cons.prems(5)] cpuExact_reindex[OF Cons.prems(5,6)] _ rest bound]
  show ?case using Cons.prems(7) by (simp add: enterRows_def)
qed

section \<open>Properties\<close>

text \<open>Team usage is exact: starting from the empty index, after any sequence of row
  writes and removals every team's usage counts exactly its sandboxes and adds up exactly their
  memory, and a team without sandboxes has no usage row.\<close>

theorem team_usage_exact:
  "usageExact (foldl (\<lambda>f (i, nu). reindexTeamUsageLocked i nu f) newTeamQuotaState writes)"
proof -
  have "usageExact f \<Longrightarrow> usageExact (foldl (\<lambda>f (i, nu). reindexTeamUsageLocked i nu f) f writes)" for f
    by (induction writes arbitrary: f) (auto simp: usageExact_reindex)
  then show ?thesis by (simp add: usageExact_new)
qed

text \<open>Property C32.  Quota admission is sound: when the leader's check accepts a batch of asks for
  distinct sandboxes and every ask's row is then entered, a team that was within its sandbox, CPU and
  memory limits before is within them after, whatever moves between teams or resizes the batch contains.
  The CPU limit is the one the check uses, with its slack of a billionth, over exact sums of CPU.\<close>

theorem team_quota_admission_sound:
  assumes "usageExact f" "cpuExact f" "checkTeamQuotasLocked f asks = None" "distinct (map qaSandboxID asks)"
    and "\<forall>a \<in> set asks. rowOfAsk f a (row a)"
    and "teamQuotas f t = Some rec" "t \<noteq> []" "withinQuota rec (usageOf f t)"
  shows "withinQuota rec (usageOf (enterRows row asks f) t)"
proof -
  have z: "addUsage (usageOf f t) zeroUsage = usageOf f t"
    by (simp add: addUsage_def zeroUsage_def)
  have "usageExact (enterRows row asks f) \<and> withinQuota rec (usageOf (enterRows row asks f) t)"
    using assms(1-5,8)
    by (intro admitted_rows_within[OF _ assms(6,7), where added = "\<lambda>_. zeroUsage"])
       (simp_all add: checkTeamQuotasLocked_def z)
  then show ?thesis by blast
qed

definition quotaExample :: teamQuotaState where
  "quotaExample = newTeamQuotaState\<lparr>teamQuotas := [''red'' \<mapsto>
     \<lparr>tqTeam = ''red'', tqMaxSandboxes = 2, tqMaxCPU = 3, tqMaxMemoryMB = 0, tqGeneration = 1,
      tqCreatedUnixNano = 0, tqUpdatedUnixNano = 0\<rparr>]\<rparr>"

definition quotaExampleAsk :: "string \<Rightarrow> teamQuotaAsk" where
  "quotaExampleAsk i = \<lparr>qaSandboxID = i, qaTeam = ''red'', qaCPU = 3 / 2, qaMemoryMB = 512\<rparr>"

definition quotaExampleRow :: "teamQuotaAsk \<Rightarrow> Placement" where
  "quotaExampleRow a = zeroPlacement\<lparr>pOwnerRef := ''team:red'', pQuotaCPU := 3 / 2, pQuotaMemoryMB := 512\<rparr>"

theorem team_quota_admission_sound_witness:
  "withinQuota (the (teamQuotas quotaExample ''red''))
     (usageOf (enterRows quotaExampleRow [quotaExampleAsk ''a'', quotaExampleAsk ''b''] quotaExample) ''red'')"
proof (rule team_quota_admission_sound)
  show "usageExact quotaExample"
    using usageExact_new by (simp add: quotaExample_def usageExact_def teamMembers_def memberMemory_def usageOf_def)
  show "cpuExact quotaExample"
    using cpuExact_new by (simp add: quotaExample_def cpuExact_def teamMembers_def memberCPU_def usageOf_def)
  show "checkTeamQuotasLocked quotaExample [quotaExampleAsk ''a'', quotaExampleAsk ''b''] = None"
    by (simp add: checkTeamQuotasLocked_def quotaExample_def newTeamQuotaState_def quotaExampleAsk_def
          askTeam_def askDelta_def zeroUsage_def addUsage_def CheckTeamQuota_def quotaLimits_def Let_def)
  show "\<forall>a \<in> set [quotaExampleAsk ''a'', quotaExampleAsk ''b'']. rowOfAsk quotaExample a (quotaExampleRow a)"
    by (simp add: rowOfAsk_def quotaExampleRow_def quotaExampleAsk_def quotaTeamOf_def askTeam_def
          quotaExample_def newTeamQuotaState_def TeamOfOwnerRef_def TeamOwnerPrefix_def cutPrefix_def
          visibleChar_def)
qed (simp_all add: quotaExampleAsk_def quotaExample_def newTeamQuotaState_def withinQuota_def
       usageOf_def zeroUsage_def)

end
