(* ===== verification/Egress_Profiles.thy ===== *)
theory Egress_Profiles
  imports Placement_Types Versioned_Store
begin

text \<open>
  Named egress profiles (\<^verbatim>\<open>internal/cluster/fsm_egress_profiles.go\<close>): the replicated profiles and
  the index of the placements that reference each one, derived from the hot rows.  Counting the
  hostnames of an inline allow list is the parser of \<^verbatim>\<open>pkg/egresspolicy\<close>; it is the parameter
  \<^verbatim>\<open>countHostnames\<close> of the functions below (\<^term>\<open>None\<close> where the list does not parse).
\<close>

type_synonym EgressProfileKey = "string \<times> string"

record EgressProfileRecord =
  epOwner :: string
  epName :: string
  epAllowOut :: "string list"
  epDescription :: string
  epHostnameCount :: int
  epGeneration :: int
  epCreatedUnixNano :: int
  epUpdatedUnixNano :: int

definition epKey :: "EgressProfileRecord \<Rightarrow> EgressProfileKey" where
  "epKey r = (epOwner r, epName r)"

record egressProfileState =
  egressProfiles :: "EgressProfileKey \<rightharpoonup> EgressProfileRecord"
  egressProfileRefs :: "EgressProfileKey \<rightharpoonup> string set"

definition newEgressProfileState :: egressProfileState where
  "newEgressProfileState = \<lparr>egressProfiles = Map.empty, egressProfileRefs = Map.empty\<rparr>"

definition MaxUnionHostnames :: int where "MaxUnionHostnames = 1024"

definition egressInlineHostnames ::
  "(string list \<Rightarrow> int option) \<Rightarrow> CreateSandboxRequest option \<Rightarrow> int" where
  "egressInlineHostnames countHostnames spec =
     (case spec of
        None \<Rightarrow> 0
      | Some s \<Rightarrow>
          if srEgressProfiles s = [] then 0
          else (case countHostnames (srNetworkAllowOut s) of
                  None \<Rightarrow> int (length (srNetworkAllowOut s))
                | Some n \<Rightarrow> n))"

text \<open>The keys a row references.\<close>

definition profileKeys :: "Placement \<Rightarrow> EgressProfileKey list" where
  "profileKeys p = map (Pair (pOwnerRef p)) (pEgressProfiles p)"

definition releaseProfileRefs ::
  "string \<Rightarrow> Placement \<Rightarrow> (EgressProfileKey \<rightharpoonup> string set) \<Rightarrow> (EgressProfileKey \<rightharpoonup> string set)" where
  "releaseProfileRefs i p m = fold (\<lambda>k. idxDel k i) (profileKeys p) m"

definition claimProfileRefs ::
  "string \<Rightarrow> Placement \<Rightarrow> (EgressProfileKey \<rightharpoonup> string set) \<Rightarrow> (EgressProfileKey \<rightharpoonup> string set)" where
  "claimProfileRefs i p m = fold (\<lambda>k. idxAdd k i) (profileKeys p) m"

definition reindexEgressProfilesLocked ::
  "string \<Rightarrow> Placement option \<Rightarrow> Placement option \<Rightarrow> egressProfileState \<Rightarrow> egressProfileState" where
  "reindexEgressProfilesLocked i old nu f =
     (let m = egressProfileRefs f;
          m = (case old of None \<Rightarrow> m | Some p \<Rightarrow> releaseProfileRefs i p m);
          m = (case nu of None \<Rightarrow> m | Some p \<Rightarrow> claimProfileRefs i p m)
      in f\<lparr>egressProfileRefs := m\<rparr>)"

definition releaseEgressProfilesLocked ::
  "(string \<rightharpoonup> Placement) \<Rightarrow> string \<Rightarrow> egressProfileState \<Rightarrow> egressProfileState" where
  "releaseEgressProfilesLocked placements i f =
     (case placements i of None \<Rightarrow> f | Some old \<Rightarrow> reindexEgressProfilesLocked i (Some old) None f)"

text \<open>Hostnames a row would hold across its allow list and profiles, with one profile's count replaced.\<close>

definition unionHostnames :: "EgressProfileKey \<Rightarrow> int \<Rightarrow> egressProfileState \<Rightarrow> Placement \<Rightarrow> int" where
  "unionHostnames key newCount f p =
     pEgressInlineHostnames p +
     sum_list (map (\<lambda>k. if k = key then newCount
                        else (case egressProfiles f k of None \<Rightarrow> 0 | Some rec \<Rightarrow> epHostnameCount rec))
               (profileKeys p))"

definition rowHostnames :: "egressProfileState \<Rightarrow> Placement \<Rightarrow> int" where
  "rowHostnames f p =
     pEgressInlineHostnames p +
     sum_list (map (\<lambda>k. case egressProfiles f k of None \<Rightarrow> 0 | Some rec \<Rightarrow> epHostnameCount rec)
               (profileKeys p))"

definition egressProfileCapOverLocked ::
  "(string \<rightharpoonup> Placement) \<Rightarrow> EgressProfileKey \<Rightarrow> int \<Rightarrow> egressProfileState \<Rightarrow> string list" where
  "egressProfileCapOverLocked placements key newCount f =
     sorted_list_of_set {i \<in> idxGet (egressProfileRefs f) key.
        case placements i of None \<Rightarrow> False | Some p \<Rightarrow> unionHostnames key newCount f p > MaxUnionHostnames}"

definition applyPutEgressProfileLocked ::
  "(string \<rightharpoonup> Placement) \<Rightarrow> EgressProfileRecord option \<Rightarrow> int \<Rightarrow> egressProfileState
     \<Rightarrow> (fsmError + EgressProfileRecord \<times> bool) \<times> egressProfileState" where
  "applyPutEgressProfileLocked placements inp stampUnixNano f =
     (case inp of
        None \<Rightarrow> (Inl ErrMalformed, f)
      | Some r \<Rightarrow>
          if trimSpace (epName r) = [] then (Inl ErrMalformed, f)
          else let key = epKey r; old = egressProfiles f key in
            if (case old of None \<Rightarrow> False
                | Some o' \<Rightarrow> epAllowOut o' = epAllowOut r \<and> epDescription o' = epDescription r)
            then (Inr (the old, False), f)
            else if egressProfileCapOverLocked placements key (epHostnameCount r) f \<noteq> []
            then (Inl ErrEgressProfileCapExceeded, f)
            else let rec = (case old of
                              None \<Rightarrow> r\<lparr>epGeneration := 1, epCreatedUnixNano := stampUnixNano,
                                         epUpdatedUnixNano := stampUnixNano\<rparr>
                            | Some o' \<Rightarrow> r\<lparr>epGeneration := epGeneration o' + 1,
                                           epCreatedUnixNano := epCreatedUnixNano o',
                                           epUpdatedUnixNano := stampUnixNano\<rparr>)
                 in (Inr (rec, True), f\<lparr>egressProfiles := (egressProfiles f)(key \<mapsto> rec)\<rparr>))"

definition applyDeleteEgressProfileLocked ::
  "EgressProfileRecord option \<Rightarrow> egressProfileState \<Rightarrow> fsmError option \<times> egressProfileState" where
  "applyDeleteEgressProfileLocked inp f =
     (case inp of
        None \<Rightarrow> (Some ErrMalformed, f)
      | Some r \<Rightarrow>
          if trimSpace (epName r) = [] then (Some ErrMalformed, f)
          else if idxGet (egressProfileRefs f) (epKey r) \<noteq> {} then (Some ErrEgressProfileInUse, f)
          else (None, f\<lparr>egressProfiles := (egressProfiles f)(epKey r := None)\<rparr>))"

text \<open>Reads.\<close>

definition egressProfilesPage ::
  "string \<Rightarrow> string \<Rightarrow> int \<Rightarrow> egressProfileState \<Rightarrow> EgressProfileRecord list" where
  "egressProfilesPage ow after limit f =
     (let names = sorted_list_of_set {n. (ow, n) \<in> dom (egressProfiles f) \<and> n > after};
          names = (if limit > 0 \<and> int (length names) > limit then take (nat limit) names else names)
      in map (\<lambda>n. the (egressProfiles f (ow, n))) names)"

section \<open>The reference index is exact\<close>

lemma idxGet_foldDel: "idxGet (fold (\<lambda>k. idxDel k i) ks m) k = (if k \<in> set ks then idxGet m k - {i} else idxGet m k)"
  by (induction ks arbitrary: m) auto

lemma idxGet_foldAdd: "idxGet (fold (\<lambda>k. idxAdd k i) ks m) k = (if k \<in> set ks then insert i (idxGet m k) else idxGet m k)"
  by (induction ks arbitrary: m) auto

lemma idxWf_foldDel: "idxWf m \<Longrightarrow> idxWf (fold (\<lambda>k. idxDel k i) ks m)"
  by (induction ks arbitrary: m) auto

lemma idxWf_foldAdd: "idxWf m \<Longrightarrow> idxWf (fold (\<lambda>k. idxAdd k i) ks m)"
  by (induction ks arbitrary: m) auto

definition profileKeySet :: "string \<Rightarrow> Placement \<Rightarrow> EgressProfileKey set" where
  "profileKeySet i p = set (profileKeys p)"

interpretation profileRefs: set_index profileKeySet claimProfileRefs releaseProfileRefs
  by unfold_locales
     (auto simp: claimProfileRefs_def releaseProfileRefs_def profileKeySet_def idxGet_foldAdd
        idxGet_foldDel idxWf_foldAdd idxWf_foldDel split: if_splits)

lemma reindexEgress_exact:
  assumes "idxExact profileKeySet rows (egressProfileRefs f)"
  shows "idxExact profileKeySet (rows(i := nu)) (egressProfileRefs (reindexEgressProfilesLocked i (rows i) nu f))"
proof (cases "rows i")
  case None
  then have "rows(i := None) = rows" by auto
  with None show ?thesis
    using assms profileRefs.insert[OF assms None]
    by (cases nu) (simp_all add: reindexEgressProfilesLocked_def)
next
  case (Some old)
  then show ?thesis
    using profileRefs.remove[OF assms Some] profileRefs.replace[OF assms Some]
    by (cases nu) (simp_all add: reindexEgressProfilesLocked_def)
qed

lemma reindexEgress_profiles [simp]:
  "egressProfiles (reindexEgressProfilesLocked i old nu f) = egressProfiles f"
  by (simp add: reindexEgressProfilesLocked_def Let_def)

section \<open>Profiles as a versioned store\<close>

definition putEgressProfile ::
  "(string \<rightharpoonup> Placement) \<Rightarrow> (EgressProfileKey \<rightharpoonup> string set) \<Rightarrow> EgressProfileRecord \<times> int
     \<Rightarrow> (EgressProfileKey \<rightharpoonup> EgressProfileRecord) \<Rightarrow> (EgressProfileKey \<rightharpoonup> EgressProfileRecord)" where
  "putEgressProfile placements refs rn m =
     egressProfiles (snd (applyPutEgressProfileLocked placements (Some (fst rn)) (snd rn)
       \<lparr>egressProfiles = m, egressProfileRefs = refs\<rparr>))"

interpretation egressStore: versioned_store epKey epGeneration epCreatedUnixNano "putEgressProfile placements refs"
  for placements refs
  by unfold_locales
     (auto simp: putEgressProfile_def applyPutEgressProfileLocked_def Let_def split: if_splits option.splits)

section \<open>Properties\<close>

text \<open>A profile in use cannot be deleted: with a reference index that is exact for the
  rows, deleting a profile some row references is refused and changes nothing, and deleting one no
  row references succeeds and removes exactly that profile.\<close>

theorem egress_profile_delete_in_use:
  assumes "idxExact profileKeySet rows (egressProfileRefs f)" "trimSpace (epName r) \<noteq> []"
  shows "applyDeleteEgressProfileLocked (Some r) f =
         (if \<exists>i p. rows i = Some p \<and> epKey r \<in> set (profileKeys p)
          then (Some ErrEgressProfileInUse, f)
          else (None, f\<lparr>egressProfiles := (egressProfiles f)(epKey r := None)\<rparr>))"
proof -
  have "idxGet (egressProfileRefs f) (epKey r) \<noteq> {} \<longleftrightarrow>
        (\<exists>i p. rows i = Some p \<and> epKey r \<in> set (profileKeys p))"
    using idxExact_member[OF assms(1), of _ "epKey r"] by (auto simp: profileKeySet_def)
  then show ?thesis using assms(2) by (simp add: applyDeleteEgressProfileLocked_def)
qed

definition profileExampleRow :: Placement where
  "profileExampleRow = zeroPlacement\<lparr>pOwnerRef := ''acct'', pEgressProfiles := [''web'']\<rparr>"

definition profileExample :: egressProfileState where
  "profileExample = reindexEgressProfilesLocked ''sb'' None (Some profileExampleRow) newEgressProfileState"

definition profileExampleRecord :: EgressProfileRecord where
  "profileExampleRecord = \<lparr>epOwner = ''acct'', epName = ''web'', epAllowOut = [], epDescription = [],
     epHostnameCount = 0, epGeneration = 1, epCreatedUnixNano = 0, epUpdatedUnixNano = 0\<rparr>"

theorem egress_profile_delete_in_use_witness:
  "applyDeleteEgressProfileLocked (Some profileExampleRecord) profileExample =
     (Some ErrEgressProfileInUse, profileExample)"
proof -
  have "idxExact profileKeySet [''sb'' \<mapsto> profileExampleRow] (egressProfileRefs profileExample)"
    using reindexEgress_exact[of Map.empty newEgressProfileState "''sb''" "Some profileExampleRow"]
    by (simp add: profileExample_def newEgressProfileState_def)
  from egress_profile_delete_in_use[OF this, of profileExampleRecord] show ?thesis
    by (simp add: profileExampleRecord_def profileExampleRow_def profileKeys_def epKey_def visibleChar_def)
qed

text \<open>The union cap holds after every accepted profile change: if the reference index
  is exact and every row was within the hostname cap, then after a put that the apply accepts every
  row still is.\<close>

theorem egress_union_cap_kept:
  assumes "idxExact profileKeySet rows (egressProfileRefs f)"
    and "\<forall>i p. rows i = Some p \<longrightarrow> rowHostnames f p \<le> MaxUnionHostnames"
    and "applyPutEgressProfileLocked rows (Some r) n f = (Inr out, f')"
  shows "\<forall>i p. rows i = Some p \<longrightarrow> rowHostnames f' p \<le> MaxUnionHostnames"
proof (cases "f' = f")
  case True
  then show ?thesis using assms(2) by simp
next
  case False
  then obtain rec where put: "f' = f\<lparr>egressProfiles := (egressProfiles f)(epKey r \<mapsto> rec)\<rparr>"
      "epHostnameCount rec = epHostnameCount r"
    and cap: "egressProfileCapOverLocked rows (epKey r) (epHostnameCount r) f = []"
    using assms(3) by (auto simp: applyPutEgressProfileLocked_def Let_def split: if_splits option.splits)
  have new: "rowHostnames f' p = unionHostnames (epKey r) (epHostnameCount r) f p" for p
    unfolding rowHostnames_def unionHostnames_def put(1)
    by (rule arg_cong[where f = "\<lambda>xs. pEgressInlineHostnames p + sum_list xs"]) (auto simp: put(2))
  show ?thesis
  proof (intro allI impI)
    fix i p
    assume row: "rows i = Some p"
    show "rowHostnames f' p \<le> MaxUnionHostnames"
    proof (cases "epKey r \<in> set (profileKeys p)")
      case True
      then have "i \<in> idxGet (egressProfileRefs f) (epKey r)"
        using idxExact_member[OF assms(1)] row by (auto simp: profileKeySet_def)
      moreover have "finite (idxGet (egressProfileRefs f) (epKey r))" by (rule idxExact_finite[OF assms(1)])
      ultimately show ?thesis using cap row unfolding egressProfileCapOverLocked_def new by force
    next
      case False
      then have "rowHostnames f' p = rowHostnames f p"
        unfolding rowHostnames_def put(1)
        by (intro arg_cong[where f = "\<lambda>xs. pEgressInlineHostnames p + sum_list xs"]) auto
      with assms(2) row show ?thesis by simp
    qed
  qed
qed

theorem egress_union_cap_kept_witness:
  "rowHostnames (snd (applyPutEgressProfileLocked [''sb'' \<mapsto> profileExampleRow]
     (Some (profileExampleRecord\<lparr>epHostnameCount := 1000\<rparr>)) 7 profileExample)) profileExampleRow
   \<le> MaxUnionHostnames"
proof (rule egress_union_cap_kept[rule_format, of "[''sb'' \<mapsto> profileExampleRow]", OF _ _ _ fun_upd_same])
  show exact: "idxExact profileKeySet [''sb'' \<mapsto> profileExampleRow] (egressProfileRefs profileExample)"
    using reindexEgress_exact[of Map.empty newEgressProfileState "''sb''" "Some profileExampleRow"]
    by (simp add: profileExample_def newEgressProfileState_def)
  have empty: "egressProfiles profileExample = Map.empty"
    by (simp add: profileExample_def newEgressProfileState_def)
  show "rowHostnames profileExample p \<le> MaxUnionHostnames"
    if "[''sb'' \<mapsto> profileExampleRow] i = Some p" for i p
    using that empty
    by (auto simp: rowHostnames_def profileKeys_def profileExampleRow_def zeroPlacement_def MaxUnionHostnames_def
      split: if_splits)
  have "unionHostnames (''acct'', ''web'') 1000 profileExample profileExampleRow = 1000"
    by (simp add: unionHostnames_def profileKeys_def profileExampleRow_def zeroPlacement_def)
  then have over: "egressProfileCapOverLocked [''sb'' \<mapsto> profileExampleRow] (''acct'', ''web'') 1000 profileExample = []"
    by (auto simp: egressProfileCapOverLocked_def MaxUnionHostnames_def split: option.splits)
  have "trimSpace ''web'' = ''web''" by (simp add: visibleChar_def)
  with over empty show "applyPutEgressProfileLocked [''sb'' \<mapsto> profileExampleRow]
        (Some (profileExampleRecord\<lparr>epHostnameCount := 1000\<rparr>)) 7 profileExample =
      (Inr (profileExampleRecord\<lparr>epHostnameCount := 1000, epGeneration := 1, epCreatedUnixNano := 7,
              epUpdatedUnixNano := 7\<rparr>, True),
       snd (applyPutEgressProfileLocked [''sb'' \<mapsto> profileExampleRow]
        (Some (profileExampleRecord\<lparr>epHostnameCount := 1000\<rparr>)) 7 profileExample))"
    by (simp add: applyPutEgressProfileLocked_def profileExampleRecord_def epKey_def Let_def)
qed

end
