(* ===== verification/Warm_Pools.thy ===== *)
theory Warm_Pools
  imports Placement_Types Versioned_Store
begin

text \<open>
  Fleet-wide warm-pool entries (\<^verbatim>\<open>internal/cluster/fsm_warm_pools.go\<close>): one entry per image, at most
  \<^verbatim>\<open>MaxWarmPools\<close> of them, and the version cursor the workers poll.  The \<^verbatim>\<open>index\<close> argument of the
  operations is \<^verbatim>\<open>f.version\<close>, the Raft index of the log entry being applied.
\<close>

definition MaxWarmPools :: nat where "MaxWarmPools = 32"

definition WarmPoolReplaceNow :: string where "WarmPoolReplaceNow = ''replace_now''"

definition NormalizeWarmPoolOnImageChange :: "string \<Rightarrow> string" where
  "NormalizeWarmPoolOnImageChange v = (if v = [] then WarmPoolReplaceNow else v)"

record WarmPoolRecord =
  wpImage :: string
  wpDepth :: int
  wpMinDepth :: int
  wpMaxDepth :: int
  wpOnImageChange :: string
  wpGeneration :: int
  wpCreatedUnixNano :: int
  wpUpdatedUnixNano :: int

definition sameSettings :: "WarmPoolRecord \<Rightarrow> WarmPoolRecord \<Rightarrow> bool" where
  "sameSettings r q \<longleftrightarrow>
     wpDepth r = wpDepth q \<and> wpMinDepth r = wpMinDepth q \<and> wpMaxDepth r = wpMaxDepth q \<and>
     NormalizeWarmPoolOnImageChange (wpOnImageChange r) = NormalizeWarmPoolOnImageChange (wpOnImageChange q)"

record warmPoolState =
  warmPools :: "string \<rightharpoonup> WarmPoolRecord"
  warmPoolsVersion :: nat

definition newWarmPoolState :: warmPoolState where
  "newWarmPoolState = \<lparr>warmPools = Map.empty, warmPoolsVersion = 0\<rparr>"

definition applyPutWarmPoolLocked ::
  "nat \<Rightarrow> WarmPoolRecord option \<Rightarrow> int \<Rightarrow> warmPoolState
     \<Rightarrow> (fsmError + WarmPoolRecord \<times> bool) \<times> warmPoolState" where
  "applyPutWarmPoolLocked index inp stampUnixNano f =
     (case inp of
        None \<Rightarrow> (Inl ErrMalformed, f)
      | Some w \<Rightarrow>
          if trimSpace (wpImage w) = [] then (Inl ErrMalformed, f)
          else (case warmPools f (wpImage w) of
                  Some old \<Rightarrow>
                    if sameSettings old w then (Inr (old, False), f)
                    else let rec = w\<lparr>wpGeneration := wpGeneration old + 1,
                                     wpCreatedUnixNano := wpCreatedUnixNano old,
                                     wpUpdatedUnixNano := stampUnixNano\<rparr>
                         in (Inr (rec, True),
                             f\<lparr>warmPools := (warmPools f)(wpImage w \<mapsto> rec), warmPoolsVersion := index\<rparr>)
                | None \<Rightarrow>
                    if MaxWarmPools \<le> card (dom (warmPools f)) then (Inl ErrWarmPoolLimit, f)
                    else let rec = w\<lparr>wpGeneration := 1, wpCreatedUnixNano := stampUnixNano,
                                     wpUpdatedUnixNano := stampUnixNano\<rparr>
                         in (Inr (rec, True),
                             f\<lparr>warmPools := (warmPools f)(wpImage w \<mapsto> rec), warmPoolsVersion := index\<rparr>)))"

definition applyDeleteWarmPoolLocked ::
  "nat \<Rightarrow> WarmPoolRecord option \<Rightarrow> warmPoolState \<Rightarrow> fsmError option \<times> warmPoolState" where
  "applyDeleteWarmPoolLocked index inp f =
     (case inp of
        None \<Rightarrow> (Some ErrMalformed, f)
      | Some w \<Rightarrow>
          if trimSpace (wpImage w) = [] then (Some ErrMalformed, f)
          else if warmPools f (wpImage w) = None then (None, f)
          else (None, f\<lparr>warmPools := (warmPools f)(wpImage w := None), warmPoolsVersion := index\<rparr>))"

definition warmPoolsSnapshotLocked :: "warmPoolState \<Rightarrow> WarmPoolRecord list" where
  "warmPoolsSnapshotLocked f = sortedRows (warmPools f)"

record WarmPoolReadResponse =
  wrVersion :: nat
  wrUnchanged :: bool
  wrPools :: "WarmPoolRecord list"
  wrAuthoritative :: bool

definition readWarmPools :: "nat \<Rightarrow> warmPoolState \<Rightarrow> WarmPoolReadResponse" where
  "readWarmPools since f =
     (if since \<noteq> 0 \<and> since = warmPoolsVersion f
      then \<lparr>wrVersion = warmPoolsVersion f, wrUnchanged = True, wrPools = [], wrAuthoritative = True\<rparr>
      else \<lparr>wrVersion = warmPoolsVersion f, wrUnchanged = False,
            wrPools = warmPoolsSnapshotLocked f, wrAuthoritative = True\<rparr>)"

definition restoreWarmPoolsLocked :: "WarmPoolRecord list \<Rightarrow> nat \<Rightarrow> warmPoolState" where
  "restoreWarmPoolsLocked records version =
     \<lparr>warmPools = rebuildRows (\<lambda>r. trimSpace (wpImage r) \<noteq> []) wpImage records,
      warmPoolsVersion = version\<rparr>"

text \<open>The two commands, as steps of the table.\<close>

datatype warmPoolOp =
    PutWarmPool "WarmPoolRecord option" int
  | DeleteWarmPool "WarmPoolRecord option"

fun warmPoolStep :: "nat \<times> warmPoolOp \<Rightarrow> warmPoolState \<Rightarrow> warmPoolState" where
  "warmPoolStep (index, PutWarmPool inp stamp) f = snd (applyPutWarmPoolLocked index inp stamp f)"
| "warmPoolStep (index, DeleteWarmPool inp) f = snd (applyDeleteWarmPoolLocked index inp f)"

definition warmPoolRun :: "(nat \<times> warmPoolOp) list \<Rightarrow> warmPoolState \<Rightarrow> warmPoolState" where
  "warmPoolRun ops f = fold warmPoolStep ops f"

definition warmPoolsWf :: "warmPoolState \<Rightarrow> bool" where
  "warmPoolsWf f \<longleftrightarrow>
     finite (dom (warmPools f)) \<and> card (dom (warmPools f)) \<le> MaxWarmPools \<and>
     (\<forall>image w. warmPools f image = Some w \<longrightarrow> wpImage w = image \<and> trimSpace image \<noteq> [])"

definition putWarmPool ::
  "WarmPoolRecord \<times> int \<Rightarrow> (string \<rightharpoonup> WarmPoolRecord) \<Rightarrow> (string \<rightharpoonup> WarmPoolRecord)" where
  "putWarmPool rn m =
     warmPools (snd (applyPutWarmPoolLocked 0 (Some (fst rn)) (snd rn) \<lparr>warmPools = m, warmPoolsVersion = 0\<rparr>))"

section \<open>Lemmas\<close>

interpretation warmPoolStore: versioned_store wpImage wpGeneration wpCreatedUnixNano putWarmPool
  by unfold_locales
     (auto simp: putWarmPool_def applyPutWarmPoolLocked_def Let_def split: if_splits option.splits)

lemma warmPoolStep_cases:
  "warmPoolStep (index, c) f = f \<or> warmPoolsVersion (warmPoolStep (index, c) f) = index"
  by (cases c) (auto simp: applyPutWarmPoolLocked_def applyDeleteWarmPoolLocked_def Let_def split: option.splits)

lemma warmPoolStep_wf:
  assumes "warmPoolsWf f"
  shows "warmPoolsWf (warmPoolStep e f)"
proof -
  obtain index c where e: "e = (index, c)" by (cases e) auto
  show ?thesis
  proof (cases c)
    case (PutWarmPool inp stamp)
    have "finite (dom ((warmPools f)(k \<mapsto> v)))" for k v using assms by (simp add: warmPoolsWf_def)
    with PutWarmPool assms show ?thesis
      unfolding e by (auto simp: warmPoolsWf_def applyPutWarmPoolLocked_def Let_def card_dom_upd
        simp del: dom_fun_upd split: option.splits)
  next
    case (DeleteWarmPool inp)
    have "card (dom (warmPools f) - {k}) \<le> MaxWarmPools" for k
      using assms card_Diff1_le[of "dom (warmPools f)" k] by (simp add: warmPoolsWf_def)
    with DeleteWarmPool assms show ?thesis
      unfolding e by (auto simp: warmPoolsWf_def applyDeleteWarmPoolLocked_def split: option.splits)
  qed
qed

text \<open>Along a run at rising indexes, the version never falls, and while it has not moved the
  table has not moved either.\<close>

lemma warmPoolRun_version:
  assumes "sorted_wrt (<) (map fst ops)" "\<forall>e \<in> set ops. warmPoolsVersion f < fst e"
  shows "warmPoolRun ops f = f \<or>
         (warmPoolsVersion f < warmPoolsVersion (warmPoolRun ops f) \<and>
          warmPoolsVersion (warmPoolRun ops f) \<in> fst ` set ops)"
  using assms
proof (induction ops arbitrary: f)
  case Nil
  then show ?case by (simp add: warmPoolRun_def)
next
  case (Cons e ops)
  obtain index c where e: "e = (index, c)" by (cases e) auto
  let ?g = "warmPoolStep e f"
  have step: "?g = f \<or> warmPoolsVersion ?g = index" using warmPoolStep_cases e by simp
  have "\<forall>x \<in> set ops. warmPoolsVersion ?g < fst x" using step Cons.prems e by auto
  from Cons.IH[OF _ this] Cons.prems(1)
  have "warmPoolRun ops ?g = ?g \<or> (warmPoolsVersion ?g < warmPoolsVersion (warmPoolRun ops ?g) \<and>
          warmPoolsVersion (warmPoolRun ops ?g) \<in> fst ` set ops)" by simp
  moreover have "warmPoolRun (e # ops) f = warmPoolRun ops ?g" by (simp add: warmPoolRun_def)
  ultimately show ?case using step Cons.prems(2) e by auto
qed

lemma warmPoolRun_wf: "warmPoolsWf f \<Longrightarrow> warmPoolsWf (warmPoolRun ops f)"
  unfolding warmPoolRun_def by (induction ops arbitrary: f) (simp_all add: warmPoolStep_wf)

section \<open>Properties\<close>

text \<open>Along every run of warm-pool commands at rising log indexes, a worker that polls
  with the version of an earlier answer never misses a change: an answer marked unchanged means the
  table is still the one of the earlier answer, and otherwise the answer lists the current table.\<close>

theorem warm_pool_cursor:
  assumes "sorted_wrt (<) (map fst ops)" "\<forall>e \<in> set ops. warmPoolsVersion f < fst e"
  shows "let g = warmPoolRun ops f;
             resp = readWarmPools (wrVersion (readWarmPools 0 f)) g
         in if wrUnchanged resp then warmPools g = warmPools f
            else wrPools resp = warmPoolsSnapshotLocked g \<and> wrVersion resp = warmPoolsVersion g"
proof (cases "warmPoolRun ops f = f")
  case True
  then show ?thesis by (simp add: Let_def readWarmPools_def)
next
  case False
  with warmPoolRun_version[OF assms] have "warmPoolsVersion f \<noteq> warmPoolsVersion (warmPoolRun ops f)" by auto
  then show ?thesis by (simp add: Let_def readWarmPools_def)
qed

theorem warm_pool_cursor_witness:
  "let w = \<lparr>wpImage = ''a'', wpDepth = 2, wpMinDepth = 0, wpMaxDepth = 0, wpOnImageChange = [],
            wpGeneration = 0, wpCreatedUnixNano = 0, wpUpdatedUnixNano = 0\<rparr>;
       f = snd (applyPutWarmPoolLocked 5 (Some w) 100 newWarmPoolState);
       g = warmPoolRun [(6, PutWarmPool (Some w) 101), (7, DeleteWarmPool (Some w))] f
   in warmPools f ''a'' \<noteq> None \<and> warmPools g ''a'' = None \<and>
      (if wrUnchanged (readWarmPools (wrVersion (readWarmPools 0 f)) g) then warmPools g = warmPools f
       else wrPools (readWarmPools (wrVersion (readWarmPools 0 f)) g) = warmPoolsSnapshotLocked g \<and>
            wrVersion (readWarmPools (wrVersion (readWarmPools 0 f)) g) = warmPoolsVersion g)"
  unfolding Let_def
  by (intro conjI warm_pool_cursor[unfolded Let_def])
     (simp_all add: warmPoolRun_def applyPutWarmPoolLocked_def applyDeleteWarmPoolLocked_def Let_def
        newWarmPoolState_def visibleChar_def MaxWarmPools_def sameSettings_def)

text \<open>However many warm-pool commands run, at most \<^verbatim>\<open>MaxWarmPools\<close> entries exist, each
  under its own non-blank image, and a snapshot restores to the same table with the snapshot's index
  as the version.\<close>

theorem warm_pool_limit_and_restore:
  assumes "warmPoolsWf f" "g = warmPoolRun ops f"
  shows "card (dom (warmPools g)) \<le> MaxWarmPools \<and>
         (\<forall>image w. warmPools g image = Some w \<longrightarrow> wpImage w = image) \<and>
         restoreWarmPoolsLocked (warmPoolsSnapshotLocked g) v = g\<lparr>warmPoolsVersion := v\<rparr>"
proof -
  have wf: "warmPoolsWf g" using assms(1) unfolding assms(2) by (rule warmPoolRun_wf)
  then have "rebuildRows (\<lambda>r. trimSpace (wpImage r) \<noteq> []) wpImage (sortedRows (warmPools g)) = warmPools g"
    by (intro rebuild_sortedRows) (auto simp: warmPoolsWf_def)
  with wf show ?thesis by (simp add: restoreWarmPoolsLocked_def warmPoolsSnapshotLocked_def warmPoolsWf_def)
qed

theorem warm_pool_limit_and_restore_witness:
  "let w = \<lparr>wpImage = ''a'', wpDepth = 2, wpMinDepth = 0, wpMaxDepth = 0, wpOnImageChange = [],
            wpGeneration = 0, wpCreatedUnixNano = 0, wpUpdatedUnixNano = 0\<rparr>;
       g = warmPoolRun [(6, PutWarmPool (Some w) 101)] newWarmPoolState
   in warmPools g ''a'' \<noteq> None \<and>
      restoreWarmPoolsLocked (warmPoolsSnapshotLocked g) 9 = g\<lparr>warmPoolsVersion := 9\<rparr>"
  unfolding Let_def
proof
  show "warmPools (warmPoolRun [(6, PutWarmPool (Some \<lparr>wpImage = ''a'', wpDepth = 2, wpMinDepth = 0,
          wpMaxDepth = 0, wpOnImageChange = [], wpGeneration = 0, wpCreatedUnixNano = 0,
          wpUpdatedUnixNano = 0\<rparr>) 101)] newWarmPoolState) ''a'' \<noteq> None"
    by (simp add: warmPoolRun_def applyPutWarmPoolLocked_def Let_def newWarmPoolState_def visibleChar_def MaxWarmPools_def)
  have "warmPoolsWf newWarmPoolState" by (simp add: warmPoolsWf_def newWarmPoolState_def)
  from warm_pool_limit_and_restore[OF this refl]
  show "restoreWarmPoolsLocked (warmPoolsSnapshotLocked (warmPoolRun [(6, PutWarmPool (Some \<lparr>wpImage = ''a'',
          wpDepth = 2, wpMinDepth = 0, wpMaxDepth = 0, wpOnImageChange = [], wpGeneration = 0,
          wpCreatedUnixNano = 0, wpUpdatedUnixNano = 0\<rparr>) 101)] newWarmPoolState)) 9 =
        warmPoolRun [(6, PutWarmPool (Some \<lparr>wpImage = ''a'', wpDepth = 2, wpMinDepth = 0,
          wpMaxDepth = 0, wpOnImageChange = [], wpGeneration = 0, wpCreatedUnixNano = 0,
          wpUpdatedUnixNano = 0\<rparr>) 101)] newWarmPoolState\<lparr>warmPoolsVersion := 9\<rparr>"
    by blast
qed

end
