(* ===== verification/Volumes.thy ===== *)
theory Volumes
  imports Placement_Types "HOL-Library.Word" "HOL-Library.Product_Lexorder"
begin

text \<open>
  Platform volumes in the replicated state machine: the volume rows and their name index, the
  attachment table with its two indexes, and the reclaim ledger of volumes that go with their last
  sandbox (\<^verbatim>\<open>internal/cluster/fsm_volumes.go\<close>, \<^verbatim>\<open>internal/cluster/fsm_volume_reclaims.go\<close> and the
  volume cases of \<^verbatim>\<open>placementFSM.apply\<close>).

  A \<^verbatim>\<open>time.Time\<close> is a number of nanoseconds, \<^term>\<open>None\<close> being the zero time; \<^verbatim>\<open>now\<close> is the apply's
  clock reading in seconds.  Where the code walks a Go map, the model walks the keys in order: the
  loops below do not depend on the order.
\<close>

unbundle bit_operations_syntax

section \<open>Rows and keys\<close>

record Volume =
  vID :: string
  vTenant :: string
  vName :: string
  vBackend :: string
  vSource :: string
  vCreatedAt :: "int option"
  vDeleteWithSandbox :: bool

record VolumeAttachment =
  vaTenant :: string
  vaVolumeID :: string
  vaSandboxID :: string
  vaIncarnationID :: string
  vaTarget :: string
  vaSource :: string
  vaCreatedAt :: "int option"

record VolumeReclaim =
  vrTenant :: string
  vrVolumeID :: string
  vrName :: string
  vrBackend :: string
  vrSource :: string
  vrSandboxID :: string
  vrNodeID :: string
  vrRecordedUnixNano :: int

definition nul :: char where "nul = CHR 0x00"

definition volumeKey :: "string \<Rightarrow> string \<Rightarrow> string" where
  "volumeKey tenant i = tenant @ nul # i"

definition volumeNameKey :: "string \<Rightarrow> string \<Rightarrow> string" where
  "volumeNameKey tenant name = tenant @ nul # name"

definition volumeAttachmentKey :: "string \<Rightarrow> string \<Rightarrow> string \<Rightarrow> string \<Rightarrow> string" where
  "volumeAttachmentKey tenant volumeID sandboxID target =
     tenant @ nul # volumeID @ nul # sandboxID @ nul # target"

definition reclaimKey :: "VolumeReclaim \<Rightarrow> string" where
  "reclaimKey r = volumeKey (vrTenant r) (vrVolumeID r)"

definition unixTime :: "int \<Rightarrow> int option" where "unixTime now = Some (now * 10 ^ 9)"

record volumeState =
  volumes :: "string \<rightharpoonup> Volume"
  volumeNameIndex :: "string \<rightharpoonup> string"
  volumeAttachments :: "string \<rightharpoonup> VolumeAttachment"
  volumeAttachmentsByVolume :: "string \<rightharpoonup> string set"
  volumeAttachmentsBySandbox :: "string \<rightharpoonup> string set"
  volumeReclaims :: "string \<rightharpoonup> VolumeReclaim"
  volumeReclaimsByNode :: "string \<rightharpoonup> string set"

definition newVolumeState :: volumeState where
  "newVolumeState =
     \<lparr>volumes = Map.empty, volumeNameIndex = Map.empty, volumeAttachments = Map.empty,
      volumeAttachmentsByVolume = Map.empty, volumeAttachmentsBySandbox = Map.empty,
      volumeReclaims = Map.empty, volumeReclaimsByNode = Map.empty\<rparr>"

section \<open>Attachments\<close>

definition attachmentKey :: "VolumeAttachment \<Rightarrow> string" where
  "attachmentKey a = volumeAttachmentKey (vaTenant a) (vaVolumeID a) (vaSandboxID a) (vaTarget a)"

definition releaseVolumeAttachmentKeyLocked :: "string \<Rightarrow> VolumeAttachment \<Rightarrow> volumeState \<Rightarrow> volumeState" where
  "releaseVolumeAttachmentKeyLocked key a f =
     f\<lparr>volumeAttachments := (volumeAttachments f)(key := None),
       volumeAttachmentsByVolume :=
         idxDel (volumeKey (vaTenant a) (vaVolumeID a)) key (volumeAttachmentsByVolume f),
       volumeAttachmentsBySandbox := idxDel (vaSandboxID a) key (volumeAttachmentsBySandbox f)\<rparr>"

definition putVolumeAttachmentLocked :: "VolumeAttachment \<Rightarrow> volumeState \<Rightarrow> volumeState" where
  "putVolumeAttachmentLocked a f =
     (let key = attachmentKey a;
          f = (case volumeAttachments f key of
                 None \<Rightarrow> f | Some existing \<Rightarrow> releaseVolumeAttachmentKeyLocked key existing f)
      in f\<lparr>volumeAttachments := (volumeAttachments f)(key \<mapsto> a),
           volumeAttachmentsByVolume :=
             idxAdd (volumeKey (vaTenant a) (vaVolumeID a)) key (volumeAttachmentsByVolume f),
           volumeAttachmentsBySandbox := idxAdd (vaSandboxID a) key (volumeAttachmentsBySandbox f)\<rparr>)"

definition releaseAttachmentOf :: "string \<Rightarrow> string \<Rightarrow> volumeState \<Rightarrow> volumeState" where
  "releaseAttachmentOf incarnationID key f =
     (case volumeAttachments f key of
        None \<Rightarrow> f
      | Some a \<Rightarrow>
          if incarnationID \<noteq> [] \<and> trimSpace (vaIncarnationID a) \<noteq> incarnationID then f
          else releaseVolumeAttachmentKeyLocked key a f)"

definition releaseVolumeAttachmentsLocked :: "string \<Rightarrow> string \<Rightarrow> volumeState \<Rightarrow> volumeState" where
  "releaseVolumeAttachmentsLocked sandboxID incarnationID f =
     (let sandboxID = trimSpace sandboxID
      in if sandboxID = [] then f
         else fold (releaseAttachmentOf incarnationID)
                (sorted_list_of_set (idxGet (volumeAttachmentsBySandbox f) sandboxID)) f)"

definition releaseVolumeAttachmentsForSandboxLocked :: "string \<Rightarrow> volumeState \<Rightarrow> volumeState" where
  "releaseVolumeAttachmentsForSandboxLocked sandboxID f = releaseVolumeAttachmentsLocked sandboxID [] f"

definition releaseVolumeAttachmentsForIncarnationLocked ::
  "string \<Rightarrow> string \<Rightarrow> volumeState \<Rightarrow> volumeState" where
  "releaseVolumeAttachmentsForIncarnationLocked sandboxID incarnationID f =
     (let incarnationID = trimSpace incarnationID
      in if incarnationID = [] then f else releaseVolumeAttachmentsLocked sandboxID incarnationID f)"

definition volumeAttachmentCountLocked :: "string \<Rightarrow> string \<Rightarrow> volumeState \<Rightarrow> nat" where
  "volumeAttachmentCountLocked tenant volumeID f =
     (if tenant = [] \<or> volumeID = [] then 0
      else card (idxGet (volumeAttachmentsByVolume f) (volumeKey tenant volumeID)))"

section \<open>The reclaim ledger\<close>

definition deleteVolumeReclaimLocked :: "string \<Rightarrow> volumeState \<Rightarrow> volumeState" where
  "deleteVolumeReclaimLocked key f =
     (case volumeReclaims f key of
        None \<Rightarrow> f
      | Some old \<Rightarrow>
          f\<lparr>volumeReclaims := (volumeReclaims f)(key := None),
            volumeReclaimsByNode := idxDel (vrNodeID old) key (volumeReclaimsByNode f)\<rparr>)"

definition putVolumeReclaimLocked :: "VolumeReclaim \<Rightarrow> volumeState \<Rightarrow> volumeState" where
  "putVolumeReclaimLocked r f =
     (let key = reclaimKey r; f = deleteVolumeReclaimLocked key f
      in f\<lparr>volumeReclaims := (volumeReclaims f)(key \<mapsto> r),
           volumeReclaimsByNode := idxAdd (vrNodeID r) key (volumeReclaimsByNode f)\<rparr>)"

definition volumeHeldByAnotherSandboxLocked :: "string \<Rightarrow> string \<Rightarrow> volumeState \<Rightarrow> bool" where
  "volumeHeldByAnotherSandboxLocked vKey sandboxID f \<longleftrightarrow>
     (\<exists>key \<in> idxGet (volumeAttachmentsByVolume f) vKey.
        case volumeAttachments f key of None \<Rightarrow> False | Some a \<Rightarrow> vaSandboxID a \<noteq> sandboxID)"

text \<open>One turn of the loop of \<^verbatim>\<open>recordVolumeReclaimsLocked\<close>.\<close>

definition recordReclaimOf :: "string \<Rightarrow> string \<Rightarrow> int \<Rightarrow> string \<Rightarrow> volumeState \<Rightarrow> volumeState" where
  "recordReclaimOf sandboxID nodeID stamp key f =
     (case volumeAttachments f key of
        None \<Rightarrow> f
      | Some a \<Rightarrow>
          let vKey = volumeKey (vaTenant a) (vaVolumeID a) in
          case volumes f vKey of
            None \<Rightarrow> f
          | Some vol \<Rightarrow>
              if \<not> vDeleteWithSandbox vol \<or> trimSpace (vSource vol) = [] then f
              else if volumeHeldByAnotherSandboxLocked vKey sandboxID f then f
              else putVolumeReclaimLocked
                     \<lparr>vrTenant = vTenant vol, vrVolumeID = vID vol, vrName = vName vol,
                      vrBackend = vBackend vol, vrSource = vSource vol, vrSandboxID = sandboxID,
                      vrNodeID = nodeID, vrRecordedUnixNano = stamp\<rparr> f)"

definition recordVolumeReclaimsLocked :: "string \<Rightarrow> string \<Rightarrow> int \<Rightarrow> volumeState \<Rightarrow> volumeState" where
  "recordVolumeReclaimsLocked sandboxID nodeID stamp f =
     (let sandboxID = trimSpace sandboxID; nodeID = trimSpace nodeID
      in if sandboxID = [] \<or> nodeID = [] then f
         else fold (recordReclaimOf sandboxID nodeID stamp)
                (sorted_list_of_set (idxGet (volumeAttachmentsBySandbox f) sandboxID)) f)"

definition recordDeletedVolumeReclaimLocked ::
  "Volume \<Rightarrow> string \<Rightarrow> string \<Rightarrow> int \<Rightarrow> volumeState \<Rightarrow> volumeState" where
  "recordDeletedVolumeReclaimLocked row reclaimSource reclaimNodeID stamp f =
     (let source = trimSpace (vSource row);
          source = (if source = [] then trimSpace reclaimSource else source);
          node = trimSpace reclaimNodeID
      in if source = [] \<or> node = [] then f
         else putVolumeReclaimLocked
                \<lparr>vrTenant = trimSpace (vTenant row), vrVolumeID = trimSpace (vID row), vrName = vName row,
                 vrBackend = vBackend row, vrSource = source, vrSandboxID = [], vrNodeID = node,
                 vrRecordedUnixNano = stamp\<rparr> f)"

definition volumeReclaimFromCommand :: "VolumeReclaim option \<Rightarrow> fsmError + VolumeReclaim" where
  "volumeReclaimFromCommand inp =
     (case inp of
        None \<Rightarrow> Inl ErrMalformed
      | Some r \<Rightarrow>
          let r = r\<lparr>vrTenant := trimSpace (vrTenant r), vrVolumeID := trimSpace (vrVolumeID r),
                    vrNodeID := trimSpace (vrNodeID r)\<rparr>
          in if vrTenant r = [] \<or> vrVolumeID r = [] then Inl ErrMalformed else Inr r)"

definition applyAckVolumeReclaimLocked ::
  "VolumeReclaim option \<Rightarrow> volumeState \<Rightarrow> fsmError option \<times> volumeState" where
  "applyAckVolumeReclaimLocked inp f =
     (case volumeReclaimFromCommand inp of
        Inl e \<Rightarrow> (Some e, f)
      | Inr r \<Rightarrow>
          (case volumeReclaims f (reclaimKey r) of
             None \<Rightarrow> (None, f)
           | Some cur \<Rightarrow>
               if vrRecordedUnixNano cur \<noteq> vrRecordedUnixNano r then (None, f)
               else (None, deleteVolumeReclaimLocked (reclaimKey r) f)))"

definition applyClaimVolumeReclaimLocked ::
  "VolumeReclaim option \<Rightarrow> string \<Rightarrow> volumeState \<Rightarrow> fsmError option \<times> volumeState" where
  "applyClaimVolumeReclaimLocked inp nodeID f =
     (case volumeReclaimFromCommand inp of
        Inl e \<Rightarrow> (Some e, f)
      | Inr r \<Rightarrow>
          let to = trimSpace nodeID in
          if to = [] then (Some ErrMalformed, f)
          else (case volumeReclaims f (reclaimKey r) of
                  None \<Rightarrow> (Some ErrVolumeReclaimMoved, f)
                | Some cur \<Rightarrow>
                    if vrRecordedUnixNano cur \<noteq> vrRecordedUnixNano r \<or> vrNodeID cur \<noteq> vrNodeID r
                    then (Some ErrVolumeReclaimMoved, f)
                    else (None, putVolumeReclaimLocked (cur\<lparr>vrNodeID := to\<rparr>) f)))"

text \<open>Which sweepers may take an entry over: \<^verbatim>\<open>hash/fnv\<close>'s 64-bit FNV-1a picks the first.\<close>

definition fnv64a :: "string \<Rightarrow> 64 word" where
  "fnv64a s = foldl (\<lambda>h c. (h XOR word_of_nat (of_char c)) * 1099511628211) 14695981039346656037 s"

definition reclaimAdoptersPerEntry :: nat where "reclaimAdoptersPerEntry = 3"

definition mayAdoptVolumeReclaim :: "string \<Rightarrow> string \<Rightarrow> string list \<Rightarrow> bool" where
  "mayAdoptVolumeReclaim key nodeID adopters =
     (let n = length adopters; start = unat (fnv64a key) mod n
      in n = 0 \<or>
         list_ex (\<lambda>i. adopters ! ((start + i) mod n) = nodeID) [0..<min reclaimAdoptersPerEntry n])"

definition volumeReclaimsMaxLimit :: int where "volumeReclaimsMaxLimit = 1024"

definition volumeReclaimAdoptAfter :: int where "volumeReclaimAdoptAfter = 15 * 60 * 10 ^ 9"

definition zeroReclaim :: VolumeReclaim where
  "zeroReclaim = \<lparr>vrTenant = [], vrVolumeID = [], vrName = [], vrBackend = [], vrSource = [],
                  vrSandboxID = [], vrNodeID = [], vrRecordedUnixNano = 0\<rparr>"

definition reclaimAt :: "volumeState \<Rightarrow> string \<Rightarrow> VolumeReclaim" where
  "reclaimAt f key = (case volumeReclaims f key of None \<Rightarrow> zeroReclaim | Some r \<Rightarrow> r)"

definition sortVolumeReclaims :: "VolumeReclaim list \<Rightarrow> VolumeReclaim list" where
  "sortVolumeReclaims out = sort_key (\<lambda>r. (vrRecordedUnixNano r, reclaimKey r)) out"

definition adoptFrom ::
  "string \<Rightarrow> (string \<Rightarrow> bool \<times> bool) \<Rightarrow> string list \<Rightarrow> int \<Rightarrow> volumeState \<Rightarrow> string \<Rightarrow> VolumeReclaim list" where
  "adoptFrom nodeID state adopters now f node =
     (let (alive, drains) = state node
      in if alive \<and> drains then []
         else map (reclaimAt f)
                (filter (\<lambda>key. (alive \<or> now - vrRecordedUnixNano (reclaimAt f key) \<ge> volumeReclaimAdoptAfter) \<and>
                               mayAdoptVolumeReclaim key nodeID adopters)
                  (sorted_list_of_set (idxGet (volumeReclaimsByNode f) node))))"

definition volumeReclaimsFor ::
  "string \<Rightarrow> (string \<Rightarrow> bool \<times> bool) option \<Rightarrow> string list \<Rightarrow> int \<Rightarrow> int \<Rightarrow> volumeState \<Rightarrow> VolumeReclaim list" where
  "volumeReclaimsFor nodeID state adopters now limit f =
     (let nodeID = trimSpace nodeID;
          limit = (if limit \<le> 0 \<or> limit > volumeReclaimsMaxLimit then volumeReclaimsMaxLimit else limit);
          own = map (reclaimAt f) (sorted_list_of_set (idxGet (volumeReclaimsByNode f) nodeID));
          adopt = (case state of
                     None \<Rightarrow> []
                   | Some st \<Rightarrow> concat (map (\<lambda>node. if node = nodeID then []
                                                    else adoptFrom nodeID st adopters now f node)
                                       (sorted_list_of_set (dom (volumeReclaimsByNode f)))))
      in take (nat limit) (sortVolumeReclaims own @ sortVolumeReclaims adopt))"

section \<open>The volume commands\<close>

definition tenantVolumeCount :: "string \<Rightarrow> volumeState \<Rightarrow> nat" where
  "tenantVolumeCount tenant f = card {k \<in> dom (volumes f). prefix (tenant @ [nul]) k}"

definition applyUpsertVolume ::
  "int \<Rightarrow> Volume option \<Rightarrow> int \<Rightarrow> volumeState \<Rightarrow> fsmError option \<times> volumeState" where
  "applyUpsertVolume now inp maxPerTenant f =
     (case inp of
        None \<Rightarrow> (Some ErrMalformed, f)
      | Some v \<Rightarrow>
          let tenant = trimSpace (vTenant v); name = trimSpace (vName v); i = trimSpace (vID v) in
          if tenant = [] \<or> name = [] \<or> i = [] \<or> trimSpace (vBackend v) = [] then (Some ErrMalformed, f)
          else if volumeNameIndex f (volumeNameKey tenant name) \<noteq> None then (None, f)
          else if maxPerTenant > 0 \<and> int (tenantVolumeCount tenant f) \<ge> maxPerTenant
          then (Some ErrVolumeQuotaExceeded, f)
          else let v = v\<lparr>vTenant := tenant, vName := name, vID := i,
                         vCreatedAt := (if vCreatedAt v = None then unixTime now else vCreatedAt v)\<rparr>
               in (None, f\<lparr>volumes := (volumes f)(volumeKey tenant i \<mapsto> v),
                           volumeNameIndex := (volumeNameIndex f)(volumeNameKey tenant name \<mapsto> i)\<rparr>))"

definition applyDeleteVolume ::
  "string \<Rightarrow> string \<Rightarrow> string \<Rightarrow> string \<Rightarrow> int \<Rightarrow> volumeState \<Rightarrow> fsmError option \<times> volumeState" where
  "applyDeleteVolume tenant0 id0 reclaimNodeID reclaimSource stamp f =
     (let tenant = trimSpace tenant0; i = trimSpace id0; key = volumeKey tenant i in
      if tenant = [] \<or> i = [] then (Some ErrMalformed, f)
      else (case volumes f key of
              None \<Rightarrow> (Some ErrUnknownVolume, f)
            | Some row \<Rightarrow>
                if volumeAttachmentCountLocked tenant i f > 0 then (Some ErrVolumeInUse, f)
                else let f = f\<lparr>volumes := (volumes f)(key := None),
                               volumeNameIndex := (volumeNameIndex f)(volumeNameKey tenant (vName row) := None)\<rparr>
                     in (None, if reclaimNodeID \<noteq> []
                               then recordDeletedVolumeReclaimLocked row reclaimSource reclaimNodeID stamp f
                               else f)))"

text \<open>The validation loop of \<^verbatim>\<open>opPutVolumeAttach\<close>: nothing is stored unless every attachment passes.\<close>

definition cleanAttachment ::
  "int \<Rightarrow> (string \<rightharpoonup> Placement) \<Rightarrow> volumeState \<Rightarrow> VolumeAttachment \<Rightarrow> fsmError + VolumeAttachment" where
  "cleanAttachment now placements f a =
     (let a = a\<lparr>vaTenant := trimSpace (vaTenant a), vaVolumeID := trimSpace (vaVolumeID a),
                vaSandboxID := trimSpace (vaSandboxID a), vaIncarnationID := trimSpace (vaIncarnationID a),
                vaTarget := trimSpace (vaTarget a), vaSource := trimSpace (vaSource a)\<rparr> in
      if vaTenant a = [] \<or> vaVolumeID a = [] \<or> vaSandboxID a = [] \<or> vaIncarnationID a = [] \<or>
         vaTarget a = [] \<or> vaSource a = [] then Inl ErrMalformed
      else if volumes f (volumeKey (vaTenant a) (vaVolumeID a)) = None then Inl ErrUnknownVolume
      else (case placements (vaSandboxID a) of
              None \<Rightarrow> Inl ErrIncarnationConflict
            | Some p \<Rightarrow>
                if IsDeleting p then Inl ErrReservationConflict
                else (case requireCurrentPlacementIncarnation p (vaIncarnationID a) of
                        Some e \<Rightarrow> Inl e
                      | None \<Rightarrow> Inr (a\<lparr>vaCreatedAt := (if vaCreatedAt a = None then unixTime now
                                                       else vaCreatedAt a)\<rparr>))))"

fun cleanAttachments ::
  "int \<Rightarrow> (string \<rightharpoonup> Placement) \<Rightarrow> volumeState \<Rightarrow> VolumeAttachment list
     \<Rightarrow> fsmError + VolumeAttachment list" where
  "cleanAttachments now placements f [] = Inr []"
| "cleanAttachments now placements f (a # as) =
     (case cleanAttachment now placements f a of
        Inl e \<Rightarrow> Inl e
      | Inr c \<Rightarrow> (case cleanAttachments now placements f as of
                   Inl e \<Rightarrow> Inl e | Inr cs \<Rightarrow> Inr (c # cs)))"

definition applyPutVolumeAttach ::
  "int \<Rightarrow> (string \<rightharpoonup> Placement) \<Rightarrow> VolumeAttachment list \<Rightarrow> volumeState \<Rightarrow> fsmError option \<times> volumeState" where
  "applyPutVolumeAttach now placements as f =
     (case cleanAttachments now placements f as of
        Inl e \<Rightarrow> (Some e, f)
      | Inr cleaned \<Rightarrow> (None, fold putVolumeAttachmentLocked cleaned f))"

definition applyDeleteVolumeAttach ::
  "(string \<rightharpoonup> Placement) \<Rightarrow> string \<Rightarrow> string \<Rightarrow> volumeState \<Rightarrow> fsmError option \<times> volumeState" where
  "applyDeleteVolumeAttach placements sandboxID0 expectedIncarnationID f =
     (let sandboxID = trimSpace sandboxID0 in
      if sandboxID = [] then (Some ErrMalformed, f)
      else (case placements sandboxID of
              None \<Rightarrow> (Some ErrIncarnationConflict, f)
            | Some existing \<Rightarrow>
                (case requireCurrentPlacementIncarnation existing expectedIncarnationID of
                   Some e \<Rightarrow> (Some e, f)
                 | None \<Rightarrow> (None, releaseVolumeAttachmentsForIncarnationLocked sandboxID expectedIncarnationID f))))"

section \<open>Reads\<close>

definition VolumeByID :: "string \<Rightarrow> string \<Rightarrow> volumeState \<Rightarrow> fsmError + Volume" where
  "VolumeByID tenant i f =
     (case volumes f (volumeKey (trimSpace tenant) (trimSpace i)) of
        None \<Rightarrow> Inl ErrUnknownVolume | Some v \<Rightarrow> Inr v)"

definition VolumeByName :: "string \<Rightarrow> string \<Rightarrow> volumeState \<Rightarrow> fsmError + Volume" where
  "VolumeByName tenant0 name f =
     (let tenant = trimSpace tenant0 in
      case volumeNameIndex f (volumeNameKey tenant (trimSpace name)) of
        None \<Rightarrow> Inl ErrUnknownVolume
      | Some i \<Rightarrow> (case volumes f (volumeKey tenant i) of
                     None \<Rightarrow> Inl ErrUnknownVolume | Some v \<Rightarrow> Inr v))"

definition VolumeAttachmentsForSandbox :: "string \<Rightarrow> volumeState \<Rightarrow> VolumeAttachment list" where
  "VolumeAttachmentsForSandbox sandboxID f =
     sort_key (\<lambda>a. (vaVolumeID a, vaTarget a))
       (List.map_filter (volumeAttachments f)
         (sorted_list_of_set (idxGet (volumeAttachmentsBySandbox f) (trimSpace sandboxID))))"

definition LiveVolumeExistsForSource :: "string \<Rightarrow> volumeState \<Rightarrow> bool" where
  "LiveVolumeExistsForSource source f \<longleftrightarrow> (\<exists>v \<in> ran (volumes f). vSource v = trimSpace source)"

section \<open>Steps and the invariant\<close>

datatype volumeOp =
    UpsertVolume int "Volume option" int
  | DeleteVolume string string string string int
  | PutVolumeAttach int "string \<rightharpoonup> Placement" "VolumeAttachment list"
  | DeleteVolumeAttach "string \<rightharpoonup> Placement" string string
  | ReleaseSandbox string
  | RecordVolumeReclaims string string int
  | AckVolumeReclaim "VolumeReclaim option"
  | ClaimVolumeReclaim "VolumeReclaim option" string

fun volumeStep :: "volumeOp \<Rightarrow> volumeState \<Rightarrow> volumeState" where
  "volumeStep (UpsertVolume now inp maxPerTenant) f = snd (applyUpsertVolume now inp maxPerTenant f)"
| "volumeStep (DeleteVolume tenant i node source stamp) f = snd (applyDeleteVolume tenant i node source stamp f)"
| "volumeStep (PutVolumeAttach now placements as) f = snd (applyPutVolumeAttach now placements as f)"
| "volumeStep (DeleteVolumeAttach placements i inc) f = snd (applyDeleteVolumeAttach placements i inc f)"
| "volumeStep (ReleaseSandbox i) f = releaseVolumeAttachmentsForSandboxLocked i f"
| "volumeStep (RecordVolumeReclaims i node stamp) f = recordVolumeReclaimsLocked i node stamp f"
| "volumeStep (AckVolumeReclaim inp) f = snd (applyAckVolumeReclaimLocked inp f)"
| "volumeStep (ClaimVolumeReclaim inp node) f = snd (applyClaimVolumeReclaimLocked inp node f)"

definition attachmentVolume :: "VolumeAttachment \<Rightarrow> string" where
  "attachmentVolume a = volumeKey (vaTenant a) (vaVolumeID a)"

definition byVolumeKeys :: "string \<Rightarrow> VolumeAttachment \<Rightarrow> string set" where
  "byVolumeKeys key a = {attachmentVolume a}"

definition bySandboxKeys :: "string \<Rightarrow> VolumeAttachment \<Rightarrow> string set" where
  "bySandboxKeys key a = {vaSandboxID a}"

definition byNodeKeys :: "string \<Rightarrow> VolumeReclaim \<Rightarrow> string set" where
  "byNodeKeys key r = {vrNodeID r}"

definition attachmentClean :: "VolumeAttachment \<Rightarrow> bool" where
  "attachmentClean a \<longleftrightarrow>
     list_all (\<lambda>s. s \<noteq> [] \<and> trimSpace s = s)
       [vaTenant a, vaVolumeID a, vaSandboxID a, vaIncarnationID a, vaTarget a, vaSource a]"

definition attachmentsOk :: "volumeState \<Rightarrow> bool" where
  "attachmentsOk f \<longleftrightarrow>
     (\<forall>key a. volumeAttachments f key = Some a \<longrightarrow>
        key = attachmentKey a \<and> attachmentClean a \<and> volumes f (attachmentVolume a) \<noteq> None)"

definition volumeRowsOk :: "volumeState \<Rightarrow> bool" where
  "volumeRowsOk f \<longleftrightarrow>
     (\<forall>key v. volumes f key = Some v \<longrightarrow>
        key = volumeKey (vTenant v) (vID v) \<and> trimSpace (vTenant v) = vTenant v \<and>
        trimSpace (vID v) = vID v \<and> trimSpace (vName v) = vName v \<and>
        vTenant v \<noteq> [] \<and> vID v \<noteq> [] \<and> vName v \<noteq> [])"

definition volumesWf :: "volumeState \<Rightarrow> bool" where
  "volumesWf f \<longleftrightarrow>
     idxExact byVolumeKeys (volumeAttachments f) (volumeAttachmentsByVolume f) \<and>
     idxExact bySandboxKeys (volumeAttachments f) (volumeAttachmentsBySandbox f) \<and>
     idxExact byNodeKeys (volumeReclaims f) (volumeReclaimsByNode f) \<and>
     (\<forall>key r. volumeReclaims f key = Some r \<longrightarrow> key = reclaimKey r) \<and>
     attachmentsOk f \<and> volumeRowsOk f \<and> finite (dom (volumes f)) \<and>
     finite (dom (volumeAttachments f)) \<and> finite (dom (volumeReclaims f))"

section \<open>Lemmas\<close>

interpretation attachVolume: set_index byVolumeKeys
  "\<lambda>key a. idxAdd (attachmentVolume a) key" "\<lambda>key a. idxDel (attachmentVolume a) key"
  by unfold_locales (auto simp: byVolumeKeys_def split: if_splits)

interpretation attachSandbox: set_index bySandboxKeys
  "\<lambda>key a. idxAdd (vaSandboxID a) key" "\<lambda>key a. idxDel (vaSandboxID a) key"
  by unfold_locales (auto simp: bySandboxKeys_def split: if_splits)

interpretation reclaimNode: set_index byNodeKeys
  "\<lambda>key r. idxAdd (vrNodeID r) key" "\<lambda>key r. idxDel (vrNodeID r) key"
  by unfold_locales (auto simp: byNodeKeys_def split: if_splits)

lemma volumesWf_new: "volumesWf newVolumeState"
  by (simp add: volumesWf_def newVolumeState_def attachmentsOk_def volumeRowsOk_def)

lemma release_key_wf:
  assumes "volumesWf f" "volumeAttachments f key = Some a"
  shows "volumesWf (releaseVolumeAttachmentKeyLocked key a f)"
  using assms attachVolume.remove[of "volumeAttachments f" "volumeAttachmentsByVolume f" key a]
    attachSandbox.remove[of "volumeAttachments f" "volumeAttachmentsBySandbox f" key a]
  by (simp add: volumesWf_def releaseVolumeAttachmentKeyLocked_def attachmentVolume_def attachmentsOk_def
      volumeRowsOk_def)

lemma put_attachment_wf:
  assumes "volumesWf f" "attachmentClean a" "volumes f (attachmentVolume a) \<noteq> None"
  shows "volumesWf (putVolumeAttachmentLocked a f)"
proof -
  define g where "g = (case volumeAttachments f (attachmentKey a) of
    None \<Rightarrow> f | Some existing \<Rightarrow> releaseVolumeAttachmentKeyLocked (attachmentKey a) existing f)"
  have g: "volumesWf g" "volumeAttachments g (attachmentKey a) = None" "volumes g = volumes f"
    using assms(1) release_key_wf unfolding g_def
    by (auto simp: releaseVolumeAttachmentKeyLocked_def split: option.splits)
  have "putVolumeAttachmentLocked a f =
    g\<lparr>volumeAttachments := (volumeAttachments g)(attachmentKey a \<mapsto> a),
      volumeAttachmentsByVolume := idxAdd (attachmentVolume a) (attachmentKey a) (volumeAttachmentsByVolume g),
      volumeAttachmentsBySandbox := idxAdd (vaSandboxID a) (attachmentKey a) (volumeAttachmentsBySandbox g)\<rparr>"
    by (simp add: putVolumeAttachmentLocked_def g_def Let_def attachmentVolume_def)
  then show ?thesis
    using g assms attachVolume.insert[of "volumeAttachments g" "volumeAttachmentsByVolume g" "attachmentKey a" a]
      attachSandbox.insert[of "volumeAttachments g" "volumeAttachmentsBySandbox g" "attachmentKey a" a]
    by (simp add: volumesWf_def attachmentsOk_def volumeRowsOk_def)
qed

lemma put_attachment_volumes [simp]: "volumes (putVolumeAttachmentLocked a f) = volumes f"
  by (auto simp: putVolumeAttachmentLocked_def releaseVolumeAttachmentKeyLocked_def Let_def split: option.splits)

lemma release_attachments_wf:
  assumes "volumesWf f"
  shows "volumesWf (releaseVolumeAttachmentsLocked i inc f)"
proof -
  have "volumesWf (fold (releaseAttachmentOf inc) ks f)" for ks
    using assms
    by (induction ks arbitrary: f) (auto simp: releaseAttachmentOf_def intro: release_key_wf split: option.splits)
  with assms show ?thesis by (simp add: releaseVolumeAttachmentsLocked_def Let_def)
qed

lemma delete_reclaim_wf:
  assumes "volumesWf f"
  shows "volumesWf (deleteVolumeReclaimLocked key f)"
  using assms reclaimNode.remove[of "volumeReclaims f" "volumeReclaimsByNode f" key]
  by (auto simp: deleteVolumeReclaimLocked_def volumesWf_def attachmentsOk_def volumeRowsOk_def split: option.splits)

lemma delete_reclaim_None: "volumeReclaims (deleteVolumeReclaimLocked key f) key = None"
  by (auto simp: deleteVolumeReclaimLocked_def split: option.splits)

lemma put_reclaim_wf:
  assumes "volumesWf f"
  shows "volumesWf (putVolumeReclaimLocked r f)"
  using delete_reclaim_wf[OF assms, of "reclaimKey r"] delete_reclaim_None[of "reclaimKey r" f]
    reclaimNode.insert[of "volumeReclaims (deleteVolumeReclaimLocked (reclaimKey r) f)"
      "volumeReclaimsByNode (deleteVolumeReclaimLocked (reclaimKey r) f)" "reclaimKey r" r]
  by (simp add: putVolumeReclaimLocked_def Let_def volumesWf_def attachmentsOk_def volumeRowsOk_def)

lemma put_reclaim_at:
  "volumeReclaims (putVolumeReclaimLocked r f) = (volumeReclaims f)(reclaimKey r \<mapsto> r)"
  by (auto simp: putVolumeReclaimLocked_def deleteVolumeReclaimLocked_def Let_def fun_eq_iff split: option.splits)

lemma put_reclaim_frame [simp]:
  "volumes (putVolumeReclaimLocked r f) = volumes f"
  "volumeNameIndex (putVolumeReclaimLocked r f) = volumeNameIndex f"
  "volumeAttachments (putVolumeReclaimLocked r f) = volumeAttachments f"
  "volumeAttachmentsByVolume (putVolumeReclaimLocked r f) = volumeAttachmentsByVolume f"
  "volumeAttachmentsBySandbox (putVolumeReclaimLocked r f) = volumeAttachmentsBySandbox f"
  by (auto simp: putVolumeReclaimLocked_def deleteVolumeReclaimLocked_def Let_def split: option.splits)

lemma record_reclaim_wf: "volumesWf f \<Longrightarrow> volumesWf (recordReclaimOf i node stamp key f)"
  by (simp add: recordReclaimOf_def Let_def put_reclaim_wf split: option.splits)

lemma cleanAttachment_ok:
  assumes "cleanAttachment now placements f a = Inr c"
  shows "attachmentClean c" "volumes f (attachmentVolume c) \<noteq> None"
  using assms by (auto simp: cleanAttachment_def attachmentClean_def Let_def attachmentVolume_def split: if_splits option.splits)

lemma cleanAttachments_ok:
  "cleanAttachments now placements f as = Inr cs \<Longrightarrow> c \<in> set cs \<Longrightarrow>
     \<exists>a \<in> set as. cleanAttachment now placements f a = Inr c"
  by (induction as arbitrary: cs) (auto split: sum.splits)

lemma put_attachments_wf:
  assumes "volumesWf f"
  shows "volumesWf (snd (applyPutVolumeAttach now placements as f))"
proof (cases "cleanAttachments now placements f as")
  case (Inr cs)
  have "volumesWf (fold putVolumeAttachmentLocked ds g)"
    if "set ds \<subseteq> set cs" "volumesWf g" "volumes g = volumes f" for ds g
    using that
  proof (induction ds arbitrary: g)
    case (Cons d ds)
    then obtain a where "cleanAttachment now placements f a = Inr d"
      using cleanAttachments_ok[OF Inr, of d] by auto
    note ok = cleanAttachment_ok[OF this]
    show ?case using Cons put_attachment_wf[of g d] ok by simp
  qed simp
  with Inr assms show ?thesis by (simp add: applyPutVolumeAttach_def)
qed (use assms in \<open>simp add: applyPutVolumeAttach_def\<close>)

lemma upsert_wf: "volumesWf f \<Longrightarrow> volumesWf (snd (applyUpsertVolume now inp n f))"
  by (auto simp: applyUpsertVolume_def Let_def volumesWf_def attachmentsOk_def volumeRowsOk_def split: option.splits)

lemma attachmentCount_zero:
  assumes "volumesWf f" "volumeAttachmentCountLocked tenant i f = 0" "tenant \<noteq> []" "i \<noteq> []"
    "volumeAttachments f key = Some a"
  shows "attachmentVolume a \<noteq> volumeKey tenant i"
proof
  assume "attachmentVolume a = volumeKey tenant i"
  moreover have ex: "idxExact byVolumeKeys (volumeAttachments f) (volumeAttachmentsByVolume f)"
    using assms(1) by (simp add: volumesWf_def)
  ultimately have "key \<in> idxGet (volumeAttachmentsByVolume f) (volumeKey tenant i)"
    using assms(5) by (simp add: idxExact_member byVolumeKeys_def)
  with idxExact_finite[OF ex] assms(2-4) show False by (auto simp: volumeAttachmentCountLocked_def)
qed

lemma delete_volume_wf:
  assumes "volumesWf f"
  shows "volumesWf (snd (applyDeleteVolume tenant i node source stamp f))"
proof -
  let ?t = "trimSpace tenant" and ?i = "trimSpace i"
  have "volumesWf (f\<lparr>volumes := (volumes f)(volumeKey ?t ?i := None), volumeNameIndex := m\<rparr>)"
    if "?t \<noteq> []" "?i \<noteq> []" "volumeAttachmentCountLocked ?t ?i f = 0" for m
    using assms attachmentCount_zero[OF assms that(3,1,2)]
    by (auto simp: volumesWf_def attachmentsOk_def volumeRowsOk_def)
  then show ?thesis
    using assms
    by (auto simp: applyDeleteVolume_def Let_def recordDeletedVolumeReclaimLocked_def put_reclaim_wf
        split: option.splits)
qed

lemma volumeStep_wf: "volumesWf f \<Longrightarrow> volumesWf (volumeStep c f)"
proof (cases c)
  case (RecordVolumeReclaims i node stamp)
  have "volumesWf f \<Longrightarrow> volumesWf (fold (recordReclaimOf i' node' stamp) ks f)" for i' node' ks
    by (induction ks arbitrary: f) (simp_all add: record_reclaim_wf)
  then show "volumesWf f \<Longrightarrow> ?thesis"
    using RecordVolumeReclaims by (simp add: recordVolumeReclaimsLocked_def Let_def)
qed (auto simp: upsert_wf delete_volume_wf put_attachments_wf applyDeleteVolumeAttach_def Let_def
       releaseVolumeAttachmentsForIncarnationLocked_def releaseVolumeAttachmentsForSandboxLocked_def
       release_attachments_wf applyAckVolumeReclaimLocked_def applyClaimVolumeReclaimLocked_def
       put_reclaim_wf delete_reclaim_wf split: option.splits sum.splits)

lemma volumeRun_wf: "volumesWf f \<Longrightarrow> volumesWf (fold volumeStep ops f)"
  by (induction ops arbitrary: f) (simp_all add: volumeStep_wf)

text \<open>Recording reclaims touches only the ledger, and an entry it made is not changed by the turns
  for the other attachments of the sandbox.\<close>

definition reclaimOf :: "Volume \<Rightarrow> string \<Rightarrow> string \<Rightarrow> int \<Rightarrow> VolumeReclaim" where
  "reclaimOf vol sandboxID nodeID stamp =
     \<lparr>vrTenant = vTenant vol, vrVolumeID = vID vol, vrName = vName vol, vrBackend = vBackend vol,
      vrSource = vSource vol, vrSandboxID = sandboxID, vrNodeID = nodeID, vrRecordedUnixNano = stamp\<rparr>"

definition sameAttachments :: "volumeState \<Rightarrow> volumeState \<Rightarrow> bool" where
  "sameAttachments f g \<longleftrightarrow>
     volumes g = volumes f \<and> volumeAttachments g = volumeAttachments f \<and>
     volumeAttachmentsByVolume g = volumeAttachmentsByVolume f \<and>
     volumeAttachmentsBySandbox g = volumeAttachmentsBySandbox f"

lemma recordReclaimOf_same: "sameAttachments f (recordReclaimOf i node stamp key f)"
  by (simp add: sameAttachments_def recordReclaimOf_def Let_def split: option.splits)

lemma recordReclaimOf_keeps:
  assumes "volumeRowsOk f" "volumes f vKey = Some vol"
    "volumeReclaims f vKey = Some (reclaimOf vol i node stamp)"
  shows "volumeReclaims (recordReclaimOf i node stamp key f) vKey = Some (reclaimOf vol i node stamp)"
  using assms unfolding recordReclaimOf_def volumeRowsOk_def
  by (auto simp: put_reclaim_at reclaimKey_def reclaimOf_def Let_def split: option.splits)

lemma recordReclaimOf_makes:
  assumes "volumeRowsOk f" "volumes f vKey = Some vol" "vDeleteWithSandbox vol" "trimSpace (vSource vol) \<noteq> []"
    "\<not> volumeHeldByAnotherSandboxLocked vKey i f" "volumeAttachments f key = Some a" "attachmentVolume a = vKey"
  shows "volumeReclaims (recordReclaimOf i node stamp key f) vKey = Some (reclaimOf vol i node stamp)"
  using assms unfolding recordReclaimOf_def volumeRowsOk_def
  by (auto simp: put_reclaim_at reclaimKey_def reclaimOf_def Let_def attachmentVolume_def)

lemma recordReclaims_fold:
  assumes "volumeRowsOk f" "volumes f vKey = Some vol" "vDeleteWithSandbox vol" "trimSpace (vSource vol) \<noteq> []"
    "\<not> volumeHeldByAnotherSandboxLocked vKey i f"
    "(\<exists>key \<in> set ks. \<exists>a. volumeAttachments f key = Some a \<and> attachmentVolume a = vKey) \<or>
     volumeReclaims f vKey = Some (reclaimOf vol i node stamp)"
  shows "volumeReclaims (fold (recordReclaimOf i node stamp) ks f) vKey = Some (reclaimOf vol i node stamp)"
  using assms
proof (induction ks arbitrary: f)
  case Nil
  then show ?case by simp
next
  case (Cons key ks)
  let ?g = "recordReclaimOf i node stamp key f"
  have same: "volumes ?g = volumes f" "volumeAttachments ?g = volumeAttachments f"
      "volumeAttachmentsByVolume ?g = volumeAttachmentsByVolume f"
    using recordReclaimOf_same[of f i node stamp key] by (simp_all add: sameAttachments_def)
  have ok: "volumeRowsOk ?g" "\<not> volumeHeldByAnotherSandboxLocked vKey i ?g"
    using Cons.prems(1,5) same by (simp_all add: volumeRowsOk_def volumeHeldByAnotherSandboxLocked_def)
  have "(\<exists>key \<in> set ks. \<exists>a. volumeAttachments ?g key = Some a \<and> attachmentVolume a = vKey) \<or>
        volumeReclaims ?g vKey = Some (reclaimOf vol i node stamp)"
    using Cons.prems(6) recordReclaimOf_makes[OF Cons.prems(1-5), of key]
      recordReclaimOf_keeps[OF Cons.prems(1,2), of i node stamp key] same by auto
  with Cons.IH[of ?g] ok same Cons.prems(2-4) show ?case by simp
qed

lemma recordReclaims_same: "sameAttachments f (recordVolumeReclaimsLocked i node stamp f)"
proof -
  have "sameAttachments f (fold (recordReclaimOf i' node' stamp) ks f)" for i' node' ks
  proof (induction ks arbitrary: f)
    case (Cons key ks)
    show ?case using recordReclaimOf_same[of f i' node' stamp key] Cons[of "recordReclaimOf i' node' stamp key f"]
      by (simp add: sameAttachments_def)
  qed (simp add: sameAttachments_def)
  then show ?thesis by (simp add: recordVolumeReclaimsLocked_def Let_def sameAttachments_def)
qed

lemma release_reclaims: "volumeReclaims (releaseVolumeAttachmentsLocked i inc f) = volumeReclaims f"
proof -
  have "volumeReclaims (fold (releaseAttachmentOf inc) ks f) = volumeReclaims f" for ks
    by (induction ks arbitrary: f)
       (auto simp: releaseAttachmentOf_def releaseVolumeAttachmentKeyLocked_def split: option.splits)
  then show ?thesis by (simp add: releaseVolumeAttachmentsLocked_def Let_def)
qed

lemma release_sandbox_attachments:
  assumes "volumesWf f" "trimSpace i = i" "i \<noteq> []"
  shows "volumeAttachments (releaseVolumeAttachmentsForSandboxLocked i f) key =
         (case volumeAttachments f key of None \<Rightarrow> None | Some a \<Rightarrow> if vaSandboxID a = i then None else Some a)"
proof -
  let ?ks = "idxGet (volumeAttachmentsBySandbox f) i"
  have ex: "idxExact bySandboxKeys (volumeAttachments f) (volumeAttachmentsBySandbox f)"
    using assms(1) by (simp add: volumesWf_def)
  have fold_at: "volumeAttachments (fold (releaseAttachmentOf []) ks f) key =
        (if key \<in> set ks then None else volumeAttachments f key)" for ks f
    by (induction ks arbitrary: f)
       (auto simp: releaseAttachmentOf_def releaseVolumeAttachmentKeyLocked_def split: option.splits)
  have "key \<in> ?ks \<longleftrightarrow> (\<exists>a. volumeAttachments f key = Some a \<and> vaSandboxID a = i)"
    using idxExact_member[OF ex, of key i] by (auto simp: bySandboxKeys_def)
  then show ?thesis
    using assms(2,3) idxExact_finite[OF ex, of i]
    by (auto simp: releaseVolumeAttachmentsForSandboxLocked_def releaseVolumeAttachmentsLocked_def fold_at
        split: option.splits)
qed

section \<open>Names\<close>

text \<open>A run in which every create brings a new volume id, and no tenant holds the separator byte: ids
  and tenants as the service mints them.\<close>

fun cleanStep :: "volumeOp \<Rightarrow> volumeState \<Rightarrow> bool" where
  "cleanStep (UpsertVolume now (Some v) n) f \<longleftrightarrow>
     nul \<notin> set (vTenant v) \<and> volumes f (volumeKey (trimSpace (vTenant v)) (trimSpace (vID v))) = None"
| "cleanStep (DeleteVolume tenant i node source stamp) f \<longleftrightarrow> nul \<notin> set tenant"
| "cleanStep c f \<longleftrightarrow> True"

fun cleanRun :: "volumeOp list \<Rightarrow> volumeState \<Rightarrow> bool" where
  "cleanRun [] f \<longleftrightarrow> True"
| "cleanRun (c # cs) f \<longleftrightarrow> cleanStep c f \<and> cleanRun cs (volumeStep c f)"

definition namesOk :: "volumeState \<Rightarrow> bool" where
  "namesOk f \<longleftrightarrow>
     (\<forall>key v. volumes f key = Some v \<longrightarrow>
        nul \<notin> set (vTenant v) \<and> volumeNameIndex f (volumeNameKey (vTenant v) (vName v)) = Some (vID v)) \<and>
     (\<forall>nk i. volumeNameIndex f nk = Some i \<longrightarrow>
        (\<exists>v. volumes f (volumeKey (vTenant v) i) = Some v \<and> vID v = i \<and> nk = volumeNameKey (vTenant v) (vName v)))"

lemma nul_key_inject:
  assumes "nul \<notin> set t" "nul \<notin> set t'" "t @ nul # i = t' @ nul # i'"
  shows "t = t' \<and> i = i'"
proof -
  have "Some (t, i) = Some (t', i')"
    unfolding cutAt_append[OF assms(1), of i, symmetric] cutAt_append[OF assms(2), of i', symmetric]
    by (simp only: assms(3))
  then show ?thesis by simp
qed

lemma volumeKey_inject:
  "nul \<notin> set t \<Longrightarrow> nul \<notin> set t' \<Longrightarrow> volumeKey t i = volumeKey t' i' \<longleftrightarrow> t = t' \<and> i = i'"
  "nul \<notin> set t \<Longrightarrow> nul \<notin> set t' \<Longrightarrow> volumeNameKey t i = volumeNameKey t' i' \<longleftrightarrow> t = t' \<and> i = i'"
  unfolding volumeKey_def volumeNameKey_def using nul_key_inject[of t t' i i'] by blast+

lemma namesOk_row:
  "namesOk f \<Longrightarrow> volumes f key = Some v \<Longrightarrow>
     nul \<notin> set (vTenant v) \<and> volumeNameIndex f (volumeNameKey (vTenant v) (vName v)) = Some (vID v)"
  unfolding namesOk_def by blast

lemma namesOk_name:
  "namesOk f \<Longrightarrow> volumeNameIndex f nk = Some i \<Longrightarrow>
     \<exists>v. volumes f (volumeKey (vTenant v) i) = Some v \<and> vID v = i \<and> nk = volumeNameKey (vTenant v) (vName v)"
  unfolding namesOk_def by blast

lemma namesOk_insert:
  assumes ok: "namesOk f" and fresh: "volumes f (volumeKey (vTenant w) (vID w)) = None"
    and name: "volumeNameIndex f (volumeNameKey (vTenant w) (vName w)) = None" and nul: "nul \<notin> set (vTenant w)"
  shows "namesOk (f\<lparr>volumes := (volumes f)(volumeKey (vTenant w) (vID w) \<mapsto> w),
                     volumeNameIndex := (volumeNameIndex f)(volumeNameKey (vTenant w) (vName w) \<mapsto> vID w)\<rparr>)"
    (is "namesOk ?g")
  unfolding namesOk_def
proof (intro conjI allI impI)
  fix key v assume "volumes ?g key = Some v"
  then consider "v = w" | "volumes f key = Some v" by (cases "key = volumeKey (vTenant w) (vID w)") simp_all
  then have "nul \<notin> set (vTenant v) \<and> volumeNameIndex ?g (volumeNameKey (vTenant v) (vName v)) = Some (vID v)"
  proof cases
    case 2
    note old = namesOk_row[OF ok 2]
    have "volumeNameKey (vTenant v) (vName v) \<noteq> volumeNameKey (vTenant w) (vName w)"
    proof
      assume "volumeNameKey (vTenant v) (vName v) = volumeNameKey (vTenant w) (vName w)"
      with old name show False by simp
    qed
    with old show ?thesis by simp
  qed (use nul in simp)
  then show "nul \<notin> set (vTenant v)" "volumeNameIndex ?g (volumeNameKey (vTenant v) (vName v)) = Some (vID v)"
    by blast+
next
  fix nk i assume nk: "volumeNameIndex ?g nk = Some i"
  show "\<exists>v. volumes ?g (volumeKey (vTenant v) i) = Some v \<and> vID v = i \<and> nk = volumeNameKey (vTenant v) (vName v)"
  proof (cases "nk = volumeNameKey (vTenant w) (vName w)")
    case True
    with nk show ?thesis by (intro exI[of _ w]) simp
  next
    case False
    with nk have "volumeNameIndex f nk = Some i" by simp
    from namesOk_name[OF ok this] obtain v where v: "volumes f (volumeKey (vTenant v) i) = Some v" "vID v = i"
        "nk = volumeNameKey (vTenant v) (vName v)" by blast
    have "volumeKey (vTenant v) i \<noteq> volumeKey (vTenant w) (vID w)"
    proof
      assume "volumeKey (vTenant v) i = volumeKey (vTenant w) (vID w)"
      with fresh v(1) show False by simp
    qed
    with v show ?thesis by (intro exI[of _ v]) simp
  qed
qed

lemma namesOk_upsert:
  assumes "namesOk f" "cleanStep (UpsertVolume now inp n) f"
  shows "namesOk (snd (applyUpsertVolume now inp n f))"
proof (cases inp)
  case (Some v)
  from assms Some have nul: "nul \<notin> set (trimSpace (vTenant v))"
    using trimSpace_subset[of "vTenant v"] by auto
  define w where "w = v\<lparr>vTenant := trimSpace (vTenant v), vName := trimSpace (vName v),
    vID := trimSpace (vID v), vCreatedAt := (if vCreatedAt v = None then unixTime now else vCreatedAt v)\<rparr>"
  have w: "vTenant w = trimSpace (vTenant v)" "vName w = trimSpace (vName v)" "vID w = trimSpace (vID v)"
    by (simp_all add: w_def)
  have ins: "volumeNameIndex f (volumeNameKey (vTenant w) (vName w)) = None \<Longrightarrow>
    namesOk (f\<lparr>volumes := (volumes f)(volumeKey (vTenant w) (vID w) \<mapsto> w),
               volumeNameIndex := (volumeNameIndex f)(volumeNameKey (vTenant w) (vName w) \<mapsto> vID w)\<rparr>)"
    using namesOk_insert[OF assms(1), of w] assms(2) nul Some by (simp add: w)
  show ?thesis
    using ins assms(1) Some
    by (cases "vCreatedAt v") (simp_all add: applyUpsertVolume_def Let_def w_def)
qed (use assms in \<open>simp add: applyUpsertVolume_def\<close>)

lemma namesOk_remove:
  assumes ok: "namesOk f" and wf: "volumesWf f" and row: "volumes f key = Some row"
  shows "namesOk (f\<lparr>volumes := (volumes f)(key := None),
                     volumeNameIndex := (volumeNameIndex f)(volumeNameKey (vTenant row) (vName row) := None)\<rparr>)"
    (is "namesOk ?g")
proof -
  have keys: "key = volumeKey (vTenant v) (vID v)" if "volumes f key = Some v" for key v
    using wf that by (simp add: volumesWf_def volumeRowsOk_def)
  note idx = namesOk_row[OF ok]
  have same: "k = key" if k: "volumes f k = Some v"
      and eq: "volumeNameKey (vTenant v) (vName v) = volumeNameKey (vTenant row) (vName row)" for k v
  proof -
    have "vTenant v = vTenant row" "vName v = vName row"
      using eq idx[OF k] idx[OF row] volumeKey_inject(2) by blast+
    with idx[OF k] idx[OF row] keys[OF k] keys[OF row] show ?thesis by simp
  qed
  show ?thesis
    unfolding namesOk_def
  proof (intro conjI allI impI)
    fix k v assume "volumes ?g k = Some v"
    then have k: "k \<noteq> key" "volumes f k = Some v" by (auto split: if_splits)
    show "nul \<notin> set (vTenant v)" using idx[OF k(2)] by simp
    show "volumeNameIndex ?g (volumeNameKey (vTenant v) (vName v)) = Some (vID v)"
      using same[OF k(2)] k(1) idx[OF k(2)] by auto
  next
    fix nk i assume nk: "volumeNameIndex ?g nk = Some i"
    then have "nk \<noteq> volumeNameKey (vTenant row) (vName row)" "volumeNameIndex f nk = Some i"
      by (auto split: if_splits)
    with namesOk_name[OF ok] obtain v where v: "volumes f (volumeKey (vTenant v) i) = Some v" "vID v = i"
        "nk = volumeNameKey (vTenant v) (vName v)" by blast
    have "volumeKey (vTenant v) i \<noteq> key"
      using v row \<open>nk \<noteq> _\<close> by auto
    with v show "\<exists>v. volumes ?g (volumeKey (vTenant v) i) = Some v \<and> vID v = i \<and>
        nk = volumeNameKey (vTenant v) (vName v)" by (intro exI[of _ v]) simp
  qed
qed

lemma namesOk_frame:
  "volumes g = volumes f \<Longrightarrow> volumeNameIndex g = volumeNameIndex f \<Longrightarrow> namesOk f \<Longrightarrow> namesOk g"
  by (simp add: namesOk_def)

lemma release_attachments_names:
  "volumes (releaseVolumeAttachmentsLocked i inc f) = volumes f"
  "volumeNameIndex (releaseVolumeAttachmentsLocked i inc f) = volumeNameIndex f"
proof -
  have "volumes (fold (releaseAttachmentOf inc) ks f) = volumes f \<and>
        volumeNameIndex (fold (releaseAttachmentOf inc) ks f) = volumeNameIndex f" for ks
    by (induction ks arbitrary: f)
       (auto simp: releaseAttachmentOf_def releaseVolumeAttachmentKeyLocked_def split: option.splits)
  then show "volumes (releaseVolumeAttachmentsLocked i inc f) = volumes f"
    "volumeNameIndex (releaseVolumeAttachmentsLocked i inc f) = volumeNameIndex f"
    by (simp_all add: releaseVolumeAttachmentsLocked_def Let_def)
qed

lemma put_attachments_names:
  "volumes (snd (applyPutVolumeAttach now placements as f)) = volumes f"
  "volumeNameIndex (snd (applyPutVolumeAttach now placements as f)) = volumeNameIndex f"
proof -
  have "volumes (fold putVolumeAttachmentLocked cs f) = volumes f \<and>
        volumeNameIndex (fold putVolumeAttachmentLocked cs f) = volumeNameIndex f" for cs
    by (induction cs arbitrary: f)
       (auto simp: putVolumeAttachmentLocked_def releaseVolumeAttachmentKeyLocked_def Let_def split: option.splits)
  then show "volumes (snd (applyPutVolumeAttach now placements as f)) = volumes f"
    "volumeNameIndex (snd (applyPutVolumeAttach now placements as f)) = volumeNameIndex f"
    by (simp_all add: applyPutVolumeAttach_def split: sum.splits)
qed

lemma recordReclaims_names:
  "volumes (recordVolumeReclaimsLocked i node stamp f) = volumes f"
  "volumeNameIndex (recordVolumeReclaimsLocked i node stamp f) = volumeNameIndex f"
proof -
  have "volumeNameIndex (fold (recordReclaimOf i' node' stamp) ks f) = volumeNameIndex f" for i' node' ks
    by (induction ks arbitrary: f) (simp_all add: recordReclaimOf_def Let_def split: option.splits)
  then show "volumeNameIndex (recordVolumeReclaimsLocked i node stamp f) = volumeNameIndex f"
    by (simp add: recordVolumeReclaimsLocked_def Let_def)
  show "volumes (recordVolumeReclaimsLocked i node stamp f) = volumes f"
    using recordReclaims_same[of f i node stamp] by (simp add: sameAttachments_def)
qed

lemma delete_reclaim_names [simp]:
  "volumes (deleteVolumeReclaimLocked key f) = volumes f"
  "volumeNameIndex (deleteVolumeReclaimLocked key f) = volumeNameIndex f"
  by (simp_all add: deleteVolumeReclaimLocked_def split: option.splits)

lemma namesOk_put_reclaim [simp]: "namesOk (putVolumeReclaimLocked r f) = namesOk f"
  by (simp add: namesOk_def)

lemma namesOk_delete:
  assumes "namesOk f" "volumesWf f" "nul \<notin> set tenant"
  shows "namesOk (snd (applyDeleteVolume tenant i node source stamp f))"
proof (cases "volumes f (volumeKey (trimSpace tenant) (trimSpace i))")
  case None
  with assms show ?thesis by (simp add: applyDeleteVolume_def Let_def)
next
  case (Some row)
  let ?t = "trimSpace tenant" and ?i = "trimSpace i"
  have "volumeKey ?t ?i = volumeKey (vTenant row) (vID row)"
    using assms(2) Some by (simp add: volumesWf_def volumeRowsOk_def)
  moreover have "nul \<notin> set ?t" using assms(3) trimSpace_subset[of tenant] by auto
  ultimately have "vTenant row = ?t" using namesOk_row[OF assms(1) Some] volumeKey_inject(1) by metis
  with namesOk_remove[OF assms(1,2) Some]
  have "namesOk (f\<lparr>volumes := (volumes f)(volumeKey ?t ?i := None),
                   volumeNameIndex := (volumeNameIndex f)(volumeNameKey ?t (vName row) := None)\<rparr>)" by simp
  then show ?thesis
    using assms(1) Some by (auto simp: applyDeleteVolume_def Let_def recordDeletedVolumeReclaimLocked_def)
qed

lemma volumeStep_names:
  assumes "namesOk f" "volumesWf f" "cleanStep c f"
  shows "namesOk (volumeStep c f)"
proof (cases c)
  case (PutVolumeAttach now placements as)
  then show ?thesis using assms(1) namesOk_frame[OF put_attachments_names] by simp
next
  case (DeleteVolumeAttach placements i inc)
  then show ?thesis
    using assms(1) namesOk_frame[OF release_attachments_names]
    by (auto simp: applyDeleteVolumeAttach_def releaseVolumeAttachmentsForIncarnationLocked_def Let_def
        split: option.splits)
next
  case (ReleaseSandbox i)
  then show ?thesis
    using assms(1) namesOk_frame[OF release_attachments_names]
    by (simp add: releaseVolumeAttachmentsForSandboxLocked_def)
next
  case (RecordVolumeReclaims i node stamp)
  then show ?thesis using assms(1) namesOk_frame[OF recordReclaims_names] by simp
next
  case (AckVolumeReclaim inp)
  then show ?thesis
    using assms(1) namesOk_frame[OF delete_reclaim_names]
    by (auto simp: applyAckVolumeReclaimLocked_def split: option.splits sum.splits)
qed (use assms in \<open>auto simp: namesOk_upsert namesOk_delete applyClaimVolumeReclaimLocked_def Let_def
      split: option.splits sum.splits\<close>)

lemma volumeRun_names:
  "namesOk f \<Longrightarrow> volumesWf f \<Longrightarrow> cleanRun ops f \<Longrightarrow> namesOk (fold volumeStep ops f)"
  by (induction ops arbitrary: f) (simp_all add: volumeStep_names volumeStep_wf)

section \<open>Properties\<close>

text \<open>Whatever volume commands run, in whatever order and against whatever placements, no
  attachment ever points at a volume that does not exist, and it is listed in the by-volume index
  that the delete guard counts and in the by-sandbox index that a destroy walks.\<close>

theorem volume_attachments_never_dangle:
  assumes "f = fold volumeStep ops newVolumeState" "volumeAttachments f key = Some a"
  shows "volumes f (volumeKey (vaTenant a) (vaVolumeID a)) \<noteq> None \<and>
         key \<in> idxGet (volumeAttachmentsByVolume f) (volumeKey (vaTenant a) (vaVolumeID a)) \<and>
         key \<in> idxGet (volumeAttachmentsBySandbox f) (vaSandboxID a)"
proof -
  have wf: "volumesWf f" using volumeRun_wf[OF volumesWf_new, of ops] assms(1) by simp
  then have "idxExact byVolumeKeys (volumeAttachments f) (volumeAttachmentsByVolume f)"
      "idxExact bySandboxKeys (volumeAttachments f) (volumeAttachmentsBySandbox f)"
    by (simp_all add: volumesWf_def)
  with wf assms(2) show ?thesis
    by (auto simp: idxExact_member byVolumeKeys_def bySandboxKeys_def attachmentVolume_def volumesWf_def attachmentsOk_def)
qed

definition exampleVolume :: Volume where
  "exampleVolume = \<lparr>vID = ''v1'', vTenant = ''t'', vName = ''data'', vBackend = ''s3'', vSource = ''b/p'',
                    vCreatedAt = None, vDeleteWithSandbox = True\<rparr>"

definition exampleAttachment :: VolumeAttachment where
  "exampleAttachment = \<lparr>vaTenant = ''t'', vaVolumeID = ''v1'', vaSandboxID = ''sb'', vaIncarnationID = ''i1'',
                        vaTarget = ''x'', vaSource = ''b/p'', vaCreatedAt = None\<rparr>"

definition exampleVolumeRun :: "volumeOp list" where
  "exampleVolumeRun = [UpsertVolume 1 (Some exampleVolume) 0,
     PutVolumeAttach 2 [''sb'' \<mapsto> zeroPlacement\<lparr>pIncarnationID := ''i1''\<rparr>] [exampleAttachment],
     DeleteVolume ''t'' ''v1'' [] [] 3]"

lemmas volume_example_simps = exampleVolumeRun_def exampleVolume_def exampleAttachment_def newVolumeState_def
  applyUpsertVolume_def applyPutVolumeAttach_def cleanAttachment_def applyDeleteVolume_def
  putVolumeAttachmentLocked_def attachmentKey_def volumeAttachmentCountLocked_def
  requireCurrentPlacementIncarnation_def IsDeleting_def zeroPlacement_def unixTime_def visibleChar_def Let_def
  volumeNameKey_def volumeKey_def nul_def

lemma example_attachment:
  "volumeAttachments (fold volumeStep exampleVolumeRun newVolumeState)
     (volumeAttachmentKey ''t'' ''v1'' ''sb'' ''x'') = Some (exampleAttachment\<lparr>vaCreatedAt := Some 2000000000\<rparr>)"
  by (simp add: volume_example_simps)

text \<open>Along every run whose creates bring new ids, a name finds its volume and only its
  volume: a lookup by tenant and name answers with a row exactly when that row exists under that
  tenant and name, so two live volumes of a tenant never share a name.\<close>

theorem volume_lookup_by_name_exact:
  assumes "cleanRun ops newVolumeState" "f = fold volumeStep ops newVolumeState"
    "trimSpace tenant = tenant" "trimSpace name = name" "nul \<notin> set tenant"
  shows "VolumeByName tenant name f = Inr v \<longleftrightarrow>
         volumes f (volumeKey (vTenant v) (vID v)) = Some v \<and> vTenant v = tenant \<and> vName v = name"
proof -
  have new: "namesOk newVolumeState" by (simp add: namesOk_def newVolumeState_def)
  note names = volumeRun_names[OF new volumesWf_new assms(1), folded assms(2)]
  have rows: "key = volumeKey (vTenant w) (vID w)" if "volumes f key = Some w" for key w
    using volumeRun_wf[OF volumesWf_new, of ops] that assms(2) by (simp add: volumesWf_def volumeRowsOk_def)
  show ?thesis
  proof
    assume "VolumeByName tenant name f = Inr v"
    then obtain i where i: "volumeNameIndex f (volumeNameKey tenant name) = Some i"
        "volumes f (volumeKey tenant i) = Some v"
      using assms(3,4) by (auto simp: VolumeByName_def Let_def split: option.splits)
    from namesOk_name[OF names i(1)] obtain w where w: "volumes f (volumeKey (vTenant w) i) = Some w"
        "volumeNameKey tenant name = volumeNameKey (vTenant w) (vName w)" by blast
    have "tenant = vTenant w \<and> name = vName w"
      using w(2) assms(5) namesOk_row[OF names w(1)] volumeKey_inject(2) by blast
    with w i rows[OF i(2)] show "volumes f (volumeKey (vTenant v) (vID v)) = Some v \<and> vTenant v = tenant \<and> vName v = name"
      by simp
  next
    assume row: "volumes f (volumeKey (vTenant v) (vID v)) = Some v \<and> vTenant v = tenant \<and> vName v = name"
    with namesOk_row[OF names, of _ v] show "VolumeByName tenant name f = Inr v"
      using assms(3,4) by (auto simp: VolumeByName_def)
  qed
qed

theorem volume_lookup_by_name_exact_witness:
  "VolumeByName ''t'' ''data'' (fold volumeStep exampleVolumeRun newVolumeState) =
     Inr (exampleVolume\<lparr>vCreatedAt := Some 1000000000\<rparr>)"
proof -
  have clean: "cleanRun exampleVolumeRun newVolumeState"
    by (simp add: exampleVolumeRun_def exampleVolume_def nul_def newVolumeState_def)
  have row: "volumes (fold volumeStep exampleVolumeRun newVolumeState) (volumeKey ''t'' ''v1'') =
      Some (exampleVolume\<lparr>vCreatedAt := Some 1000000000\<rparr>)"
    by (simp add: volume_example_simps)
  show ?thesis
    using volume_lookup_by_name_exact[OF clean refl, of "''t''" "''data''" "exampleVolume\<lparr>vCreatedAt := Some 1000000000\<rparr>"] row
    by (simp add: exampleVolume_def visibleChar_def nul_def)
qed

text \<open>Property C33.  A destroy never drops the last trace of a volume that goes with its sandbox: when
  it records what its attachments leave owed and then releases them, every such volume it held is
  either still attached to another sandbox or has a ledger entry naming its bytes and the draining
  node, while the destroyed sandbox holds no attachment any more.\<close>

theorem last_release_is_recorded:
  assumes "volumesWf f" "trimSpace sandboxID = sandboxID" "sandboxID \<noteq> []" "trimSpace nodeID \<noteq> []"
    "volumeAttachments f key = Some a" "vaSandboxID a = sandboxID"
    "volumes f (volumeKey (vaTenant a) (vaVolumeID a)) = Some vol" "vDeleteWithSandbox vol"
    "trimSpace (vSource vol) \<noteq> []"
    "g = releaseVolumeAttachmentsForSandboxLocked sandboxID (recordVolumeReclaimsLocked sandboxID nodeID stamp f)"
  shows "volumeAttachments g key = None \<and>
         ((\<exists>key' b. volumeAttachments g key' = Some b \<and> attachmentVolume b = attachmentVolume a \<and>
                   vaSandboxID b \<noteq> sandboxID) \<or>
          (\<exists>r. volumeReclaims g (attachmentVolume a) = Some r \<and> vrSource r = vSource vol \<and>
               vrNodeID r = trimSpace nodeID \<and> vrRecordedUnixNano r = stamp))"
proof -
  let ?h = "recordVolumeReclaimsLocked sandboxID nodeID stamp f" and ?k = "attachmentVolume a"
  have wf: "volumesWf ?h" using volumeStep_wf[OF assms(1), of "RecordVolumeReclaims sandboxID nodeID stamp"] by simp
  have same: "volumeAttachments ?h = volumeAttachments f"
    using recordReclaims_same[of f sandboxID nodeID stamp] by (simp add: sameAttachments_def)
  have att: "volumeAttachments g k = (case volumeAttachments f k of None \<Rightarrow> None
      | Some b \<Rightarrow> if vaSandboxID b = sandboxID then None else Some b)" for k
    using release_sandbox_attachments[OF wf assms(2,3)] same assms(10) by simp
  have ex: "idxExact bySandboxKeys (volumeAttachments f) (volumeAttachmentsBySandbox f)"
      "idxExact byVolumeKeys (volumeAttachments f) (volumeAttachmentsByVolume f)" and rows: "volumeRowsOk f"
    using assms(1) by (simp_all add: volumesWf_def)
  show ?thesis
  proof (cases "volumeHeldByAnotherSandboxLocked ?k sandboxID f")
    case True
    then obtain k b where b: "volumeAttachments f k = Some b" "vaSandboxID b \<noteq> sandboxID" "attachmentVolume b = ?k"
      unfolding volumeHeldByAnotherSandboxLocked_def
      by (auto simp: idxExact_member[OF ex(2)] byVolumeKeys_def split: option.splits)
    then have "volumeAttachments g k = Some b" "volumeAttachments g key = None"
      using att[of k] att[of key] assms(5,6) by simp_all
    with b show ?thesis by blast
  next
    case False
    have "key \<in> set (sorted_list_of_set (idxGet (volumeAttachmentsBySandbox f) sandboxID))"
      using idxExact_finite[OF ex(1)] assms(5,6) by (auto simp: idxExact_member[OF ex(1)] bySandboxKeys_def)
    then have "volumeReclaims ?h ?k = Some (reclaimOf vol sandboxID (trimSpace nodeID) stamp)"
      using recordReclaims_fold[OF rows _ assms(8,9) False, where node = "trimSpace nodeID" and stamp = stamp
          and ks = "sorted_list_of_set (idxGet (volumeAttachmentsBySandbox f) sandboxID)"] assms(2-5,7)
      by (auto simp: recordVolumeReclaimsLocked_def attachmentVolume_def)
    with att assms(5,6,10) show ?thesis
      by (auto simp: releaseVolumeAttachmentsForSandboxLocked_def release_reclaims reclaimOf_def)
  qed
qed

theorem last_release_is_recorded_witness:
  "let f = fold volumeStep exampleVolumeRun newVolumeState;
       g = releaseVolumeAttachmentsForSandboxLocked ''sb'' (recordVolumeReclaimsLocked ''sb'' ''n1'' 9 f)
   in volumeAttachments f (volumeAttachmentKey ''t'' ''v1'' ''sb'' ''x'') \<noteq> None \<and>
      volumeAttachments g (volumeAttachmentKey ''t'' ''v1'' ''sb'' ''x'') = None"
proof -
  let ?f = "fold volumeStep exampleVolumeRun newVolumeState"
  have row: "volumes ?f (volumeKey ''t'' ''v1'') = Some (exampleVolume\<lparr>vCreatedAt := Some 1000000000\<rparr>)"
    by (simp add: volume_example_simps)
  note rule = last_release_is_recorded[OF volumeRun_wf[OF volumesWf_new] _ _ _ example_attachment, of "''sb''" "''n1''"]
  have "volumeAttachments (releaseVolumeAttachmentsForSandboxLocked ''sb'' (recordVolumeReclaimsLocked ''sb'' ''n1'' 9 ?f))
      (volumeAttachmentKey ''t'' ''v1'' ''sb'' ''x'') = None"
    using rule[OF _ _ _ _ _ _ _ refl, of "exampleVolume\<lparr>vCreatedAt := Some 1000000000\<rparr>" 9] row
    by (simp add: exampleAttachment_def exampleVolume_def visibleChar_def)
  then show ?thesis using example_attachment by simp
qed

text \<open>Property C34.  Taking over a ledger entry is a compare-and-set: of two nodes that read the same
  entry only one takes it, the other is told it moved and changes nothing, and a late ack of an
  older recording never drops the entry.\<close>

theorem reclaim_claim_is_exclusive:
  assumes "volumesWf f" "applyClaimVolumeReclaimLocked (Some r) n1 f = (None, g)"
    "trimSpace n1 \<noteq> trimSpace (vrNodeID r)"
  shows "(\<exists>e. applyClaimVolumeReclaimLocked (Some r) n2 g = (Some e, g)) \<and>
         (\<exists>cur. volumeReclaims g (volumeKey (trimSpace (vrTenant r)) (trimSpace (vrVolumeID r))) = Some cur \<and>
                vrNodeID cur = trimSpace n1 \<and> vrRecordedUnixNano cur = vrRecordedUnixNano r) \<and>
         (stamp \<noteq> vrRecordedUnixNano r \<longrightarrow>
            snd (applyAckVolumeReclaimLocked (Some (r\<lparr>vrRecordedUnixNano := stamp\<rparr>)) g) = g)"
proof -
  define q where "q = r\<lparr>vrTenant := trimSpace (vrTenant r), vrVolumeID := trimSpace (vrVolumeID r),
                        vrNodeID := trimSpace (vrNodeID r)\<rparr>"
  have cmd: "volumeReclaimFromCommand (Some r) = Inr q" "trimSpace n1 \<noteq> []"
    using assms(2) unfolding applyClaimVolumeReclaimLocked_def volumeReclaimFromCommand_def q_def
    by (auto simp: Let_def split: if_splits)
  obtain cur where cur: "volumeReclaims f (reclaimKey q) = Some cur" "vrRecordedUnixNano cur = vrRecordedUnixNano r"
      "vrNodeID cur = trimSpace (vrNodeID r)" "g = putVolumeReclaimLocked (cur\<lparr>vrNodeID := trimSpace n1\<rparr>) f"
    using assms(2) cmd by (auto simp: applyClaimVolumeReclaimLocked_def Let_def q_def split: option.splits if_splits)
  have "reclaimKey cur = reclaimKey q" using assms(1) cur(1) by (auto simp: volumesWf_def)
  then have g: "volumeReclaims g (reclaimKey q) = Some (cur\<lparr>vrNodeID := trimSpace n1\<rparr>)"
    using cur(4) by (simp add: put_reclaim_at reclaimKey_def)
  have "volumeReclaimFromCommand (Some (r\<lparr>vrRecordedUnixNano := stamp\<rparr>)) = Inr (q\<lparr>vrRecordedUnixNano := stamp\<rparr>)"
    using cmd(1) by (auto simp: volumeReclaimFromCommand_def q_def Let_def split: if_splits)
  moreover have "reclaimKey q = volumeKey (trimSpace (vrTenant r)) (trimSpace (vrVolumeID r))"
      "reclaimKey (q\<lparr>vrRecordedUnixNano := stamp\<rparr>) = reclaimKey q" "vrNodeID q = trimSpace (vrNodeID r)"
    by (simp_all add: reclaimKey_def q_def)
  ultimately show ?thesis
    using g cur cmd assms(3)
    by (simp add: applyClaimVolumeReclaimLocked_def applyAckVolumeReclaimLocked_def Let_def)
qed

definition exampleReclaim :: VolumeReclaim where
  "exampleReclaim = zeroReclaim\<lparr>vrTenant := ''t'', vrVolumeID := ''v'', vrNodeID := ''a'', vrRecordedUnixNano := 7\<rparr>"

theorem reclaim_claim_is_exclusive_witness:
  "let f = putVolumeReclaimLocked exampleReclaim newVolumeState;
       g = snd (applyClaimVolumeReclaimLocked (Some exampleReclaim) ''b'' f)
   in \<exists>e. applyClaimVolumeReclaimLocked (Some exampleReclaim) ''c'' g = (Some e, g)"
proof -
  let ?f = "putVolumeReclaimLocked exampleReclaim newVolumeState"
  have "reclaimKey exampleReclaim = volumeKey ''t'' ''v''" by (simp add: exampleReclaim_def reclaimKey_def)
  then have "applyClaimVolumeReclaimLocked (Some exampleReclaim) ''b'' ?f =
      (None, snd (applyClaimVolumeReclaimLocked (Some exampleReclaim) ''b'' ?f))"
    by (simp add: applyClaimVolumeReclaimLocked_def volumeReclaimFromCommand_def put_reclaim_at
        exampleReclaim_def zeroReclaim_def visibleChar_def reclaimKey_def Let_def)
  from reclaim_claim_is_exclusive[OF put_reclaim_wf[OF volumesWf_new] this, of "''c''"]
  show ?thesis by (simp add: exampleReclaim_def zeroReclaim_def visibleChar_def Let_def)
qed

text \<open>A left-behind ledger entry always has someone who may take it over, and never more
  than \<^verbatim>\<open>reclaimAdoptersPerEntry\<close> nodes, whatever the size of the fleet.\<close>

theorem reclaim_adopters_bounded:
  assumes "adopters \<noteq> []"
  shows "1 \<le> card {n. mayAdoptVolumeReclaim key n adopters} \<and>
         card {n. mayAdoptVolumeReclaim key n adopters} \<le> reclaimAdoptersPerEntry \<and>
         {n. mayAdoptVolumeReclaim key n adopters} \<subseteq> set adopters"
proof -
  let ?n = "length adopters" and ?is = "[0..<min reclaimAdoptersPerEntry (length adopters)]"
  let ?at = "\<lambda>i. adopters ! ((unat (fnv64a key) mod ?n + i) mod ?n)"
  have eq: "{n. mayAdoptVolumeReclaim key n adopters} = ?at ` set ?is"
    using assms unfolding mayAdoptVolumeReclaim_def Let_def list_ex_iff by auto
  have "card (?at ` set ?is) \<le> card (set ?is)" by (rule card_image_le) simp
  moreover have "card (set ?is) \<le> reclaimAdoptersPerEntry" by simp
  moreover have "set ?is \<noteq> {}" using assms by (simp add: reclaimAdoptersPerEntry_def)
  then have "?at ` set ?is \<noteq> {}" by (simp only: image_is_empty not_False_eq_True)
  then have "1 \<le> card (?at ` set ?is)" by (simp add: Suc_le_eq card_gt_0_iff)
  moreover have "?at i \<in> set adopters" for i using assms by (intro nth_mem) simp
  ultimately show ?thesis unfolding eq by auto
qed

end
