(* ===== verification/API_Tokens.thy ===== *)
theory API_Tokens
  imports Placement_Types "HOL-Library.Product_Lexorder"
begin

text \<open>
  Scoped API tokens (\<^verbatim>\<open>internal/cluster/fsm_tokens.go\<close>, \<^verbatim>\<open>internal/identity/token.go\<close>,
  \<^verbatim>\<open>internal/identity/mirror.go\<close>): the replicated token table with its per-team name index, the
  time-windowed change ring the worker mirrors poll, and the merge a mirror applies to an answer.
  Times are nanoseconds with \<^term>\<open>None\<close> for the zero \<^verbatim>\<open>time.Time\<close>; \<^verbatim>\<open>version\<close> is the Raft index of the
  command being applied.
\<close>

section \<open>Records and their validation\<close>

record TokenRecord =
  tkID :: string
  tkName :: string
  tkRole :: string
  tkOwnerRef :: string
  tkCreatedBy :: string
  tkCreatedAt :: "int option"
  tkExpiresAt :: "int option"
  tkSecretHash :: string
  tkVersion :: nat

definition isAlnum :: "char \<Rightarrow> bool" where
  "isAlnum c = (let n = (of_char c :: nat) in
     48 \<le> n \<and> n \<le> 57 \<or> 65 \<le> n \<and> n \<le> 90 \<or> 97 \<le> n \<and> n \<le> 122)"

definition isBase62 :: "string \<Rightarrow> bool" where "isBase62 s = list_all isAlnum s"

definition APITokenIDPrefix :: string where "APITokenIDPrefix = ''tok_''"

definition ValidAPITokenID :: "string \<Rightarrow> bool" where
  "ValidAPITokenID i =
     (case cutPrefix i APITokenIDPrefix of None \<Rightarrow> False | Some rest \<Rightarrow> length rest = 12 \<and> isBase62 rest)"

definition ValidTokenName :: "string \<Rightarrow> bool" where
  "ValidTokenName name =
     (name \<noteq> [] \<and> length name \<le> 64 \<and> list_all (\<lambda>c. isAlnum c \<or> c \<in> {CHR ''.'', CHR ''_'', CHR ''-''}) name)"

definition ValidTeamName :: "string \<Rightarrow> bool" where
  "ValidTeamName team =
     (team \<noteq> [] \<and> length team \<le> 63 \<and>
      list_all (\<lambda>c. let n = (of_char c :: nat) in 97 \<le> n \<and> n \<le> 122 \<or> 48 \<le> n \<and> n \<le> 57 \<or> c = CHR ''-'') team)"

definition roleValid :: "string \<Rightarrow> bool" where
  "roleValid r = (r \<in> {''viewer'', ''runner'', ''auditor'', ''admin''})"

definition RequiresFleet :: "string \<Rightarrow> bool" where
  "RequiresFleet r = (r \<in> {''auditor'', ''admin''})"

definition FleetTeam :: string where "FleetTeam = ''*''"

definition tokenTeam :: "TokenRecord \<Rightarrow> string" where
  "tokenTeam r =
     (if tkOwnerRef r = [] then FleetTeam
      else (case cutPrefix (tkOwnerRef r) TeamOwnerPrefix of None \<Rightarrow> tkOwnerRef r | Some team \<Rightarrow> team))"

definition tokenValidate :: "TokenRecord \<Rightarrow> bool" where
  "tokenValidate r \<longleftrightarrow>
     ValidAPITokenID (tkID r) \<and> ValidTokenName (tkName r) \<and> roleValid (tkRole r) \<and>
     length (tkSecretHash r) = 32 \<and> tkExpiresAt r \<noteq> None \<and>
     (tkOwnerRef r = [] \<or> prefix TeamOwnerPrefix (tkOwnerRef r)) \<and>
     (tokenTeam r = FleetTeam \<or> ValidTeamName (tokenTeam r)) \<and>
     (RequiresFleet (tkRole r) \<longrightarrow> tokenTeam r = FleetTeam)"

definition NameKey :: "TokenRecord \<Rightarrow> string" where
  "NameKey r = tkOwnerRef r @ CHR 0x00 # tkName r"

definition timeBefore :: "int option \<Rightarrow> int option \<Rightarrow> bool" where
  "timeBefore a b =
     (case b of None \<Rightarrow> False | Some y \<Rightarrow> (case a of None \<Rightarrow> True | Some x \<Rightarrow> x < y))"

definition tokenExpired :: "int option \<Rightarrow> TokenRecord \<Rightarrow> bool" where
  "tokenExpired now r = (\<not> timeBefore now (tkExpiresAt r))"

section \<open>The change ring\<close>

record apiTokenRingEntry =
  reIndex :: nat
  reId :: string
  reDeleted :: bool
  reStamp :: int

record apiTokenRing =
  trEntries :: "apiTokenRingEntry list"
  trHead :: nat
  trFloor :: nat
  trLast :: nat
  trWindow :: int
  trMin :: nat
  trMax :: nat

definition newAPITokenRing :: apiTokenRing where
  "newAPITokenRing = \<lparr>trEntries = [], trHead = 0, trFloor = 0, trLast = 0,
                      trWindow = 10 * 60 * 10 ^ 9, trMin = 1024, trMax = 65536\<rparr>"

definition ringLen :: "apiTokenRing \<Rightarrow> nat" where
  "ringLen r = length (trEntries r) - trHead r"

definition ringAt :: "nat \<Rightarrow> apiTokenRing \<Rightarrow> apiTokenRingEntry" where
  "ringAt i r = trEntries r ! (trHead r + i)"

definition ringReset :: "nat \<Rightarrow> apiTokenRing \<Rightarrow> apiTokenRing" where
  "ringReset floorIndex r =
     r\<lparr>trEntries := [], trHead := 0, trFloor := floorIndex, trLast := floorIndex\<rparr>"

definition zeroRingEntry :: apiTokenRingEntry where
  "zeroRingEntry = \<lparr>reIndex = 0, reId = [], reDeleted = False, reStamp = 0\<rparr>"

definition ringEvict :: "apiTokenRing \<Rightarrow> apiTokenRing" where
  "ringEvict r =
     (let oldest = trEntries r ! trHead r
      in r\<lparr>trEntries := (trEntries r)[trHead r := zeroRingEntry], trHead := trHead r + 1,
           trFloor := (if reIndex oldest > trFloor r then reIndex oldest else trFloor r)\<rparr>)"

lemma ringLen_evict: "ringLen (ringEvict r) = ringLen r - 1"
  by (simp add: ringLen_def ringEvict_def Let_def)

function evictOver :: "apiTokenRing \<Rightarrow> apiTokenRing" where
  "evictOver r = (if ringLen r > trMax r then evictOver (ringEvict r) else r)"
  by pat_completeness auto
termination by (relation "measure ringLen") (auto simp: ringLen_evict)

function evictOld :: "int \<Rightarrow> apiTokenRing \<Rightarrow> apiTokenRing" where
  "evictOld cutoff r =
     (if ringLen r > trMin r \<and> \<not> (reStamp (ringAt 0 r) \<le> 0 \<or> reStamp (ringAt 0 r) \<ge> cutoff)
      then evictOld cutoff (ringEvict r) else r)"
  by pat_completeness auto
termination by (relation "measure (\<lambda>(cutoff, r). ringLen r)") (auto simp: ringLen_evict)

declare evictOver.simps [simp del] evictOld.simps [simp del]

definition ringCompact :: "apiTokenRing \<Rightarrow> apiTokenRing" where
  "ringCompact r =
     (if trHead r > trMin r \<and> trHead r * 2 > length (trEntries r)
      then r\<lparr>trEntries := drop (trHead r) (trEntries r), trHead := 0\<rparr> else r)"

definition ringRecord :: "nat \<Rightarrow> string \<Rightarrow> bool \<Rightarrow> int \<Rightarrow> apiTokenRing \<Rightarrow> apiTokenRing" where
  "ringRecord index i deleted stamp r =
     (let r = (if index < trLast r then ringReset (if index > 0 then index - 1 else 0) r else r);
          r = r\<lparr>trEntries := trEntries r @ [\<lparr>reIndex = index, reId = i, reDeleted = deleted, reStamp = stamp\<rparr>],
                trLast := index\<rparr>;
          r = evictOver r;
          r = (if stamp > 0 then evictOld (stamp - trWindow r) r else r)
      in ringCompact r)"

text \<open>The entries from position \<^verbatim>\<open>head\<close> on.\<close>

definition ringEntries :: "apiTokenRing \<Rightarrow> apiTokenRingEntry list" where
  "ringEntries r = drop (trHead r) (trEntries r)"

section \<open>The token table\<close>

record apiTokenState =
  tsByID :: "string \<rightharpoonup> TokenRecord"
  tsByName :: "string \<rightharpoonup> string"
  tsRing :: apiTokenRing
  tsLast :: nat

definition newAPITokenState :: apiTokenState where
  "newAPITokenState = \<lparr>tsByID = Map.empty, tsByName = Map.empty, tsRing = newAPITokenRing, tsLast = 0\<rparr>"

definition applyPutAPITokenLocked ::
  "nat \<Rightarrow> TokenRecord option \<Rightarrow> int \<Rightarrow> apiTokenState \<Rightarrow> (fsmError + TokenRecord) \<times> apiTokenState" where
  "applyPutAPITokenLocked version inp stampUnixNano s =
     (case inp of
        None \<Rightarrow> (Inl ErrMalformed, s)
      | Some t \<Rightarrow>
          if \<not> tokenValidate t then (Inl ErrMalformed, s)
          else (case tsByID s (tkID t) of
                  Some old \<Rightarrow>
                    if NameKey old = NameKey t \<and> tkSecretHash old = tkSecretHash t then (Inr old, s)
                    else (Inl ErrAPITokenIDTaken, s)
                | None \<Rightarrow>
                    if tsByName s (NameKey t) \<noteq> None then (Inl ErrAPITokenNameTaken, s)
                    else let rec = t\<lparr>tkVersion := version\<rparr>
                         in (Inr rec,
                             s\<lparr>tsByID := (tsByID s)(tkID rec \<mapsto> rec),
                               tsByName := (tsByName s)(NameKey rec \<mapsto> tkID rec),
                               tsRing := ringRecord version (tkID rec) False stampUnixNano (tsRing s),
                               tsLast := version\<rparr>)))"

definition applyDeleteAPITokenLocked ::
  "nat \<Rightarrow> string \<Rightarrow> int \<Rightarrow> apiTokenState \<Rightarrow> fsmError option \<times> apiTokenState" where
  "applyDeleteAPITokenLocked version tokenID stampUnixNano s =
     (let i = trimSpace tokenID in
      if i = [] then (Some ErrMalformed, s)
      else (case tsByID s i of
              None \<Rightarrow> (None, s)
            | Some rec \<Rightarrow>
                (None, s\<lparr>tsByID := (tsByID s)(i := None),
                         tsByName := (if tsByName s (NameKey rec) = Some i
                                      then (tsByName s)(NameKey rec := None) else tsByName s),
                         tsRing := ringRecord version i True stampUnixNano (tsRing s),
                         tsLast := version\<rparr>)))"

definition tokenLookup :: "string \<Rightarrow> apiTokenState \<Rightarrow> TokenRecord option" where
  "tokenLookup i s = tsByID s i"

definition SortTokenRecords :: "TokenRecord list \<Rightarrow> TokenRecord list" where
  "SortTokenRecords recs = sort_key (\<lambda>r. (tkOwnerRef r, tkName r, tkID r)) recs"

definition tokensAll :: "apiTokenState \<Rightarrow> TokenRecord list" where
  "tokensAll s = SortTokenRecords (sortedRows (tsByID s))"

definition expiredBefore :: "int option \<Rightarrow> apiTokenState \<Rightarrow> string list" where
  "expiredBefore cutoff s =
     sorted_list_of_set {i \<in> dom (tsByID s). timeBefore (tkExpiresAt (the (tsByID s i))) cutoff}"

definition countLive :: "int option \<Rightarrow> apiTokenState \<Rightarrow> string \<Rightarrow> nat" where
  "countLive now s role =
     length (filter (\<lambda>r. \<not> tokenExpired now r \<and> tkRole r = role) (sortedRows (tsByID s)))"

definition apiTokenEncodedSize :: "TokenRecord \<Rightarrow> int" where
  "apiTokenEncodedSize r =
     320 + int (length (tkID r)) + int (length (tkName r)) + int (length (tkOwnerRef r)) +
     int (length (tkCreatedBy r)) + int (length (tkRole r))"

section \<open>Pages and changes\<close>

record TokenPage =
  tpTokens :: "TokenRecord list"
  tpNext :: string
  tpVersion :: nat

fun pageWalk ::
  "(string \<rightharpoonup> TokenRecord) \<Rightarrow> int \<Rightarrow> int \<Rightarrow> TokenRecord list \<Rightarrow> string \<Rightarrow> string list
     \<Rightarrow> TokenRecord list \<times> string" where
  "pageWalk rows limit budget out prev [] = (out, [])"
| "pageWalk rows limit budget out prev (i # is) =
     (let rec = the (rows i); size = apiTokenEncodedSize rec
      in if (limit > 0 \<and> int (length out) \<ge> limit) \<or> (size > budget \<and> out \<noteq> []) then (out, prev)
         else pageWalk rows limit (budget - size) (out @ [rec]) i is)"

definition tokensPage :: "int \<Rightarrow> string \<Rightarrow> int \<Rightarrow> apiTokenState \<Rightarrow> TokenPage" where
  "tokensPage budget after limit s =
     (let ids = sorted_list_of_set {i \<in> dom (tsByID s). i > after};
          (out, nxt) = pageWalk (tsByID s) limit budget [] [] ids
      in \<lparr>tpTokens = out, tpNext = nxt, tpVersion = tsLast s\<rparr>)"

record TokenChange =
  tcIndex :: nat
  tcID :: string
  tcDeleted :: bool
  tcToken :: "TokenRecord option"

record TokenChanges =
  trsChanges :: "TokenChange list"
  trsNext :: nat
  trsMore :: bool
  trsResnapshot :: bool
  trsFloor :: nat

definition tokenChangeOf :: "(string \<rightharpoonup> TokenRecord) \<Rightarrow> apiTokenRingEntry \<Rightarrow> TokenChange" where
  "tokenChangeOf rows e =
     (case rows (reId e) of
        Some rec \<Rightarrow>
          if reDeleted e then \<lparr>tcIndex = reIndex e, tcID = reId e, tcDeleted = True, tcToken = None\<rparr>
          else \<lparr>tcIndex = reIndex e, tcID = reId e, tcDeleted = False, tcToken = Some rec\<rparr>
      | None \<Rightarrow> \<lparr>tcIndex = reIndex e, tcID = reId e, tcDeleted = True, tcToken = None\<rparr>)"

definition tokenChangeSize :: "(string \<rightharpoonup> TokenRecord) \<Rightarrow> apiTokenRingEntry \<Rightarrow> int" where
  "tokenChangeSize rows e =
     (case rows (reId e) of
        Some rec \<Rightarrow> if reDeleted e then 64 + int (length (reId e)) else apiTokenEncodedSize rec
      | None \<Rightarrow> 64 + int (length (reId e)))"

text \<open>The walk: the changes so far and their positions, the last index served, and whether the
  budget cut it short.\<close>

fun changeWalk ::
  "(string \<rightharpoonup> TokenRecord) \<Rightarrow> int \<Rightarrow> (string \<rightharpoonup> nat) \<Rightarrow> TokenChange list \<Rightarrow> nat
     \<Rightarrow> apiTokenRingEntry list \<Rightarrow> TokenChange list \<times> nat \<times> bool" where
  "changeWalk rows budget pos changes nxt [] = (changes, nxt, False)"
| "changeWalk rows budget pos changes nxt (e # es) =
     (let ch = tokenChangeOf rows e; size = tokenChangeSize rows e
      in if size > budget \<and> changes \<noteq> [] then (changes, nxt, True)
         else case pos (reId e) of
                Some k \<Rightarrow> changeWalk rows (budget - size) pos (changes[k := ch]) (reIndex e) es
              | None \<Rightarrow> changeWalk rows (budget - size) (pos(reId e \<mapsto> length changes)) (changes @ [ch])
                          (reIndex e) es)"

definition tokenChangesSince :: "int \<Rightarrow> nat \<Rightarrow> apiTokenState \<Rightarrow> TokenChanges \<times> bool" where
  "tokenChangesSince budget since s =
     (if since \<ge> tsLast s
      then (\<lparr>trsChanges = [], trsNext = since, trsMore = False, trsResnapshot = False,
             trsFloor = trFloor (tsRing s)\<rparr>, False)
      else if since < trFloor (tsRing s)
      then (\<lparr>trsChanges = [], trsNext = tsLast s, trsMore = False, trsResnapshot = True,
             trsFloor = trFloor (tsRing s)\<rparr>, True)
      else let (changes, nxt, more) =
                 changeWalk (tsByID s) budget Map.empty [] since
                   (dropWhile (\<lambda>e. reIndex e \<le> since) (ringEntries (tsRing s)))
           in (\<lparr>trsChanges = changes, trsNext = (if more then nxt else tsLast s), trsMore = more,
                trsResnapshot = False, trsFloor = trFloor (tsRing s)\<rparr>, True))"

definition tokensSnapshot :: "apiTokenState \<Rightarrow> TokenRecord list" where
  "tokensSnapshot s = sort_key tkID (sortedRows (tsByID s))"

definition tokensRestore :: "TokenRecord list \<Rightarrow> nat \<Rightarrow> apiTokenState \<Rightarrow> apiTokenState" where
  "tokensRestore records version s =
     \<lparr>tsByID = rebuildRows (\<lambda>r. tkID r \<noteq> []) tkID records,
      tsByName = fold (\<lambda>r m. if tkID r = [] then m else m(NameKey r \<mapsto> tkID r)) records Map.empty,
      tsRing = ringReset version (tsRing s), tsLast = version\<rparr>"

section \<open>The mirror's merge\<close>

definition mergeTokenChange :: "(string \<rightharpoonup> TokenRecord) \<Rightarrow> TokenChange \<Rightarrow> (string \<rightharpoonup> TokenRecord)" where
  "mergeTokenChange rows ch =
     (if tcDeleted ch
      then (case rows (tcID ch) of
              None \<Rightarrow> rows
            | Some cur \<Rightarrow> if tkVersion cur \<le> tcIndex ch then rows(tcID ch := None) else rows)
      else (case tcToken ch of
              None \<Rightarrow> rows
            | Some t \<Rightarrow>
                (case rows (tcID ch) of
                   None \<Rightarrow> rows(tcID ch \<mapsto> t)
                 | Some cur \<Rightarrow> if tkVersion t \<ge> tkVersion cur then rows(tcID ch \<mapsto> t) else rows)))"

section \<open>Lemmas on the ring\<close>

definition ringOk :: "apiTokenRing \<Rightarrow> bool" where
  "ringOk r \<longleftrightarrow> trHead r \<le> length (trEntries r)"

lemma ringEntries_length: "length (ringEntries r) = ringLen r"
  by (simp add: ringEntries_def ringLen_def)

lemma ringEvict_entries:
  assumes "0 < ringLen r"
  shows "ringEntries r = ringAt 0 r # ringEntries (ringEvict r)" "ringOk (ringEvict r)"
    "trFloor (ringEvict r) = max (trFloor r) (reIndex (ringAt 0 r))"
proof -
  have lt: "trHead r < length (trEntries r)" using assms by (simp add: ringLen_def)
  show "ringEntries r = ringAt 0 r # ringEntries (ringEvict r)"
    using Cons_nth_drop_Suc[OF lt] by (simp add: ringEntries_def ringEvict_def ringAt_def Let_def drop_update_cancel)
  show "ringOk (ringEvict r)" using lt by (simp add: ringOk_def ringEvict_def Let_def)
  show "trFloor (ringEvict r) = max (trFloor r) (reIndex (ringAt 0 r))"
    by (simp add: ringEvict_def ringAt_def Let_def)
qed

text \<open>What the eviction loops keep: they drop a prefix, and the floor covers what they drop.\<close>

definition evictedTo :: "apiTokenRing \<Rightarrow> apiTokenRing \<Rightarrow> bool" where
  "evictedTo r r' \<longleftrightarrow>
     (\<exists>old. ringEntries r = old @ ringEntries r' \<and> (\<forall>e \<in> set old. reIndex e \<le> trFloor r')) \<and>
     trFloor r \<le> trFloor r' \<and> trLast r' = trLast r \<and> trMax r' = trMax r \<and> trMin r' = trMin r \<and>
     trWindow r' = trWindow r \<and> (ringOk r \<longrightarrow> ringOk r')"

lemma evictedTo_refl: "evictedTo r r"
  by (simp add: evictedTo_def)

lemma evictedTo_step:
  assumes "0 < ringLen r" "evictedTo (ringEvict r) r'"
  shows "evictedTo r r'"
proof -
  from assms(2) obtain old where old: "ringEntries (ringEvict r) = old @ ringEntries r'"
      "\<forall>e \<in> set old. reIndex e \<le> trFloor r'" by (auto simp: evictedTo_def)
  have "ringEntries r = (ringAt 0 r # old) @ ringEntries r'"
    using ringEvict_entries(1)[OF assms(1)] old(1) by simp
  moreover have "\<forall>e \<in> set (ringAt 0 r # old). reIndex e \<le> trFloor r'"
    using old(2) assms(2) ringEvict_entries(3)[OF assms(1)] by (simp add: evictedTo_def)
  ultimately show ?thesis
    using assms(2) ringEvict_entries[OF assms(1)] unfolding evictedTo_def
    by (auto simp: ringEvict_def Let_def)
qed

lemma evictOver_evicted: "evictedTo r (evictOver r) \<and> ringLen (evictOver r) \<le> trMax r"
proof (induction r rule: evictOver.induct)
  case (1 r)
  show ?case
  proof (cases "ringLen r > trMax r")
    case True
    then have "trMax (ringEvict r) = trMax r" by (simp add: ringEvict_def Let_def)
    with True 1[OF True] evictedTo_step[of r] show ?thesis by (simp add: evictOver.simps[of r])
  qed (simp add: evictOver.simps[of r] evictedTo_refl)
qed

lemma evictOld_evicted: "evictedTo r (evictOld cutoff r) \<and> ringLen (evictOld cutoff r) \<le> ringLen r"
proof (induction cutoff r rule: evictOld.induct)
  case (1 cutoff r)
  show ?case
  proof (cases "ringLen r > trMin r \<and> \<not> (reStamp (ringAt 0 r) \<le> 0 \<or> reStamp (ringAt 0 r) \<ge> cutoff)")
    case True
    then have "evictOld cutoff r = evictOld cutoff (ringEvict r)" using evictOld.simps[of cutoff r] by simp
    with True 1[OF True] evictedTo_step[of r "evictOld cutoff (ringEvict r)"] show ?thesis
      using le_trans[of _ "ringLen r - 1" "ringLen r"] by (simp add: ringLen_evict)
  next
    case False
    then have "evictOld cutoff r = r" by (subst evictOld.simps) auto
    then show ?thesis by (simp add: evictedTo_refl)
  qed
qed

lemma ringCompact_same:
  "ringEntries (ringCompact r) = ringEntries r" "trFloor (ringCompact r) = trFloor r"
  "trLast (ringCompact r) = trLast r" "trMax (ringCompact r) = trMax r" "ringOk r \<Longrightarrow> ringOk (ringCompact r)"
  by (simp_all add: ringCompact_def ringEntries_def ringOk_def)

lemma evictedTo_trans: "evictedTo r s \<Longrightarrow> evictedTo s t \<Longrightarrow> evictedTo r t"
  unfolding evictedTo_def
proof (elim conjE exE, intro conjI)
  fix old old'
  assume a: "ringEntries r = old @ ringEntries s" "\<forall>e \<in> set old. reIndex e \<le> trFloor s"
    "ringEntries s = old' @ ringEntries t" "\<forall>e \<in> set old'. reIndex e \<le> trFloor t" "trFloor s \<le> trFloor t"
  then show "\<exists>old. ringEntries r = old @ ringEntries t \<and> (\<forall>e \<in> set old. reIndex e \<le> trFloor t)"
    by (intro exI[of _ "old @ old'"]) auto
qed auto

text \<open>A record in index order appends the entry and evicts a covered prefix.\<close>

lemma ringRecord_spec:
  assumes "trLast r \<le> index" "ringOk r"
  shows "\<exists>old. ringEntries r @ [\<lparr>reIndex = index, reId = i, reDeleted = d, reStamp = stamp\<rparr>] =
               old @ ringEntries (ringRecord index i d stamp r) \<and>
             (\<forall>e \<in> set old. reIndex e \<le> trFloor (ringRecord index i d stamp r))"
    "trFloor r \<le> trFloor (ringRecord index i d stamp r)"
    "trLast (ringRecord index i d stamp r) = index" "ringOk (ringRecord index i d stamp r)"
    "ringLen (ringRecord index i d stamp r) \<le> trMax r" "trMax (ringRecord index i d stamp r) = trMax r"
proof -
  let ?e = "\<lparr>reIndex = index, reId = i, reDeleted = d, reStamp = stamp\<rparr>"
  define s where "s = r\<lparr>trEntries := trEntries r @ [?e], trLast := index\<rparr>"
  define t where "t = evictOver s"
  define u where "u = (if stamp > 0 then evictOld (stamp - trWindow t) t else t)"
  have rec: "ringRecord index i d stamp r = ringCompact u"
    using assms(1) by (simp add: ringRecord_def s_def t_def u_def Let_def)
  have s: "ringEntries s = ringEntries r @ [?e]" "ringOk s" "trFloor s = trFloor r" "trLast s = index" "trMax s = trMax r"
    using assms(2) by (simp_all add: s_def ringEntries_def ringOk_def)
  have t: "evictedTo s t" "ringLen t \<le> trMax s" using evictOver_evicted[of s] by (simp_all add: t_def)
  have u: "evictedTo t u" "ringLen u \<le> ringLen t"
    using evictOld_evicted[of t] by (auto simp: u_def evictedTo_refl)
  have su: "evictedTo s u" by (rule evictedTo_trans[OF t(1) u(1)])
  show "\<exists>old. ringEntries r @ [?e] = old @ ringEntries (ringRecord index i d stamp r) \<and>
             (\<forall>e \<in> set old. reIndex e \<le> trFloor (ringRecord index i d stamp r))"
    using su s(1) unfolding rec ringCompact_same evictedTo_def by simp
  show "trFloor r \<le> trFloor (ringRecord index i d stamp r)" "trLast (ringRecord index i d stamp r) = index"
      "ringOk (ringRecord index i d stamp r)" "trMax (ringRecord index i d stamp r) = trMax r"
    using su s unfolding rec ringCompact_same(2,3,4) evictedTo_def by (auto intro: ringCompact_same(5))
  have "ringLen (ringCompact u) = ringLen u"
    using ringEntries_length[of u] ringEntries_length[of "ringCompact u"] by (simp add: ringCompact_same)
  then show "ringLen (ringRecord index i d stamp r) \<le> trMax r"
    using rec t(2) u(2) s(5) by simp
qed

section \<open>Runs and their history\<close>

datatype tokenOp = PutAPIToken "TokenRecord option" int | DeleteAPIToken string int

fun tokenStep :: "nat \<times> tokenOp \<Rightarrow> apiTokenState \<Rightarrow> apiTokenState" where
  "tokenStep (v, PutAPIToken inp stamp) s = snd (applyPutAPITokenLocked v inp stamp s)"
| "tokenStep (v, DeleteAPIToken i stamp) s = snd (applyDeleteAPITokenLocked v i stamp s)"

text \<open>The change a step makes, if it makes one: the row that appears or disappears.\<close>

fun stepEntries :: "nat \<times> tokenOp \<Rightarrow> apiTokenState \<Rightarrow> apiTokenRingEntry list" where
  "stepEntries (v, PutAPIToken None stamp) s = []"
| "stepEntries (v, PutAPIToken (Some t) stamp) s =
     (if tokenValidate t \<and> tsByID s (tkID t) = None \<and> tsByName s (NameKey t) = None
      then [\<lparr>reIndex = v, reId = tkID t, reDeleted = False, reStamp = stamp\<rparr>] else [])"
| "stepEntries (v, DeleteAPIToken i stamp) s =
     (if trimSpace i \<noteq> [] \<and> tsByID s (trimSpace i) \<noteq> None
      then [\<lparr>reIndex = v, reId = trimSpace i, reDeleted = True, reStamp = stamp\<rparr>] else [])"

fun tokenHistory :: "(nat \<times> tokenOp) list \<Rightarrow> apiTokenState \<Rightarrow> apiTokenRingEntry list" where
  "tokenHistory [] s = []"
| "tokenHistory (c # cs) s = stepEntries c s @ tokenHistory cs (tokenStep c s)"

definition lastEntry :: "apiTokenRingEntry list \<Rightarrow> string \<Rightarrow> apiTokenRingEntry option" where
  "lastEntry h i = find (\<lambda>e. reId e = i) (rev h)"

definition feedInv :: "apiTokenRingEntry list \<Rightarrow> apiTokenState \<Rightarrow> bool" where
  "feedInv h s \<longleftrightarrow>
     ringOk (tsRing s) \<and> trLast (tsRing s) \<le> tsLast s \<and>
     (\<exists>old. h = old @ ringEntries (tsRing s) \<and> (\<forall>e \<in> set old. reIndex e \<le> trFloor (tsRing s))) \<and>
     sorted_wrt (<) (map reIndex h) \<and> (\<forall>e \<in> set h. reIndex e \<le> tsLast s) \<and>
     (\<forall>i e. lastEntry h i = Some e \<longrightarrow>
        (if reDeleted e then tsByID s i = None
         else \<exists>rec. tsByID s i = Some rec \<and> tkVersion rec = reIndex e))"

lemma lastEntry_snoc: "lastEntry (h @ [e]) i = (if reId e = i then Some e else lastEntry h i)"
  by (simp add: lastEntry_def)

lemma lastEntry_append:
  "lastEntry (h @ g) i = (case lastEntry g i of Some e \<Rightarrow> Some e | None \<Rightarrow> lastEntry h i)"
  by (induction g rule: rev_induct) (simp_all add: lastEntry_snoc lastEntry_def flip: append_assoc)

lemma lastEntry_Some: "lastEntry h i = Some e \<Longrightarrow> e \<in> set h \<and> reId e = i"
  by (auto simp: lastEntry_def find_Some_iff) (metis nth_mem length_rev set_rev)

lemma lastEntry_None: "lastEntry h i = None \<longleftrightarrow> i \<notin> reId ` set h"
  by (auto simp: lastEntry_def find_None_iff)

lemma feedInv_record:
  assumes "feedInv h s" "tsLast s < v"
    "tsByID s' = (tsByID s)(i := row)" "tsRing s' = ringRecord v i d stamp (tsRing s)" "tsLast s' = v"
    "if d then row = None else \<exists>rec. row = Some rec \<and> tkVersion rec = v"
  shows "feedInv (h @ [\<lparr>reIndex = v, reId = i, reDeleted = d, reStamp = stamp\<rparr>]) s'"
proof -
  let ?e = "\<lparr>reIndex = v, reId = i, reDeleted = d, reStamp = stamp\<rparr>" and ?r = "tsRing s"
  have last: "trLast ?r \<le> v" "ringOk ?r" using assms(1,2) by (auto simp: feedInv_def)
  note spec = ringRecord_spec[OF last, of i d stamp]
  from assms(1) obtain old where old: "h = old @ ringEntries ?r" "\<forall>e \<in> set old. reIndex e \<le> trFloor ?r"
    by (auto simp: feedInv_def)
  from spec(1) obtain ev where ev: "ringEntries ?r @ [?e] = ev @ ringEntries (tsRing s')"
      "\<forall>e \<in> set ev. reIndex e \<le> trFloor (tsRing s')" using assms(4) by auto
  have "h @ [?e] = (old @ ev) @ ringEntries (tsRing s')" using old(1) ev(1) by simp
  moreover have "\<forall>e \<in> set (old @ ev). reIndex e \<le> trFloor (tsRing s')"
    using old(2) ev(2) spec(2) assms(4) by fastforce
  ultimately have cov: "\<exists>old. h @ [?e] = old @ ringEntries (tsRing s') \<and>
      (\<forall>e \<in> set old. reIndex e \<le> trFloor (tsRing s'))" by blast
  have srt: "sorted_wrt (<) (map reIndex (h @ [?e]))" "\<forall>e \<in> set (h @ [?e]). reIndex e \<le> tsLast s'"
    using assms(1,2,5) by (auto simp: feedInv_def sorted_wrt_append)
  have "\<forall>j e. lastEntry (h @ [?e]) j = Some e \<longrightarrow>
      (if reDeleted e then tsByID s' j = None else \<exists>rec. tsByID s' j = Some rec \<and> tkVersion rec = reIndex e)"
    using assms(1,3,6) by (auto simp: feedInv_def lastEntry_snoc split: if_splits)
  with cov srt show ?thesis using assms(4,5) spec(3,4) by (simp add: feedInv_def)
qed

lemma feedInv_step:
  assumes "feedInv h s" "tsLast s < fst c"
  shows "feedInv (h @ stepEntries c s) (tokenStep c s) \<and> tsLast (tokenStep c s) \<in> {tsLast s, fst c}"
proof -
  obtain v op where c: "c = (v, op)" by (cases c) auto
  have v: "tsLast s < v" using assms(2) c by simp
  show ?thesis
  proof (cases op)
    case (PutAPIToken inp stamp)
    show ?thesis
    proof (cases inp)
      case (Some t)
      show ?thesis
      proof (cases "tokenValidate t \<and> tsByID s (tkID t) = None \<and> tsByName s (NameKey t) = None")
        case True
        then show ?thesis
          using feedInv_record[OF assms(1) v, where i = "tkID t" and d = False and stamp = stamp
              and row = "Some (t\<lparr>tkVersion := v\<rparr>)"]
          by (simp add: c PutAPIToken Some applyPutAPITokenLocked_def Let_def)
      qed (use assms(1) in \<open>auto simp: c PutAPIToken Some applyPutAPITokenLocked_def Let_def split: option.splits\<close>)
    qed (use assms(1) in \<open>simp add: c PutAPIToken applyPutAPITokenLocked_def\<close>)
  next
    case (DeleteAPIToken i stamp)
    show ?thesis
    proof (cases "trimSpace i \<noteq> [] \<and> tsByID s (trimSpace i) \<noteq> None")
      case True
      then show ?thesis
        using feedInv_record[OF assms(1) v, where i = "trimSpace i" and d = True and stamp = stamp and row = None]
        by (auto simp: c DeleteAPIToken applyDeleteAPITokenLocked_def Let_def split: option.splits)
    qed (use assms(1) in \<open>auto simp: c DeleteAPIToken applyDeleteAPITokenLocked_def Let_def split: option.splits\<close>)
  qed
qed

lemma feedInv_run:
  assumes "feedInv h s" "sorted_wrt (<) (map fst cs)" "\<forall>c \<in> set cs. tsLast s < fst c"
  shows "feedInv (h @ tokenHistory cs s) (fold tokenStep cs s)"
  using assms
proof (induction cs arbitrary: h s)
  case (Cons c cs)
  have step: "feedInv (h @ stepEntries c s) (tokenStep c s)" "tsLast (tokenStep c s) \<in> {tsLast s, fst c}"
    using feedInv_step[OF Cons.prems(1), of c] Cons.prems(3) by auto
  have "\<forall>x \<in> set cs. tsLast (tokenStep c s) < fst x" using step(2) Cons.prems(2,3) by auto
  from Cons.IH[OF step(1) _ this] Cons.prems(2) show ?case by simp
qed simp

section \<open>Serving and merging\<close>

definition walkOk ::
  "(string \<rightharpoonup> TokenRecord) \<Rightarrow> apiTokenRingEntry list \<Rightarrow> (string \<rightharpoonup> nat) \<Rightarrow> TokenChange list \<Rightarrow> bool" where
  "walkOk rows fin pos changes \<longleftrightarrow>
     distinct (map tcID changes) \<and> tcID ` set changes = reId ` set fin \<and>
     (\<forall>i k. pos i = Some k \<longleftrightarrow> k < length changes \<and> tcID (changes ! k) = i) \<and>
     (\<forall>ch \<in> set changes. \<exists>e. lastEntry fin (tcID ch) = Some e \<and> ch = tokenChangeOf rows e)"

lemma tokenChangeOf_id [simp]: "tcID (tokenChangeOf rows e) = reId e" "tcIndex (tokenChangeOf rows e) = reIndex e"
  by (auto simp: tokenChangeOf_def split: option.splits)

lemma walkOk_again:
  assumes "walkOk rows fin pos changes" "pos (reId e) = Some k"
  shows "walkOk rows (fin @ [e]) pos (changes[k := tokenChangeOf rows e])"
proof -
  let ?ch = "tokenChangeOf rows e"
  have k: "k < length changes" "tcID (changes ! k) = reId e" and dist: "distinct (map tcID changes)"
    using assms by (auto simp: walkOk_def)
  have ids: "map tcID (changes[k := ?ch]) = map tcID changes"
    using k by (auto simp: list_eq_iff_nth_eq nth_list_update map_update)
  have "reId e \<in> tcID ` set changes" using k by (metis imageI nth_mem)
  then have set_ids: "tcID ` set (changes[k := ?ch]) = reId ` set (fin @ [e])"
    using assms(1) arg_cong[OF ids, of set] by (auto simp: walkOk_def)
  have "\<exists>e'. lastEntry (fin @ [e]) (tcID ch) = Some e' \<and> ch = tokenChangeOf rows e'"
    if ch: "ch \<in> set (changes[k := ?ch])" for ch
  proof -
    obtain j where j: "j < length changes" "ch = (changes[k := ?ch]) ! j"
      using ch by (metis in_set_conv_nth length_list_update)
    show ?thesis
    proof (cases "j = k")
      case True
      with j k show ?thesis by (simp add: lastEntry_snoc)
    next
      case False
      then have c: "ch = changes ! j" using j by simp
      have "tcID ch \<noteq> reId e"
        using dist k j(1) False c nth_eq_iff_index_eq[of "map tcID changes" j k] by simp
      with c j(1) assms(1) show ?thesis by (auto simp: walkOk_def lastEntry_snoc)
    qed
  qed
  with assms(1) ids set_ids k show ?thesis
    unfolding walkOk_def by (auto simp: nth_list_update)
qed

lemma walkOk_first:
  assumes "walkOk rows fin pos changes" "pos (reId e) = None"
  shows "walkOk rows (fin @ [e]) (pos(reId e \<mapsto> length changes)) (changes @ [tokenChangeOf rows e])"
proof -
  have pos: "pos i = Some k \<longleftrightarrow> k < length changes \<and> tcID (changes ! k) = i" for i k
    using assms(1) by (simp add: walkOk_def)
  have new: "reId e \<notin> tcID ` set changes"
  proof
    assume "reId e \<in> tcID ` set changes"
    then obtain k where "k < length changes" "tcID (changes ! k) = reId e" by (auto simp: in_set_conv_nth)
    with pos assms(2) show False by (metis option.distinct(1))
  qed
  moreover have "\<forall>i k. (pos(reId e \<mapsto> length changes)) i = Some k \<longleftrightarrow>
      k < length (changes @ [tokenChangeOf rows e]) \<and> tcID ((changes @ [tokenChangeOf rows e]) ! k) = i"
  proof (intro allI)
    fix i k
    have "tcID (changes ! j) \<noteq> reId e" if "j < length changes" for j using new that by (metis imageI nth_mem)
    then show "(pos(reId e \<mapsto> length changes)) i = Some k \<longleftrightarrow>
        k < length (changes @ [tokenChangeOf rows e]) \<and> tcID ((changes @ [tokenChangeOf rows e]) ! k) = i"
      by (cases "i = reId e") (auto simp: pos nth_append less_Suc_eq)
  qed
  moreover have "\<exists>e'. lastEntry (fin @ [e]) (tcID ch) = Some e' \<and> ch = tokenChangeOf rows e'"
    if ch: "ch \<in> set (changes @ [tokenChangeOf rows e])" for ch
  proof (cases "ch \<in> set changes")
    case True
    with new have "tcID ch \<noteq> reId e" by (metis imageI)
    with True assms(1) show ?thesis by (auto simp: walkOk_def lastEntry_snoc)
  next
    case False
    with ch show ?thesis by (auto simp: lastEntry_snoc)
  qed
  ultimately show ?thesis using assms(1) unfolding walkOk_def by simp
qed

text \<open>The walk serves a prefix of the entries it is given, at least one of them, and its cursor is
  the index of the last one it served.\<close>

lemma changeWalk_spec:
  assumes "changeWalk rows budget pos changes nxt es = (changes', nxt', again)"
    "walkOk rows fin pos changes" "changes = [] \<longleftrightarrow> fin = []" "fin \<noteq> [] \<Longrightarrow> nxt = reIndex (last fin)"
  shows "\<exists>ser left pos'. es = ser @ left \<and> walkOk rows (fin @ ser) pos' changes' \<and> (again \<longleftrightarrow> left \<noteq> []) \<and>
           (fin @ ser \<noteq> [] \<longrightarrow> nxt' = reIndex (last (fin @ ser))) \<and> (fin @ ser = [] \<longrightarrow> nxt' = nxt \<and> es = [])"
  using assms
proof (induction es arbitrary: budget pos changes nxt fin)
  case Nil
  then show ?case by auto
next
  case (Cons e es)
  let ?stop = "tokenChangeSize rows e > budget \<and> changes \<noteq> []"
  show ?case
  proof (cases ?stop)
    case True
    with Cons.prems show ?thesis by (intro exI[of _ "[]"] exI[of _ "e # es"] exI[of _ pos]) (auto simp: Let_def)
  next
    case False
    have "\<exists>pos1 changes1. walkOk rows (fin @ [e]) pos1 changes1 \<and> changes1 \<noteq> [] \<and>
        changeWalk rows (budget - tokenChangeSize rows e) pos1 changes1 (reIndex e) es = (changes', nxt', again)"
    proof (cases "pos (reId e)")
      case None
      with False Cons.prems(1) walkOk_first[OF Cons.prems(2) None] show ?thesis
        by (intro exI conjI) (auto simp: Let_def split: if_splits)
    next
      case (Some k)
      with Cons.prems(2) have "changes \<noteq> []" by (auto simp: walkOk_def)
      with Some False Cons.prems(1) walkOk_again[OF Cons.prems(2) Some] show ?thesis
        by (intro exI conjI) (auto simp: Let_def split: if_splits)
    qed
    then obtain pos1 changes1 where w: "walkOk rows (fin @ [e]) pos1 changes1" "changes1 \<noteq> []"
        "changeWalk rows (budget - tokenChangeSize rows e) pos1 changes1 (reIndex e) es = (changes', nxt', again)"
      by blast
    from Cons.IH[OF w(3,1)] w(2) obtain ser left pos' where
      "es = ser @ left" "walkOk rows ((fin @ [e]) @ ser) pos' changes'" "again \<longleftrightarrow> left \<noteq> []"
      "nxt' = reIndex (last ((fin @ [e]) @ ser))" by auto
    then show ?thesis by (intro exI[of _ "e # ser"] exI[of _ left] exI[of _ pos']) simp
  qed
qed

lemma merge_other: "i \<noteq> tcID ch \<Longrightarrow> mergeTokenChange view ch i = view i"
  by (auto simp: mergeTokenChange_def split: option.splits)

lemma merge_local: "view i = view' i \<Longrightarrow> i = tcID ch \<Longrightarrow> mergeTokenChange view ch i = mergeTokenChange view' ch i"
  by (auto simp: mergeTokenChange_def split: option.splits)

lemma foldl_merge_other: "i \<notin> tcID ` set chs \<Longrightarrow> foldl mergeTokenChange view chs i = view i"
  by (induction chs arbitrary: view) (simp_all add: merge_other)

lemma foldl_merge_at:
  assumes "distinct (map tcID chs)" "ch \<in> set chs"
  shows "foldl mergeTokenChange view chs (tcID ch) = mergeTokenChange view ch (tcID ch)"
proof -
  from assms(2) obtain xs ys where chs: "chs = xs @ ch # ys" by (meson split_list)
  with assms(1) have "tcID ch \<notin> tcID ` set xs" "tcID ch \<notin> tcID ` set ys" by auto
  then have "foldl mergeTokenChange view chs (tcID ch) =
      mergeTokenChange (foldl mergeTokenChange view xs) ch (tcID ch)"
    and "foldl mergeTokenChange view xs (tcID ch) = view (tcID ch)"
    unfolding chs by (simp_all add: foldl_merge_other)
  with merge_local[of "foldl mergeTokenChange view xs" "tcID ch" view ch] show ?thesis by simp
qed

text \<open>A mirror's copy at a cursor: it may differ from the server's table only on ids changed after the
  cursor, and it never holds a row newer than the id's last change.\<close>

definition mirrorOk ::
  "apiTokenRingEntry list \<Rightarrow> (string \<rightharpoonup> TokenRecord) \<Rightarrow> nat \<Rightarrow> (string \<rightharpoonup> TokenRecord) \<Rightarrow> bool" where
  "mirrorOk h rows cursor view \<longleftrightarrow>
     (\<forall>i. view i \<noteq> rows i \<longrightarrow> (\<exists>e \<in> set h. reId e = i \<and> cursor < reIndex e)) \<and>
     (\<forall>i rec e. view i = Some rec \<longrightarrow> lastEntry h i = Some e \<longrightarrow> tkVersion rec \<le> reIndex e)"

lemma ring_newer:
  assumes "feedInv h s" "trFloor (tsRing s) \<le> since"
  shows "dropWhile (\<lambda>e. reIndex e \<le> since) (ringEntries (tsRing s)) = filter (\<lambda>e. since < reIndex e) h"
proof -
  from assms(1) obtain old where old: "h = old @ ringEntries (tsRing s)"
      "\<forall>e \<in> set old. reIndex e \<le> trFloor (tsRing s)" and srt: "sorted_wrt (<) (map reIndex h)"
    by (auto simp: feedInv_def)
  have none: "filter (\<lambda>e. since < reIndex e) old = []" using old(2) assms(2) by (auto simp: filter_empty_conv)
  have drop: "dropWhile (\<lambda>e. reIndex e \<le> since) es = filter (\<lambda>e. since < reIndex e) es"
    if "sorted_wrt (<) (map reIndex es)" for es
    using that
  proof (induction es)
    case (Cons e es)
    then have "since < reIndex e \<Longrightarrow> filter (\<lambda>e. since < reIndex e) es = es"
      by (fastforce simp: filter_id_conv)
    with Cons show ?case by auto
  qed simp
  have "sorted_wrt (<) (map reIndex (ringEntries (tsRing s)))"
    using srt unfolding old(1) by (simp add: sorted_wrt_append)
  note drop = drop[OF this]
  show ?thesis using drop none old(1) by simp
qed

text \<open>One id through a merge: with no change left for a later answer, the copy agrees with the table.\<close>

lemma merge_current:
  assumes inv: "feedInv h s" and last: "lastEntry h i = Some e"
    and view: "\<And>rec. view i = Some rec \<Longrightarrow> tkVersion rec \<le> reIndex e"
  shows "mergeTokenChange view (tokenChangeOf (tsByID s) e) i = tsByID s i"
proof -
  have row: "if reDeleted e then tsByID s i = None else \<exists>rec. tsByID s i = Some rec \<and> tkVersion rec = reIndex e"
    using inv last unfolding feedInv_def by blast
  have id: "reId e = i" using lastEntry_Some[OF last] by simp
  show ?thesis
    using row view id by (auto simp: mergeTokenChange_def tokenChangeOf_def split: option.splits if_splits)
qed

lemma merge_version:
  assumes inv: "feedInv h s" and last: "lastEntry h i = Some e"
    and view: "\<And>rec. view i = Some rec \<Longrightarrow> tkVersion rec \<le> reIndex e"
    and merged: "mergeTokenChange view ch i = Some rec" and ch: "ch = tokenChangeOf (tsByID s) x" "reId x = i"
  shows "tkVersion rec \<le> reIndex e"
proof -
  have row: "if reDeleted e then tsByID s i = None else \<exists>rec. tsByID s i = Some rec \<and> tkVersion rec = reIndex e"
    using inv last unfolding feedInv_def by blast
  show ?thesis
    using row view merged unfolding ch
    by (auto simp: mergeTokenChange_def tokenChangeOf_def ch(2) split: option.splits if_splits)
qed

lemma served_step:
  assumes inv: "feedInv h s" and ok: "mirrorOk h (tsByID s) since view"
    and part: "filter (\<lambda>e. since < reIndex e) h = fin @ left"
    and walk: "walkOk (tsByID s) fin pos changes" and nxt: "\<forall>e \<in> set left. nxt < reIndex e"
  shows "mirrorOk h (tsByID s) nxt (foldl mergeTokenChange view changes)"
proof -
  have ver: "tkVersion rec \<le> reIndex e" if "view i = Some rec" "lastEntry h i = Some e" for i rec e
    using ok that unfolding mirrorOk_def by blast
  have srt: "sorted_wrt (<) (map reIndex h)" using inv by (simp add: feedInv_def)
  obtain pre where h: "h = pre @ fin @ left"
  proof -
    have "\<exists>pre. es = pre @ filter (\<lambda>e. since < reIndex e) es" if "sorted_wrt (<) (map reIndex es)" for es
      using that
    proof (induction es)
      case (Cons x xs)
      show ?case
      proof (cases "since < reIndex x")
        case True
        with Cons.prems have "filter (\<lambda>e. since < reIndex e) xs = xs" by (fastforce simp: filter_id_conv)
        with True show ?thesis by simp
      next
        case False
        with Cons show ?thesis by (metis append_Cons filter.simps(2) list.simps(9) sorted_wrt.simps(2))
      qed
    qed simp
    from this[OF srt] part that show thesis by metis
  qed
  have served: "\<exists>x. ch = tokenChangeOf (tsByID s) x \<and> lastEntry fin (tcID ch) = Some x" if "ch \<in> set changes" for ch
    using walk that unfolding walkOk_def by blast
  have ids: "tcID ` set changes = reId ` set fin" and dist: "distinct (map tcID changes)"
    using walk by (simp_all add: walkOk_def)
  let ?v = "foldl mergeTokenChange view changes"
  have at: "\<exists>x. lastEntry fin i = Some x \<and> ?v i = mergeTokenChange view (tokenChangeOf (tsByID s) x) i"
    if i: "i \<in> reId ` set fin" for i
  proof -
    from i ids obtain ch where ch: "ch \<in> set changes" "tcID ch = i" by (metis imageE)
    from served[OF ch(1)] obtain x where "ch = tokenChangeOf (tsByID s) x" "lastEntry fin i = Some x"
      using ch(2) by auto
    then show ?thesis using foldl_merge_at[OF dist ch(1), of view] ch(2) by auto
  qed
  show ?thesis
    unfolding mirrorOk_def
  proof (intro conjI allI impI)
    fix i
    assume diff: "?v i \<noteq> tsByID s i"
    show "\<exists>e \<in> set h. reId e = i \<and> nxt < reIndex e"
    proof (rule ccontr)
      assume none: "\<not> ?thesis"
      then have i_left: "i \<notin> reId ` set left" using nxt h by auto
      show False
      proof (cases "i \<in> reId ` set fin")
        case True
        then obtain x where x: "lastEntry fin i = Some x" "?v i = mergeTokenChange view (tokenChangeOf (tsByID s) x) i"
          using at by blast
        have "lastEntry h i = Some x"
          using x(1) i_left unfolding h lastEntry_append by (simp add: lastEntry_None[THEN iffD2])
        from merge_current[OF inv this, of view] ver[OF _ this] x(2) diff show False by simp
      next
        case False
        then have "?v i = view i" using foldl_merge_other ids by metis
        with diff ok obtain e where "e \<in> set h" "reId e = i" "since < reIndex e" unfolding mirrorOk_def by metis
        then have "e \<in> set (filter (\<lambda>e. since < reIndex e) h)" by simp
        then have "e \<in> set (fin @ left)" by (simp only: part)
        with \<open>reId e = i\<close> False i_left show False by auto
      qed
    qed
  next
    fix i rec e
    assume rec: "?v i = Some rec" "lastEntry h i = Some e"
    show "tkVersion rec \<le> reIndex e"
    proof (cases "i \<in> reId ` set fin")
      case True
      then obtain x where "lastEntry fin i = Some x" "?v i = mergeTokenChange view (tokenChangeOf (tsByID s) x) i"
        using at by blast
      with merge_version[OF inv rec(2) ver[OF _ rec(2)], of view] rec(1) show ?thesis
        using lastEntry_Some by metis
    next
      case False
      then have "?v i = view i" using foldl_merge_other ids by metis
      with ver rec show ?thesis by simp
    qed
  qed
qed

lemma covered_no_resnapshot:
  "trFloor (tsRing s) \<le> since \<Longrightarrow> \<not> trsResnapshot (fst (tokenChangesSince budget since s))"
  by (auto simp: tokenChangesSince_def split: prod.splits)

section \<open>Names\<close>

definition tokenNameKeys :: "string \<Rightarrow> TokenRecord \<Rightarrow> string set" where
  "tokenNameKeys i r = {NameKey r}"

interpretation tokenNames: unique_index tokenNameKeys
  "\<lambda>i r m. m(NameKey r \<mapsto> i)" "\<lambda>i r m. if m (NameKey r) = Some i then m(NameKey r := None) else m"
  by unfold_locales (auto simp: tokenNameKeys_def)

lemma tokenStep_names:
  assumes "uniqExact tokenNameKeys (tsByID s) (tsByName s)"
  shows "uniqExact tokenNameKeys (tsByID (tokenStep c s)) (tsByName (tokenStep c s))"
proof -
  obtain v op where c: "c = (v, op)" by (cases c) auto
  have put: "uniqExact tokenNameKeys ((tsByID s)(tkID t \<mapsto> t\<lparr>tkVersion := v\<rparr>)) ((tsByName s)(NameKey t \<mapsto> tkID t))"
    if "tsByID s (tkID t) = None" "tsByName s (NameKey t) = None" for t
    using tokenNames.insert[OF assms that(1), of "t\<lparr>tkVersion := v\<rparr>"] that(2)
    by (simp add: tokenNameKeys_def NameKey_def)
  have del: "uniqExact tokenNameKeys ((tsByID s)(i := None))
      (if tsByName s (NameKey r) = Some i then (tsByName s)(NameKey r := None) else tsByName s)"
    if "tsByID s i = Some r" for i r using tokenNames.remove[OF assms that] .
  show ?thesis
  proof (cases op)
    case (PutAPIToken inp stamp)
    with put assms show ?thesis
      by (auto simp: c applyPutAPITokenLocked_def Let_def NameKey_def split: option.splits)
  next
    case (DeleteAPIToken i stamp)
    with del[of "trimSpace i"] assms show ?thesis
      by (cases "tsByID s (trimSpace i)") (simp_all add: c applyDeleteAPITokenLocked_def Let_def)
  qed
qed

lemma tokenRun_names:
  "uniqExact tokenNameKeys (tsByID s) (tsByName s) \<Longrightarrow>
   uniqExact tokenNameKeys (tsByID (fold tokenStep cs s)) (tsByName (fold tokenStep cs s))"
  by (induction cs arbitrary: s) (simp_all add: tokenStep_names)

section \<open>Properties\<close>

text \<open>Property C35.  Revocation reaches the mirrors.  Take any run of token creates and revokes at rising
  log indexes and a mirror whose copy is in step at its cursor.  Whatever the byte budget, an answer
  of the feed that does not ask for a resnapshot, once merged, leaves the copy in step at the cursor
  it returns; and when the answer says there is no more, the copy equals the server's table, so no
  revoked token is left in it.\<close>

theorem token_mirror_catches_up:
  assumes "sorted_wrt (<) (map fst ops)" "\<forall>c \<in> set ops. 0 < fst c"
    and "s = fold tokenStep ops newAPITokenState" "h = tokenHistory ops newAPITokenState"
    and "mirrorOk h (tsByID s) since view" "resp = fst (tokenChangesSince budget since s)" "\<not> trsResnapshot resp"
  shows "mirrorOk h (tsByID s) (trsNext resp) (foldl mergeTokenChange view (trsChanges resp)) \<and>
         (trsMore resp \<longrightarrow> since < trsNext resp) \<and>
         (\<not> trsMore resp \<longrightarrow> foldl mergeTokenChange view (trsChanges resp) = tsByID s)"
proof -
  have new: "feedInv [] newAPITokenState"
    by (simp add: feedInv_def newAPITokenState_def newAPITokenRing_def ringOk_def ringEntries_def lastEntry_def)
  from feedInv_run[OF new assms(1)] assms(2-4) have inv: "feedInv h s" by (simp add: newAPITokenState_def)
  then have below: "\<forall>e \<in> set h. reIndex e \<le> tsLast s" by (simp add: feedInv_def)
  have exact: "view' = tsByID s" if "mirrorOk h (tsByID s) n view'" "tsLast s \<le> n" for n view'
    using that below unfolding mirrorOk_def by (intro ext) (metis leD le_trans)
  show ?thesis
  proof (cases "since \<ge> tsLast s")
    case True
    with assms(5,6) exact[OF assms(5)] show ?thesis by (simp add: tokenChangesSince_def)
  next
    case False
    then have cov: "trFloor (tsRing s) \<le> since"
      using assms(6,7) by (auto simp: tokenChangesSince_def split: if_splits)
    obtain chs nxt again where w: "changeWalk (tsByID s) budget Map.empty [] since
        (filter (\<lambda>e. since < reIndex e) h) = (chs, nxt, again)" by (metis prod_cases3)
    have resp: "trsChanges resp = chs" "trsNext resp = (if again then nxt else tsLast s)" "trsMore resp = again"
      using False cov w by (simp_all add: assms(6) tokenChangesSince_def ring_newer[OF inv cov])
    have "walkOk (tsByID s) [] Map.empty []" by (simp add: walkOk_def)
    note walk = changeWalk_spec[OF w this, unfolded append_Nil]
    have "\<exists>fin left pos. filter (\<lambda>e. since < reIndex e) h = fin @ left \<and> walkOk (tsByID s) fin pos chs \<and>
        (again \<longleftrightarrow> left \<noteq> []) \<and> (fin \<noteq> [] \<longrightarrow> nxt = reIndex (last fin)) \<and>
        (fin = [] \<longrightarrow> nxt = since \<and> filter (\<lambda>e. since < reIndex e) h = [])"
      by (rule walk) simp_all
    then obtain fin left pos where p: "filter (\<lambda>e. since < reIndex e) h = fin @ left"
        "walkOk (tsByID s) fin pos chs" "again \<longleftrightarrow> left \<noteq> []" "fin \<noteq> [] \<longrightarrow> nxt = reIndex (last fin)"
        "fin = [] \<longrightarrow> nxt = since \<and> filter (\<lambda>e. since < reIndex e) h = []" by blast
    have srt: "sorted_wrt (<) (map reIndex (fin @ left))"
      unfolding p(1)[symmetric] sorted_wrt_map
      using inv by (intro sorted_wrt_filter) (simp add: feedInv_def sorted_wrt_map)
    have fin: "since < nxt \<and> (\<forall>e \<in> set left. nxt < reIndex e)" if again
    proof -
      have ne: "fin \<noteq> []" using that p(1,3,5) by auto
      then have "last fin \<in> set (filter (\<lambda>e. since < reIndex e) h)" unfolding p(1) by simp
      with ne p(4) srt show ?thesis by (auto simp: sorted_wrt_append)
    qed
    then have "\<forall>e \<in> set left. trsNext resp < reIndex e" using p(3) resp(2) by auto
    from served_step[OF inv assms(5) p(1,2) this] show ?thesis
      using fin resp exact[of "trsNext resp" "foldl mergeTokenChange view chs"] by auto
  qed
qed

definition exampleToken :: TokenRecord where
  "exampleToken = \<lparr>tkID = ''tok_abcdefghijkl'', tkName = ''ci'', tkRole = ''runner'', tkOwnerRef = ''team:red'',
     tkCreatedBy = ''op'', tkCreatedAt = Some 1, tkExpiresAt = Some 9, tkSecretHash = replicate 32 (CHR ''h''),
     tkVersion = 0\<rparr>"

lemma exampleToken_valid: "tokenValidate exampleToken"
  by (simp add: tokenValidate_def exampleToken_def ValidAPITokenID_def APITokenIDPrefix_def isBase62_def isAlnum_def
      ValidTokenName_def roleValid_def RequiresFleet_def tokenTeam_def ValidTeamName_def TeamOwnerPrefix_def
      FleetTeam_def cutPrefix_def)

lemma exampleToken_created:
  "snd (applyPutAPITokenLocked 5 (Some exampleToken) 0 newAPITokenState) =
     \<lparr>tsByID = [tkID exampleToken \<mapsto> exampleToken\<lparr>tkVersion := 5\<rparr>],
      tsByName = [NameKey exampleToken \<mapsto> tkID exampleToken],
      tsRing = ringRecord 5 (tkID exampleToken) False 0 newAPITokenRing, tsLast = 5\<rparr>"
  using exampleToken_valid by (simp add: applyPutAPITokenLocked_def newAPITokenState_def Let_def NameKey_def)

text \<open>A token created and then revoked: a mirror that copied the table in between drops it.\<close>

theorem token_mirror_catches_up_witness:
  "let ops = [(5, PutAPIToken (Some exampleToken) 0), (7, DeleteAPIToken (tkID exampleToken) 0)];
       s = fold tokenStep ops newAPITokenState;
       view = [tkID exampleToken \<mapsto> exampleToken\<lparr>tkVersion := 5\<rparr>];
       resp = fst (tokenChangesSince 100000 5 s)
   in \<not> trsResnapshot resp \<and>
      mirrorOk (tokenHistory ops newAPITokenState) (tsByID s) (trsNext resp) (foldl mergeTokenChange view (trsChanges resp))"
proof -
  let ?ops = "[(5, PutAPIToken (Some exampleToken) 0), (7, DeleteAPIToken (tkID exampleToken) 0)]"
  let ?s = "fold tokenStep ?ops newAPITokenState" and ?h = "tokenHistory ?ops newAPITokenState"
  let ?view = "[tkID exampleToken \<mapsto> exampleToken\<lparr>tkVersion := 5\<rparr>]"
  have id: "trimSpace (tkID exampleToken) = tkID exampleToken" "tkID exampleToken \<noteq> []"
    by (simp_all add: exampleToken_def visibleChar_def)
  have ring: "ringRecord 7 i d 0 (ringRecord 5 j c 0 newAPITokenRing) =
      newAPITokenRing\<lparr>trEntries := [\<lparr>reIndex = 5, reId = j, reDeleted = c, reStamp = 0\<rparr>,
        \<lparr>reIndex = 7, reId = i, reDeleted = d, reStamp = 0\<rparr>], trLast := 7\<rparr>" for i j c d
    by (simp add: ringRecord_def newAPITokenRing_def evictOver.simps ringCompact_def ringLen_def Let_def)
  have s: "tsByID ?s = Map.empty" "tsLast ?s = 7" "trFloor (tsRing ?s) = 0"
    using id by (simp_all add: exampleToken_created applyDeleteAPITokenLocked_def ring Let_def)
      (simp add: newAPITokenRing_def)
  have h: "?h = [\<lparr>reIndex = 5, reId = tkID exampleToken, reDeleted = False, reStamp = 0\<rparr>,
      \<lparr>reIndex = 7, reId = tkID exampleToken, reDeleted = True, reStamp = 0\<rparr>]"
    using id exampleToken_valid by (simp add: exampleToken_created) (simp add: newAPITokenState_def)
  have ok: "mirrorOk ?h (tsByID ?s) 5 ?view"
    unfolding s h by (auto simp: mirrorOk_def lastEntry_def)
  have live: "\<not> trsResnapshot (fst (tokenChangesSince 100000 5 ?s))"
    by (rule covered_no_resnapshot) (simp only: s le0)
  from token_mirror_catches_up[OF _ _ refl refl ok refl live] live show ?thesis by (simp add: Let_def)
qed

text \<open>Property C36.  Token names are unique per team and the name index is exact: after any run of
  creates and revokes, two different tokens never share owner and name, a create is refused for a
  taken name exactly when a live token holds it, and a refused create changes nothing.\<close>

theorem token_names_unique:
  assumes "s = fold tokenStep ops newAPITokenState" "tokenValidate t" "tsByID s (tkID t) = None"
  shows "(fst (applyPutAPITokenLocked v (Some t) stamp s) = Inl ErrAPITokenNameTaken \<longleftrightarrow>
            (\<exists>i r. tsByID s i = Some r \<and> tkOwnerRef r @ [CHR 0x00] @ tkName r = tkOwnerRef t @ [CHR 0x00] @ tkName t)) \<and>
         (fst (applyPutAPITokenLocked v (Some t) stamp s) = Inl e \<longrightarrow>
            snd (applyPutAPITokenLocked v (Some t) stamp s) = s) \<and>
         (tsByID s i = Some r \<longrightarrow> tsByID s j = Some q \<longrightarrow> tkOwnerRef r = tkOwnerRef q \<longrightarrow> tkName r = tkName q \<longrightarrow> i = j)"
proof -
  have new: "uniqExact tokenNameKeys (tsByID newAPITokenState) (tsByName newAPITokenState)"
    by (simp add: newAPITokenState_def)
  have ex: "uniqExact tokenNameKeys (tsByID s) (tsByName s)"
    unfolding assms(1) by (rule tokenRun_names[OF new])
  then have "tsByName s (NameKey t) = Some i \<longleftrightarrow> (\<exists>r. tsByID s i = Some r \<and> NameKey r = NameKey t)" for i
    unfolding uniqExact_def tokenNameKeys_def by (auto simp: eq_commute)
  then have "tsByName s (NameKey t) \<noteq> None \<longleftrightarrow> (\<exists>i r. tsByID s i = Some r \<and> NameKey r = NameKey t)"
    by (metis not_None_eq)
  moreover have "i = j" if "tsByID s i = Some r" "tsByID s j = Some q" "tkOwnerRef r = tkOwnerRef q" "tkName r = tkName q"
    using uniqExact_disjoint[OF ex that(1,2), of "NameKey r"] that(3,4) by (simp add: tokenNameKeys_def NameKey_def)
  ultimately show ?thesis
    using assms(2,3) by (auto simp: applyPutAPITokenLocked_def NameKey_def Let_def)
qed

theorem token_names_unique_witness:
  "let s = fold tokenStep [(5, PutAPIToken (Some exampleToken) 0)] newAPITokenState;
       t = exampleToken\<lparr>tkID := ''tok_ABCDEFGHIJKL''\<rparr>
   in tokenValidate t \<and> fst (applyPutAPITokenLocked 6 (Some t) 0 s) = Inl ErrAPITokenNameTaken"
proof -
  let ?s = "fold tokenStep [(5, PutAPIToken (Some exampleToken) 0)] newAPITokenState"
  let ?t = "exampleToken\<lparr>tkID := ''tok_ABCDEFGHIJKL''\<rparr>"
  have valid: "tokenValidate ?t"
    by (simp add: tokenValidate_def exampleToken_def ValidAPITokenID_def APITokenIDPrefix_def isBase62_def isAlnum_def
        ValidTokenName_def roleValid_def RequiresFleet_def tokenTeam_def ValidTeamName_def TeamOwnerPrefix_def
        FleetTeam_def cutPrefix_def)
  have s: "?s = snd (applyPutAPITokenLocked 5 (Some exampleToken) 0 newAPITokenState)" by simp
  have "tsByID ?s (tkID ?t) = None" unfolding s exampleToken_created by (simp add: exampleToken_def)
  note rule = token_names_unique[OF refl valid this, THEN conjunct1]
  have "tsByID ?s (tkID exampleToken) = Some (exampleToken\<lparr>tkVersion := 5\<rparr>)"
    unfolding s exampleToken_created by simp
  then have "fst (applyPutAPITokenLocked 6 (Some ?t) 0 ?s) = Inl ErrAPITokenNameTaken"
    by (intro rule[THEN iffD2] exI[of _ "tkID exampleToken"] exI[of _ "exampleToken\<lparr>tkVersion := 5\<rparr>"] conjI) simp_all
  with valid show ?thesis by (simp only: Let_def)
qed

end
