(* ===== verification/Expiry_Heap.thy ===== *)
theory Expiry_Heap
  imports Prelude "HOL-Library.Multiset"
begin

text \<open>
  The binary heap behind the lazy expiry of reservations (\<^verbatim>\<open>pendingReservationExpiryHeap\<close> of
  \<^verbatim>\<open>internal/cluster/fsm.go\<close>, driven by Go's \<^verbatim>\<open>container/heap\<close>).  The slice is a list; \<^verbatim>\<open>heapUp\<close> and
  \<^verbatim>\<open>heapDown\<close> are the two sift loops of the package, with \<^verbatim>\<open>Less\<close> comparing \<^verbatim>\<open>ExpiresUnix\<close>.  Shown:
  a push and a pop keep the heap order, a pop takes an entry with the least expiry, and no entry
  is lost or invented.
\<close>

record pendingReservationExpiry =
  peSandboxID :: string
  peExpiresUnix :: int

definition expiryLess :: "pendingReservationExpiry list \<Rightarrow> nat \<Rightarrow> nat \<Rightarrow> bool" where
  "expiryLess h i j \<longleftrightarrow> peExpiresUnix (h ! i) < peExpiresUnix (h ! j)"

definition expirySwap :: "pendingReservationExpiry list \<Rightarrow> nat \<Rightarrow> nat \<Rightarrow> pendingReservationExpiry list" where
  "expirySwap h i j = h[i := h ! j, j := h ! i]"

function heapUp :: "pendingReservationExpiry list \<Rightarrow> nat \<Rightarrow> pendingReservationExpiry list" where
  "heapUp h j =
     (let i = (j - 1) div 2 in
      if i = j \<or> \<not> expiryLess h j i then h else heapUp (expirySwap h i j) i)"
  by pat_completeness auto
termination by (relation "measure (\<lambda>(h, j). j)") auto

declare heapUp.simps [simp del]

definition heapMinChild :: "pendingReservationExpiry list \<Rightarrow> nat \<Rightarrow> nat \<Rightarrow> nat" where
  "heapMinChild h i n =
     (let j1 = 2 * i + 1 in if j1 + 1 < n \<and> expiryLess h (j1 + 1) j1 then j1 + 1 else j1)"

lemma heapMinChild_cases: "heapMinChild h i n = 2 * i + 1 \<or> heapMinChild h i n = 2 * i + 2 \<and> 2 * i + 2 < n"
  by (simp add: heapMinChild_def Let_def)

lemma heapMinChild_gt: "i < heapMinChild h i n"
  using heapMinChild_cases[of h i n] by linarith

lemma heapMinChild_less: "2 * i + 1 < n \<Longrightarrow> heapMinChild h i n < n"
  using heapMinChild_cases[of h i n] by linarith

function heapDown :: "pendingReservationExpiry list \<Rightarrow> nat \<Rightarrow> nat \<Rightarrow> pendingReservationExpiry list" where
  "heapDown h i n =
     (if 2 * i + 1 \<ge> n then h
      else let j = heapMinChild h i n
           in if \<not> expiryLess h j i then h else heapDown (expirySwap h i j) j n)"
  by pat_completeness auto
termination
proof (relation "measure (\<lambda>(h, i, n). n - i)", goal_cases)
  case (2 h i n j)
  then show ?case using heapMinChild_gt[of i h n] by auto
qed simp

declare heapDown.simps [simp del]

text \<open>\<^verbatim>\<open>heap.Push\<close>: append, then sift the last element up.\<close>

definition expiryPush :: "pendingReservationExpiry \<Rightarrow> pendingReservationExpiry list \<Rightarrow> pendingReservationExpiry list" where
  "expiryPush x h = (let h = h @ [x] in heapUp h (length h - 1))"

text \<open>\<^verbatim>\<open>heap.Pop\<close>: swap the root to the end, sift the new root down, cut the end off.\<close>

definition expiryPop :: "pendingReservationExpiry list \<Rightarrow> pendingReservationExpiry \<times> pendingReservationExpiry list" where
  "expiryPop h =
     (let n = length h - 1; h = heapDown (expirySwap h 0 n) 0 n
      in (h ! (length h - 1), take (length h - 1) h))"

section \<open>Contents\<close>

lemma length_swap [simp]: "length (expirySwap h i j) = length h"
  by (simp add: expirySwap_def)

lemma mset_expirySwap [simp]: "i < length h \<Longrightarrow> j < length h \<Longrightarrow> mset (expirySwap h i j) = mset h"
  by (simp add: expirySwap_def mset_swap)

lemma nth_swap:
  "i < length h \<Longrightarrow> j < length h \<Longrightarrow>
   expirySwap h i j ! k = (if k = j then h ! i else if k = i then h ! j else h ! k)"
  by (auto simp: expirySwap_def nth_list_update)

lemma mset_heapUp: "j < length h \<Longrightarrow> mset (heapUp h j) = mset h"
proof (induction h j rule: heapUp.induct)
  case (1 h j)
  have "(j - 1) div 2 < length h" using 1(2) by auto
  then show ?case using 1 by (subst heapUp.simps) (auto simp: Let_def)
qed

lemma mset_heapDown: "n \<le> length h \<Longrightarrow> i < n \<Longrightarrow> mset (heapDown h i n) = mset h"
proof (induction h i n rule: heapDown.induct)
  case (1 h i n)
  show ?case using 1 heapMinChild_less[of i n h] by (subst heapDown.simps) (auto simp: Let_def)
qed

lemma heapDown_frame: "n \<le> length h \<Longrightarrow> i < n \<Longrightarrow> n \<le> k \<Longrightarrow> heapDown h i n ! k = h ! k"
proof (induction h i n rule: heapDown.induct)
  case (1 h i n)
  show ?case using 1 heapMinChild_less[of i n h] by (subst heapDown.simps) (auto simp: Let_def nth_swap)
qed

lemma length_heapDown [simp]: "length (heapDown h i n) = length h"
proof (induction h i n rule: heapDown.induct)
  case (1 h i n)
  show ?case using 1 by (subst heapDown.simps) (auto simp: Let_def)
qed

lemma mset_expiryPush: "mset (expiryPush x h) = add_mset x (mset h)"
  by (simp add: expiryPush_def Let_def mset_heapUp)

lemma set_expiryPush [simp]: "set (expiryPush x h) = insert x (set h)"
  using arg_cong[OF mset_expiryPush[of x h], of set_mset] by simp

section \<open>Order\<close>

definition heapOk :: "pendingReservationExpiry list \<Rightarrow> nat \<Rightarrow> bool" where
  "heapOk h n \<longleftrightarrow> (\<forall>k<n. 0 < k \<longrightarrow> \<not> expiryLess h k ((k - 1) div 2))"

text \<open>The heap order but for the edges above \<^verbatim>\<open>j\<close> (sifting up) or below \<^verbatim>\<open>i\<close> (sifting down).\<close>

definition upHole :: "pendingReservationExpiry list \<Rightarrow> nat \<Rightarrow> nat \<Rightarrow> bool" where
  "upHole h n j \<longleftrightarrow>
     (\<forall>k<n. 0 < k \<longrightarrow> k \<noteq> j \<longrightarrow> \<not> expiryLess h k ((k - 1) div 2)) \<and>
     (\<forall>k<n. 0 < k \<longrightarrow> 0 < j \<longrightarrow> (k - 1) div 2 = j \<longrightarrow> \<not> expiryLess h k ((j - 1) div 2))"

definition downHole :: "pendingReservationExpiry list \<Rightarrow> nat \<Rightarrow> nat \<Rightarrow> bool" where
  "downHole h n i \<longleftrightarrow>
     (\<forall>k<n. 0 < k \<longrightarrow> (k - 1) div 2 \<noteq> i \<longrightarrow> \<not> expiryLess h k ((k - 1) div 2)) \<and>
     (\<forall>k<n. 0 < k \<longrightarrow> 0 < i \<longrightarrow> (k - 1) div 2 = i \<longrightarrow> \<not> expiryLess h k ((i - 1) div 2))"

lemma heapOk_least: "heapOk h n \<Longrightarrow> k < n \<Longrightarrow> peExpiresUnix (h ! 0) \<le> peExpiresUnix (h ! k)"
proof (induction k rule: less_induct)
  case (less k)
  show ?case
  proof (cases "k = 0")
    case False
    then have p: "(k - 1) div 2 < k" by auto
    then have "peExpiresUnix (h ! 0) \<le> peExpiresUnix (h ! ((k - 1) div 2))" using less by auto
    also have "\<dots> \<le> peExpiresUnix (h ! k)"
      using less(2,3) False by (auto simp: heapOk_def expiryLess_def not_less)
    finally show ?thesis .
  qed simp
qed

lemma heapUp_ok: "upHole h (length h) j \<Longrightarrow> j < length h \<Longrightarrow> heapOk (heapUp h j) (length h)"
proof (induction h j rule: heapUp.induct)
  case (1 h j)
  let ?i = "(j - 1) div 2" and ?n = "length h"
  show ?case
  proof (cases "?i = j \<or> \<not> expiryLess h j ?i")
    case True
    then have "heapOk h ?n" using 1(2) by (auto simp: heapOk_def upHole_def)
    then show ?thesis using True by (subst heapUp.simps) (simp add: Let_def)
  next
    case False
    let ?s = "expirySwap h ?i j"
    have less: "peExpiresUnix (h ! j) < peExpiresUnix (h ! ?i)" using False by (simp add: expiryLess_def)
    have i: "?i < ?n" "?i \<noteq> j" "0 < j" using 1(3) False by auto
    have at: "?s ! k = (if k = j then h ! ?i else if k = ?i then h ! j else h ! k)" for k
      using i 1(3) by (rule_tac nth_swap) auto
    have ord: "peExpiresUnix (h ! ((k - 1) div 2)) \<le> peExpiresUnix (h ! k)" if "k < ?n" "0 < k" "k \<noteq> j" for k
      using 1(2) that by (auto simp: upHole_def expiryLess_def not_less)
    have grand: "peExpiresUnix (h ! ?i) \<le> peExpiresUnix (h ! k)" if "k < ?n" "0 < k" "(k - 1) div 2 = j" for k
      using 1(2) that i by (auto simp: upHole_def expiryLess_def not_less)
    have fst_part: "peExpiresUnix (?s ! ((k - 1) div 2)) \<le> peExpiresUnix (?s ! k)"
      if k: "k < ?n" "0 < k" "k \<noteq> ?i" for k
    proof -
      consider "k = j" | "k \<noteq> j" "(k - 1) div 2 = j" | "k \<noteq> j" "(k - 1) div 2 = ?i"
        | "k \<noteq> j" "(k - 1) div 2 \<noteq> j" "(k - 1) div 2 \<noteq> ?i" by blast
      then show ?thesis using ord[OF k(1,2)] grand[OF k(1,2)] less k(3) i(2) unfolding at by cases simp_all
    qed
    have snd_part: "peExpiresUnix (?s ! ((?i - 1) div 2)) \<le> peExpiresUnix (?s ! k)"
      if k: "k < ?n" "0 < k" "0 < ?i" "(k - 1) div 2 = ?i" for k
    proof -
      have "(?i - 1) div 2 < ?i" "?i < j" using k(3) i by linarith+
      then have pi: "(?i - 1) div 2 \<noteq> ?i" "(?i - 1) div 2 \<noteq> j" "k \<noteq> ?i" using k(4) by auto
      have e: "?s ! ((?i - 1) div 2) = h ! ((?i - 1) div 2)" by (simp only: at pi if_False)
      have g: "peExpiresUnix (h ! ((?i - 1) div 2)) \<le> peExpiresUnix (h ! ?i)" by (rule ord[OF i(1) k(3) i(2)])
      show ?thesis
      proof (cases "k = j")
        case True
        then have "?s ! k = h ! ?i" using at[of j] by simp
        with e g show ?thesis by metis
      next
        case False
        then have "?s ! k = h ! k" by (simp only: at pi if_False)
        with e g ord[OF k(1,2) False] show ?thesis unfolding k(4) by (metis order.trans)
      qed
    qed
    have "upHole ?s ?n ?i"
      using fst_part snd_part by (simp add: upHole_def expiryLess_def not_less)
    then have "heapOk (heapUp ?s ?i) (length ?s)" using 1(1)[OF refl False] i by simp
    then show ?thesis using False by (subst heapUp.simps) (simp add: Let_def)
  qed
qed

lemma heapMinChild_least:
  assumes "k < n" "0 < k" "(k - 1) div 2 = i"
  shows "peExpiresUnix (h ! heapMinChild h i n) \<le> peExpiresUnix (h ! k)"
proof -
  have "k = 2 * i + 1 \<or> k = 2 * i + 1 + 1" using assms(2,3) by auto
  then show ?thesis using assms(1) by (auto simp: heapMinChild_def Let_def expiryLess_def)
qed

lemma downHole_order:
  assumes "downHole h n i" and "peExpiresUnix (h ! i) \<le> peExpiresUnix (h ! heapMinChild h i n) \<or> n \<le> 2 * i + 1"
  shows "heapOk h n"
proof -
  have "peExpiresUnix (h ! ((k - 1) div 2)) \<le> peExpiresUnix (h ! k)" if k: "k < n" "0 < k" for k
  proof (cases "(k - 1) div 2 = i")
    case True
    have "\<not> n \<le> 2 * i + 1" using True k by linarith
    then show ?thesis unfolding True using assms(2) heapMinChild_least[OF k True, of h] by linarith
  qed (use assms(1) k in \<open>simp add: downHole_def expiryLess_def not_less\<close>)
  then show ?thesis by (simp add: heapOk_def expiryLess_def not_less)
qed

lemma downHole_step:
  assumes hole: "downHole h n i" and n: "n \<le> length h" "2 * i + 1 < n"
    and j: "j = heapMinChild h i n" and less: "expiryLess h j i"
  shows "downHole (expirySwap h i j) n j"
proof -
  let ?s = "expirySwap h i j"
  have jn: "j < n" "0 < j" "(j - 1) div 2 = i" "j \<noteq> i" "i < j"
    using heapMinChild_cases[of h i n] n(2) by (auto simp: j)
  have ord: "peExpiresUnix (h ! ((k - 1) div 2)) \<le> peExpiresUnix (h ! k)" if "k < n" "0 < k" "(k - 1) div 2 \<noteq> i" for k
    using hole that by (auto simp: downHole_def expiryLess_def not_less)
  have up: "peExpiresUnix (h ! ((i - 1) div 2)) \<le> peExpiresUnix (h ! j)" if "0 < i"
    using hole that jn(1-3) by (auto simp: downHole_def expiryLess_def not_less)
  have lt: "peExpiresUnix (h ! j) < peExpiresUnix (h ! i)" using less by (simp only: expiryLess_def)
  have at: "?s ! k = (if k = j then h ! i else if k = i then h ! j else h ! k)" for k
    using jn n by (intro nth_swap) auto
  have fst_part: "peExpiresUnix (?s ! ((k - 1) div 2)) \<le> peExpiresUnix (?s ! k)"
    if k: "k < n" "0 < k" "(k - 1) div 2 \<noteq> j" for k
  proof -
    consider (a) "k = i" "k \<noteq> j" "(k - 1) div 2 \<noteq> i" | (b) "k = j" | (c) "k \<noteq> i" "k \<noteq> j" "(k - 1) div 2 = i"
      | (d) "k \<noteq> i" "k \<noteq> j" "(k - 1) div 2 \<noteq> i"
    proof -
      have "(k - 1) div 2 < k" using k(2) by linarith
      then show ?thesis using that jn(4) by (cases "k = j"; cases "k = i") auto
    qed
    then show ?thesis
    proof cases
      case a then show ?thesis using up k at[of k] at[of "(k - 1) div 2"] by simp
    next
      case b then show ?thesis using lt at[of j] at[of i] jn(3,4) by simp
    next
      case c then show ?thesis
        using heapMinChild_least[OF k(1,2) c(3), of h] jn(4) at[of k] at[of i] j by simp
    next
      case d then show ?thesis using ord[OF k(1,2) d(3)] k(3) at[of k] at[of "(k - 1) div 2"] by simp
    qed
  qed
  have snd_part: "peExpiresUnix (?s ! ((j - 1) div 2)) \<le> peExpiresUnix (?s ! k)"
    if k: "k < n" "0 < k" "(k - 1) div 2 = j" for k
  proof -
    have "j < k" using k(2,3) by linarith
    then have "?s ! k = h ! k" "?s ! i = h ! j" using at[of k] at[of i] jn(4,5) by auto
    moreover have "peExpiresUnix (h ! j) \<le> peExpiresUnix (h ! k)"
      using ord[OF k(1,2)] unfolding k(3) using jn(4) by blast
    ultimately show ?thesis unfolding jn(3) by simp
  qed
  show ?thesis using fst_part snd_part by (simp add: downHole_def expiryLess_def not_less)
qed

lemma heapDown_ok:
  "downHole h n i \<Longrightarrow> n \<le> length h \<Longrightarrow> i < n \<Longrightarrow> heapOk (heapDown h i n) n"
proof (induction h i n rule: heapDown.induct)
  case (1 h i n)
  let ?j = "heapMinChild h i n"
  show ?case
  proof (cases "2 * i + 1 \<ge> n \<or> \<not> expiryLess h ?j i")
    case True
    then have "heapOk h n" using downHole_order[OF 1(2)] by (auto simp: expiryLess_def)
    moreover have "heapDown h i n = h" using True by (subst heapDown.simps) (auto simp: Let_def)
    ultimately show ?thesis by simp
  next
    case False
    then have "downHole (expirySwap h i ?j) n ?j" using downHole_step[OF 1(2,3)] by simp
    then have "heapOk (heapDown (expirySwap h i ?j) ?j n) n"
      using 1(1) False 1(3) heapMinChild_less[of i n h] by simp
    moreover have "heapDown h i n = heapDown (expirySwap h i ?j) ?j n"
      using False by (subst heapDown.simps) (simp add: Let_def)
    ultimately show ?thesis by simp
  qed
qed

section \<open>Push and pop\<close>

definition expiryHeap :: "pendingReservationExpiry list \<Rightarrow> bool" where
  "expiryHeap h \<longleftrightarrow> heapOk h (length h)"

lemma expiryHeap_Nil [simp]: "expiryHeap []"
  by (simp add: expiryHeap_def heapOk_def)

lemma expiryHeap_root: "expiryHeap h \<Longrightarrow> x \<in> set h \<Longrightarrow> peExpiresUnix (h ! 0) \<le> peExpiresUnix x"
  by (auto simp: expiryHeap_def in_set_conv_nth heapOk_least)

lemma expiryHeap_push:
  assumes "expiryHeap h"
  shows "expiryHeap (expiryPush x h)"
proof -
  let ?h = "h @ [x]"
  have "upHole ?h (length ?h) (length h)"
    unfolding upHole_def
  proof (intro conjI allI impI)
    fix k assume k: "k < length ?h" "0 < k" "k \<noteq> length h"
    then have "k < length h" "(k - 1) div 2 < length h" by auto
    then show "\<not> expiryLess ?h k ((k - 1) div 2)"
      using assms k(2) by (simp add: expiryHeap_def heapOk_def expiryLess_def nth_append)
  next
    fix k assume "k < length ?h" "0 < k" "(k - 1) div 2 = length h"
    then show "\<not> expiryLess ?h k ((length h - 1) div 2)" by auto
  qed
  then have "heapOk (heapUp ?h (length h)) (length ?h)" by (intro heapUp_ok) auto
  moreover have "length (expiryPush x h) = length ?h"
    using arg_cong[OF mset_expiryPush[of x h], of size] by simp
  ultimately show ?thesis by (simp add: expiryHeap_def expiryPush_def)
qed

lemma expiryPop_spec:
  assumes "expiryHeap h" and "h \<noteq> []"
  shows "fst (expiryPop h) = h ! 0" and "expiryHeap (snd (expiryPop h))"
    and "add_mset (h ! 0) (mset (snd (expiryPop h))) = mset h"
proof -
  let ?n = "length h - 1"
  let ?s = "expirySwap h 0 ?n"
  let ?d = "heapDown ?s 0 ?n"
  have n: "?n < length h" "0 < length h" using assms(2) by auto
  have hole: "downHole ?s ?n 0"
    unfolding downHole_def
  proof (intro conjI allI impI)
    fix k assume k: "k < ?n" "0 < k" "(k - 1) div 2 \<noteq> 0"
    then have "k \<noteq> ?n" "(k - 1) div 2 \<noteq> ?n" by auto
    then show "\<not> expiryLess ?s k ((k - 1) div 2)"
      using assms(1) k n by (simp add: expiryHeap_def heapOk_def expiryLess_def nth_swap)
  qed simp
  have ok: "heapOk ?d ?n"
  proof (cases "?n = 0")
    case False
    then show ?thesis using heapDown_ok[OF hole] by simp
  qed (simp add: heapOk_def)
  have last: "?d ! ?n = h ! 0"
  proof (cases "?n = 0")
    case True
    then show ?thesis by (subst heapDown.simps) (simp add: expirySwap_def n(2))
  next
    case False
    then show ?thesis using heapDown_frame[of ?n ?s 0 ?n] n by (simp add: nth_swap)
  qed
  have ms: "mset ?d = mset h"
  proof (cases "?n = 0")
    case True
    then show ?thesis using n by (subst heapDown.simps) simp
  next
    case False
    then show ?thesis using mset_heapDown[of ?n ?s 0] n by simp
  qed
  have pop: "expiryPop h = (h ! 0, take ?n ?d)" using last by (simp add: expiryPop_def Let_def)
  then show "fst (expiryPop h) = h ! 0" by simp
  have "heapOk (take ?n ?d) ?n"
    using ok by (simp add: heapOk_def expiryLess_def)
  then show "expiryHeap (snd (expiryPop h))" using pop n by (simp add: expiryHeap_def)
  have "?d = take ?n ?d @ [?d ! ?n]" using take_Suc_conv_app_nth[of ?n ?d] n by simp
  then have "mset ?d = add_mset (h ! 0) (mset (take ?n ?d))"
    using last by (metis mset.simps(2) mset_append add_mset_add_single mset_single_iff)
  then show "add_mset (h ! 0) (mset (snd (expiryPop h))) = mset h" using ms pop by simp
qed

lemma expiryPop_length: "expiryHeap h \<Longrightarrow> h \<noteq> [] \<Longrightarrow> length (snd (expiryPop h)) < length h"
  using arg_cong[OF expiryPop_spec(3), of h size] by simp

lemma expiryPop_set: "expiryHeap h \<Longrightarrow> h \<noteq> [] \<Longrightarrow> insert (h ! 0) (set (snd (expiryPop h))) = set h"
  using arg_cong[OF expiryPop_spec(3), of h set_mset] by simp

lemma length_expiryPop: "length (snd (expiryPop h)) = length h - 1"
  by (simp add: expiryPop_def Let_def)

section \<open>Correctness\<close>

text \<open>The reservation expiry heap is a priority queue.  From any slice in heap order,
  \<^verbatim>\<open>heap.Push\<close> leaves a slice in heap order with exactly the pushed entry added, and \<^verbatim>\<open>heap.Pop\<close> of a
  non-empty one returns an entry whose expiry is the least of all, leaves heap order, and removes
  exactly that entry.\<close>

theorem expiry_heap_priority_queue:
  assumes "expiryHeap h"
  shows "expiryHeap (expiryPush x h) \<and> mset (expiryPush x h) = add_mset x (mset h) \<and>
    (h \<noteq> [] \<longrightarrow> (\<forall>y \<in> set h. peExpiresUnix (fst (expiryPop h)) \<le> peExpiresUnix y) \<and>
       expiryHeap (snd (expiryPop h)) \<and>
       add_mset (fst (expiryPop h)) (mset (snd (expiryPop h))) = mset h)"
  using assms by (auto simp: expiryHeap_push mset_expiryPush expiryPop_spec expiryHeap_root)

definition heapExample :: "pendingReservationExpiry list" where
  "heapExample = map (\<lambda>n. \<lparr>peSandboxID = ''sb'', peExpiresUnix = n\<rparr>) [2, 7, 3]"

theorem expiry_heap_priority_queue_witness:
  "expiryHeap heapExample \<and>
   expiryHeap (expiryPush \<lparr>peSandboxID = ''x'', peExpiresUnix = 1\<rparr> heapExample) \<and>
   peExpiresUnix (fst (expiryPop heapExample)) = 2"
proof -
  have ok: "expiryHeap heapExample" by code_simp
  have ne: "heapExample \<noteq> []" by (simp add: heapExample_def)
  have "peExpiresUnix (fst (expiryPop heapExample)) = 2" by code_simp
  with expiry_heap_priority_queue[OF ok, of "\<lparr>peSandboxID = ''x'', peExpiresUnix = 1\<rparr>"] ok ne
  show ?thesis by blast
qed

end
