(* ===== verification/Pending_Reservations.thy ===== *)
theory Pending_Reservations
  imports Placement_Types Expiry_Heap
begin

text \<open>
  The ledger of pending reservations (\<^verbatim>\<open>internal/cluster/fsm.go\<close>): the capacity that reserved but
  not yet materialised sandboxes ask of each node, which the scheduler subtracts before it picks
  an owner.  The state is the pending fields of \<^verbatim>\<open>placementFSM\<close> and \<^verbatim>\<open>reservedIndex\<close>; an expired claim
  is dropped lazily, through the expiry heap, when the aggregate is read.  Shown: the aggregate a
  reader gets is the sum of exactly the claims still live at the time of the read, however the
  ledger got there.
\<close>

section \<open>State\<close>

record pendingReservationClaim =
  pcOwnerNodeID :: string
  pcRequest :: capacityRequest
  pcExpiresUnix :: int

record pendingState =
  pendingReservationClaims :: "string \<rightharpoonup> pendingReservationClaim"
  pendingReservationCapacity :: "string \<rightharpoonup> capacityRequest"
  pendingReservationIDsByOwner :: "string \<rightharpoonup> string set"
  pendingReservationExpiries :: "pendingReservationExpiry list"
  pendingReservationRuntimes :: "string \<rightharpoonup> (string \<rightharpoonup> int)"
  reservedIndex :: "string set"

definition newPendingState :: pendingState where
  "newPendingState =
     \<lparr>pendingReservationClaims = Map.empty, pendingReservationCapacity = Map.empty,
      pendingReservationIDsByOwner = Map.empty, pendingReservationExpiries = [],
      pendingReservationRuntimes = Map.empty, reservedIndex = {}\<rparr>"

definition zeroRequest :: capacityRequest where
  "zeroRequest = \<lparr>crCPU = 0, crMemoryMB = 0, crDiskGB = 0, crGPUs = 0, crRuntime = []\<rparr>"

definition requestOf :: "(string \<rightharpoonup> capacityRequest) \<Rightarrow> string \<Rightarrow> capacityRequest" where
  "requestOf m owner = (case m owner of None \<Rightarrow> zeroRequest | Some r \<Rightarrow> r)"

definition runtimesOf :: "(string \<rightharpoonup> (string \<rightharpoonup> int)) \<Rightarrow> string \<Rightarrow> (string \<rightharpoonup> int)" where
  "runtimesOf m owner = (case m owner of None \<Rightarrow> Map.empty | Some b \<Rightarrow> b)"

definition runtimeCount :: "(string \<rightharpoonup> int) \<Rightarrow> string \<Rightarrow> int" where
  "runtimeCount b rt = (case b rt of None \<Rightarrow> 0 | Some n \<Rightarrow> n)"

section \<open>Operations\<close>

definition addPendingCapacityLocked :: "string \<Rightarrow> capacityRequest \<Rightarrow> pendingState \<Rightarrow> pendingState" where
  "addPendingCapacityLocked owner req s =
     (if owner = [] then s
      else let cur = requestOf (pendingReservationCapacity s) owner;
               cur = cur\<lparr>crCPU := crCPU cur + crCPU req, crMemoryMB := crMemoryMB cur + crMemoryMB req,
                         crDiskGB := crDiskGB cur + crDiskGB req, crGPUs := crGPUs cur + crGPUs req\<rparr>;
               byRuntime = runtimesOf (pendingReservationRuntimes s) owner
           in s\<lparr>pendingReservationCapacity := (pendingReservationCapacity s)(owner \<mapsto> cur),
                pendingReservationRuntimes := (pendingReservationRuntimes s)(owner \<mapsto>
                  byRuntime(crRuntime req \<mapsto> runtimeCount byRuntime (crRuntime req) + 1))\<rparr>)"

definition subtractPendingRuntime :: "string \<Rightarrow> string \<Rightarrow> pendingState \<Rightarrow> pendingState" where
  "subtractPendingRuntime owner rt s =
     (case pendingReservationRuntimes s owner of
        None \<Rightarrow> s
      | Some byRuntime \<Rightarrow>
          let byRuntime = (if runtimeCount byRuntime rt \<le> 1 then byRuntime(rt := None)
                           else byRuntime(rt \<mapsto> runtimeCount byRuntime rt - 1))
          in s\<lparr>pendingReservationRuntimes :=
                 (if byRuntime = Map.empty then (pendingReservationRuntimes s)(owner := None)
                  else (pendingReservationRuntimes s)(owner \<mapsto> byRuntime))\<rparr>)"

definition subtractPendingCapacityLocked :: "string \<Rightarrow> capacityRequest \<Rightarrow> pendingState \<Rightarrow> pendingState" where
  "subtractPendingCapacityLocked owner req s =
     (if owner = [] then s
      else let s = subtractPendingRuntime owner (crRuntime req) s;
               cur = requestOf (pendingReservationCapacity s) owner;
               cur = cur\<lparr>crCPU := crCPU cur - crCPU req, crMemoryMB := crMemoryMB cur - crMemoryMB req,
                         crDiskGB := crDiskGB cur - crDiskGB req, crGPUs := crGPUs cur - crGPUs req\<rparr>
           in s\<lparr>pendingReservationCapacity :=
                  (if crCPU cur = 0 \<and> crMemoryMB cur = 0 \<and> crDiskGB cur = 0 \<and> crGPUs cur = 0
                   then (pendingReservationCapacity s)(owner := None)
                   else (pendingReservationCapacity s)(owner \<mapsto> cur))\<rparr>)"

definition claimPendingReservationOwnerLocked :: "string \<Rightarrow> string \<Rightarrow> pendingState \<Rightarrow> pendingState" where
  "claimPendingReservationOwnerLocked sandboxID owner s =
     (if sandboxID = [] \<or> owner = [] then s
      else s\<lparr>pendingReservationIDsByOwner := idxAdd owner sandboxID (pendingReservationIDsByOwner s)\<rparr>)"

definition releasePendingReservationOwnerLocked :: "string \<Rightarrow> string \<Rightarrow> pendingState \<Rightarrow> pendingState" where
  "releasePendingReservationOwnerLocked sandboxID owner s =
     (if sandboxID = [] \<or> owner = [] then s
      else s\<lparr>pendingReservationIDsByOwner := idxDel owner sandboxID (pendingReservationIDsByOwner s)\<rparr>)"

definition pushExpiry :: "string \<Rightarrow> int \<Rightarrow> pendingState \<Rightarrow> pendingState" where
  "pushExpiry sandboxID expiresUnix s =
     (if expiresUnix > 0
      then s\<lparr>pendingReservationExpiries :=
               expiryPush \<lparr>peSandboxID = sandboxID, peExpiresUnix = expiresUnix\<rparr> (pendingReservationExpiries s)\<rparr>
      else s)"

definition claimPendingReservationLocked :: "string \<Rightarrow> Placement \<Rightarrow> pendingState \<Rightarrow> pendingState" where
  "claimPendingReservationLocked sandboxID p s =
     (if sandboxID = [] \<or> \<not> IsReserved p then s
      else let s = (case pendingReservationClaims s sandboxID of
                      None \<Rightarrow> s
                    | Some old \<Rightarrow>
                        let s = subtractPendingCapacityLocked (pcOwnerNodeID old) (pcRequest old) s
                        in if pcOwnerNodeID old \<noteq> pOwnerNodeID p
                           then releasePendingReservationOwnerLocked sandboxID (pcOwnerNodeID old) s else s);
               claim = \<lparr>pcOwnerNodeID = pOwnerNodeID p, pcRequest = capacityRequestFromSpec (pSpec p),
                        pcExpiresUnix = pExpiresUnix p\<rparr>;
               s = s\<lparr>pendingReservationClaims := (pendingReservationClaims s)(sandboxID \<mapsto> claim)\<rparr>;
               s = addPendingCapacityLocked (pcOwnerNodeID claim) (pcRequest claim) s;
               s = claimPendingReservationOwnerLocked sandboxID (pcOwnerNodeID claim) s;
               s = s\<lparr>reservedIndex := insert sandboxID (reservedIndex s)\<rparr>
           in pushExpiry sandboxID (pcExpiresUnix claim) s)"

definition releasePendingReservationClaimLocked :: "string \<Rightarrow> pendingState \<Rightarrow> pendingState" where
  "releasePendingReservationClaimLocked sandboxID s =
     (case pendingReservationClaims s sandboxID of
        None \<Rightarrow> s
      | Some claim \<Rightarrow>
          let s = subtractPendingCapacityLocked (pcOwnerNodeID claim) (pcRequest claim) s
          in s\<lparr>pendingReservationClaims := (pendingReservationClaims s)(sandboxID := None)\<rparr>)"

definition releasePendingReservationLocked :: "string \<Rightarrow> pendingState \<Rightarrow> pendingState" where
  "releasePendingReservationLocked sandboxID s =
     (let s = releasePendingReservationClaimLocked sandboxID s
      in s\<lparr>reservedIndex := reservedIndex s - {sandboxID}\<rparr>)"

definition pendingReservationIDsLocked :: "string \<Rightarrow> pendingState \<Rightarrow> string list" where
  "pendingReservationIDsLocked owner s =
     (if owner = [] then [] else sorted_list_of_set (idxGet (pendingReservationIDsByOwner s) owner))"

definition refreshPendingReservationExpiryLocked :: "string \<Rightarrow> int \<Rightarrow> pendingState \<Rightarrow> pendingState" where
  "refreshPendingReservationExpiryLocked sandboxID expiresUnix s =
     (case pendingReservationClaims s sandboxID of
        None \<Rightarrow> s
      | Some claim \<Rightarrow>
          pushExpiry sandboxID expiresUnix
            (s\<lparr>pendingReservationClaims :=
                 (pendingReservationClaims s)(sandboxID \<mapsto> claim\<lparr>pcExpiresUnix := expiresUnix\<rparr>)\<rparr>))"

lemma subtract_fields [simp]:
  "pendingReservationClaims (subtractPendingCapacityLocked o' r s) = pendingReservationClaims s"
  "pendingReservationIDsByOwner (subtractPendingCapacityLocked o' r s) = pendingReservationIDsByOwner s"
  "pendingReservationExpiries (subtractPendingCapacityLocked o' r s) = pendingReservationExpiries s"
  "reservedIndex (subtractPendingCapacityLocked o' r s) = reservedIndex s"
  by (simp_all add: subtractPendingCapacityLocked_def subtractPendingRuntime_def Let_def split: option.split)

lemma releaseClaim_expiries [simp]:
  "pendingReservationExpiries (releasePendingReservationClaimLocked i s) = pendingReservationExpiries s"
  by (simp add: releasePendingReservationClaimLocked_def Let_def split: option.split)

text \<open>One round of the loop of \<^verbatim>\<open>pruneExpiredPendingReservationsLocked\<close>: pop the root, and release the claim
  it names unless the claim has since been refreshed or dropped.\<close>

definition pruneRoot :: "pendingState \<Rightarrow> pendingState" where
  "pruneRoot s =
     (let (nxt, rest) = expiryPop (pendingReservationExpiries s);
          s = s\<lparr>pendingReservationExpiries := rest\<rparr>
      in case pendingReservationClaims s (peSandboxID nxt) of
           None \<Rightarrow> s
         | Some claim \<Rightarrow>
             if pcExpiresUnix claim \<noteq> peExpiresUnix nxt then s
             else releasePendingReservationClaimLocked (peSandboxID nxt) s)"

lemma pruneRoot_expiries: "pendingReservationExpiries (pruneRoot s) = snd (expiryPop (pendingReservationExpiries s))"
  by (simp add: pruneRoot_def Let_def split: prod.split option.split)

function pruneLoop :: "int \<Rightarrow> pendingState \<Rightarrow> pendingState" where
  "pruneLoop now s =
     (if pendingReservationExpiries s = [] then s
      else let nxt = pendingReservationExpiries s ! 0
           in if peExpiresUnix nxt \<le> 0 \<or> now \<le> peExpiresUnix nxt then s
              else pruneLoop now (pruneRoot s))"
  by pat_completeness auto
termination
  by (relation "measure (\<lambda>(now, s). length (pendingReservationExpiries s))")
    (auto simp: pruneRoot_expiries length_expiryPop)

declare pruneLoop.simps [simp del]

definition pruneExpiredPendingReservationsLocked :: "int \<Rightarrow> pendingState \<Rightarrow> pendingState" where
  "pruneExpiredPendingReservationsLocked now s = (if now \<le> 0 then s else pruneLoop now s)"

definition pendingReservationLoadByNode ::
  "int \<Rightarrow> pendingState
     \<Rightarrow> ((string \<rightharpoonup> capacityRequest) \<times> (string \<rightharpoonup> (string \<rightharpoonup> int))) \<times> pendingState" where
  "pendingReservationLoadByNode now s =
     (let s = pruneExpiredPendingReservationsLocked now s
      in ((pendingReservationCapacity s, pendingReservationRuntimes s), s))"

definition pendingReservationsByNode ::
  "int \<Rightarrow> pendingState \<Rightarrow> (string \<rightharpoonup> capacityRequest) \<times> pendingState" where
  "pendingReservationsByNode now s =
     (let ((out, _), s) = pendingReservationLoadByNode now s in (out, s))"

definition claimLive :: "int \<Rightarrow> pendingReservationClaim \<Rightarrow> bool" where
  "claimLive now c \<longleftrightarrow> pcExpiresUnix c \<le> 0 \<or> now \<le> pcExpiresUnix c"

definition livePendingReservationCount :: "string \<Rightarrow> int \<Rightarrow> pendingState \<Rightarrow> nat \<times> pendingState" where
  "livePendingReservationCount owner now s =
     (if owner = [] then (0, s)
      else let s = pruneExpiredPendingReservationsLocked now s
           in (card {i \<in> idxGet (pendingReservationIDsByOwner s) owner.
                      case pendingReservationClaims s i of None \<Rightarrow> False | Some c \<Rightarrow> claimLive now c}, s))"

section \<open>The ledger is exact\<close>

definition ownedBy :: "string \<Rightarrow> (pendingReservationClaim \<Rightarrow> int) \<Rightarrow> pendingReservationClaim \<Rightarrow> int" where
  "ownedBy owner v c = (if pcOwnerNodeID c = owner then v c else 0)"

definition runs :: "string \<Rightarrow> pendingReservationClaim \<Rightarrow> int" where
  "runs rt c = (if crRuntime (pcRequest c) = rt then 1 else 0)"

text \<open>The load of one node as the sum over a set of claims: the three integer axes and the count by runtime.\<close>

definition loadIs ::
  "(string \<rightharpoonup> pendingReservationClaim) \<Rightarrow> (string \<rightharpoonup> capacityRequest)
     \<Rightarrow> (string \<rightharpoonup> (string \<rightharpoonup> int)) \<Rightarrow> string \<Rightarrow> bool" where
  "loadIs claims cap rts owner \<longleftrightarrow>
     crMemoryMB (requestOf cap owner) = tally claims (ownedBy owner (\<lambda>c. crMemoryMB (pcRequest c))) \<and>
     crDiskGB (requestOf cap owner) = tally claims (ownedBy owner (\<lambda>c. crDiskGB (pcRequest c))) \<and>
     crGPUs (requestOf cap owner) = tally claims (ownedBy owner (\<lambda>c. crGPUs (pcRequest c))) \<and>
     (\<forall>rt. runtimeCount (runtimesOf rts owner) rt = tally claims (ownedBy owner (runs rt)))"

definition ledgerExact :: "pendingState \<Rightarrow> bool" where
  "ledgerExact s \<longleftrightarrow> finite (dom (pendingReservationClaims s)) \<and>
     (\<forall>owner. owner \<noteq> [] \<longrightarrow>
        loadIs (pendingReservationClaims s) (pendingReservationCapacity s) (pendingReservationRuntimes s) owner)"

definition expiriesCover :: "pendingState \<Rightarrow> bool" where
  "expiriesCover s \<longleftrightarrow> expiryHeap (pendingReservationExpiries s) \<and>
     (\<forall>e \<in> set (pendingReservationExpiries s). peExpiresUnix e > 0) \<and>
     (\<forall>i c. pendingReservationClaims s i = Some c \<longrightarrow> pcExpiresUnix c > 0 \<longrightarrow>
        \<lparr>peSandboxID = i, peExpiresUnix = pcExpiresUnix c\<rparr> \<in> set (pendingReservationExpiries s))"

lemma requestOf_upd [simp]:
  "requestOf (m(o' \<mapsto> r)) owner = (if owner = o' then r else requestOf m owner)"
  "requestOf (m(o' := None)) owner = (if owner = o' then zeroRequest else requestOf m owner)"
  by (simp_all add: requestOf_def)

lemma runtimesOf_upd [simp]:
  "runtimesOf (m(o' \<mapsto> b)) owner = (if owner = o' then b else runtimesOf m owner)"
  "runtimesOf (m(o' := None)) owner = (if owner = o' then Map.empty else runtimesOf m owner)"
  by (simp_all add: runtimesOf_def)

lemma runtimeCount_upd [simp]:
  "runtimeCount (b(rt \<mapsto> n)) r = (if r = rt then n else runtimeCount b r)"
  "runtimeCount (b(rt := None)) r = (if r = rt then 0 else runtimeCount b r)"
  "runtimeCount Map.empty r = 0"
  by (simp_all add: runtimeCount_def)

lemma subtract_axes:
  assumes "owner \<noteq> []"
  shows "crMemoryMB (requestOf (pendingReservationCapacity (subtractPendingCapacityLocked owner req s)) j) =
           crMemoryMB (requestOf (pendingReservationCapacity s) j) - (if j = owner then crMemoryMB req else 0)"
    and "crDiskGB (requestOf (pendingReservationCapacity (subtractPendingCapacityLocked owner req s)) j) =
           crDiskGB (requestOf (pendingReservationCapacity s) j) - (if j = owner then crDiskGB req else 0)"
    and "crGPUs (requestOf (pendingReservationCapacity (subtractPendingCapacityLocked owner req s)) j) =
           crGPUs (requestOf (pendingReservationCapacity s) j) - (if j = owner then crGPUs req else 0)"
  using assms by (auto simp: subtractPendingCapacityLocked_def subtractPendingRuntime_def Let_def zeroRequest_def
      split: option.split)

lemma subtract_runtimes:
  assumes "owner \<noteq> []" and "1 \<le> runtimeCount (runtimesOf (pendingReservationRuntimes s) owner) (crRuntime req)"
  shows "runtimeCount (runtimesOf (pendingReservationRuntimes (subtractPendingCapacityLocked owner req s)) j) rt =
           runtimeCount (runtimesOf (pendingReservationRuntimes s) j) rt -
             (if j = owner \<and> rt = crRuntime req then 1 else 0)"
proof (cases "pendingReservationRuntimes s owner")
  case None
  then show ?thesis using assms(2) by (simp add: runtimesOf_def)
next
  case (Some b)
  let ?b = "if runtimeCount b (crRuntime req) \<le> 1 then b(crRuntime req := None)
            else b(crRuntime req \<mapsto> runtimeCount b (crRuntime req) - 1)"
  have b: "runtimesOf (pendingReservationRuntimes s) owner = b" by (simp add: runtimesOf_def Some)
  have "runtimesOf (pendingReservationRuntimes (subtractPendingCapacityLocked owner req s)) owner = ?b"
    using assms(1) by (auto simp: subtractPendingCapacityLocked_def subtractPendingRuntime_def Let_def Some)
  moreover have "runtimesOf (pendingReservationRuntimes (subtractPendingCapacityLocked owner req s)) j =
      runtimesOf (pendingReservationRuntimes s) j" if "j \<noteq> owner"
    using assms(1) that by (simp add: subtractPendingCapacityLocked_def subtractPendingRuntime_def Let_def Some)
  ultimately show ?thesis using assms(2) b by (cases "j = owner") auto
qed

text \<open>Dropping a claim and its share; entering a claim and its share.\<close>

lemma ledger_release:
  assumes "ledgerExact s"
  shows "ledgerExact (releasePendingReservationClaimLocked i s)"
proof (cases "pendingReservationClaims s i")
  case None
  then show ?thesis using assms by (simp add: releasePendingReservationClaimLocked_def)
next
  case (Some c)
  let ?m = "pendingReservationClaims s" and ?ow = "pcOwnerNodeID c" and ?req = "pcRequest c"
  have fin: "finite (dom ?m)" using assms by (simp add: ledgerExact_def)
  have load: "loadIs ?m (pendingReservationCapacity s) (pendingReservationRuntimes s) owner" if "owner \<noteq> []" for owner
    using assms that by (simp add: ledgerExact_def)
  have one: "1 \<le> runtimeCount (runtimesOf (pendingReservationRuntimes s) ?ow) (crRuntime ?req)" if "?ow \<noteq> []"
    using load[OF that] tally_member[OF fin Some, of "ownedBy ?ow (runs (crRuntime ?req))"]
    by (simp add: loadIs_def ownedBy_def runs_def)
  have "loadIs (?m(i := None)) (pendingReservationCapacity (subtractPendingCapacityLocked ?ow ?req s))
          (pendingReservationRuntimes (subtractPendingCapacityLocked ?ow ?req s)) owner" if o: "owner \<noteq> []" for owner
  proof (cases "?ow = []")
    case True
    then show ?thesis using load[OF o] o
      by (simp add: loadIs_def tally_remove[OF fin Some] ownedBy_def subtractPendingCapacityLocked_def)
  next
    case False
    show ?thesis
      using load[OF o] unfolding loadIs_def
      by (auto simp: tally_remove[OF fin Some] subtract_axes[OF False] subtract_runtimes[OF False one[OF False]]
          ownedBy_def runs_def)
  qed
  then show ?thesis using fin by (simp add: ledgerExact_def releasePendingReservationClaimLocked_def Some Let_def)
qed

lemma add_fields [simp]:
  "pendingReservationClaims (addPendingCapacityLocked o' r s) = pendingReservationClaims s"
  "pendingReservationExpiries (addPendingCapacityLocked o' r s) = pendingReservationExpiries s"
  "pendingReservationIDsByOwner (addPendingCapacityLocked o' r s) = pendingReservationIDsByOwner s"
  "reservedIndex (addPendingCapacityLocked o' r s) = reservedIndex s"
  by (simp_all add: addPendingCapacityLocked_def Let_def)

lemma ledger_enter:
  assumes "ledgerExact s" and "pendingReservationClaims s i = None"
  shows "ledgerExact (addPendingCapacityLocked (pcOwnerNodeID c) (pcRequest c)
           (s\<lparr>pendingReservationClaims := (pendingReservationClaims s)(i \<mapsto> c)\<rparr>))"
proof -
  have fin: "finite (dom (pendingReservationClaims s))" using assms by (simp add: ledgerExact_def)
  show ?thesis
    using assms fin unfolding ledgerExact_def loadIs_def
    by (auto simp: addPendingCapacityLocked_def Let_def tally_insert ownedBy_def runs_def)
qed

lemma owner_fields [simp]:
  "pendingReservationClaims (claimPendingReservationOwnerLocked i o' s) = pendingReservationClaims s"
  "pendingReservationExpiries (claimPendingReservationOwnerLocked i o' s) = pendingReservationExpiries s"
  "pendingReservationClaims (releasePendingReservationOwnerLocked i o' s) = pendingReservationClaims s"
  "pendingReservationExpiries (releasePendingReservationOwnerLocked i o' s) = pendingReservationExpiries s"
  "ledgerExact (claimPendingReservationOwnerLocked i o' s) = ledgerExact s"
  "ledgerExact (releasePendingReservationOwnerLocked i o' s) = ledgerExact s"
  by (simp_all add: claimPendingReservationOwnerLocked_def releasePendingReservationOwnerLocked_def ledgerExact_def)

lemma push_fields [simp]:
  "pendingReservationClaims (pushExpiry i x s) = pendingReservationClaims s"
  "ledgerExact (pushExpiry i x s) = ledgerExact s"
  by (simp_all add: pushExpiry_def ledgerExact_def)

lemma ledgerExact_add_cong:
  "pendingReservationClaims a = pendingReservationClaims b \<Longrightarrow>
   pendingReservationCapacity a = pendingReservationCapacity b \<Longrightarrow>
   pendingReservationRuntimes a = pendingReservationRuntimes b \<Longrightarrow>
   ledgerExact (addPendingCapacityLocked o' r a) \<longleftrightarrow> ledgerExact (addPendingCapacityLocked o' r b)"
  by (cases "o' = []") (simp_all add: ledgerExact_def addPendingCapacityLocked_def Let_def)

text \<open>A claim replaces the old one: it is a release followed by an entry, up to the owner sets.\<close>

lemma claim_decomp:
  assumes "i \<noteq> []" and "IsReserved p"
  shows "\<exists>t. claimPendingReservationLocked i p s = pushExpiry i (pExpiresUnix p) t \<and>
     pendingReservationExpiries t = pendingReservationExpiries s \<and>
     pendingReservationClaims t = (pendingReservationClaims s)(i \<mapsto>
       \<lparr>pcOwnerNodeID = pOwnerNodeID p, pcRequest = capacityRequestFromSpec (pSpec p), pcExpiresUnix = pExpiresUnix p\<rparr>) \<and>
     (ledgerExact s \<longrightarrow> ledgerExact t)"
proof -
  let ?c = "\<lparr>pcOwnerNodeID = pOwnerNodeID p, pcRequest = capacityRequestFromSpec (pSpec p), pcExpiresUnix = pExpiresUnix p\<rparr>"
  define old where "old = (case pendingReservationClaims s i of None \<Rightarrow> s
      | Some old \<Rightarrow> let s = subtractPendingCapacityLocked (pcOwnerNodeID old) (pcRequest old) s
                   in if pcOwnerNodeID old \<noteq> pOwnerNodeID p
                      then releasePendingReservationOwnerLocked i (pcOwnerNodeID old) s else s)"
  define t where "t = (let s = addPendingCapacityLocked (pcOwnerNodeID ?c) (pcRequest ?c)
        (old\<lparr>pendingReservationClaims := (pendingReservationClaims old)(i \<mapsto> ?c)\<rparr>);
      s = claimPendingReservationOwnerLocked i (pcOwnerNodeID ?c) s
    in s\<lparr>reservedIndex := insert i (reservedIndex s)\<rparr>)"
  have flds: "pendingReservationClaims old = pendingReservationClaims s"
    "pendingReservationExpiries old = pendingReservationExpiries s"
    by (simp_all add: old_def Let_def split: option.split)
  have "ledgerExact t" if ex: "ledgerExact s"
  proof -
    let ?r = "releasePendingReservationClaimLocked i s"
    have r: "ledgerExact ?r" "pendingReservationClaims ?r i = None"
      "pendingReservationClaims ?r = (pendingReservationClaims s)(i := None)"
      using ledger_release[OF ex, of i]
      by (auto simp: releasePendingReservationClaimLocked_def Let_def split: option.split)
    have same: "pendingReservationCapacity old = pendingReservationCapacity ?r"
      "pendingReservationRuntimes old = pendingReservationRuntimes ?r"
      by (auto simp: old_def releasePendingReservationClaimLocked_def releasePendingReservationOwnerLocked_def Let_def
          split: option.split)
    have "ledgerExact (addPendingCapacityLocked (pcOwnerNodeID ?c) (pcRequest ?c)
        (?r\<lparr>pendingReservationClaims := (pendingReservationClaims ?r)(i \<mapsto> ?c)\<rparr>))"
      by (rule ledger_enter[OF r(1,2)])
    then have "ledgerExact (addPendingCapacityLocked (pcOwnerNodeID ?c) (pcRequest ?c)
        (old\<lparr>pendingReservationClaims := (pendingReservationClaims old)(i \<mapsto> ?c)\<rparr>))"
      by (rule ledgerExact_add_cong[THEN iffD1, rotated 3]) (simp_all add: same flds r(3))
    then have "ledgerExact (claimPendingReservationOwnerLocked i (pcOwnerNodeID ?c)
        (addPendingCapacityLocked (pcOwnerNodeID ?c) (pcRequest ?c)
          (old\<lparr>pendingReservationClaims := (pendingReservationClaims old)(i \<mapsto> ?c)\<rparr>)))"
      by (simp only: owner_fields)
    then show ?thesis by (simp add: t_def Let_def ledgerExact_def)
  qed
  moreover have "claimPendingReservationLocked i p s = pushExpiry i (pExpiresUnix p) t"
    using assms by (simp add: claimPendingReservationLocked_def t_def old_def Let_def split: option.split)
  ultimately show ?thesis using flds by (intro exI[of _ t]) (simp add: t_def Let_def)
qed

lemma cover_push:
  assumes "expiryHeap (pendingReservationExpiries t)"
    and "\<And>e. e \<in> set (pendingReservationExpiries t) \<Longrightarrow> peExpiresUnix e > 0"
    and "\<And>j c. pendingReservationClaims t j = Some c \<Longrightarrow> pcExpiresUnix c > 0 \<Longrightarrow> j \<noteq> i \<Longrightarrow>
           \<lparr>peSandboxID = j, peExpiresUnix = pcExpiresUnix c\<rparr> \<in> set (pendingReservationExpiries t)"
    and "\<And>c. pendingReservationClaims t i = Some c \<Longrightarrow> pcExpiresUnix c = x"
  shows "expiriesCover (pushExpiry i x t)"
  unfolding expiriesCover_def
proof (intro conjI ballI allI impI)
  show "expiryHeap (pendingReservationExpiries (pushExpiry i x t))"
    using assms(1) by (simp add: pushExpiry_def expiryHeap_push)
  show "peExpiresUnix e > 0" if "e \<in> set (pendingReservationExpiries (pushExpiry i x t))" for e
    using that assms(2) by (auto simp: pushExpiry_def split: if_splits)
  show "\<lparr>peSandboxID = j, peExpiresUnix = pcExpiresUnix c\<rparr> \<in> set (pendingReservationExpiries (pushExpiry i x t))"
    if "pendingReservationClaims (pushExpiry i x t) j = Some c" "pcExpiresUnix c > 0" for j c
  proof (cases "j = i")
    case True
    then have "x = pcExpiresUnix c" using assms(4) that(1) by simp
    then show ?thesis using that(2) True by (simp add: pushExpiry_def)
  next
    case False
    then have "\<lparr>peSandboxID = j, peExpiresUnix = pcExpiresUnix c\<rparr> \<in> set (pendingReservationExpiries t)"
      using assms(3)[of j c] that by simp
    then show ?thesis by (simp add: pushExpiry_def)
  qed
qed

lemma coverD:
  assumes "expiriesCover s"
  shows "expiryHeap (pendingReservationExpiries s)"
    and "e \<in> set (pendingReservationExpiries s) \<Longrightarrow> peExpiresUnix e > 0"
    and "pendingReservationClaims s i = Some c \<Longrightarrow> pcExpiresUnix c > 0 \<Longrightarrow>
           \<lparr>peSandboxID = i, peExpiresUnix = pcExpiresUnix c\<rparr> \<in> set (pendingReservationExpiries s)"
  using assms unfolding expiriesCover_def by blast+

definition pendingOk :: "pendingState \<Rightarrow> bool" where
  "pendingOk s \<longleftrightarrow> ledgerExact s \<and> expiriesCover s"

lemma pendingOk_new: "pendingOk newPendingState"
  by (simp add: pendingOk_def ledgerExact_def loadIs_def expiriesCover_def newPendingState_def requestOf_def
      runtimesOf_def zeroRequest_def)

lemma pendingOk_claim: "pendingOk s \<Longrightarrow> pendingOk (claimPendingReservationLocked i p s)"
proof (cases "i = [] \<or> \<not> IsReserved p")
  case False
  assume ok: "pendingOk s"
  from False obtain t where t: "claimPendingReservationLocked i p s = pushExpiry i (pExpiresUnix p) t"
    "pendingReservationExpiries t = pendingReservationExpiries s"
    "pendingReservationClaims t = (pendingReservationClaims s)(i \<mapsto>
       \<lparr>pcOwnerNodeID = pOwnerNodeID p, pcRequest = capacityRequestFromSpec (pSpec p), pcExpiresUnix = pExpiresUnix p\<rparr>)"
    "ledgerExact s \<longrightarrow> ledgerExact t"
    using claim_decomp[of i p s] by blast
  have "expiriesCover (pushExpiry i (pExpiresUnix p) t)"
    using ok coverD[of s] by (intro cover_push) (auto simp: pendingOk_def t)
  then show ?thesis using ok t by (simp add: pendingOk_def)
qed (simp add: claimPendingReservationLocked_def)

lemma releaseClaim_claims:
  "pendingReservationClaims (releasePendingReservationClaimLocked i s) = (pendingReservationClaims s)(i := None)"
  by (auto simp: releasePendingReservationClaimLocked_def Let_def split: option.split)

lemma pendingOk_releaseClaim: "pendingOk s \<Longrightarrow> pendingOk (releasePendingReservationClaimLocked i s)"
  unfolding pendingOk_def
proof (intro conjI)
  assume ok: "ledgerExact s \<and> expiriesCover s"
  then show "ledgerExact (releasePendingReservationClaimLocked i s)" by (simp add: ledger_release)
  from ok show "expiriesCover (releasePendingReservationClaimLocked i s)"
    by (simp add: expiriesCover_def releaseClaim_claims)
qed

lemma pendingOk_release: "pendingOk s \<Longrightarrow> pendingOk (releasePendingReservationLocked i s)"
  using pendingOk_releaseClaim[of s i]
  by (simp add: releasePendingReservationLocked_def Let_def pendingOk_def ledgerExact_def expiriesCover_def)

lemma pendingOk_releaseOwner: "pendingOk s \<Longrightarrow> pendingOk (releasePendingReservationOwnerLocked i o' s)"
  by (simp add: pendingOk_def expiriesCover_def)

lemma pendingOk_refresh:
  assumes "pendingOk s"
  shows "pendingOk (refreshPendingReservationExpiryLocked i x s)"
proof (cases "pendingReservationClaims s i")
  case (Some c)
  let ?t = "s\<lparr>pendingReservationClaims := (pendingReservationClaims s)(i \<mapsto> c\<lparr>pcExpiresUnix := x\<rparr>)\<rparr>"
  have fin: "finite (dom (pendingReservationClaims s))" using assms by (simp add: pendingOk_def ledgerExact_def)
  have "ledgerExact ?t"
    using assms by (simp add: pendingOk_def ledgerExact_def loadIs_def tally_replace[OF fin Some] ownedBy_def runs_def)
  moreover have "expiriesCover (pushExpiry i x ?t)"
    using assms coverD[of s] by (intro cover_push) (auto simp: pendingOk_def)
  ultimately show ?thesis by (simp add: pendingOk_def refreshPendingReservationExpiryLocked_def Some)
qed (use assms in \<open>simp add: refreshPendingReservationExpiryLocked_def\<close>)

section \<open>Lazy expiry\<close>

definition liveClaims :: "int \<Rightarrow> pendingState \<Rightarrow> (string \<rightharpoonup> pendingReservationClaim)" where
  "liveClaims now s =
     (\<lambda>i. case pendingReservationClaims s i of None \<Rightarrow> None | Some c \<Rightarrow> if claimLive now c then Some c else None)"

lemma pendingOk_pruneRoot:
  assumes ok: "pendingOk s" and ne: "pendingReservationExpiries s \<noteq> []"
  shows "pendingOk (pruneRoot s)"
proof -
  let ?h = "pendingReservationExpiries s"
  let ?e = "?h ! 0" and ?rest = "snd (expiryPop ?h)"
  let ?t = "s\<lparr>pendingReservationExpiries := ?rest\<rparr>"
  have h: "expiryHeap ?h" using ok by (simp add: pendingOk_def expiriesCover_def)
  have pop: "fst (expiryPop ?h) = ?e" "expiryHeap ?rest" "insert ?e (set ?rest) = set ?h"
    using expiryPop_spec[OF h ne] expiryPop_set[OF h ne] by auto
  have eq: "pruneRoot s = (case pendingReservationClaims s (peSandboxID ?e) of None \<Rightarrow> ?t
      | Some c \<Rightarrow> if pcExpiresUnix c \<noteq> peExpiresUnix ?e then ?t
                  else releasePendingReservationClaimLocked (peSandboxID ?e) ?t)"
    using pop(1) by (simp add: pruneRoot_def Let_def case_prod_beta split: option.split)
  have lt: "ledgerExact ?t" using ok by (simp add: pendingOk_def ledgerExact_def)
  have pos: "peExpiresUnix e > 0" if "e \<in> set ?rest" for e
    using coverD(2)[of s e] ok that pop(3) by (auto simp: pendingOk_def)
  have cov: "\<lparr>peSandboxID = i, peExpiresUnix = pcExpiresUnix c\<rparr> \<in> insert ?e (set ?rest)"
    if "pendingReservationClaims s i = Some c" "pcExpiresUnix c > 0" for i c
    using coverD(3)[of s i c] ok that pop(3) by (simp add: pendingOk_def)
  have rest: "\<lparr>peSandboxID = i, peExpiresUnix = pcExpiresUnix c\<rparr> \<in> set ?rest"
    if "pendingReservationClaims s i = Some c" "pcExpiresUnix c > 0"
      and "\<not> (i = peSandboxID ?e \<and> pcExpiresUnix c = peExpiresUnix ?e)" for i c
    using cov[OF that(1,2)] that(3)
    by (metis insertE pendingReservationExpiry.select_convs(1,2))
  consider (stale) "pruneRoot s = ?t" "\<And>c. pendingReservationClaims s (peSandboxID ?e) = Some c \<Longrightarrow> pcExpiresUnix c \<noteq> peExpiresUnix ?e"
    | (hit) "pruneRoot s = releasePendingReservationClaimLocked (peSandboxID ?e) ?t"
    using eq by (cases "pendingReservationClaims s (peSandboxID ?e)") (auto split: if_splits)
  then show ?thesis
  proof cases
    case stale
    then show ?thesis using lt pop(2) pos rest by (auto simp: pendingOk_def expiriesCover_def)
  next
    case hit
    then show ?thesis using ledger_release[OF lt] pop(2) pos rest
      by (auto simp: pendingOk_def expiriesCover_def releaseClaim_claims)
  qed
qed

lemma pruneRoot_live:
  assumes ok: "pendingOk s" and ne: "pendingReservationExpiries s \<noteq> []"
    and due: "peExpiresUnix (pendingReservationExpiries s ! 0) > 0" "now > peExpiresUnix (pendingReservationExpiries s ! 0)"
  shows "liveClaims now (pruneRoot s) = liveClaims now s"
proof -
  let ?h = "pendingReservationExpiries s"
  have "fst (expiryPop ?h) = ?h ! 0"
    using expiryPop_spec(1)[OF _ ne] ok by (simp add: pendingOk_def expiriesCover_def)
  then show ?thesis using due
    by (auto simp: liveClaims_def pruneRoot_def Let_def case_prod_beta claimLive_def releaseClaim_claims
        split: option.split)
qed

lemma heap_root_live:
  assumes ok: "pendingOk s"
    and "pendingReservationExpiries s = [] \<or> now \<le> peExpiresUnix (pendingReservationExpiries s ! 0)"
  shows "liveClaims now s = pendingReservationClaims s"
proof
  fix i
  have "claimLive now c" if c: "pendingReservationClaims s i = Some c" for c
  proof (cases "pcExpiresUnix c > 0")
    case True
    have e: "\<lparr>peSandboxID = i, peExpiresUnix = pcExpiresUnix c\<rparr> \<in> set (pendingReservationExpiries s)"
      using coverD(3)[OF _ c True] ok by (simp add: pendingOk_def)
    then have "peExpiresUnix (pendingReservationExpiries s ! 0) \<le> pcExpiresUnix c"
      using expiryHeap_root[OF _ e] ok by (simp add: pendingOk_def expiriesCover_def)
    then show ?thesis using assms(2) e by (auto simp: claimLive_def)
  qed (simp add: claimLive_def)
  then show "liveClaims now s i = pendingReservationClaims s i"
    by (simp add: liveClaims_def split: option.split)
qed

lemma pruneLoop_spec:
  "pendingOk s \<Longrightarrow> pendingOk (pruneLoop now s) \<and> pendingReservationClaims (pruneLoop now s) = liveClaims now s"
proof (induction now s rule: pruneLoop.induct)
  case (1 now s)
  let ?h = "pendingReservationExpiries s"
  show ?case
  proof (cases "?h = [] \<or> now \<le> peExpiresUnix (?h ! 0)")
    case True
    then have "pruneLoop now s = s" by (subst pruneLoop.simps) (auto simp: Let_def)
    then show ?thesis using 1(2) heap_root_live[OF 1(2) True] by simp
  next
    case False
    then have pos: "peExpiresUnix (?h ! 0) > 0"
      using coverD(2)[of s "?h ! 0"] 1(2) by (simp add: pendingOk_def)
    have step: "pruneLoop now s = pruneLoop now (pruneRoot s)"
      using False pos by (subst pruneLoop.simps) (simp add: Let_def)
    show ?thesis
      using 1(1)[OF _ refl] False pos pendingOk_pruneRoot[OF 1(2)] pruneRoot_live[OF 1(2), of now]
      by (simp add: step)
  qed
qed

lemma pendingOk_prune: "pendingOk s \<Longrightarrow> pendingOk (pruneExpiredPendingReservationsLocked now s)"
  by (simp add: pruneExpiredPendingReservationsLocked_def pruneLoop_spec)

section \<open>Runs\<close>

datatype pendingOp =
    PendingClaim string Placement | PendingRelease string | PendingReleaseOwner string string
  | PendingRefresh string int | PendingRead int

fun pendingStep :: "pendingOp \<Rightarrow> pendingState \<Rightarrow> pendingState" where
  "pendingStep (PendingClaim i p) s = claimPendingReservationLocked i p s"
| "pendingStep (PendingRelease i) s = releasePendingReservationLocked i s"
| "pendingStep (PendingReleaseOwner i owner) s = releasePendingReservationOwnerLocked i owner s"
| "pendingStep (PendingRefresh i x) s = refreshPendingReservationExpiryLocked i x s"
| "pendingStep (PendingRead now) s = snd (pendingReservationLoadByNode now s)"

lemma pendingOk_step: "pendingOk s \<Longrightarrow> pendingOk (pendingStep op s)"
  by (cases op) (simp_all add: pendingOk_claim pendingOk_release pendingOk_releaseOwner pendingOk_refresh
      pendingReservationLoadByNode_def Let_def pendingOk_prune)

lemma pendingOk_run: "pendingOk s \<Longrightarrow> pendingOk (fold pendingStep ops s)"
  by (induction ops arbitrary: s) (simp_all add: pendingOk_step)

text \<open>The scheduler sees exactly the live reservations.  After any sequence of claims, releases, expiry
  refreshes and reads of the pending-reservation ledger, the load that a read at a positive time reports for a node
  is the sum of memory, disk and GPUs, and the count per runtime, over exactly the claims on that node that
  have not expired by then; the read itself drops exactly the expired claims.\<close>

theorem pending_load_exact:
  assumes "s = fold pendingStep ops newPendingState" and "now > 0" and "owner \<noteq> []"
    and "pendingReservationLoadByNode now s = ((cap, rts), s')"
  shows "loadIs (liveClaims now s) cap rts owner \<and> pendingReservationClaims s' = liveClaims now s"
proof -
  have "pendingOk s" using assms(1) pendingOk_run[OF pendingOk_new] by simp
  then have "pendingOk (pruneLoop now s)" "pendingReservationClaims (pruneLoop now s) = liveClaims now s"
    using pruneLoop_spec by blast+
  then show ?thesis using assms
    by (auto simp: pendingReservationLoadByNode_def pruneExpiredPendingReservationsLocked_def Let_def
        pendingOk_def ledgerExact_def)
qed

definition pendingExampleRow :: "string \<Rightarrow> int \<Rightarrow> Placement" where
  "pendingExampleRow owner expires =
     zeroPlacement\<lparr>pOwnerNodeID := owner, pState := PlacementStateReserved, pExpiresUnix := expires\<rparr>"

definition pendingExampleOps :: "pendingOp list" where
  "pendingExampleOps = [PendingClaim ''a'' (pendingExampleRow ''n1'' 10), PendingClaim ''b'' (pendingExampleRow ''n1'' 20),
     PendingRefresh ''a'' 30]"

theorem pending_load_exact_witness:
  "loadIs (liveClaims 25 (fold pendingStep pendingExampleOps newPendingState))
     (fst (fst (pendingReservationLoadByNode 25 (fold pendingStep pendingExampleOps newPendingState))))
     (snd (fst (pendingReservationLoadByNode 25 (fold pendingStep pendingExampleOps newPendingState)))) ''n1'' \<and>
   map_option pcExpiresUnix (liveClaims 25 (fold pendingStep pendingExampleOps newPendingState) ''a'') = Some 30 \<and>
   liveClaims 25 (fold pendingStep pendingExampleOps newPendingState) ''b'' = None"
proof -
  let ?s = "fold pendingStep pendingExampleOps newPendingState"
  obtain cap rts s' where r: "pendingReservationLoadByNode 25 ?s = ((cap, rts), s')" by (metis surj_pair)
  have "loadIs (liveClaims 25 ?s) cap rts ''n1''"
    using pending_load_exact[OF refl _ _ r, of "''n1''"] by simp
  moreover have "map_option pcExpiresUnix (liveClaims 25 ?s ''a'') = Some 30" "liveClaims 25 ?s ''b'' = None"
    by (simp_all add: pendingExampleOps_def pendingExampleRow_def newPendingState_def liveClaims_def claimLive_def
        claimPendingReservationLocked_def refreshPendingReservationExpiryLocked_def IsReserved_def Let_def)
  ultimately show ?thesis using r by simp
qed

end
