(* ===== verification/Audit_Index.thy ===== *)
theory Audit_Index
  imports Placement_Types "HOL-Library.Product_Lexorder"
begin

text \<open>
  The post-delete audit index (\<^verbatim>\<open>internal/cluster/fsm.go\<close>): for a grace window after a delete it
  remembers which nodes may hold evidence about the sandbox.  The state is the five audit fields of
  \<^verbatim>\<open>placementFSM\<close>; a btree is the list of its items in the tree's order, and a nil tree is \<^verbatim>\<open>None\<close>.  The two
  derived orderings drive the eviction loop and the prune loop, whose termination does not rest on
  their being consistent with the table.  Shown: the orderings, the per-sandbox sets and the latest
  pointers stay exact, a retain never leaves more stubs than its cap and evicts the oldest, and a
  prune removes exactly the stubs that are due.
\<close>

section \<open>Records\<close>

record AuditACL =
  aaSandboxID :: string
  aaIncarnationID :: string
  aaOwnerRef :: string
  aaAuditNodeIDs :: "string list"
  aaAuditNodesTruncated :: bool
  aaExpiresUnix :: int
  aaRetainedVersion :: nat

record auditACLOrder =
  aoVersion :: nat
  aoExpires :: int
  aoKey :: string

record auditState =
  auditACLs :: "string \<rightharpoonup> AuditACL"
  auditACLLatest :: "string \<rightharpoonup> string"
  auditACLBySandbox :: "string \<rightharpoonup> string set"
  auditACLByVersion :: "auditACLOrder list option"
  auditACLByExpiry :: "auditACLOrder list option"

definition newAuditState :: auditState where
  "newAuditState = \<lparr>auditACLs = Map.empty, auditACLLatest = Map.empty, auditACLBySandbox = Map.empty,
                    auditACLByVersion = None, auditACLByExpiry = None\<rparr>"

definition maxRetainedAuditACLs :: int where "maxRetainedAuditACLs = 100000"

definition auditACLByVersionLess :: "auditACLOrder \<Rightarrow> auditACLOrder \<Rightarrow> bool" where
  "auditACLByVersionLess a b =
     (if aoVersion a \<noteq> aoVersion b then aoVersion a < aoVersion b else aoKey a < aoKey b)"

definition auditACLByExpiryLess :: "auditACLOrder \<Rightarrow> auditACLOrder \<Rightarrow> bool" where
  "auditACLByExpiryLess a b =
     (if aoExpires a \<noteq> aoExpires b then aoExpires a < aoExpires b else auditACLByVersionLess a b)"

definition auditACLOrderOf :: "string \<Rightarrow> AuditACL \<Rightarrow> auditACLOrder" where
  "auditACLOrderOf key acl =
     \<lparr>aoVersion = aaRetainedVersion acl, aoExpires = aaExpiresUnix acl, aoKey = key\<rparr>"

definition auditACLKey :: "string \<Rightarrow> string \<Rightarrow> string" where
  "auditACLKey sandboxID incarnationID = trimSpace sandboxID @ [CHR 0x00] @ trimSpace incarnationID"

definition auditACLUsable :: "AuditACL \<Rightarrow> int \<Rightarrow> bool" where
  "auditACLUsable acl nowUnix \<longleftrightarrow>
     trimSpace (aaSandboxID acl) \<noteq> [] \<and> trimSpace (aaIncarnationID acl) \<noteq> [] \<and>
     (aaExpiresUnix acl \<le> 0 \<or> aaExpiresUnix acl > nowUnix)"

text \<open>Insertion into and deletion from an ordered tree: an item neither less nor greater is the same item.\<close>

definition treePut :: "('a \<Rightarrow> 'a \<Rightarrow> bool) \<Rightarrow> 'a \<Rightarrow> 'a list \<Rightarrow> 'a list" where
  "treePut lt x t = filter (\<lambda>y. lt y x) t @ [x] @ filter (\<lambda>y. lt x y) t"

definition treeDelete :: "('a \<Rightarrow> 'a \<Rightarrow> bool) \<Rightarrow> 'a \<Rightarrow> 'a list \<Rightarrow> 'a list" where
  "treeDelete lt x t = filter (\<lambda>y. lt x y \<or> lt y x) t"

section \<open>Operations\<close>

text \<open>The newest lifecycle of a sandbox: \<^verbatim>\<open>auditACLNewer\<close> orders by version, then by key.\<close>

definition auditVersion :: "auditState \<Rightarrow> string \<Rightarrow> nat" where
  "auditVersion s key = (case auditACLs s key of None \<Rightarrow> 0 | Some acl \<Rightarrow> aaRetainedVersion acl)"

definition refreshAuditACLLatestLocked :: "string \<Rightarrow> auditState \<Rightarrow> auditState" where
  "refreshAuditACLLatestLocked sandboxID s =
     (let ids = idxGet (auditACLBySandbox s) sandboxID
      in s\<lparr>auditACLLatest :=
             (if ids = {} then (auditACLLatest s)(sandboxID := None)
              else (auditACLLatest s)(sandboxID \<mapsto> snd (Max ((\<lambda>key. (auditVersion s key, key)) ` ids))))\<rparr>)"

definition ensureAuditACLIndexesLocked :: "auditState \<Rightarrow> auditState" where
  "ensureAuditACLIndexesLocked s =
     (if auditACLByVersion s = None \<or> auditACLByExpiry s = None
      then let rows = sorted_list_of_set (dom (auditACLs s));
               ords = map (\<lambda>key. auditACLOrderOf key (the (auditACLs s key))) rows;
               s = s\<lparr>auditACLByVersion := Some (fold (treePut auditACLByVersionLess) ords []),
                     auditACLByExpiry := Some (fold (treePut auditACLByExpiryLess) ords []),
                     auditACLBySandbox :=
                       fold (\<lambda>key. idxAdd (aaSandboxID (the (auditACLs s key))) key) rows Map.empty\<rparr>
           in fold refreshAuditACLLatestLocked (sorted_list_of_set (dom (auditACLBySandbox s))) s
      else s)"

definition deleteOrders :: "auditACLOrder \<Rightarrow> auditState \<Rightarrow> auditState" where
  "deleteOrders ord s =
     s\<lparr>auditACLByVersion := map_option (treeDelete auditACLByVersionLess ord) (auditACLByVersion s),
       auditACLByExpiry := map_option (treeDelete auditACLByExpiryLess ord) (auditACLByExpiry s)\<rparr>"

definition removeAuditACLLocked :: "string \<Rightarrow> auditState \<Rightarrow> auditState" where
  "removeAuditACLLocked key s =
     (case auditACLs s key of
        None \<Rightarrow> s
      | Some acl \<Rightarrow>
          let s = s\<lparr>auditACLs := (auditACLs s)(key := None)\<rparr>;
              s = deleteOrders (auditACLOrderOf key acl) s;
              s = s\<lparr>auditACLBySandbox := idxDel (aaSandboxID acl) key (auditACLBySandbox s)\<rparr>
          in refreshAuditACLLatestLocked (aaSandboxID acl) s)"

text \<open>One round of either loop on the first item of a tree: remove its stub, or, when the table has no such
  stub, drop the item itself.\<close>

definition dropFirst :: "auditACLOrder \<Rightarrow> auditState \<Rightarrow> auditState" where
  "dropFirst first s =
     (if auditACLs s (aoKey first) = None then deleteOrders first s
      else removeAuditACLLocked (aoKey first) s)"

lemma refresh_fields [simp]:
  "auditACLs (refreshAuditACLLatestLocked i s) = auditACLs s"
  "auditACLBySandbox (refreshAuditACLLatestLocked i s) = auditACLBySandbox s"
  "auditACLByVersion (refreshAuditACLLatestLocked i s) = auditACLByVersion s"
  "auditACLByExpiry (refreshAuditACLLatestLocked i s) = auditACLByExpiry s"
  by (simp_all add: refreshAuditACLLatestLocked_def Let_def)

lemma remove_fields:
  "auditACLs (removeAuditACLLocked k s) = (auditACLs s)(k := None)"
  "auditACLs s k = Some a \<Longrightarrow> auditACLByVersion (removeAuditACLLocked k s) =
     map_option (treeDelete auditACLByVersionLess (auditACLOrderOf k a)) (auditACLByVersion s)"
  "auditACLs s k = Some a \<Longrightarrow> auditACLByExpiry (removeAuditACLLocked k s) =
     map_option (treeDelete auditACLByExpiryLess (auditACLOrderOf k a)) (auditACLByExpiry s)"
  by (auto simp: removeAuditACLLocked_def deleteOrders_def Let_def split: option.split)

text \<open>The rounds a loop over the tree can still make: two per item, one if the first item has no stub.\<close>

definition roundsLeft :: "auditACLOrder list option \<Rightarrow> auditState \<Rightarrow> nat" where
  "roundsLeft t s =
     (case t of Some (first # rest) \<Rightarrow> 2 * length (first # rest) + (if auditACLs s (aoKey first) = None then 0 else 1)
      | _ \<Rightarrow> 0)"

lemma less_irrefl [simp]: "\<not> auditACLByVersionLess a a" "\<not> auditACLByExpiryLess a a"
  by (simp_all add: auditACLByVersionLess_def auditACLByExpiryLess_def)

lemma treeDelete_length: "length (treeDelete lt x t) \<le> length t"
  by (simp add: treeDelete_def)

lemma roundsLeft_le: "roundsLeft (Some t) s \<le> 2 * length t + 1"
  by (cases t) (simp_all add: roundsLeft_def)

lemma rounds_orphan:
  assumes "\<not> lt first first" and "auditACLs s (aoKey first) = None"
  shows "roundsLeft (Some (treeDelete lt first (first # rest))) s' < roundsLeft (Some (first # rest)) s"
proof -
  have "treeDelete lt first (first # rest) = treeDelete lt first rest" using assms(1) by (simp add: treeDelete_def)
  then show ?thesis
    using roundsLeft_le[of "treeDelete lt first rest" s'] treeDelete_length[of lt first rest] assms(2)
    by (simp add: roundsLeft_def)
qed

lemma rounds_remove:
  assumes "auditACLs s (aoKey first) = Some a" and "auditACLs s' (aoKey first) = None"
  shows "roundsLeft (Some (treeDelete lt x (first # rest))) s' < roundsLeft (Some (first # rest)) s"
proof (cases "lt x first \<or> lt first x")
  case True
  then have "treeDelete lt x (first # rest) = first # treeDelete lt x rest" by (simp add: treeDelete_def)
  then show ?thesis using assms treeDelete_length[of lt x rest] by (simp add: roundsLeft_def)
next
  case False
  then have "treeDelete lt x (first # rest) = treeDelete lt x rest" by (simp add: treeDelete_def)
  then show ?thesis
    using roundsLeft_le[of "treeDelete lt x rest" s'] treeDelete_length[of lt x rest] assms(1)
    by (simp add: roundsLeft_def)
qed

lemma dropFirst_rounds_version:
  assumes "auditACLByVersion s = Some (first # rest)"
  shows "roundsLeft (auditACLByVersion (dropFirst first s)) (dropFirst first s) < roundsLeft (Some (first # rest)) s"
  using assms by (cases "auditACLs s (aoKey first)")
    (simp_all add: dropFirst_def deleteOrders_def remove_fields rounds_orphan rounds_remove)

lemma dropFirst_rounds_expiry:
  assumes "auditACLByExpiry s = Some (first # rest)"
  shows "roundsLeft (auditACLByExpiry (dropFirst first s)) (dropFirst first s) < roundsLeft (Some (first # rest)) s"
  using assms by (cases "auditACLs s (aoKey first)")
    (simp_all add: dropFirst_def deleteOrders_def remove_fields rounds_orphan rounds_remove)

function evictLoop :: "int \<Rightarrow> auditState \<Rightarrow> auditState" where
  "evictLoop cap s =
     (if int (card (dom (auditACLs s))) > cap
      then (case auditACLByVersion s of
              Some (oldest # rest) \<Rightarrow> evictLoop cap (dropFirst oldest s)
            | _ \<Rightarrow> s)
      else s)"
  by pat_completeness auto
termination
  by (relation "measure (\<lambda>(cap, s). roundsLeft (auditACLByVersion s) s)") (auto simp: dropFirst_rounds_version)

declare evictLoop.simps [simp del]

text \<open>The body of \<^verbatim>\<open>retainAuditACLLocked\<close> between its guards and its eviction loop.\<close>

definition storeAuditACL :: "string \<Rightarrow> AuditACL \<Rightarrow> auditState \<Rightarrow> auditState" where
  "storeAuditACL key acl s =
     (let s = ensureAuditACLIndexesLocked s;
          s = (case auditACLs s key of None \<Rightarrow> s | Some old \<Rightarrow> deleteOrders (auditACLOrderOf key old) s);
          ord = auditACLOrderOf key acl;
          s = s\<lparr>auditACLs := (auditACLs s)(key \<mapsto> acl),
                auditACLByVersion := map_option (treePut auditACLByVersionLess ord) (auditACLByVersion s),
                auditACLByExpiry := map_option (treePut auditACLByExpiryLess ord) (auditACLByExpiry s),
                auditACLBySandbox := idxAdd (aaSandboxID acl) key (auditACLBySandbox s)\<rparr>
      in refreshAuditACLLatestLocked (aaSandboxID acl) s)"

definition retainAuditACLLocked :: "AuditACL \<Rightarrow> int \<Rightarrow> auditState \<Rightarrow> auditState" where
  "retainAuditACLLocked acl cap s =
     (let acl = acl\<lparr>aaSandboxID := trimSpace (aaSandboxID acl), aaIncarnationID := trimSpace (aaIncarnationID acl)\<rparr>
      in if aaSandboxID acl = [] \<or> aaIncarnationID acl = [] then s
         else let key = auditACLKey (aaSandboxID acl) (aaIncarnationID acl)
              in if aaExpiresUnix acl \<le> 0 then removeAuditACLLocked key s
                 else evictLoop (if cap \<le> 0 then maxRetainedAuditACLs else cap) (storeAuditACL key acl s))"

function pruneAuditLoop :: "int \<Rightarrow> auditState \<Rightarrow> auditState" where
  "pruneAuditLoop cutoff s =
     (case auditACLByExpiry s of
        Some (first # rest) \<Rightarrow>
          if aoExpires first \<le> 0 \<or> aoExpires first > cutoff then s
          else pruneAuditLoop cutoff (dropFirst first s)
      | _ \<Rightarrow> s)"
  by pat_completeness auto
termination
  by (relation "measure (\<lambda>(cutoff, s). roundsLeft (auditACLByExpiry s) s)") (auto simp: dropFirst_rounds_expiry)

declare pruneAuditLoop.simps [simp del]

definition pruneAuditACLLocked :: "int \<Rightarrow> auditState \<Rightarrow> auditState" where
  "pruneAuditACLLocked cutoff s = pruneAuditLoop cutoff (ensureAuditACLIndexesLocked s)"

definition auditACLForSandbox :: "string \<Rightarrow> string \<Rightarrow> int \<Rightarrow> auditState \<Rightarrow> AuditACL option" where
  "auditACLForSandbox sandboxID incarnationID nowUnix s =
     (let sandboxID = trimSpace sandboxID; incarnationID = trimSpace incarnationID
      in if sandboxID = [] then None
         else if incarnationID \<noteq> []
         then (case auditACLs s (auditACLKey sandboxID incarnationID) of
                 None \<Rightarrow> None | Some acl \<Rightarrow> if auditACLUsable acl nowUnix then Some acl else None)
         else (case auditACLLatest s sandboxID of
                 None \<Rightarrow> None
               | Some key \<Rightarrow>
                   (case auditACLs s key of
                      None \<Rightarrow> None | Some acl \<Rightarrow> if auditACLUsable acl nowUnix then Some acl else None)))"

section \<open>The orderings\<close>

definition ordersOf :: "(string \<rightharpoonup> AuditACL) \<Rightarrow> auditACLOrder set" where
  "ordersOf rows = {auditACLOrderOf k a | k a. rows k = Some a}"

lemma orderOf_key [simp]: "aoKey (auditACLOrderOf k a) = k"
  by (simp add: auditACLOrderOf_def)

lemma in_ordersOf: "y \<in> ordersOf rows \<longleftrightarrow> (\<exists>a. rows (aoKey y) = Some a \<and> y = auditACLOrderOf (aoKey y) a)"
proof
  assume "y \<in> ordersOf rows"
  then obtain k a where "rows k = Some a" "y = auditACLOrderOf k a" by (auto simp: ordersOf_def)
  then show "\<exists>a. rows (aoKey y) = Some a \<and> y = auditACLOrderOf (aoKey y) a" by simp
qed (auto simp: ordersOf_def)

lemma ordersOf_member: "rows k = Some a \<Longrightarrow> auditACLOrderOf k a \<in> ordersOf rows"
  by (auto simp: ordersOf_def)

locale audit_order =
  fixes lt :: "auditACLOrder \<Rightarrow> auditACLOrder \<Rightarrow> bool"
  assumes irrefl: "\<not> lt x x"
    and trans: "lt x y \<Longrightarrow> lt y z \<Longrightarrow> lt x z"
    and total: "aoKey x \<noteq> aoKey y \<Longrightarrow> lt x y \<or> lt y x"
begin

lemma exact_delete:
  assumes "sorted_wrt lt t" and "set t = ordersOf rows" and "rows k = Some a"
  shows "sorted_wrt lt (treeDelete lt (auditACLOrderOf k a) t)"
    and "set (treeDelete lt (auditACLOrderOf k a) t) = ordersOf (rows(k := None))"
proof -
  show "sorted_wrt lt (treeDelete lt (auditACLOrderOf k a) t)"
    using assms(1) by (simp add: treeDelete_def sorted_wrt_filter)
  have "lt (auditACLOrderOf k a) y \<or> lt y (auditACLOrderOf k a) \<longleftrightarrow> aoKey y \<noteq> k" if "y \<in> ordersOf rows" for y
  proof (cases "aoKey y = k")
    case True
    then have "y = auditACLOrderOf k a" using that assms(3) by (auto simp: in_ordersOf)
    then show ?thesis using irrefl by simp
  next
    case False
    then show ?thesis using total[of "auditACLOrderOf k a" y] by auto
  qed
  moreover have "ordersOf (rows(k := None)) = {y \<in> ordersOf rows. aoKey y \<noteq> k}"
    by (auto simp: in_ordersOf split: if_splits)
  ultimately show "set (treeDelete lt (auditACLOrderOf k a) t) = ordersOf (rows(k := None))"
    using assms(2) by (auto simp: treeDelete_def)
qed

lemma exact_put:
  assumes "sorted_wrt lt t" and "set t = ordersOf rows" and "rows k = None"
  shows "sorted_wrt lt (treePut lt (auditACLOrderOf k a) t)"
    and "set (treePut lt (auditACLOrderOf k a) t) = ordersOf (rows(k \<mapsto> a))"
proof -
  let ?x = "auditACLOrderOf k a"
  show "sorted_wrt lt (treePut lt ?x t)"
    using assms(1) trans by (auto simp: treePut_def sorted_wrt_append sorted_wrt_filter)
  have "lt ?x y \<or> lt y ?x" if "y \<in> ordersOf rows" for y
    using that total[of ?x y] assms(3) by (cases "aoKey y = k") (auto simp: in_ordersOf)
  moreover have "ordersOf (rows(k \<mapsto> a)) = insert ?x (ordersOf rows)"
    using assms(3) by (auto simp: in_ordersOf split: if_splits)
  ultimately show "set (treePut lt ?x t) = ordersOf (rows(k \<mapsto> a))"
    using assms(2) by (auto simp: treePut_def)
qed

lemma exact_replace:
  assumes "sorted_wrt lt t" and "set t = ordersOf rows"
  shows "sorted_wrt lt (treePut lt (auditACLOrderOf k a)
           (case rows k of None \<Rightarrow> t | Some old \<Rightarrow> treeDelete lt (auditACLOrderOf k old) t))"
    and "set (treePut lt (auditACLOrderOf k a)
           (case rows k of None \<Rightarrow> t | Some old \<Rightarrow> treeDelete lt (auditACLOrderOf k old) t)) = ordersOf (rows(k \<mapsto> a))"
proof -
  have "sorted_wrt lt (treePut lt (auditACLOrderOf k a) t') \<and>
        set (treePut lt (auditACLOrderOf k a) t') = ordersOf (rows(k \<mapsto> a))"
    if "t' = (case rows k of None \<Rightarrow> t | Some old \<Rightarrow> treeDelete lt (auditACLOrderOf k old) t)" for t'
  proof (cases "rows k")
    case None
    then show ?thesis using exact_put[OF assms None, of a] that by simp
  next
    case (Some old)
    show ?thesis using exact_put[OF exact_delete[OF assms Some], of k a] that Some by simp
  qed
  then show "sorted_wrt lt (treePut lt (auditACLOrderOf k a)
           (case rows k of None \<Rightarrow> t | Some old \<Rightarrow> treeDelete lt (auditACLOrderOf k old) t))"
    "set (treePut lt (auditACLOrderOf k a)
           (case rows k of None \<Rightarrow> t | Some old \<Rightarrow> treeDelete lt (auditACLOrderOf k old) t)) = ordersOf (rows(k \<mapsto> a))"
    by blast+
qed

lemma first_least:
  assumes "sorted_wrt lt (x # t)" and "set (x # t) = ordersOf rows" and "rows k = Some a"
  shows "auditACLOrderOf k a = x \<or> lt x (auditACLOrderOf k a)"
proof -
  have "auditACLOrderOf k a \<in> set (x # t)" unfolding assms(2) using assms(3) by (rule ordersOf_member)
  then show ?thesis using assms(1) by auto
qed

end

interpretation versionOrder: audit_order auditACLByVersionLess
  by unfold_locales (auto simp: auditACLByVersionLess_def split: if_splits)

interpretation expiryOrder: audit_order auditACLByExpiryLess
  by unfold_locales (auto simp: auditACLByExpiryLess_def auditACLByVersionLess_def split: if_splits)

section \<open>The invariant\<close>

definition auditSandboxKeys :: "string \<Rightarrow> AuditACL \<Rightarrow> string set" where
  "auditSandboxKeys k a = {aaSandboxID a}"

interpretation auditBySandbox: set_index auditSandboxKeys
  "\<lambda>k a. idxAdd (aaSandboxID a) k" "\<lambda>k a. idxDel (aaSandboxID a) k"
  by unfold_locales (auto simp: auditSandboxKeys_def split: if_splits)

definition latestOf :: "auditState \<Rightarrow> string \<Rightarrow> string option" where
  "latestOf s sb =
     (let ids = idxGet (auditACLBySandbox s) sb
      in if ids = {} then None else Some (snd (Max ((\<lambda>key. (auditVersion s key, key)) ` ids))))"

text \<open>A stored stub: trimmed, with no NUL in the sandbox id (the separator of the table's keys), not yet expired
  when it was stored.\<close>

definition auditStub :: "AuditACL \<Rightarrow> bool" where
  "auditStub a \<longleftrightarrow>
     trimSpace (aaSandboxID a) = aaSandboxID a \<and> aaSandboxID a \<noteq> [] \<and>
     trimSpace (aaIncarnationID a) = aaIncarnationID a \<and> aaIncarnationID a \<noteq> [] \<and>
     CHR 0x00 \<notin> set (aaSandboxID a) \<and> aaExpiresUnix a > 0"

definition auditWf :: "auditState \<Rightarrow> bool" where
  "auditWf s \<longleftrightarrow>
     finite (dom (auditACLs s)) \<and>
     (\<forall>k a. auditACLs s k = Some a \<longrightarrow>
        k = auditACLKey (aaSandboxID a) (aaIncarnationID a) \<and> auditStub a) \<and>
     (auditACLByVersion s = None \<longleftrightarrow> auditACLByExpiry s = None) \<and>
     (auditACLByVersion s = None \<longrightarrow> auditACLs s = Map.empty) \<and>
     (\<forall>t. auditACLByVersion s = Some t \<longrightarrow> sorted_wrt auditACLByVersionLess t \<and> set t = ordersOf (auditACLs s)) \<and>
     (\<forall>t. auditACLByExpiry s = Some t \<longrightarrow> sorted_wrt auditACLByExpiryLess t \<and> set t = ordersOf (auditACLs s)) \<and>
     idxExact auditSandboxKeys (auditACLs s) (auditACLBySandbox s) \<and>
     auditACLLatest s = latestOf s"

lemma auditWf_new: "auditWf newAuditState"
  by (auto simp: auditWf_def newAuditState_def latestOf_def)

lemma refresh_latest:
  "auditACLLatest (refreshAuditACLLatestLocked sb s) = (auditACLLatest s)(sb := latestOf s sb)"
  by (simp add: refreshAuditACLLatestLocked_def latestOf_def Let_def)

lemma latestOf_cong:
  assumes "idxGet (auditACLBySandbox s) sb = idxGet (auditACLBySandbox s') sb"
    and "\<And>k. k \<in> idxGet (auditACLBySandbox s) sb \<Longrightarrow> auditVersion s k = auditVersion s' k"
  shows "latestOf s sb = latestOf s' sb"
proof -
  have "(\<lambda>k. (auditVersion s k, k)) ` idxGet (auditACLBySandbox s) sb =
        (\<lambda>k. (auditVersion s' k, k)) ` idxGet (auditACLBySandbox s') sb"
    using assms by (intro image_cong) auto
  then show ?thesis using assms(1) by (simp add: latestOf_def Let_def)
qed

lemma latestOf_refresh [simp]: "latestOf (refreshAuditACLLatestLocked sb s) = latestOf s"
  by (rule ext, rule latestOf_cong) (simp_all add: auditVersion_def)

text \<open>A change confined to the stubs of one sandbox, followed by the refresh of its latest pointer, keeps all
  latest pointers right.\<close>

lemma latest_after_change:
  assumes "auditACLLatest s = latestOf s" and "auditACLLatest t = auditACLLatest s"
    and "\<And>sb'. sb' \<noteq> sb \<Longrightarrow> idxGet (auditACLBySandbox t) sb' = idxGet (auditACLBySandbox s) sb'"
    and "\<And>sb' k. sb' \<noteq> sb \<Longrightarrow> k \<in> idxGet (auditACLBySandbox s) sb' \<Longrightarrow> auditACLs t k = auditACLs s k"
  shows "auditACLLatest (refreshAuditACLLatestLocked sb t) = latestOf (refreshAuditACLLatestLocked sb t)"
proof
  fix sb'
  show "auditACLLatest (refreshAuditACLLatestLocked sb t) sb' = latestOf (refreshAuditACLLatestLocked sb t) sb'"
  proof (cases "sb' = sb")
    case False
    then have "latestOf t sb' = latestOf s sb'"
      using assms(3,4) by (intro latestOf_cong) (simp_all add: auditVersion_def)
    then show ?thesis using False assms(1,2) by (simp add: refresh_latest)
  qed (simp add: refresh_latest)
qed

lemma remove_sandbox:
  "auditACLs s k = Some a \<Longrightarrow>
   auditACLBySandbox (removeAuditACLLocked k s) = idxDel (aaSandboxID a) k (auditACLBySandbox s)"
  by (simp add: removeAuditACLLocked_def deleteOrders_def Let_def)

lemma auditWf_remove:
  assumes wf: "auditWf s"
  shows "auditWf (removeAuditACLLocked k s)"
proof (cases "auditACLs s k")
  case None
  then show ?thesis using wf by (simp add: removeAuditACLLocked_def)
next
  case (Some a)
  let ?r = "removeAuditACLLocked k s"
  have ex: "idxExact auditSandboxKeys (auditACLs s) (auditACLBySandbox s)" using wf by (simp add: auditWf_def)
  have idx: "idxExact auditSandboxKeys (auditACLs ?r) (auditACLBySandbox ?r)"
    using auditBySandbox.remove[OF ex Some] by (simp add: remove_fields remove_sandbox Some)
  have latest: "auditACLLatest ?r = latestOf ?r"
  proof -
    define t where "t = (let s' = deleteOrders (auditACLOrderOf k a) (s\<lparr>auditACLs := (auditACLs s)(k := None)\<rparr>)
      in s'\<lparr>auditACLBySandbox := idxDel (aaSandboxID a) k (auditACLBySandbox s')\<rparr>)"
    have r: "?r = refreshAuditACLLatestLocked (aaSandboxID a) t"
      by (simp add: removeAuditACLLocked_def Some t_def Let_def)
    show ?thesis unfolding r
    proof (rule latest_after_change)
      show "auditACLLatest s = latestOf s" using wf by (simp add: auditWf_def)
      show "auditACLs t j = auditACLs s j" if "sb' \<noteq> aaSandboxID a" "j \<in> idxGet (auditACLBySandbox s) sb'" for sb' j
        using that Some by (auto simp: t_def Let_def deleteOrders_def idxExact_member[OF ex] auditSandboxKeys_def)
    qed (simp_all add: t_def Let_def deleteOrders_def)
  qed
  have trees: "sorted_wrt auditACLByVersionLess t \<and> set t = ordersOf (auditACLs ?r)" if "auditACLByVersion ?r = Some t" for t
    using that wf versionOrder.exact_delete[where rows = "auditACLs s" and k = k and a = a] Some
    by (auto simp: remove_fields(1) remove_fields(2)[OF Some] auditWf_def)
  have trees': "sorted_wrt auditACLByExpiryLess t \<and> set t = ordersOf (auditACLs ?r)" if "auditACLByExpiry ?r = Some t" for t
    using that wf expiryOrder.exact_delete[where rows = "auditACLs s" and k = k and a = a] Some
    by (auto simp: remove_fields(1) remove_fields(3)[OF Some] auditWf_def)
  have none: "auditACLByVersion ?r = None \<longleftrightarrow> auditACLByVersion s = None" "auditACLByExpiry ?r = None \<longleftrightarrow> auditACLByExpiry s = None"
    by (simp_all add: remove_fields(2,3)[OF Some])
  show ?thesis
    unfolding auditWf_def using wf idx latest trees trees' none
    by (auto simp: auditWf_def remove_fields(1) split: if_splits)
qed

lemma auditKey_inj:
  assumes "auditStub a" "auditStub b"
    and "auditACLKey (aaSandboxID a) (aaIncarnationID a) = auditACLKey (aaSandboxID b) (aaIncarnationID b)"
  shows "aaSandboxID a = aaSandboxID b" and "aaIncarnationID a = aaIncarnationID b"
proof -
  have "cutAt CHR 0x00 (auditACLKey (aaSandboxID x) (aaIncarnationID x)) = Some (aaSandboxID x, aaIncarnationID x)"
    if "auditStub x" for x
    using that by (simp add: auditACLKey_def auditStub_def cutAt_append)
  from this[OF assms(1)] this[OF assms(2)]
  have "Some (aaSandboxID a, aaIncarnationID a) = Some (aaSandboxID b, aaIncarnationID b)"
    unfolding assms(3) by (rule trans[OF sym])
  then show "aaSandboxID a = aaSandboxID b" "aaIncarnationID a = aaIncarnationID b" by blast+
qed

lemma auditWfD:
  assumes "auditWf s"
  shows "finite (dom (auditACLs s))"
    and "auditACLs s k = Some a \<Longrightarrow> k = auditACLKey (aaSandboxID a) (aaIncarnationID a) \<and> auditStub a"
    and "auditACLByVersion s = Some t \<Longrightarrow> sorted_wrt auditACLByVersionLess t"
    and "auditACLByVersion s = Some t \<Longrightarrow> set t = ordersOf (auditACLs s)"
    and "auditACLByExpiry s = Some t \<Longrightarrow> sorted_wrt auditACLByExpiryLess t"
    and "auditACLByExpiry s = Some t \<Longrightarrow> set t = ordersOf (auditACLs s)"
    and "idxExact auditSandboxKeys (auditACLs s) (auditACLBySandbox s)"
    and "auditACLLatest s = latestOf s"
    and "auditACLByVersion s = None \<longleftrightarrow> auditACLByExpiry s = None"
  using assms unfolding auditWf_def by blast+

lemma ensure_spec:
  assumes wf: "auditWf s"
  shows "auditWf (ensureAuditACLIndexesLocked s)" "auditACLs (ensureAuditACLIndexesLocked s) = auditACLs s"
    "auditACLByVersion (ensureAuditACLIndexesLocked s) \<noteq> None" "auditACLByExpiry (ensureAuditACLIndexesLocked s) \<noteq> None"
proof -
  have "auditWf (ensureAuditACLIndexesLocked s) \<and> auditACLs (ensureAuditACLIndexesLocked s) = auditACLs s \<and>
    auditACLByVersion (ensureAuditACLIndexesLocked s) \<noteq> None \<and> auditACLByExpiry (ensureAuditACLIndexesLocked s) \<noteq> None"
  proof (cases "auditACLByVersion s = None")
    case True
    then have e: "auditACLs s = Map.empty" "auditACLByExpiry s = None" using wf by (auto simp: auditWf_def)
    then have ex: "idxExact auditSandboxKeys Map.empty (auditACLBySandbox s)" using wf by (simp add: auditWf_def)
    have "auditACLBySandbox s = Map.empty" by (rule idxExact_unique[OF ex idxExact_empty])
    then have "ensureAuditACLIndexesLocked s = s\<lparr>auditACLByVersion := Some [], auditACLByExpiry := Some []\<rparr>"
      using True e by (simp add: ensureAuditACLIndexesLocked_def Let_def)
    moreover have "latestOf (s\<lparr>auditACLByVersion := Some [], auditACLByExpiry := Some []\<rparr>) = latestOf s"
      by (rule ext, rule latestOf_cong) (simp_all add: auditVersion_def)
    ultimately show ?thesis using wf e by (auto simp: auditWf_def ordersOf_def)
  next
    case False
    then have "auditACLByExpiry s \<noteq> None" using auditWfD(9)[OF wf] by simp
    then have "ensureAuditACLIndexesLocked s = s" using False by (simp only: ensureAuditACLIndexesLocked_def simp_thms if_False)
    then show ?thesis using \<open>auditACLByExpiry s \<noteq> None\<close> False wf by metis
  qed
  then show "auditWf (ensureAuditACLIndexesLocked s)" "auditACLs (ensureAuditACLIndexesLocked s) = auditACLs s"
    "auditACLByVersion (ensureAuditACLIndexesLocked s) \<noteq> None" "auditACLByExpiry (ensureAuditACLIndexesLocked s) \<noteq> None"
    by blast+
qed

lemma auditWf_store:
  assumes wf: "auditWf s" and stub: "auditStub a" and k: "k = auditACLKey (aaSandboxID a) (aaIncarnationID a)"
  shows "auditWf (storeAuditACL k a s)" and "auditACLs (storeAuditACL k a s) = (auditACLs s)(k \<mapsto> a)"
    and "auditACLByVersion (storeAuditACL k a s) \<noteq> None"
proof -
  define e where "e = ensureAuditACLIndexesLocked s"
  have e: "auditWf e" "auditACLs e = auditACLs s" using ensure_spec[OF wf] by (simp_all add: e_def)
  obtain tv te where tv: "auditACLByVersion e = Some tv" and te: "auditACLByExpiry e = Some te"
    using ensure_spec(3,4)[OF wf] by (auto simp: e_def)
  define cut' where "cut' lt t = (case auditACLs s k of None \<Rightarrow> t | Some old \<Rightarrow> treeDelete lt (auditACLOrderOf k old) t)"
    for lt :: "auditACLOrder \<Rightarrow> auditACLOrder \<Rightarrow> bool" and t
  define m where "m = e\<lparr>auditACLs := (auditACLs e)(k \<mapsto> a),
      auditACLByVersion := Some (treePut auditACLByVersionLess (auditACLOrderOf k a) (cut' auditACLByVersionLess tv)),
      auditACLByExpiry := Some (treePut auditACLByExpiryLess (auditACLOrderOf k a) (cut' auditACLByExpiryLess te)),
      auditACLBySandbox := idxAdd (aaSandboxID a) k (auditACLBySandbox e)\<rparr>"
  have st: "storeAuditACL k a s = refreshAuditACLLatestLocked (aaSandboxID a) m"
    unfolding storeAuditACL_def e_def[symmetric] Let_def m_def
    by (cases "auditACLs s k") (simp_all add: e(2) tv te cut'_def deleteOrders_def)
  have ex: "idxExact auditSandboxKeys (auditACLs s) (auditACLBySandbox e)" using auditWfD(7)[OF e(1)] e(2) by simp
  have same: "aaSandboxID old = aaSandboxID a" if "auditACLs s k = Some old" for old
    using auditKey_inj(1)[of old a] auditWfD(2)[OF wf that] stub k by simp
  have idx: "idxExact auditSandboxKeys ((auditACLs s)(k \<mapsto> a)) (idxAdd (aaSandboxID a) k (auditACLBySandbox e))"
  proof (cases "auditACLs s k")
    case None
    show ?thesis by (rule auditBySandbox.insert[OF ex None])
  next
    case (Some old)
    have "k \<in> idxGet (auditACLBySandbox e) (aaSandboxID a)"
      using idxExact_member[OF ex, of k "aaSandboxID a"] Some same[OF Some] by (simp add: auditSandboxKeys_def)
    moreover have "idxWf (auditACLBySandbox e)" using ex by (simp add: idxExact_def)
    ultimately have "idxAdd (aaSandboxID a) k (auditACLBySandbox e) = auditACLBySandbox e"
      by (intro idxWf_ext) (simp_all add: insert_absorb)
    moreover have "idxExact auditSandboxKeys ((auditACLs s)(k \<mapsto> a)) (auditACLBySandbox e)"
      by (rule idxExact_same_keys[OF ex Some]) (simp add: auditSandboxKeys_def same[OF Some])
    ultimately show ?thesis by simp
  qed
  have latest: "auditACLLatest (refreshAuditACLLatestLocked (aaSandboxID a) m) = latestOf (refreshAuditACLLatestLocked (aaSandboxID a) m)"
  proof (rule latest_after_change[of e])
    show "auditACLLatest e = latestOf e" by (rule auditWfD(8)[OF e(1)])
    show "auditACLs m j = auditACLs e j" if "sb' \<noteq> aaSandboxID a" "j \<in> idxGet (auditACLBySandbox e) sb'" for sb' j
      using that same by (auto simp: m_def idxExact_member[OF ex] auditSandboxKeys_def)
  qed (simp_all add: m_def)
  have tree: "sorted_wrt lt (treePut lt (auditACLOrderOf k a) (cut' lt t)) \<and>
      set (treePut lt (auditACLOrderOf k a) (cut' lt t)) = ordersOf ((auditACLs s)(k \<mapsto> a))"
    if "audit_order lt" "sorted_wrt lt t" "set t = ordersOf (auditACLs s)" for lt t
    unfolding cut'_def using audit_order.exact_replace[OF that] by blast
  have rows: "\<And>j b. ((auditACLs s)(k \<mapsto> a)) j = Some b \<Longrightarrow>
      j = auditACLKey (aaSandboxID b) (aaIncarnationID b) \<and> auditStub b"
    using auditWfD(2)[OF wf] stub k by (auto split: if_splits)
  show "auditWf (storeAuditACL k a s)"
    unfolding st auditWf_def
  proof (intro conjI allI impI)
    show "auditACLLatest (refreshAuditACLLatestLocked (aaSandboxID a) m) = latestOf (refreshAuditACLLatestLocked (aaSandboxID a) m)"
      by (rule latest)
  qed (use idx rows auditWfD(1)[OF wf] e tv te
        tree[OF versionOrder.audit_order_axioms auditWfD(3,4)[OF e(1) tv, unfolded e(2)]]
        tree[OF expiryOrder.audit_order_axioms auditWfD(5,6)[OF e(1) te, unfolded e(2)]] in \<open>auto simp: m_def\<close>)
  show "auditACLs (storeAuditACL k a s) = (auditACLs s)(k \<mapsto> a)" "auditACLByVersion (storeAuditACL k a s) \<noteq> None"
    by (simp_all add: st m_def e(2))
qed

section \<open>The loops\<close>

lemma dropFirst_wf:
  assumes "first \<in> ordersOf (auditACLs s)"
  shows "dropFirst first s = removeAuditACLLocked (aoKey first) s"
  using assms by (auto simp: dropFirst_def in_ordersOf)

lemma remove_trees:
  "auditACLByVersion s \<noteq> None \<Longrightarrow> auditACLByVersion (removeAuditACLLocked k s) \<noteq> None"
  "auditACLByExpiry s \<noteq> None \<Longrightarrow> auditACLByExpiry (removeAuditACLLocked k s) \<noteq> None"
  by (auto simp: removeAuditACLLocked_def deleteOrders_def Let_def split: option.split)

definition olderIn :: "(string \<rightharpoonup> AuditACL) \<Rightarrow> (string \<rightharpoonup> AuditACL) \<Rightarrow> bool" where
  "olderIn rows kept \<longleftrightarrow> kept \<subseteq>\<^sub>m rows \<and>
     (\<forall>k a k' a'. rows k = Some a \<longrightarrow> kept k = None \<longrightarrow> kept k' = Some a' \<longrightarrow>
        (aaRetainedVersion a, k) < (aaRetainedVersion a', k'))"

lemma versionLess_pair:
  "auditACLByVersionLess (auditACLOrderOf k a) (auditACLOrderOf k' a') \<longleftrightarrow>
   (aaRetainedVersion a, k) < (aaRetainedVersion a', k')"
  by (auto simp: auditACLByVersionLess_def auditACLOrderOf_def)

lemma map_leD: "m \<subseteq>\<^sub>m m' \<Longrightarrow> m k = Some v \<Longrightarrow> m' k = Some v"
  unfolding map_le_def dom_def by fastforce

lemma olderIn_step:
  assumes old: "\<And>j b. rows j = Some b \<Longrightarrow> j \<noteq> k \<Longrightarrow> (aaRetainedVersion a, k) < (aaRetainedVersion b, j)"
    and k: "rows k = Some a" and rest: "olderIn (rows(k := None)) kept"
  shows "olderIn rows kept"
  unfolding olderIn_def
proof (intro conjI allI impI)
  have sub: "kept \<subseteq>\<^sub>m rows(k := None)" using rest by (simp add: olderIn_def)
  have at: "rows j = Some b \<and> j \<noteq> k" if "kept j = Some b" for j b
  proof -
    have "(rows(k := None)) j = Some b" using sub that by (rule map_leD)
    then show ?thesis by (cases "j = k") simp_all
  qed
  then show "kept \<subseteq>\<^sub>m rows" by (auto simp: map_le_def)
  fix j b k' a'
  assume j: "rows j = Some b" "kept j = None" and kk: "kept k' = Some a'"
  have k': "rows k' = Some a'" "k' \<noteq> k" using at[OF kk] by auto
  show "(aaRetainedVersion b, j) < (aaRetainedVersion a', k')"
  proof (cases "j = k")
    case True
    then show ?thesis using old[OF k'] j(1) k by simp
  next
    case False
    then have "(rows(k := None)) j = Some b" using j(1) by simp
    then show ?thesis using rest j(2) kk unfolding olderIn_def by blast
  qed
qed

lemma evict_spec:
  "auditWf s \<Longrightarrow> auditACLByVersion s \<noteq> None \<Longrightarrow> 0 \<le> cap \<Longrightarrow>
   auditWf (evictLoop cap s) \<and> int (card (dom (auditACLs (evictLoop cap s)))) \<le> cap \<and>
   olderIn (auditACLs s) (auditACLs (evictLoop cap s))"
proof (induction cap s rule: evictLoop.induct)
  case (1 cap s)
  obtain t where t: "auditACLByVersion s = Some t" using 1(3) by auto
  have st: "sorted_wrt auditACLByVersionLess t" "set t = ordersOf (auditACLs s)"
    using auditWfD(3,4)[OF 1(2) t] by auto
  show ?case
  proof (cases "int (card (dom (auditACLs s))) > cap")
    case False
    then have "evictLoop cap s = s" by (subst evictLoop.simps) simp
    then show ?thesis using 1(2) False by (auto simp: olderIn_def)
  next
    case True
    then have "dom (auditACLs s) \<noteq> {}" using 1(4) by auto
    then have "ordersOf (auditACLs s) \<noteq> {}" using ordersOf_member by fastforce
    then obtain x r where x: "t = x # r" using st(2) by (cases t) auto
    then have mem: "x \<in> ordersOf (auditACLs s)" using st(2) by auto
    then obtain a where a: "auditACLs s (aoKey x) = Some a" "x = auditACLOrderOf (aoKey x) a" by (auto simp: in_ordersOf)
    let ?d = "removeAuditACLLocked (aoKey x) s"
    have d: "dropFirst x s = ?d" by (rule dropFirst_wf[OF mem])
    have step: "evictLoop cap s = evictLoop cap ?d"
      using True t x d by (subst evictLoop.simps) simp
    have ih: "auditWf (evictLoop cap ?d) \<and> int (card (dom (auditACLs (evictLoop cap ?d)))) \<le> cap \<and>
        olderIn (auditACLs ?d) (auditACLs (evictLoop cap ?d))"
      using 1(1)[OF True t x] auditWf_remove[OF 1(2)] remove_trees(1)[OF 1(3)] 1(4) d by simp
    have old: "(aaRetainedVersion a, aoKey x) < (aaRetainedVersion b, j)" if "auditACLs s j = Some b" "j \<noteq> aoKey x" for j b
    proof -
      have "auditACLOrderOf j b = x \<or> auditACLByVersionLess x (auditACLOrderOf j b)"
        by (rule versionOrder.first_least[OF st[unfolded x] that(1)])
      moreover have "auditACLOrderOf j b \<noteq> x" using that(2) by auto
      ultimately show ?thesis using versionLess_pair[of "aoKey x" a j b] a(2) by metis
    qed
    have "olderIn (auditACLs s) (auditACLs (evictLoop cap ?d))"
    proof (rule olderIn_step)
      show "olderIn ((auditACLs s)(aoKey x := None)) (auditACLs (evictLoop cap ?d))"
        using ih unfolding remove_fields(1) by blast
    qed (rule old a(1) | assumption)+
    then show ?thesis using ih step by simp
  qed
qed

definition unexpired :: "int \<Rightarrow> (string \<rightharpoonup> AuditACL) \<Rightarrow> (string \<rightharpoonup> AuditACL)" where
  "unexpired cutoff rows = (\<lambda>k. case rows k of None \<Rightarrow> None | Some a \<Rightarrow> if aaExpiresUnix a \<le> cutoff then None else Some a)"

lemma prune_spec:
  "auditWf s \<Longrightarrow> auditACLByExpiry s \<noteq> None \<Longrightarrow>
   auditWf (pruneAuditLoop cutoff s) \<and> auditACLs (pruneAuditLoop cutoff s) = unexpired cutoff (auditACLs s)"
proof (induction cutoff s rule: pruneAuditLoop.induct)
  case (1 cutoff s)
  obtain t where t: "auditACLByExpiry s = Some t" using 1(3) by auto
  have st: "sorted_wrt auditACLByExpiryLess t" "set t = ordersOf (auditACLs s)"
    using auditWfD(5,6)[OF 1(2) t] by auto
  have keep: "unexpired cutoff (auditACLs s) = auditACLs s"
    if "\<And>k a. auditACLs s k = Some a \<Longrightarrow> aaExpiresUnix a > cutoff"
    using that by (auto simp: unexpired_def fun_eq_iff split: option.split) (metis linorder_not_less option.inject)
  show ?case
  proof (cases t)
    case Nil
    then have none: "auditACLs s k = None" for k
      using st(2) ordersOf_member[of "auditACLs s" k] by (cases "auditACLs s k") auto
    have "pruneAuditLoop cutoff s = s" using t Nil by (subst pruneAuditLoop.simps) simp
    moreover have "unexpired cutoff (auditACLs s) = auditACLs s" using keep none by simp
    ultimately show ?thesis using 1(2) by simp
  next
    case (Cons x r)
    then have mem: "x \<in> ordersOf (auditACLs s)" using st(2) by auto
    then obtain a where a: "auditACLs s (aoKey x) = Some a" "x = auditACLOrderOf (aoKey x) a" by (auto simp: in_ordersOf)
    have ax: "aoExpires x = aaExpiresUnix a" using a(2) by (metis auditACLOrder.select_convs(2) auditACLOrderOf_def)
    have pos: "aoExpires x > 0" using auditWfD(2)[OF 1(2) a(1)] ax by (simp add: auditStub_def)
    have least: "aoExpires x \<le> aaExpiresUnix b" if "auditACLs s k = Some b" for k b
    proof -
      have "auditACLOrderOf k b = x \<or> auditACLByExpiryLess x (auditACLOrderOf k b)"
        by (rule expiryOrder.first_least[OF st[unfolded Cons] that])
      then show ?thesis by (auto simp: auditACLByExpiryLess_def auditACLOrderOf_def split: if_splits)
    qed
    show ?thesis
    proof (cases "aoExpires x > cutoff")
      case True
      then have "pruneAuditLoop cutoff s = s" using t Cons by (subst pruneAuditLoop.simps) simp
      moreover have "unexpired cutoff (auditACLs s) = auditACLs s" using keep least True by fastforce
      ultimately show ?thesis using 1(2) by simp
    next
      case False
      let ?d = "removeAuditACLLocked (aoKey x) s"
      have d: "dropFirst x s = ?d" by (rule dropFirst_wf[OF mem])
      have step: "pruneAuditLoop cutoff s = pruneAuditLoop cutoff ?d"
        using t Cons False pos d by (subst pruneAuditLoop.simps) simp
      have nd: "\<not> (aoExpires x \<le> 0 \<or> aoExpires x > cutoff)" using False pos by simp
      have "auditWf (pruneAuditLoop cutoff ?d) \<and> auditACLs (pruneAuditLoop cutoff ?d) = unexpired cutoff (auditACLs ?d)"
        using 1(1)[OF t Cons nd] auditWf_remove[OF 1(2)] remove_trees(2)[OF 1(3)] d by simp
      moreover have "unexpired cutoff ((auditACLs s)(aoKey x := None)) = unexpired cutoff (auditACLs s)"
        using a(1) ax False by (auto simp: unexpired_def)
      ultimately show ?thesis using step by (simp add: remove_fields(1))
    qed
  qed
qed

section \<open>Runs and properties\<close>

datatype auditOp = AuditRetain AuditACL int | AuditPrune int

fun auditStep :: "auditOp \<Rightarrow> auditState \<Rightarrow> auditState" where
  "auditStep (AuditRetain acl cap) s = retainAuditACLLocked acl cap s"
| "auditStep (AuditPrune cutoff) s = pruneAuditACLLocked cutoff s"

text \<open>Sandbox ids never hold the NUL byte that separates the two halves of a key.\<close>

fun cleanAuditOp :: "auditOp \<Rightarrow> bool" where
  "cleanAuditOp (AuditRetain acl cap) \<longleftrightarrow> CHR 0x00 \<notin> set (aaSandboxID acl)"
| "cleanAuditOp (AuditPrune cutoff) \<longleftrightarrow> True"

definition trimmedACL :: "AuditACL \<Rightarrow> AuditACL" where
  "trimmedACL acl = acl\<lparr>aaSandboxID := trimSpace (aaSandboxID acl), aaIncarnationID := trimSpace (aaIncarnationID acl)\<rparr>"

definition auditKeyOf :: "AuditACL \<Rightarrow> string" where
  "auditKeyOf acl = auditACLKey (aaSandboxID acl) (aaIncarnationID acl)"

text \<open>A record that a retain stores: both ids present and a positive expiry.\<close>

definition storable :: "AuditACL \<Rightarrow> bool" where
  "storable acl \<longleftrightarrow> trimSpace (aaSandboxID acl) \<noteq> [] \<and> trimSpace (aaIncarnationID acl) \<noteq> [] \<and>
     aaExpiresUnix acl > 0 \<and> CHR 0x00 \<notin> set (aaSandboxID acl)"

lemma auditStub_trimmed: "storable acl \<Longrightarrow> auditStub (trimmedACL acl)"
  using trimSpace_subset[of "aaSandboxID acl"] by (auto simp: storable_def auditStub_def trimmedACL_def)

lemma auditKeyOf_trimmed [simp]: "auditKeyOf (trimmedACL acl) = auditKeyOf acl"
  by (simp add: auditKeyOf_def trimmedACL_def auditACLKey_def)

lemma retain_store:
  assumes "auditWf s" and "storable acl" and "cap' = (if cap \<le> 0 then maxRetainedAuditACLs else cap)"
  shows "retainAuditACLLocked acl cap s = evictLoop cap' (storeAuditACL (auditKeyOf acl) (trimmedACL acl) s)"
  using assms(2,3) by (simp add: retainAuditACLLocked_def storable_def trimmedACL_def auditKeyOf_def auditACLKey_def Let_def)

lemma retain_spec:
  assumes wf: "auditWf s" and st: "storable acl" and cap: "cap' = (if cap \<le> 0 then maxRetainedAuditACLs else cap)"
  shows "auditWf (retainAuditACLLocked acl cap s)"
    and "int (card (dom (auditACLs (retainAuditACLLocked acl cap s)))) \<le> cap'"
    and "olderIn ((auditACLs s)(auditKeyOf acl \<mapsto> trimmedACL acl)) (auditACLs (retainAuditACLLocked acl cap s))"
proof -
  let ?s = "storeAuditACL (auditKeyOf acl) (trimmedACL acl) s"
  have k: "auditKeyOf acl = auditACLKey (aaSandboxID (trimmedACL acl)) (aaIncarnationID (trimmedACL acl))"
    using auditKeyOf_trimmed[of acl] by (simp add: auditKeyOf_def)
  note store = auditWf_store[OF wf auditStub_trimmed[OF st] k]
  have "0 \<le> cap'" using cap by (simp add: maxRetainedAuditACLs_def)
  from evict_spec[OF store(1,3) this] show "auditWf (retainAuditACLLocked acl cap s)"
    "int (card (dom (auditACLs (retainAuditACLLocked acl cap s)))) \<le> cap'"
    "olderIn ((auditACLs s)(auditKeyOf acl \<mapsto> trimmedACL acl)) (auditACLs (retainAuditACLLocked acl cap s))"
    using store(2) by (simp_all add: retain_store[OF wf st cap])
qed

lemma auditWf_step:
  assumes wf: "auditWf s" and c: "cleanAuditOp op"
  shows "auditWf (auditStep op s)"
proof (cases op)
  case (AuditRetain acl cap)
  show ?thesis
  proof (cases "storable acl")
    case True
    then show ?thesis using retain_spec(1)[OF wf True refl] AuditRetain by simp
  next
    case False
    then have "retainAuditACLLocked acl cap s = s \<or> (\<exists>k. retainAuditACLLocked acl cap s = removeAuditACLLocked k s)"
      using c AuditRetain by (auto simp: retainAuditACLLocked_def storable_def Let_def)
    then show ?thesis using wf auditWf_remove AuditRetain by auto
  qed
next
  case (AuditPrune cutoff)
  then show ?thesis using prune_spec[OF ensure_spec(1,4)[OF wf]] by (simp add: pruneAuditACLLocked_def)
qed

lemma auditWf_run: "auditWf s \<Longrightarrow> list_all cleanAuditOp ops \<Longrightarrow> auditWf (fold auditStep ops s)"
  by (induction ops arbitrary: s) (simp_all add: auditWf_step)

text \<open>The post-delete audit index is bounded and keeps the newest.  After any run of retains and prunes, a
  retain of a storable record with cap \<^verbatim>\<open>cap\<close> (the default when it is not positive) leaves at most that many
  stubs, every one of them either old or the new record, and each stub that was dropped is older, in the
  order of log index and key, than each stub that was kept.\<close>

theorem audit_retention_capped:
  assumes "list_all cleanAuditOp ops" and "s = fold auditStep ops newAuditState" and "storable acl"
    and "s' = retainAuditACLLocked acl cap s"
  shows "int (card (dom (auditACLs s'))) \<le> (if cap \<le> 0 then maxRetainedAuditACLs else cap) \<and>
    olderIn ((auditACLs s)(auditKeyOf acl \<mapsto> trimmedACL acl)) (auditACLs s')"
proof -
  have "auditWf s" using auditWf_run[OF auditWf_new assms(1)] assms(2) by simp
  from retain_spec(2,3)[OF this assms(3) refl, of cap] show ?thesis using assms(4) by simp
qed

definition auditExampleACL :: "string \<Rightarrow> nat \<Rightarrow> int \<Rightarrow> AuditACL" where
  "auditExampleACL inc v x = \<lparr>aaSandboxID = ''sb'', aaIncarnationID = inc, aaOwnerRef = [], aaAuditNodeIDs = [],
     aaAuditNodesTruncated = False, aaExpiresUnix = x, aaRetainedVersion = v\<rparr>"

theorem audit_retention_capped_witness:
  "int (card (dom (auditACLs (retainAuditACLLocked (auditExampleACL ''b'' 8 9) 1
      (fold auditStep [AuditRetain (auditExampleACL ''a'' 7 9) 0] newAuditState))))) \<le> 1"
proof -
  let ?s = "fold auditStep [AuditRetain (auditExampleACL ''a'' 7 9) 0] newAuditState"
  have "storable (auditExampleACL ''b'' 8 9)" by (simp add: storable_def auditExampleACL_def visibleChar_def)
  moreover have "list_all cleanAuditOp [AuditRetain (auditExampleACL ''a'' 7 9) 0]" by (simp add: auditExampleACL_def)
  ultimately show ?thesis using audit_retention_capped[of "[AuditRetain (auditExampleACL ''a'' 7 9) 0]" ?s
      "auditExampleACL ''b'' 8 9" "retainAuditACLLocked (auditExampleACL ''b'' 8 9) 1 ?s" 1] by simp
qed

text \<open>Property C37. Pruning is exact.  After any run of retains and prunes, a prune at a cutoff removes exactly the stubs
  whose expiry is at or before the cutoff and leaves every other stub as it was, although it only walks the
  expiry ordering.\<close>

theorem audit_prune_exact:
  assumes "list_all cleanAuditOp ops" and "s = fold auditStep ops newAuditState"
  shows "auditACLs (pruneAuditACLLocked cutoff s) k =
    (case auditACLs s k of None \<Rightarrow> None | Some a \<Rightarrow> if aaExpiresUnix a \<le> cutoff then None else Some a)"
proof -
  have wf: "auditWf s" using auditWf_run[OF auditWf_new assms(1)] assms(2) by simp
  show ?thesis
    using prune_spec[OF ensure_spec(1,4)[OF wf], of cutoff] ensure_spec(2)[OF wf]
    by (simp add: pruneAuditACLLocked_def unexpired_def)
qed

definition auditExample :: auditState where
  "auditExample = fold auditStep [AuditRetain (auditExampleACL ''a'' 7 9) 0] newAuditState"

lemma auditExample_rows: "auditACLs auditExample = [auditKeyOf (auditExampleACL ''a'' 7 9) \<mapsto> auditExampleACL ''a'' 7 9]"
  "auditACLLatest auditExample = [''sb'' \<mapsto> auditKeyOf (auditExampleACL ''a'' 7 9)]"
proof -
  let ?k = "auditKeyOf (auditExampleACL ''a'' 7 9)"
  have st: "storable (auditExampleACL ''a'' 7 9)" by (simp add: storable_def auditExampleACL_def visibleChar_def)
  have tr: "trimmedACL (auditExampleACL ''a'' 7 9) = auditExampleACL ''a'' 7 9"
    by (simp add: trimmedACL_def auditExampleACL_def visibleChar_def)
  have stub: "auditStub (auditExampleACL ''a'' 7 9)" using auditStub_trimmed[OF st] tr by simp
  have rows: "auditACLs (storeAuditACL ?k (auditExampleACL ''a'' 7 9) newAuditState) = [?k \<mapsto> auditExampleACL ''a'' 7 9]"
    using auditWf_store(2)[OF auditWf_new stub] by (simp add: auditKeyOf_def newAuditState_def)
  have eq: "auditExample = storeAuditACL ?k (auditExampleACL ''a'' 7 9) newAuditState"
    using retain_store[OF auditWf_new st refl, of 0] rows
    by (simp add: auditExample_def tr) (subst evictLoop.simps, simp add: maxRetainedAuditACLs_def)
  show "auditACLs auditExample = [?k \<mapsto> auditExampleACL ''a'' 7 9]" using eq rows by simp
  show "auditACLLatest auditExample = [''sb'' \<mapsto> ?k]"
    unfolding eq by (simp add: storeAuditACL_def ensureAuditACLIndexesLocked_def newAuditState_def Let_def
        refreshAuditACLLatestLocked_def auditExampleACL_def)
qed

theorem audit_prune_exact_witness:
  "auditACLs (pruneAuditACLLocked 8 auditExample) (auditKeyOf (auditExampleACL ''a'' 7 9)) = Some (auditExampleACL ''a'' 7 9) \<and>
   auditACLs (pruneAuditACLLocked 9 auditExample) (auditKeyOf (auditExampleACL ''a'' 7 9)) = None"
proof -
  let ?ops = "[AuditRetain (auditExampleACL ''a'' 7 9) 0]"
  have c: "list_all cleanAuditOp ?ops" by (simp add: auditExampleACL_def)
  show ?thesis
    using audit_prune_exact[OF c auditExample_def, of 8] audit_prune_exact[OF c auditExample_def, of 9]
    by (simp add: auditExample_rows auditExampleACL_def)
qed

lemma latest_newest:
  assumes wf: "auditWf s" and l: "auditACLLatest s sb = Some k"
  shows "\<exists>a. auditACLs s k = Some a \<and> aaSandboxID a = sb \<and>
    (\<forall>k' a'. auditACLs s k' = Some a' \<longrightarrow> aaSandboxID a' = sb \<longrightarrow> aaRetainedVersion a' \<le> aaRetainedVersion a)"
proof -
  let ?ids = "idxGet (auditACLBySandbox s) sb"
  let ?f = "\<lambda>key. (auditVersion s key, key)"
  have ex: "idxExact auditSandboxKeys (auditACLs s) (auditACLBySandbox s)" by (rule auditWfD(7)[OF wf])
  have fin: "finite ?ids" using idxExact_finite[OF ex] .
  have ne: "?ids \<noteq> {}" and k: "k = snd (Max (?f ` ?ids))"
    using l unfolding auditWfD(8)[OF wf] latestOf_def by (auto simp: Let_def split: if_splits)
  have "Max (?f ` ?ids) \<in> ?f ` ?ids" using fin ne by (intro Max_in) auto
  then have mem: "k \<in> ?ids" and mx: "Max (?f ` ?ids) = ?f k" using k by auto
  obtain a where a: "auditACLs s k = Some a" "aaSandboxID a = sb"
    using mem idxExact_member[OF ex, of k sb] by (auto simp: auditSandboxKeys_def)
  have "aaRetainedVersion a' \<le> aaRetainedVersion a" if k': "auditACLs s k' = Some a'" "aaSandboxID a' = sb" for k' a'
  proof -
    have "k' \<in> ?ids" using k' idxExact_member[OF ex, of k' sb] by (simp add: auditSandboxKeys_def)
    then have "?f k' \<le> ?f k" using fin mx Max_ge[of "?f ` ?ids" "?f k'"] by simp
    then show ?thesis using k'(1) a(1) by (auto simp: auditVersion_def)
  qed
  then show ?thesis using a by blast
qed

text \<open>A lookup that names no lifecycle gets the newest one.  After any run of retains and prunes, the audit
  record returned for a sandbox without an incarnation is a stored, unexpired record of that sandbox, and no
  stored record of that sandbox was retained at a later log index.\<close>

theorem audit_lookup_newest:
  assumes "list_all cleanAuditOp ops" and "s = fold auditStep ops newAuditState"
    and "auditACLForSandbox sb [] now s = Some acl"
  shows "aaSandboxID acl = trimSpace sb \<and> aaExpiresUnix acl > now \<and> acl \<in> ran (auditACLs s) \<and>
    (\<forall>a' \<in> ran (auditACLs s). aaSandboxID a' = trimSpace sb \<longrightarrow> aaRetainedVersion a' \<le> aaRetainedVersion acl)"
proof -
  have wf: "auditWf s" using auditWf_run[OF auditWf_new assms(1)] assms(2) by simp
  obtain k where k: "auditACLLatest s (trimSpace sb) = Some k" "auditACLs s k = Some acl" and u: "auditACLUsable acl now"
    using assms(3) by (auto simp: auditACLForSandbox_def Let_def split: if_splits option.splits)
  have "aaExpiresUnix acl > 0" using auditWfD(2)[OF wf k(2)] by (simp add: auditStub_def)
  then have "aaExpiresUnix acl > now" using u by (simp add: auditACLUsable_def)
  then show ?thesis using latest_newest[OF wf k(1)] k(2) by (auto simp: ran_def)
qed

theorem audit_lookup_newest_witness:
  "auditACLForSandbox ''sb'' [] 5 auditExample = Some (auditExampleACL ''a'' 7 9) \<and>
   auditExampleACL ''a'' 7 9 \<in> ran (auditACLs auditExample)"
proof -
  have c: "list_all cleanAuditOp [AuditRetain (auditExampleACL ''a'' 7 9) 0]" by (simp add: auditExampleACL_def)
  have l: "auditACLForSandbox ''sb'' [] 5 auditExample = Some (auditExampleACL ''a'' 7 9)"
    by (simp add: auditACLForSandbox_def auditExample_rows auditACLUsable_def visibleChar_def Let_def)
      (simp add: auditExampleACL_def visibleChar_def)
  then show ?thesis using audit_lookup_newest[OF c auditExample_def l] by blast
qed

end
