(* ===== verification/Identity.thy ===== *)
theory Identity
  imports Placement_Types "HOL-Library.Product_Lexorder"
begin

text \<open>
  Cloud identity (\<^verbatim>\<open>internal/cluster/fsm_identity.go\<close>, \<^verbatim>\<open>internal/cloudidentity/keys.go\<close>, the tag and role
  grammar of \<^verbatim>\<open>internal/cloudidentity/token.go\<close>): the replicated signing key set, replaced whole under a
  generation compare-and-swap, and each owner's role-tag allow list.  Reading a public JWK and its
  thumbprint is go-jose's work: \<^verbatim>\<open>jwkID\<close> maps the encoded public key to its key id, or to nothing when the
  encoding is not an acceptable public key.
\<close>

section \<open>Key sets\<close>

record KeyRecord =
  kyID :: string
  kySealedPrivate :: string
  kyPublicJWK :: string
  kyCreatedUnixNano :: int
  kyRetiredUnixNano :: int

record KeySet =
  ksGeneration :: int
  ksKeys :: "KeyRecord list"

datatype keySetError = ErrTooManyKeys | ErrKeySetInvalid

definition RetiredKeyPublishedFor :: int where "RetiredKeyPublishedFor = 2 * 3600 * 10 ^ 9"

definition MaxKeys :: nat where "MaxKeys = 8"

definition keyActive :: "KeyRecord \<Rightarrow> bool" where
  "keyActive r \<longleftrightarrow> kyRetiredUnixNano r = 0"

definition PublishedAt :: "int \<Rightarrow> KeyRecord \<Rightarrow> bool" where
  "PublishedAt now r \<longleftrightarrow> keyActive r \<or> now < kyRetiredUnixNano r + RetiredKeyPublishedFor"

definition keySetActive :: "KeySet \<Rightarrow> KeyRecord option" where
  "keySetActive s = find keyActive (ksKeys s)"

definition Published :: "int \<Rightarrow> KeySet \<Rightarrow> KeyRecord list" where
  "Published now s =
     sort_key (\<lambda>k. (if keyActive k then 0 else 1 :: nat, - kyRetiredUnixNano k)) (filter (PublishedAt now) (ksKeys s))"

fun validateKeys :: "(string \<Rightarrow> string option) \<Rightarrow> string set \<Rightarrow> nat \<Rightarrow> KeyRecord list \<Rightarrow> keySetError + nat" where
  "validateKeys jwkID seen active [] = Inr active"
| "validateKeys jwkID seen active (k # ks) =
     (if kyID k = [] \<or> kyID k \<in> seen then Inl ErrKeySetInvalid
      else if kySealedPrivate k = [] then Inl ErrKeySetInvalid
      else if jwkID (kyPublicJWK k) \<noteq> Some (kyID k) then Inl ErrKeySetInvalid
      else validateKeys jwkID (insert (kyID k) seen) (if keyActive k then active + 1 else active) ks)"

definition keySetValidate :: "(string \<Rightarrow> string option) \<Rightarrow> KeySet \<Rightarrow> keySetError option" where
  "keySetValidate jwkID s =
     (if length (ksKeys s) > MaxKeys then Some ErrTooManyKeys
      else (case validateKeys jwkID {} 0 (ksKeys s) of
              Inl e \<Rightarrow> Some e
            | Inr active \<Rightarrow> if ksKeys s \<noteq> [] \<and> active \<noteq> 1 then Some ErrKeySetInvalid else None))"

definition retireKey :: "int \<Rightarrow> KeyRecord \<Rightarrow> KeyRecord" where
  "retireKey now k = (if keyActive k then k\<lparr>kyRetiredUnixNano := now\<rparr> else k)"

definition Rotate :: "(string \<Rightarrow> string option) \<Rightarrow> KeyRecord \<Rightarrow> int \<Rightarrow> KeySet \<Rightarrow> keySetError + KeySet" where
  "Rotate jwkID nxt now s =
     (if \<not> keyActive nxt then Inl ErrKeySetInvalid
      else let out = \<lparr>ksGeneration = ksGeneration s,
                      ksKeys = filter (PublishedAt now) (map (retireKey now) (ksKeys s)) @ [nxt]\<rparr>
           in case keySetValidate jwkID out of Some e \<Rightarrow> Inl e | None \<Rightarrow> Inr out)"

section \<open>Role tags\<close>

definition tagLead :: "char \<Rightarrow> bool" where
  "tagLead c \<longleftrightarrow> CHR ''a'' \<le> c \<and> c \<le> CHR ''z'' \<or> CHR ''0'' \<le> c \<and> c \<le> CHR ''9''"

definition ValidateRoleTag :: "string \<Rightarrow> bool" where
  "ValidateRoleTag tag =
     (case tag of
        [] \<Rightarrow> False
      | c # cs \<Rightarrow> tagLead c \<and> list_all (\<lambda>d. tagLead d \<or> d = CHR ''_'' \<or> d = CHR ''-'') cs \<and> length cs \<le> 62)"

definition ValidMinRole :: "string \<Rightarrow> bool" where
  "ValidMinRole r \<longleftrightarrow> r = ''runner'' \<or> r = ''admin''"

record IdentityRoleRecord =
  irOwner :: string
  irTag :: string
  irMinRole :: string
  irCreatedUnixNano :: int
  irUpdatedUnixNano :: int

type_synonym IdentityRoleKey = "string \<times> string"

definition roleKey :: "IdentityRoleRecord \<Rightarrow> IdentityRoleKey" where
  "roleKey r = (irOwner r, irTag r)"

record IdentityKeysWrite =
  ikExpectedGeneration :: int
  ikKeys :: "KeyRecord list"

text \<open>A nil identity state reads as the empty one.\<close>

record identityState =
  idKeys :: KeySet
  idRoles :: "IdentityRoleKey \<rightharpoonup> IdentityRoleRecord"

definition identityLocked :: identityState where
  "identityLocked = \<lparr>idKeys = \<lparr>ksGeneration = 0, ksKeys = []\<rparr>, idRoles = Map.empty\<rparr>"

section \<open>Commands\<close>

definition applyPutIdentityKeysLocked ::
  "(string \<Rightarrow> string option) \<Rightarrow> IdentityKeysWrite option \<Rightarrow> identityState \<Rightarrow> (fsmError + KeySet) \<times> identityState" where
  "applyPutIdentityKeysLocked jwkID inp st =
     (case inp of
        None \<Rightarrow> (Inl ErrIdentityKeysInvalid, st)
      | Some w \<Rightarrow>
          if ikExpectedGeneration w \<noteq> ksGeneration (idKeys st) then (Inl ErrIdentityKeysConflict, st)
          else let nxt = \<lparr>ksGeneration = ikExpectedGeneration w + 1, ksKeys = ikKeys w\<rparr>
               in case keySetValidate jwkID nxt of
                    Some e \<Rightarrow> (Inl ErrIdentityKeysInvalid, st)
                  | None \<Rightarrow> (Inr nxt, st\<lparr>idKeys := nxt\<rparr>))"

definition applyPutIdentityRoleLocked ::
  "IdentityRoleRecord option \<Rightarrow> int \<Rightarrow> identityState \<Rightarrow> (fsmError + IdentityRoleRecord \<times> bool) \<times> identityState" where
  "applyPutIdentityRoleLocked inp stampUnixNano st =
     (case inp of
        None \<Rightarrow> (Inl ErrIdentityKeysInvalid, st)
      | Some r \<Rightarrow>
          if \<not> ValidateRoleTag (irTag r) then (Inl ErrIdentityKeysInvalid, st)
          else if \<not> ValidMinRole (irMinRole r) then (Inl ErrIdentityKeysInvalid, st)
          else let write = (\<lambda>created.
                     let rec = \<lparr>irOwner = irOwner r, irTag = irTag r, irMinRole = irMinRole r,
                                irCreatedUnixNano = created, irUpdatedUnixNano = stampUnixNano\<rparr>
                     in (Inr (rec, True), st\<lparr>idRoles := (idRoles st)(roleKey rec \<mapsto> rec)\<rparr>))
               in case idRoles st (roleKey r) of
                    None \<Rightarrow> write stampUnixNano
                  | Some old \<Rightarrow> if irMinRole old = irMinRole r then (Inr (old, False), st)
                                else write (irCreatedUnixNano old))"

definition applyDeleteIdentityRoleLocked ::
  "IdentityRoleRecord option \<Rightarrow> identityState \<Rightarrow> fsmError option \<times> identityState" where
  "applyDeleteIdentityRoleLocked inp st =
     (case inp of
        None \<Rightarrow> (Some ErrIdentityKeysInvalid, st)
      | Some r \<Rightarrow>
          if trimSpace (irTag r) = [] then (Some ErrIdentityKeysInvalid, st)
          else (None, st\<lparr>idRoles := (idRoles st)(roleKey r := None)\<rparr>))"

section \<open>Reads and snapshots\<close>

definition identityKeys :: "identityState \<Rightarrow> KeySet" where
  "identityKeys st = idKeys st"

definition identityRoles :: "string \<Rightarrow> string list \<Rightarrow> string \<Rightarrow> int \<Rightarrow> identityState \<Rightarrow> IdentityRoleRecord list" where
  "identityRoles ow tags after limit st =
     (if tags \<noteq> [] then List.map_filter (\<lambda>tag. idRoles st (ow, tag)) tags
      else let names = sorted_list_of_set {t. (ow, t) \<in> dom (idRoles st) \<and> t > after};
               names = (if limit > 0 \<and> int (length names) > limit then take (nat limit) names else names)
           in map (\<lambda>t. the (idRoles st (ow, t))) names)"

definition identitySnapshotLocked :: "identityState \<Rightarrow> KeySet \<times> IdentityRoleRecord list" where
  "identitySnapshotLocked st = (idKeys st, sortedRows (idRoles st))"

definition restoreIdentityLocked :: "KeySet option \<Rightarrow> IdentityRoleRecord list \<Rightarrow> identityState" where
  "restoreIdentityLocked keys roles =
     \<lparr>idKeys = (case keys of None \<Rightarrow> \<lparr>ksGeneration = 0, ksKeys = []\<rparr> | Some k \<Rightarrow> k),
      idRoles = rebuildRows (\<lambda>_. True) roleKey roles\<rparr>"

section \<open>The key set invariant\<close>

definition keysOk :: "(string \<Rightarrow> string option) \<Rightarrow> KeyRecord list \<Rightarrow> bool" where
  "keysOk jwkID ks \<longleftrightarrow>
     length ks \<le> MaxKeys \<and> distinct (map kyID ks) \<and>
     (\<forall>k \<in> set ks. kyID k \<noteq> [] \<and> kySealedPrivate k \<noteq> [] \<and> jwkID (kyPublicJWK k) = Some (kyID k)) \<and>
     (ks \<noteq> [] \<longrightarrow> length (filter keyActive ks) = 1)"

lemma validateKeys_spec:
  "validateKeys jwkID seen n ks = Inr m \<longleftrightarrow>
     distinct (map kyID ks) \<and> set (map kyID ks) \<inter> seen = {} \<and>
     (\<forall>k \<in> set ks. kyID k \<noteq> [] \<and> kySealedPrivate k \<noteq> [] \<and> jwkID (kyPublicJWK k) = Some (kyID k)) \<and>
     m = n + length (filter keyActive ks)"
  by (induction jwkID seen n ks rule: validateKeys.induct) auto

lemma keySetValidate_spec: "keySetValidate jwkID s = None \<longleftrightarrow> keysOk jwkID (ksKeys s)"
proof (cases "validateKeys jwkID {} 0 (ksKeys s)")
  case (Inl e)
  then have "\<not> keysOk jwkID (ksKeys s)"
    using validateKeys_spec[of jwkID "{}" 0 "ksKeys s" "length (filter keyActive (ksKeys s))"] by (auto simp: keysOk_def)
  then show ?thesis using Inl by (simp add: keySetValidate_def)
next
  case (Inr m)
  then show ?thesis
    using validateKeys_spec[of jwkID "{}" 0 "ksKeys s" m] by (auto simp: keySetValidate_def keysOk_def)
qed

lemma one_active:
  assumes "length (filter keyActive ks) = 1" and "k \<in> set ks" "keyActive k" and "j \<in> set ks" "keyActive j"
  shows "j = k"
proof -
  obtain x where "filter keyActive ks = [x]" using assms(1) by (cases "filter keyActive ks") auto
  then have "y = x" if "y \<in> set ks" "keyActive y" for y 
  proof -
    have "y \<in> set (filter keyActive ks)" using that by simp
    then show ?thesis using \<open>filter keyActive ks = [x]\<close> by simp
  qed
  then show ?thesis using assms(2-5) by metis
qed

section \<open>Runs\<close>

datatype identityOp =
    PutIdentityKeys "IdentityKeysWrite option"
  | PutIdentityRole "IdentityRoleRecord option" int
  | DeleteIdentityRole "IdentityRoleRecord option"

fun identityStep :: "(string \<Rightarrow> string option) \<Rightarrow> identityOp \<Rightarrow> identityState \<Rightarrow> identityState" where
  "identityStep jwkID (PutIdentityKeys w) st = snd (applyPutIdentityKeysLocked jwkID w st)"
| "identityStep jwkID (PutIdentityRole r stamp) st = snd (applyPutIdentityRoleLocked r stamp st)"
| "identityStep jwkID (DeleteIdentityRole r) st = snd (applyDeleteIdentityRoleLocked r st)"

definition identityRun :: "(string \<Rightarrow> string option) \<Rightarrow> identityOp list \<Rightarrow> identityState \<Rightarrow> identityState" where
  "identityRun jwkID ops st = fold (identityStep jwkID) ops st"

text \<open>The table is keyed by the record's own key, its tags and roles are valid, and the key set is.\<close>

definition identityWf :: "(string \<Rightarrow> string option) \<Rightarrow> identityState \<Rightarrow> bool" where
  "identityWf jwkID st \<longleftrightarrow> keysOk jwkID (ksKeys (idKeys st)) \<and> finite (dom (idRoles st)) \<and>
     (\<forall>k r. idRoles st k = Some r \<longrightarrow> roleKey r = k \<and> ValidateRoleTag (irTag r) \<and> ValidMinRole (irMinRole r))"

lemma putRole_keys: "idKeys (snd (applyPutIdentityRoleLocked r stamp st)) = idKeys st"
  by (simp add: applyPutIdentityRoleLocked_def Let_def split: option.split)

lemma delRole_keys: "idKeys (snd (applyDeleteIdentityRoleLocked r st)) = idKeys st"
  by (simp add: applyDeleteIdentityRoleLocked_def split: option.split)

lemma putKeys_cases:
  "snd (applyPutIdentityKeysLocked jwkID w st) = st \<or>
   (\<exists>v. w = Some v \<and> ikExpectedGeneration v = ksGeneration (idKeys st) \<and> keysOk jwkID (ikKeys v) \<and>
      snd (applyPutIdentityKeysLocked jwkID w st) =
        st\<lparr>idKeys := \<lparr>ksGeneration = ikExpectedGeneration v + 1, ksKeys = ikKeys v\<rparr>\<rparr>)"
proof (cases w)
  case (Some v)
  let ?n = "\<lparr>ksGeneration = ikExpectedGeneration v + 1, ksKeys = ikKeys v\<rparr>"
  show ?thesis
    using Some keySetValidate_spec[of jwkID ?n]
    by (cases "keySetValidate jwkID ?n") (auto simp: applyPutIdentityKeysLocked_def Let_def)
qed (simp add: applyPutIdentityKeysLocked_def)

lemma identityWf_step:
  assumes "identityWf jwkID st"
  shows "identityWf jwkID (identityStep jwkID op st)"
proof (cases op)
  case (PutIdentityKeys w)
  then show ?thesis using assms putKeys_cases[of jwkID w st] by (auto simp: identityWf_def)
next
  case (PutIdentityRole r stamp)
  then show ?thesis using assms
    by (auto simp: identityWf_def applyPutIdentityRoleLocked_def roleKey_def Let_def split: option.splits if_splits)
next
  case (DeleteIdentityRole r)
  then show ?thesis using assms by (auto simp: identityWf_def applyDeleteIdentityRoleLocked_def split: option.split)
qed

lemma identityWf_run: "identityWf jwkID st \<Longrightarrow> identityWf jwkID (identityRun jwkID ops st)"
  unfolding identityRun_def by (induction ops arbitrary: st) (simp_all add: identityWf_step)

lemma identityWf_new: "identityWf jwkID identityLocked"
  by (simp add: identityWf_def identityLocked_def keysOk_def)

lemma generation_step: "ksGeneration (idKeys st) \<le> ksGeneration (idKeys (identityStep jwkID op st))"
proof (cases op)
  case (PutIdentityKeys w)
  then show ?thesis using putKeys_cases[of jwkID w st] by auto
qed (simp_all add: putRole_keys delRole_keys)

lemma generation_run: "ksGeneration (idKeys st) \<le> ksGeneration (idKeys (identityRun jwkID ops st))"
  unfolding identityRun_def
proof (induction ops arbitrary: st)
  case (Cons op ops)
  show ?case using generation_step[of st jwkID op] Cons[of "identityStep jwkID op st"] by simp
qed simp

lemma identity_snapshot_restore:
  assumes "identityWf jwkID st"
  shows "restoreIdentityLocked (Some (fst (identitySnapshotLocked st))) (snd (identitySnapshotLocked st)) = st"
proof -
  have "rebuildRows (\<lambda>_. True) roleKey (sortedRows (idRoles st)) = idRoles st"
    using assms unfolding identityWf_def by (intro rebuild_sortedRows) blast+
  then show ?thesis by (simp add: restoreIdentityLocked_def identitySnapshotLocked_def)
qed

section \<open>Properties\<close>

text \<open>One writer wins each generation of the signing keys.  In any run of identity commands, once a
  key-set write that named a generation has been accepted, every later write naming the same generation is refused
  as a conflict, whatever happens in between; and at every moment the set holds at most
  \<^verbatim>\<open>MaxKeys\<close> keys with distinct ids, each matching its public key, exactly one of them active unless the set
  is empty.\<close>

theorem identity_keys_compare_and_swap:
  assumes "st = identityRun jwkID before identityLocked"
    and "applyPutIdentityKeysLocked jwkID (Some w) st = (Inr ks, st1)"
    and "st2 = identityRun jwkID between st1"
    and "ikExpectedGeneration w' = ikExpectedGeneration w"
  shows "applyPutIdentityKeysLocked jwkID (Some w') st2 = (Inl ErrIdentityKeysConflict, st2) \<and>
         keysOk jwkID (ksKeys (identityKeys st2)) \<and> ksGeneration ks = ikExpectedGeneration w + 1"
proof -
  have acc: "ikExpectedGeneration w = ksGeneration (idKeys st)" "ks = \<lparr>ksGeneration = ikExpectedGeneration w + 1, ksKeys = ikKeys w\<rparr>"
    "st1 = st\<lparr>idKeys := ks\<rparr>"
    using assms(2) by (auto simp: applyPutIdentityKeysLocked_def Let_def split: if_splits option.splits)
  have wf: "identityWf jwkID st2"
  proof -
    have "identityWf jwkID st" using assms(1) identityWf_run[OF identityWf_new] by simp
    then have "identityWf jwkID (identityStep jwkID (PutIdentityKeys (Some w)) st)" by (rule identityWf_step)
    then show ?thesis using assms(2,3) identityWf_run by simp
  qed
  have "ksGeneration (idKeys st1) \<le> ksGeneration (idKeys st2)" using assms(3) generation_run by simp
  then have "ikExpectedGeneration w' \<noteq> ksGeneration (idKeys st2)" using acc assms(4) by simp
  then show ?thesis using wf acc by (simp add: applyPutIdentityKeysLocked_def identityWf_def identityKeys_def)
qed

definition exampleKey :: "string \<Rightarrow> int \<Rightarrow> KeyRecord" where
  "exampleKey i retired = \<lparr>kyID = i, kySealedPrivate = ''sealed'', kyPublicJWK = i, kyCreatedUnixNano = 1, kyRetiredUnixNano = retired\<rparr>"

theorem identity_keys_compare_and_swap_witness:
  "applyPutIdentityKeysLocked Some (Some \<lparr>ikExpectedGeneration = 0, ikKeys = []\<rparr>)
     (identityRun Some [] (identityLocked\<lparr>idKeys := \<lparr>ksGeneration = 1, ksKeys = [exampleKey ''k1'' 0]\<rparr>\<rparr>)) =
   (Inl ErrIdentityKeysConflict, identityLocked\<lparr>idKeys := \<lparr>ksGeneration = 1, ksKeys = [exampleKey ''k1'' 0]\<rparr>\<rparr>)"
proof -
  let ?ks = "\<lparr>ksGeneration = 1, ksKeys = [exampleKey ''k1'' 0]\<rparr>"
  let ?st1 = "identityLocked\<lparr>idKeys := ?ks\<rparr>"
  have a: "identityLocked = identityRun Some [] identityLocked" by (simp add: identityRun_def)
  have b: "applyPutIdentityKeysLocked Some (Some \<lparr>ikExpectedGeneration = 0, ikKeys = [exampleKey ''k1'' 0]\<rparr>) identityLocked =
      (Inr ?ks, ?st1)"
    by (simp add: applyPutIdentityKeysLocked_def identityLocked_def keySetValidate_def exampleKey_def keyActive_def MaxKeys_def Let_def)
  show ?thesis
    using identity_keys_compare_and_swap[OF a b refl, of "\<lparr>ikExpectedGeneration = 0, ikKeys = []\<rparr>" "[]"]
    by (simp add: identityRun_def)
qed

lemma find_append: "find P (xs @ ys) = (case find P xs of None \<Rightarrow> find P ys | Some x \<Rightarrow> Some x)"
  by (induction xs) auto

lemma retire_rest:
  assumes "now \<noteq> 0"
  shows "filter keyActive (filter (PublishedAt now) (map (retireKey now) ks)) = []"
  using assms by (auto simp: filter_empty_conv retireKey_def keyActive_def split: if_splits)

text \<open>A rotation hands over without breaking tokens.  When rotating a valid key set succeeds at a nonzero
  time, the new key is the only active one; the key it replaced stays in the published set for the whole retirement
  window, so every token it signed stays verifiable; and a key that is dropped had been retired for at least that
  window.\<close>

theorem rotation_keeps_tokens_verifiable:
  assumes "keysOk jwkID (ksKeys s)" and "keySetActive s = Some old" and "now \<noteq> 0"
    and "Rotate jwkID nxt now s = Inr s'"
  shows "keysOk jwkID (ksKeys s') \<and> keySetActive s' = Some nxt \<and>
    (\<forall>t. t < now + RetiredKeyPublishedFor \<longrightarrow> old\<lparr>kyRetiredUnixNano := now\<rparr> \<in> set (Published t s')) \<and>
    (\<forall>k \<in> set (ksKeys s). k \<noteq> old \<longrightarrow> k \<notin> set (ksKeys s') \<longrightarrow> kyRetiredUnixNano k + RetiredKeyPublishedFor \<le> now)"
proof -
  let ?rest = "filter (PublishedAt now) (map (retireKey now) (ksKeys s))"
  have s': "s' = \<lparr>ksGeneration = ksGeneration s, ksKeys = ?rest @ [nxt]\<rparr>" "keyActive nxt" "keySetValidate jwkID s' = None"
    using assms(4) by (auto simp: Rotate_def Let_def split: if_splits option.splits)
  have old: "old \<in> set (ksKeys s)" "keyActive old"
    using assms(2) by (auto simp: keySetActive_def find_Some_iff)
  have one: "length (filter keyActive (ksKeys s)) = 1" using assms(1) old(1) by (auto simp: keysOk_def)
  have ok: "keysOk jwkID (ksKeys s')" using s'(3) keySetValidate_spec by blast
  have "find keyActive ?rest = None"
    using retire_rest[OF assms(3), of "ksKeys s"] unfolding filter_empty_conv find_None_iff by blast
  then have "find keyActive (?rest @ [nxt]) = Some nxt" using s'(2) by (simp add: find_append)
  then have act: "keySetActive s' = Some nxt" using s'(1) by (simp add: keySetActive_def)
  have retired: "retireKey now old = old\<lparr>kyRetiredUnixNano := now\<rparr>" using old(2) by (simp add: retireKey_def)
  have "old\<lparr>kyRetiredUnixNano := now\<rparr> \<in> set ?rest"
    using old(1) retired by (auto simp: PublishedAt_def RetiredKeyPublishedFor_def image_iff intro: bexI[of _ old])
  then have pub: "old\<lparr>kyRetiredUnixNano := now\<rparr> \<in> set (Published t s')" if "t < now + RetiredKeyPublishedFor" for t
    using that s'(1) by (simp add: Published_def PublishedAt_def)
  have drop: "kyRetiredUnixNano k + RetiredKeyPublishedFor \<le> now"
    if "k \<in> set (ksKeys s)" "k \<noteq> old" "k \<notin> set (ksKeys s')" for k
  proof -
    have "\<not> keyActive k" using one_active[OF one old that(1)] that(2) by blast
    then have "retireKey now k = k" by (simp add: retireKey_def)
    then have "\<not> PublishedAt now k" using that(1,3) s'(1) by (force simp: image_iff)
    then show ?thesis by (simp add: PublishedAt_def)
  qed
  show ?thesis using ok act pub drop by blast
qed

theorem rotation_keeps_tokens_verifiable_witness:
  "keySetActive \<lparr>ksGeneration = 1, ksKeys = [exampleKey ''a'' 5, exampleKey ''b'' 0]\<rparr> = Some (exampleKey ''b'' 0) \<and>
   (exampleKey ''a'' 5)\<lparr>kyRetiredUnixNano := 5\<rparr> \<in> set (Published 7 \<lparr>ksGeneration = 1, ksKeys = [exampleKey ''a'' 5, exampleKey ''b'' 0]\<rparr>)"
proof -
  let ?s = "\<lparr>ksGeneration = 1, ksKeys = [exampleKey ''a'' 0]\<rparr>"
  have "keysOk Some (ksKeys ?s)" "keySetActive ?s = Some (exampleKey ''a'' 0)"
    by (simp_all add: keysOk_def exampleKey_def keyActive_def keySetActive_def MaxKeys_def)
  moreover have "Rotate Some (exampleKey ''b'' 0) 5 ?s = Inr \<lparr>ksGeneration = 1, ksKeys = [exampleKey ''a'' 5, exampleKey ''b'' 0]\<rparr>"
    by (simp add: Rotate_def exampleKey_def keyActive_def retireKey_def PublishedAt_def RetiredKeyPublishedFor_def
        keySetValidate_def MaxKeys_def)
  ultimately have "keySetActive \<lparr>ksGeneration = 1, ksKeys = [exampleKey ''a'' 5, exampleKey ''b'' 0]\<rparr> = Some (exampleKey ''b'' 0)"
    "(exampleKey ''a'' 0)\<lparr>kyRetiredUnixNano := 5\<rparr> \<in> set (Published 7 \<lparr>ksGeneration = 1, ksKeys = [exampleKey ''a'' 5, exampleKey ''b'' 0]\<rparr>)"
    using rotation_keeps_tokens_verifiable[of Some ?s "exampleKey ''a'' 0" 5 "exampleKey ''b'' 0"]
    by (simp_all add: RetiredKeyPublishedFor_def)
  then show ?thesis by (simp add: exampleKey_def)
qed

end
