(* ===== verification/Artifact_Catalog.thy ===== *)
theory Artifact_Catalog
  imports Placement_Types
begin

text \<open>
  The replicated artifact catalogue (\<^verbatim>\<open>internal/cluster/artifact_catalog.go\<close>, the operations
  \<^verbatim>\<open>opPublishArtifactCatalog\<close> and \<^verbatim>\<open>opAllocateArtifactEpoch\<close> of \<^verbatim>\<open>fsm.go\<close>): every node publishes its inventory
  of a kind in chunks, under a fencing token that the log hands out, and the catalogue answers for a node
  only from a completely delivered publication.  Shown: the tokens of one node are strictly increasing over
  any history, and the chunks of an inventory assemble to exactly that inventory, all or nothing.
\<close>

section \<open>State\<close>

record ArtifactCatalogRow =
  acID :: string
  acTenant :: string
  acPayload :: string

record artifactCatalogNodeState =
  anEpoch :: int
  anRevision :: int
  anWithdrawn :: bool
  anRows :: "string \<rightharpoonup> ArtifactCatalogRow"

record artifactCatalogIssuedEpoch =
  aiEpoch :: int
  aiHolder :: string

record artifactCatalogKindState =
  akCommitted :: "string \<rightharpoonup> artifactCatalogNodeState"
  akPending :: "string \<rightharpoonup> artifactCatalogNodeState"
  akIssued :: "string \<rightharpoonup> artifactCatalogIssuedEpoch"

type_synonym artifactCatalog = "string \<rightharpoonup> artifactCatalogKindState"

definition emptyKind :: artifactCatalogKindState where
  "emptyKind = \<lparr>akCommitted = Map.empty, akPending = Map.empty, akIssued = Map.empty\<rparr>"

definition zeroNode :: artifactCatalogNodeState where
  "zeroNode = \<lparr>anEpoch = 0, anRevision = 0, anWithdrawn = False, anRows = Map.empty\<rparr>"

text \<open>Go's map read: the zero value when the key is absent.\<close>

definition nodeAt :: "(string \<rightharpoonup> artifactCatalogNodeState) \<Rightarrow> string \<Rightarrow> artifactCatalogNodeState" where
  "nodeAt m n = (case m n of None \<Rightarrow> zeroNode | Some s \<Rightarrow> s)"

definition issuedAt :: "(string \<rightharpoonup> artifactCatalogIssuedEpoch) \<Rightarrow> string \<Rightarrow> int" where
  "issuedAt m n = (case m n of None \<Rightarrow> 0 | Some i \<Rightarrow> aiEpoch i)"

definition kindAt :: "artifactCatalog \<Rightarrow> string \<Rightarrow> artifactCatalogKindState" where
  "kindAt c kind = (case c kind of None \<Rightarrow> emptyKind | Some s \<Rightarrow> s)"

definition maxArtifactCatalogRowBytes :: nat where "maxArtifactCatalogRowBytes = 16 * 1024"
definition MaxArtifactCatalogChunkRows :: nat where "MaxArtifactCatalogChunkRows = 256"
definition MaxArtifactCatalogChunkBytes :: nat where "MaxArtifactCatalogChunkBytes = 512 * 1024"
definition artifactCatalogRowOverheadBytes :: nat where "artifactCatalogRowOverheadBytes = 96"
definition MaxArtifactCatalogPageRows :: nat where "MaxArtifactCatalogPageRows = 2048"
definition artifactCatalogPageByteBudget :: int where "artifactCatalogPageByteBudget = 8 * 1024 * 1024"

definition artifactCatalogKindKey :: "string \<Rightarrow> string" where
  "artifactCatalogKindKey kind = trimSpace kind"

definition artifactCatalogRowKey :: "string \<Rightarrow> string \<Rightarrow> string" where
  "artifactCatalogRowKey tenant i = trimSpace tenant @ [CHR 0x00] @ trimSpace i"

definition supersedes :: "artifactCatalogNodeState \<Rightarrow> int \<Rightarrow> int \<Rightarrow> bool" where
  "supersedes s epoch revision =
     (if anEpoch s \<noteq> epoch then epoch > anEpoch s else revision > anRevision s)"

definition clearPendingForPublication ::
  "string \<Rightarrow> int \<Rightarrow> int \<Rightarrow> artifactCatalogKindState \<Rightarrow> artifactCatalogKindState" where
  "clearPendingForPublication nodeID epoch revision state =
     (case akPending state nodeID of
        None \<Rightarrow> state
      | Some pending \<Rightarrow>
          if anEpoch pending > epoch \<or> (anEpoch pending = epoch \<and> anRevision pending > revision) then state
          else state\<lparr>akPending := (akPending state)(nodeID := None)\<rparr>)"

section \<open>Publication\<close>

record artifactChunk =
  chKind :: string
  chNodeID :: string
  chEpoch :: int
  chRevision :: int
  chRows :: "ArtifactCatalogRow list"
  chFirst :: bool
  chFinal :: bool
  chWithdraw :: bool

definition addArtifactRow :: "ArtifactCatalogRow \<Rightarrow> (string \<rightharpoonup> ArtifactCatalogRow) \<Rightarrow> (string \<rightharpoonup> ArtifactCatalogRow)" where
  "addArtifactRow row rows =
     (let i = trimSpace (acID row); tenant = trimSpace (acTenant row)
      in if i = [] \<or> length (acPayload row) > maxArtifactCatalogRowBytes then rows
         else rows(artifactCatalogRowKey tenant i \<mapsto> \<lparr>acID = i, acTenant = tenant, acPayload = acPayload row\<rparr>))"

text \<open>The chunk is accepted and folded into the pending snapshot, which the final chunk commits.\<close>

definition assembleChunk ::
  "artifactChunk \<Rightarrow> string \<Rightarrow> artifactCatalogNodeState \<Rightarrow> artifactCatalogKindState \<Rightarrow> artifactCatalogKindState" where
  "assembleChunk c nodeID pending state =
     (let pending = pending\<lparr>anRows := fold addArtifactRow (chRows c) (anRows pending)\<rparr>
      in if \<not> chFinal c then state\<lparr>akPending := (akPending state)(nodeID \<mapsto> pending)\<rparr>
         else state\<lparr>akCommitted := (akCommitted state)(nodeID \<mapsto> pending),
                    akPending := (akPending state)(nodeID := None)\<rparr>)"

definition publishChunk :: "artifactChunk \<Rightarrow> string \<Rightarrow> artifactCatalogKindState \<Rightarrow> fsmError option \<times> artifactCatalogKindState" where
  "publishChunk c nodeID state =
     (let committed = nodeAt (akCommitted state) nodeID; epoch = chEpoch c; revision = chRevision c
      in if anEpoch committed = epoch \<and> anRevision committed = revision \<and> \<not> anWithdrawn committed
         then (None, clearPendingForPublication nodeID epoch revision state)
         else if \<not> supersedes committed epoch revision
         then (Some ErrArtifactCatalogSuperseded, clearPendingForPublication nodeID epoch revision state)
         else if (case akPending state nodeID of
                    None \<Rightarrow> False
                  | Some assembling \<Rightarrow> \<not> (anEpoch assembling = epoch \<and> anRevision assembling = revision) \<and>
                                      \<not> supersedes assembling epoch revision)
         then (Some ErrArtifactCatalogSuperseded, state)
         else if chWithdraw c
         then (None, state\<lparr>akCommitted := (akCommitted state)(nodeID \<mapsto>
                             \<lparr>anEpoch = epoch, anRevision = revision, anWithdrawn = True, anRows = Map.empty\<rparr>),
                           akPending := (akPending state)(nodeID := None)\<rparr>)
         else if chFirst c
         then (None, assembleChunk c nodeID \<lparr>anEpoch = epoch, anRevision = revision, anWithdrawn = False,
                                            anRows = Map.empty\<rparr> state)
         else (case akPending state nodeID of
                 None \<Rightarrow> (Some ErrMalformed, state)
               | Some pending \<Rightarrow>
                   if anEpoch pending \<noteq> epoch \<or> anRevision pending \<noteq> revision
                   then (Some ErrArtifactCatalogSuperseded, state)
                   else (None, assembleChunk c nodeID pending state)))"

definition opPublishArtifactCatalog :: "artifactChunk \<Rightarrow> artifactCatalog \<Rightarrow> fsmError option \<times> artifactCatalog" where
  "opPublishArtifactCatalog c cat =
     (let kind = artifactCatalogKindKey (chKind c); nodeID = trimSpace (chNodeID c)
      in if kind = [] \<or> nodeID = [] \<or> chEpoch c \<le> 0 \<or> chRevision c \<le> 0 then (Some ErrMalformed, cat)
         else if length (chRows c) > MaxArtifactCatalogChunkRows then (Some ErrMalformed, cat)
         else let (err, state) = publishChunk c nodeID (kindAt cat kind)
              in (err, cat(kind \<mapsto> state)))"

section \<open>Fencing tokens\<close>

definition opAllocateArtifactEpoch ::
  "string \<Rightarrow> string \<Rightarrow> string \<Rightarrow> artifactCatalog \<Rightarrow> (fsmError + int) \<times> artifactCatalog" where
  "opAllocateArtifactEpoch kind0 node0 holder0 cat =
     (let kind = artifactCatalogKindKey kind0; nodeID = trimSpace node0; holder = trimSpace holder0
      in if kind = [] \<or> nodeID = [] \<or> holder = [] then (Inl ErrMalformed, cat)
         else let state = kindAt cat kind
              in case akIssued state nodeID of
                   Some held \<Rightarrow>
                     if aiHolder held = holder \<and> aiEpoch held > 0 then (Inr (aiEpoch held), cat(kind \<mapsto> state))
                     else let nxt = max (max (aiEpoch held) (anEpoch (nodeAt (akCommitted state) nodeID)))
                                        (anEpoch (nodeAt (akPending state) nodeID)) + 1
                          in (Inr nxt, cat(kind \<mapsto> state\<lparr>akIssued := (akIssued state)(nodeID \<mapsto>
                                             \<lparr>aiEpoch = nxt, aiHolder = holder\<rparr>)\<rparr>))
                 | None \<Rightarrow>
                     let nxt = max (max 0 (anEpoch (nodeAt (akCommitted state) nodeID)))
                                   (anEpoch (nodeAt (akPending state) nodeID)) + 1
                     in (Inr nxt, cat(kind \<mapsto> state\<lparr>akIssued := (akIssued state)(nodeID \<mapsto>
                                        \<lparr>aiEpoch = nxt, aiHolder = holder\<rparr>)\<rparr>)))"

definition withdrawKind :: "string \<Rightarrow> artifactCatalogKindState \<Rightarrow> artifactCatalogKindState" where
  "withdrawKind nodeID state =
     (if akCommitted state nodeID = None \<and> akPending state nodeID = None \<and> akIssued state nodeID = None then state
      else let epoch = anEpoch (nodeAt (akCommitted state) nodeID);
               epoch = (if akPending state nodeID \<noteq> None \<and> anEpoch (nodeAt (akPending state) nodeID) > epoch
                        then anEpoch (nodeAt (akPending state) nodeID) else epoch);
               epoch = (if akIssued state nodeID \<noteq> None \<and> issuedAt (akIssued state) nodeID > epoch
                        then issuedAt (akIssued state) nodeID else epoch)
           in state\<lparr>akCommitted := (akCommitted state)(nodeID \<mapsto>
                      \<lparr>anEpoch = epoch + 1, anRevision = 0, anWithdrawn = True, anRows = Map.empty\<rparr>),
                    akPending := (akPending state)(nodeID := None),
                    akIssued := (akIssued state)(nodeID := None)\<rparr>)"

definition withdrawArtifactCatalogCoverageLocked :: "string \<Rightarrow> artifactCatalog \<Rightarrow> artifactCatalog" where
  "withdrawArtifactCatalogCoverageLocked node0 cat =
     (let nodeID = trimSpace node0
      in if nodeID = [] then cat else (\<lambda>kind. map_option (withdrawKind nodeID) (cat kind)))"

definition artifactCatalogPublisherEpoch :: "string \<Rightarrow> string \<Rightarrow> artifactCatalog \<Rightarrow> int" where
  "artifactCatalogPublisherEpoch kind nodeID cat =
     (case cat (artifactCatalogKindKey kind) of
        None \<Rightarrow> 0
      | Some state \<Rightarrow> max (anEpoch (nodeAt (akCommitted state) (trimSpace nodeID)))
                         (anEpoch (nodeAt (akPending state) (trimSpace nodeID))))"

definition artifactCatalogHolders :: "string \<Rightarrow> string \<Rightarrow> string \<Rightarrow> artifactCatalog \<Rightarrow> string list" where
  "artifactCatalogHolders kind tenant i cat =
     (case cat (artifactCatalogKindKey kind) of
        None \<Rightarrow> []
      | Some state \<Rightarrow>
          sorted_list_of_set {n \<in> dom (akCommitted state).
            \<not> anWithdrawn (nodeAt (akCommitted state) n) \<and>
            anRows (nodeAt (akCommitted state) n) (artifactCatalogRowKey tenant i) \<noteq> None})"

section \<open>Chunking\<close>

definition artifactRowCost :: "ArtifactCatalogRow \<Rightarrow> nat" where
  "artifactRowCost row = length (acPayload row) + length (acID row) + length (acTenant row) + artifactCatalogRowOverheadBytes"

fun chunkLoop ::
  "artifactChunk \<Rightarrow> artifactChunk list \<Rightarrow> artifactChunk \<Rightarrow> nat \<Rightarrow> ArtifactCatalogRow list \<Rightarrow> artifactChunk list" where
  "chunkLoop base out current bytes [] = out @ [current\<lparr>chFinal := True\<rparr>]"
| "chunkLoop base out current bytes (row # rows) =
     (let cost = artifactRowCost row
      in if chRows current \<noteq> [] \<and>
            (length (chRows current) \<ge> MaxArtifactCatalogChunkRows \<or> bytes + cost > MaxArtifactCatalogChunkBytes)
         then chunkLoop base (out @ [current]) (base\<lparr>chRows := [row]\<rparr>) cost rows
         else chunkLoop base out (current\<lparr>chRows := chRows current @ [row]\<rparr>) (bytes + cost) rows)"

definition ChunkArtifactCatalogSnapshot ::
  "string \<Rightarrow> string \<Rightarrow> int \<Rightarrow> int \<Rightarrow> ArtifactCatalogRow list \<Rightarrow> artifactChunk list" where
  "ChunkArtifactCatalogSnapshot kind nodeID epoch revision rows =
     (let base = \<lparr>chKind = trimSpace kind, chNodeID = trimSpace nodeID, chEpoch = epoch, chRevision = revision,
                  chRows = [], chFirst = False, chFinal = False, chWithdraw = False\<rparr>
      in if rows = [] then [base\<lparr>chFirst := True, chFinal := True\<rparr>]
         else chunkLoop base [] (base\<lparr>chFirst := True\<rparr>) 0 rows)"

definition WithdrawArtifactCatalogCoverage :: "string \<Rightarrow> string \<Rightarrow> int \<Rightarrow> int \<Rightarrow> artifactChunk" where
  "WithdrawArtifactCatalogCoverage kind nodeID epoch revision =
     \<lparr>chKind = trimSpace kind, chNodeID = trimSpace nodeID, chEpoch = epoch, chRevision = revision,
      chRows = [], chFirst = True, chFinal = True, chWithdraw = True\<rparr>"

definition validateArtifactCatalogChunk :: "artifactChunk \<Rightarrow> fsmError option" where
  "validateArtifactCatalogChunk c =
     (if trimSpace (chKind c) \<noteq> ''template'' \<and> trimSpace (chKind c) \<noteq> ''js-bundle'' then Some ErrMalformed
      else if trimSpace (chNodeID c) = [] then Some ErrMalformed
      else if chEpoch c \<le> 0 then Some ErrMalformed
      else if chRevision c \<le> 0 then Some ErrMalformed
      else if length (chRows c) > MaxArtifactCatalogChunkRows then Some ErrMalformed
      else if list_ex (\<lambda>row. trimSpace (acID row) = [] \<or> length (acPayload row) > maxArtifactCatalogRowBytes) (chRows c)
      then Some ErrMalformed
      else if sum_list (map artifactRowCost (chRows c)) > MaxArtifactCatalogChunkBytes then Some ErrMalformed
      else None)"

section \<open>Tokens increase\<close>

definition watermark :: "string \<Rightarrow> artifactCatalogKindState \<Rightarrow> int" where
  "watermark n s = max (issuedAt (akIssued s) n) (max (anEpoch (nodeAt (akCommitted s) n)) (anEpoch (nodeAt (akPending s) n)))"

lemma nodeAt_upd [simp]:
  "nodeAt (m(k \<mapsto> v)) n = (if n = k then v else nodeAt m n)"
  "nodeAt (m(k := None)) n = (if n = k then zeroNode else nodeAt m n)"
  by (simp_all add: nodeAt_def)

lemma kindAt_upd [simp]: "kindAt (c(k \<mapsto> s)) kind = (if kind = k then s else kindAt c kind)"
  by (simp add: kindAt_def)

lemma supersedes_epoch: "supersedes s e r \<Longrightarrow> anEpoch s \<le> e"
  by (simp add: supersedes_def split: if_splits)

lemma not_supersedes_epoch: "\<not> supersedes s e r \<Longrightarrow> e \<le> anEpoch s"
  by (simp add: supersedes_def split: if_splits)

text \<open>Epochs in the state of a node are never negative.\<close>

definition epochsOk :: "artifactCatalogKindState \<Rightarrow> bool" where
  "epochsOk s \<longleftrightarrow> (\<forall>n. 0 \<le> anEpoch (nodeAt (akCommitted s) n) \<and> 0 \<le> anEpoch (nodeAt (akPending s) n) \<and>
     0 \<le> issuedAt (akIssued s) n)"

lemma clear_fields [simp]:
  "akCommitted (clearPendingForPublication n e r s) = akCommitted s"
  "akIssued (clearPendingForPublication n e r s) = akIssued s"
  by (simp_all add: clearPendingForPublication_def split: option.split)

lemma clear_pending:
  "nodeAt (akPending (clearPendingForPublication n e r s)) j = nodeAt (akPending s) j \<or>
   j = n \<and> nodeAt (akPending (clearPendingForPublication n e r s)) j = zeroNode \<and> anEpoch (nodeAt (akPending s) n) \<le> e"
  by (auto simp: clearPendingForPublication_def nodeAt_def split: option.split)

lemma publish_issued: "akIssued (snd (publishChunk c n s)) = akIssued s"
  by (simp add: publishChunk_def assembleChunk_def Let_def split: option.split)

text \<open>The shapes of the state after a chunk: refused or replayed, left alone, or the node's pending or committed
  entry moved to the chunk's epoch, which is then not below the node's epochs.\<close>

definition movedTo :: "artifactChunk \<Rightarrow> string \<Rightarrow> artifactCatalogKindState \<Rightarrow> artifactCatalogKindState \<Rightarrow> bool" where
  "movedTo c n s t \<longleftrightarrow>
     anEpoch (nodeAt (akCommitted s) n) \<le> chEpoch c \<and> anEpoch (nodeAt (akPending s) n) \<le> max 0 (chEpoch c) \<and>
     (\<exists>p. anEpoch p = chEpoch c \<and>
        (t = s\<lparr>akPending := (akPending s)(n \<mapsto> p)\<rparr> \<or>
         t = s\<lparr>akCommitted := (akCommitted s)(n \<mapsto> p), akPending := (akPending s)(n := None)\<rparr>))"

lemma assemble_moved:
  assumes "anEpoch (nodeAt (akCommitted s) n) \<le> chEpoch c" "anEpoch (nodeAt (akPending s) n) \<le> max 0 (chEpoch c)"
    and "anEpoch p = chEpoch c"
  shows "movedTo c n s (assembleChunk c n p s)"
  unfolding movedTo_def
  by (intro conjI assms(1,2) exI[of _ "p\<lparr>anRows := fold addArtifactRow (chRows c) (anRows p)\<rparr>"])
    (auto simp: assembleChunk_def Let_def assms(3))

lemma publish_shape:
  fixes c n s
  defines "t \<equiv> snd (publishChunk c n s)"
  shows "t = clearPendingForPublication n (chEpoch c) (chRevision c) s \<and> chEpoch c \<le> anEpoch (nodeAt (akCommitted s) n) \<or>
         t = s \<or> movedTo c n s t"
proof -
  let ?com = "nodeAt (akCommitted s) n"
  show ?thesis
  proof (cases "anEpoch ?com = chEpoch c \<and> anRevision ?com = chRevision c \<and> \<not> anWithdrawn ?com
      \<or> \<not> supersedes ?com (chEpoch c) (chRevision c)")
    case True
    then show ?thesis using not_supersedes_epoch[of ?com] unfolding t_def by (auto simp: publishChunk_def Let_def)
  next
    case new: False
    then have com: "anEpoch ?com \<le> chEpoch c" using supersedes_epoch by blast
    have replay: "(anEpoch ?com = chEpoch c \<and> anRevision ?com = chRevision c \<and> \<not> anWithdrawn ?com) = False"
      and stale: "supersedes ?com (chEpoch c) (chRevision c) = True" using new by blast+
    define blocked where "blocked = (case akPending s n of None \<Rightarrow> False
      | Some a \<Rightarrow> \<not> (anEpoch a = chEpoch c \<and> anRevision a = chRevision c) \<and> \<not> supersedes a (chEpoch c) (chRevision c))"
    have eq: "t = snd (if blocked then (Some ErrArtifactCatalogSuperseded, s)
        else if chWithdraw c
         then (None, s\<lparr>akCommitted := (akCommitted s)(n \<mapsto>
                             \<lparr>anEpoch = chEpoch c, anRevision = chRevision c, anWithdrawn = True, anRows = Map.empty\<rparr>),
                           akPending := (akPending s)(n := None)\<rparr>)
         else if chFirst c
         then (None, assembleChunk c n \<lparr>anEpoch = chEpoch c, anRevision = chRevision c, anWithdrawn = False,
                                            anRows = Map.empty\<rparr> s)
         else (case akPending s n of
                 None \<Rightarrow> (Some ErrMalformed, s)
               | Some pending \<Rightarrow>
                   if anEpoch pending \<noteq> chEpoch c \<or> anRevision pending \<noteq> chRevision c
                   then (Some ErrArtifactCatalogSuperseded, s)
                   else (None, assembleChunk c n pending s)))"
      unfolding t_def publishChunk_def Let_def blocked_def replay stale by (simp only: if_False simp_thms)
    have pen: "anEpoch (nodeAt (akPending s) n) \<le> max 0 (chEpoch c)" if "\<not> blocked"
      using that supersedes_epoch[of "nodeAt (akPending s) n" "chEpoch c" "chRevision c"]
      by (auto simp: blocked_def nodeAt_def zeroNode_def split: option.splits)
    consider "blocked" | "\<not> blocked" "chWithdraw c" | "\<not> blocked" "\<not> chWithdraw c" "chFirst c"
      | "\<not> blocked" "\<not> chWithdraw c" "\<not> chFirst c" by blast
    then show ?thesis
    proof cases
      case 1
      then show ?thesis unfolding eq by simp
    next
      case 2
      then have "movedTo c n s t" unfolding eq movedTo_def using com pen
        by (auto intro!: exI[of _ "\<lparr>anEpoch = chEpoch c, anRevision = chRevision c, anWithdrawn = True, anRows = Map.empty\<rparr>"])
      then show ?thesis by simp
    next
      case 3
      then have "movedTo c n s t" unfolding eq using assemble_moved com pen by simp
      then show ?thesis by simp
    next
      case 4
      then show ?thesis unfolding eq using assemble_moved[OF com pen] by (auto split: option.split)
    qed
  qed
qed

lemma publish_epochs:
  assumes ok: "epochsOk s" and e: "0 < chEpoch c"
  shows "epochsOk (snd (publishChunk c n s)) \<and> watermark j s \<le> watermark j (snd (publishChunk c n s))"
proof -
  let ?t = "snd (publishChunk c n s)"
  have nn: "0 \<le> anEpoch (nodeAt (akCommitted s) k)" "0 \<le> anEpoch (nodeAt (akPending s) k)" "0 \<le> issuedAt (akIssued s) k" for k
    using ok by (auto simp: epochsOk_def)
  have z: "anEpoch zeroNode = 0" by (simp add: zeroNode_def)
  consider (clear) "?t = clearPendingForPublication n (chEpoch c) (chRevision c) s" "chEpoch c \<le> anEpoch (nodeAt (akCommitted s) n)"
    | (same) "?t = s" | (move) "movedTo c n s ?t"
    using publish_shape[of c n s] by blast
  then show ?thesis
  proof cases
    case clear
    have "0 \<le> anEpoch (nodeAt (akPending ?t) k)" for k
      using clear_pending[of n "chEpoch c" "chRevision c" s k] nn(2)[of k] z clear(1) by auto
    moreover have "anEpoch (nodeAt (akPending s) j) \<le> max (anEpoch (nodeAt (akCommitted s) j)) (anEpoch (nodeAt (akPending ?t) j))"
      using clear_pending[of n "chEpoch c" "chRevision c" s j] clear by auto
    ultimately show ?thesis using nn clear(1) by (auto simp: epochsOk_def watermark_def)
  next
    case same
    then show ?thesis using ok by simp
  next
    case move
    then obtain p where p: "anEpoch p = chEpoch c" "anEpoch (nodeAt (akCommitted s) n) \<le> chEpoch c"
      "anEpoch (nodeAt (akPending s) n) \<le> chEpoch c"
      "?t = s\<lparr>akPending := (akPending s)(n \<mapsto> p)\<rparr> \<or>
       ?t = s\<lparr>akCommitted := (akCommitted s)(n \<mapsto> p), akPending := (akPending s)(n := None)\<rparr>"
      using e unfolding movedTo_def by auto
    then show ?thesis using nn e z by (auto simp: epochsOk_def watermark_def)
  qed
qed

datatype artifactOp = ArtPublish artifactChunk | ArtAllocate string string string | ArtWithdraw string

fun artifactStep :: "artifactOp \<Rightarrow> artifactCatalog \<Rightarrow> artifactCatalog" where
  "artifactStep (ArtPublish c) cat = snd (opPublishArtifactCatalog c cat)"
| "artifactStep (ArtAllocate kind node holder) cat = snd (opAllocateArtifactEpoch kind node holder cat)"
| "artifactStep (ArtWithdraw node) cat = withdrawArtifactCatalogCoverageLocked node cat"

definition catalogOk :: "artifactCatalog \<Rightarrow> bool" where
  "catalogOk cat \<longleftrightarrow> (\<forall>kind. epochsOk (kindAt cat kind))"

text \<open>A token is out: the watermark has reached it, and the ledger of the node holds either that token or a
  larger one.\<close>

definition tokenOut :: "int \<Rightarrow> string \<Rightarrow> string \<Rightarrow> artifactCatalogKindState \<Rightarrow> bool" where
  "tokenOut e holder n s \<longleftrightarrow> e \<le> watermark n s \<and>
     (\<forall>i. akIssued s n = Some i \<longrightarrow> i = \<lparr>aiEpoch = e, aiHolder = holder\<rparr> \<or> e < aiEpoch i)"

lemma emptyKind_ok: "epochsOk emptyKind"
  by (simp add: epochsOk_def emptyKind_def nodeAt_def zeroNode_def issuedAt_def)

definition grantOn :: "string \<Rightarrow> string \<Rightarrow> artifactCatalogKindState \<Rightarrow> artifactCatalogKindState" where
  "grantOn n holder s = s\<lparr>akIssued := (akIssued s)(n \<mapsto> \<lparr>aiEpoch = watermark n s + 1, aiHolder = holder\<rparr>)\<rparr>"

lemma allocate_shape:
  assumes "catalogOk cat" and "kind = artifactCatalogKindKey kind0" "n = trimSpace node0" "h = trimSpace holder0"
    and "kind \<noteq> []" "n \<noteq> []" "h \<noteq> []"
  shows "(\<exists>i. akIssued (kindAt cat kind) n = Some i \<and> aiHolder i = h \<and>
            opAllocateArtifactEpoch kind0 node0 holder0 cat = (Inr (aiEpoch i), cat(kind \<mapsto> kindAt cat kind))) \<or>
         opAllocateArtifactEpoch kind0 node0 holder0 cat =
           (Inr (watermark n (kindAt cat kind) + 1), cat(kind \<mapsto> grantOn n h (kindAt cat kind)))"
proof -
  let ?s = "kindAt cat kind"
  have nn: "0 \<le> anEpoch (nodeAt (akCommitted ?s) n)" using assms(1) by (simp add: catalogOk_def epochsOk_def)
  have wm: "watermark n ?s = (case akIssued ?s n of
      Some held \<Rightarrow> max (max (aiEpoch held) (anEpoch (nodeAt (akCommitted ?s) n))) (anEpoch (nodeAt (akPending ?s) n))
    | None \<Rightarrow> max (max 0 (anEpoch (nodeAt (akCommitted ?s) n))) (anEpoch (nodeAt (akPending ?s) n)))"
    by (simp add: watermark_def issuedAt_def max.assoc split: option.split)
  show ?thesis
  proof (cases "akIssued ?s n")
    case None
    then show ?thesis using assms(2-7) wm by (simp add: opAllocateArtifactEpoch_def Let_def grantOn_def)
  next
    case (Some i)
    then show ?thesis using assms(2-7) wm by (simp add: opAllocateArtifactEpoch_def Let_def grantOn_def)
  qed
qed

lemma grant_ok:
  assumes "epochsOk s"
  shows "epochsOk (grantOn n h s)" and "watermark j s \<le> watermark j (grantOn n h s)"
proof -
  have "0 \<le> anEpoch (nodeAt (akCommitted s) n)" using assms by (simp add: epochsOk_def)
  then have wm: "0 \<le> watermark n s" by (simp add: watermark_def)
  have iss: "issuedAt (akIssued (grantOn n h s)) k = (if k = n then watermark n s + 1 else issuedAt (akIssued s) k)" for k
    by (simp add: grantOn_def issuedAt_def)
  have rest: "akCommitted (grantOn n h s) = akCommitted s" "akPending (grantOn n h s) = akPending s"
    by (simp_all add: grantOn_def)
  show "epochsOk (grantOn n h s)" using assms wm by (simp add: epochsOk_def iss rest)
  show "watermark j s \<le> watermark j (grantOn n h s)"
    using wm unfolding watermark_def[of j] iss rest by (auto simp: watermark_def)
qed

lemma withdraw_ok:
  assumes "epochsOk s"
  shows "epochsOk (withdrawKind n s)" and "watermark j s \<le> watermark j (withdrawKind n s)"
    and "akIssued (withdrawKind n s) j = akIssued s j \<or> akIssued (withdrawKind n s) j = None"
proof -
  have nn: "0 \<le> anEpoch (nodeAt (akCommitted s) k)" "0 \<le> anEpoch (nodeAt (akPending s) k)" "0 \<le> issuedAt (akIssued s) k" for k
    using assms by (auto simp: epochsOk_def)
  have absent: "akPending s n = None \<Longrightarrow> anEpoch (nodeAt (akPending s) n) = 0"
    "akIssued s n = None \<Longrightarrow> issuedAt (akIssued s) n = 0"
    by (simp_all add: nodeAt_def zeroNode_def issuedAt_def)
  show "epochsOk (withdrawKind n s)"
    using nn by (auto simp: withdrawKind_def Let_def epochsOk_def zeroNode_def issuedAt_def)
  show "watermark j s \<le> watermark j (withdrawKind n s)"
    using nn absent by (auto simp: withdrawKind_def Let_def watermark_def zeroNode_def issuedAt_def)
  show "akIssued (withdrawKind n s) j = akIssued s j \<or> akIssued (withdrawKind n s) j = None"
    by (auto simp: withdrawKind_def Let_def)
qed

lemma step_ok:
  assumes "catalogOk cat"
  shows "catalogOk (artifactStep op cat)" and "watermark n (kindAt cat kind) \<le> watermark n (kindAt (artifactStep op cat) kind)"
proof -
  have ok: "epochsOk (kindAt cat k)" for k using assms by (simp add: catalogOk_def)
  have "catalogOk (artifactStep op cat) \<and> watermark n (kindAt cat kind) \<le> watermark n (kindAt (artifactStep op cat) kind)"
  proof (cases op)
    case (ArtPublish c)
    have "epochsOk (snd (publishChunk c m (kindAt cat k))) \<and>
        watermark n (kindAt cat k) \<le> watermark n (snd (publishChunk c m (kindAt cat k)))" if "0 < chEpoch c" for m k
      by (rule publish_epochs[OF ok that])
    then show ?thesis
      using ok ArtPublish by (auto simp: opPublishArtifactCatalog_def Let_def catalogOk_def case_prod_beta)
  next
    case (ArtAllocate kind0 node0 holder0)
    show ?thesis
    proof (cases "artifactCatalogKindKey kind0 = [] \<or> trimSpace node0 = [] \<or> trimSpace holder0 = []")
      case True
      then show ?thesis using assms ArtAllocate by (auto simp: opAllocateArtifactEpoch_def Let_def)
    next
      case False
      then show ?thesis
        using allocate_shape[OF assms refl refl refl, of kind0 node0 holder0] ok grant_ok[OF ok] ArtAllocate
        by (auto simp: catalogOk_def)
    qed
  next
    case (ArtWithdraw node)
    have "kindAt (artifactStep op cat) k = kindAt cat k \<or> kindAt (artifactStep op cat) k = withdrawKind (trimSpace node) (kindAt cat k)" for k
      using ArtWithdraw by (auto simp: withdrawArtifactCatalogCoverageLocked_def Let_def kindAt_def split: option.split)
    then show ?thesis using ok withdraw_ok(1,2)[OF ok] unfolding catalogOk_def by (metis order_refl)
  qed
  then show "catalogOk (artifactStep op cat)" "watermark n (kindAt cat kind) \<le> watermark n (kindAt (artifactStep op cat) kind)"
    by blast+
qed

lemma step_issued:
  assumes ok: "catalogOk cat" and i: "akIssued (kindAt (artifactStep op cat) kind) n = Some i"
  shows "akIssued (kindAt cat kind) n = Some i \<or> watermark n (kindAt cat kind) < aiEpoch i"
proof (cases op)
  case (ArtPublish c)
  then show ?thesis using i publish_issued
    by (auto simp: opPublishArtifactCatalog_def Let_def case_prod_beta split: if_splits)
next
  case (ArtAllocate kind0 node0 holder0)
  show ?thesis
  proof (cases "artifactCatalogKindKey kind0 = [] \<or> trimSpace node0 = [] \<or> trimSpace holder0 = []")
    case True
    then show ?thesis using i ArtAllocate by (auto simp: opAllocateArtifactEpoch_def Let_def)
  next
    case False
    then show ?thesis using allocate_shape[OF ok refl refl refl, of kind0 node0 holder0] i ArtAllocate
      by (auto simp: grantOn_def split: if_splits)
  qed
next
  case (ArtWithdraw node)
  then show ?thesis using i withdraw_ok(3)[of "kindAt cat kind" "trimSpace node" n] ok
    by (auto simp: withdrawArtifactCatalogCoverageLocked_def Let_def kindAt_def catalogOk_def
        split: option.splits if_splits)
qed

lemma tokenOut_step:
  assumes "catalogOk cat" and "tokenOut e h n (kindAt cat kind)"
  shows "tokenOut e h n (kindAt (artifactStep op cat) kind)"
  using assms step_ok(2)[OF assms(1), of n kind op] step_issued[OF assms(1), of op kind n]
  unfolding tokenOut_def by force

lemma tokenOut_run:
  "catalogOk cat \<Longrightarrow> tokenOut e h n (kindAt cat kind) \<Longrightarrow>
   catalogOk (fold artifactStep ops cat) \<and> tokenOut e h n (kindAt (fold artifactStep ops cat) kind)"
  by (induction ops arbitrary: cat) (simp_all add: step_ok(1) tokenOut_step)

lemma catalogOk_run: "catalogOk (fold artifactStep ops Map.empty)"
proof -
  have "catalogOk cat \<Longrightarrow> catalogOk (fold artifactStep ops cat)" for cat
    by (induction ops arbitrary: cat) (simp_all add: step_ok(1))
  then show ?thesis by (simp add: catalogOk_def kindAt_def emptyKind_ok)
qed

text \<open>Fencing tokens never repeat and never go back.  After any history of publications, token
  allocations and coverage withdrawals, if one process is handed a token for a node and a kind and, after
  any further history, another process is handed a token for the same node and kind, the later token is strictly larger.\<close>

theorem artifact_tokens_increase:
  assumes "cat = fold artifactStep before Map.empty"
    and "opAllocateArtifactEpoch kind node holder cat = (Inr e, cat1)"
    and "cat2 = fold artifactStep between cat1"
    and "opAllocateArtifactEpoch kind node holder2 cat2 = (Inr e2, cat3)"
    and "trimSpace holder2 \<noteq> trimSpace holder"
  shows "e < e2"
proof -
  let ?k = "artifactCatalogKindKey kind" and ?n = "trimSpace node" and ?h = "trimSpace holder"
  have ok: "catalogOk cat" using assms(1) catalogOk_run by simp
  have ne: "?k \<noteq> []" "?n \<noteq> []" "?h \<noteq> []" "trimSpace holder2 \<noteq> []"
    using assms(2,4) by (auto simp: opAllocateArtifactEpoch_def Let_def split: if_splits)
  have ok1: "catalogOk cat1" using step_ok(1)[OF ok, of "ArtAllocate kind node holder"] assms(2) by simp
  have out1: "tokenOut e ?h ?n (kindAt cat1 ?k)"
    using allocate_shape[OF ok refl refl refl ne(1-3)] assms(2)
    by (auto simp: tokenOut_def grantOn_def watermark_def issuedAt_def)
  have "catalogOk cat2" "tokenOut e ?h ?n (kindAt cat2 ?k)"
    using tokenOut_run[OF ok1 out1, of between] assms(3) by auto
  then show ?thesis
    using allocate_shape[OF _ refl refl refl ne(1,2,4), of cat2] assms(4,5) by (auto simp: tokenOut_def)
qed

theorem artifact_tokens_increase_witness:
  "fst (opAllocateArtifactEpoch ''template'' ''n1'' ''p1'' Map.empty) = Inr 1 \<and>
   fst (opAllocateArtifactEpoch ''template'' ''n1'' ''p2'' (snd (opAllocateArtifactEpoch ''template'' ''n1'' ''p1'' Map.empty))) = Inr 2 \<and>
   (1::int) < 2"
proof -
  let ?c1 = "snd (opAllocateArtifactEpoch ''template'' ''n1'' ''p1'' Map.empty)"
  have a: "opAllocateArtifactEpoch ''template'' ''n1'' ''p1'' Map.empty = (Inr 1, ?c1)"
    by (simp add: opAllocateArtifactEpoch_def artifactCatalogKindKey_def visibleChar_def kindAt_def emptyKind_def
        nodeAt_def zeroNode_def Let_def)
  have b: "opAllocateArtifactEpoch ''template'' ''n1'' ''p2'' ?c1 = (Inr 2, snd (opAllocateArtifactEpoch ''template'' ''n1'' ''p2'' ?c1))"
    by (simp add: opAllocateArtifactEpoch_def artifactCatalogKindKey_def visibleChar_def kindAt_def emptyKind_def
        nodeAt_def zeroNode_def Let_def)
  have "(1::int) < 2"
    by (rule artifact_tokens_increase[where before = "[]" and between = "[]" and kind = "''template''" and node = "''n1''"
          and holder = "''p1''" and ?holder2.0 = "''p2''", OF _ a _ b]) (simp_all add: visibleChar_def)
  then show ?thesis using a b by (metis fst_conv)
qed

section \<open>Chunks assemble to the inventory\<close>

text \<open>A publisher sends its chunks in order and stops at the first error.\<close>

fun publishSeq :: "artifactChunk list \<Rightarrow> artifactCatalog \<Rightarrow> fsmError option \<times> artifactCatalog" where
  "publishSeq [] cat = (None, cat)"
| "publishSeq (c # cs) cat =
     (case opPublishArtifactCatalog c cat of
        (Some e, cat) \<Rightarrow> (Some e, cat)
      | (None, cat) \<Rightarrow> publishSeq cs cat)"

lemma publishSeq_Cons:
  "opPublishArtifactCatalog c cat = (None, cat') \<Longrightarrow> publishSeq (c # cs) cat = publishSeq cs cat'"
  "opPublishArtifactCatalog c cat = (Some e, cat') \<Longrightarrow> publishSeq (c # cs) cat = (Some e, cat')"
  by simp_all

lemma publishSeq_Nil [simp]: "fst (publishSeq [] cat) = None" "snd (publishSeq [] cat) = cat"
  by simp_all

declare publishSeq.simps [simp del]

lemma publishSeq_single:
  assumes "opPublishArtifactCatalog c cat = (None, cat')"
  shows "fst (publishSeq [c] cat) = None" "snd (publishSeq [c] cat) = cat'"
  unfolding publishSeq_Cons(1)[OF assms] by (rule publishSeq_Nil)+

definition ofPublication :: "artifactChunk \<Rightarrow> artifactChunk \<Rightarrow> bool" where
  "ofPublication base c \<longleftrightarrow> chKind c = chKind base \<and> chNodeID c = chNodeID base \<and> chEpoch c = chEpoch base \<and>
     chRevision c = chRevision base \<and> \<not> chWithdraw c \<and> length (chRows c) \<le> MaxArtifactCatalogChunkRows"

text \<open>The chunk list of a publication: the rows in order, the first flag on the first chunk at most, the final flag
  on the last chunk only.\<close>

fun chunksOf :: "artifactChunk \<Rightarrow> bool \<Rightarrow> ArtifactCatalogRow list \<Rightarrow> artifactChunk list \<Rightarrow> bool" where
  "chunksOf base first rows [] = False"
| "chunksOf base first rows (c # cs) \<longleftrightarrow>
     ofPublication base c \<and> chFirst c = first \<and>
     (if cs = [] then chFinal c \<and> rows = chRows c
      else \<not> chFinal c \<and> (\<exists>rest. rows = chRows c @ rest \<and> chunksOf base False rest cs))"

definition baseOk :: "artifactChunk \<Rightarrow> bool" where
  "baseOk base \<longleftrightarrow> chRows base = [] \<and> \<not> chFirst base \<and> \<not> chFinal base \<and> \<not> chWithdraw base"

lemma chunkLoop_out: "chunkLoop base out cur b rows = out @ chunkLoop base [] cur b rows"
proof (induction rows arbitrary: out cur b)
  case (Cons r rows)
  show ?case
    using Cons[of "out @ [cur]" "base\<lparr>chRows := [r]\<rparr>" "artifactRowCost r"] Cons[of "[cur]" "base\<lparr>chRows := [r]\<rparr>" "artifactRowCost r"]
      Cons[of out "cur\<lparr>chRows := chRows cur @ [r]\<rparr>" "b + artifactRowCost r"]
    by (simp add: Let_def)
qed simp

lemma chunkLoop_spec:
  assumes "baseOk base"
  shows "ofPublication base cur \<Longrightarrow> \<not> chFinal cur \<Longrightarrow>
    chunksOf base (chFirst cur) (chRows cur @ rows) (chunkLoop base [] cur b rows)"
proof (induction rows arbitrary: cur b)
  case Nil
  then show ?case by (simp add: ofPublication_def)
next
  case (Cons r rows)
  show ?case
  proof (cases "chRows cur \<noteq> [] \<and> (length (chRows cur) \<ge> MaxArtifactCatalogChunkRows \<or>
      b + artifactRowCost r > MaxArtifactCatalogChunkBytes)")
    case True
    let ?nx = "base\<lparr>chRows := [r]\<rparr>"
    have nx: "ofPublication base ?nx" "\<not> chFinal ?nx" "\<not> chFirst ?nx" using assms
      by (auto simp: ofPublication_def baseOk_def MaxArtifactCatalogChunkRows_def)
    have "chunksOf base False ([r] @ rows) (chunkLoop base [] ?nx (artifactRowCost r) rows)"
      using Cons(1)[OF nx(1,2), of "artifactRowCost r"] nx(3) by simp
    moreover have "chunkLoop base [] cur b (r # rows) = cur # chunkLoop base [] ?nx (artifactRowCost r) rows"
      using True chunkLoop_out[of base "[cur]"] by (simp add: Let_def)
    moreover from calculation(1) have "chunkLoop base [] ?nx (artifactRowCost r) rows \<noteq> []" by auto
    ultimately show ?thesis using Cons(2,3) by simp
  next
    case False
    let ?nx = "cur\<lparr>chRows := chRows cur @ [r]\<rparr>"
    have "length (chRows cur @ [r]) \<le> MaxArtifactCatalogChunkRows"
      using False by (cases "chRows cur = []") (auto simp: MaxArtifactCatalogChunkRows_def)
    then have "ofPublication base ?nx" "\<not> chFinal ?nx" using Cons(2,3) by (auto simp: ofPublication_def)
    then have "chunksOf base (chFirst ?nx) (chRows ?nx @ rows) (chunkLoop base [] ?nx (b + artifactRowCost r) rows)"
      by (rule Cons(1))
    then show ?thesis using False by (auto simp: Let_def)
  qed
qed

text \<open>A publication \<^verbatim>\<open>(e, r)\<close> of a node is current when nothing at or above it is committed or being assembled.\<close>

definition currentPublication :: "int \<Rightarrow> int \<Rightarrow> string \<Rightarrow> artifactCatalogKindState \<Rightarrow> bool" where
  "currentPublication e r n s \<longleftrightarrow> supersedes (nodeAt (akCommitted s) n) e r \<and>
     (\<forall>a. akPending s n = Some a \<longrightarrow> supersedes a e r \<or> anEpoch a = e \<and> anRevision a = r)"

lemma current_passes:
  assumes "currentPublication (chEpoch c) (chRevision c) n s" and "\<not> chWithdraw c"
  shows "publishChunk c n s =
    (if chFirst c then (None, assembleChunk c n \<lparr>anEpoch = chEpoch c, anRevision = chRevision c, anWithdrawn = False, anRows = Map.empty\<rparr> s)
     else (case akPending s n of None \<Rightarrow> (Some ErrMalformed, s)
           | Some pending \<Rightarrow> if anEpoch pending \<noteq> chEpoch c \<or> anRevision pending \<noteq> chRevision c
                             then (Some ErrArtifactCatalogSuperseded, s) else (None, assembleChunk c n pending s)))"
proof -
  have "\<not> (anEpoch (nodeAt (akCommitted s) n) = chEpoch c \<and> anRevision (nodeAt (akCommitted s) n) = chRevision c)"
    "supersedes (nodeAt (akCommitted s) n) (chEpoch c) (chRevision c)"
    using assms(1) by (auto simp: currentPublication_def supersedes_def split: if_splits)
  moreover have "\<not> (case akPending s n of None \<Rightarrow> False
      | Some a \<Rightarrow> \<not> (anEpoch a = chEpoch c \<and> anRevision a = chRevision c) \<and> \<not> supersedes a (chEpoch c) (chRevision c))"
    using assms(1) by (auto simp: currentPublication_def split: option.split)
  ultimately show ?thesis using assms(2) unfolding publishChunk_def Let_def by auto
qed

definition publisherOk :: "artifactChunk \<Rightarrow> bool" where
  "publisherOk base \<longleftrightarrow> trimSpace (chKind base) \<noteq> [] \<and> trimSpace (chNodeID base) \<noteq> [] \<and> chEpoch base > 0 \<and> chRevision base > 0"

lemma opPublish_kind:
  assumes "publisherOk base" and "ofPublication base c"
  shows "opPublishArtifactCatalog c cat =
    (fst (publishChunk c (trimSpace (chNodeID base)) (kindAt cat (trimSpace (chKind base)))),
     cat(trimSpace (chKind base) \<mapsto> snd (publishChunk c (trimSpace (chNodeID base)) (kindAt cat (trimSpace (chKind base))))))"
  using assms by (simp add: opPublishArtifactCatalog_def publisherOk_def ofPublication_def artifactCatalogKindKey_def
      Let_def case_prod_beta)

lemma assemble_rest:
  assumes base: "publisherOk base"
  shows "chunksOf base False rows cs \<Longrightarrow>
    supersedes (nodeAt (akCommitted (kindAt cat (trimSpace (chKind base)))) (trimSpace (chNodeID base))) (chEpoch base) (chRevision base) \<Longrightarrow>
    akPending (kindAt cat (trimSpace (chKind base))) (trimSpace (chNodeID base)) = Some p \<Longrightarrow>
    anEpoch p = chEpoch base \<Longrightarrow> anRevision p = chRevision base \<Longrightarrow>
    fst (publishSeq cs cat) = None \<and>
    akCommitted (kindAt (snd (publishSeq cs cat)) (trimSpace (chKind base))) (trimSpace (chNodeID base)) =
      Some (p\<lparr>anRows := fold addArtifactRow rows (anRows p)\<rparr>)"
proof (induction cs arbitrary: rows cat p)
  case (Cons c cs)
  let ?k = "trimSpace (chKind base)" and ?n = "trimSpace (chNodeID base)"
  let ?s = "kindAt cat ?k"
  have c: "ofPublication base c" "\<not> chFirst c" using Cons(2) by simp_all
  then have h: "chEpoch c = chEpoch base" "chRevision c = chRevision base" "\<not> chWithdraw c" by (auto simp: ofPublication_def)
  have cur: "currentPublication (chEpoch c) (chRevision c) ?n ?s"
    using Cons(3-6) h by (auto simp: currentPublication_def)
  have step: "opPublishArtifactCatalog c cat = (None, cat(?k \<mapsto> assembleChunk c ?n p ?s))"
    using opPublish_kind[OF base c(1)] current_passes[OF cur h(3)] c(2) Cons(4-6) h by simp
  show ?case
  proof (cases "cs = []")
    case True
    then have "chFinal c" "rows = chRows c" using Cons(2) by auto
    then show ?thesis unfolding True publishSeq_single[OF step] kindAt_upd by (simp add: assembleChunk_def Let_def)
  next
    case False
    then obtain rest where rest: "rows = chRows c @ rest" "chunksOf base False rest cs" "\<not> chFinal c"
      using Cons(2) by auto
    let ?p = "p\<lparr>anRows := fold addArtifactRow (chRows c) (anRows p)\<rparr>"
    obtain cat' where cat': "cat' = cat(?k \<mapsto> assembleChunk c ?n p ?s)" by simp
    have "supersedes (nodeAt (akCommitted (kindAt cat' ?k)) ?n) (chEpoch base) (chRevision base)"
      "akPending (kindAt cat' ?k) ?n = Some ?p"
      unfolding cat' kindAt_upd using Cons(3) rest(3) by (simp_all add: assembleChunk_def Let_def)
    from Cons(1)[OF rest(2) this] show ?thesis
      unfolding publishSeq_Cons(1)[OF step[folded cat']] using Cons(5,6) rest(1) by simp
  qed
qed simp

lemma nonfinal_keeps_committed:
  assumes "\<not> chFinal c" and "\<not> chWithdraw c"
  shows "akCommitted (snd (publishChunk c n s)) = akCommitted s"
  using assms by (simp add: publishChunk_def assembleChunk_def Let_def split: option.split)

lemma chunksOf_prefix:
  "chunksOf base first rows cs \<Longrightarrow> m < length cs \<Longrightarrow> \<forall>c \<in> set (take m cs). ofPublication base c \<and> \<not> chFinal c"
  by (induction base first rows cs arbitrary: m rule: chunksOf.induct) (auto simp: take_Cons split: if_splits nat.splits)

lemma prefix_keeps_committed:
  assumes base: "publisherOk base"
  shows "\<forall>c \<in> set cs. ofPublication base c \<and> \<not> chFinal c \<Longrightarrow>
    akCommitted (kindAt (snd (publishSeq cs cat)) k) = akCommitted (kindAt cat k)"
proof (induction cs arbitrary: cat)
  case (Cons c cs)
  then have c: "ofPublication base c" "\<not> chFinal c" "\<not> chWithdraw c" by (auto simp: ofPublication_def)
  let ?cat = "snd (opPublishArtifactCatalog c cat)"
  have "akCommitted (kindAt ?cat k) = akCommitted (kindAt cat k)"
    using opPublish_kind[OF base c(1)] nonfinal_keeps_committed[OF c(2,3)] by simp
  moreover obtain err where "opPublishArtifactCatalog c cat = (err, ?cat)" by (metis prod.collapse)
  ultimately show ?case using Cons publishSeq_Cons(1)[of c cat ?cat cs] publishSeq_Cons(2)[of c cat _ ?cat cs]
    by (cases err) auto
qed simp

lemma Chunk_chunksOf:
  assumes "base = \<lparr>chKind = trimSpace kind, chNodeID = trimSpace node, chEpoch = e, chRevision = r, chRows = [],
                   chFirst = False, chFinal = False, chWithdraw = False\<rparr>"
  shows "chunksOf base True rows (ChunkArtifactCatalogSnapshot kind node e r rows)"
proof (cases "rows = []")
  case True
  then show ?thesis using assms by (simp add: ChunkArtifactCatalogSnapshot_def ofPublication_def)
next
  case False
  have "baseOk base" "ofPublication base (base\<lparr>chFirst := True\<rparr>)" using assms by (simp_all add: baseOk_def ofPublication_def)
  from chunkLoop_spec[OF this(1) this(2), of rows 0] show ?thesis
    using False assms by (simp add: ChunkArtifactCatalogSnapshot_def)
qed

text \<open>Property C38. A published inventory arrives whole or not at all.  Splitting an inventory into chunks and delivering
  them in order, under a version that is newer than what the node has committed and than what is being assembled,
  commits exactly the rows of the inventory under that version; and until the last chunk is applied the
  committed answer for the node is the old one.\<close>

theorem artifact_publication_all_or_nothing:
  assumes "k = trimSpace kind" "n = trimSpace node" "k \<noteq> []" "n \<noteq> []" "0 < e" "0 < r"
    and "currentPublication e r n (kindAt cat k)"
    and "cs = ChunkArtifactCatalogSnapshot kind node e r rows"
  shows "fst (publishSeq cs cat) = None \<and>
    akCommitted (kindAt (snd (publishSeq cs cat)) k) n =
      Some \<lparr>anEpoch = e, anRevision = r, anWithdrawn = False, anRows = fold addArtifactRow rows Map.empty\<rparr> \<and>
    (\<forall>m < length cs. akCommitted (kindAt (snd (publishSeq (take m cs) cat)) k) n = akCommitted (kindAt cat k) n)"
proof -
  define base where "base = \<lparr>chKind = k, chNodeID = n, chEpoch = e, chRevision = r, chRows = [],
                   chFirst = False, chFinal = False, chWithdraw = False\<rparr>"
  have cs: "chunksOf base True rows cs" using Chunk_chunksOf[of base kind node e r rows] assms by (simp add: base_def)
  have trim: "trimSpace k = k" "trimSpace n = n" using assms(1,2) by simp_all
  then have pub: "publisherOk base" using assms by (simp add: publisherOk_def base_def)
  obtain c cs' where c: "cs = c # cs'" using cs by (cases cs) auto
  then have hc: "ofPublication base c" "chFirst c" using cs by simp_all
  then have h: "chEpoch c = e" "chRevision c = r" "\<not> chWithdraw c" by (auto simp: ofPublication_def base_def)
  let ?z = "\<lparr>anEpoch = e, anRevision = r, anWithdrawn = False, anRows = Map.empty\<rparr>"
  let ?cat = "cat(k \<mapsto> assembleChunk c n ?z (kindAt cat k))"
  have step: "opPublishArtifactCatalog c cat = (None, ?cat)"
    using opPublish_kind[OF pub hc(1), of cat] current_passes[of c n "kindAt cat k"] assms(7) h hc(2)
    by (simp add: base_def trim)
  have fin: "fst (publishSeq cs cat) = None \<and> akCommitted (kindAt (snd (publishSeq cs cat)) k) n =
      Some (?z\<lparr>anRows := fold addArtifactRow rows Map.empty\<rparr>)"
  proof (cases "cs' = []")
    case True
    then have "chFinal c" "rows = chRows c" using cs c by auto
    then show ?thesis unfolding c True publishSeq_single[OF step] kindAt_upd by (simp add: assembleChunk_def Let_def)
  next
    case False
    then obtain rest where rest: "rows = chRows c @ rest" "chunksOf base False rest cs'" "\<not> chFinal c"
      using cs c by auto
    have bk: "trimSpace (chKind base) = k" "trimSpace (chNodeID base) = n" "chEpoch base = e" "chRevision base = r"
      by (simp_all add: base_def trim)
    obtain cat' where cat': "cat' = ?cat" by simp
    have "supersedes (nodeAt (akCommitted (kindAt cat' k)) n) e r"
      "akPending (kindAt cat' k) n = Some (?z\<lparr>anRows := fold addArtifactRow (chRows c) Map.empty\<rparr>)"
      unfolding cat' kindAt_upd using assms(7) rest(3) by (simp_all add: assembleChunk_def Let_def currentPublication_def)
    from assemble_rest[OF pub rest(2), unfolded bk, OF this] show ?thesis
      unfolding c publishSeq_Cons(1)[OF step[folded cat']] using rest(1) by simp
  qed
  have pre: "akCommitted (kindAt (snd (publishSeq (take m cs) cat)) k) n = akCommitted (kindAt cat k) n" if "m < length cs" for m
    using prefix_keeps_committed[OF pub chunksOf_prefix[OF cs that], of cat k] by simp
  show ?thesis using fin pre by simp
qed

definition artifactExampleRow :: ArtifactCatalogRow where
  "artifactExampleRow = \<lparr>acID = ''t1'', acTenant = [], acPayload = ''x''\<rparr>"

theorem artifact_publication_all_or_nothing_witness:
  "akCommitted (kindAt (snd (publishSeq (ChunkArtifactCatalogSnapshot ''template'' ''n1'' 1 1 [artifactExampleRow]) Map.empty)) ''template'') ''n1'' =
     Some \<lparr>anEpoch = 1, anRevision = 1, anWithdrawn = False, anRows = fold addArtifactRow [artifactExampleRow] Map.empty\<rparr>"
  by (rule artifact_publication_all_or_nothing[of "''template''" "''template''" "''n1''" "''n1''" 1 1 Map.empty,
        OF _ _ _ _ _ _ _ refl, THEN conjunct2, THEN conjunct1])
    (simp_all add: visibleChar_def currentPublication_def kindAt_def emptyKind_def nodeAt_def zeroNode_def supersedes_def)

end
