(* ===== verification/Paging.thy ===== *)
theory Paging
  imports Prelude
begin

text \<open>
  Reading a table page by page.  Every paged read of the control plane has the same contract: the rows are
  walked in the strict order of a string key, a page is a non-empty run of the rows behind the cursor, and
  the page hands out the key of its last row as the next cursor unless nothing is left.  The locale states
  the contract and derives once that a client that follows the cursors comes to the end and has then seen
  every row exactly once.
\<close>

text \<open>A client that follows the cursors, with a bound on the number of reads it makes.\<close>

fun walkPages :: "nat \<Rightarrow> (string \<Rightarrow> 'a list \<times> string) \<Rightarrow> string \<Rightarrow> 'a list option" where
  "walkPages 0 page token = None"
| "walkPages (Suc n) page token =
     (case page token of (out, nxt) \<Rightarrow>
        if nxt = [] then Some out else map_option ((@) out) (walkPages n page nxt))"

definition keysBehind :: "string \<Rightarrow> (string \<times> 'a) list \<Rightarrow> (string \<times> 'a) list" where
  "keysBehind token items = filter (\<lambda>kv. token < fst kv) items"

lemma keysBehind_Nil: "[] \<notin> fst ` set items \<Longrightarrow> keysBehind [] items = items"
  unfolding keysBehind_def by (rule filter_True) (metis image_eqI neq_Nil_conv Nil_less_Cons)

lemma keysBehind_step:
  assumes "sorted_wrt (<) (map fst items)" and "0 < n" and "n \<le> length (keysBehind token items)"
    and "nxt = fst (keysBehind token items ! (n - 1))"
  shows "keysBehind nxt items = drop n (keysBehind token items)"
proof -
  let ?r = "keysBehind token items"
  have srt: "sorted_wrt (<) (map fst ?r)"
    using assms(1) by (simp add: keysBehind_def sorted_wrt_map sorted_wrt_filter)
  have mem: "?r ! (n - 1) \<in> set ?r" using assms(2,3) by (intro nth_mem) simp
  then have "token < nxt" using assms(4) by (auto simp: keysBehind_def)
  then have "keysBehind nxt items = keysBehind nxt ?r"
    by (auto simp: keysBehind_def intro!: filter_cong dest: order.strict_trans)
  also have "\<dots> = keysBehind nxt (take n ?r) @ keysBehind nxt (drop n ?r)"
    by (metis append_take_drop_id filter_append keysBehind_def)
  also have "keysBehind nxt (take n ?r) = []"
  proof -
    have "fst kv \<le> nxt" if kv: "kv \<in> set (take n ?r)" for kv
    proof -
      obtain j where j: "j < n" "j < length ?r" "kv = ?r ! j" using kv by (auto simp: in_set_conv_nth)
      show ?thesis
      proof (cases "j = n - 1")
        case False
        then have "fst (?r ! j) < fst (?r ! (n - 1))"
          using sorted_wrt_nth_less[OF srt, of j "n - 1"] j assms(2,3) by simp
        then show ?thesis using j assms(4) by simp
      qed (simp add: j assms(4))
    qed
    then show ?thesis by (auto simp: keysBehind_def filter_empty_conv not_less)
  qed
  also have "keysBehind nxt (drop n ?r) = drop n ?r"
  proof -
    have "nxt < fst kv" if kv: "kv \<in> set (drop n ?r)" for kv
    proof -
      obtain j where j: "j < length ?r - n" "kv = ?r ! (n + j)"
        using kv by (auto simp: in_set_conv_nth)
      then have "n + j < length ?r" by simp
      then show ?thesis
        using sorted_wrt_nth_less[OF srt, of "n - 1" "n + j"] assms(2,4) j(2) by simp
    qed
    then show ?thesis unfolding keysBehind_def by (intro filter_True) blast
  qed
  finally show ?thesis by simp
qed

locale keyset_pages =
  fixes ok :: "'s \<Rightarrow> bool"
    and items :: "'s \<Rightarrow> (string \<times> 'a) list"
    and page :: "'s \<Rightarrow> string \<Rightarrow> 'a list \<times> string"
  assumes keys_sorted: "ok s \<Longrightarrow> sorted_wrt (<) (map fst (items s))"
    and keys_named: "ok s \<Longrightarrow> [] \<notin> fst ` set (items s)"
    and page_run: "ok s \<Longrightarrow> page s token = (out, nxt) \<Longrightarrow>
      out = map snd (keysBehind token (items s)) \<and> nxt = [] \<or>
      (\<exists>n > 0. n < length (keysBehind token (items s)) \<and>
         out = map snd (take n (keysBehind token (items s))) \<and>
         nxt = fst (keysBehind token (items s) ! (n - 1)))"
begin

lemma walk_from:
  assumes "ok s" and "length (keysBehind token (items s)) < fuel"
  shows "walkPages fuel (page s) token = Some (map snd (keysBehind token (items s)))"
  using assms(2)
proof (induction fuel arbitrary: token)
  case (Suc fuel)
  let ?r = "keysBehind token (items s)"
  obtain out nxt where pg: "page s token = (out, nxt)" by fastforce
  from page_run[OF assms(1) pg] show ?case
  proof
    assume "out = map snd ?r \<and> nxt = []"
    then show ?thesis by (simp add: pg)
  next
    assume "\<exists>n > 0. n < length ?r \<and> out = map snd (take n ?r) \<and> nxt = fst (?r ! (n - 1))"
    then obtain n where n: "0 < n" "n < length ?r" "out = map snd (take n ?r)" "nxt = fst (?r ! (n - 1))"
      by blast
    have "?r ! (n - 1) \<in> set ?r" using n by (intro nth_mem) simp
    then have "nxt \<noteq> []" using keys_named[OF assms(1)] n(4) by (force simp: keysBehind_def)
    moreover have "walkPages fuel (page s) nxt = Some (map snd (keysBehind nxt (items s)))"
      using n Suc.prems keysBehind_step[OF keys_sorted[OF assms(1)] n(1) _ n(4)] by (intro Suc.IH) simp
    ultimately show ?thesis
      using n keysBehind_step[OF keys_sorted[OF assms(1)] n(1) _ n(4)]
      by (simp add: pg flip: map_append)
  qed
qed simp

theorem walk_complete:
  assumes "ok s" and "length (items s) < fuel"
  shows "walkPages fuel (page s) [] = Some (map snd (items s))"
  using walk_from[OF assms(1), of "[]"] assms by (simp add: keysBehind_Nil keys_named)

end

end
