(* ===== verification/Artifact_Pages.thy ===== *)
theory Artifact_Pages
  imports Artifact_Catalog Paging
begin

text \<open>
  Reading the artifact catalogue in pages (\<^verbatim>\<open>artifactCatalogPage\<close> of
  \<^verbatim>\<open>internal/cluster/artifact_catalog.go\<close>): a page is bounded by a row count and a byte budget and continues
  behind a (node, id) cursor.  Shown: in every catalogue the log can produce, following the cursors ends and
  yields each of the tenant's rows of every covered node exactly once.
\<close>

section \<open>Pages\<close>

record ArtifactCatalogPage =
  apRows :: "ArtifactCatalogRow list"
  apPublishers :: "string list"
  apNextPageToken :: string
  apPublisherEpoch :: int

definition artifactCatalogCursor :: "string \<Rightarrow> string \<Rightarrow> string" where
  "artifactCatalogCursor nodeID i = nodeID @ [CHR 0x00] @ i"

text \<open>The walk over (cursor, row) pairs in the order of the nodes and of the ids within a node.\<close>

fun artifactWalk ::
  "string \<Rightarrow> nat \<Rightarrow> int \<Rightarrow> string \<Rightarrow> ArtifactCatalogRow list \<Rightarrow> (string \<times> ArtifactCatalogRow) list
     \<Rightarrow> ArtifactCatalogRow list \<times> string" where
  "artifactWalk token limit budget lastCursor out [] = (out, [])"
| "artifactWalk token limit budget lastCursor out ((cursor, row) # rest) =
     (if token \<noteq> [] \<and> cursor \<le> token then artifactWalk token limit budget lastCursor out rest
      else let cost = int (artifactRowCost row)
           in if length out \<ge> limit \<or> (out \<noteq> [] \<and> cost > budget) then (out, lastCursor)
              else artifactWalk token limit (budget - cost) cursor (out @ [row]) rest)"

text \<open>The ids of one tenant in a node's inventory.  Rows are keyed by tenant and id, so an id occurs once.\<close>

definition nodeArtifactIds :: "string \<Rightarrow> artifactCatalogNodeState \<Rightarrow> string list" where
  "nodeArtifactIds tenant s = sorted_list_of_set {acID row | row. row \<in> ran (anRows s) \<and> trimSpace (acTenant row) = tenant}"

definition zeroArtifactRow :: ArtifactCatalogRow where
  "zeroArtifactRow = \<lparr>acID = [], acTenant = [], acPayload = []\<rparr>"

definition artifactPublishers :: "artifactCatalogKindState \<Rightarrow> string list" where
  "artifactPublishers state =
     sorted_list_of_set {n \<in> dom (akCommitted state). \<not> anWithdrawn (nodeAt (akCommitted state) n)}"

definition artifactWalkRows ::
  "string \<Rightarrow> artifactCatalogKindState \<Rightarrow> string list \<Rightarrow> (string \<times> ArtifactCatalogRow) list" where
  "artifactWalkRows tenant state nodeIDs =
     concat (map (\<lambda>n. map (\<lambda>i. (artifactCatalogCursor n i,
                              case anRows (nodeAt (akCommitted state) n) (artifactCatalogRowKey tenant i) of
                                None \<Rightarrow> zeroArtifactRow | Some row \<Rightarrow> row))
                         (nodeArtifactIds tenant (nodeAt (akCommitted state) n)))
                 nodeIDs)"

definition artifactCatalogPage ::
  "string \<Rightarrow> string \<Rightarrow> int \<Rightarrow> string \<Rightarrow> string \<Rightarrow> artifactCatalog \<Rightarrow> ArtifactCatalogPage" where
  "artifactCatalogPage kind tenant0 limit0 token forNode0 cat =
     (let limit = (if limit0 \<le> 0 \<or> limit0 > int MaxArtifactCatalogPageRows then MaxArtifactCatalogPageRows
                   else nat limit0);
          tenant = trimSpace tenant0; forNode = trimSpace forNode0;
          empty = \<lparr>apRows = [], apPublishers = [], apNextPageToken = [], apPublisherEpoch = 0\<rparr>
      in case cat (artifactCatalogKindKey kind) of
           None \<Rightarrow> empty
         | Some state \<Rightarrow>
             if dom (akCommitted state) = {}
             then empty\<lparr>apPublisherEpoch := (if forNode \<noteq> [] then anEpoch (nodeAt (akPending state) forNode) else 0)\<rparr>
             else let nodeIDs = artifactPublishers state;
                      walk = artifactWalkRows tenant state nodeIDs;
                      (rows, nxt) = artifactWalk token limit artifactCatalogPageByteBudget [] [] walk
                  in \<lparr>apRows = rows, apPublishers = nodeIDs, apNextPageToken = nxt,
                      apPublisherEpoch = (if forNode \<noteq> [] then max (anEpoch (nodeAt (akCommitted state) forNode))
                                             (anEpoch (nodeAt (akPending state) forNode)) else 0)\<rparr>)"

section \<open>Well-formed inventories\<close>

text \<open>Every row is stored under its own key, with its tenant and id trimmed.\<close>

definition rowsWf :: "(string \<rightharpoonup> ArtifactCatalogRow) \<Rightarrow> bool" where
  "rowsWf rows \<longleftrightarrow> finite (dom rows) \<and>
     (\<forall>k row. rows k = Some row \<longrightarrow> k = artifactCatalogRowKey (acTenant row) (acID row) \<and>
        trimSpace (acTenant row) = acTenant row \<and> trimSpace (acID row) = acID row)"

definition kindWf :: "artifactCatalogKindState \<Rightarrow> bool" where
  "kindWf s \<longleftrightarrow> finite (dom (akCommitted s)) \<and> (\<forall>n \<in> dom (akCommitted s). CHR 0x00 \<notin> set n) \<and>
     (\<forall>n. rowsWf (anRows (nodeAt (akCommitted s) n)) \<and> rowsWf (anRows (nodeAt (akPending s) n)))"

lemma rowsWf_empty [simp]: "rowsWf Map.empty"
  by (simp add: rowsWf_def)

lemma rowsWf_add: "rowsWf rows \<Longrightarrow> rowsWf (addArtifactRow row rows)"
  by (auto simp: rowsWf_def addArtifactRow_def Let_def)

lemma rowsWf_fold: "rowsWf rows \<Longrightarrow> rowsWf (fold addArtifactRow rs rows)"
  by (induction rs arbitrary: rows) (simp_all add: rowsWf_add)

lemma zeroNode_rows [simp]: "anRows zeroNode = Map.empty"
  by (simp add: zeroNode_def)

lemma kindWf_commit:
  "kindWf s \<Longrightarrow> rowsWf (anRows p) \<Longrightarrow> CHR 0x00 \<notin> set n \<Longrightarrow>
   kindWf (s\<lparr>akCommitted := (akCommitted s)(n \<mapsto> p), akPending := (akPending s)(n := None)\<rparr>)"
  by (auto simp: kindWf_def)

lemma kindWf_assemble:
  "kindWf s \<Longrightarrow> rowsWf (anRows p) \<Longrightarrow> CHR 0x00 \<notin> set n \<Longrightarrow> kindWf (assembleChunk c n p s)"
  using kindWf_commit[of s "p\<lparr>anRows := fold addArtifactRow (chRows c) (anRows p)\<rparr>" n] rowsWf_fold[of "anRows p" "chRows c"]
  by (auto simp: assembleChunk_def Let_def kindWf_def)

lemma kindWf_clear: "kindWf s \<Longrightarrow> kindWf (clearPendingForPublication n e r s)"
  by (auto simp: clearPendingForPublication_def kindWf_def split: option.split)

lemma kindWf_publish:
  assumes "kindWf s" and "CHR 0x00 \<notin> set n"
  shows "kindWf (snd (publishChunk c n s))"
proof -
  have pend: "rowsWf (anRows p)" if "akPending s n = Some p" for p
    using assms(1) that unfolding kindWf_def by (metis nodeAt_def option.simps(5))
  show ?thesis
    unfolding publishChunk_def Let_def
    using assms pend by (auto intro!: kindWf_clear kindWf_assemble kindWf_commit split: option.split)
qed

lemma kindWf_withdraw: "kindWf s \<Longrightarrow> CHR 0x00 \<notin> set n \<Longrightarrow> kindWf (withdrawKind n s)"
  unfolding withdrawKind_def Let_def by (auto simp: kindWf_def)

text \<open>The node ids of the operations are free of the separator.\<close>

fun cleanArtifactOp :: "artifactOp \<Rightarrow> bool" where
  "cleanArtifactOp (ArtPublish c) = (CHR 0x00 \<notin> set (trimSpace (chNodeID c)))"
| "cleanArtifactOp (ArtAllocate kind node holder) = True"
| "cleanArtifactOp (ArtWithdraw node) = (CHR 0x00 \<notin> set (trimSpace node))"

definition catalogWf :: "artifactCatalog \<Rightarrow> bool" where
  "catalogWf cat \<longleftrightarrow> (\<forall>kind. kindWf (kindAt cat kind))"

lemma kindWf_issued: "kindWf s \<Longrightarrow> kindWf (s\<lparr>akIssued := m\<rparr>)"
  by (simp add: kindWf_def)

lemma catalogWf_step:
  assumes "catalogWf cat" and "cleanArtifactOp op"
  shows "catalogWf (artifactStep op cat)"
proof (cases op)
  case (ArtPublish c)
  then show ?thesis using assms
    by (auto simp: opPublishArtifactCatalog_def Let_def catalogWf_def case_prod_beta intro: kindWf_publish)
next
  case (ArtAllocate kind node holder)
  then show ?thesis using assms
    by (auto simp: opAllocateArtifactEpoch_def Let_def catalogWf_def kindWf_issued split: option.split)
next
  case (ArtWithdraw node)
  have "kindAt (artifactStep op cat) k = kindAt cat k \<or> kindAt (artifactStep op cat) k = withdrawKind (trimSpace node) (kindAt cat k)" for k
    using ArtWithdraw by (auto simp: withdrawArtifactCatalogCoverageLocked_def Let_def kindAt_def split: option.split)
  then show ?thesis using assms ArtWithdraw kindWf_withdraw unfolding catalogWf_def by (metis cleanArtifactOp.simps(3))
qed

lemma catalogWf_run:
  assumes "list_all cleanArtifactOp ops"
  shows "catalogWf (fold artifactStep ops Map.empty)"
proof -
  have "catalogWf cat \<Longrightarrow> catalogWf (fold artifactStep ops cat)" for cat
    using assms by (induction ops arbitrary: cat) (simp_all add: catalogWf_step)
  moreover have "catalogWf Map.empty"
    by (simp add: catalogWf_def kindAt_def emptyKind_def kindWf_def nodeAt_def)
  ultimately show ?thesis by blast
qed

section \<open>The walk order\<close>

lemma cursor_less_node:
  assumes "a < b" and "CHR 0x00 \<notin> set b"
  shows "artifactCatalogCursor a x < artifactCatalogCursor b y"
  using assms
proof (induction a arbitrary: b)
  case Nil
  then obtain c b' where b: "b = c # b'" "c \<noteq> CHR 0x00" by (cases b) auto
  then have "(of_char c :: nat) \<noteq> of_char (CHR 0x00)" by (simp only: of_char_eq_iff simp_thms)
  then have "CHR 0x00 < c" by (simp add: less_char_def)
  then show ?case by (simp add: b artifactCatalogCursor_def)
next
  case (Cons c a)
  then show ?case by (cases b) (auto simp: artifactCatalogCursor_def)
qed

lemma cursor_less_id: "x < y \<Longrightarrow> artifactCatalogCursor a x < artifactCatalogCursor a y"
  by (induction a) (simp_all add: artifactCatalogCursor_def)

lemma sorted_wrt_concat:
  assumes "\<forall>x \<in> set xs. sorted_wrt R (f x)" and "sorted_wrt S xs"
    and "\<And>x y a b. x \<in> set xs \<Longrightarrow> y \<in> set xs \<Longrightarrow> S x y \<Longrightarrow> a \<in> set (f x) \<Longrightarrow> b \<in> set (f y) \<Longrightarrow> R a b"
  shows "sorted_wrt R (concat (map f xs))"
  using assms
proof (induction xs)
  case (Cons x xs)
  have "sorted_wrt R (concat (map f xs))" using Cons by (intro Cons.IH) (auto intro: Cons.prems(3))
  moreover have "R a b" if "a \<in> set (f x)" "b \<in> set (f y)" "y \<in> set xs" for a b y
    using that Cons.prems(2) by (intro Cons.prems(3)[of x y]) auto
  ultimately show ?case using Cons.prems(1) by (auto simp: sorted_wrt_append)
qed simp

lemma finite_nodeIds:
  assumes "rowsWf (anRows s)"
  shows "finite {acID row | row. row \<in> ran (anRows s) \<and> trimSpace (acTenant row) = tenant}"
proof -
  have "finite (ran (anRows s))" using assms by (simp add: rowsWf_def finite_ran)
  then show ?thesis by (auto intro: finite_subset[OF _ finite_imageI[of "ran (anRows s)" acID]])
qed

lemma set_publishers:
  "kindWf s \<Longrightarrow> set (artifactPublishers s) = {n \<in> dom (akCommitted s). \<not> anWithdrawn (nodeAt (akCommitted s) n)}"
  by (simp add: artifactPublishers_def kindWf_def)

lemma walk_sorted:
  assumes "kindWf s"
  shows "sorted_wrt (<) (map fst (artifactWalkRows tenant s (artifactPublishers s)))"
proof -
  let ?ids = "\<lambda>n. nodeArtifactIds tenant (nodeAt (akCommitted s) n)"
  have eq: "map fst (artifactWalkRows tenant s (artifactPublishers s)) =
      concat (map (\<lambda>n. map (artifactCatalogCursor n) (?ids n)) (artifactPublishers s))"
    by (simp add: artifactWalkRows_def map_concat comp_def)
  show ?thesis unfolding eq
  proof (rule sorted_wrt_concat[where S = "(<)"])
    show "\<forall>n \<in> set (artifactPublishers s). sorted_wrt (<) (map (artifactCatalogCursor n) (?ids n))"
      by (auto simp: sorted_wrt_map nodeArtifactIds_def intro: sorted_wrt_mono_rel[OF _ sorted_list_of_set.strict_sorted_key_list_of_set] cursor_less_id)
    show "sorted_wrt (<) (artifactPublishers s)" by (simp add: artifactPublishers_def)
    fix x y a b
    assume "x \<in> set (artifactPublishers s)" "y \<in> set (artifactPublishers s)" "x < y"
      "a \<in> set (map (artifactCatalogCursor x) (?ids x))" "b \<in> set (map (artifactCatalogCursor y) (?ids y))"
    then show "a < b" using assms by (auto simp: set_publishers kindWf_def intro: cursor_less_node)
  qed
qed

lemma walk_named: "[] \<notin> fst ` set (artifactWalkRows tenant s ns)"
  by (auto simp: artifactWalkRows_def artifactCatalogCursor_def)

lemma walk_set:
  assumes "kindWf s" and "tenant = trimSpace tenant0"
  shows "set (artifactWalkRows tenant s (artifactPublishers s)) =
    {(artifactCatalogCursor n (acID row), row) | n row p. akCommitted s n = Some p \<and> \<not> anWithdrawn p \<and>
       row \<in> ran (anRows p) \<and> acTenant row = tenant}"
proof -
  have row: "(case anRows p (artifactCatalogRowKey tenant (acID row)) of None \<Rightarrow> zeroArtifactRow | Some r \<Rightarrow> r) = row"
    if wf: "rowsWf (anRows p)" and row: "row \<in> ran (anRows p)" "acTenant row = tenant" for p row
  proof -
    obtain k where "anRows p k = Some row" using row(1) by (auto simp: ran_def)
    with wf row(2) show ?thesis by (auto simp: rowsWf_def)
  qed
  have ids: "set (nodeArtifactIds tenant p) = {acID row | row. row \<in> ran (anRows p) \<and> acTenant row = tenant}"
    if wf: "rowsWf (anRows p)" for p
  proof -
    have "trimSpace (acTenant row) = acTenant row" if "row \<in> ran (anRows p)" for row
      using that wf by (auto simp: rowsWf_def ran_def)
    then show ?thesis by (auto simp: nodeArtifactIds_def finite_nodeIds[OF wf])
  qed
  have wf: "rowsWf (anRows (nodeAt (akCommitted s) n))" for n using assms(1) by (simp add: kindWf_def)
  have node: "set (map (\<lambda>i. (artifactCatalogCursor n i,
        case anRows (nodeAt (akCommitted s) n) (artifactCatalogRowKey tenant i) of None \<Rightarrow> zeroArtifactRow | Some r \<Rightarrow> r))
        (nodeArtifactIds tenant (nodeAt (akCommitted s) n))) =
      {(artifactCatalogCursor n (acID row), row) | row. row \<in> ran (anRows (nodeAt (akCommitted s) n)) \<and> acTenant row = tenant}" for n
    unfolding set_map ids[OF wf] setcompr_eq_image image_image by (intro image_cong refl) (simp add: row[OF wf])
  show ?thesis
    unfolding artifactWalkRows_def set_concat set_map[of _ "artifactPublishers s"] image_image node set_publishers[OF assms(1)]
    by (auto simp: nodeAt_def) blast
qed

section \<open>Pages are runs of the walk\<close>

lemma artifactWalk_skip:
  "[] \<notin> fst ` set w \<Longrightarrow> artifactWalk token limit budget lc out w = artifactWalk [] limit budget lc out (keysBehind token w)"
proof (induction w arbitrary: budget lc out)
  case (Cons kv w)
  obtain k v where kv: "kv = (k, v)" by fastforce
  have ne: "k \<noteq> []" and ih: "\<And>budget lc out. artifactWalk token limit budget lc out w = artifactWalk [] limit budget lc out (keysBehind token w)"
    using Cons by (auto simp: kv)
  have "token = [] \<Longrightarrow> token < k" using ne by (cases k) auto
  then show ?case using ih by (auto simp: kv keysBehind_def Let_def)
qed (simp add: keysBehind_def)

lemma artifactWalk_run:
  assumes "artifactWalk [] limit budget lc out xs = (rows, nxt)"
  shows "rows = out @ map snd xs \<and> nxt = [] \<or>
    (\<exists>n < length xs. rows = out @ map snd (take n xs) \<and> nxt = (if n = 0 then lc else fst (xs ! (n - 1))) \<and>
       (n = 0 \<longrightarrow> out \<noteq> [] \<or> limit = 0))"
  using assms
proof (induction xs arbitrary: budget lc out)
  case (Cons kv xs)
  obtain k v where kv: "kv = (k, v)" by fastforce
  show ?case
  proof (cases "length out \<ge> limit \<or> (out \<noteq> [] \<and> int (artifactRowCost v) > budget)")
    case True
    then show ?thesis using Cons.prems by (auto simp: kv Let_def intro!: exI[of _ 0])
  next
    case False
    then have "artifactWalk [] limit (budget - int (artifactRowCost v)) k (out @ [v]) xs = (rows, nxt)"
      using Cons.prems by (auto simp: kv Let_def)
    from Cons.IH[OF this] show ?thesis
    proof
      assume "\<exists>n < length xs. rows = (out @ [v]) @ map snd (take n xs) \<and>
        nxt = (if n = 0 then k else fst (xs ! (n - 1))) \<and> (n = 0 \<longrightarrow> out @ [v] \<noteq> [] \<or> limit = 0)"
      then obtain n where "n < length xs" "rows = out @ v # map snd (take n xs)" "nxt = (if n = 0 then k else fst (xs ! (n - 1)))"
        by auto
      then show ?thesis by (intro disjI2 exI[of _ "Suc n"]) (auto simp: kv nth_Cons')
    qed (simp add: kv)
  qed
qed simp

type_synonym artifactRead = "string \<times> string \<times> int \<times> string \<times> artifactCatalog"

definition artifactInventory :: "artifactRead \<Rightarrow> (string \<times> ArtifactCatalogRow) list" where
  "artifactInventory = (\<lambda>(kind, tenant, limit, forNode, cat).
     let state = kindAt cat (artifactCatalogKindKey kind)
     in artifactWalkRows (trimSpace tenant) state (artifactPublishers state))"

definition artifactReadPage :: "artifactRead \<Rightarrow> string \<Rightarrow> ArtifactCatalogRow list \<times> string" where
  "artifactReadPage = (\<lambda>(kind, tenant, limit, forNode, cat) token.
     let page = artifactCatalogPage kind tenant limit token forNode cat in (apRows page, apNextPageToken page))"

definition artifactReadOk :: "artifactRead \<Rightarrow> bool" where
  "artifactReadOk = (\<lambda>(kind, tenant, limit, forNode, cat). catalogWf cat)"

lemma artifactReadPage_walk:
  "\<exists>limit > 0. artifactReadPage r token = artifactWalk token limit artifactCatalogPageByteBudget [] [] (artifactInventory r)"
proof -
  obtain kind tenant limit forNode cat where r: "r = (kind, tenant, limit, forNode, cat)" by (metis surj_pair)
  define l where "l = (if limit \<le> 0 \<or> limit > int MaxArtifactCatalogPageRows then MaxArtifactCatalogPageRows else nat limit)"
  have "0 < l" by (simp add: l_def MaxArtifactCatalogPageRows_def)
  moreover have "artifactReadPage r token = artifactWalk token l artifactCatalogPageByteBudget [] [] (artifactInventory r)"
  proof (cases "cat (artifactCatalogKindKey kind)")
    case None
    then show ?thesis
      by (simp add: r artifactReadPage_def artifactInventory_def artifactCatalogPage_def kindAt_def emptyKind_def Let_def
          artifactPublishers_def artifactWalkRows_def)
  next
    case (Some state)
    have "dom (akCommitted state) = {} \<Longrightarrow> artifactWalkRows (trimSpace tenant) state (artifactPublishers state) = []"
      by (simp add: artifactPublishers_def artifactWalkRows_def)
    then show ?thesis
      by (simp only: r artifactReadPage_def artifactInventory_def artifactCatalogPage_def kindAt_def Let_def Some
          l_def[symmetric] option.case prod.case split: prod.split) simp
  qed
  ultimately show ?thesis by blast
qed

interpretation artifactPages: keyset_pages artifactReadOk artifactInventory artifactReadPage
proof
  fix r token out nxt
  assume ok: "artifactReadOk r"
  obtain kind tenant limit forNode cat where r: "r = (kind, tenant, limit, forNode, cat)" by (metis surj_pair)
  have wf: "kindWf (kindAt cat (artifactCatalogKindKey kind))"
    using ok by (simp add: r artifactReadOk_def catalogWf_def)
  show "sorted_wrt (<) (map fst (artifactInventory r))" using walk_sorted[OF wf] by (simp add: r artifactInventory_def Let_def)
  show named: "[] \<notin> fst ` set (artifactInventory r)" using walk_named by (simp add: r artifactInventory_def Let_def)
  assume pg: "artifactReadPage r token = (out, nxt)"
  let ?xs = "keysBehind token (artifactInventory r)"
  obtain l where l: "0 < l" "artifactWalk [] l artifactCatalogPageByteBudget [] [] ?xs = (out, nxt)"
    using artifactReadPage_walk[of r token] pg artifactWalk_skip[OF named] by metis
  from artifactWalk_run[OF l(2)] l(1)
  show "out = map snd ?xs \<and> nxt = [] \<or>
    (\<exists>n>0. n < length ?xs \<and> out = map snd (take n ?xs) \<and> nxt = fst (?xs ! (n - 1)))"
    by fastforce
qed

text \<open>Property C39. Reading the artifact catalogue in pages is complete.  After any history of publications, token
  allocations and withdrawals whose node ids are free of the cursor's separator, a reader that starts without a
  cursor and follows the cursors of the pages reaches the last page after at most one read more than there are rows,
  whatever row limit it asks for, and has then received every row of its tenant held by a node with coverage,
  each under a different cursor and so exactly once.\<close>

theorem artifact_pages_complete:
  assumes "list_all cleanArtifactOp ops" and "cat = fold artifactStep ops Map.empty"
    and "w = artifactInventory (kind, tenant, limit, forNode, cat)"
  shows "walkPages (Suc (length w)) (artifactReadPage (kind, tenant, limit, forNode, cat)) [] = Some (map snd w) \<and>
    distinct (map fst w) \<and>
    set w = {(artifactCatalogCursor n (acID row), row) | n row p.
      akCommitted (kindAt cat (artifactCatalogKindKey kind)) n = Some p \<and> \<not> anWithdrawn p \<and>
      row \<in> ran (anRows p) \<and> acTenant row = trimSpace tenant}"
proof -
  have wf: "catalogWf cat" using catalogWf_run assms(1,2) by simp
  then have ok: "artifactReadOk (kind, tenant, limit, forNode, cat)" by (simp add: artifactReadOk_def)
  have "distinct (map fst w)"
    using artifactPages.keys_sorted[OF ok] unfolding assms(3) by (simp add: strict_sorted_iff)
  moreover have "walkPages (Suc (length w)) (artifactReadPage (kind, tenant, limit, forNode, cat)) [] = Some (map snd w)"
    unfolding assms(3) by (rule artifactPages.walk_complete[OF ok]) simp
  ultimately show ?thesis
    using walk_set[of "kindAt cat (artifactCatalogKindKey kind)", OF _ refl, of tenant] wf
    by (simp add: assms(3) artifactInventory_def Let_def catalogWf_def)
qed

definition artifactPagesExample :: artifactCatalog where
  "artifactPagesExample = fold artifactStep
     [ArtPublish \<lparr>chKind = ''template'', chNodeID = ''n1'', chEpoch = 1, chRevision = 1, chRows = [artifactExampleRow],
                  chFirst = True, chFinal = True, chWithdraw = False\<rparr>] Map.empty"

theorem artifact_pages_complete_witness:
  "\<exists>rows. walkPages (Suc (length (artifactInventory (''template'', [], 1, [], artifactPagesExample))))
            (artifactReadPage (''template'', [], 1, [], artifactPagesExample)) [] = Some rows \<and>
          artifactExampleRow \<in> set rows"
proof -
  let ?ops = "[ArtPublish \<lparr>chKind = ''template'', chNodeID = ''n1'', chEpoch = 1, chRevision = 1, chRows = [artifactExampleRow],
                  chFirst = True, chFinal = True, chWithdraw = False\<rparr>]"
  let ?w = "artifactInventory (''template'', [], 1, [], artifactPagesExample)"
  have "list_all cleanArtifactOp ?ops" by (simp add: visibleChar_def)
  note all = artifact_pages_complete[OF this artifactPagesExample_def refl, of "''template''" "[]" 1 "[]"]
  obtain p where p: "akCommitted (kindAt artifactPagesExample (artifactCatalogKindKey ''template'')) ''n1'' = Some p"
      "\<not> anWithdrawn p" "anRows p = [artifactCatalogRowKey [] ''t1'' \<mapsto> artifactExampleRow]"
    by (simp add: artifactPagesExample_def opPublishArtifactCatalog_def publishChunk_def assembleChunk_def Let_def
        artifactCatalogKindKey_def visibleChar_def kindAt_def emptyKind_def nodeAt_def zeroNode_def supersedes_def
        addArtifactRow_def artifactExampleRow_def MaxArtifactCatalogChunkRows_def maxArtifactCatalogRowBytes_def)
  then have "(artifactCatalogCursor ''n1'' ''t1'', artifactExampleRow) \<in> set ?w"
    using all by (auto simp: artifactExampleRow_def)
  then have "artifactExampleRow \<in> set (map snd ?w)" by force
  then show ?thesis using all by blast
qed

end
