(* ===== verification/Storage_Obligations.thy ===== *)
theory Storage_Obligations
  imports Placement_Types
begin

text \<open>
  Drains, storage retirement and the decommission jobs between them
  (\<^verbatim>\<open>internal/cluster/storage_obligations.go\<close>, \<^verbatim>\<open>node_storage_retirement.go\<close>, the operations
  \<^verbatim>\<open>opSetNodeDrainState\<close>, \<^verbatim>\<open>opReportStorageObligations\<close>, \<^verbatim>\<open>opRetireNodeStorage\<close> and
  \<^verbatim>\<open>opRevokeNodeStorage\<close> of \<^verbatim>\<open>fsm.go\<close>).  A drained node that is owed a wipe has one open job; owners report
  what they still owe and every report replaces the owner's previous one.  Shown: a debt to a drained node is
  always on the board until the node stays or its storage is attested destroyed, and a job that
  reads as ready has no copy, no debt and no silent reporter behind it.

  Times are nanoseconds.  \<^verbatim>\<open>normalizeOwed\<close> ranges over a Go map; where two keys trim to the same node id the
  model keeps the entry of the larger key, one of the orders the runtime may choose.
\<close>

section \<open>State\<close>

record StorageObligationReport =
  srReporter :: string
  srSeq :: nat
  srObservedUnixNano :: int
  srOwed :: "string \<rightharpoonup> int"
  srReceivedUnixNano :: int

record StorageObligation =
  soNodeID :: string
  soOpenedUnixNano :: int

record NodeStorageRetirement =
  nrNodeID :: string
  nrActor :: string
  nrReason :: string
  nrAttestedUnixNano :: int

record storageState =
  drainedNodes :: "string set"
  storageRetirements :: "string \<rightharpoonup> NodeStorageRetirement"
  storageObligations :: "string \<rightharpoonup> StorageObligation"
  obligationReports :: "string \<rightharpoonup> StorageObligationReport"

definition newStorageState :: storageState where
  "newStorageState = \<lparr>drainedNodes = {}, storageRetirements = Map.empty, storageObligations = Map.empty,
                      obligationReports = Map.empty\<rparr>"

definition minuteNano :: int where "minuteNano = 60 * 10 ^ 9"
definition obligationReportInterval :: int where "obligationReportInterval = 30 * 10 ^ 9"
definition obligationReportRefresh :: int where "obligationReportRefresh = 5 * minuteNano"
definition obligationStaleAfter :: int where "obligationStaleAfter = 3 * obligationReportRefresh"
definition obligationIdleReportTTL :: int where "obligationIdleReportTTL = 24 * 60 * minuteNano"

text \<open>Go's read of a map of counts: zero when the key is absent.\<close>

definition owedAt :: "(string \<rightharpoonup> int) \<Rightarrow> string \<Rightarrow> int" where
  "owedAt m n = (case m n of None \<Rightarrow> 0 | Some c \<Rightarrow> c)"

definition owedEntry :: "(string \<rightharpoonup> int) \<Rightarrow> string \<Rightarrow> (string \<rightharpoonup> int) \<Rightarrow> (string \<rightharpoonup> int)" where
  "owedEntry m i out = (if trimSpace i \<noteq> [] \<and> owedAt m i > 0 then out(trimSpace i \<mapsto> owedAt m i) else out)"

definition normalizeOwed :: "(string \<rightharpoonup> int) \<Rightarrow> (string \<rightharpoonup> int)" where
  "normalizeOwed m = fold (owedEntry m) (sorted_list_of_set (dom m)) Map.empty"

definition owedEqual :: "(string \<rightharpoonup> int) \<Rightarrow> (string \<rightharpoonup> int) \<Rightarrow> bool" where
  "owedEqual a b = (let a = normalizeOwed a; b = normalizeOwed b
     in card (dom a) = card (dom b) \<and> (\<forall>k \<in> dom a. owedAt b k = owedAt a k))"

section \<open>Operations\<close>

definition nodeHoldsSecretCopyLocked :: "(string \<rightharpoonup> Placement) \<Rightarrow> string \<Rightarrow> bool" where
  "nodeHoldsSecretCopyLocked placements nodeID \<longleftrightarrow> (\<exists>p \<in> ran placements. nodeID \<in> set (pSecretRecipients p))"

definition nodeOwedByReportsLocked :: "string \<Rightarrow> storageState \<Rightarrow> bool" where
  "nodeOwedByReportsLocked nodeID s \<longleftrightarrow> (\<exists>r \<in> ran (obligationReports s). owedAt (srOwed r) nodeID > 0)"

definition openJob :: "string \<Rightarrow> int \<Rightarrow> storageState \<Rightarrow> storageState" where
  "openJob nodeID stamp s =
     s\<lparr>storageObligations := (storageObligations s)(nodeID \<mapsto> \<lparr>soNodeID = nodeID, soOpenedUnixNano = stamp\<rparr>)\<rparr>"

definition applyDrainObligationLocked ::
  "(string \<rightharpoonup> Placement) \<Rightarrow> string \<Rightarrow> bool \<Rightarrow> int \<Rightarrow> storageState \<Rightarrow> storageState" where
  "applyDrainObligationLocked placements nodeID drained stamp s =
     (if \<not> drained then s\<lparr>storageObligations := (storageObligations s)(nodeID := None)\<rparr>
      else if storageObligations s nodeID \<noteq> None then s
      else if \<not> nodeHoldsSecretCopyLocked placements nodeID \<and> \<not> nodeOwedByReportsLocked nodeID s then s
      else openJob nodeID stamp s)"

definition opSetNodeDrainState ::
  "(string \<rightharpoonup> Placement) \<Rightarrow> string \<Rightarrow> bool \<Rightarrow> int \<Rightarrow> storageState \<Rightarrow> fsmError option \<times> storageState" where
  "opSetNodeDrainState placements nodeID drained stamp s =
     (if nodeID = [] then (Some ErrMalformed, s)
      else let s = s\<lparr>drainedNodes := (if drained then insert nodeID (drainedNodes s) else drainedNodes s - {nodeID})\<rparr>
           in (None, applyDrainObligationLocked placements nodeID drained stamp s))"

definition closeObligationLocked :: "string \<Rightarrow> storageState \<Rightarrow> storageState" where
  "closeObligationLocked nodeID s = s\<lparr>storageObligations := (storageObligations s)(nodeID := None)\<rparr>"

text \<open>The jobs an accepted report opens: drained nodes it names that have none.\<close>

definition openOwedJobs :: "(string \<rightharpoonup> int) \<Rightarrow> int \<Rightarrow> storageState \<Rightarrow> storageState" where
  "openOwedJobs owed stamp s =
     s\<lparr>storageObligations := (\<lambda>n. if n \<in> dom owed \<and> n \<in> drainedNodes s \<and> storageObligations s n = None
                                  then Some \<lparr>soNodeID = n, soOpenedUnixNano = stamp\<rparr>
                                  else storageObligations s n)\<rparr>"

definition applyObligationReport :: "int \<Rightarrow> StorageObligationReport \<Rightarrow> storageState \<Rightarrow> storageState" where
  "applyObligationReport stamp r s =
     (let reporter = trimSpace (srReporter r)
      in if reporter = [] then s
         else if (case obligationReports s reporter of None \<Rightarrow> False | Some prev \<Rightarrow> srSeq r \<le> srSeq prev) then s
         else let r = r\<lparr>srReporter := reporter, srOwed := normalizeOwed (srOwed r), srReceivedUnixNano := stamp\<rparr>
              in openOwedJobs (srOwed r) stamp (s\<lparr>obligationReports := (obligationReports s)(reporter \<mapsto> r)\<rparr>))"

definition pruneIdleReports :: "int \<Rightarrow> storageState \<Rightarrow> storageState" where
  "pruneIdleReports stamp s =
     (if stamp > 0
      then s\<lparr>obligationReports := (\<lambda>i. case obligationReports s i of
               None \<Rightarrow> None
             | Some r \<Rightarrow> if dom (srOwed r) = {} \<and> srReceivedUnixNano r < stamp - obligationIdleReportTTL then None else Some r)\<rparr>
      else s)"

definition applyObligationReportsLocked :: "StorageObligationReport list \<Rightarrow> int \<Rightarrow> storageState \<Rightarrow> storageState" where
  "applyObligationReportsLocked reports stamp s = pruneIdleReports stamp (fold (applyObligationReport stamp) reports s)"

text \<open>The part of \<^verbatim>\<open>opRetireNodeStorage\<close> on this state; the operation also withdraws the node's artifact coverage.\<close>

definition opRetireNodeStorage :: "string \<Rightarrow> NodeStorageRetirement option \<Rightarrow> storageState \<Rightarrow> fsmError option \<times> storageState" where
  "opRetireNodeStorage node retirement s =
     (let nodeID = trimSpace node
      in if nodeID = [] then (Some ErrMalformed, s)
         else (case retirement of
                 None \<Rightarrow> (Some ErrMalformed, s)
               | Some rec \<Rightarrow>
                   (None, closeObligationLocked nodeID
                            (s\<lparr>storageRetirements := (storageRetirements s)(nodeID \<mapsto> rec\<lparr>nrNodeID := nodeID\<rparr>)\<rparr>))))"

definition opRevokeNodeStorage :: "string \<Rightarrow> storageState \<Rightarrow> fsmError option \<times> storageState" where
  "opRevokeNodeStorage node s =
     (let nodeID = trimSpace node
      in if nodeID = [] then (Some ErrMalformed, s)
         else (None, s\<lparr>storageRetirements := (storageRetirements s)(nodeID := None)\<rparr>))"

definition obligationReport :: "string \<Rightarrow> storageState \<Rightarrow> StorageObligationReport option" where
  "obligationReport reporter s = obligationReports s reporter"

section \<open>The operator's view\<close>

record StorageObligationReporter =
  orNodeID :: string
  orOwed :: int
  orReportedAt :: "int option"
  orStale :: bool

record StorageObligationView =
  ovNodeID :: string
  ovOpenedAt :: "int option"
  ovHolders :: nat
  ovPendingDeletes :: int
  ovReporters :: "StorageObligationReporter list"
  ovStaleReporters :: "StorageObligationReporter list"
  ovComplete :: bool
  ovReadyForAttestation :: bool

definition reportFresh :: "int \<Rightarrow> StorageObligationReport \<Rightarrow> bool" where
  "reportFresh now r \<longleftrightarrow> srReceivedUnixNano r > 0 \<and> now - srReceivedUnixNano r \<le> obligationStaleAfter"

definition staleExpected :: "string list \<Rightarrow> int \<Rightarrow> storageState \<Rightarrow> StorageObligationReporter list" where
  "staleExpected expected now s =
     map (\<lambda>i. \<lparr>orNodeID = i, orOwed = 0, orReportedAt = map_option srReceivedUnixNano (obligationReports s i), orStale = True\<rparr>)
         (filter (\<lambda>i. case obligationReports s i of None \<Rightarrow> True | Some r \<Rightarrow> \<not> reportFresh now r) expected)"

definition containsReporter :: "StorageObligationReporter list \<Rightarrow> string \<Rightarrow> bool" where
  "containsReporter list i = list_ex (\<lambda>r. orNodeID r = i) list"

definition holderCount :: "(string \<rightharpoonup> Placement) \<Rightarrow> string \<Rightarrow> nat" where
  "holderCount placements nodeID =
     (\<Sum>i \<in> dom placements. count_list (pSecretRecipients (the (placements i))) nodeID)"

definition reporterEntry :: "string \<Rightarrow> int \<Rightarrow> storageState \<Rightarrow> string \<Rightarrow> StorageObligationReporter" where
  "reporterEntry nodeID now s i =
     (let r = the (obligationReports s i)
      in \<lparr>orNodeID = i, orOwed = owedAt (srOwed r) nodeID, orReportedAt = Some (srReceivedUnixNano r),
          orStale = (\<not> reportFresh now r)\<rparr>)"

definition owingReporters :: "string \<Rightarrow> storageState \<Rightarrow> string list" where
  "owingReporters nodeID s =
     sorted_list_of_set {i. \<exists>r. obligationReports s i = Some r \<and> owedAt (srOwed r) nodeID > 0}"

definition obligationView ::
  "(string \<rightharpoonup> Placement) \<Rightarrow> string list \<Rightarrow> int \<Rightarrow> storageState \<Rightarrow> StorageObligation \<Rightarrow> string \<Rightarrow> StorageObligationView" where
  "obligationView placements expected now s job nodeID =
     (let reporters = map (reporterEntry nodeID now s) (owingReporters nodeID s);
          stale = staleExpected expected now s;
          staleForJob = stale @ filter (\<lambda>e. orStale e \<and> \<not> containsReporter stale (orNodeID e)) reporters;
          holders = holderCount placements nodeID;
          pending = sum_list (map orOwed reporters)
      in \<lparr>ovNodeID = nodeID,
          ovOpenedAt = (if soOpenedUnixNano job > 0 then Some (soOpenedUnixNano job) else None),
          ovHolders = holders, ovPendingDeletes = pending, ovReporters = reporters,
          ovStaleReporters = sort_key orNodeID staleForJob, ovComplete = (staleForJob = []),
          ovReadyForAttestation = (staleForJob = [] \<and> holders = 0 \<and> pending = 0)\<rparr>)"

definition storageObligationViews ::
  "(string \<rightharpoonup> Placement) \<Rightarrow> string list \<Rightarrow> int \<Rightarrow> storageState \<Rightarrow> StorageObligationView list" where
  "storageObligationViews placements expected now s =
     map (\<lambda>n. obligationView placements expected now s (the (storageObligations s n)) n)
         (sorted_list_of_set (dom (storageObligations s)))"

section \<open>The leader's batch\<close>

type_synonym obligationBatcher = "string \<rightharpoonup> StorageObligationReport"

definition batcherAddOne :: "StorageObligationReport \<Rightarrow> obligationBatcher \<Rightarrow> obligationBatcher" where
  "batcherAddOne r b =
     (let i = trimSpace (srReporter r)
      in if i = [] then b
         else if (case b i of None \<Rightarrow> False | Some prev \<Rightarrow> srSeq prev \<ge> srSeq r) then b
         else b(i \<mapsto> r\<lparr>srReporter := i\<rparr>))"

definition batcherAdd :: "StorageObligationReport list \<Rightarrow> obligationBatcher \<Rightarrow> obligationBatcher" where
  "batcherAdd reports b = fold batcherAddOne reports b"

definition batcherTake :: "obligationBatcher \<Rightarrow> StorageObligationReport list \<times> obligationBatcher" where
  "batcherTake b = (sortedRows b, Map.empty)"

definition worthApplying :: "StorageObligationReport \<Rightarrow> StorageObligationReport option \<Rightarrow> int \<Rightarrow> bool" where
  "worthApplying r current now =
     (case current of
        None \<Rightarrow> True
      | Some cur \<Rightarrow>
          if srSeq r \<le> srSeq cur then False
          else if \<not> owedEqual (srOwed r) (srOwed cur) then True
          else now - srReceivedUnixNano cur \<ge> obligationReportRefresh - obligationReportInterval)"

text \<open>What the leader proposes from its queue: the reports worth a log entry, stamped with its clock.\<close>

definition flushObligationReports ::
  "int \<Rightarrow> storageState \<Rightarrow> obligationBatcher \<Rightarrow> (StorageObligationReport list \<times> int) option \<times> obligationBatcher" where
  "flushObligationReports now s b =
     (let (reports, b) = batcherTake b;
          keep = filter (\<lambda>r. worthApplying r (obligationReport (srReporter r) s) now) reports
      in (if keep = [] then None else Some (keep, now), b))"

section \<open>Debts to a drained node are on the board\<close>

datatype storageOp =
    StDrain "string \<rightharpoonup> Placement" string bool int
  | StReports "StorageObligationReport list" int
  | StRetire string "NodeStorageRetirement option"
  | StRevoke string

fun storageStep :: "storageOp \<Rightarrow> storageState \<Rightarrow> storageState" where
  "storageStep (StDrain placements node drained stamp) s = snd (opSetNodeDrainState placements node drained stamp s)"
| "storageStep (StReports reports stamp) s = applyObligationReportsLocked reports stamp s"
| "storageStep (StRetire node rec) s = snd (opRetireNodeStorage node rec s)"
| "storageStep (StRevoke node) s = snd (opRevokeNodeStorage node s)"

fun attests :: "string \<Rightarrow> storageOp \<Rightarrow> bool" where
  "attests n (StRetire node rec) = (trimSpace node = n)"
| "attests n _ = False"

definition debtVisible :: "string \<Rightarrow> storageState \<Rightarrow> bool" where
  "debtVisible n s \<longleftrightarrow> (n \<in> drainedNodes s \<and> nodeOwedByReportsLocked n s \<longrightarrow> storageObligations s n \<noteq> None)"

lemma owedAt_posD: "owedAt m n > 0 \<Longrightarrow> n \<in> dom m"
  by (auto simp: owedAt_def split: option.splits)

lemma openOwedJobs_fields [simp]:
  "drainedNodes (openOwedJobs owed stamp s) = drainedNodes s"
  "obligationReports (openOwedJobs owed stamp s) = obligationReports s"
  "storageObligations (openOwedJobs owed stamp s) n = None \<longleftrightarrow>
     storageObligations s n = None \<and> \<not> (n \<in> dom owed \<and> n \<in> drainedNodes s)"
  by (auto simp: openOwedJobs_def)

lemma debtVisible_open:
  assumes "n \<in> drainedNodes t \<Longrightarrow> nodeOwedByReportsLocked n t \<Longrightarrow> n \<notin> dom owed \<Longrightarrow> storageObligations t n \<noteq> None"
  shows "debtVisible n (openOwedJobs owed stamp t)"
proof -
  have "nodeOwedByReportsLocked n (openOwedJobs owed stamp t) = nodeOwedByReportsLocked n t"
    by (simp add: nodeOwedByReportsLocked_def)
  then show ?thesis unfolding debtVisible_def openOwedJobs_fields using assms by blast
qed

lemma nodeOwed_upd:
  "nodeOwedByReportsLocked n (s\<lparr>obligationReports := (obligationReports s)(i \<mapsto> r)\<rparr>) \<Longrightarrow>
   nodeOwedByReportsLocked n s \<or> n \<in> dom (srOwed r)"
  by (auto simp: nodeOwedByReportsLocked_def ran_def owedAt_def split: if_splits option.splits)

lemma debtVisible_report:
  assumes "debtVisible n s"
  shows "debtVisible n (applyObligationReport stamp r s)"
proof -
  have upd: "debtVisible n (openOwedJobs (srOwed q) stamp (s\<lparr>obligationReports := (obligationReports s)(i \<mapsto> q)\<rparr>))" for q i
  proof (rule debtVisible_open)
    let ?t = "s\<lparr>obligationReports := (obligationReports s)(i \<mapsto> q)\<rparr>"
    assume "n \<in> drainedNodes ?t" "nodeOwedByReportsLocked n ?t" "n \<notin> dom (srOwed q)"
    then show "storageObligations ?t n \<noteq> None"
      using assms nodeOwed_upd[of n s i q] by (auto simp: debtVisible_def)
  qed
  let ?i = "trimSpace (srReporter r)"
  show ?thesis unfolding applyObligationReport_def Let_def
    using assms upd[where q = "r\<lparr>srReporter := ?i, srOwed := normalizeOwed (srOwed r), srReceivedUnixNano := stamp\<rparr>" and i = ?i]
    by simp
qed

lemma debtVisible_prune: "debtVisible n s \<Longrightarrow> debtVisible n (pruneIdleReports stamp s)"
  by (auto simp: pruneIdleReports_def debtVisible_def nodeOwedByReportsLocked_def ran_def split: option.splits if_splits)

lemma debtVisible_step:
  assumes "debtVisible n s" and "\<not> attests n op"
  shows "debtVisible n (storageStep op s)"
proof (cases op)
  case (StDrain placements node drained stamp)
  then show ?thesis using assms
    by (auto simp: opSetNodeDrainState_def applyDrainObligationLocked_def openJob_def Let_def debtVisible_def
        nodeOwedByReportsLocked_def)
next
  case (StReports reports stamp)
  have "debtVisible n (fold (applyObligationReport stamp) reports s)"
    using assms(1) by (induction reports arbitrary: s) (simp_all add: debtVisible_report)
  then show ?thesis using StReports by (simp add: applyObligationReportsLocked_def debtVisible_prune)
next
  case (StRetire node rec)
  then show ?thesis using assms
    by (auto simp: opRetireNodeStorage_def closeObligationLocked_def Let_def debtVisible_def nodeOwedByReportsLocked_def
        split: option.split)
next
  case (StRevoke node)
  then show ?thesis using assms
    by (simp add: opRevokeNodeStorage_def Let_def debtVisible_def nodeOwedByReportsLocked_def)
qed

lemma debtVisible_run:
  "list_all (\<lambda>op. \<not> attests n op) ops \<Longrightarrow> debtVisible n s \<Longrightarrow> debtVisible n (fold storageStep ops s)"
  by (induction ops arbitrary: s) (simp_all add: debtVisible_step)

text \<open>Property C40. Silence never hides a wipe that is owed.  In any history of drains, uncordons, owner reports (retried,
  reordered or pruned) and attestations about other nodes, if a node is drained and some owner's current report still owes it
  deletes, then a decommission job for that node is open, whichever of the drain and the debt came first.\<close>

theorem drained_debt_is_visible:
  assumes "list_all (\<lambda>op. \<not> attests n op) ops" and "s = fold storageStep ops newStorageState"
    and "n \<in> drainedNodes s" and "nodeOwedByReportsLocked n s"
  shows "\<exists>job. storageObligations s n = Some job"
proof -
  have "debtVisible n newStorageState" by (simp add: debtVisible_def newStorageState_def)
  from debtVisible_run[OF assms(1) this] show ?thesis using assms(2-4) by (auto simp: debtVisible_def)
qed

definition storageExampleReport :: StorageObligationReport where
  "storageExampleReport = \<lparr>srReporter = ''w1'', srSeq = 1, srObservedUnixNano = 0, srOwed = [''n1'' \<mapsto> 2],
                           srReceivedUnixNano = 0\<rparr>"

lemma normalizeOwed_single: "trimSpace i = i \<Longrightarrow> i \<noteq> [] \<Longrightarrow> c > 0 \<Longrightarrow> normalizeOwed [i \<mapsto> c] = [i \<mapsto> c]"
  by (simp add: normalizeOwed_def owedEntry_def owedAt_def)

theorem drained_debt_is_visible_witness:
  "\<exists>job. storageObligations (fold storageStep [StDrain Map.empty ''n1'' True 5, StReports [storageExampleReport] 7]
            newStorageState) ''n1'' = Some job"
  by (rule drained_debt_is_visible[where n = "''n1''", OF _ refl])
    (auto simp: opSetNodeDrainState_def applyDrainObligationLocked_def applyObligationReportsLocked_def
      applyObligationReport_def pruneIdleReports_def openOwedJobs_def storageExampleReport_def normalizeOwed_single visibleChar_def
      newStorageState_def nodeOwedByReportsLocked_def nodeHoldsSecretCopyLocked_def owedAt_def ran_def Let_def)

section \<open>Ready means ready\<close>

lemma staleExpected_Nil:
  "staleExpected expected now s = [] \<longleftrightarrow>
   (\<forall>i \<in> set expected. \<exists>r. obligationReports s i = Some r \<and> reportFresh now r)"
  by (auto simp: staleExpected_def filter_empty_conv split: option.splits)

lemma holderCount_zero:
  assumes "finite (dom placements)" and "holderCount placements n = 0" and "placements i = Some p"
  shows "n \<notin> set (pSecretRecipients p)"
proof -
  have "\<forall>a \<in> dom placements. count_list (pSecretRecipients (the (placements a))) n = 0"
    using assms(1,2) by (simp add: holderCount_def)
  moreover have "i \<in> dom placements" using assms(3) by blast
  ultimately have "count_list (pSecretRecipients (the (placements i))) n = 0" by blast
  then show ?thesis using assms(3) by (simp add: count_list_0_iff)
qed

lemma pending_zero:
  assumes "finite (dom (obligationReports s))" and "sum_list (map (\<lambda>i. orOwed (reporterEntry n now s i)) (owingReporters n s)) = 0"
    and "obligationReports s i = Some r"
  shows "owedAt (srOwed r) n \<le> 0"
proof (rule ccontr)
  assume pos: "\<not> owedAt (srOwed r) n \<le> 0"
  have fin: "finite {i. \<exists>r. obligationReports s i = Some r \<and> owedAt (srOwed r) n > 0}"
    by (rule finite_subset[OF _ assms(1)]) auto
  have mem: "i \<in> set (owingReporters n s)" using pos assms(3) by (simp add: owingReporters_def fin)
  have nn: "0 \<le> orOwed (reporterEntry n now s j)" if "j \<in> set (owingReporters n s)" for j
    using that by (auto simp: owingReporters_def fin reporterEntry_def Let_def)
  have "orOwed (reporterEntry n now s i) \<le> sum_list (map (\<lambda>i. orOwed (reporterEntry n now s i)) (owingReporters n s))"
    using mem nn by (intro member_le_sum_list) auto
  then show False using assms(2,3) pos by (simp add: reporterEntry_def)
qed

text \<open>A job that reads as ready for attestation has nothing behind it: no placement row lists the node as a
  holder of a sealed copy, every expected reporter has reported within the staleness bound, and no owner's current report
  owes the node a delete.\<close>

theorem ready_job_is_clear:
  assumes "finite (dom placements)" and "finite (dom (obligationReports s))" and "finite (dom (storageObligations s))"
    and "v \<in> set (storageObligationViews placements expected now s)" and "ovReadyForAttestation v"
  shows "\<not> nodeHoldsSecretCopyLocked placements (ovNodeID v) \<and> \<not> nodeOwedByReportsLocked (ovNodeID v) s \<and>
    (\<forall>i \<in> set expected. \<exists>r. obligationReports s i = Some r \<and> reportFresh now r)"
proof -
  obtain n where v: "v = obligationView placements expected now s (the (storageObligations s n)) n"
    using assms(3,4) by (auto simp: storageObligationViews_def)
  have n: "ovNodeID v = n" by (simp add: v obligationView_def Let_def)
  have "staleExpected expected now s = []" "holderCount placements n = 0"
    "sum_list (map (\<lambda>i. orOwed (reporterEntry n now s i)) (owingReporters n s)) = 0"
    using assms(5) by (simp_all add: v obligationView_def Let_def comp_def)
  note clear = this
  have "\<not> nodeHoldsSecretCopyLocked placements n"
    using holderCount_zero[OF assms(1) clear(2)] by (auto simp: nodeHoldsSecretCopyLocked_def ran_def)
  moreover have "\<not> nodeOwedByReportsLocked n s"
    using pending_zero[OF assms(2) clear(3)] by (force simp: nodeOwedByReportsLocked_def ran_def)
  ultimately show ?thesis using clear(1) unfolding n staleExpected_Nil by blast
qed

definition storageExample :: storageState where
  "storageExample = newStorageState\<lparr>storageObligations := [''n1'' \<mapsto> \<lparr>soNodeID = ''n1'', soOpenedUnixNano = 5\<rparr>],
     obligationReports := [''w1'' \<mapsto> storageExampleReport\<lparr>srOwed := Map.empty, srReceivedUnixNano := 7\<rparr>]\<rparr>"

theorem ready_job_is_clear_witness:
  "\<not> nodeOwedByReportsLocked ''n1'' storageExample \<and> reportFresh 8 (the (obligationReports storageExample ''w1''))"
proof -
  let ?v = "obligationView Map.empty [''w1''] 8 storageExample \<lparr>soNodeID = ''n1'', soOpenedUnixNano = 5\<rparr> ''n1''"
  have mem: "?v \<in> set (storageObligationViews Map.empty [''w1''] 8 storageExample)"
    by (simp add: storageObligationViews_def storageExample_def)
  have none: "owingReporters ''n1'' storageExample = []"
  proof -
    have "{i. \<exists>r. obligationReports storageExample i = Some r \<and> owedAt (srOwed r) ''n1'' > 0} = {}"
      by (auto simp: storageExample_def owedAt_def)
    then show ?thesis unfolding owingReporters_def by (simp only: sorted_list_of_set_empty)
  qed
  have ready: "ovReadyForAttestation ?v"
    unfolding obligationView_def Let_def none
    by (simp add: storageExample_def staleExpected_def reportFresh_def obligationStaleAfter_def
        obligationReportRefresh_def minuteNano_def holderCount_def)
  have node: "ovNodeID ?v = ''n1''" by (simp add: obligationView_def Let_def)
  have fin: "finite (dom (Map.empty :: string \<rightharpoonup> Placement))" "finite (dom (obligationReports storageExample))"
    "finite (dom (storageObligations storageExample))" by (simp_all add: storageExample_def)
  show ?thesis using ready_job_is_clear[OF fin mem ready] unfolding node by auto
qed

end
