(* ===== verification/Commands.thy ===== *)
theory Commands
  imports Secret_Handles Shards Egress_Profiles Team_Quotas Warm_Pools Volumes API_Tokens Identity
    Artifact_Catalog Storage_Obligations
begin

text \<open>
  The commands of the replicated log (\<^verbatim>\<open>command\<close>, \<^verbatim>\<open>reservationCommand\<close> and the functions on them in
  \<^verbatim>\<open>internal/cluster/fsm.go\<close>), with the check a proposer makes before a command enters the log.  The
  chunk of an artifact publication is one field here; its node is the command's \<^verbatim>\<open>NodeID\<close>.
\<close>

section \<open>Commands\<close>

datatype opCode =
    OpPlace | OpDelete | OpReassign | OpUpsertSpec | OpAddExposedPort | OpRemoveExposedPort | OpReserve
  | OpCancelReserve | OpSetNodeDrainState | OpOrphanOwner | OpClaimOrphan | OpReserveBatch | OpAddCustomDomain
  | OpRemoveCustomDomain | OpUpsertVolume | OpDeleteVolume | OpPutVolumeAttach | OpDeleteVolumeAttach
  | OpPruneAuditACL | OpUpdateSecretRecipients | OpBeginDelete | OpRetireNodeStorage | OpRevokeNodeStorage
  | OpPublishArtifactCatalog | OpAllocateArtifactEpoch | OpReportStorageObligations | OpPutEgressProfile
  | OpDeleteEgressProfile | OpRegisterSnapshotNode | OpForgetSnapshotNode | OpPutAPIToken | OpDeleteAPIToken
  | OpPutWarmPool | OpDeleteWarmPool | OpPutIdentityKeys | OpPutIdentityRole | OpDeleteIdentityRole
  | OpPutTeamQuota | OpDeleteTeamQuota | OpAckVolumeReclaim | OpClaimVolumeReclaim | OpUnknown

record reservationCommand =
  rcSandboxID :: string
  rcOwnerNodeID :: string
  rcOwnerAPIURL :: string
  rcOwnerDataPlaneHost :: string
  rcSpec :: "CreateSandboxRequest option"
  rcSecretRef :: string
  rcSecretVersion :: int
  rcSecretSealGeneration :: int
  rcSecretRecipients :: "string list"
  rcIncarnationID :: string
  rcOwnerRef :: string
  rcExpiresUnix :: int

record command =
  cmOp :: opCode
  cmSandboxID :: string
  cmOwnerNodeID :: string
  cmOwnerAPIURL :: string
  cmOwnerDataPlaneHost :: string
  cmSpec :: "CreateSandboxRequest option"
  cmSecretRef :: string
  cmSecretVersion :: int
  cmSecretRecipients :: "string list"
  cmIncarnationID :: string
  cmSecretSealGeneration :: int
  cmExpectedIncarnationID :: string
  cmExpectedOwnerNodeID :: string
  cmExpectedOwnerNodeIDSet :: bool
  cmExpectedSealGeneration :: int
  cmOwnerRef :: string
  cmPort :: int
  cmProtocol :: string
  cmHostPort :: int
  cmPublicURL :: string
  cmVisibility :: string
  cmExpiresUnix :: int
  cmAuditIndexMax :: int
  cmArtifactChunk :: artifactChunk
  cmArtifactHolder :: string
  cmStorageRetirement :: "NodeStorageRetirement option"
  cmObligationReports :: "StorageObligationReport list"
  cmStampUnixNano :: int
  cmNodeID :: string
  cmDrained :: bool
  cmHostname :: string
  cmReassignCause :: string
  cmReservations :: "reservationCommand list"
  cmVolume :: "Volume option"
  cmVolumeTenant :: string
  cmVolumeID :: string
  cmMaxPerTenant :: int
  cmVolumeAttachments :: "VolumeAttachment list"
  cmVolumeSandboxID :: string
  cmVolumeReclaimNodeID :: string
  cmVolumeReclaimSource :: string
  cmVolumeReclaim :: "VolumeReclaim option"
  cmEgressProfile :: "EgressProfileRecord option"
  cmSnapshotName :: string
  cmAPIToken :: "TokenRecord option"
  cmAPITokenID :: string
  cmWarmPool :: "WarmPoolRecord option"
  cmIdentityKeys :: "IdentityKeysWrite option"
  cmIdentityRole :: "IdentityRoleRecord option"
  cmTeamQuota :: "TeamQuotaRecord option"

text \<open>Go's zero value of the struct, under an operation code.\<close>

definition zeroCommand :: "opCode \<Rightarrow> command" where
  "zeroCommand code =
     \<lparr>cmOp = code, cmSandboxID = [], cmOwnerNodeID = [], cmOwnerAPIURL = [], cmOwnerDataPlaneHost = [], cmSpec = None,
      cmSecretRef = [], cmSecretVersion = 0, cmSecretRecipients = [], cmIncarnationID = [], cmSecretSealGeneration = 0,
      cmExpectedIncarnationID = [], cmExpectedOwnerNodeID = [], cmExpectedOwnerNodeIDSet = False,
      cmExpectedSealGeneration = 0, cmOwnerRef = [], cmPort = 0, cmProtocol = [], cmHostPort = 0, cmPublicURL = [],
      cmVisibility = [], cmExpiresUnix = 0, cmAuditIndexMax = 0,
      cmArtifactChunk = \<lparr>chKind = [], chNodeID = [], chEpoch = 0, chRevision = 0, chRows = [], chFirst = False,
                         chFinal = False, chWithdraw = False\<rparr>,
      cmArtifactHolder = [], cmStorageRetirement = None, cmObligationReports = [], cmStampUnixNano = 0, cmNodeID = [],
      cmDrained = False, cmHostname = [], cmReassignCause = [], cmReservations = [], cmVolume = None, cmVolumeTenant = [],
      cmVolumeID = [], cmMaxPerTenant = 0, cmVolumeAttachments = [], cmVolumeSandboxID = [], cmVolumeReclaimNodeID = [],
      cmVolumeReclaimSource = [], cmVolumeReclaim = None, cmEgressProfile = None, cmSnapshotName = [], cmAPIToken = None,
      cmAPITokenID = [], cmWarmPool = None, cmIdentityKeys = None, cmIdentityRole = None, cmTeamQuota = None\<rparr>"

definition placementSecrets :: "command \<Rightarrow> PlacementSecrets" where
  "placementSecrets c = \<lparr>psRef = cmSecretRef c, psVersion = cmSecretVersion c, psRecipients = [], psOwnerRef = [],
                        psIncarnationID = cmIncarnationID c, psSealGeneration = cmSecretSealGeneration c\<rparr>"

definition hasSecretUpdate :: "command \<Rightarrow> bool" where
  "hasSecretUpdate c = hasUpdate (placementSecrets c)"

definition applyCommandSecretUpdate :: "Placement option \<Rightarrow> command \<Rightarrow> PlacementSecrets" where
  "applyCommandSecretUpdate existing cmd =
     (case existing of
        Some p \<Rightarrow> if \<not> hasSecretUpdate cmd then secretsFromPlacement p else placementSecrets cmd
      | None \<Rightarrow> placementSecrets cmd)"

section \<open>Reservations\<close>

definition reservationFromCommand :: "command \<Rightarrow> reservationCommand" where
  "reservationFromCommand c =
     \<lparr>rcSandboxID = cmSandboxID c, rcOwnerNodeID = cmOwnerNodeID c, rcOwnerAPIURL = cmOwnerAPIURL c,
      rcOwnerDataPlaneHost = cmOwnerDataPlaneHost c, rcSpec = cmSpec c, rcSecretRef = cmSecretRef c,
      rcSecretVersion = cmSecretVersion c, rcSecretSealGeneration = cmSecretSealGeneration c,
      rcSecretRecipients = cmSecretRecipients c, rcIncarnationID = cmIncarnationID c, rcOwnerRef = cmOwnerRef c,
      rcExpiresUnix = cmExpiresUnix c\<rparr>"

definition commandFromReservation :: "reservationCommand \<Rightarrow> command" where
  "commandFromReservation r =
     (zeroCommand OpReserve)\<lparr>cmSandboxID := rcSandboxID r, cmOwnerNodeID := rcOwnerNodeID r,
       cmOwnerAPIURL := rcOwnerAPIURL r, cmOwnerDataPlaneHost := rcOwnerDataPlaneHost r, cmSpec := rcSpec r,
       cmSecretRef := rcSecretRef r, cmSecretVersion := rcSecretVersion r,
       cmSecretSealGeneration := rcSecretSealGeneration r, cmSecretRecipients := rcSecretRecipients r,
       cmIncarnationID := rcIncarnationID r, cmOwnerRef := rcOwnerRef r, cmExpiresUnix := rcExpiresUnix r\<rparr>"

definition reservationCommands :: "command \<Rightarrow> reservationCommand list" where
  "reservationCommands c = (if cmOp c = OpReserveBatch then cmReservations c else [reservationFromCommand c])"

section \<open>The proposer's check\<close>

definition requireIncarnation :: "string \<Rightarrow> string \<Rightarrow> fsmError option" where
  "requireIncarnation sandboxID incarnationID =
     (if trimSpace sandboxID = [] \<or> trimSpace incarnationID = [] then Some ErrIncarnationConflict else None)"

definition validateSecret :: "command \<Rightarrow> fsmError option" where
  "validateSecret cmd =
     (if \<not> hasSecretUpdate cmd then None else validatePlacementSecretHandle (cmSandboxID cmd) (placementSecrets cmd))"

text \<open>The first error of a sequence of checks.\<close>

definition orElse :: "'e option \<Rightarrow> 'e option \<Rightarrow> 'e option" where
  "orElse a b = (case a of None \<Rightarrow> b | Some e \<Rightarrow> Some e)"

fun firstOf :: "'e option list \<Rightarrow> 'e option" where
  "firstOf [] = None"
| "firstOf (c # cs) = orElse c (firstOf cs)"

definition validateReservation :: "reservationCommand \<Rightarrow> fsmError option" where
  "validateReservation r =
     (let cmd = commandFromReservation r
      in orElse (requireIncarnation (cmSandboxID cmd) (cmIncarnationID cmd)) (validateSecret cmd))"

definition validateCommandLifecycle :: "command \<Rightarrow> fsmError option" where
  "validateCommandLifecycle c =
     (case cmOp c of
        OpPlace \<Rightarrow> orElse (requireIncarnation (cmSandboxID c) (cmIncarnationID c)) (validateSecret c)
      | OpReserve \<Rightarrow> orElse (requireIncarnation (cmSandboxID c) (cmIncarnationID c)) (validateSecret c)
      | OpReserveBatch \<Rightarrow> firstOf (map validateReservation (cmReservations c))
      | OpClaimOrphan \<Rightarrow> orElse (requireIncarnation (cmSandboxID c) (cmIncarnationID c)) (validateSecret c)
      | OpDelete \<Rightarrow> requireIncarnation (cmSandboxID c) (cmExpectedIncarnationID c)
      | OpBeginDelete \<Rightarrow> requireIncarnation (cmSandboxID c) (cmExpectedIncarnationID c)
      | OpCancelReserve \<Rightarrow> requireIncarnation (cmSandboxID c) (cmExpectedIncarnationID c)
      | OpReassign \<Rightarrow> requireIncarnation (cmSandboxID c) (cmExpectedIncarnationID c)
      | OpAddExposedPort \<Rightarrow> requireIncarnation (cmSandboxID c) (cmExpectedIncarnationID c)
      | OpRemoveExposedPort \<Rightarrow> requireIncarnation (cmSandboxID c) (cmExpectedIncarnationID c)
      | OpAddCustomDomain \<Rightarrow> requireIncarnation (cmSandboxID c) (cmExpectedIncarnationID c)
      | OpRemoveCustomDomain \<Rightarrow> requireIncarnation (cmSandboxID c) (cmExpectedIncarnationID c)
      | OpPutVolumeAttach \<Rightarrow> firstOf (map (\<lambda>a. requireIncarnation (vaSandboxID a) (vaIncarnationID a)) (cmVolumeAttachments c))
      | OpDeleteVolumeAttach \<Rightarrow> requireIncarnation (cmVolumeSandboxID c) (cmExpectedIncarnationID c)
      | OpUpsertSpec \<Rightarrow>
          if cmSpec c = None \<and> \<not> hasSecretUpdate c then None
          else firstOf [requireIncarnation (cmSandboxID c) (cmExpectedIncarnationID c),
                 (if hasSecretUpdate c \<and> trimSpace (cmIncarnationID c) \<noteq> trimSpace (cmExpectedIncarnationID c)
                  then Some ErrIncarnationConflict else None),
                 validateSecret c]
      | OpUpdateSecretRecipients \<Rightarrow>
          validateSecretRecipientUpdate (cmSandboxID c) (cmSecretRecipients c) (placementSecrets c)
            (cmExpectedIncarnationID c) (cmExpectedSealGeneration c)
      | _ \<Rightarrow> None)"

lemma orElse_None [simp]: "orElse a b = None \<longleftrightarrow> a = None \<and> b = None"
  by (simp add: orElse_def split: option.split)

lemma firstOf_None [simp]: "firstOf cs = None \<longleftrightarrow> (\<forall>c \<in> set cs. c = None)"
  by (induction cs) auto

lemma firstOf_Some: "firstOf cs = Some e \<Longrightarrow> Some e \<in> set cs"
  by (induction cs) (auto simp: orElse_def split: option.splits)

lemma requireIncarnation_None [simp]:
  "requireIncarnation i inc = None \<longleftrightarrow> trimSpace i \<noteq> [] \<and> trimSpace inc \<noteq> []"
  by (simp add: requireIncarnation_def)

text \<open>A reservation survives the trip through a command, so a batch of one is the single reservation.\<close>

lemma reservation_roundtrip [simp]: "reservationFromCommand (commandFromReservation r) = r"
  by (simp add: reservationFromCommand_def commandFromReservation_def zeroCommand_def)

end
