(* ===== verification/Recovery.thy ===== *)
theory Recovery
  imports Commands
begin

text \<open>
  Hot rows and recovery payloads (\<^verbatim>\<open>splitPlacement\<close>, \<^verbatim>\<open>attachPlacementRecovery\<close> and the row types of
  \<^verbatim>\<open>internal/cluster/fsm.go\<close>, the in-memory store of \<^verbatim>\<open>recovery_store.go\<close>).  The placement table keeps rows
  without the create spec and the secret handle; those live in a content-addressed store behind
  \<^verbatim>\<open>RecoveryRef\<close>.

  Three functions the state machine calls are parameters, collected in \<^verbatim>\<open>fsmEnv\<close>: the content address of a
  recovery record (JSON and SHA-256), the number of hostnames in an allow list, and the thumbprint of a signing key.
\<close>

record placementRecovery =
  prSpec :: "CreateSandboxRequest option"
  prSecretRef :: string
  prSecretVersion :: int

record fsmEnv =
  envRecoveryRef :: "string \<Rightarrow> placementRecovery \<Rightarrow> string"
  envCountHostnames :: "string list \<Rightarrow> int option"
  envKeyID :: "string \<Rightarrow> string option"

definition recoveryEmpty :: "placementRecovery \<Rightarrow> bool" where
  "recoveryEmpty r \<longleftrightarrow> prSpec r = None \<and> prSecretRef r = [] \<and> prSecretVersion r = 0"

definition attachPlacementRecovery :: "Placement \<Rightarrow> placementRecovery \<Rightarrow> Placement" where
  "attachPlacementRecovery p rec = p\<lparr>pSpec := prSpec rec, pSecretRef := prSecretRef rec, pSecretVersion := prSecretVersion rec\<rparr>"

text \<open>The fields of the hot row that are recomputed while a spec is at hand.\<close>

definition fieldsFromSpec :: "fsmEnv \<Rightarrow> Placement \<Rightarrow> Placement" where
  "fieldsFromSpec env p =
     (case pSpec p of
        None \<Rightarrow> p
      | Some s \<Rightarrow>
          let p = p\<lparr>pPublicTraffic := (srAllowPublicTraffic s = Some True),
                    pEgressProfiles := srEgressProfiles s,
                    pEgressInlineHostnames := egressInlineHostnames (envCountHostnames env) (Some s)\<rparr>
          in if TeamOfOwnerRef (pOwnerRef p) \<noteq> []
             then let (cpu, mem) = QuotaSize (srCPU s) (srMemoryMB s) in p\<lparr>pQuotaCPU := cpu, pQuotaMemoryMB := mem\<rparr>
             else p)"

definition splitPlacement :: "fsmEnv \<Rightarrow> Placement \<Rightarrow> Placement \<times> placementRecovery" where
  "splitPlacement env p =
     (let rec = \<lparr>prSpec = pSpec p, prSecretRef = pSecretRef p, prSecretVersion = pSecretVersion p\<rparr>;
          p = (if pName p = [] then p\<lparr>pName := specName (pSpec p)\<rparr> else p);
          p = fieldsFromSpec env p
      in (p\<lparr>pSpec := None, pSecretRef := [], pSecretVersion := 0\<rparr>, rec))"

section \<open>The in-memory store\<close>

type_synonym recoveryStore = "string \<rightharpoonup> string \<times> placementRecovery"

definition storePut :: "fsmEnv \<Rightarrow> string \<Rightarrow> placementRecovery \<Rightarrow> recoveryStore \<Rightarrow> (fsmError + string) \<times> recoveryStore" where
  "storePut env sandboxID rec st =
     (if trimSpace sandboxID = [] then (Inl ErrRecoveryStore, st)
      else let ref = envRecoveryRef env sandboxID rec in (Inr ref, st(ref \<mapsto> (sandboxID, rec))))"

definition storeGet :: "string \<Rightarrow> recoveryStore \<Rightarrow> placementRecovery option" where
  "storeGet ref st = map_option snd (st ref)"

definition storeDelete :: "string \<Rightarrow> recoveryStore \<Rightarrow> recoveryStore" where
  "storeDelete ref st = st(ref := None)"

section \<open>Lemmas\<close>

definition hotPart :: "fsmEnv \<Rightarrow> Placement \<Rightarrow> Placement" where
  "hotPart env p = fst (splitPlacement env p)"

lemma fieldsFromSpec_keeps [simp]:
  "pSandboxID (fieldsFromSpec env p) = pSandboxID p" "pOwnerNodeID (fieldsFromSpec env p) = pOwnerNodeID p"
  "pOwnerState (fieldsFromSpec env p) = pOwnerState p" "pName (fieldsFromSpec env p) = pName p"
  "pRecoveryRef (fieldsFromSpec env p) = pRecoveryRef p" "pOwnerRef (fieldsFromSpec env p) = pOwnerRef p"
  "pIncarnationID (fieldsFromSpec env p) = pIncarnationID p" "pState (fieldsFromSpec env p) = pState p"
  "pExpiresUnix (fieldsFromSpec env p) = pExpiresUnix p" "pCustomHostnames (fieldsFromSpec env p) = pCustomHostnames p"
  "pExposedPorts (fieldsFromSpec env p) = pExposedPorts p" "pExposedPortRoutes (fieldsFromSpec env p) = pExposedPortRoutes p"
  "pSpec (fieldsFromSpec env p) = pSpec p" "pVersion (fieldsFromSpec env p) = pVersion p"
  by (simp_all add: fieldsFromSpec_def Let_def case_prod_beta split: option.split)

lemma hotPart_fields [simp]:
  "pSandboxID (hotPart env p) = pSandboxID p" "pOwnerNodeID (hotPart env p) = pOwnerNodeID p"
  "pOwnerState (hotPart env p) = pOwnerState p"
  "pName (hotPart env p) = (if pName p = [] then specName (pSpec p) else pName p)"
  "pRecoveryRef (hotPart env p) = pRecoveryRef p" "pOwnerRef (hotPart env p) = pOwnerRef p"
  "pIncarnationID (hotPart env p) = pIncarnationID p" "pState (hotPart env p) = pState p"
  "pExpiresUnix (hotPart env p) = pExpiresUnix p" "pCustomHostnames (hotPart env p) = pCustomHostnames p"
  "pExposedPorts (hotPart env p) = pExposedPorts p" "pExposedPortRoutes (hotPart env p) = pExposedPortRoutes p"
  "pVersion (hotPart env p) = pVersion p"
  "pSpec (hotPart env p) = None" "pSecretRef (hotPart env p) = []" "pSecretVersion (hotPart env p) = 0"
  by (simp_all add: hotPart_def splitPlacement_def Let_def)

lemma attach_fields [simp]:
  "pSandboxID (attachPlacementRecovery p rec) = pSandboxID p" "pOwnerNodeID (attachPlacementRecovery p rec) = pOwnerNodeID p"
  "pOwnerState (attachPlacementRecovery p rec) = pOwnerState p" "pName (attachPlacementRecovery p rec) = pName p"
  "pRecoveryRef (attachPlacementRecovery p rec) = pRecoveryRef p" "pOwnerRef (attachPlacementRecovery p rec) = pOwnerRef p"
  "pIncarnationID (attachPlacementRecovery p rec) = pIncarnationID p" "pState (attachPlacementRecovery p rec) = pState p"
  "pExpiresUnix (attachPlacementRecovery p rec) = pExpiresUnix p"
  "pCustomHostnames (attachPlacementRecovery p rec) = pCustomHostnames p"
  "pExposedPorts (attachPlacementRecovery p rec) = pExposedPorts p"
  "pExposedPortRoutes (attachPlacementRecovery p rec) = pExposedPortRoutes p"
  "pSpec (attachPlacementRecovery p rec) = prSpec rec"
  by (simp_all add: attachPlacementRecovery_def)

text \<open>Splitting a row and attaching the payload again gives the row with its derived fields filled in.\<close>

lemma attach_split:
  assumes "splitPlacement env p = (hot, rec)"
  shows "attachPlacementRecovery hot rec =
    (fieldsFromSpec env (if pName p = [] then p\<lparr>pName := specName (pSpec p)\<rparr> else p))"
proof -
  have sec: "pSecretRef (fieldsFromSpec env q) = pSecretRef q" "pSecretVersion (fieldsFromSpec env q) = pSecretVersion q"
      "pSpec (fieldsFromSpec env q) = pSpec q" for q
    by (simp_all add: fieldsFromSpec_def Let_def case_prod_beta split: option.split)
  have id: "q\<lparr>pSpec := None, pSecretRef := [], pSecretVersion := 0\<rparr>\<lparr>pSpec := pSpec q, pSecretRef := pSecretRef q,
      pSecretVersion := pSecretVersion q\<rparr> = q" for q :: Placement by simp
  show ?thesis using assms id[of "fieldsFromSpec env (if pName p = [] then p\<lparr>pName := specName (pSpec p)\<rparr> else p)"]
    by (auto simp: splitPlacement_def attachPlacementRecovery_def Let_def sec split: if_splits)
qed

end
