(* ===== verification/Placement_State.thy ===== *)
theory Placement_State
  imports Recovery Pending_Reservations Audit_Index Change_Log
begin

text \<open>
  The state of the placement state machine (\<^verbatim>\<open>placementFSM\<close> of \<^verbatim>\<open>internal/cluster/fsm.go\<close>) with the functions
  that keep its secondary indexes and its rows.  Each index function works on the index it changes; the table is
  written by \<^verbatim>\<open>storePlacementLocked\<close> alone.  A nil index is the empty one, the locks and the subscriber
  channels are not part of the model, and the recovery resolver that fetches a payload from a peer is absent, as in a
  machine built by \<^verbatim>\<open>newPlacementFSM\<close>.
\<close>

section \<open>State\<close>

record hostPortClaim =
  hpSandboxID :: string
  hpPort :: int

record placementFSM =
  fsChanges :: "placementChangeLog option"
  fsPlacements :: "string \<rightharpoonup> Placement"
  fsRecovery :: "string \<rightharpoonup> placementRecovery"
  fsRecoveryStore :: recoveryStore
  fsVersion :: nat
  fsNameIndex :: "string \<rightharpoonup> string"
  fsShardIndex :: "int \<rightharpoonup> string set"
  fsPlacementIDs :: "string set"
  fsOwnerRefIndex :: "string \<rightharpoonup> string set"
  fsHostPortIndex :: "int \<rightharpoonup> hostPortClaim"
  fsOwnerIndex :: "string \<rightharpoonup> string set"
  fsPending :: pendingState
  fsDeletingIndex :: "string set"
  fsStorage :: storageState
  fsArtifactCatalog :: artifactCatalog
  fsCustomHostnameIndex :: "string \<rightharpoonup> string"
  fsAudit :: auditState
  fsVolumes :: volumeState
  fsSnapshotNodeIndex :: "string \<rightharpoonup> string"
  fsEgress :: egressProfileState
  fsQuotas :: teamQuotaState
  fsTokens :: apiTokenState
  fsWarmPools :: warmPoolState
  fsIdentity :: identityState

definition newPlacementFSM :: placementFSM where
  "newPlacementFSM =
     \<lparr>fsChanges = None, fsPlacements = Map.empty, fsRecovery = Map.empty, fsRecoveryStore = Map.empty, fsVersion = 0,
      fsNameIndex = Map.empty, fsShardIndex = Map.empty, fsPlacementIDs = {}, fsOwnerRefIndex = Map.empty,
      fsHostPortIndex = Map.empty, fsOwnerIndex = Map.empty, fsPending = newPendingState, fsDeletingIndex = {},
      fsStorage = newStorageState, fsArtifactCatalog = Map.empty, fsCustomHostnameIndex = Map.empty,
      fsAudit = newAuditState, fsVolumes = newVolumeState, fsSnapshotNodeIndex = Map.empty,
      fsEgress = newEgressProfileState, fsQuotas = newTeamQuotaState, fsTokens = newAPITokenState,
      fsWarmPools = newWarmPoolState, fsIdentity = identityLocked\<rparr>"

section \<open>Names\<close>

definition validateNameUniqueLocked :: "string \<Rightarrow> string \<Rightarrow> (string \<rightharpoonup> string) \<Rightarrow> fsmError option" where
  "validateNameUniqueLocked sandboxID name m =
     (let name = trimSpace name
      in if name = [] then None
         else (case m name of None \<Rightarrow> None | Some owner \<Rightarrow> if owner \<noteq> sandboxID then Some ErrNameConflict else None))"

definition claimNameLocked :: "string \<Rightarrow> string \<Rightarrow> (string \<rightharpoonup> string) \<Rightarrow> (string \<rightharpoonup> string)" where
  "claimNameLocked sandboxID name m = (let name = trimSpace name in if name = [] then m else m(name \<mapsto> sandboxID))"

definition releaseNameLocked :: "string \<Rightarrow> string \<Rightarrow> (string \<rightharpoonup> string) \<Rightarrow> (string \<rightharpoonup> string)" where
  "releaseNameLocked sandboxID name m =
     (let name = trimSpace name in if name = [] then m else if m name = Some sandboxID then m(name := None) else m)"

section \<open>Owners\<close>

definition claimOwnerLocked :: "string \<Rightarrow> Placement \<Rightarrow> (string \<rightharpoonup> string set) \<Rightarrow> (string \<rightharpoonup> string set)" where
  "claimOwnerLocked sandboxID p m =
     (if sandboxID = [] \<or> IsReserved p \<or> IsOrphaned p \<or> pOwnerNodeID p = [] then m
      else idxAdd (pOwnerNodeID p) sandboxID m)"

definition releaseOwnerLocked :: "string \<Rightarrow> Placement \<Rightarrow> (string \<rightharpoonup> string set) \<Rightarrow> (string \<rightharpoonup> string set)" where
  "releaseOwnerLocked sandboxID p m =
     (if sandboxID = [] \<or> pOwnerNodeID p = [] then m else idxDel (pOwnerNodeID p) sandboxID m)"

definition ownedPlacementIDsLocked :: "string \<Rightarrow> (string \<rightharpoonup> string set) \<Rightarrow> string list" where
  "ownedPlacementIDsLocked nodeID m = (if nodeID = [] then [] else sorted_list_of_set (idxGet m nodeID))"

section \<open>Shards and tenants\<close>

definition claimShard :: "string \<Rightarrow> (int \<rightharpoonup> string set) \<Rightarrow> (int \<rightharpoonup> string set)" where
  "claimShard sandboxID m =
     (case PlacementShardForSandbox sandboxID DefaultPlacementShardCount of
        None \<Rightarrow> m | Some shard \<Rightarrow> idxAdd shard sandboxID m)"

definition releaseShard :: "string \<Rightarrow> (int \<rightharpoonup> string set) \<Rightarrow> (int \<rightharpoonup> string set)" where
  "releaseShard sandboxID m =
     (case PlacementShardForSandbox sandboxID DefaultPlacementShardCount of
        None \<Rightarrow> m | Some shard \<Rightarrow> idxDel shard sandboxID m)"

definition claimShardLocked :: "string \<Rightarrow> placementFSM \<Rightarrow> placementFSM" where
  "claimShardLocked sandboxID f =
     (if sandboxID = [] then f
      else f\<lparr>fsShardIndex := claimShard sandboxID (fsShardIndex f), fsPlacementIDs := insert sandboxID (fsPlacementIDs f)\<rparr>)"

definition releaseShardLocked :: "string \<Rightarrow> placementFSM \<Rightarrow> placementFSM" where
  "releaseShardLocked sandboxID f =
     (if sandboxID = [] then f
      else f\<lparr>fsShardIndex := releaseShard sandboxID (fsShardIndex f), fsPlacementIDs := fsPlacementIDs f - {sandboxID}\<rparr>)"

definition claimOwnerRefLocked :: "string \<Rightarrow> string \<Rightarrow> (string \<rightharpoonup> string set) \<Rightarrow> (string \<rightharpoonup> string set)" where
  "claimOwnerRefLocked sandboxID0 ownerRef0 m =
     (let sandboxID = trimSpace sandboxID0; ownerRef = trimSpace ownerRef0
      in if sandboxID = [] \<or> ownerRef = [] then m else idxAdd ownerRef sandboxID m)"

definition releaseOwnerRefLocked :: "string \<Rightarrow> string \<Rightarrow> (string \<rightharpoonup> string set) \<Rightarrow> (string \<rightharpoonup> string set)" where
  "releaseOwnerRefLocked sandboxID0 ownerRef0 m =
     (let sandboxID = trimSpace sandboxID0; ownerRef = trimSpace ownerRef0
      in if sandboxID = [] \<or> ownerRef = [] then m else idxDel ownerRef sandboxID m)"

section \<open>Host ports and custom hostnames\<close>

definition ExposedPortProtocolTCP :: string where "ExposedPortProtocolTCP = ''tcp''"

definition tcpRoute :: "ExposedPortRoute \<Rightarrow> bool" where
  "tcpRoute route \<longleftrightarrow> rtProtocol route = ExposedPortProtocolTCP \<and> rtHostPort route > 0"

definition claimHostPortLocked :: "string \<Rightarrow> int \<Rightarrow> ExposedPortRoute \<Rightarrow> (int \<rightharpoonup> hostPortClaim) \<Rightarrow> (int \<rightharpoonup> hostPortClaim)" where
  "claimHostPortLocked sandboxID port route m =
     (if \<not> tcpRoute route then m else m(rtHostPort route \<mapsto> \<lparr>hpSandboxID = sandboxID, hpPort = port\<rparr>))"

definition releaseHostPortLocked :: "string \<Rightarrow> int \<Rightarrow> ExposedPortRoute \<Rightarrow> (int \<rightharpoonup> hostPortClaim) \<Rightarrow> (int \<rightharpoonup> hostPortClaim)" where
  "releaseHostPortLocked sandboxID port route m =
     (if \<not> tcpRoute route then m
      else if m (rtHostPort route) = Some \<lparr>hpSandboxID = sandboxID, hpPort = port\<rparr> then m(rtHostPort route := None) else m)"

definition releaseAllHostPortsLocked :: "string \<Rightarrow> Placement \<Rightarrow> (int \<rightharpoonup> hostPortClaim) \<Rightarrow> (int \<rightharpoonup> hostPortClaim)" where
  "releaseAllHostPortsLocked sandboxID p m =
     (let routes = exposedPortRoutesForPlacement p
      in fold (\<lambda>port m. case routes port of None \<Rightarrow> m | Some route \<Rightarrow> releaseHostPortLocked sandboxID port route m)
              (sorted_list_of_set (dom routes)) m)"

definition validateHostPortAvailableLocked :: "string \<Rightarrow> int \<Rightarrow> ExposedPortRoute \<Rightarrow> (int \<rightharpoonup> hostPortClaim) \<Rightarrow> fsmError option" where
  "validateHostPortAvailableLocked sandboxID port route m =
     (if \<not> tcpRoute route then None
      else (case m (rtHostPort route) of
              None \<Rightarrow> None
            | Some claim \<Rightarrow> if hpSandboxID claim \<noteq> sandboxID \<or> hpPort claim \<noteq> port then Some ErrHostPortReserved else None))"

definition claimCustomHostnameLocked :: "string \<Rightarrow> string \<Rightarrow> (string \<rightharpoonup> string) \<Rightarrow> (string \<rightharpoonup> string)" where
  "claimCustomHostnameLocked sandboxID hostname m = (if sandboxID = [] \<or> hostname = [] then m else m(hostname \<mapsto> sandboxID))"

definition releaseCustomHostnameLocked :: "string \<Rightarrow> string \<Rightarrow> (string \<rightharpoonup> string) \<Rightarrow> (string \<rightharpoonup> string)" where
  "releaseCustomHostnameLocked sandboxID hostname m =
     (if hostname = [] then m
      else (case m hostname of
              None \<Rightarrow> m
            | Some owner \<Rightarrow> if sandboxID = [] \<or> owner = sandboxID then m(hostname := None) else m))"

definition releaseAllCustomHostnamesLocked :: "string \<Rightarrow> Placement \<Rightarrow> (string \<rightharpoonup> string) \<Rightarrow> (string \<rightharpoonup> string)" where
  "releaseAllCustomHostnamesLocked sandboxID p m = fold (releaseCustomHostnameLocked sandboxID) (pCustomHostnames p) m"

section \<open>Rows\<close>

definition recordPlacementChangeLocked :: "string \<Rightarrow> bool \<Rightarrow> placementFSM \<Rightarrow> placementFSM" where
  "recordPlacementChangeLocked i deleted f = f\<lparr>fsChanges := recordPlacementChange (fsVersion f) i deleted (fsChanges f)\<rparr>"

definition resolveRecoveryRef :: "string \<Rightarrow> placementFSM \<Rightarrow> placementRecovery option" where
  "resolveRecoveryRef ref f = storeGet ref (fsRecoveryStore f)"

definition fullPlacementLocked :: "string \<Rightarrow> placementFSM \<Rightarrow> Placement option" where
  "fullPlacementLocked i f =
     (case fsPlacements f i of
        None \<Rightarrow> None
      | Some p \<Rightarrow>
          (case (if pRecoveryRef p \<noteq> [] then resolveRecoveryRef (pRecoveryRef p) f else None) of
             Some rec \<Rightarrow> Some (attachPlacementRecovery p rec)
           | None \<Rightarrow> (case fsRecovery f i of
                        Some rec \<Rightarrow> Some (attachPlacementRecovery p rec)
                      | None \<Rightarrow> Some p)))"

definition indexDeletingStateLocked :: "string \<Rightarrow> Placement \<Rightarrow> string set \<Rightarrow> string set" where
  "indexDeletingStateLocked i p m = (if IsDeleting p then insert i m else m - {i})"

definition putRow :: "string \<Rightarrow> Placement \<Rightarrow> placementFSM \<Rightarrow> placementFSM" where
  "putRow i hot f = f\<lparr>fsPlacements := (fsPlacements f)(i \<mapsto> hot),
                     fsDeletingIndex := indexDeletingStateLocked i hot (fsDeletingIndex f)\<rparr>"

definition storePlacementLocked :: "fsmEnv \<Rightarrow> string \<Rightarrow> Placement \<Rightarrow> placementFSM \<Rightarrow> fsmError option \<times> placementFSM" where
  "storePlacementLocked env i p f =
     (let f = recordPlacementChangeLocked i False f;
          (hot, rec) = splitPlacement env p;
          f = f\<lparr>fsEgress := reindexEgressProfilesLocked i (fsPlacements f i) (Some hot) (fsEgress f),
                fsQuotas := reindexTeamUsageLocked i (Some hot) (fsQuotas f)\<rparr>
      in if recoveryEmpty rec
         then (None, putRow i hot (if pRecoveryRef hot = [] then f\<lparr>fsRecovery := (fsRecovery f)(i := None)\<rparr> else f))
         else (case storePut env i rec (fsRecoveryStore f) of
                 (Inl e, st) \<Rightarrow> (Some e, f)
               | (Inr ref, st) \<Rightarrow>
                   (None, putRow i (hot\<lparr>pRecoveryRef := ref\<rparr>)
                            (f\<lparr>fsRecoveryStore := st, fsRecovery := (fsRecovery f)(i := None)\<rparr>))))"

definition deletePlacementRecoveryLocked :: "string \<Rightarrow> placementFSM \<Rightarrow> placementFSM" where
  "deletePlacementRecoveryLocked i f = f\<lparr>fsRecovery := (fsRecovery f)(i := None)\<rparr>"

text \<open>The tail every removal of a row shares: its payload, its profile references, its team usage, the row itself, the
  delete fence and the change feed.\<close>

definition dropRow :: "string \<Rightarrow> placementFSM \<Rightarrow> placementFSM" where
  "dropRow i f =
     (let f = deletePlacementRecoveryLocked i f;
          f = f\<lparr>fsEgress := releaseEgressProfilesLocked (fsPlacements f) i (fsEgress f)\<rparr>;
          f = f\<lparr>fsQuotas := reindexTeamUsageLocked i None (fsQuotas f)\<rparr>;
          f = f\<lparr>fsPlacements := (fsPlacements f)(i := None), fsDeletingIndex := fsDeletingIndex f - {i}\<rparr>
      in recordPlacementChangeLocked i True f)"

section \<open>Reads\<close>

definition placementGet :: "string \<Rightarrow> placementFSM \<Rightarrow> Placement option" where
  "placementGet i f = fullPlacementLocked i f"

definition placementsByIDs :: "string list \<Rightarrow> placementFSM \<Rightarrow> (string \<rightharpoonup> Placement)" where
  "placementsByIDs ids f =
     fold (\<lambda>i out. let i = trimSpace i
                   in if i = [] then out else (case fsPlacements f i of None \<Rightarrow> out | Some p \<Rightarrow> out(i \<mapsto> p)))
          ids Map.empty"

text \<open>\<^verbatim>\<open>strings.ToLower\<close>: letter by letter for ASCII text; for other text the Unicode case table of the Go library,
  a parameter.\<close>

definition stringsToLower :: "(string \<Rightarrow> string) \<Rightarrow> string \<Rightarrow> string" where
  "stringsToLower unicodeLower s =
     (if list_all (\<lambda>c. (of_char c :: nat) < 128) s then map lowerChar s else unicodeLower s)"

definition sandboxIDByCustomHostname :: "(string \<Rightarrow> string) \<Rightarrow> string \<Rightarrow> placementFSM \<Rightarrow> string option" where
  "sandboxIDByCustomHostname unicodeLower hostname f =
     (let hostname = stringsToLower unicodeLower (trimSpace hostname)
      in if hostname = [] then None else fsCustomHostnameIndex f hostname)"

definition customHostnamesForSandbox :: "string \<Rightarrow> placementFSM \<Rightarrow> string list" where
  "customHostnamesForSandbox i f = (case fsPlacements f i of None \<Rightarrow> [] | Some p \<Rightarrow> pCustomHostnames p)"

definition sandboxIDByName :: "string \<Rightarrow> placementFSM \<Rightarrow> string option" where
  "sandboxIDByName name f = (let name = trimSpace name in if name = [] then None else fsNameIndex f name)"

definition ownerRefOf :: "string \<Rightarrow> placementFSM \<Rightarrow> string option" where
  "ownerRefOf i f = map_option pOwnerRef (fsPlacements f i)"

definition idsOwnedBy :: "string \<Rightarrow> placementFSM \<Rightarrow> string list" where
  "idsOwnedBy nodeID f = ownedPlacementIDsLocked nodeID (fsOwnerIndex f)"

definition expiredReservationIDs :: "int \<Rightarrow> placementFSM \<Rightarrow> string list" where
  "expiredReservationIDs now f =
     (if now \<le> 0 then []
      else sorted_list_of_set {i \<in> reservedIndex (fsPending f).
             case fsPlacements f i of
               None \<Rightarrow> False
             | Some p \<Rightarrow> IsReserved p \<and> pExpiresUnix p \<noteq> 0 \<and> now > pExpiresUnix p})"

definition expiredDeletingPlacements :: "int \<Rightarrow> placementFSM \<Rightarrow> Placement list" where
  "expiredDeletingPlacements now f =
     (if now \<le> 0 then []
      else map (\<lambda>i. the (fsPlacements f i))
             (sorted_list_of_set {i \<in> fsDeletingIndex f.
                case fsPlacements f i of
                  None \<Rightarrow> False
                | Some p \<Rightarrow> IsDeleting p \<and> pExpiresUnix p \<noteq> 0 \<and> now > pExpiresUnix p}))"

definition fullPlacementsForOwner :: "string \<Rightarrow> placementFSM \<Rightarrow> (string \<rightharpoonup> Placement)" where
  "fullPlacementsForOwner nodeID f =
     (\<lambda>i. if i \<in> set (ownedPlacementIDsLocked nodeID (fsOwnerIndex f)) then fullPlacementLocked i f else None)"

definition snapshotHomeNode :: "string \<Rightarrow> placementFSM \<Rightarrow> string option" where
  "snapshotHomeNode name f =
     (case fsSnapshotNodeIndex f (trimSpace name) of None \<Rightarrow> None | Some node \<Rightarrow> if node = [] then None else Some node)"

definition isNodeDrained :: "string \<Rightarrow> placementFSM \<Rightarrow> bool" where
  "isNodeDrained nodeID f \<longleftrightarrow> nodeID \<in> drainedNodes (fsStorage f)"

definition nodeStorageRetirementsSnapshot :: "placementFSM \<Rightarrow> NodeStorageRetirement list" where
  "nodeStorageRetirementsSnapshot f = sortedRows (storageRetirements (fsStorage f))"

end
