(* ===== verification/Placement_Ops.thy ===== *)
theory Placement_Ops
  imports Placement_State
begin

text \<open>
  The operations of the placement state machine: \<^verbatim>\<open>apply\<close> of \<^verbatim>\<open>internal/cluster/fsm.go\<close>, one definition per
  operation code.  The early returns of an operation are its guard, a list of checks of which the first that
  fires is the answer; what follows is the row it writes and the index moves around the write.  The
  wall clock \<^verbatim>\<open>apply\<close> reads is the argument \<^verbatim>\<open>now\<close>, the log index the argument \<^verbatim>\<open>index\<close>.
\<close>

datatype applyResult =
    ApNil | ApErr fsmError | ApReassign bool | ApEpoch int
  | ApTeamQuota TeamQuotaRecord bool | ApEgressProfile EgressProfileRecord bool | ApToken TokenRecord
  | ApWarmPool WarmPoolRecord bool | ApIdentityKeys KeySet | ApIdentityRole IdentityRoleRecord bool

definition whenErr :: "bool \<Rightarrow> fsmError \<Rightarrow> applyResult option" where
  "whenErr c e = (if c then Some (ApErr e) else None)"

definition errOf :: "fsmError option \<Rightarrow> applyResult" where
  "errOf e = (case e of None \<Rightarrow> ApNil | Some e \<Rightarrow> ApErr e)"

text \<open>Store a row and, if the store took it, go on.\<close>

definition storeThen ::
  "fsmEnv \<Rightarrow> string \<Rightarrow> Placement \<Rightarrow> placementFSM \<Rightarrow> (placementFSM \<Rightarrow> placementFSM) \<Rightarrow> fsmError option \<times> placementFSM" where
  "storeThen env i p f k =
     (case storePlacementLocked env i p f of (Some e, f) \<Rightarrow> (Some e, f) | (None, f) \<Rightarrow> (None, k f))"

definition releasePending :: "string \<Rightarrow> Placement \<Rightarrow> pendingState \<Rightarrow> pendingState" where
  "releasePending i existing s =
     releasePendingReservationOwnerLocked i (pOwnerNodeID existing) (releasePendingReservationLocked i s)"

section \<open>Create: reserve, place, cancel\<close>

definition placeName :: "command \<Rightarrow> Placement option \<Rightarrow> string" where
  "placeName cmd full =
     (case full of
        Some existing \<Rightarrow> if cmSpec cmd = None then placementName existing else specName (cmSpec cmd)
      | None \<Rightarrow> specName (cmSpec cmd))"

definition opPlaceGuard :: "command \<Rightarrow> Placement option \<Rightarrow> (string \<rightharpoonup> string) \<Rightarrow> applyResult option" where
  "opPlaceGuard cmd full names = firstOf
     [map_option ApErr (validateSecret cmd),
      Option.bind full (\<lambda>existing.
        whenErr (trimSpace (cmExpectedIncarnationID cmd) = [] \<or>
                 trimSpace (pIncarnationID existing) \<noteq> trimSpace (cmExpectedIncarnationID cmd)) ErrIncarnationConflict),
      Option.bind full (\<lambda>existing. whenErr (IsDeleting existing) ErrReservationConflict),
      Option.bind full (\<lambda>existing.
        if pOwnerNodeID existing = cmOwnerNodeID cmd \<and> cmSpec cmd = None \<and> \<not> hasSecretUpdate cmd \<and> \<not> IsReserved existing
        then Some ApNil else None),
      Option.bind full (\<lambda>existing. whenErr (IsOrphaned existing) ErrReservationConflict),
      Option.bind full (\<lambda>existing.
        whenErr (IsReserved existing \<and> pSecretRecipients existing \<noteq> [] \<and> cmSecretRecipients cmd \<noteq> [] \<and>
                 \<not> sameSecretRecipientSet (pSecretRecipients existing) (cmSecretRecipients cmd)) ErrInvalidSecretHandle),
      Option.bind full (\<lambda>existing.
        whenErr (\<not> IsReserved existing \<and> pOwnerNodeID existing \<noteq> [] \<and> pOwnerNodeID existing \<noteq> cmOwnerNodeID cmd)
          ErrReservationConflict),
      map_option ApErr (validateNameUniqueLocked (cmSandboxID cmd) (placeName cmd full) names)]"

definition opPlaceRow :: "command \<Rightarrow> Placement option \<Rightarrow> nat \<Rightarrow> int \<Rightarrow> Placement" where
  "opPlaceRow cmd full version now =
     (let existing = (case full of None \<Rightarrow> zeroPlacement | Some p \<Rightarrow> p);
          secrets = applyCommandSecretUpdate full cmd
      in zeroPlacement
           \<lparr>pSandboxID := cmSandboxID cmd, pOwnerNodeID := cmOwnerNodeID cmd, pOwnerAPIURL := cmOwnerAPIURL cmd,
            pOwnerDataPlaneHost := (if cmOwnerDataPlaneHost cmd = [] \<and> full \<noteq> None then pOwnerDataPlaneHost existing
                                    else cmOwnerDataPlaneHost cmd),
            pVersion := version,
            pCreatedUnix := (if full \<noteq> None then pCreatedUnix existing else now),
            pUpdatedUnix := now,
            pName := placeName cmd full,
            pSpec := (if cmSpec cmd = None \<and> full \<noteq> None then pSpec existing else cmSpec cmd),
            pSecretRef := psRef secrets, pSecretVersion := psVersion secrets,
            pSecretRecipients := (if cmSecretRecipients cmd \<noteq> [] then cmSecretRecipients cmd else pSecretRecipients existing),
            pIncarnationID := (if trimSpace (cmIncarnationID cmd) \<noteq> [] \<and> pIncarnationID existing = []
                               then trimSpace (cmIncarnationID cmd) else pIncarnationID existing),
            pSecretSealGeneration := (if psSealGeneration secrets > 0 then psSealGeneration secrets
                                      else pSecretSealGeneration existing),
            pOwnerRef := (if full \<noteq> None \<and> trimSpace (cmOwnerRef cmd) = [] then pOwnerRef existing
                          else trimSpace (cmOwnerRef cmd)),
            pAuditNodeIDs := pAuditNodeIDs existing, pAuditNodesTruncated := pAuditNodesTruncated existing,
            pExposedPorts := pExposedPorts existing, pExposedPortRoutes := pExposedPortRoutes existing,
            pCustomHostnames := pCustomHostnames existing,
            pPublicTraffic := (full \<noteq> None \<and> pPublicTraffic existing)\<rparr>)"

definition opPlaceRelease :: "string \<Rightarrow> Placement option \<Rightarrow> placementFSM \<Rightarrow> placementFSM" where
  "opPlaceRelease i full f =
     (case full of
        None \<Rightarrow> f
      | Some existing \<Rightarrow>
          f\<lparr>fsNameIndex := releaseNameLocked i (placementName existing) (fsNameIndex f),
            fsOwnerIndex := releaseOwnerLocked i existing (fsOwnerIndex f),
            fsOwnerRefIndex := releaseOwnerRefLocked i (pOwnerRef existing) (fsOwnerRefIndex f),
            fsPending := (if IsReserved existing then releasePending i existing (fsPending f) else fsPending f)\<rparr>)"

definition opPlaceClaim :: "string \<Rightarrow> Placement \<Rightarrow> placementFSM \<Rightarrow> placementFSM" where
  "opPlaceClaim i p f =
     claimShardLocked i
       (f\<lparr>fsNameIndex := claimNameLocked i (pName p) (fsNameIndex f),
          fsOwnerRefIndex := claimOwnerRefLocked i (pOwnerRef p) (fsOwnerRefIndex f),
          fsOwnerIndex := claimOwnerLocked i p (fsOwnerIndex f)\<rparr>)"

definition opPlace :: "fsmEnv \<Rightarrow> command \<Rightarrow> int \<Rightarrow> placementFSM \<Rightarrow> applyResult \<times> placementFSM" where
  "opPlace env cmd now f =
     (let i = cmSandboxID cmd; full = fullPlacementLocked i f
      in case opPlaceGuard cmd full (fsNameIndex f) of
           Some r \<Rightarrow> (r, f)
         | None \<Rightarrow>
             let p = opPlaceRow cmd full (fsVersion f) now;
                 (err, f) = storeThen env i p (opPlaceRelease i full f) (opPlaceClaim i p)
             in (errOf err, f))"

definition reserveRetryGuard :: "command \<Rightarrow> Placement \<Rightarrow> fsmError option" where
  "reserveRetryGuard cmd existing =
     (if trimSpace (pIncarnationID existing) \<noteq> trimSpace (cmIncarnationID cmd) then Some ErrIncarnationConflict
      else if hasSecretUpdate cmd \<and> (pSecretRef existing \<noteq> cmSecretRef cmd \<or> pSecretVersion existing \<noteq> cmSecretVersion cmd \<or>
                pSecretSealGeneration existing \<noteq> cmSecretSealGeneration cmd)
      then Some ErrInvalidSecretHandle
      else None)"

definition reserveRetryRow :: "command \<Rightarrow> nat \<Rightarrow> int \<Rightarrow> Placement \<Rightarrow> Placement" where
  "reserveRetryRow cmd version now existing =
     existing\<lparr>pExpiresUnix := cmExpiresUnix cmd, pVersion := version, pUpdatedUnix := now,
              pSecretRecipients := (if cmSecretRecipients cmd \<noteq> [] then cmSecretRecipients cmd else pSecretRecipients existing),
              pOwnerRef := (if trimSpace (cmOwnerRef cmd) \<noteq> [] then trimSpace (cmOwnerRef cmd) else pOwnerRef existing)\<rparr>"

definition reserveRetry ::
  "fsmEnv \<Rightarrow> command \<Rightarrow> int \<Rightarrow> Placement \<Rightarrow> placementFSM \<Rightarrow> fsmError option \<times> placementFSM" where
  "reserveRetry env cmd now existing f =
     (let i = cmSandboxID cmd; p = reserveRetryRow cmd (fsVersion f) now existing
      in case reserveRetryGuard cmd existing of
           Some e \<Rightarrow> (Some e, f)
         | None \<Rightarrow> storeThen env i p f (\<lambda>f.
             f\<lparr>fsOwnerRefIndex := (if pOwnerRef p \<noteq> pOwnerRef existing
                                   then claimOwnerRefLocked i (pOwnerRef p) (releaseOwnerRefLocked i (pOwnerRef existing) (fsOwnerRefIndex f))
                                   else fsOwnerRefIndex f),
               fsPending := refreshPendingReservationExpiryLocked i (cmExpiresUnix cmd) (fsPending f)\<rparr>))"

definition reserveExpired :: "string \<Rightarrow> Placement \<Rightarrow> placementFSM \<Rightarrow> placementFSM" where
  "reserveExpired i existing f =
     releaseShardLocked i
       (f\<lparr>fsPending := releasePending i existing (fsPending f),
          fsNameIndex := releaseNameLocked i (placementName existing) (fsNameIndex f),
          fsOwnerRefIndex := releaseOwnerRefLocked i (pOwnerRef existing) (fsOwnerRefIndex f),
          fsVolumes := releaseVolumeAttachmentsForIncarnationLocked i (pIncarnationID existing) (fsVolumes f)\<rparr>)"

definition reserveRow :: "command \<Rightarrow> nat \<Rightarrow> int \<Rightarrow> Placement" where
  "reserveRow cmd version now =
     (let secrets = applyCommandSecretUpdate None cmd
      in zeroPlacement
           \<lparr>pSandboxID := cmSandboxID cmd, pOwnerNodeID := cmOwnerNodeID cmd, pOwnerAPIURL := cmOwnerAPIURL cmd,
            pOwnerDataPlaneHost := cmOwnerDataPlaneHost cmd, pVersion := version, pCreatedUnix := now, pUpdatedUnix := now,
            pName := specName (cmSpec cmd), pSpec := cmSpec cmd, pSecretRef := psRef secrets,
            pSecretVersion := psVersion secrets, pSecretSealGeneration := psSealGeneration secrets,
            pSecretRecipients := cmSecretRecipients cmd, pIncarnationID := trimSpace (cmIncarnationID cmd),
            pOwnerRef := trimSpace (cmOwnerRef cmd), pState := PlacementStateReserved, pExpiresUnix := cmExpiresUnix cmd\<rparr>)"

definition reserveFresh :: "fsmEnv \<Rightarrow> command \<Rightarrow> int \<Rightarrow> placementFSM \<Rightarrow> fsmError option \<times> placementFSM" where
  "reserveFresh env cmd now f =
     (let i = cmSandboxID cmd; p = reserveRow cmd (fsVersion f) now
      in case validateNameUniqueLocked i (specName (cmSpec cmd)) (fsNameIndex f) of
           Some e \<Rightarrow> (Some e, f)
         | None \<Rightarrow> storeThen env i p f (\<lambda>f.
             claimShardLocked i
               (f\<lparr>fsNameIndex := claimNameLocked i (pName p) (fsNameIndex f),
                  fsOwnerRefIndex := claimOwnerRefLocked i (pOwnerRef p) (fsOwnerRefIndex f),
                  fsPending := claimPendingReservationLocked i p (fsPending f)\<rparr>)))"

definition reservePlacementLocked :: "fsmEnv \<Rightarrow> command \<Rightarrow> int \<Rightarrow> placementFSM \<Rightarrow> fsmError option \<times> placementFSM" where
  "reservePlacementLocked env cmd now f =
     (if cmSandboxID cmd = [] \<or> cmOwnerNodeID cmd = [] then (Some ErrMalformed, f)
      else (case validateSecret cmd of
              Some e \<Rightarrow> (Some e, f)
            | None \<Rightarrow>
                (case fullPlacementLocked (cmSandboxID cmd) f of
                   None \<Rightarrow> reserveFresh env cmd now f
                 | Some existing \<Rightarrow>
                     if \<not> IsReserved existing then (Some ErrReservationConflict, f)
                     else if pOwnerNodeID existing = cmOwnerNodeID cmd \<and> now \<le> pExpiresUnix existing
                     then reserveRetry env cmd now existing f
                     else if now > pExpiresUnix existing
                     then reserveFresh env cmd now (reserveExpired (cmSandboxID cmd) existing f)
                     else (Some ErrReservationConflict, f))))"

definition batchRowGuard :: "reservationCommand \<Rightarrow> int \<Rightarrow> Placement option \<Rightarrow> fsmError option" where
  "batchRowGuard r now full =
     Option.bind full (\<lambda>existing.
       if \<not> IsReserved existing then Some ErrReservationConflict
       else if pOwnerNodeID existing \<noteq> rcOwnerNodeID r \<and> now \<le> pExpiresUnix existing then Some ErrReservationConflict
       else None)"

fun validateReservationBatchLocked ::
  "int \<Rightarrow> placementFSM \<Rightarrow> string set \<Rightarrow> (string \<rightharpoonup> string) \<Rightarrow> reservationCommand list \<Rightarrow> fsmError option" where
  "validateReservationBatchLocked now f seenIDs seenNames [] = None"
| "validateReservationBatchLocked now f seenIDs seenNames (r # rs) =
     (let i = rcSandboxID r; name = specName (rcSpec r); seenIDs' = insert i seenIDs
      in if i = [] \<or> rcOwnerNodeID r = [] then Some ErrMalformed
         else if i \<in> seenIDs then Some ErrReservationConflict
         else orElse (batchRowGuard r now (fullPlacementLocked i f))
           (if name = [] then validateReservationBatchLocked now f seenIDs' seenNames rs
            else if (case seenNames name of None \<Rightarrow> False | Some prior \<Rightarrow> prior \<noteq> i) then Some ErrNameConflict
            else orElse (validateNameUniqueLocked i name (fsNameIndex f))
                   (validateReservationBatchLocked now f seenIDs' (seenNames(name \<mapsto> i)) rs)))"

fun reserveAll :: "fsmEnv \<Rightarrow> int \<Rightarrow> reservationCommand list \<Rightarrow> placementFSM \<Rightarrow> fsmError option \<times> placementFSM" where
  "reserveAll env now [] f = (None, f)"
| "reserveAll env now (r # rs) f =
     (case reservePlacementLocked env (commandFromReservation r) now f of
        (Some e, f) \<Rightarrow> (Some e, f)
      | (None, f) \<Rightarrow> reserveAll env now rs f)"

definition opReserveBatch :: "fsmEnv \<Rightarrow> command \<Rightarrow> int \<Rightarrow> placementFSM \<Rightarrow> fsmError option \<times> placementFSM" where
  "opReserveBatch env cmd now f =
     (if cmReservations cmd = [] then (Some ErrMalformed, f)
      else (case validateReservationBatchLocked now f {} Map.empty (cmReservations cmd) of
              Some e \<Rightarrow> (Some e, f)
            | None \<Rightarrow> reserveAll env now (cmReservations cmd) f))"

definition cancelRow :: "string \<Rightarrow> Placement \<Rightarrow> string \<Rightarrow> placementFSM \<Rightarrow> placementFSM" where
  "cancelRow i existing incarnationID f =
     dropRow i
       (releaseShardLocked i
         (f\<lparr>fsNameIndex := releaseNameLocked i (placementName existing) (fsNameIndex f),
            fsOwnerRefIndex := releaseOwnerRefLocked i (pOwnerRef existing) (fsOwnerRefIndex f),
            fsHostPortIndex := releaseAllHostPortsLocked i existing (fsHostPortIndex f),
            fsCustomHostnameIndex := releaseAllCustomHostnamesLocked i existing (fsCustomHostnameIndex f),
            fsPending := releasePending i existing (fsPending f),
            fsVolumes := releaseVolumeAttachmentsForIncarnationLocked i incarnationID (fsVolumes f)\<rparr>))"

definition opCancelReserve :: "command \<Rightarrow> placementFSM \<Rightarrow> fsmError option \<times> placementFSM" where
  "opCancelReserve cmd f =
     (let i = cmSandboxID cmd; expected = trimSpace (cmExpectedIncarnationID cmd)
      in case fullPlacementLocked i f of
           None \<Rightarrow> (None, f)
         | Some existing \<Rightarrow>
             if \<not> IsReserved existing then (None, f)
             else if expected = [] then (Some ErrIncarnationConflict, f)
             else if trimSpace (pIncarnationID existing) \<noteq> expected then (None, f)
             else (None, cancelRow i existing expected f))"

section \<open>Delete\<close>

definition opBeginDeleteGuard :: "command \<Rightarrow> Placement option \<Rightarrow> applyResult option" where
  "opBeginDeleteGuard cmd full =
     (case full of
        None \<Rightarrow> Some (ApErr ErrUnknownSandbox)
      | Some existing \<Rightarrow> firstOf
          [whenErr (trimSpace (pIncarnationID existing) \<noteq> trimSpace (cmExpectedIncarnationID cmd)) ErrIncarnationConflict,
           whenErr (\<not> cmExpectedOwnerNodeIDSet cmd \<or>
                    trimSpace (pOwnerNodeID existing) \<noteq> trimSpace (cmExpectedOwnerNodeID cmd)) ErrReservationConflict,
           whenErr (IsOrphaned existing) ErrReservationConflict,
           (if IsDeleting existing then Some ApNil else None)])"

definition beginDeleteRow :: "command \<Rightarrow> nat \<Rightarrow> int \<Rightarrow> Placement \<Rightarrow> Placement" where
  "beginDeleteRow cmd version now existing =
     existing\<lparr>pState := PlacementStateDeleting, pExpiresUnix := cmExpiresUnix cmd, pVersion := version, pUpdatedUnix := now\<rparr>"

definition opBeginDelete :: "fsmEnv \<Rightarrow> command \<Rightarrow> int \<Rightarrow> placementFSM \<Rightarrow> applyResult \<times> placementFSM" where
  "opBeginDelete env cmd now f =
     (let i = cmSandboxID cmd; full = fullPlacementLocked i f
      in case opBeginDeleteGuard cmd full of
           Some r \<Rightarrow> (r, f)
         | None \<Rightarrow>
             let existing = the full;
                 f = (if IsReserved existing then f\<lparr>fsPending := releasePending i existing (fsPending f)\<rparr> else f);
                 (err, f) = storeThen env i (beginDeleteRow cmd (fsVersion f) now existing) f id
             in (errOf err, f))"

definition auditOfRow :: "command \<Rightarrow> nat \<Rightarrow> Placement \<Rightarrow> AuditACL" where
  "auditOfRow cmd index existing =
     \<lparr>aaSandboxID = cmSandboxID cmd, aaIncarnationID = trimSpace (pIncarnationID existing),
      aaOwnerRef = trimSpace (pOwnerRef existing), aaAuditNodeIDs = pAuditNodeIDs existing,
      aaAuditNodesTruncated = pAuditNodesTruncated existing, aaExpiresUnix = cmExpiresUnix cmd, aaRetainedVersion = index\<rparr>"

definition deleteIndexes :: "command \<Rightarrow> nat \<Rightarrow> Placement \<Rightarrow> placementFSM \<Rightarrow> placementFSM" where
  "deleteIndexes cmd index existing0 f =
     (let i = cmSandboxID cmd;
          existing = recordPlacementAuditNode (pOrphanedOwnerNodeID existing0) (recordPlacementAuditNode (pOwnerNodeID existing0) existing0)
      in releaseShardLocked i
           (f\<lparr>fsAudit := (if trimSpace (pIncarnationID existing) \<noteq> []
                          then retainAuditACLLocked (auditOfRow cmd index existing) (cmAuditIndexMax cmd) (fsAudit f) else fsAudit f),
              fsNameIndex := releaseNameLocked i (placementName existing) (fsNameIndex f),
              fsOwnerRefIndex := releaseOwnerRefLocked i (pOwnerRef existing) (fsOwnerRefIndex f),
              fsHostPortIndex := releaseAllHostPortsLocked i existing (fsHostPortIndex f),
              fsCustomHostnameIndex := releaseAllCustomHostnamesLocked i existing (fsCustomHostnameIndex f),
              fsOwnerIndex := releaseOwnerLocked i existing (fsOwnerIndex f),
              fsPending := (if IsReserved existing then releasePending i existing (fsPending f) else fsPending f)\<rparr>))"

definition deleteTail :: "command \<Rightarrow> placementFSM \<Rightarrow> placementFSM" where
  "deleteTail cmd f =
     (let i = cmSandboxID cmd;
          f = (if cmVolumeReclaimNodeID cmd \<noteq> []
               then f\<lparr>fsVolumes := recordVolumeReclaimsLocked i (cmVolumeReclaimNodeID cmd) (cmStampUnixNano cmd) (fsVolumes f)\<rparr>
               else f)
      in dropRow i (f\<lparr>fsVolumes := releaseVolumeAttachmentsForSandboxLocked i (fsVolumes f)\<rparr>))"

definition opDelete :: "command \<Rightarrow> nat \<Rightarrow> placementFSM \<Rightarrow> fsmError option \<times> placementFSM" where
  "opDelete cmd index f =
     (let i = cmSandboxID cmd; expected = trimSpace (cmExpectedIncarnationID cmd); owner = trimSpace (cmExpectedOwnerNodeID cmd)
      in case fullPlacementLocked i f of
           None \<Rightarrow> (None, deleteTail cmd f)
         | Some existing \<Rightarrow>
             if expected = [] then (Some ErrIncarnationConflict, f)
             else if trimSpace (pIncarnationID existing) \<noteq> expected then (None, f)
             else if (cmExpectedOwnerNodeIDSet cmd \<or> owner \<noteq> []) \<and> trimSpace (pOwnerNodeID existing) \<noteq> owner then (None, f)
             else (None, deleteTail cmd (deleteIndexes cmd index existing f)))"

section \<open>Ownership: reassign, orphan, claim\<close>

definition reassignCauseFailover :: string where "reassignCauseFailover = ''failover''"

definition reassignRow :: "command \<Rightarrow> nat \<Rightarrow> int \<Rightarrow> Placement \<Rightarrow> Placement" where
  "reassignRow cmd version now existing0 =
     (let previous = pOwnerNodeID existing0;
          p = (recordPlacementAuditNode previous existing0)
                \<lparr>pOwnerNodeID := cmOwnerNodeID cmd, pOwnerAPIURL := cmOwnerAPIURL cmd,
                 pOwnerDataPlaneHost := cmOwnerDataPlaneHost cmd\<rparr>;
          p = (if cmOwnerNodeID cmd = []
               then p\<lparr>pOwnerState := PlacementOwnerStateOrphaned,
                      pOrphanedOwnerNodeID := (if pOrphanedOwnerNodeID p = [] then previous else pOrphanedOwnerNodeID p),
                      pOrphanedUnix := (if pOrphanedUnix p = 0 then now else pOrphanedUnix p)\<rparr>
               else p\<lparr>pOwnerState := PlacementOwnerStateActive, pOrphanedOwnerNodeID := [], pOrphanedUnix := 0\<rparr>)
      in p\<lparr>pVersion := version, pUpdatedUnix := now\<rparr>)"

definition opReassignGuard :: "command \<Rightarrow> Placement option \<Rightarrow> applyResult option" where
  "opReassignGuard cmd full = orElse
     (whenErr (trimSpace (cmExpectedIncarnationID cmd) = []) ErrIncarnationConflict)
     (case full of
        None \<Rightarrow> Some (if cmReassignCause cmd = reassignCauseFailover then ApReassign False else ApNil)
      | Some existing \<Rightarrow> firstOf
          [whenErr (trimSpace (pIncarnationID existing) \<noteq> trimSpace (cmExpectedIncarnationID cmd)) ErrIncarnationConflict,
           whenErr (cmExpectedOwnerNodeIDSet cmd \<and>
                    trimSpace (pOwnerNodeID existing) \<noteq> trimSpace (cmExpectedOwnerNodeID cmd)) ErrStuckReassignNotOwner,
           whenErr (IsDeleting existing) ErrReservationConflict])"

definition opReassign :: "fsmEnv \<Rightarrow> command \<Rightarrow> int \<Rightarrow> placementFSM \<Rightarrow> applyResult \<times> placementFSM" where
  "opReassign env cmd now f =
     (let i = cmSandboxID cmd; full = fullPlacementLocked i f
      in case opReassignGuard cmd full of
           Some r \<Rightarrow> (r, f)
         | None \<Rightarrow>
             let existing = the full;
                 p = reassignRow cmd (fsVersion f) now existing;
                 f = f\<lparr>fsPending := (if IsReserved existing then releasePending i existing (fsPending f) else fsPending f),
                       fsOwnerIndex := releaseOwnerLocked i existing (fsOwnerIndex f)\<rparr>;
                 (err, f) = storeThen env i p f (\<lambda>f.
                   if IsReserved existing then f\<lparr>fsPending := claimPendingReservationLocked i p (fsPending f)\<rparr>
                   else f\<lparr>fsOwnerIndex := claimOwnerLocked i p (fsOwnerIndex f)\<rparr>)
             in (if err = None \<and> cmReassignCause cmd = reassignCauseFailover
                 then ApReassign (pOwnerNodeID existing \<noteq> cmOwnerNodeID cmd) else errOf err, f))"

definition orphanRow :: "string \<Rightarrow> nat \<Rightarrow> int \<Rightarrow> Placement \<Rightarrow> Placement" where
  "orphanRow node version now existing =
     (recordPlacementAuditNode node existing)
       \<lparr>pOwnerNodeID := [], pOwnerAPIURL := [], pOwnerDataPlaneHost := [], pOwnerState := PlacementOwnerStateOrphaned,
        pOrphanedOwnerNodeID := node, pOrphanedUnix := now, pVersion := version, pUpdatedUnix := now\<rparr>"

fun orphanPlaced :: "fsmEnv \<Rightarrow> string \<Rightarrow> int \<Rightarrow> string list \<Rightarrow> placementFSM \<Rightarrow> fsmError option \<times> placementFSM" where
  "orphanPlaced env node now [] f = (None, f)"
| "orphanPlaced env node now (i # is) f =
     (case fullPlacementLocked i f of
        None \<Rightarrow> orphanPlaced env node now is f
      | Some existing \<Rightarrow>
          if IsReserved existing \<or> IsDeleting existing \<or> pOwnerNodeID existing \<noteq> node then orphanPlaced env node now is f
          else (case storeThen env i (orphanRow node (fsVersion f) now existing)
                       (f\<lparr>fsOwnerIndex := releaseOwnerLocked i existing (fsOwnerIndex f)\<rparr>) id of
                  (Some e, f) \<Rightarrow> (Some e, f)
                | (None, f) \<Rightarrow> orphanPlaced env node now is f))"

definition orphanReservedRow :: "string \<Rightarrow> Placement \<Rightarrow> placementFSM \<Rightarrow> placementFSM" where
  "orphanReservedRow i existing f =
     dropRow i
       (releaseShardLocked i
         (f\<lparr>fsNameIndex := releaseNameLocked i (placementName existing) (fsNameIndex f),
            fsOwnerRefIndex := releaseOwnerRefLocked i (pOwnerRef existing) (fsOwnerRefIndex f),
            fsCustomHostnameIndex := releaseAllCustomHostnamesLocked i existing (fsCustomHostnameIndex f),
            fsPending := releasePending i existing (fsPending f),
            fsVolumes := releaseVolumeAttachmentsForIncarnationLocked i (pIncarnationID existing) (fsVolumes f)\<rparr>))"

fun orphanReserved :: "string \<Rightarrow> string list \<Rightarrow> placementFSM \<Rightarrow> placementFSM" where
  "orphanReserved node [] f = f"
| "orphanReserved node (i # is) f =
     (case fullPlacementLocked i f of
        None \<Rightarrow> orphanReserved node is f
      | Some existing \<Rightarrow>
          if \<not> IsReserved existing \<or> pOwnerNodeID existing \<noteq> node then orphanReserved node is f
          else orphanReserved node is (orphanReservedRow i existing f))"

definition forgetSnapshotsOf :: "string \<Rightarrow> placementFSM \<Rightarrow> placementFSM" where
  "forgetSnapshotsOf node f =
     f\<lparr>fsSnapshotNodeIndex := (\<lambda>name. if fsSnapshotNodeIndex f name = Some node then None else fsSnapshotNodeIndex f name)\<rparr>"

definition opOrphanOwner :: "fsmEnv \<Rightarrow> command \<Rightarrow> int \<Rightarrow> placementFSM \<Rightarrow> fsmError option \<times> placementFSM" where
  "opOrphanOwner env cmd now f =
     (let node = cmNodeID cmd
      in if node = [] then (Some ErrMalformed, f)
         else (case orphanPlaced env node now (ownedPlacementIDsLocked node (fsOwnerIndex f)) f of
                 (Some e, f) \<Rightarrow> (Some e, f)
               | (None, f) \<Rightarrow>
                   (None, forgetSnapshotsOf node (orphanReserved node (pendingReservationIDsLocked node (fsPending f)) f))))"

section \<open>Specs and secrets\<close>

text \<open>The rename a new spec brings with it, and the secret handle a command carries.\<close>

definition renameForSpec :: "command \<Rightarrow> Placement \<Rightarrow> (string \<rightharpoonup> string) \<Rightarrow> fsmError option \<times> Placement \<times> (string \<rightharpoonup> string)" where
  "renameForSpec cmd existing names =
     (case cmSpec cmd of
        None \<Rightarrow> (None, existing, names)
      | Some s \<Rightarrow>
          let i = cmSandboxID cmd; oldName = placementName existing; newName = specName (Some s);
              renamed = existing\<lparr>pName := newName, pSpec := Some s\<rparr>
          in if newName \<noteq> oldName
             then (case validateNameUniqueLocked i newName names of
                     Some e \<Rightarrow> (Some e, existing, names)
                   | None \<Rightarrow> (None, renamed, claimNameLocked i newName (releaseNameLocked i oldName names)))
             else (None, renamed, names))"

definition secretsInto :: "command \<Rightarrow> Placement \<Rightarrow> Placement" where
  "secretsInto cmd existing =
     (if \<not> hasSecretUpdate cmd then existing
      else let secrets = applyCommandSecretUpdate (Some existing) cmd
           in existing\<lparr>pSecretRef := psRef secrets, pSecretVersion := psVersion secrets,
                       pSecretSealGeneration := psSealGeneration secrets,
                       pSecretRecipients := (if cmSecretRecipients cmd \<noteq> []
                                             then normalizeSecretRecipientIDs (cmSecretRecipients cmd) else pSecretRecipients existing)\<rparr>)"

definition opClaimOrphanGuard :: "command \<Rightarrow> Placement option \<Rightarrow> applyResult option" where
  "opClaimOrphanGuard cmd full = orElse
     (whenErr (cmSandboxID cmd = [] \<or> cmOwnerNodeID cmd = []) ErrMalformed)
     (case full of
        None \<Rightarrow> Some (ApErr ErrUnknownSandbox)
      | Some existing \<Rightarrow> firstOf
          [whenErr (trimSpace (cmIncarnationID cmd) = [] \<or>
                    trimSpace (pIncarnationID existing) \<noteq> trimSpace (cmIncarnationID cmd)) ErrIncarnationConflict,
           map_option ApErr (validateSecret cmd),
           whenErr (IsReserved existing) ErrReservationConflict,
           whenErr (IsDeleting existing) ErrReservationConflict,
           (if \<not> IsOrphaned existing
            then Some (if pOwnerNodeID existing = cmOwnerNodeID cmd then ApNil else ApErr ErrReservationConflict) else None),
           whenErr (pOrphanedOwnerNodeID existing \<noteq> [] \<and> pOrphanedOwnerNodeID existing \<noteq> cmOwnerNodeID cmd) ErrOrphanClaimConflict])"

definition claimOrphanRow :: "command \<Rightarrow> nat \<Rightarrow> int \<Rightarrow> Placement \<Rightarrow> Placement" where
  "claimOrphanRow cmd version now existing =
     (recordPlacementAuditNode (pOrphanedOwnerNodeID existing) existing)
       \<lparr>pOwnerNodeID := cmOwnerNodeID cmd, pOwnerAPIURL := cmOwnerAPIURL cmd, pOwnerDataPlaneHost := cmOwnerDataPlaneHost cmd,
        pOwnerState := PlacementOwnerStateActive, pOrphanedOwnerNodeID := [], pOrphanedUnix := 0,
        pVersion := version, pUpdatedUnix := now\<rparr>"

definition opClaimOrphan :: "fsmEnv \<Rightarrow> command \<Rightarrow> int \<Rightarrow> placementFSM \<Rightarrow> applyResult \<times> placementFSM" where
  "opClaimOrphan env cmd now f =
     (let i = cmSandboxID cmd; full = fullPlacementLocked i f
      in case opClaimOrphanGuard cmd full of
           Some r \<Rightarrow> (r, f)
         | None \<Rightarrow>
             (case renameForSpec cmd (the full) (fsNameIndex f) of
                (Some e, existing, names) \<Rightarrow> (ApErr e, f)
              | (None, existing, names) \<Rightarrow>
                  let p = claimOrphanRow cmd (fsVersion f) now (secretsInto cmd existing);
                      (err, f) = storeThen env i p (f\<lparr>fsNameIndex := names\<rparr>)
                                   (\<lambda>f. f\<lparr>fsOwnerIndex := claimOwnerLocked i p (fsOwnerIndex f)\<rparr>)
                  in (errOf err, f)))"

definition opUpsertSpecGuard :: "command \<Rightarrow> Placement option \<Rightarrow> applyResult option" where
  "opUpsertSpecGuard cmd full =
     (case full of
        None \<Rightarrow> Some ApNil
      | Some existing \<Rightarrow> firstOf
          [whenErr (IsDeleting existing) ErrReservationConflict,
           (if cmSpec cmd = None \<and> \<not> hasSecretUpdate cmd then Some ApNil else None),
           whenErr (trimSpace (cmExpectedIncarnationID cmd) = [] \<or>
                    trimSpace (pIncarnationID existing) \<noteq> trimSpace (cmExpectedIncarnationID cmd)) ErrIncarnationConflict,
           map_option ApErr (validateSecret cmd)])"

definition opUpsertSpec :: "fsmEnv \<Rightarrow> command \<Rightarrow> int \<Rightarrow> placementFSM \<Rightarrow> applyResult \<times> placementFSM" where
  "opUpsertSpec env cmd now f =
     (let i = cmSandboxID cmd; full = fullPlacementLocked i f
      in case opUpsertSpecGuard cmd full of
           Some r \<Rightarrow> (r, f)
         | None \<Rightarrow>
             (case renameForSpec cmd (the full) (fsNameIndex f) of
                (Some e, existing, names) \<Rightarrow> (ApErr e, f)
              | (None, existing, names) \<Rightarrow>
                  let p = (secretsInto cmd existing)\<lparr>pVersion := fsVersion f, pUpdatedUnix := now\<rparr>;
                      f = f\<lparr>fsNameIndex := names,
                            fsPending := (if IsReserved existing then releasePendingReservationLocked i (fsPending f) else fsPending f)\<rparr>;
                      (err, f) = storeThen env i p f (\<lambda>f.
                        if IsReserved existing then f\<lparr>fsPending := claimPendingReservationLocked i p (fsPending f)\<rparr> else f)
                  in (errOf err, f)))"

definition opUpdateSecretRecipientsGuard :: "command \<Rightarrow> Placement option \<Rightarrow> applyResult option" where
  "opUpdateSecretRecipientsGuard cmd full = orElse
     (map_option ApErr (validateSecretRecipientUpdate (cmSandboxID cmd) (cmSecretRecipients cmd)
        \<lparr>psRef = cmSecretRef cmd, psVersion = cmSecretVersion cmd, psRecipients = [], psOwnerRef = [],
         psIncarnationID = trimSpace (cmExpectedIncarnationID cmd), psSealGeneration = cmSecretSealGeneration cmd\<rparr>
        (trimSpace (cmExpectedIncarnationID cmd)) (cmExpectedSealGeneration cmd)))
     (case full of
        None \<Rightarrow> Some (ApErr ErrUnknownSandbox)
      | Some existing \<Rightarrow> firstOf
          [whenErr (IsDeleting existing) ErrReservationConflict,
           whenErr (trimSpace (pIncarnationID existing) \<noteq> trimSpace (cmExpectedIncarnationID cmd)) ErrSecretRecipientsCASMismatch,
           whenErr (pSecretSealGeneration existing \<noteq> cmExpectedSealGeneration cmd) ErrSecretRecipientsCASMismatch,
           whenErr (cmExpectedOwnerNodeIDSet cmd \<and>
                    trimSpace (pOwnerNodeID existing) \<noteq> trimSpace (cmExpectedOwnerNodeID cmd)) ErrSecretRecipientsCASMismatch])"

definition updateRecipientsRow :: "command \<Rightarrow> nat \<Rightarrow> int \<Rightarrow> Placement \<Rightarrow> Placement" where
  "updateRecipientsRow cmd version now existing0 =
     (let existing = existing0\<lparr>pSecretRecipients := cmSecretRecipients cmd\<rparr>;
          secrets = applyCommandSecretUpdate (Some existing) cmd
      in existing\<lparr>pSecretRef := psRef secrets, pSecretVersion := psVersion secrets,
                  pSecretSealGeneration := cmSecretSealGeneration cmd, pVersion := version, pUpdatedUnix := now\<rparr>)"

definition opUpdateSecretRecipients :: "fsmEnv \<Rightarrow> command \<Rightarrow> int \<Rightarrow> placementFSM \<Rightarrow> applyResult \<times> placementFSM" where
  "opUpdateSecretRecipients env cmd now f =
     (let i = cmSandboxID cmd; full = fullPlacementLocked i f
      in case opUpdateSecretRecipientsGuard cmd full of
           Some r \<Rightarrow> (r, f)
         | None \<Rightarrow> let (err, f) = storeThen env i (updateRecipientsRow cmd (fsVersion f) now (the full)) f id in (errOf err, f))"

section \<open>Ports and hostnames\<close>

text \<open>The check the port and hostname operations share once the row is known.\<close>

definition mutationGuard :: "command \<Rightarrow> Placement \<Rightarrow> applyResult option" where
  "mutationGuard cmd existing = orElse
     (whenErr (IsDeleting existing) ErrReservationConflict)
     (map_option ApErr (requireCurrentPlacementIncarnation existing (cmExpectedIncarnationID cmd)))"

definition portProtocol :: "Placement \<Rightarrow> int \<Rightarrow> string" where
  "portProtocol p port = (case pExposedPorts p port of None \<Rightarrow> [] | Some protocol \<Rightarrow> protocol)"

definition zeroRoute :: ExposedPortRoute where
  "zeroRoute = \<lparr>rtProtocol = [], rtHostPort = 0, rtPublicURL = [], rtVisibility = []\<rparr>"

definition portRoute :: "Placement \<Rightarrow> int \<Rightarrow> ExposedPortRoute" where
  "portRoute p port = (case pExposedPortRoutes p port of None \<Rightarrow> zeroRoute | Some route \<Rightarrow> route)"

definition routeOfCommand :: "command \<Rightarrow> Placement \<Rightarrow> ExposedPortRoute" where
  "routeOfCommand cmd existing =
     \<lparr>rtProtocol = (if cmProtocol cmd = [] then portProtocol existing (cmPort cmd) else cmProtocol cmd),
      rtHostPort = cmHostPort cmd, rtPublicURL = cmPublicURL cmd, rtVisibility = cmVisibility cmd\<rparr>"

definition opAddExposedPortGuard :: "command \<Rightarrow> Placement option \<Rightarrow> (int \<rightharpoonup> hostPortClaim) \<Rightarrow> applyResult option" where
  "opAddExposedPortGuard cmd full ports =
     (case full of
        None \<Rightarrow> Some ApNil
      | Some existing \<Rightarrow>
          if cmPort cmd \<le> 0 then Some ApNil
          else let route = routeOfCommand cmd existing in firstOf
            [mutationGuard cmd existing,
             map_option ApErr (validateHostPortAvailableLocked (cmSandboxID cmd) (cmPort cmd) route ports),
             (if portProtocol existing (cmPort cmd) = rtProtocol route \<and> portRoute existing (cmPort cmd) = route
              then Some ApNil else None)])"

definition addPortRow :: "command \<Rightarrow> nat \<Rightarrow> int \<Rightarrow> Placement \<Rightarrow> Placement" where
  "addPortRow cmd version now existing =
     (let route = routeOfCommand cmd existing
      in existing\<lparr>pExposedPorts := (pExposedPorts existing)(cmPort cmd \<mapsto> rtProtocol route),
                  pExposedPortRoutes := (pExposedPortRoutes existing)(cmPort cmd \<mapsto> route),
                  pVersion := version, pUpdatedUnix := now\<rparr>)"

definition opAddExposedPort :: "fsmEnv \<Rightarrow> command \<Rightarrow> int \<Rightarrow> placementFSM \<Rightarrow> applyResult \<times> placementFSM" where
  "opAddExposedPort env cmd now f =
     (let i = cmSandboxID cmd; full = fullPlacementLocked i f
      in case opAddExposedPortGuard cmd full (fsHostPortIndex f) of
           Some r \<Rightarrow> (r, f)
         | None \<Rightarrow>
             let existing = the full;
                 ports = claimHostPortLocked i (cmPort cmd) (routeOfCommand cmd existing)
                           (releaseHostPortLocked i (cmPort cmd) (portRoute existing (cmPort cmd)) (fsHostPortIndex f));
                 (err, f) = storeThen env i (addPortRow cmd (fsVersion f) now existing) (f\<lparr>fsHostPortIndex := ports\<rparr>) id
             in (errOf err, f))"

definition opRemoveExposedPortGuard :: "command \<Rightarrow> Placement option \<Rightarrow> applyResult option" where
  "opRemoveExposedPortGuard cmd full =
     (case full of
        None \<Rightarrow> Some ApNil
      | Some existing \<Rightarrow>
          if cmPort cmd \<le> 0 then Some ApNil
          else orElse (mutationGuard cmd existing)
                      (if pExposedPorts existing (cmPort cmd) = None then Some ApNil else None))"

definition removePortRow :: "command \<Rightarrow> nat \<Rightarrow> int \<Rightarrow> Placement \<Rightarrow> Placement" where
  "removePortRow cmd version now existing =
     existing\<lparr>pExposedPorts := (pExposedPorts existing)(cmPort cmd := None),
              pExposedPortRoutes := (pExposedPortRoutes existing)(cmPort cmd := None),
              pVersion := version, pUpdatedUnix := now\<rparr>"

definition opRemoveExposedPort :: "fsmEnv \<Rightarrow> command \<Rightarrow> int \<Rightarrow> placementFSM \<Rightarrow> applyResult \<times> placementFSM" where
  "opRemoveExposedPort env cmd now f =
     (let i = cmSandboxID cmd; full = fullPlacementLocked i f
      in case opRemoveExposedPortGuard cmd full of
           Some r \<Rightarrow> (r, f)
         | None \<Rightarrow>
             let existing = the full;
                 ports = releaseHostPortLocked i (cmPort cmd) (portRoute existing (cmPort cmd)) (fsHostPortIndex f);
                 (err, f) = storeThen env i (removePortRow cmd (fsVersion f) now existing) (f\<lparr>fsHostPortIndex := ports\<rparr>) id
             in (errOf err, f))"

definition opAddCustomDomainGuard :: "command \<Rightarrow> Placement option \<Rightarrow> (string \<rightharpoonup> string) \<Rightarrow> applyResult option" where
  "opAddCustomDomainGuard cmd full hosts = orElse
     (whenErr (cmSandboxID cmd = [] \<or> cmHostname cmd = []) ErrMalformed)
     (case full of
        None \<Rightarrow> Some ApNil
      | Some existing \<Rightarrow> firstOf
          [mutationGuard cmd existing,
           (case hosts (cmHostname cmd) of None \<Rightarrow> None | Some owner \<Rightarrow> whenErr (owner \<noteq> cmSandboxID cmd) ErrCustomHostnameConflict),
           (if existingHasHostname existing (cmHostname cmd) then Some ApNil else None)])"

definition addDomainRow :: "command \<Rightarrow> nat \<Rightarrow> int \<Rightarrow> Placement \<Rightarrow> Placement" where
  "addDomainRow cmd version now existing =
     existing\<lparr>pCustomHostnames := insertSortedHostname (pCustomHostnames existing) (cmHostname cmd),
              pVersion := version, pUpdatedUnix := now\<rparr>"

definition opAddCustomDomain :: "fsmEnv \<Rightarrow> command \<Rightarrow> int \<Rightarrow> placementFSM \<Rightarrow> applyResult \<times> placementFSM" where
  "opAddCustomDomain env cmd now f =
     (let i = cmSandboxID cmd; full = fullPlacementLocked i f
      in case opAddCustomDomainGuard cmd full (fsCustomHostnameIndex f) of
           Some r \<Rightarrow> (r, f)
         | None \<Rightarrow>
             let (err, f) = storeThen env i (addDomainRow cmd (fsVersion f) now (the full)) f
                   (\<lambda>f. f\<lparr>fsCustomHostnameIndex := claimCustomHostnameLocked i (cmHostname cmd) (fsCustomHostnameIndex f)\<rparr>)
             in (errOf err, f))"

definition opRemoveCustomDomainGuard :: "command \<Rightarrow> Placement \<Rightarrow> applyResult option" where
  "opRemoveCustomDomainGuard cmd existing = orElse
     (mutationGuard cmd existing)
     (if \<not> existingHasHostname existing (cmHostname cmd) then Some ApNil else None)"

definition removeDomainRow :: "command \<Rightarrow> nat \<Rightarrow> int \<Rightarrow> Placement \<Rightarrow> Placement" where
  "removeDomainRow cmd version now existing =
     existing\<lparr>pCustomHostnames := removeHostname (pCustomHostnames existing) (cmHostname cmd),
              pVersion := version, pUpdatedUnix := now\<rparr>"

definition opRemoveCustomDomain :: "fsmEnv \<Rightarrow> command \<Rightarrow> int \<Rightarrow> placementFSM \<Rightarrow> applyResult \<times> placementFSM" where
  "opRemoveCustomDomain env cmd now f =
     (let i = cmSandboxID cmd;
          drop = (\<lambda>f. f\<lparr>fsCustomHostnameIndex := releaseCustomHostnameLocked i (cmHostname cmd) (fsCustomHostnameIndex f)\<rparr>)
      in if i = [] \<or> cmHostname cmd = [] then (ApErr ErrMalformed, f)
         else (case fullPlacementLocked i f of
                 None \<Rightarrow> (ApNil, drop f)
               | Some existing \<Rightarrow>
                   (case opRemoveCustomDomainGuard cmd existing of
                      Some r \<Rightarrow> (r, f)
                    | None \<Rightarrow> let (err, f) = storeThen env i (removeDomainRow cmd (fsVersion f) now existing) f drop in (errOf err, f))))"

section \<open>The other tables\<close>

definition opRegisterSnapshotNode :: "command \<Rightarrow> (string \<rightharpoonup> string) \<Rightarrow> fsmError option \<times> (string \<rightharpoonup> string)" where
  "opRegisterSnapshotNode cmd m =
     (let name = trimSpace (cmSnapshotName cmd); node = trimSpace (cmNodeID cmd)
      in if name = [] \<or> node = [] then (Some ErrMalformed, m) else (None, m(name \<mapsto> node)))"

definition opForgetSnapshotNode :: "command \<Rightarrow> (string \<rightharpoonup> string) \<Rightarrow> fsmError option \<times> (string \<rightharpoonup> string)" where
  "opForgetSnapshotNode cmd m =
     (let name = trimSpace (cmSnapshotName cmd) in if name = [] then (Some ErrMalformed, m) else (None, m(name := None)))"

definition applyStorage :: "command \<Rightarrow> placementFSM \<Rightarrow> applyResult \<times> placementFSM" where
  "applyStorage cmd f =
     (case cmOp cmd of
        OpSetNodeDrainState \<Rightarrow>
          (let (e, s) = opSetNodeDrainState (fsPlacements f) (cmNodeID cmd) (cmDrained cmd) (cmStampUnixNano cmd) (fsStorage f)
           in (errOf e, f\<lparr>fsStorage := s\<rparr>))
      | OpReportStorageObligations \<Rightarrow>
          (ApNil, f\<lparr>fsStorage := applyObligationReportsLocked (cmObligationReports cmd) (cmStampUnixNano cmd) (fsStorage f)\<rparr>)
      | OpRetireNodeStorage \<Rightarrow>
          (case opRetireNodeStorage (cmNodeID cmd) (cmStorageRetirement cmd) (fsStorage f) of
             (Some e, s) \<Rightarrow> (ApErr e, f)
           | (None, s) \<Rightarrow> (ApNil, f\<lparr>fsStorage := s,
                 fsArtifactCatalog := withdrawArtifactCatalogCoverageLocked (trimSpace (cmNodeID cmd)) (fsArtifactCatalog f)\<rparr>))
      | OpRevokeNodeStorage \<Rightarrow>
          (let (e, s) = opRevokeNodeStorage (cmNodeID cmd) (fsStorage f) in (errOf e, f\<lparr>fsStorage := s\<rparr>))
      | OpPublishArtifactCatalog \<Rightarrow>
          (let (e, c) = opPublishArtifactCatalog ((cmArtifactChunk cmd)\<lparr>chNodeID := cmNodeID cmd\<rparr>) (fsArtifactCatalog f)
           in (errOf e, f\<lparr>fsArtifactCatalog := c\<rparr>))
      | OpAllocateArtifactEpoch \<Rightarrow>
          (let (r, c) = opAllocateArtifactEpoch (chKind (cmArtifactChunk cmd)) (cmNodeID cmd) (cmArtifactHolder cmd) (fsArtifactCatalog f)
           in (case r of Inl e \<Rightarrow> ApErr e | Inr n \<Rightarrow> ApEpoch n, f\<lparr>fsArtifactCatalog := c\<rparr>))
      | OpRegisterSnapshotNode \<Rightarrow>
          (let (e, m) = opRegisterSnapshotNode cmd (fsSnapshotNodeIndex f) in (errOf e, f\<lparr>fsSnapshotNodeIndex := m\<rparr>))
      | OpForgetSnapshotNode \<Rightarrow>
          (let (e, m) = opForgetSnapshotNode cmd (fsSnapshotNodeIndex f) in (errOf e, f\<lparr>fsSnapshotNodeIndex := m\<rparr>))
      | _ \<Rightarrow> (ApErr ErrUnknownOp, f))"

definition applyVolumes :: "command \<Rightarrow> int \<Rightarrow> placementFSM \<Rightarrow> applyResult \<times> placementFSM" where
  "applyVolumes cmd now f =
     (let (e, v) =
        (case cmOp cmd of
           OpUpsertVolume \<Rightarrow> applyUpsertVolume now (cmVolume cmd) (cmMaxPerTenant cmd) (fsVolumes f)
         | OpDeleteVolume \<Rightarrow> applyDeleteVolume (cmVolumeTenant cmd) (cmVolumeID cmd) (cmVolumeReclaimNodeID cmd)
                              (cmVolumeReclaimSource cmd) (cmStampUnixNano cmd) (fsVolumes f)
         | OpPutVolumeAttach \<Rightarrow> applyPutVolumeAttach now (fsPlacements f) (cmVolumeAttachments cmd) (fsVolumes f)
         | OpDeleteVolumeAttach \<Rightarrow> applyDeleteVolumeAttach (fsPlacements f) (cmVolumeSandboxID cmd) (cmExpectedIncarnationID cmd) (fsVolumes f)
         | OpAckVolumeReclaim \<Rightarrow> applyAckVolumeReclaimLocked (cmVolumeReclaim cmd) (fsVolumes f)
         | OpClaimVolumeReclaim \<Rightarrow> applyClaimVolumeReclaimLocked (cmVolumeReclaim cmd) (cmNodeID cmd) (fsVolumes f)
         | _ \<Rightarrow> (Some ErrUnknownOp, fsVolumes f))
      in (errOf e, f\<lparr>fsVolumes := v\<rparr>))"

definition applyRecords :: "fsmEnv \<Rightarrow> command \<Rightarrow> placementFSM \<Rightarrow> applyResult \<times> placementFSM" where
  "applyRecords env cmd f =
     (case cmOp cmd of
        OpPutTeamQuota \<Rightarrow>
          (let (r, q) = applyPutTeamQuotaLocked (cmTeamQuota cmd) (cmStampUnixNano cmd) (fsQuotas f)
           in (case r of Inl e \<Rightarrow> ApErr e | Inr (rec, ch) \<Rightarrow> ApTeamQuota rec ch, f\<lparr>fsQuotas := q\<rparr>))
      | OpDeleteTeamQuota \<Rightarrow>
          (let (e, q) = applyDeleteTeamQuotaLocked (cmTeamQuota cmd) (fsQuotas f) in (errOf e, f\<lparr>fsQuotas := q\<rparr>))
      | OpPutEgressProfile \<Rightarrow>
          (let (r, s) = applyPutEgressProfileLocked (fsPlacements f) (cmEgressProfile cmd) (cmStampUnixNano cmd) (fsEgress f)
           in (case r of Inl e \<Rightarrow> ApErr e | Inr (rec, ch) \<Rightarrow> ApEgressProfile rec ch, f\<lparr>fsEgress := s\<rparr>))
      | OpDeleteEgressProfile \<Rightarrow>
          (let (e, s) = applyDeleteEgressProfileLocked (cmEgressProfile cmd) (fsEgress f) in (errOf e, f\<lparr>fsEgress := s\<rparr>))
      | OpPutAPIToken \<Rightarrow>
          (let (r, s) = applyPutAPITokenLocked (fsVersion f) (cmAPIToken cmd) (cmStampUnixNano cmd) (fsTokens f)
           in (case r of Inl e \<Rightarrow> ApErr e | Inr rec \<Rightarrow> ApToken rec, f\<lparr>fsTokens := s\<rparr>))
      | OpDeleteAPIToken \<Rightarrow>
          (let (e, s) = applyDeleteAPITokenLocked (fsVersion f) (cmAPITokenID cmd) (cmStampUnixNano cmd) (fsTokens f)
           in (errOf e, f\<lparr>fsTokens := s\<rparr>))
      | OpPutWarmPool \<Rightarrow>
          (let (r, s) = applyPutWarmPoolLocked (fsVersion f) (cmWarmPool cmd) (cmStampUnixNano cmd) (fsWarmPools f)
           in (case r of Inl e \<Rightarrow> ApErr e | Inr (rec, ch) \<Rightarrow> ApWarmPool rec ch, f\<lparr>fsWarmPools := s\<rparr>))
      | OpDeleteWarmPool \<Rightarrow>
          (let (e, s) = applyDeleteWarmPoolLocked (fsVersion f) (cmWarmPool cmd) (fsWarmPools f) in (errOf e, f\<lparr>fsWarmPools := s\<rparr>))
      | OpPutIdentityKeys \<Rightarrow>
          (let (r, s) = applyPutIdentityKeysLocked (envKeyID env) (cmIdentityKeys cmd) (fsIdentity f)
           in (case r of Inl e \<Rightarrow> ApErr e | Inr k \<Rightarrow> ApIdentityKeys k, f\<lparr>fsIdentity := s\<rparr>))
      | OpPutIdentityRole \<Rightarrow>
          (let (r, s) = applyPutIdentityRoleLocked (cmIdentityRole cmd) (cmStampUnixNano cmd) (fsIdentity f)
           in (case r of Inl e \<Rightarrow> ApErr e | Inr (rec, ch) \<Rightarrow> ApIdentityRole rec ch, f\<lparr>fsIdentity := s\<rparr>))
      | OpDeleteIdentityRole \<Rightarrow>
          (let (e, s) = applyDeleteIdentityRoleLocked (cmIdentityRole cmd) (fsIdentity f) in (errOf e, f\<lparr>fsIdentity := s\<rparr>))
      | _ \<Rightarrow> (ApErr ErrUnknownOp, f))"

section \<open>Apply\<close>

definition applyPlacement :: "fsmEnv \<Rightarrow> command \<Rightarrow> nat \<Rightarrow> int \<Rightarrow> placementFSM \<Rightarrow> applyResult \<times> placementFSM" where
  "applyPlacement env cmd index now f =
     (case cmOp cmd of
        OpPlace \<Rightarrow> opPlace env cmd now f
      | OpReserve \<Rightarrow> apfst errOf (reservePlacementLocked env cmd now f)
      | OpReserveBatch \<Rightarrow> apfst errOf (opReserveBatch env cmd now f)
      | OpCancelReserve \<Rightarrow> apfst errOf (opCancelReserve cmd f)
      | OpBeginDelete \<Rightarrow> opBeginDelete env cmd now f
      | OpDelete \<Rightarrow> apfst errOf (opDelete cmd index f)
      | OpPruneAuditACL \<Rightarrow> (ApNil, f\<lparr>fsAudit := pruneAuditACLLocked (cmExpiresUnix cmd) (fsAudit f)\<rparr>)
      | OpReassign \<Rightarrow> opReassign env cmd now f
      | OpOrphanOwner \<Rightarrow> apfst errOf (opOrphanOwner env cmd now f)
      | OpClaimOrphan \<Rightarrow> opClaimOrphan env cmd now f
      | OpUpsertSpec \<Rightarrow> opUpsertSpec env cmd now f
      | OpUpdateSecretRecipients \<Rightarrow> opUpdateSecretRecipients env cmd now f
      | OpAddExposedPort \<Rightarrow> opAddExposedPort env cmd now f
      | OpRemoveExposedPort \<Rightarrow> opRemoveExposedPort env cmd now f
      | OpAddCustomDomain \<Rightarrow> opAddCustomDomain env cmd now f
      | OpRemoveCustomDomain \<Rightarrow> opRemoveCustomDomain env cmd now f
      | _ \<Rightarrow> (ApErr ErrUnknownOp, f))"

definition placementOps :: "opCode set" where
  "placementOps = {OpPlace, OpReserve, OpReserveBatch, OpCancelReserve, OpBeginDelete, OpDelete, OpPruneAuditACL, OpReassign,
     OpOrphanOwner, OpClaimOrphan, OpUpsertSpec, OpUpdateSecretRecipients, OpAddExposedPort, OpRemoveExposedPort,
     OpAddCustomDomain, OpRemoveCustomDomain}"

definition storageOps :: "opCode set" where
  "storageOps = {OpSetNodeDrainState, OpReportStorageObligations, OpRetireNodeStorage, OpRevokeNodeStorage,
     OpPublishArtifactCatalog, OpAllocateArtifactEpoch, OpRegisterSnapshotNode, OpForgetSnapshotNode}"

definition volumeOps :: "opCode set" where
  "volumeOps = {OpUpsertVolume, OpDeleteVolume, OpPutVolumeAttach, OpDeleteVolumeAttach, OpAckVolumeReclaim, OpClaimVolumeReclaim}"

definition applyLog :: "fsmEnv \<Rightarrow> command \<Rightarrow> nat \<Rightarrow> int \<Rightarrow> placementFSM \<Rightarrow> applyResult \<times> placementFSM" where
  "applyLog env cmd index now f0 =
     (let f = f0\<lparr>fsVersion := index\<rparr>
      in if cmOp cmd \<in> placementOps then applyPlacement env cmd index now f
         else if cmOp cmd \<in> storageOps then applyStorage cmd f
         else if cmOp cmd \<in> volumeOps then applyVolumes cmd now f
         else applyRecords env cmd f)"

end
