(* ===== verification/Placement_Invariant.thy ===== *)
theory Placement_Invariant
  imports Placement_Ops
begin

text \<open>
  What the placement state machine keeps true of itself.  The \<^emph>\<open>core\<close> invariant speaks of the rows, their payloads in the
  recovery store and the indexes that \<^verbatim>\<open>storePlacementLocked\<close> and the removal of a row maintain on their own (delete
  fence, egress profile references, team usage).  The \<^emph>\<open>index\<close> invariant speaks of the indexes each operation moves by
  hand: names, shards, ordered identifiers, tenants, owners, pending reservations, hostnames, host ports, volume
  attachments.  Each is stated over an explicit table of rows, so that an operation is a change of the table and a
  matching change of every index.
\<close>

section \<open>Rows\<close>

definition settledRow :: "Placement \<Rightarrow> bool" where
  "settledRow p \<longleftrightarrow> trimSpace (pName p) = pName p \<and> (pName p = [] \<longrightarrow> specName (pSpec p) = [])"

definition rowOk :: "string \<Rightarrow> Placement \<Rightarrow> bool" where
  "rowOk i p \<longleftrightarrow> pSandboxID p = i \<and> i \<noteq> [] \<and> trimSpace i = i \<and>
     sorted_wrt (<) (pCustomHostnames p) \<and> [] \<notin> set (pCustomHostnames p) \<and> finite (dom (pExposedPortRoutes p)) \<and>
     (pOwnerState p = PlacementOwnerStateOrphaned \<longrightarrow> pOwnerNodeID p = [])"

definition hotRow :: "Placement \<Rightarrow> bool" where
  "hotRow p \<longleftrightarrow> pSpec p = None \<and> pSecretRef p = [] \<and> pSecretVersion p = 0"

definition payloadOf :: "Placement \<Rightarrow> placementRecovery" where
  "payloadOf p = \<lparr>prSpec = pSpec p, prSecretRef = pSecretRef p, prSecretVersion = pSecretVersion p\<rparr>"

text \<open>The content address: different payloads have different non-empty addresses.\<close>

definition addressesOk :: "fsmEnv \<Rightarrow> bool" where
  "addressesOk env \<longleftrightarrow> inj (case_prod (envRecoveryRef env)) \<and> (\<forall>i rec. envRecoveryRef env i rec \<noteq> [])"

definition storeOk :: "fsmEnv \<Rightarrow> recoveryStore \<Rightarrow> bool" where
  "storeOk env st \<longleftrightarrow> (\<forall>ref i rec. st ref = Some (i, rec) \<longrightarrow> ref = envRecoveryRef env i rec \<and> \<not> recoveryEmpty rec)"

definition usageRows :: "(string \<rightharpoonup> Placement) \<Rightarrow> teamQuotaState \<Rightarrow> bool" where
  "usageRows rows q \<longleftrightarrow> (\<forall>i. map_option teTeam (teamUsageEntries q i) =
     (case rows i of None \<Rightarrow> None | Some p \<Rightarrow> if TeamOfOwnerRef (pOwnerRef p) = [] then None else Some (TeamOfOwnerRef (pOwnerRef p))))"

definition payloadsOk :: "fsmEnv \<Rightarrow> placementFSM \<Rightarrow> bool" where
  "payloadsOk env f \<longleftrightarrow>
     finite (dom (fsPlacements f)) \<and> fsRecovery f = Map.empty \<and> storeOk env (fsRecoveryStore f) \<and>
     (\<forall>i p. fsPlacements f i = Some p \<longrightarrow>
        rowOk i p \<and> hotRow p \<and> (pRecoveryRef p \<noteq> [] \<longrightarrow> fsRecoveryStore f (pRecoveryRef p) \<noteq> None)) \<and>
     (\<forall>i q. fullPlacementLocked i f = Some q \<longrightarrow> settledRow q)"

definition derivedOk :: "placementFSM \<Rightarrow> bool" where
  "derivedOk f \<longleftrightarrow>
     fsDeletingIndex f = {i. \<exists>p. fsPlacements f i = Some p \<and> IsDeleting p} \<and>
     idxExact profileKeySet (fsPlacements f) (egressProfileRefs (fsEgress f)) \<and>
     usageExact (fsQuotas f) \<and> usageRows (fsPlacements f) (fsQuotas f)"

definition coreOk :: "fsmEnv \<Rightarrow> placementFSM \<Rightarrow> bool" where
  "coreOk env f \<longleftrightarrow> payloadsOk env f \<and> derivedOk f"

lemma coreOk_new: "coreOk env (newPlacementFSM\<lparr>fsChanges := c\<rparr>)"
  by (simp add: coreOk_def payloadsOk_def derivedOk_def newPlacementFSM_def storeOk_def fullPlacementLocked_def newEgressProfileState_def
      usageExact_new usageRows_def newTeamQuotaState_def[THEN arg_cong[of _ _ teamUsageEntries]])

lemma attach_hot: "hotRow p \<Longrightarrow> attachPlacementRecovery p \<lparr>prSpec = None, prSecretRef = [], prSecretVersion = 0\<rparr> = p"
  by (simp add: attachPlacementRecovery_def hotRow_def)

text \<open>A row read back is the hot row with the payload behind its reference.\<close>

lemma full_row:
  assumes "coreOk env f" "fullPlacementLocked i f = Some q"
  shows "\<exists>p. fsPlacements f i = Some p \<and> rowOk i p \<and>
     (\<exists>rec. q = attachPlacementRecovery p rec) \<and> settledRow q \<and>
     (pRecoveryRef q \<noteq> [] \<longrightarrow> \<not> recoveryEmpty (payloadOf q))"
proof -
  from assms(2) obtain p where p: "fsPlacements f i = Some p" by (auto simp: fullPlacementLocked_def split: option.splits)
  with assms(1) have row: "rowOk i p" "hotRow p" "pRecoveryRef p \<noteq> [] \<longrightarrow> fsRecoveryStore f (pRecoveryRef p) \<noteq> None"
    and rec: "fsRecovery f i = None" and st: "storeOk env (fsRecoveryStore f)" and set: "settledRow q"
    using assms(2) by (auto simp: coreOk_def payloadsOk_def)
  show ?thesis
  proof (cases "pRecoveryRef p = []")
    case True
    with p rec assms(2) have "q = p" by (simp add: fullPlacementLocked_def)
    with attach_hot[OF row(2)] True show ?thesis using p row set by metis
  next
    case False
    with row obtain j r where jr: "fsRecoveryStore f (pRecoveryRef p) = Some (j, r)" by auto
    with False p assms(2) have "q = attachPlacementRecovery p r"
      by (simp add: fullPlacementLocked_def resolveRecoveryRef_def storeGet_def)
    moreover from jr st have "\<not> recoveryEmpty r" by (auto simp: storeOk_def)
    ultimately show ?thesis using p row set
      by (auto simp: payloadOf_def attachPlacementRecovery_def recoveryEmpty_def)
  qed
qed

lemma full_None: "fullPlacementLocked i f = None \<longleftrightarrow> fsPlacements f i = None"
  by (auto simp: fullPlacementLocked_def split: option.splits)

section \<open>Writing a row\<close>

definition storedRow :: "fsmEnv \<Rightarrow> string \<Rightarrow> Placement \<Rightarrow> Placement" where
  "storedRow env i p =
     (if recoveryEmpty (payloadOf p) then hotPart env p
      else (hotPart env p)\<lparr>pRecoveryRef := envRecoveryRef env i (payloadOf p)\<rparr>)"

lemma storedRow_fields [simp]:
  "pSandboxID (storedRow env i p) = pSandboxID p" "pOwnerNodeID (storedRow env i p) = pOwnerNodeID p"
  "pOwnerState (storedRow env i p) = pOwnerState p" "pOwnerRef (storedRow env i p) = pOwnerRef p"
  "pIncarnationID (storedRow env i p) = pIncarnationID p" "pState (storedRow env i p) = pState p"
  "pExpiresUnix (storedRow env i p) = pExpiresUnix p" "pCustomHostnames (storedRow env i p) = pCustomHostnames p"
  "pExposedPorts (storedRow env i p) = pExposedPorts p" "pExposedPortRoutes (storedRow env i p) = pExposedPortRoutes p"
  "pName (storedRow env i p) = (if pName p = [] then specName (pSpec p) else pName p)"
  by (simp_all add: storedRow_def)

lemma storedRow_hot: "hotRow (storedRow env i p)"
  by (simp add: storedRow_def hotRow_def)

lemma storePlacement_eq:
  assumes "trimSpace i \<noteq> []"
  shows "storePlacementLocked env i p f =
    (None, f\<lparr>fsChanges := recordPlacementChange (fsVersion f) i False (fsChanges f),
             fsPlacements := (fsPlacements f)(i \<mapsto> storedRow env i p),
             fsRecovery := (if recoveryEmpty (payloadOf p) \<and> pRecoveryRef p \<noteq> [] then fsRecovery f else (fsRecovery f)(i := None)),
             fsRecoveryStore := (if recoveryEmpty (payloadOf p) then fsRecoveryStore f
                                 else (fsRecoveryStore f)(envRecoveryRef env i (payloadOf p) \<mapsto> (i, payloadOf p))),
             fsDeletingIndex := indexDeletingStateLocked i p (fsDeletingIndex f),
             fsEgress := reindexEgressProfilesLocked i (fsPlacements f i) (Some (hotPart env p)) (fsEgress f),
             fsQuotas := reindexTeamUsageLocked i (Some (hotPart env p)) (fsQuotas f)\<rparr>)"
proof -
  have split: "splitPlacement env p = (hotPart env p, payloadOf p)"
    by (simp add: hotPart_def splitPlacement_def payloadOf_def Let_def)
  have del: "IsDeleting (hotPart env p) = IsDeleting p" "IsDeleting ((hotPart env p)\<lparr>pRecoveryRef := r\<rparr>) = IsDeleting p" for r
    by (simp_all add: IsDeleting_def)
  show ?thesis
    using assms
    by (auto simp: storePlacementLocked_def split recordPlacementChangeLocked_def putRow_def storePut_def Let_def
        storedRow_def indexDeletingStateLocked_def del)
qed

lemma reindex_team:
  "map_option teTeam (teamUsageEntries (reindexTeamUsageLocked i nu q) j) =
     (if j = i then (if quotaTeamOf nu = [] then None else Some (quotaTeamOf nu)) else map_option teTeam (teamUsageEntries q j))"
  by (auto simp: reindex_decomp enterTeamUsage_def quotaTeamOf_def split: option.split)

lemma usageRows_reindex:
  assumes "usageRows rows q" "\<And>p. nu = Some p \<Longrightarrow> pOwnerRef h = pOwnerRef p"
  shows "usageRows (rows(i := map_option (\<lambda>_. h) nu)) (reindexTeamUsageLocked i nu q)"
  using assms by (cases nu) (auto simp: usageRows_def reindex_team quotaTeamOf_def)

lemma profileKeys_cong:
  "pOwnerRef h = pOwnerRef p \<Longrightarrow> pEgressProfiles h = pEgressProfiles p \<Longrightarrow> profileKeySet i h = profileKeySet i p"
  by (simp add: profileKeySet_def profileKeys_def)

definition writable :: "string \<Rightarrow> Placement \<Rightarrow> bool" where
  "writable i p \<longleftrightarrow> rowOk i p \<and> settledRow p \<and> (pRecoveryRef p \<noteq> [] \<longrightarrow> \<not> recoveryEmpty (payloadOf p))"

lemma full_writable:
  assumes "coreOk env f" "fullPlacementLocked i f = Some q"
  shows "\<exists>p rec. fsPlacements f i = Some p \<and> rowOk i p \<and> q = attachPlacementRecovery p rec \<and> writable i q"
  using full_row[OF assms] by (auto simp: writable_def rowOk_def)

text \<open>The store only grows: an address already taken holds the payload that is being written.\<close>

lemma store_grows:
  assumes "addressesOk env" "storeOk env st" "st ref = Some x"
  shows "(st(envRecoveryRef env i rec \<mapsto> (i, rec))) ref = Some x"
proof (cases "ref = envRecoveryRef env i rec")
  case True
  obtain j r where x: "x = (j, r)" by (cases x)
  with assms(2,3) True have "case_prod (envRecoveryRef env) (j, r) = case_prod (envRecoveryRef env) (i, rec)"
    by (auto simp: storeOk_def)
  with assms(1) have "(j, r) = (i, rec)" unfolding addressesOk_def by (blast dest: injD)
  with x True show ?thesis by simp
qed (use assms in simp)

lemma full_other:
  assumes "fsPlacements g j = fsPlacements f j" "fsRecovery g = fsRecovery f"
    and "\<And>p. fsPlacements f j = Some p \<Longrightarrow> pRecoveryRef p \<noteq> [] \<Longrightarrow>
           fsRecoveryStore g (pRecoveryRef p) = fsRecoveryStore f (pRecoveryRef p)"
  shows "fullPlacementLocked j g = fullPlacementLocked j f"
  using assms by (simp add: fullPlacementLocked_def resolveRecoveryRef_def storeGet_def split: option.split)

lemma stored_settled:
  assumes "writable i p" "\<And>rec. envRecoveryRef env i rec \<noteq> []"
    and "fsPlacements g i = Some (storedRow env i p)" "fsRecovery g i = None"
    and "\<not> recoveryEmpty (payloadOf p) \<Longrightarrow> fsRecoveryStore g (envRecoveryRef env i (payloadOf p)) = Some (i, payloadOf p)"
  shows "\<exists>q. fullPlacementLocked i g = Some q \<and> settledRow q"
proof (cases "recoveryEmpty (payloadOf p)")
  case True
  with assms(1) have "pRecoveryRef p = []" "pSpec p = None" by (auto simp: writable_def recoveryEmpty_def payloadOf_def)
  with True assms have "fullPlacementLocked i g = Some (hotPart env p)"
    by (simp add: fullPlacementLocked_def storedRow_def)
  moreover have "settledRow (hotPart env p)" using assms(1) by (auto simp: writable_def settledRow_def)
  ultimately show ?thesis by blast
next
  case False
  with assms have "fullPlacementLocked i g = Some (attachPlacementRecovery (storedRow env i p) (payloadOf p))"
    by (simp add: fullPlacementLocked_def storedRow_def resolveRecoveryRef_def storeGet_def)
  moreover have "settledRow (attachPlacementRecovery (storedRow env i p) (payloadOf p))"
    using assms(1) by (auto simp: writable_def settledRow_def payloadOf_def)
  ultimately show ?thesis by blast
qed

lemma payloads_store:
  assumes addr: "addressesOk env" and ok: "payloadsOk env f" and w: "writable i p"
  shows "payloadsOk env (snd (storePlacementLocked env i p f))" (is "payloadsOk env ?g")
proof -
  define g where "g = ?g"
  have i: "trimSpace i \<noteq> []" "i \<noteq> []" using w by (auto simp: writable_def rowOk_def)
  have st: "storeOk env (fsRecoveryStore f)" and rec: "fsRecovery f = Map.empty"
    and fin: "finite (dom (fsPlacements f))" using ok by (simp_all add: payloadsOk_def)
  have rows: "fsPlacements g = (fsPlacements f)(i \<mapsto> storedRow env i p)" and "fsRecovery g = Map.empty"
    and store: "fsRecoveryStore g = (if recoveryEmpty (payloadOf p) then fsRecoveryStore f
       else (fsRecoveryStore f)(envRecoveryRef env i (payloadOf p) \<mapsto> (i, payloadOf p)))"
    by (simp_all add: g_def storePlacement_eq[OF i(1)] rec)
  have grows: "fsRecoveryStore g ref = Some x" if "fsRecoveryStore f ref = Some x" for ref x
    using that store_grows[OF addr st] by (simp add: store)
  have refs: "\<exists>x. fsRecoveryStore f (pRecoveryRef q) = Some x" if "fsPlacements f j = Some q" "pRecoveryRef q \<noteq> []" for j q
    using ok that by (auto simp: payloadsOk_def)
  have row: "rowOk i (storedRow env i p)"
    "pRecoveryRef (storedRow env i p) \<noteq> [] \<longrightarrow> fsRecoveryStore g (pRecoveryRef (storedRow env i p)) \<noteq> None"
    using w by (auto simp: writable_def rowOk_def storedRow_def store)
  have "rowOk j q \<and> hotRow q \<and> (pRecoveryRef q \<noteq> [] \<longrightarrow> fsRecoveryStore g (pRecoveryRef q) \<noteq> None)"
    if q: "fsPlacements g j = Some q" for j q
  proof (cases "j = i")
    case False
    with q have old: "fsPlacements f j = Some q" by (simp add: rows)
    with ok have "rowOk j q" "hotRow q" by (simp_all add: payloadsOk_def)
    with refs[OF old] grows show ?thesis by fastforce
  qed (use q row storedRow_hot[of env i p] in \<open>simp add: rows\<close>)
  moreover have "settledRow q" if "fullPlacementLocked j g = Some q" for j q
  proof (cases "j = i")
    case True
    have "\<exists>q. fullPlacementLocked i g = Some q \<and> settledRow q"
      using addr by (intro stored_settled[OF w]) (auto simp: rows store \<open>fsRecovery g = Map.empty\<close> addressesOk_def)
    with that True show ?thesis by auto
  next
    case False
    have "fullPlacementLocked j g = fullPlacementLocked j f"
      using False refs[of j] grows by (intro full_other) (auto simp: rows \<open>fsRecovery g = Map.empty\<close> rec)
    with that ok show ?thesis by (simp add: payloadsOk_def)
  qed
  moreover have "storeOk env (fsRecoveryStore g)" using st by (auto simp: storeOk_def store)
  ultimately have "payloadsOk env g" using fin by (simp add: payloadsOk_def rows \<open>fsRecovery g = Map.empty\<close>)
  then show ?thesis by (simp add: g_def)
qed

lemma derived_store:
  assumes "derivedOk f" "trimSpace i \<noteq> []"
  shows "derivedOk (snd (storePlacementLocked env i p f))"
proof -
  let ?rows = "(fsPlacements f)(i \<mapsto> storedRow env i p)"
  have ok: "idxExact profileKeySet (fsPlacements f) (egressProfileRefs (fsEgress f))" "usageExact (fsQuotas f)"
    "usageRows (fsPlacements f) (fsQuotas f)" "fsDeletingIndex f = {i. \<exists>p. fsPlacements f i = Some p \<and> IsDeleting p}"
    using assms(1) by (simp_all add: derivedOk_def)
  have "indexDeletingStateLocked i p (fsDeletingIndex f) = {j. \<exists>q. ?rows j = Some q \<and> IsDeleting q}"
    by (auto simp: ok indexDeletingStateLocked_def IsDeleting_def)
  moreover have "idxExact profileKeySet ?rows
      (egressProfileRefs (reindexEgressProfilesLocked i (fsPlacements f i) (Some (hotPart env p)) (fsEgress f)))"
    using idxExact_same_keys[OF reindexEgress_exact[OF ok(1), of i "Some (hotPart env p)"], of i "hotPart env p" "storedRow env i p"]
    by (simp add: profileKeySet_def profileKeys_def storedRow_def)
  moreover have "usageRows ?rows (reindexTeamUsageLocked i (Some (hotPart env p)) (fsQuotas f))"
    using usageRows_reindex[OF ok(3), of "Some (hotPart env p)" "storedRow env i p" i] by simp
  ultimately show ?thesis
    by (simp add: derivedOk_def storePlacement_eq[OF assms(2)] usageExact_reindex ok(2))
qed

lemma core_store:
  assumes "addressesOk env" "coreOk env f" "writable i p"
  shows "storePlacementLocked env i p f = (None, snd (storePlacementLocked env i p f))"
    and "coreOk env (snd (storePlacementLocked env i p f))"
    and "fsPlacements (snd (storePlacementLocked env i p f)) = (fsPlacements f)(i \<mapsto> storedRow env i p)"
proof -
  have i: "trimSpace i \<noteq> []" using assms(3) by (auto simp: writable_def rowOk_def)
  then show "storePlacementLocked env i p f = (None, snd (storePlacementLocked env i p f))"
    "fsPlacements (snd (storePlacementLocked env i p f)) = (fsPlacements f)(i \<mapsto> storedRow env i p)"
    by (simp_all add: storePlacement_eq)
  show "coreOk env (snd (storePlacementLocked env i p f))"
    using assms payloads_store[OF assms(1) _ assms(3), of f] derived_store[OF _ i, of f env p] by (simp add: coreOk_def)
qed

lemma store_frame [simp]:
  "fsVersion (snd (storePlacementLocked env i p f)) = fsVersion f"
  "fsNameIndex (snd (storePlacementLocked env i p f)) = fsNameIndex f"
  "fsShardIndex (snd (storePlacementLocked env i p f)) = fsShardIndex f"
  "fsPlacementIDs (snd (storePlacementLocked env i p f)) = fsPlacementIDs f"
  "fsOwnerRefIndex (snd (storePlacementLocked env i p f)) = fsOwnerRefIndex f"
  "fsHostPortIndex (snd (storePlacementLocked env i p f)) = fsHostPortIndex f"
  "fsOwnerIndex (snd (storePlacementLocked env i p f)) = fsOwnerIndex f"
  "fsPending (snd (storePlacementLocked env i p f)) = fsPending f"
  "fsCustomHostnameIndex (snd (storePlacementLocked env i p f)) = fsCustomHostnameIndex f"
  "fsVolumes (snd (storePlacementLocked env i p f)) = fsVolumes f"
  "fsSnapshotNodeIndex (snd (storePlacementLocked env i p f)) = fsSnapshotNodeIndex f"
  by (simp_all add: storePlacementLocked_def recordPlacementChangeLocked_def putRow_def storePut_def Let_def case_prod_beta)

section \<open>Removing a row\<close>

lemma full_drop:
  "fullPlacementLocked j (dropRow i f) = (if j = i then None else fullPlacementLocked j f)"
  by (simp add: dropRow_def deletePlacementRecoveryLocked_def recordPlacementChangeLocked_def fullPlacementLocked_def
      resolveRecoveryRef_def Let_def split: option.split)

lemma drop_frame [simp]:
  "fsPlacements (dropRow i f) = (fsPlacements f)(i := None)" "fsRecoveryStore (dropRow i f) = fsRecoveryStore f"
  "fsVersion (dropRow i f) = fsVersion f" "fsNameIndex (dropRow i f) = fsNameIndex f"
  "fsShardIndex (dropRow i f) = fsShardIndex f" "fsPlacementIDs (dropRow i f) = fsPlacementIDs f"
  "fsOwnerRefIndex (dropRow i f) = fsOwnerRefIndex f" "fsHostPortIndex (dropRow i f) = fsHostPortIndex f"
  "fsOwnerIndex (dropRow i f) = fsOwnerIndex f" "fsPending (dropRow i f) = fsPending f"
  "fsCustomHostnameIndex (dropRow i f) = fsCustomHostnameIndex f" "fsVolumes (dropRow i f) = fsVolumes f"
  "fsSnapshotNodeIndex (dropRow i f) = fsSnapshotNodeIndex f"
  by (simp_all add: dropRow_def deletePlacementRecoveryLocked_def recordPlacementChangeLocked_def Let_def)

lemma core_drop:
  assumes "coreOk env f"
  shows "coreOk env (dropRow i f)"
proof -
  have ok: "idxExact profileKeySet (fsPlacements f) (egressProfileRefs (fsEgress f))" "usageExact (fsQuotas f)"
    "usageRows (fsPlacements f) (fsQuotas f)" "fsDeletingIndex f = {i. \<exists>p. fsPlacements f i = Some p \<and> IsDeleting p}"
    using assms by (simp_all add: coreOk_def derivedOk_def)
  have e: "idxExact profileKeySet ((fsPlacements f)(i := None)) (egressProfileRefs (releaseEgressProfilesLocked (fsPlacements f) i (fsEgress f)))"
  proof (cases "fsPlacements f i")
    case None
    then have "(fsPlacements f)(i := None) = fsPlacements f" by auto
    with None ok(1) show ?thesis by (simp add: releaseEgressProfilesLocked_def)
  qed (use reindexEgress_exact[OF ok(1), of i None] in \<open>simp add: releaseEgressProfilesLocked_def\<close>)
  have u: "usageRows ((fsPlacements f)(i := None)) (reindexTeamUsageLocked i None (fsQuotas f))"
    using usageRows_reindex[OF ok(3), of None undefined i] by simp
  have "payloadsOk env (dropRow i f)"
    using assms by (auto simp: coreOk_def payloadsOk_def full_drop)
       (simp_all add: dropRow_def deletePlacementRecoveryLocked_def recordPlacementChangeLocked_def Let_def)
  moreover have "derivedOk (dropRow i f)"
    using e u ok(2,4) unfolding derivedOk_def
    by (auto simp: dropRow_def deletePlacementRecoveryLocked_def recordPlacementChangeLocked_def Let_def usageExact_reindex)
  ultimately show ?thesis by (simp add: coreOk_def)
qed

lemma full_frame [simp]:
  "fullPlacementLocked i (f\<lparr>fsVersion := v\<rparr>) = fullPlacementLocked i f"
  "fullPlacementLocked i (f\<lparr>fsNameIndex := m\<rparr>) = fullPlacementLocked i f"
  "fullPlacementLocked i (f\<lparr>fsShardIndex := m1\<rparr>) = fullPlacementLocked i f"
  "fullPlacementLocked i (f\<lparr>fsPlacementIDs := m2\<rparr>) = fullPlacementLocked i f"
  "fullPlacementLocked i (f\<lparr>fsOwnerRefIndex := m3\<rparr>) = fullPlacementLocked i f"
  "fullPlacementLocked i (f\<lparr>fsHostPortIndex := m4\<rparr>) = fullPlacementLocked i f"
  "fullPlacementLocked i (f\<lparr>fsOwnerIndex := m5\<rparr>) = fullPlacementLocked i f"
  "fullPlacementLocked i (f\<lparr>fsPending := m6\<rparr>) = fullPlacementLocked i f"
  "fullPlacementLocked i (f\<lparr>fsCustomHostnameIndex := m7\<rparr>) = fullPlacementLocked i f"
  "fullPlacementLocked i (f\<lparr>fsVolumes := m8\<rparr>) = fullPlacementLocked i f"
  "fullPlacementLocked i (f\<lparr>fsAudit := m9\<rparr>) = fullPlacementLocked i f"
  "fullPlacementLocked i (f\<lparr>fsSnapshotNodeIndex := m10\<rparr>) = fullPlacementLocked i f"
  "fullPlacementLocked i (f\<lparr>fsStorage := m11\<rparr>) = fullPlacementLocked i f"
  "fullPlacementLocked i (f\<lparr>fsArtifactCatalog := m12\<rparr>) = fullPlacementLocked i f"
  "fullPlacementLocked i (f\<lparr>fsEgress := m13\<rparr>) = fullPlacementLocked i f"
  "fullPlacementLocked i (f\<lparr>fsQuotas := m14\<rparr>) = fullPlacementLocked i f"
  "fullPlacementLocked i (f\<lparr>fsTokens := m15\<rparr>) = fullPlacementLocked i f"
  "fullPlacementLocked i (f\<lparr>fsWarmPools := m16\<rparr>) = fullPlacementLocked i f"
  "fullPlacementLocked i (f\<lparr>fsIdentity := m17\<rparr>) = fullPlacementLocked i f"
  by (rule full_other; simp)+

lemma core_frame [simp]:
  "coreOk env (f\<lparr>fsVersion := v\<rparr>) = coreOk env f"
  "coreOk env (f\<lparr>fsNameIndex := m\<rparr>) = coreOk env f"
  "coreOk env (f\<lparr>fsShardIndex := m1\<rparr>) = coreOk env f"
  "coreOk env (f\<lparr>fsPlacementIDs := m2\<rparr>) = coreOk env f"
  "coreOk env (f\<lparr>fsOwnerRefIndex := m3\<rparr>) = coreOk env f"
  "coreOk env (f\<lparr>fsHostPortIndex := m4\<rparr>) = coreOk env f"
  "coreOk env (f\<lparr>fsOwnerIndex := m5\<rparr>) = coreOk env f"
  "coreOk env (f\<lparr>fsPending := m6\<rparr>) = coreOk env f"
  "coreOk env (f\<lparr>fsCustomHostnameIndex := m7\<rparr>) = coreOk env f"
  "coreOk env (f\<lparr>fsVolumes := m8\<rparr>) = coreOk env f"
  "coreOk env (f\<lparr>fsAudit := m9\<rparr>) = coreOk env f"
  "coreOk env (f\<lparr>fsSnapshotNodeIndex := m10\<rparr>) = coreOk env f"
  "coreOk env (f\<lparr>fsStorage := m11\<rparr>) = coreOk env f"
  "coreOk env (f\<lparr>fsArtifactCatalog := m12\<rparr>) = coreOk env f"
  "coreOk env (f\<lparr>fsTokens := m15\<rparr>) = coreOk env f"
  "coreOk env (f\<lparr>fsWarmPools := m16\<rparr>) = coreOk env f"
  "coreOk env (f\<lparr>fsIdentity := m17\<rparr>) = coreOk env f"
  by (simp_all add: coreOk_def payloadsOk_def derivedOk_def)

end
