(* ===== verification/Placement_Indexes.thy ===== *)
theory Placement_Indexes
  imports Placement_Invariant
begin

text \<open>
  The indexes the operations of the placement state machine move by hand, each with what it promises about a table of
  rows and with the moves that keep the promise: a row is inserted, replaced or removed, and the index is claimed and
  released to match.  Names, shards and tenants are interpretations of the index contracts; the owner index, the
  pending reservations, the hostnames, the host ports and the volume attachments have promises of their own.
\<close>

section \<open>Names, shards, tenants\<close>

definition nameKeys :: "string \<Rightarrow> Placement \<Rightarrow> string set" where
  "nameKeys i p = {trimSpace (pName p)} - {[]}"

definition shardKeys :: "string \<Rightarrow> Placement \<Rightarrow> int set" where
  "shardKeys i p = set_option (PlacementShardForSandbox i DefaultPlacementShardCount)"

definition ownerRefKeys :: "string \<Rightarrow> Placement \<Rightarrow> string set" where
  "ownerRefKeys i p = (if i = [] \<or> trimSpace i \<noteq> i then {} else {trimSpace (pOwnerRef p)} - {[]})"

interpretation nameIndex: unique_index nameKeys
  "\<lambda>i p. claimNameLocked i (pName p)" "\<lambda>i p. releaseNameLocked i (pName p)"
  by unfold_locales (auto simp: nameKeys_def claimNameLocked_def releaseNameLocked_def Let_def)

interpretation shardIndex: set_index shardKeys "\<lambda>i p. claimShard i" "\<lambda>i p. releaseShard i"
  by unfold_locales (auto simp: shardKeys_def claimShard_def releaseShard_def split: option.splits if_splits)

interpretation ownerRefIndex: set_index ownerRefKeys
  "\<lambda>i p m. if trimSpace i = i then claimOwnerRefLocked i (pOwnerRef p) m else m"
  "\<lambda>i p m. if trimSpace i = i then releaseOwnerRefLocked i (pOwnerRef p) m else m"
  by unfold_locales (auto simp: ownerRefKeys_def claimOwnerRefLocked_def releaseOwnerRefLocked_def Let_def split: if_splits)

lemma name_free:
  assumes "validateNameUniqueLocked i name m = None" "k \<in> {trimSpace name} - {[]}"
  shows "m k = None \<or> m k = Some i"
  using assms by (auto simp: validateNameUniqueLocked_def Let_def split: option.splits if_splits)

lemma names_insert:
  assumes ex: "uniqExact nameKeys rows m" and "rows i = None" "validateNameUniqueLocked i (pName p) m = None"
    "pName h = pName p"
  shows "uniqExact nameKeys (rows(i \<mapsto> h)) (claimNameLocked i (pName p) m)"
proof -
  have "m k = None" if "k \<in> nameKeys i h" for k
    using name_free[OF assms(3), of k] that assms(2,4) ex by (auto simp: nameKeys_def uniqExact_def)
  with nameIndex.insert[OF ex assms(2), of h] assms(4) show ?thesis by simp
qed

lemma names_replace:
  assumes "uniqExact nameKeys rows m" "rows i = Some p" "validateNameUniqueLocked i (pName q) m = None" "pName h = pName q"
  shows "uniqExact nameKeys (rows(i \<mapsto> h)) (claimNameLocked i (pName q) (releaseNameLocked i (pName p) m))"
  using nameIndex.replace[OF assms(1,2), of h] name_free[OF assms(3)] assms(4) by (simp add: nameKeys_def)

lemma names_keep:
  "uniqExact nameKeys rows m \<Longrightarrow> rows i = Some p \<Longrightarrow> pName h = pName p \<Longrightarrow> uniqExact nameKeys (rows(i \<mapsto> h)) m"
  by (rule uniqExact_same_keys) (auto simp: nameKeys_def)

definition shardsOk :: "(string \<rightharpoonup> Placement) \<Rightarrow> (int \<rightharpoonup> string set) \<Rightarrow> string set \<Rightarrow> bool" where
  "shardsOk rows m ids \<longleftrightarrow> idxExact shardKeys rows m \<and> ids = dom rows"

lemma shards_claim: "shardsOk rows m ids \<Longrightarrow> shardsOk (rows(i \<mapsto> h)) (claimShard i m) (insert i ids)"
  by (auto simp: shardsOk_def idxExact_def shardKeys_def claimShard_def split: if_splits option.splits)

lemma shards_keep: "shardsOk rows m ids \<Longrightarrow> rows i = Some p \<Longrightarrow> shardsOk (rows(i \<mapsto> h)) m ids"
  by (auto simp: shardsOk_def shardKeys_def intro: idxExact_same_keys)

lemma shards_release: "shardsOk rows m ids \<Longrightarrow> rows i = Some p \<Longrightarrow> shardsOk (rows(i := None)) (releaseShard i m) (ids - {i})"
  using shardIndex.remove[of rows m i p] by (auto simp: shardsOk_def)

lemma shardLocked_fields [simp]:
  "fsShardIndex (claimShardLocked i f) = (if i = [] then fsShardIndex f else claimShard i (fsShardIndex f))"
  "fsPlacementIDs (claimShardLocked i f) = (if i = [] then fsPlacementIDs f else insert i (fsPlacementIDs f))"
  "fsShardIndex (releaseShardLocked i f) = (if i = [] then fsShardIndex f else releaseShard i (fsShardIndex f))"
  "fsPlacementIDs (releaseShardLocked i f) = (if i = [] then fsPlacementIDs f else fsPlacementIDs f - {i})"
  by (simp_all add: claimShardLocked_def releaseShardLocked_def)

lemma claimShard_frame [simp]:
  "fsPlacements (claimShardLocked i f) = fsPlacements f" "coreOk env (claimShardLocked i f) = coreOk env f"
  "fsNameIndex (claimShardLocked i f) = fsNameIndex f" "fsOwnerRefIndex (claimShardLocked i f) = fsOwnerRefIndex f"
  "fsHostPortIndex (claimShardLocked i f) = fsHostPortIndex f" "fsOwnerIndex (claimShardLocked i f) = fsOwnerIndex f"
  "fsPending (claimShardLocked i f) = fsPending f" "fsCustomHostnameIndex (claimShardLocked i f) = fsCustomHostnameIndex f"
  "fsVolumes (claimShardLocked i f) = fsVolumes f" "fsVersion (claimShardLocked i f) = fsVersion f"
  "fullPlacementLocked j (claimShardLocked i f) = fullPlacementLocked j f"
  by (simp_all add: claimShardLocked_def)

lemma releaseShard_frame [simp]:
  "fsPlacements (releaseShardLocked i f) = fsPlacements f" "coreOk env (releaseShardLocked i f) = coreOk env f"
  "fsNameIndex (releaseShardLocked i f) = fsNameIndex f" "fsOwnerRefIndex (releaseShardLocked i f) = fsOwnerRefIndex f"
  "fsHostPortIndex (releaseShardLocked i f) = fsHostPortIndex f" "fsOwnerIndex (releaseShardLocked i f) = fsOwnerIndex f"
  "fsPending (releaseShardLocked i f) = fsPending f" "fsCustomHostnameIndex (releaseShardLocked i f) = fsCustomHostnameIndex f"
  "fsVolumes (releaseShardLocked i f) = fsVolumes f" "fsVersion (releaseShardLocked i f) = fsVersion f"
  "fullPlacementLocked j (releaseShardLocked i f) = fullPlacementLocked j f"
  by (simp_all add: releaseShardLocked_def)

lemma ownerRef_replace:
  assumes "idxExact ownerRefKeys rows m" "rows i = Some p" "trimSpace i = i" "pOwnerRef h = pOwnerRef q" "pOwnerRef e = pOwnerRef p"
  shows "idxExact ownerRefKeys (rows(i \<mapsto> h)) (claimOwnerRefLocked i (pOwnerRef q) (releaseOwnerRefLocked i (pOwnerRef e) m))"
  using ownerRefIndex.replace[OF assms(1,2), of h] assms(3-5) by simp

lemma ownerRef_insert:
  assumes "idxExact ownerRefKeys rows m" "rows i = None" "trimSpace i = i" "pOwnerRef h = pOwnerRef q"
  shows "idxExact ownerRefKeys (rows(i \<mapsto> h)) (claimOwnerRefLocked i (pOwnerRef q) m)"
  using ownerRefIndex.insert[OF assms(1,2), of h] assms(3,4) by simp

lemma ownerRef_remove:
  assumes "idxExact ownerRefKeys rows m" "rows i = Some p" "trimSpace i = i" "pOwnerRef e = pOwnerRef p"
  shows "idxExact ownerRefKeys (rows(i := None)) (releaseOwnerRefLocked i (pOwnerRef e) m)"
  using ownerRefIndex.remove[OF assms(1,2)] assms(3,4) by simp

lemma ownerRef_keep:
  "idxExact ownerRefKeys rows m \<Longrightarrow> rows i = Some p \<Longrightarrow> pOwnerRef h = pOwnerRef p \<Longrightarrow> idxExact ownerRefKeys (rows(i \<mapsto> h)) m"
  using idxExact_same_keys[of ownerRefKeys rows m i p h] by (simp add: ownerRefKeys_def)

section \<open>Owners\<close>

text \<open>Every active placed row is filed under its owner; a filed row is owned by that node and is neither reserved nor
  orphaned.  A row under deletion may be filed (it was placed) or not (it was reserved).\<close>

definition ownersOk :: "(string \<rightharpoonup> Placement) \<Rightarrow> (string \<rightharpoonup> string set) \<Rightarrow> bool" where
  "ownersOk rows m \<longleftrightarrow> idxWf m \<and>
     (\<forall>n i. i \<in> idxGet m n \<longrightarrow> (\<exists>p. rows i = Some p \<and> pOwnerNodeID p = n \<and> \<not> IsReserved p \<and> \<not> IsOrphaned p)) \<and>
     (\<forall>i p. rows i = Some p \<longrightarrow> pState p = PlacementStatePlaced \<longrightarrow> \<not> IsOrphaned p \<longrightarrow> i \<in> idxGet m (pOwnerNodeID p))"

lemma owners_member: "ownersOk rows m \<Longrightarrow> i \<in> idxGet m n \<Longrightarrow>
    \<exists>p. rows i = Some p \<and> pOwnerNodeID p = n \<and> \<not> IsReserved p \<and> \<not> IsOrphaned p"
  unfolding ownersOk_def by blast

lemma owners_placed: "ownersOk rows m \<Longrightarrow> rows i = Some p \<Longrightarrow> pState p = PlacementStatePlaced \<Longrightarrow> \<not> IsOrphaned p \<Longrightarrow>
    i \<in> idxGet m (pOwnerNodeID p)"
  unfolding ownersOk_def by blast

text \<open>Out of the index: the row is gone, or it is one the index need not file.\<close>

lemma owners_out:
  assumes ok: "ownersOk rows m" and wf: "idxWf m'"
    and sub: "\<And>n j. j \<in> idxGet m' n \<longleftrightarrow> j \<noteq> i \<and> j \<in> idxGet m n"
    and row: "\<And>h. nu = Some h \<Longrightarrow> pState h \<noteq> PlacementStatePlaced \<or> IsOrphaned h"
  shows "ownersOk (rows(i := nu)) m'"
  unfolding ownersOk_def
proof (intro conjI allI impI)
  show "idxWf m'" by (rule wf)
  show "\<exists>p. (rows(i := nu)) j = Some p \<and> pOwnerNodeID p = n \<and> \<not> IsReserved p \<and> \<not> IsOrphaned p"
    if "j \<in> idxGet m' n" for n j
    using that sub[of j n] owners_member[OF ok, of j n] by auto
  show "j \<in> idxGet m' (pOwnerNodeID p)"
    if "(rows(i := nu)) j = Some p" "pState p = PlacementStatePlaced" "\<not> IsOrphaned p" for j p
    using that sub[of j "pOwnerNodeID p"] owners_placed[OF ok, of j p] row by (cases "j = i") auto
qed

lemma releaseOwner_out:
  assumes "ownersOk rows m" "rows i = Some p" "pOwnerNodeID e = pOwnerNodeID p" "i \<noteq> []"
  shows "idxWf (releaseOwnerLocked i e m)" "j \<in> idxGet (releaseOwnerLocked i e m) n \<longleftrightarrow> j \<noteq> i \<and> j \<in> idxGet m n"
proof -
  show "idxWf (releaseOwnerLocked i e m)" using assms(1) by (simp add: releaseOwnerLocked_def ownersOk_def)
  have "n = pOwnerNodeID p \<and> pOwnerNodeID p \<noteq> []" if "i \<in> idxGet m n"
    using owners_member[OF assms(1) that] assms(2) by (auto simp: IsOrphaned_def)
  then show "j \<in> idxGet (releaseOwnerLocked i e m) n \<longleftrightarrow> j \<noteq> i \<and> j \<in> idxGet m n"
    using assms(3,4) by (auto simp: releaseOwnerLocked_def)
qed

lemma owners_drop:
  assumes "ownersOk rows m" "rows i = Some p" "pOwnerNodeID e = pOwnerNodeID p" "i \<noteq> []"
    "\<And>h. nu = Some h \<Longrightarrow> pState h \<noteq> PlacementStatePlaced \<or> IsOrphaned h"
  shows "ownersOk (rows(i := nu)) (releaseOwnerLocked i e m)"
  using releaseOwner_out[OF assms(1-4)] assms(5) by (intro owners_out[OF assms(1)]) auto

lemma owners_absent:
  assumes "ownersOk rows m" "rows i = None \<or> rows i = Some p \<and> (IsReserved p \<or> IsOrphaned p)"
    "\<And>h. nu = Some h \<Longrightarrow> pState h \<noteq> PlacementStatePlaced \<or> IsOrphaned h"
  shows "ownersOk (rows(i := nu)) m"
proof (rule owners_out[OF assms(1)])
  show "idxWf m" using assms(1) by (simp add: ownersOk_def)
  show "j \<in> idxGet m n \<longleftrightarrow> j \<noteq> i \<and> j \<in> idxGet m n" for n j
    using owners_member[OF assms(1), of i n] assms(2) by auto
qed (rule assms(3))

lemma owners_claim:
  assumes ok: "ownersOk (rows(i := None)) m" and h: "pOwnerNodeID h = pOwnerNodeID q" "pState h = pState q" "pOwnerState h = pOwnerState q"
    and i: "i \<noteq> []"
  shows "ownersOk (rows(i \<mapsto> h)) (claimOwnerLocked i q m)"
proof -
  have eq: "IsReserved q = IsReserved h" "IsOrphaned q = IsOrphaned h" using h by (simp_all add: IsReserved_def IsOrphaned_def)
  have get: "j \<in> idxGet (claimOwnerLocked i q m) n \<longleftrightarrow>
      j \<in> idxGet m n \<or> j = i \<and> n = pOwnerNodeID h \<and> \<not> IsReserved h \<and> \<not> IsOrphaned h" for j n
    using i by (auto simp: claimOwnerLocked_def eq h IsOrphaned_def split: if_splits)
  have "idxWf (claimOwnerLocked i q m)" using ok by (simp add: claimOwnerLocked_def ownersOk_def)
  moreover have "\<exists>p. (rows(i \<mapsto> h)) j = Some p \<and> pOwnerNodeID p = n \<and> \<not> IsReserved p \<and> \<not> IsOrphaned p"
    if "j \<in> idxGet (claimOwnerLocked i q m) n" for j n
    using that owners_member[OF ok, of j n] by (cases "j = i") (auto simp: get)
  moreover have "j \<in> idxGet (claimOwnerLocked i q m) (pOwnerNodeID p)"
    if "(rows(i \<mapsto> h)) j = Some p" "pState p = PlacementStatePlaced" "\<not> IsOrphaned p" for j p
    using that owners_placed[OF ok, of j p] by (cases "j = i") (auto simp: get IsReserved_def)
  ultimately show ?thesis unfolding ownersOk_def by blast
qed

lemma owners_replace:
  assumes "ownersOk rows m" "rows i = Some p" "pOwnerNodeID e = pOwnerNodeID p" "i \<noteq> []"
    "pOwnerNodeID h = pOwnerNodeID q" "pState h = pState q" "pOwnerState h = pOwnerState q"
  shows "ownersOk (rows(i \<mapsto> h)) (claimOwnerLocked i q (releaseOwnerLocked i e m))"
  using owners_claim[OF owners_drop[OF assms(1-4), of None]] assms(4-) by simp

lemma owners_insert:
  assumes "ownersOk rows m" "rows i = None \<or> rows i = Some p \<and> (IsReserved p \<or> IsOrphaned p)" "i \<noteq> []"
    "pOwnerNodeID h = pOwnerNodeID q" "pState h = pState q" "pOwnerState h = pOwnerState q"
  shows "ownersOk (rows(i \<mapsto> h)) (claimOwnerLocked i q m)"
  using owners_claim[OF owners_absent[OF assms(1,2), of None]] assms(3-) by simp

text \<open>The owner stays: a placed row may also go under deletion.\<close>

lemma owners_keep:
  assumes "ownersOk rows m" "rows i = Some p" "pOwnerNodeID h = pOwnerNodeID p" "pOwnerState h = pOwnerState p"
    "pState h = pState p \<or> pState h = PlacementStateDeleting"
  shows "ownersOk (rows(i \<mapsto> h)) m"
proof -
  have eq: "IsOrphaned h = IsOrphaned p" "IsReserved h \<Longrightarrow> IsReserved p" "pState h = PlacementStatePlaced \<Longrightarrow> pState p = PlacementStatePlaced"
    using assms(3-5) by (auto simp: IsOrphaned_def IsReserved_def)
  have "\<exists>q. (rows(i \<mapsto> h)) j = Some q \<and> pOwnerNodeID q = n \<and> \<not> IsReserved q \<and> \<not> IsOrphaned q" if "j \<in> idxGet m n" for j n
    using owners_member[OF assms(1) that] assms(2,3) eq by (cases "j = i") auto
  moreover have "j \<in> idxGet m (pOwnerNodeID q)"
    if "(rows(i \<mapsto> h)) j = Some q" "pState q = PlacementStatePlaced" "\<not> IsOrphaned q" for j q
    using that assms(2,3) eq owners_placed[OF assms(1)] by (cases "j = i") auto
  moreover have "idxWf m" using assms(1) by (simp add: ownersOk_def)
  ultimately show ?thesis unfolding ownersOk_def by blast
qed

section \<open>Pending reservations\<close>

definition pendingKeys :: "string \<Rightarrow> Placement \<Rightarrow> string set" where
  "pendingKeys i p = (if IsReserved p \<and> i \<noteq> [] then {pOwnerNodeID p} - {[]} else {})"

definition reservedOk :: "(string \<rightharpoonup> Placement) \<Rightarrow> pendingState \<Rightarrow> bool" where
  "reservedOk rows s \<longleftrightarrow> pendingOk s \<and> dom (pendingReservationClaims s) \<subseteq> reservedIndex s \<and>
     reservedIndex s = {i. \<exists>p. rows i = Some p \<and> IsReserved p} \<and>
     idxExact pendingKeys rows (pendingReservationIDsByOwner s)"

lemma idxExactI:
  "idxWf m \<Longrightarrow> (\<And>j k. j \<in> idxGet m k \<longleftrightarrow> (\<exists>r. rows j = Some r \<and> k \<in> ks j r)) \<Longrightarrow> idxExact ks rows m"
  unfolding idxExact_def by blast

lemma releasePendingReservation_fields [simp]:
  "pendingReservationClaims (releasePendingReservationLocked i s) = (pendingReservationClaims s)(i := None)"
  "reservedIndex (releasePendingReservationLocked i s) = reservedIndex s - {i}"
  "pendingReservationIDsByOwner (releasePendingReservationLocked i s) = pendingReservationIDsByOwner s"
  by (simp_all add: releasePendingReservationLocked_def Let_def releaseClaim_claims)
     (auto simp: releasePendingReservationClaimLocked_def Let_def split: option.split)

lemma releasePending_fields [simp]:
  "pendingReservationClaims (releasePending i e s) = (pendingReservationClaims s)(i := None)"
  "reservedIndex (releasePending i e s) = reservedIndex s - {i}"
  "pendingReservationIDsByOwner (releasePending i e s) =
     (if i = [] \<or> pOwnerNodeID e = [] then pendingReservationIDsByOwner s
      else idxDel (pOwnerNodeID e) i (pendingReservationIDsByOwner s))"
  by (simp_all add: releasePending_def releasePendingReservationOwnerLocked_def)

lemma pendingOk_releasePending: "pendingOk s \<Longrightarrow> pendingOk (releasePending i e s)"
  by (simp add: releasePending_def pendingOk_release pendingOk_releaseOwner)

lemma reserved_release:
  assumes ok: "reservedOk rows s" and row: "rows i = Some p" "pOwnerNodeID e = pOwnerNodeID p"
    and nu: "\<And>h. nu = Some h \<Longrightarrow> \<not> IsReserved h"
  shows "reservedOk (rows(i := nu)) (releasePending i e s)"
proof -
  have ex: "idxExact pendingKeys rows (pendingReservationIDsByOwner s)" using ok by (simp add: reservedOk_def)
  have keys: "pendingKeys i h = {}" if "nu = Some h" for h using nu[OF that] by (simp add: pendingKeys_def)
  have "idxWf (pendingReservationIDsByOwner (releasePending i e s))" using ex by (simp add: idxExact_def)
  moreover have "j \<in> idxGet (pendingReservationIDsByOwner (releasePending i e s)) k \<longleftrightarrow>
      (\<exists>q. (rows(i := nu)) j = Some q \<and> k \<in> pendingKeys j q)" for j k
    using row keys idxExact_member[OF ex, of j k] by (cases "j = i") (auto simp: pendingKeys_def split: if_splits)
  ultimately have "idxExact pendingKeys (rows(i := nu)) (pendingReservationIDsByOwner (releasePending i e s))"
    by (rule idxExactI)
  moreover have "reservedIndex s - {i} = {j. \<exists>q. (rows(i := nu)) j = Some q \<and> IsReserved q}"
    using ok nu by (auto simp: reservedOk_def)
  ultimately show ?thesis using ok by (auto simp: reservedOk_def pendingOk_releasePending)
qed

lemma claimPending_fields:
  assumes "pendingReservationClaims s i = None" "i \<noteq> []" "IsReserved q"
  shows "dom (pendingReservationClaims (claimPendingReservationLocked i q s)) = insert i (dom (pendingReservationClaims s))"
    "reservedIndex (claimPendingReservationLocked i q s) = insert i (reservedIndex s)"
    "pendingReservationIDsByOwner (claimPendingReservationLocked i q s) =
       (if pOwnerNodeID q = [] then pendingReservationIDsByOwner s
        else idxAdd (pOwnerNodeID q) i (pendingReservationIDsByOwner s))"
  using assms by (auto simp: claimPendingReservationLocked_def Let_def pushExpiry_def claimPendingReservationOwnerLocked_def)

lemma pendingIndex_claim:
  assumes "idxExact pendingKeys rows m" "i \<noteq> []" "IsReserved h" "pOwnerNodeID h = pOwnerNodeID q"
    and old: "\<And>p. rows i = Some p \<Longrightarrow> IsReserved p \<and> pOwnerNodeID p = pOwnerNodeID q"
  shows "idxExact pendingKeys (rows(i \<mapsto> h)) (if pOwnerNodeID q = [] then m else idxAdd (pOwnerNodeID q) i m)" (is "idxExact _ _ ?m")
proof -
  have "idxWf ?m" using assms(1) by (simp add: idxExact_def)
  moreover have "j \<in> idxGet ?m k \<longleftrightarrow> (\<exists>r. (rows(i \<mapsto> h)) j = Some r \<and> k \<in> pendingKeys j r)" for j k
    using assms(2-4) old idxExact_member[OF assms(1), of j k]
    by (cases "j = i") (auto simp: pendingKeys_def split: if_splits)
  ultimately show ?thesis by (rule idxExactI)
qed

lemma reserved_claim:
  assumes ok: "reservedOk (rows(i := None)) s" and i: "i \<noteq> []"
    and h: "pOwnerNodeID h = pOwnerNodeID q" "IsReserved h" "IsReserved q"
  shows "reservedOk (rows(i \<mapsto> h)) (claimPendingReservationLocked i q s)"
proof -
  have none: "pendingReservationClaims s i = None" using ok by (auto simp: reservedOk_def)
  have "idxExact pendingKeys (rows(i := None)) (pendingReservationIDsByOwner s)" using ok by (simp add: reservedOk_def)
  from pendingIndex_claim[OF this i h(2,1)] ok h show ?thesis
    by (auto simp: reservedOk_def claimPending_fields[OF none i h(3)] pendingOk_claim)
qed

text \<open>A changed spec: the claim is dropped and made again, the owner's set keeps the row throughout.\<close>

lemma reserved_reclaim:
  assumes ok: "reservedOk rows s" and row: "rows i = Some p" "IsReserved p" "i \<noteq> []"
    and h: "pOwnerNodeID h = pOwnerNodeID q" "IsReserved h" "IsReserved q" "pOwnerNodeID q = pOwnerNodeID p"
  shows "reservedOk (rows(i \<mapsto> h)) (claimPendingReservationLocked i q (releasePendingReservationLocked i s))"
proof -
  let ?t = "releasePendingReservationLocked i s"
  have none: "pendingReservationClaims ?t i = None" by simp
  have "idxExact pendingKeys rows (pendingReservationIDsByOwner s)" using ok by (simp add: reservedOk_def)
  from pendingIndex_claim[OF this row(3) h(2,1)] row h(4) have
    "idxExact pendingKeys (rows(i \<mapsto> h)) (pendingReservationIDsByOwner (claimPendingReservationLocked i q ?t))"
    unfolding claimPending_fields[OF none row(3) h(3)] releasePendingReservation_fields by auto
  with ok h show ?thesis
    by (auto simp: reservedOk_def claimPending_fields(1,2)[OF none row(3) h(3)] pendingOk_claim pendingOk_release)
qed

lemma reserved_keep:
  assumes "reservedOk rows s" "rows i = Some p" "pOwnerNodeID h = pOwnerNodeID p" "IsReserved h = IsReserved p"
  shows "reservedOk (rows(i \<mapsto> h)) s"
  using assms idxExact_same_keys[of pendingKeys rows "pendingReservationIDsByOwner s" i p h]
  by (auto simp: reservedOk_def pendingKeys_def)

lemma reserved_outside:
  assumes "reservedOk rows s" "rows i = None \<or> rows i = Some p \<and> \<not> IsReserved p" "\<And>h. nu = Some h \<Longrightarrow> \<not> IsReserved h"
  shows "reservedOk (rows(i := nu)) s"
proof -
  have none: "pendingKeys i q = {}" if "rows i = Some q \<or> nu = Some q" for q
    using assms(2,3) that by (auto simp: pendingKeys_def)
  have "idxExact pendingKeys (rows(i := nu)) m = idxExact pendingKeys rows m" for m
  proof -
    have "{j. \<exists>r. (rows(i := nu)) j = Some r \<and> k \<in> pendingKeys j r} = {j. \<exists>r. rows j = Some r \<and> k \<in> pendingKeys j r}" for k
      using none by (intro Collect_cong) (auto split: if_splits)
    then show ?thesis by (simp add: idxExact_def)
  qed
  moreover have "{j. \<exists>q. (rows(i := nu)) j = Some q \<and> IsReserved q} = {j. \<exists>q. rows j = Some q \<and> IsReserved q}"
    using assms(2,3) by (intro Collect_cong) (auto split: if_splits)
  ultimately show ?thesis using assms(1) unfolding reservedOk_def by (elim conjE, intro conjI) simp_all
qed

lemma reserved_refresh: "reservedOk rows s \<Longrightarrow> reservedOk rows (refreshPendingReservationExpiryLocked i x s)"
  using pendingOk_refresh[of s i x]
  by (auto simp: reservedOk_def refreshPendingReservationExpiryLocked_def pushExpiry_def split: option.splits)

section \<open>Hostnames and host ports\<close>

text \<open>For both the index may hold stale entries, but every hostname and every bound host port of a row is filed under
  that row, so no two rows hold the same one.\<close>

definition hostKeys :: "string \<Rightarrow> Placement \<Rightarrow> string set" where
  "hostKeys i p = set (pCustomHostnames p)"

lemma releaseAllHostnames_at:
  assumes "i \<noteq> []"
  shows "releaseAllCustomHostnamesLocked i p m h =
    (if h \<in> set (pCustomHostnames p) \<and> h \<noteq> [] \<and> m h = Some i then None else m h)"
proof -
  have "fold (releaseCustomHostnameLocked i) hs m h = (if h \<in> set hs \<and> h \<noteq> [] \<and> m h = Some i then None else m h)" for hs
    using assms by (induction hs arbitrary: m) (auto simp: releaseCustomHostnameLocked_def split: option.split)
  then show ?thesis by (simp add: releaseAllCustomHostnamesLocked_def)
qed

lemma hosts_weaken:
  assumes "uniqCovers hostKeys rows m" "\<And>k j. m k = Some j \<Longrightarrow> j \<noteq> i \<Longrightarrow> m' k = Some j" "\<And>h. nu = Some h \<Longrightarrow> pCustomHostnames h = []"
  shows "uniqCovers hostKeys (rows(i := nu)) m'"
  using assms by (auto simp: uniqCovers_def hostKeys_def split: if_splits)

lemma hosts_remove:
  "uniqCovers hostKeys rows m \<Longrightarrow> i \<noteq> [] \<Longrightarrow> uniqCovers hostKeys (rows(i := None)) (releaseAllCustomHostnamesLocked i e m)"
  by (rule hosts_weaken[of rows m i _ None]) (auto simp: releaseAllHostnames_at)

lemma hosts_keep:
  "uniqCovers hostKeys rows m \<Longrightarrow> rows i = Some p \<Longrightarrow> pCustomHostnames h = pCustomHostnames p \<Longrightarrow> uniqCovers hostKeys (rows(i \<mapsto> h)) m"
  using uniqCovers_sub_keys[of hostKeys rows m i p h] by (simp add: hostKeys_def)

lemma hosts_add:
  assumes "uniqCovers hostKeys rows m" "rows i = Some p" "i \<noteq> []" "n \<noteq> []" "m n = None \<or> m n = Some i"
    "set (pCustomHostnames h) = insert n (set (pCustomHostnames p))"
  shows "uniqCovers hostKeys (rows(i \<mapsto> h)) (claimCustomHostnameLocked i n m)"
  using assms by (fastforce simp: uniqCovers_def hostKeys_def claimCustomHostnameLocked_def split: if_splits)

lemma hosts_del:
  assumes "uniqCovers hostKeys rows m" "rows i = Some p" "i \<noteq> []"
    "set (pCustomHostnames h) = set (pCustomHostnames p) - {n}"
  shows "uniqCovers hostKeys (rows(i \<mapsto> h)) (releaseCustomHostnameLocked i n m)"
  using assms by (auto simp: uniqCovers_def hostKeys_def releaseCustomHostnameLocked_def split: if_splits option.splits)

lemma hosts_stale:
  "uniqCovers hostKeys rows m \<Longrightarrow> rows i = None \<Longrightarrow> i \<noteq> [] \<Longrightarrow> uniqCovers hostKeys rows (releaseCustomHostnameLocked i n m)"
  by (fastforce simp: uniqCovers_def releaseCustomHostnameLocked_def split: option.splits)

definition portsOk :: "(string \<rightharpoonup> Placement) \<Rightarrow> (int \<rightharpoonup> hostPortClaim) \<Rightarrow> bool" where
  "portsOk rows m \<longleftrightarrow> (\<forall>i p port r. rows i = Some p \<longrightarrow> pExposedPortRoutes p port = Some r \<longrightarrow> tcpRoute r \<longrightarrow>
     m (rtHostPort r) = Some \<lparr>hpSandboxID = i, hpPort = port\<rparr>)"

lemma portsD: "portsOk rows m \<Longrightarrow> rows i = Some p \<Longrightarrow> pExposedPortRoutes p port = Some r \<Longrightarrow> tcpRoute r \<Longrightarrow>
    m (rtHostPort r) = Some \<lparr>hpSandboxID = i, hpPort = port\<rparr>"
  unfolding portsOk_def by blast

lemma portsI: "(\<And>i p port r. rows i = Some p \<Longrightarrow> pExposedPortRoutes p port = Some r \<Longrightarrow> tcpRoute r \<Longrightarrow>
    m (rtHostPort r) = Some \<lparr>hpSandboxID = i, hpPort = port\<rparr>) \<Longrightarrow> portsOk rows m"
  unfolding portsOk_def by blast

lemma ports_weaken:
  assumes "portsOk rows m" "\<And>k c. m k = Some c \<Longrightarrow> hpSandboxID c \<noteq> i \<Longrightarrow> m' k = Some c"
    "\<And>h. nu = Some h \<Longrightarrow> pExposedPortRoutes h = Map.empty"
  shows "portsOk (rows(i := nu)) m'"
  using assms(2,3) portsD[OF assms(1)] by (intro portsI) (force split: if_splits)

lemma releasePort_other: "m k = Some c \<Longrightarrow> c \<noteq> \<lparr>hpSandboxID = i, hpPort = port\<rparr> \<Longrightarrow> releaseHostPortLocked i port route m k = Some c"
  by (auto simp: releaseHostPortLocked_def)

lemma releaseAllPorts_others:
  assumes "m k = Some c" "hpSandboxID c \<noteq> i"
  shows "releaseAllHostPortsLocked i p m k = Some c"
proof -
  have ne: "c \<noteq> \<lparr>hpSandboxID = i, hpPort = port\<rparr>" for port using assms(2) by auto
  have "fold (\<lambda>port m. case routes port of None \<Rightarrow> m | Some route \<Rightarrow> releaseHostPortLocked i port route m) ps m k = Some c"
    if "m k = Some c" for ps m routes
    using that by (induction ps arbitrary: m) (simp_all add: releasePort_other ne split: option.split)
  with assms(1) show ?thesis by (simp add: releaseAllHostPortsLocked_def Let_def)
qed

lemma ports_remove: "portsOk rows m \<Longrightarrow> portsOk (rows(i := None)) (releaseAllHostPortsLocked i e m)"
  by (rule ports_weaken[of rows m i _ None]) (auto intro: releaseAllPorts_others)

lemma ports_keep:
  "portsOk rows m \<Longrightarrow> rows i = Some p \<Longrightarrow> pExposedPortRoutes h = pExposedPortRoutes p \<Longrightarrow> portsOk (rows(i \<mapsto> h)) m"
  using portsD[of rows m] by (intro portsI) (auto split: if_splits)

lemma ports_release:
  assumes "portsOk rows m" "rows i = Some p" "pExposedPortRoutes h = (pExposedPortRoutes p)(port := None)"
  shows "portsOk (rows(i \<mapsto> h)) (releaseHostPortLocked i port route m)"
proof (rule portsI)
  fix j q po r
  assume row: "(rows(i \<mapsto> h)) j = Some q" "pExposedPortRoutes q po = Some r" "tcpRoute r"
  then have "m (rtHostPort r) = Some \<lparr>hpSandboxID = j, hpPort = po\<rparr>" "\<not> (j = i \<and> po = port)"
    using portsD[OF assms(1), of j _ po r] assms(2,3) by (auto split: if_splits)
  then show "releaseHostPortLocked i port route m (rtHostPort r) = Some \<lparr>hpSandboxID = j, hpPort = po\<rparr>"
    by (intro releasePort_other) auto
qed

lemma ports_claim:
  assumes "portsOk (rows(i \<mapsto> h)) m" "pExposedPortRoutes h port = None" "pExposedPortRoutes h' = (pExposedPortRoutes h)(port \<mapsto> route)"
    and "m (rtHostPort route) = None \<or> m (rtHostPort route) = Some \<lparr>hpSandboxID = i, hpPort = port\<rparr> \<or> \<not> tcpRoute route"
  shows "portsOk (rows(i \<mapsto> h')) (claimHostPortLocked i port route m)"
proof (rule portsI)
  fix j p po r
  assume row: "(rows(i \<mapsto> h')) j = Some p" "pExposedPortRoutes p po = Some r" "tcpRoute r"
  show "claimHostPortLocked i port route m (rtHostPort r) = Some \<lparr>hpSandboxID = j, hpPort = po\<rparr>"
  proof (cases "j = i \<and> po = port")
    case True
    with row assms(3) show ?thesis by (auto simp: claimHostPortLocked_def)
  next
    case False
    with row assms(3) have "m (rtHostPort r) = Some \<lparr>hpSandboxID = j, hpPort = po\<rparr>"
      using portsD[OF assms(1), of j _ po r] by (auto split: if_splits)
    with False assms(4) show ?thesis by (auto simp: claimHostPortLocked_def)
  qed
qed

section \<open>Volume attachments\<close>

definition attachOk :: "(string \<rightharpoonup> Placement) \<Rightarrow> volumeState \<Rightarrow> bool" where
  "attachOk rows v \<longleftrightarrow> volumesWf v \<and> (\<forall>key a. volumeAttachments v key = Some a \<longrightarrow>
     (\<exists>p. rows (vaSandboxID a) = Some p \<and> trimSpace (pIncarnationID p) = vaIncarnationID a \<and> vaIncarnationID a \<noteq> []))"

lemma attachD: "attachOk rows v \<Longrightarrow> volumeAttachments v key = Some a \<Longrightarrow>
    \<exists>p. rows (vaSandboxID a) = Some p \<and> trimSpace (pIncarnationID p) = vaIncarnationID a \<and> vaIncarnationID a \<noteq> []"
  unfolding attachOk_def by blast

lemma releaseOf_sub:
  "volumeAttachments (releaseAttachmentOf inc k v) key = Some a \<Longrightarrow> volumeAttachments v key = Some a"
  by (cases "key = k") (auto simp: releaseAttachmentOf_def releaseVolumeAttachmentKeyLocked_def split: option.splits if_splits)

lemma releaseOf_own:
  "inc = trimSpace (vaIncarnationID a) \<Longrightarrow> volumeAttachments (releaseAttachmentOf inc key v) key \<noteq> Some a"
  by (auto simp: releaseAttachmentOf_def releaseVolumeAttachmentKeyLocked_def split: option.splits)

lemma releaseFold_sub:
  "volumeAttachments (fold (releaseAttachmentOf inc) ks v) key = Some a \<Longrightarrow> volumeAttachments v key = Some a"
proof (induction ks arbitrary: v)
  case (Cons k ks)
  from Cons.IH[of "releaseAttachmentOf inc k v"] Cons.prems show ?case by (auto intro: releaseOf_sub)
qed simp

lemma releaseFold_own:
  assumes "inc = trimSpace (vaIncarnationID a)"
  shows "volumeAttachments (fold (releaseAttachmentOf inc) ks v) key = Some a \<Longrightarrow> key \<notin> set ks"
proof (induction ks arbitrary: v)
  case (Cons k ks)
  from Cons.prems have "volumeAttachments (releaseAttachmentOf inc k v) key = Some a"
    using releaseFold_sub[of inc ks "releaseAttachmentOf inc k v"] by simp
  then have "key \<noteq> k" using releaseOf_own[OF assms] by blast
  with Cons show ?case by simp
qed simp

lemma release_attachments_sub:
  "volumeAttachments (releaseVolumeAttachmentsLocked i inc v) key = Some a \<Longrightarrow> volumeAttachments v key = Some a"
  by (cases "trimSpace i = []", simp add: releaseVolumeAttachmentsLocked_def,
      simp add: releaseVolumeAttachmentsLocked_def, erule releaseFold_sub)

lemma release_attachments_gone:
  assumes "volumesWf v" "trimSpace i = i" "i \<noteq> []"
    "volumeAttachments (releaseVolumeAttachmentsLocked i inc v) key = Some a" "trimSpace (vaIncarnationID a) = inc"
  shows "vaSandboxID a \<noteq> i"
proof
  assume i: "vaSandboxID a = i"
  let ?ks = "idxGet (volumeAttachmentsBySandbox v) i"
  have ex: "idxExact bySandboxKeys (volumeAttachments v) (volumeAttachmentsBySandbox v)"
    using assms(1) by (simp add: volumesWf_def)
  have "volumeAttachments v key = Some a" using assms(4) by (rule release_attachments_sub)
  then have "key \<in> set (sorted_list_of_set ?ks)"
    using i idxExact_member[OF ex, of key i] idxExact_finite[OF ex, of i] by (auto simp: bySandboxKeys_def)
  moreover have "volumeAttachments (fold (releaseAttachmentOf inc) (sorted_list_of_set ?ks) v) key = Some a"
    using assms(2-4) by (simp add: releaseVolumeAttachmentsLocked_def)
  ultimately show False using releaseFold_own[OF assms(5)[symmetric]] by blast
qed

lemma attach_weaken:
  assumes "attachOk rows v" "volumesWf v'"
    "\<And>key a. volumeAttachments v' key = Some a \<Longrightarrow> volumeAttachments v key = Some a \<and> vaSandboxID a \<noteq> i"
  shows "attachOk (rows(i := nu)) v'"
  using assms(2,3) attachD[OF assms(1)] unfolding attachOk_def by force

lemma attach_release:
  assumes "attachOk rows v" "rows i = Some p" "trimSpace i = i" "i \<noteq> []" "trimSpace inc = trimSpace (pIncarnationID p)"
  shows "attachOk (rows(i := nu)) (releaseVolumeAttachmentsForIncarnationLocked i inc v)"
proof -
  have wf: "volumesWf v" using assms(1) by (simp add: attachOk_def)
  show ?thesis
  proof (cases "trimSpace inc = []")
    case True
    have "vaSandboxID a \<noteq> i" if "volumeAttachments v key = Some a" for key a
      using attachD[OF assms(1) that] assms(2,5) True by auto
    with True wf show ?thesis
      by (auto simp: releaseVolumeAttachmentsForIncarnationLocked_def intro: attach_weaken[OF assms(1)])
  next
    case False
    let ?v = "releaseVolumeAttachmentsLocked i (trimSpace inc) v"
    have "volumeAttachments v key = Some a \<and> vaSandboxID a \<noteq> i" if a: "volumeAttachments ?v key = Some a" for key a
    proof -
      have old: "volumeAttachments v key = Some a" using a by (rule release_attachments_sub)
      have "trimSpace (vaIncarnationID a) = trimSpace inc" if "vaSandboxID a = i"
        using attachD[OF assms(1) old] assms(2,5) that by (metis option.inject trimSpace_idem)
      with release_attachments_gone[OF wf assms(3,4) a] old show ?thesis by auto
    qed
    with attach_weaken[OF assms(1) release_attachments_wf[OF wf]] False show ?thesis
      by (simp add: releaseVolumeAttachmentsForIncarnationLocked_def)
  qed
qed

lemma attach_keep:
  assumes "attachOk rows v" "\<And>p. rows i = Some p \<Longrightarrow> trimSpace (pIncarnationID p) \<noteq> [] \<Longrightarrow>
    trimSpace (pIncarnationID h) = trimSpace (pIncarnationID p)"
  shows "attachOk (rows(i \<mapsto> h)) v"
  using assms(1) attachD[OF assms(1)] assms(2) unfolding attachOk_def by fastforce

end
