(* ===== verification/Placement_Run.thy ===== *)
theory Placement_Run
  imports Placement_Indexes
begin

text \<open>
  The invariant of the whole placement state machine and its preservation by every log entry.
\<close>

section \<open>The invariant\<close>

definition indexOk :: "(string \<rightharpoonup> Placement) \<Rightarrow> placementFSM \<Rightarrow> bool" where
  "indexOk rows f \<longleftrightarrow>
     uniqExact nameKeys rows (fsNameIndex f) \<and> shardsOk rows (fsShardIndex f) (fsPlacementIDs f) \<and>
     idxExact ownerRefKeys rows (fsOwnerRefIndex f) \<and> ownersOk rows (fsOwnerIndex f) \<and>
     reservedOk rows (fsPending f) \<and> uniqCovers hostKeys rows (fsCustomHostnameIndex f) \<and>
     portsOk rows (fsHostPortIndex f) \<and> attachOk rows (fsVolumes f)"

definition fsmOk :: "fsmEnv \<Rightarrow> placementFSM \<Rightarrow> bool" where
  "fsmOk env f \<longleftrightarrow> coreOk env f \<and> indexOk (fsPlacements f) f"

lemma indexD:
  assumes "indexOk rows f"
  shows "uniqExact nameKeys rows (fsNameIndex f)" "shardsOk rows (fsShardIndex f) (fsPlacementIDs f)"
    "idxExact ownerRefKeys rows (fsOwnerRefIndex f)" "ownersOk rows (fsOwnerIndex f)" "reservedOk rows (fsPending f)"
    "uniqCovers hostKeys rows (fsCustomHostnameIndex f)" "portsOk rows (fsHostPortIndex f)" "attachOk rows (fsVolumes f)"
  using assms by (simp_all add: indexOk_def)

lemma fsmOk_new: "fsmOk env (newPlacementFSM\<lparr>fsChanges := c\<rparr>)"
proof -
  have "indexOk Map.empty newPlacementFSM"
    using pendingOk_new volumesWf_new
    by (simp add: indexOk_def newPlacementFSM_def shardsOk_def ownersOk_def reservedOk_def portsOk_def attachOk_def
        newPendingState_def newVolumeState_def)
  then show ?thesis using coreOk_new[of env c] by (simp add: fsmOk_def indexOk_def newPlacementFSM_def)
qed

text \<open>What a row shows to the indexes.\<close>

definition sameKeys :: "Placement \<Rightarrow> Placement \<Rightarrow> bool" where
  "sameKeys h p \<longleftrightarrow> pName h = pName p \<and> pOwnerRef h = pOwnerRef p \<and> pOwnerNodeID h = pOwnerNodeID p \<and>
     pOwnerState h = pOwnerState p \<and> pState h = pState p \<and> pCustomHostnames h = pCustomHostnames p \<and>
     pExposedPortRoutes h = pExposedPortRoutes p \<and> pIncarnationID h = pIncarnationID p"

lemma storedRow_keys: "writable i p \<Longrightarrow> sameKeys (storedRow env i p) p"
  by (auto simp: sameKeys_def writable_def settledRow_def)

lemma index_keep:
  assumes "indexOk rows f" "rows i = Some p" "sameKeys h p"
  shows "indexOk (rows(i \<mapsto> h)) f"
  using indexD[OF assms(1)] assms(2,3)
  by (auto simp: indexOk_def sameKeys_def IsReserved_def intro: names_keep shards_keep ownerRef_keep owners_keep reserved_keep hosts_keep
      ports_keep attach_keep)

section \<open>Writing through the store\<close>

lemma storeThen_eq:
  assumes "writable i p"
  shows "storeThen env i p f k = (None, k (snd (storePlacementLocked env i p f)))"
  using assms by (auto simp: writable_def rowOk_def storeThen_def storePlacement_eq)

lemma fsmOk_stored:
  assumes "addressesOk env" "coreOk env f" "writable i p"
    and "\<And>g. coreOk env g \<Longrightarrow> coreOk env (k g)" "\<And>g. fsPlacements (k g) = fsPlacements g"
    and "indexOk ((fsPlacements f)(i \<mapsto> storedRow env i p)) (k (snd (storePlacementLocked env i p f)))"
  shows "fsmOk env (snd (storeThen env i p f k))"
  using core_store(2,3)[OF assms(1-3)] assms(4-6) by (simp add: storeThen_eq[OF assms(3)] fsmOk_def)

lemma index_store [simp]:
  "indexOk rows (snd (storePlacementLocked env i p f)) = indexOk rows f"
  by (simp add: indexOk_def)

text \<open>A row is read, changed without touching what the indexes see, and written back.\<close>

lemma fsmOk_rewrite:
  assumes "addressesOk env" "fsmOk env f" "fullPlacementLocked i f = Some q" "writable i p" "sameKeys p q"
  shows "fsmOk env (snd (storeThen env i p f id))"
proof -
  from assms(2) have core: "coreOk env f" and idx: "indexOk (fsPlacements f) f" by (simp_all add: fsmOk_def)
  from full_writable[OF core assms(3)] obtain r rec where r: "fsPlacements f i = Some r" "q = attachPlacementRecovery r rec"
    by blast
  have "sameKeys (storedRow env i p) r"
    using storedRow_keys[OF assms(4)] assms(5) r(2) by (simp add: sameKeys_def)
  from index_keep[OF idx r(1) this] show ?thesis
    by (intro fsmOk_stored[OF assms(1) core assms(4)]) simp_all
qed

lemma secretUpdate_kept:
  assumes "validateSecret cmd = None \<or> psVersion (placementSecrets cmd) = RefVersion"
    and "psRef (applyCommandSecretUpdate (Some e) cmd) = []" "psVersion (applyCommandSecretUpdate (Some e) cmd) = 0"
  shows "pSecretRef e = [] \<and> pSecretVersion e = 0"
  using assms
  by (auto simp: applyCommandSecretUpdate_def validateSecret_def validatePlacementSecretHandle_def RefVersion_def
      secretsFromPlacement_def hasSecretUpdate_def hasUpdate_def Let_def split: if_splits)

lemma opUpdateSecretRecipients_ok:
  assumes "addressesOk env" "fsmOk env f"
  shows "fsmOk env (snd (opUpdateSecretRecipients env cmd now f))"
proof (cases "opUpdateSecretRecipientsGuard cmd (fullPlacementLocked (cmSandboxID cmd) f)")
  case None
  then obtain q where q: "fullPlacementLocked (cmSandboxID cmd) f = Some q"
    and v: "cmSecretVersion cmd = RefVersion"
    by (auto simp: opUpdateSecretRecipientsGuard_def validateSecretRecipientUpdate_def Let_def split: option.splits if_splits)
  let ?p = "updateRecipientsRow cmd (fsVersion f) now q"
  have "writable (cmSandboxID cmd) q" using full_writable[OF _ q] assms(2) by (auto simp: fsmOk_def)
  then have "writable (cmSandboxID cmd) ?p"
    using v by (auto simp: writable_def updateRecipientsRow_def rowOk_def settledRow_def payloadOf_def recoveryEmpty_def
        applyCommandSecretUpdate_def placementSecrets_def hasSecretUpdate_def hasUpdate_def RefVersion_def Let_def)
  moreover have "sameKeys ?p q" by (simp add: sameKeys_def updateRecipientsRow_def Let_def)
  ultimately have "fsmOk env (snd (storeThen env (cmSandboxID cmd) ?p f id))"
    by (rule fsmOk_rewrite[OF assms q])
  with None q show ?thesis by (simp add: opUpdateSecretRecipients_def Let_def case_prod_beta)
qed (use assms in \<open>simp add: opUpdateSecretRecipients_def\<close>)

section \<open>Operations on a row that exists\<close>

lemma existing_row:
  assumes "fsmOk env f" "fullPlacementLocked i f = Some q"
  obtains r where "fsPlacements f i = Some r" "sameKeys q r" "writable i q" "i \<noteq> []" "trimSpace i = i"
    "coreOk env f" "indexOk (fsPlacements f) f"
  using assms full_writable[of env f i q] by (auto simp: fsmOk_def sameKeys_def rowOk_def)

lemma settled_name: "settledRow q \<Longrightarrow> placementName q = pName q"
  by (auto simp: settledRow_def placementName_def)

lemmas [row_state] = IsReserved_def IsDeleting_def IsOrphaned_def

text \<open>The three moves of the reservation and owner indexes that several operations share.\<close>

lemma reserved_settle:
  assumes "reservedOk rows s" "rows i = Some r" "sameKeys q r" "\<And>h. nu = Some h \<Longrightarrow> \<not> IsReserved h"
  shows "reservedOk (rows(i := nu)) (if IsReserved q then releasePending i q s else s)"
proof (cases "IsReserved q")
  case True
  with reserved_release[OF assms(1,2) _ assms(4)] assms(3) show ?thesis by (simp add: sameKeys_def)
next
  case False
  with reserved_outside[OF assms(1) _ assms(4)] assms(2,3) show ?thesis by (simp add: sameKeys_def row_state)
qed

lemma reserved_move:
  assumes "reservedOk rows s" "rows i = Some r" "sameKeys q r" "i \<noteq> []" "pState p = pState q" "sameKeys h p"
  shows "reservedOk (rows(i \<mapsto> h)) (if IsReserved q then claimPendingReservationLocked i p (releasePending i q s) else s)"
proof (cases "IsReserved q")
  case True
  with reserved_release[OF assms(1,2), of q None] assms(3) have "reservedOk (rows(i := None)) (releasePending i q s)"
    by (simp add: sameKeys_def)
  from reserved_claim[OF this assms(4), of h p] True assms(5,6) show ?thesis by (simp add: sameKeys_def row_state)
next
  case False
  with reserved_outside[OF assms(1), of i r "Some h"] assms(2,3,5,6) show ?thesis by (simp add: sameKeys_def row_state)
qed

lemma owners_move:
  assumes "ownersOk rows m" "rows i = Some r" "sameKeys q r" "i \<noteq> []" "pState p = pState q" "sameKeys h p"
  shows "ownersOk (rows(i \<mapsto> h)) (if IsReserved q then releaseOwnerLocked i q m else claimOwnerLocked i p (releaseOwnerLocked i q m))"
proof (cases "IsReserved q")
  case True
  with owners_drop[OF assms(1,2), of q "Some h"] assms(3-6) show ?thesis by (simp add: sameKeys_def row_state)
next
  case False
  with owners_replace[OF assms(1,2), of q h p] assms(3-6) show ?thesis by (simp add: sameKeys_def)
qed

lemma opBeginDelete_ok:
  assumes "addressesOk env" "fsmOk env f"
  shows "fsmOk env (snd (opBeginDelete env cmd now f))"
proof (cases "opBeginDeleteGuard cmd (fullPlacementLocked (cmSandboxID cmd) f)")
  case None
  define i where "i = cmSandboxID cmd"
  from None obtain q where q: "fullPlacementLocked i f = Some q"
    by (auto simp: i_def opBeginDeleteGuard_def split: option.splits)
  from existing_row[OF assms(2) q] obtain r where r: "fsPlacements f i = Some r" "sameKeys q r" "writable i q" "i \<noteq> []"
    and core: "coreOk env f" and idx: "indexOk (fsPlacements f) f" by metis
  define p where "p = beginDeleteRow cmd (fsVersion f) now q"
  have w: "writable i p"
    using r(3) by (simp add: p_def beginDeleteRow_def writable_def rowOk_def settledRow_def payloadOf_def)
  have h: "sameKeys ((storedRow env i p)\<lparr>pState := pState r\<rparr>) r" "pState (storedRow env i p) = PlacementStateDeleting"
      "\<not> IsReserved (storedRow env i p)"
    using r(2,3) by (auto simp: p_def beginDeleteRow_def sameKeys_def writable_def settledRow_def IsReserved_def)
  define g where "g = (if IsReserved q then f\<lparr>fsPending := releasePending i q (fsPending f)\<rparr> else f)"
  have "reservedOk ((fsPlacements f)(i \<mapsto> storedRow env i p)) (fsPending g)"
    using reserved_settle[OF indexD(5)[OF idx] r(1,2), of "Some (storedRow env i p)"] h(3)
    by (simp add: g_def split: if_splits)
  with indexD[OF idx] r(1) h have "indexOk ((fsPlacements f)(i \<mapsto> storedRow env i p)) g"
    by (auto simp: indexOk_def g_def sameKeys_def intro: names_keep shards_keep ownerRef_keep owners_keep hosts_keep ports_keep
        attach_keep)
  then have "fsmOk env (snd (storeThen env i p g id))"
    using core by (cases "IsReserved q"; intro fsmOk_stored[OF assms(1) _ w]) (simp_all add: g_def)
  moreover have "fsVersion g = fsVersion f" by (simp add: g_def)
  ultimately show ?thesis using None q
    by (simp add: opBeginDelete_def i_def[symmetric] g_def[symmetric] p_def Let_def case_prod_beta)
qed (use assms in \<open>simp add: opBeginDelete_def\<close>)

lemma reassignRow_keeps:
  "pName (reassignRow cmd v now q) = pName q" "pOwnerRef (reassignRow cmd v now q) = pOwnerRef q"
  "pState (reassignRow cmd v now q) = pState q" "pCustomHostnames (reassignRow cmd v now q) = pCustomHostnames q"
  "pExposedPortRoutes (reassignRow cmd v now q) = pExposedPortRoutes q"
  "pIncarnationID (reassignRow cmd v now q) = pIncarnationID q" "pSandboxID (reassignRow cmd v now q) = pSandboxID q"
  "payloadOf (reassignRow cmd v now q) = payloadOf q" "pRecoveryRef (reassignRow cmd v now q) = pRecoveryRef q"
  "pSpec (reassignRow cmd v now q) = pSpec q"
  "pOwnerState (reassignRow cmd v now q) = PlacementOwnerStateOrphaned \<longrightarrow> pOwnerNodeID (reassignRow cmd v now q) = []"
  by (simp_all add: reassignRow_def payloadOf_def Let_def)

lemma opReassign_ok:
  assumes "addressesOk env" "fsmOk env f"
  shows "fsmOk env (snd (opReassign env cmd now f))"
proof (cases "opReassignGuard cmd (fullPlacementLocked (cmSandboxID cmd) f)")
  case None
  define i where "i = cmSandboxID cmd"
  from None obtain q where q: "fullPlacementLocked i f = Some q"
    by (auto simp: i_def opReassignGuard_def split: option.splits)
  from existing_row[OF assms(2) q] obtain r where r: "fsPlacements f i = Some r" "sameKeys q r" "writable i q" "i \<noteq> []"
    and core: "coreOk env f" and idx: "indexOk (fsPlacements f) f" by metis
  define p where "p = reassignRow cmd (fsVersion f) now q"
  note keys = reassignRow_keeps[of cmd "fsVersion f" now q, folded p_def]
  have w: "writable i p" using r(3) keys by (simp add: writable_def rowOk_def settledRow_def)
  have h: "sameKeys (storedRow env i p) p" by (rule storedRow_keys[OF w])
  define g where "g = f\<lparr>fsPending := (if IsReserved q then releasePending i q (fsPending f) else fsPending f),
                       fsOwnerIndex := releaseOwnerLocked i q (fsOwnerIndex f)\<rparr>"
  define k where "k = (\<lambda>f::placementFSM. if IsReserved q then f\<lparr>fsPending := claimPendingReservationLocked i p (fsPending f)\<rparr>
                            else f\<lparr>fsOwnerIndex := claimOwnerLocked i p (fsOwnerIndex f)\<rparr>)"
  let ?rows = "(fsPlacements f)(i \<mapsto> storedRow env i p)"
  have "reservedOk ?rows (fsPending (k g))" "ownersOk ?rows (fsOwnerIndex (k g))"
    using reserved_move[OF indexD(5)[OF idx] r(1,2,4) keys(3) h] owners_move[OF indexD(4)[OF idx] r(1,2,4) keys(3) h]
    by (auto simp: k_def g_def split: if_splits)
  then have "indexOk ?rows (k g)"
    using indexD[OF idx] r(1,2) h keys
    by (auto simp: indexOk_def k_def g_def sameKeys_def intro: names_keep shards_keep ownerRef_keep hosts_keep ports_keep
        attach_keep)
  then have "indexOk ?rows (k (snd (storePlacementLocked env i p g)))"
    by (cases "IsReserved q") (simp_all add: indexOk_def k_def)
  then have "fsmOk env (snd (storeThen env i p g k))"
    using core by (intro fsmOk_stored[OF assms(1) _ w]) (simp_all add: g_def k_def)
  with None q show ?thesis unfolding k_def p_def
    by (simp add: opReassign_def i_def[symmetric] g_def[symmetric] Let_def case_prod_beta)
qed (use assms in \<open>simp add: opReassign_def\<close>)

lemma orphanRow_keeps:
  "pName (orphanRow node v now q) = pName q" "pOwnerRef (orphanRow node v now q) = pOwnerRef q"
  "pState (orphanRow node v now q) = pState q" "pCustomHostnames (orphanRow node v now q) = pCustomHostnames q"
  "pExposedPortRoutes (orphanRow node v now q) = pExposedPortRoutes q"
  "pIncarnationID (orphanRow node v now q) = pIncarnationID q" "pSandboxID (orphanRow node v now q) = pSandboxID q"
  "payloadOf (orphanRow node v now q) = payloadOf q" "pRecoveryRef (orphanRow node v now q) = pRecoveryRef q"
  "pSpec (orphanRow node v now q) = pSpec q" "pOwnerNodeID (orphanRow node v now q) = []"
  by (simp_all add: orphanRow_def payloadOf_def)

lemma orphanStep_ok:
  assumes "addressesOk env" "fsmOk env f" "fullPlacementLocked i f = Some q" "\<not> IsReserved q"
  shows "\<exists>g. storeThen env i (orphanRow node v now q) (f\<lparr>fsOwnerIndex := releaseOwnerLocked i q (fsOwnerIndex f)\<rparr>) id = (None, g) \<and>
    fsmOk env g \<and> fsPlacements g = (fsPlacements f)(i \<mapsto> storedRow env i (orphanRow node v now q))"
proof -
  from existing_row[OF assms(2,3)] obtain r where r: "fsPlacements f i = Some r" "sameKeys q r" "writable i q" "i \<noteq> []"
    and core: "coreOk env f" and idx: "indexOk (fsPlacements f) f" by metis
  define p where "p = orphanRow node v now q"
  define g where "g = f\<lparr>fsOwnerIndex := releaseOwnerLocked i q (fsOwnerIndex f)\<rparr>"
  note keys = orphanRow_keeps[of node v now q, folded p_def]
  have w: "writable i p" using r(3) keys by (simp add: writable_def rowOk_def settledRow_def)
  have h: "sameKeys (storedRow env i p) p" by (rule storedRow_keys[OF w])
  have "IsOrphaned (storedRow env i p)" using keys by (simp add: IsOrphaned_def)
  then have "ownersOk ((fsPlacements f)(i \<mapsto> storedRow env i p)) (releaseOwnerLocked i q (fsOwnerIndex f))"
    using owners_drop[OF indexD(4)[OF idx] r(1) _ r(4), of q "Some (storedRow env i p)"] r(2) by (simp add: sameKeys_def)
  moreover have "reservedOk ((fsPlacements f)(i \<mapsto> storedRow env i p)) (fsPending f)"
    using reserved_outside[OF indexD(5)[OF idx], of i r "Some (storedRow env i p)"] r(1,2) keys assms(4)
    by (simp add: sameKeys_def IsReserved_def)
  ultimately have "indexOk ((fsPlacements f)(i \<mapsto> storedRow env i p)) g"
    using indexD[OF idx] r(1,2) h keys
    by (auto simp: indexOk_def g_def sameKeys_def intro: names_keep shards_keep ownerRef_keep hosts_keep ports_keep attach_keep)
  then have "fsmOk env (snd (storeThen env i p g id))"
    using core by (intro fsmOk_stored[OF assms(1) _ w]) (simp_all add: g_def)
  moreover have "fsPlacements (snd (storePlacementLocked env i p g)) = (fsPlacements f)(i \<mapsto> storedRow env i p)"
    using core_store(3)[OF assms(1) _ w, of g] core by (simp add: g_def)
  ultimately show ?thesis by (simp add: storeThen_eq[OF w] p_def[symmetric] g_def[symmetric])
qed

lemma orphanPlaced_ok:
  assumes "addressesOk env" "fsmOk env f"
  shows "fst (orphanPlaced env node now is f) = None \<and> fsmOk env (snd (orphanPlaced env node now is f))"
  using assms(2)
proof (induction "is" arbitrary: f)
  case (Cons i "is")
  show ?case
  proof (cases "fullPlacementLocked i f")
    case (Some q)
    show ?thesis
    proof (cases "IsReserved q \<or> IsDeleting q \<or> pOwnerNodeID q \<noteq> node")
      case False
      from False orphanStep_ok[OF assms(1) Cons.prems Some, of node "fsVersion f" now]
      obtain g where "storeThen env i (orphanRow node (fsVersion f) now q)
          (f\<lparr>fsOwnerIndex := releaseOwnerLocked i q (fsOwnerIndex f)\<rparr>) id = (None, g)" "fsmOk env g" by auto
      with Cons.IH[of g] Some False show ?thesis by simp
    qed (use Cons Some in simp)
  qed (use Cons in simp)
qed simp

section \<open>Specs\<close>

text \<open>The rename that comes with a new spec keeps the name index exact for the row as it will be written.\<close>

lemma rename_ok:
  assumes "renameForSpec cmd q names = (None, e, names')" "uniqExact nameKeys rows names" "rows i = Some r" "i = cmSandboxID cmd"
    and "sameKeys q r" "writable i q"
  shows "writable i e" "pName h = pName e \<Longrightarrow> uniqExact nameKeys (rows(i \<mapsto> h)) names'"
proof -
  have name: "placementName q = pName q" "pName q = pName r" using assms(5,6) by (auto simp: writable_def settled_name sameKeys_def)
  have cases: "cmSpec cmd = None \<and> e = q \<and> names' = names \<or>
    (\<exists>s. cmSpec cmd = Some s \<and> e = q\<lparr>pName := specName (Some s), pSpec := Some s\<rparr> \<and>
       (if specName (Some s) = pName r then names' = names
        else validateNameUniqueLocked i (specName (Some s)) names = None \<and>
             names' = claimNameLocked i (specName (Some s)) (releaseNameLocked i (pName r) names)))"
    using assms(1,4) name by (auto simp: renameForSpec_def Let_def split: option.splits if_splits)
  then show "writable i e"
    using assms(6) by (auto simp: writable_def rowOk_def settledRow_def payloadOf_def recoveryEmpty_def)
  show "uniqExact nameKeys (rows(i \<mapsto> h)) names'" if h: "pName h = pName e"
  proof (cases "pName e = pName r")
    case True
    with cases name have "names' = names" by (auto split: if_splits)
    with names_keep[OF assms(2,3)] h True show ?thesis by simp
  next
    case False
    with cases name have "validateNameUniqueLocked i (pName e) names = None"
      "names' = claimNameLocked i (pName e) (releaseNameLocked i (pName r) names)" by auto
    with names_replace[OF assms(2,3) _ h] show ?thesis by simp
  qed
qed

lemma rename_keeps:
  assumes "renameForSpec cmd q names = (err, e, names')"
  shows "pOwnerRef e = pOwnerRef q" "pState e = pState q" "pCustomHostnames e = pCustomHostnames q"
    "pExposedPortRoutes e = pExposedPortRoutes q" "pIncarnationID e = pIncarnationID q" "pOwnerNodeID e = pOwnerNodeID q"
    "pOwnerState e = pOwnerState q"
  using assms by (auto simp: renameForSpec_def Let_def split: option.splits if_splits)

lemma secretsInto_ok:
  assumes "writable i q" "validateSecret cmd = None"
  shows "writable i (secretsInto cmd q)" "sameKeys (secretsInto cmd q) q"
  using assms secretUpdate_kept[of cmd q]
  by (auto simp: secretsInto_def writable_def rowOk_def settledRow_def payloadOf_def recoveryEmpty_def sameKeys_def Let_def)

lemma claimOrphanRow_keeps:
  "pName (claimOrphanRow cmd v now q) = pName q" "pOwnerRef (claimOrphanRow cmd v now q) = pOwnerRef q"
  "pState (claimOrphanRow cmd v now q) = pState q" "pCustomHostnames (claimOrphanRow cmd v now q) = pCustomHostnames q"
  "pExposedPortRoutes (claimOrphanRow cmd v now q) = pExposedPortRoutes q"
  "pIncarnationID (claimOrphanRow cmd v now q) = pIncarnationID q" "pSandboxID (claimOrphanRow cmd v now q) = pSandboxID q"
  "payloadOf (claimOrphanRow cmd v now q) = payloadOf q" "pRecoveryRef (claimOrphanRow cmd v now q) = pRecoveryRef q"
  "pSpec (claimOrphanRow cmd v now q) = pSpec q" "pOwnerState (claimOrphanRow cmd v now q) = PlacementOwnerStateActive"
  by (simp_all add: claimOrphanRow_def payloadOf_def)

lemma opClaimOrphan_ok:
  assumes "addressesOk env" "fsmOk env f"
  shows "fsmOk env (snd (opClaimOrphan env cmd now f))"
proof (cases "opClaimOrphanGuard cmd (fullPlacementLocked (cmSandboxID cmd) f)")
  case None
  define i where "i = cmSandboxID cmd"
  from None obtain q where q: "fullPlacementLocked i f = Some q" "validateSecret cmd = None" "IsOrphaned q" "\<not> IsReserved q"
    by (auto simp: i_def opClaimOrphanGuard_def whenErr_def split: option.splits if_splits)
  from existing_row[OF assms(2) q(1)] obtain r where r: "fsPlacements f i = Some r" "sameKeys q r" "writable i q" "i \<noteq> []"
    and core: "coreOk env f" and idx: "indexOk (fsPlacements f) f" by metis
  show ?thesis
  proof (cases "renameForSpec cmd q (fsNameIndex f)")
    case (fields err e names)
    show ?thesis
    proof (cases err)
      case (Some x)
      with None q fields assms show ?thesis by (simp add: opClaimOrphan_def i_def[symmetric] Let_def)
    next
      case n: None
      note rn = rename_ok[OF fields[unfolded n] indexD(1)[OF idx] r(1) i_def r(2,3)]
      define p where "p = claimOrphanRow cmd (fsVersion f) now (secretsInto cmd e)"
      note keys = claimOrphanRow_keeps[of cmd "fsVersion f" now "secretsInto cmd e", folded p_def]
      note sec = secretsInto_ok[OF rn(1) q(2)]
      have w: "writable i p" using sec(1) keys by (simp add: writable_def rowOk_def settledRow_def)
      have h: "sameKeys (storedRow env i p) p" by (rule storedRow_keys[OF w])
      note e = rename_keeps[OF fields]
      let ?rows = "(fsPlacements f)(i \<mapsto> storedRow env i p)"
      define k where "k = (\<lambda>f::placementFSM. f\<lparr>fsOwnerIndex := claimOwnerLocked i p (fsOwnerIndex f)\<rparr>)"
      have "uniqExact nameKeys ?rows names" using rn(2)[of "storedRow env i p"] h keys sec(2) by (simp add: sameKeys_def)
      moreover have "ownersOk ?rows (claimOwnerLocked i p (fsOwnerIndex f))"
        using owners_insert[OF indexD(4)[OF idx], of i r "storedRow env i p" p] r q(3,4) h by (simp add: sameKeys_def IsOrphaned_def)
      moreover have "reservedOk ?rows (fsPending f)"
        using reserved_outside[OF indexD(5)[OF idx], of i r "Some (storedRow env i p)"] r(1,2) keys e sec(2) q(4)
        by (simp add: sameKeys_def IsReserved_def)
      ultimately have "indexOk ?rows (k (f\<lparr>fsNameIndex := names\<rparr>))"
        using indexD[OF idx] r(1,2) h keys e sec(2)
        by (auto simp: indexOk_def k_def sameKeys_def intro: shards_keep ownerRef_keep hosts_keep ports_keep attach_keep)
      then have "fsmOk env (snd (storeThen env i p (f\<lparr>fsNameIndex := names\<rparr>) k))"
        using core by (intro fsmOk_stored[OF assms(1) _ w]) (simp_all add: indexOk_def k_def)
      with None q(1) fields n show ?thesis unfolding k_def p_def
        by (simp add: opClaimOrphan_def i_def[symmetric] Let_def case_prod_beta)
    qed
  qed
qed (use assms in \<open>simp add: opClaimOrphan_def\<close>)

lemma reserved_respec:
  assumes "reservedOk rows s" "rows i = Some r" "sameKeys q r" "i \<noteq> []" "pState p = pState q" "pOwnerNodeID p = pOwnerNodeID q" "sameKeys h p"
  shows "reservedOk (rows(i \<mapsto> h))
    (if IsReserved q then claimPendingReservationLocked i p (releasePendingReservationLocked i s) else s)"
proof (cases "IsReserved q")
  case True
  with reserved_reclaim[OF assms(1,2) _ assms(4), of h p] assms(3,5-7) show ?thesis by (simp add: sameKeys_def IsReserved_def)
next
  case False
  with reserved_outside[OF assms(1), of i r "Some h"] assms(2,3,5,7) show ?thesis by (simp add: sameKeys_def IsReserved_def)
qed

lemma opUpsertSpec_ok:
  assumes "addressesOk env" "fsmOk env f"
  shows "fsmOk env (snd (opUpsertSpec env cmd now f))"
proof (cases "opUpsertSpecGuard cmd (fullPlacementLocked (cmSandboxID cmd) f)")
  case None
  define i where "i = cmSandboxID cmd"
  from None obtain q where q: "fullPlacementLocked i f = Some q" "validateSecret cmd = None"
    by (auto simp: i_def opUpsertSpecGuard_def split: option.splits)
  from existing_row[OF assms(2) q(1)] obtain r where r: "fsPlacements f i = Some r" "sameKeys q r" "writable i q" "i \<noteq> []"
    and core: "coreOk env f" and idx: "indexOk (fsPlacements f) f" by metis
  obtain err e names where rn0: "renameForSpec cmd q (fsNameIndex f) = (err, e, names)" by (cases "renameForSpec cmd q (fsNameIndex f)")
  show ?thesis
  proof (cases err)
    case (Some x)
    with None q rn0 assms show ?thesis by (simp add: opUpsertSpec_def i_def[symmetric] Let_def)
  next
    case n: None
    note rn = rename_ok[OF rn0[unfolded n] indexD(1)[OF idx] r(1) i_def r(2,3)]
    note e = rename_keeps[OF rn0]
    note sec = secretsInto_ok[OF rn(1) q(2)]
    define p where "p = (secretsInto cmd e)\<lparr>pVersion := fsVersion f, pUpdatedUnix := now\<rparr>"
    have keys: "sameKeys p e" using sec(2) by (simp add: p_def sameKeys_def)
    have w: "writable i p" using sec(1) by (simp add: p_def writable_def rowOk_def settledRow_def payloadOf_def)
    have h: "sameKeys (storedRow env i p) p" by (rule storedRow_keys[OF w])
    have res: "IsReserved e = IsReserved q" using e by (simp add: IsReserved_def)
    let ?rows = "(fsPlacements f)(i \<mapsto> storedRow env i p)"
    define g where "g = f\<lparr>fsNameIndex := names,
      fsPending := (if IsReserved e then releasePendingReservationLocked i (fsPending f) else fsPending f)\<rparr>"
    define k where "k = (\<lambda>f::placementFSM.
      if IsReserved e then f\<lparr>fsPending := claimPendingReservationLocked i p (fsPending f)\<rparr> else f)"
    have "uniqExact nameKeys ?rows names" using rn(2)[of "storedRow env i p"] h keys by (simp add: sameKeys_def)
    moreover have "reservedOk ?rows (fsPending (k g))"
      using reserved_respec[OF indexD(5)[OF idx] r(1,2,4) _ _ h] keys e res by (auto simp: k_def g_def sameKeys_def)
    ultimately have "indexOk ?rows (k g)"
      using indexD[OF idx] r(1,2) h keys e
      by (auto simp: indexOk_def k_def g_def sameKeys_def intro: shards_keep ownerRef_keep hosts_keep ports_keep attach_keep owners_keep)
    then have "indexOk ?rows (k (snd (storePlacementLocked env i p g)))"
      by (cases "IsReserved e") (simp_all add: indexOk_def k_def)
    then have "fsmOk env (snd (storeThen env i p g k))"
      using core by (intro fsmOk_stored[OF assms(1) _ w]) (simp_all add: g_def k_def)
    with None q(1) rn0 n show ?thesis unfolding k_def p_def
      by (simp add: opUpsertSpec_def i_def[symmetric] g_def[symmetric] Let_def case_prod_beta cong: if_cong)
  qed
qed (use assms in \<open>simp add: opUpsertSpec_def\<close>)

section \<open>Ports and hostnames\<close>

text \<open>Writing a row that changes nothing but its port bindings, or nothing but its hostnames.\<close>

lemma fsmOk_ports:
  assumes "addressesOk env" "fsmOk env f" "fullPlacementLocked i f = Some q" "writable i p"
    and "sameKeys p (q\<lparr>pExposedPortRoutes := pExposedPortRoutes p\<rparr>)"
    and "\<And>r h. fsPlacements f i = Some r \<Longrightarrow> sameKeys q r \<Longrightarrow> sameKeys h p \<Longrightarrow> portsOk ((fsPlacements f)(i \<mapsto> h)) ports"
  shows "fsmOk env (snd (storeThen env i p (f\<lparr>fsHostPortIndex := ports\<rparr>) id))"
proof -
  from existing_row[OF assms(2,3)] obtain r where r: "fsPlacements f i = Some r" "sameKeys q r" "i \<noteq> []"
    and core: "coreOk env f" and idx: "indexOk (fsPlacements f) f" by metis
  have h: "sameKeys (storedRow env i p) p" by (rule storedRow_keys[OF assms(4)])
  have "indexOk ((fsPlacements f)(i \<mapsto> storedRow env i p)) (f\<lparr>fsHostPortIndex := ports\<rparr>)"
    using indexD[OF idx] r h assms(5) assms(6)[OF r(1,2) h]
    by (auto simp: indexOk_def sameKeys_def IsReserved_def
        intro: names_keep shards_keep ownerRef_keep owners_keep reserved_keep attach_keep hosts_keep)
  with core show ?thesis by (intro fsmOk_stored[OF assms(1) _ assms(4)]) simp_all
qed

lemma fsmOk_hosts:
  assumes "addressesOk env" "fsmOk env f" "fullPlacementLocked i f = Some q" "writable i p"
    and "sameKeys p (q\<lparr>pCustomHostnames := pCustomHostnames p\<rparr>)"
    and "\<And>r h. fsPlacements f i = Some r \<Longrightarrow> sameKeys q r \<Longrightarrow> sameKeys h p \<Longrightarrow>
      uniqCovers hostKeys ((fsPlacements f)(i \<mapsto> h)) (u (fsCustomHostnameIndex f))"
  shows "fsmOk env (snd (storeThen env i p f (\<lambda>f. f\<lparr>fsCustomHostnameIndex := u (fsCustomHostnameIndex f)\<rparr>)))"
proof -
  from existing_row[OF assms(2,3)] obtain r where r: "fsPlacements f i = Some r" "sameKeys q r" "i \<noteq> []"
    and core: "coreOk env f" and idx: "indexOk (fsPlacements f) f" by metis
  have h: "sameKeys (storedRow env i p) p" by (rule storedRow_keys[OF assms(4)])
  have "indexOk ((fsPlacements f)(i \<mapsto> storedRow env i p)) (f\<lparr>fsCustomHostnameIndex := u (fsCustomHostnameIndex f)\<rparr>)"
    using indexD[OF idx] r h assms(5) assms(6)[OF r(1,2) h]
    by (auto simp: indexOk_def sameKeys_def IsReserved_def
        intro: names_keep shards_keep ownerRef_keep owners_keep reserved_keep attach_keep ports_keep)
  with core show ?thesis by (intro fsmOk_stored[OF assms(1) _ assms(4)]) (simp_all add: indexOk_def)
qed

lemma opAddExposedPort_ok:
  assumes "addressesOk env" "fsmOk env f"
  shows "fsmOk env (snd (opAddExposedPort env cmd now f))"
proof (cases "opAddExposedPortGuard cmd (fullPlacementLocked (cmSandboxID cmd) f) (fsHostPortIndex f)")
  case None
  define i where "i = cmSandboxID cmd"
  from None obtain q where q: "fullPlacementLocked i f = Some q"
    and free: "validateHostPortAvailableLocked i (cmPort cmd) (routeOfCommand cmd q) (fsHostPortIndex f) = None"
    by (auto simp: i_def opAddExposedPortGuard_def Let_def split: option.splits if_splits)
  from existing_row[OF assms(2) q] have w0: "writable i q" by metis
  define p where "p = addPortRow cmd (fsVersion f) now q"
  have w: "writable i p"
    using w0 by (simp add: p_def addPortRow_def writable_def rowOk_def settledRow_def payloadOf_def Let_def)
  have keys: "sameKeys p (q\<lparr>pExposedPortRoutes := pExposedPortRoutes p\<rparr>)" by (simp add: p_def addPortRow_def sameKeys_def Let_def)
  let ?m = "releaseHostPortLocked i (cmPort cmd) (portRoute q (cmPort cmd)) (fsHostPortIndex f)"
  have "portsOk ((fsPlacements f)(i \<mapsto> h)) (claimHostPortLocked i (cmPort cmd) (routeOfCommand cmd q) ?m)"
    if r: "fsPlacements f i = Some r" "sameKeys q r" and h: "sameKeys h p" for r h
  proof -
    have "portsOk (fsPlacements f) (fsHostPortIndex f)" using assms(2) by (simp add: fsmOk_def indexOk_def)
    from ports_release[OF this r(1), of "r\<lparr>pExposedPortRoutes := (pExposedPortRoutes r)(cmPort cmd := None)\<rparr>" "cmPort cmd" "portRoute q (cmPort cmd)"]
    have "portsOk ((fsPlacements f)(i \<mapsto> r\<lparr>pExposedPortRoutes := (pExposedPortRoutes r)(cmPort cmd := None)\<rparr>)) ?m" by simp
    moreover have "?m (rtHostPort (routeOfCommand cmd q)) = None \<or>
        ?m (rtHostPort (routeOfCommand cmd q)) = Some \<lparr>hpSandboxID = i, hpPort = cmPort cmd\<rparr> \<or> \<not> tcpRoute (routeOfCommand cmd q)"
      using free by (auto simp: releaseHostPortLocked_def validateHostPortAvailableLocked_def split: option.splits if_splits)
    moreover have "pExposedPortRoutes h = ((pExposedPortRoutes r)(cmPort cmd := None))(cmPort cmd \<mapsto> routeOfCommand cmd q)"
      using r(2) h by (simp add: p_def addPortRow_def sameKeys_def Let_def)
    ultimately show ?thesis
      using ports_claim[of "fsPlacements f" i "r\<lparr>pExposedPortRoutes := (pExposedPortRoutes r)(cmPort cmd := None)\<rparr>" ?m
          "cmPort cmd" h "routeOfCommand cmd q"] by simp
  qed
  from fsmOk_ports[OF assms q w keys this] None q show ?thesis unfolding p_def
    by (simp add: opAddExposedPort_def i_def[symmetric] Let_def case_prod_beta)
qed (use assms in \<open>simp add: opAddExposedPort_def\<close>)

lemma opRemoveExposedPort_ok:
  assumes "addressesOk env" "fsmOk env f"
  shows "fsmOk env (snd (opRemoveExposedPort env cmd now f))"
proof (cases "opRemoveExposedPortGuard cmd (fullPlacementLocked (cmSandboxID cmd) f)")
  case None
  define i where "i = cmSandboxID cmd"
  from None obtain q where q: "fullPlacementLocked i f = Some q"
    by (auto simp: i_def opRemoveExposedPortGuard_def split: option.splits)
  from existing_row[OF assms(2) q] have w0: "writable i q" by metis
  define p where "p = removePortRow cmd (fsVersion f) now q"
  have w: "writable i p"
    using w0 by (auto simp: p_def removePortRow_def writable_def rowOk_def settledRow_def payloadOf_def intro: finite_subset)
  have keys: "sameKeys p (q\<lparr>pExposedPortRoutes := pExposedPortRoutes p\<rparr>)" by (simp add: p_def removePortRow_def sameKeys_def)
  have "portsOk ((fsPlacements f)(i \<mapsto> h)) (releaseHostPortLocked i (cmPort cmd) (portRoute q (cmPort cmd)) (fsHostPortIndex f))"
    if "fsPlacements f i = Some r" "sameKeys q r" "sameKeys h p" for r h
    using that assms(2) by (intro ports_release) (auto simp: fsmOk_def indexOk_def p_def removePortRow_def sameKeys_def)
  from fsmOk_ports[OF assms q w keys this] None q show ?thesis unfolding p_def
    by (simp add: opRemoveExposedPort_def i_def[symmetric] Let_def case_prod_beta)
qed (use assms in \<open>simp add: opRemoveExposedPort_def\<close>)

lemma opAddCustomDomain_ok:
  assumes "addressesOk env" "fsmOk env f"
  shows "fsmOk env (snd (opAddCustomDomain env cmd now f))"
proof (cases "opAddCustomDomainGuard cmd (fullPlacementLocked (cmSandboxID cmd) f) (fsCustomHostnameIndex f)")
  case None
  define i where "i = cmSandboxID cmd"
  from None obtain q where q: "fullPlacementLocked i f = Some q" and ne: "i \<noteq> []" "cmHostname cmd \<noteq> []"
    and free: "fsCustomHostnameIndex f (cmHostname cmd) = None \<or> fsCustomHostnameIndex f (cmHostname cmd) = Some i"
    and new: "cmHostname cmd \<notin> set (pCustomHostnames q)"
    by (auto simp: i_def opAddCustomDomainGuard_def whenErr_def existingHasHostname_def split: option.splits if_splits)
  from existing_row[OF assms(2) q] have w0: "writable i q" by metis
  define p where "p = addDomainRow cmd (fsVersion f) now q"
  have sorted: "sorted_wrt (<) (pCustomHostnames q)" using w0 by (simp add: writable_def rowOk_def)
  note spec = insertSortedHostname_spec[OF sorted ne(2) new]
  have w: "writable i p"
    using w0 spec ne by (simp add: p_def addDomainRow_def writable_def rowOk_def settledRow_def payloadOf_def)
  have keys: "sameKeys p (q\<lparr>pCustomHostnames := pCustomHostnames p\<rparr>)" by (simp add: p_def addDomainRow_def sameKeys_def)
  have "uniqCovers hostKeys ((fsPlacements f)(i \<mapsto> h)) (claimCustomHostnameLocked i (cmHostname cmd) (fsCustomHostnameIndex f))"
    if "fsPlacements f i = Some r" "sameKeys q r" "sameKeys h p" for r h
    using that assms(2) ne free spec(2)
    by (intro hosts_add) (auto simp: fsmOk_def indexOk_def p_def addDomainRow_def sameKeys_def)
  from fsmOk_hosts[OF assms q w keys, of "claimCustomHostnameLocked i (cmHostname cmd)", OF this] None q show ?thesis unfolding p_def
    by (simp add: opAddCustomDomain_def i_def[symmetric] Let_def case_prod_beta)
qed (use assms in \<open>simp add: opAddCustomDomain_def\<close>)

lemma opRemoveCustomDomain_ok:
  assumes "addressesOk env" "fsmOk env f"
  shows "fsmOk env (snd (opRemoveCustomDomain env cmd now f))"
proof (cases "fullPlacementLocked (cmSandboxID cmd) f")
  case None
  then have "fsPlacements f (cmSandboxID cmd) = None" by (simp add: full_None)
  then have "fsmOk env (f\<lparr>fsCustomHostnameIndex := releaseCustomHostnameLocked (cmSandboxID cmd) (cmHostname cmd) (fsCustomHostnameIndex f)\<rparr>)"
    if "cmSandboxID cmd \<noteq> []"
    using assms(2) that by (auto simp: fsmOk_def indexOk_def intro: hosts_stale)
  with None assms show ?thesis by (simp add: opRemoveCustomDomain_def Let_def)
next
  case (Some q)
  define i where "i = cmSandboxID cmd"
  have q: "fullPlacementLocked i f = Some q" using Some by (simp add: i_def)
  from existing_row[OF assms(2) q] have w0: "writable i q" and ne: "i \<noteq> []" by metis+
  define p where "p = removeDomainRow cmd (fsVersion f) now q"
  have sorted: "sorted_wrt (<) (pCustomHostnames q)" using w0 by (simp add: writable_def rowOk_def)
  note spec = removeHostname_spec[OF sorted, of "cmHostname cmd"]
  have w: "writable i p"
    using w0 spec by (simp add: p_def removeDomainRow_def writable_def rowOk_def settledRow_def payloadOf_def)
  have keys: "sameKeys p (q\<lparr>pCustomHostnames := pCustomHostnames p\<rparr>)" by (simp add: p_def removeDomainRow_def sameKeys_def)
  have "uniqCovers hostKeys ((fsPlacements f)(i \<mapsto> h)) (releaseCustomHostnameLocked i (cmHostname cmd) (fsCustomHostnameIndex f))"
    if "fsPlacements f i = Some r" "sameKeys q r" "sameKeys h p" for r h
    using that assms(2) ne spec(2)
    by (intro hosts_del) (auto simp: fsmOk_def indexOk_def p_def removeDomainRow_def sameKeys_def)
  from fsmOk_hosts[OF assms q w keys, of "releaseCustomHostnameLocked i (cmHostname cmd)", OF this] q assms(2) show ?thesis unfolding p_def
    by (simp add: opRemoveCustomDomain_def i_def[symmetric] Let_def case_prod_beta split: option.split)
qed

section \<open>Removing rows\<close>

lemma fsmOk_drop:
  assumes "coreOk env f" "indexOk ((fsPlacements f)(i := None)) f"
  shows "fsmOk env (dropRow i f)"
  using core_drop[OF assms(1)] assms(2) by (simp add: fsmOk_def indexOk_def)

lemma cancelRow_ok:
  assumes "fsmOk env f" "fullPlacementLocked i f = Some q" "IsReserved q" "trimSpace inc = trimSpace (pIncarnationID q)"
  shows "fsmOk env (cancelRow i q inc f)"
proof -
  from existing_row[OF assms(1,2)] obtain r where r: "fsPlacements f i = Some r" "sameKeys q r" "writable i q" "i \<noteq> []" "trimSpace i = i"
    and core: "coreOk env f" and idx: "indexOk (fsPlacements f) f" by metis
  have name: "placementName q = pName r" using r(2,3) by (simp add: writable_def settled_name sameKeys_def)
  have "ownersOk ((fsPlacements f)(i := None)) (fsOwnerIndex f)"
    using owners_absent[OF indexD(4)[OF idx], of i r None] r(1,2) assms(3) by (simp add: sameKeys_def IsReserved_def)
  moreover have "reservedOk ((fsPlacements f)(i := None)) (releasePending i q (fsPending f))"
    using reserved_settle[OF indexD(5)[OF idx] r(1,2), of None] assms(3) by simp
  moreover have "attachOk ((fsPlacements f)(i := None)) (releaseVolumeAttachmentsForIncarnationLocked i inc (fsVolumes f))"
    using attach_release[OF indexD(8)[OF idx] r(1,5,4), of inc None] r(2) assms(4) by (simp add: sameKeys_def)
  moreover have "idxExact ownerRefKeys ((fsPlacements f)(i := None)) (releaseOwnerRefLocked i (pOwnerRef q) (fsOwnerRefIndex f))"
    using ownerRef_remove[OF indexD(3)[OF idx] r(1,5), of q] r(2) by (simp add: sameKeys_def)
  ultimately show ?thesis unfolding cancelRow_def
    using core r(1,4) indexD[OF idx] nameIndex.remove[OF indexD(1)[OF idx] r(1)]
    by (intro fsmOk_drop) (simp_all add: indexOk_def name shards_release hosts_remove ports_remove)
qed

lemma opCancelReserve_ok:
  assumes "fsmOk env f"
  shows "fsmOk env (snd (opCancelReserve cmd f))"
  using assms cancelRow_ok[OF assms] by (auto simp: opCancelReserve_def Let_def split: option.split)

lemma orphanReservedRow_ok:
  assumes "fsmOk env f" "fullPlacementLocked i f = Some q" "IsReserved q"
  shows "fsmOk env (orphanReservedRow i q f)"
proof -
  from existing_row[OF assms(1,2)] obtain r where r: "fsPlacements f i = Some r" "sameKeys q r" "writable i q" "i \<noteq> []" "trimSpace i = i"
    and core: "coreOk env f" and idx: "indexOk (fsPlacements f) f" by metis
  have name: "placementName q = pName r" using r(2,3) by (simp add: writable_def settled_name sameKeys_def)
  have "ownersOk ((fsPlacements f)(i := None)) (fsOwnerIndex f)"
    using owners_absent[OF indexD(4)[OF idx], of i r None] r(1,2) assms(3) by (simp add: sameKeys_def IsReserved_def)
  moreover have "reservedOk ((fsPlacements f)(i := None)) (releasePending i q (fsPending f))"
    using reserved_settle[OF indexD(5)[OF idx] r(1,2), of None] assms(3) by simp
  moreover have "attachOk ((fsPlacements f)(i := None)) (releaseVolumeAttachmentsForIncarnationLocked i (pIncarnationID q) (fsVolumes f))"
    using attach_release[OF indexD(8)[OF idx] r(1,5,4), of "pIncarnationID q" None] r(2) by (simp add: sameKeys_def)
  moreover have "idxExact ownerRefKeys ((fsPlacements f)(i := None)) (releaseOwnerRefLocked i (pOwnerRef q) (fsOwnerRefIndex f))"
    using ownerRef_remove[OF indexD(3)[OF idx] r(1,5), of q] r(2) by (simp add: sameKeys_def)
  moreover have "portsOk ((fsPlacements f)(i := None)) (fsHostPortIndex f)"
    using ports_weaken[OF indexD(7)[OF idx], of i "fsHostPortIndex f" None] by simp
  ultimately show ?thesis unfolding orphanReservedRow_def
    using core r(1,4) indexD[OF idx] nameIndex.remove[OF indexD(1)[OF idx] r(1)]
    by (intro fsmOk_drop) (simp_all add: indexOk_def name shards_release hosts_remove)
qed

lemma orphanReserved_ok: "fsmOk env f \<Longrightarrow> fsmOk env (orphanReserved node is f)"
proof (induction "is" arbitrary: f)
  case (Cons i "is")
  then show ?case using orphanReservedRow_ok[of env f i] by (auto split: option.split)
qed simp

lemma opOrphanOwner_ok:
  assumes "addressesOk env" "fsmOk env f"
  shows "fsmOk env (snd (opOrphanOwner env cmd now f))"
proof -
  define node where "node = cmNodeID cmd"
  obtain e g where o: "orphanPlaced env node now (ownedPlacementIDsLocked node (fsOwnerIndex f)) f = (e, g)" by force
  with orphanPlaced_ok[OF assms, of node now "ownedPlacementIDsLocked node (fsOwnerIndex f)"] have "e = None" "fsmOk env g" by auto
  moreover have "fsmOk env (forgetSnapshotsOf node h) = fsmOk env h" for h
    by (simp add: forgetSnapshotsOf_def fsmOk_def indexOk_def)
  ultimately show ?thesis using o orphanReserved_ok assms(2)
    by (simp add: opOrphanOwner_def node_def[symmetric] Let_def)
qed

lemma attach_sub:
  assumes "attachOk rows v" "volumesWf v'" "\<And>key a. volumeAttachments v' key = Some a \<Longrightarrow> volumeAttachments v key = Some a"
  shows "attachOk rows v'"
  using assms(2,3) attachD[OF assms(1)] unfolding attachOk_def by blast

lemma recordReclaims_wf: "volumesWf v \<Longrightarrow> volumesWf (recordVolumeReclaimsLocked i node stamp v)"
  using volumeStep_wf[of v "RecordVolumeReclaims i node stamp"] by simp

lemma recordReclaims_attach: "attachOk rows v \<Longrightarrow> attachOk rows (recordVolumeReclaimsLocked i node stamp v)"
  using recordReclaims_wf[of v i node stamp] recordReclaims_same[of v i node stamp]
  by (auto simp: attachOk_def sameAttachments_def)

lemma attach_release_all:
  assumes "attachOk rows v"
  shows "attachOk rows (releaseVolumeAttachmentsForSandboxLocked i v)"
    and "trimSpace i = i \<Longrightarrow> i \<noteq> [] \<Longrightarrow> attachOk (rows(i := nu)) (releaseVolumeAttachmentsForSandboxLocked i v)"
proof -
  have wf: "volumesWf v" using assms by (simp add: attachOk_def)
  have wf': "volumesWf (releaseVolumeAttachmentsForSandboxLocked i v)"
    using release_attachments_wf[OF wf] by (simp add: releaseVolumeAttachmentsForSandboxLocked_def)
  show "attachOk rows (releaseVolumeAttachmentsForSandboxLocked i v)"
    by (rule attach_sub[OF assms wf']) (auto simp: releaseVolumeAttachmentsForSandboxLocked_def intro: release_attachments_sub)
  show "attachOk (rows(i := nu)) (releaseVolumeAttachmentsForSandboxLocked i v)" if "trimSpace i = i" "i \<noteq> []"
    using release_sandbox_attachments[OF wf that]
    by (intro attach_weaken[OF assms wf']) (auto split: option.splits if_splits)
qed

text \<open>The tail of a delete, on indexes already released for the row or with no row at all.\<close>

lemma deleteTail_ok:
  assumes "coreOk env f" "indexOk ((fsPlacements f)(cmSandboxID cmd := None)) (f\<lparr>fsVolumes := newVolumeState\<rparr>)"
    "attachOk (fsPlacements f) (fsVolumes f)"
    "fsPlacements f (cmSandboxID cmd) = None \<or> trimSpace (cmSandboxID cmd) = cmSandboxID cmd \<and> cmSandboxID cmd \<noteq> []"
  shows "fsmOk env (deleteTail cmd f)"
proof -
  define i where "i = cmSandboxID cmd"
  define v where "v = (if cmVolumeReclaimNodeID cmd \<noteq> []
    then recordVolumeReclaimsLocked i (cmVolumeReclaimNodeID cmd) (cmStampUnixNano cmd) (fsVolumes f) else fsVolumes f)"
  have "attachOk (fsPlacements f) v" using assms(3) by (simp add: v_def recordReclaims_attach)
  from attach_release_all[OF this, of i] assms(4)
  have "attachOk ((fsPlacements f)(i := None)) (releaseVolumeAttachmentsForSandboxLocked i v)"
    by (auto simp: i_def[symmetric] fun_upd_idem)
  moreover have "deleteTail cmd f = dropRow i (f\<lparr>fsVolumes := releaseVolumeAttachmentsForSandboxLocked i v\<rparr>)"
    by (simp add: deleteTail_def i_def v_def Let_def)
  ultimately show ?thesis using assms(1,2) by (simp add: i_def fsmOk_drop indexOk_def)
qed

lemma opDelete_ok:
  assumes "fsmOk env f"
  shows "fsmOk env (snd (opDelete cmd index f))"
proof (cases "fullPlacementLocked (cmSandboxID cmd) f")
  case None
  then have none: "fsPlacements f (cmSandboxID cmd) = None" by (simp add: full_None)
  then have rows: "(fsPlacements f)(cmSandboxID cmd := None) = fsPlacements f" by auto
  have "attachOk rows newVolumeState" for rows using volumesWf_new by (simp add: attachOk_def newVolumeState_def)
  then have "fsmOk env (deleteTail cmd f)"
    using assms none by (intro deleteTail_ok) (auto simp: fsmOk_def indexOk_def rows)
  with None show ?thesis by (simp add: opDelete_def Let_def)
next
  case (Some q)
  define i where "i = cmSandboxID cmd"
  have q: "fullPlacementLocked i f = Some q" using Some by (simp add: i_def)
  from existing_row[OF assms q] obtain r where r: "fsPlacements f i = Some r" "sameKeys q r" "writable i q" "i \<noteq> []" "trimSpace i = i"
    and core: "coreOk env f" and idx: "indexOk (fsPlacements f) f" by metis
  define e where "e = recordPlacementAuditNode (pOrphanedOwnerNodeID q) (recordPlacementAuditNode (pOwnerNodeID q) q)"
  have e: "sameKeys e r" using r(2) by (simp add: e_def sameKeys_def)
  have name: "placementName e = pName r" using r(2,3)
    by (auto simp: e_def writable_def settledRow_def sameKeys_def placementName_def)
  have new: "attachOk ((fsPlacements f)(i := None)) newVolumeState" using volumesWf_new by (simp add: attachOk_def newVolumeState_def)
  have "ownersOk ((fsPlacements f)(i := None)) (releaseOwnerLocked i e (fsOwnerIndex f))"
    using owners_drop[OF indexD(4)[OF idx] r(1) _ r(4), of e None] e by (simp add: sameKeys_def)
  moreover have "idxExact ownerRefKeys ((fsPlacements f)(i := None)) (releaseOwnerRefLocked i (pOwnerRef e) (fsOwnerRefIndex f))"
    using ownerRef_remove[OF indexD(3)[OF idx] r(1,5), of e] e by (simp add: sameKeys_def)
  ultimately have "indexOk ((fsPlacements f)(i := None)) ((deleteIndexes cmd index q f)\<lparr>fsVolumes := newVolumeState\<rparr>)"
    using r(1,4) indexD[OF idx] nameIndex.remove[OF indexD(1)[OF idx] r(1)] reserved_settle[OF indexD(5)[OF idx] r(1) e, of None] new
    by (simp add: deleteIndexes_def i_def[symmetric] e_def[symmetric] indexOk_def name shards_release hosts_remove ports_remove Let_def)
  moreover have "fsPlacements (deleteIndexes cmd index q f) = fsPlacements f" "fsVolumes (deleteIndexes cmd index q f) = fsVolumes f"
    "coreOk env (deleteIndexes cmd index q f)" using core by (simp_all add: deleteIndexes_def Let_def)
  ultimately have "fsmOk env (deleteTail cmd (deleteIndexes cmd index q f))"
    using indexD(8)[OF idx] r(4,5) by (intro deleteTail_ok) (simp_all add: i_def)
  with q assms show ?thesis by (auto simp: opDelete_def i_def[symmetric] Let_def)
qed

section \<open>Creating rows\<close>

lemma opPlaceRow_fields:
  "pSandboxID (opPlaceRow cmd full v now) = cmSandboxID cmd" "pOwnerNodeID (opPlaceRow cmd full v now) = cmOwnerNodeID cmd"
  "pState (opPlaceRow cmd full v now) = PlacementStatePlaced"
  "pOwnerState (opPlaceRow cmd full v now) = PlacementOwnerStateActive" "pRecoveryRef (opPlaceRow cmd full v now) = []"
  "pName (opPlaceRow cmd full v now) = placeName cmd full"
  "pSpec (opPlaceRow cmd full v now) = (case full of Some q \<Rightarrow> if cmSpec cmd = None then pSpec q else cmSpec cmd | None \<Rightarrow> cmSpec cmd)"
  "pCustomHostnames (opPlaceRow cmd full v now) = (case full of Some q \<Rightarrow> pCustomHostnames q | None \<Rightarrow> [])"
  "pExposedPortRoutes (opPlaceRow cmd full v now) = (case full of Some q \<Rightarrow> pExposedPortRoutes q | None \<Rightarrow> Map.empty)"
  by (simp_all add: opPlaceRow_def zeroPlacement_def Let_def split: option.split)

lemma opPlaceRow_incarnation:
  "full = Some q \<Longrightarrow> pIncarnationID q \<noteq> [] \<Longrightarrow> pIncarnationID (opPlaceRow cmd full v now) = pIncarnationID q"
  by (simp add: opPlaceRow_def Let_def)

lemma opPlaceRow_writable:
  assumes "trimSpace (cmSandboxID cmd) = cmSandboxID cmd" "cmSandboxID cmd \<noteq> []" "\<And>q. full = Some q \<Longrightarrow> writable (cmSandboxID cmd) q"
  shows "writable (cmSandboxID cmd) (opPlaceRow cmd full v now)"
proof (cases full)
  case None
  with assms show ?thesis
    by (auto simp: writable_def rowOk_def settledRow_def opPlaceRow_fields placeName_def)
next
  case (Some q)
  with assms(3)[OF Some] have "settledRow q" by (simp add: writable_def)
  with Some assms show ?thesis
    by (auto simp: writable_def rowOk_def settledRow_def opPlaceRow_fields placeName_def settled_name)
qed

lemma opPlace_fresh:
  assumes "addressesOk env" "fsmOk env f" "fullPlacementLocked i f = None" "i = cmSandboxID cmd" "trimSpace i = i" "i \<noteq> []"
    "opPlaceGuard cmd None (fsNameIndex f) = None" "p = opPlaceRow cmd None (fsVersion f) now"
  shows "fsmOk env (snd (storeThen env i p f (opPlaceClaim i p)))"
proof -
  have none: "fsPlacements f i = None" using assms(3) by (simp add: full_None)
  have core: "coreOk env f" and idx: "indexOk (fsPlacements f) f" using assms(2) by (simp_all add: fsmOk_def)
  have w: "writable i p" using opPlaceRow_writable[of cmd None] assms(4-6,8) by simp
  note h = storedRow_keys[OF w, of env]
  have free: "validateNameUniqueLocked i (pName p) (fsNameIndex f) = None"
    using assms(4,7,8) by (simp add: opPlaceGuard_def opPlaceRow_fields)
  let ?rows = "(fsPlacements f)(i \<mapsto> storedRow env i p)"
  have "attachOk ?rows (fsVolumes f)" using none by (intro attach_keep[OF indexD(8)[OF idx]]) simp
  then have "indexOk ?rows (opPlaceClaim i p f)"
    using indexD[OF idx] none assms(5,6,8) h names_insert[OF indexD(1)[OF idx] none free]
      ownerRef_insert[OF indexD(3)[OF idx] none assms(5), of "storedRow env i p" p]
      owners_insert[OF indexD(4)[OF idx], of i _ "storedRow env i p" p]
      reserved_outside[OF indexD(5)[OF idx], of i _ "Some (storedRow env i p)"]
      hosts_weaken[OF indexD(6)[OF idx], of i _ "Some (storedRow env i p)"]
      ports_weaken[OF indexD(7)[OF idx], of i _ "Some (storedRow env i p)"]
    by (simp add: indexOk_def opPlaceClaim_def shards_claim opPlaceRow_fields sameKeys_def IsReserved_def)
  then have "indexOk ?rows (opPlaceClaim i p (snd (storePlacementLocked env i p f)))"
    using assms(6) by (simp add: indexOk_def opPlaceClaim_def)
  then show ?thesis by (intro fsmOk_stored[OF assms(1) core w]) (simp_all add: opPlaceClaim_def)
qed

lemma opPlace_again:
  assumes "addressesOk env" "fsmOk env f" "fullPlacementLocked i f = Some q" "i = cmSandboxID cmd"
    "opPlaceGuard cmd (Some q) (fsNameIndex f) = None" "p = opPlaceRow cmd (Some q) (fsVersion f) now"
  shows "fsmOk env (snd (storeThen env i p (opPlaceRelease i (Some q) f) (opPlaceClaim i p)))"
proof -
  from existing_row[OF assms(2,3)] obtain r where r: "fsPlacements f i = Some r" "sameKeys q r" "writable i q" "i \<noteq> []" "trimSpace i = i"
    and core: "coreOk env f" and idx: "indexOk (fsPlacements f) f" by metis
  have w: "writable i p" using opPlaceRow_writable[of cmd "Some q"] assms(4,6) r by simp
  note h = storedRow_keys[OF w, of env]
  have name: "placementName q = pName r" using r(2,3) by (simp add: writable_def settled_name sameKeys_def)
  have free: "validateNameUniqueLocked i (pName p) (fsNameIndex f) = None"
    using assms(4-6) by (simp add: opPlaceGuard_def opPlaceRow_fields)
  let ?h = "storedRow env i p" and ?g = "opPlaceRelease i (Some q) f"
  let ?rows = "(fsPlacements f)(i \<mapsto> ?h)"
  have "uniqExact nameKeys ?rows (claimNameLocked i (pName p) (releaseNameLocked i (pName r) (fsNameIndex f)))"
    using names_replace[OF indexD(1)[OF idx] r(1) free, of ?h] h by (simp add: sameKeys_def)
  moreover have "idxExact ownerRefKeys ?rows (claimOwnerRefLocked i (pOwnerRef p) (releaseOwnerRefLocked i (pOwnerRef q) (fsOwnerRefIndex f)))"
    using ownerRef_replace[OF indexD(3)[OF idx] r(1,5), of ?h p q] h r(2) by (simp add: sameKeys_def)
  moreover have "ownersOk ?rows (claimOwnerLocked i p (releaseOwnerLocked i q (fsOwnerIndex f)))"
    using owners_replace[OF indexD(4)[OF idx] r(1) _ r(4), of q ?h p] h r(2) by (simp add: sameKeys_def)
  moreover have "reservedOk ?rows (if IsReserved q then releasePending i q (fsPending f) else fsPending f)"
  proof -
    have "\<not> IsReserved ?h" using assms(6) by (simp add: IsReserved_def opPlaceRow_fields)
    then show ?thesis using reserved_settle[OF indexD(5)[OF idx] r(1,2), of "Some ?h"] by simp
  qed
  moreover have "attachOk ?rows (fsVolumes f)"
    using r(1,2) assms(6) opPlaceRow_incarnation[of "Some q" q cmd]
    by (intro attach_keep[OF indexD(8)[OF idx]], cases "pIncarnationID r = []") (auto simp: sameKeys_def)
  moreover have "uniqCovers hostKeys ?rows (fsCustomHostnameIndex f)" "portsOk ?rows (fsHostPortIndex f)"
    using hosts_keep[OF indexD(6)[OF idx] r(1), of ?h] ports_keep[OF indexD(7)[OF idx] r(1), of ?h] r(2) assms(6)
    by (simp_all add: opPlaceRow_fields sameKeys_def)
  ultimately have "indexOk ?rows (opPlaceClaim i p ?g)"
    using shards_claim[OF indexD(2)[OF idx]] r(4) by (simp add: indexOk_def opPlaceClaim_def opPlaceRelease_def name)
  then have "indexOk ?rows (opPlaceClaim i p (snd (storePlacementLocked env i p ?g)))"
    using r(4) by (simp add: indexOk_def opPlaceClaim_def)
  moreover have "coreOk env ?g" "fsPlacements ?g = fsPlacements f" using core by (simp_all add: opPlaceRelease_def)
  ultimately show ?thesis by (intro fsmOk_stored[OF assms(1) _ w]) (simp_all add: opPlaceClaim_def)
qed

lemma opPlace_ok:
  assumes "addressesOk env" "fsmOk env f" "trimSpace (cmSandboxID cmd) = cmSandboxID cmd" "cmSandboxID cmd \<noteq> []"
  shows "fsmOk env (snd (opPlace env cmd now f))"
proof (cases "opPlaceGuard cmd (fullPlacementLocked (cmSandboxID cmd) f) (fsNameIndex f)")
  case None
  then show ?thesis
    using opPlace_fresh[OF assms(1,2) _ refl assms(3,4)] opPlace_again[OF assms(1,2) _ refl]
    by (cases "fullPlacementLocked (cmSandboxID cmd) f") (simp_all add: opPlace_def Let_def case_prod_beta opPlaceRelease_def)
qed (use assms in \<open>simp add: opPlace_def\<close>)

lemma reserveRow_fields:
  "pSandboxID (reserveRow cmd v now) = cmSandboxID cmd" "pOwnerNodeID (reserveRow cmd v now) = cmOwnerNodeID cmd"
  "pState (reserveRow cmd v now) = PlacementStateReserved"
  "pOwnerState (reserveRow cmd v now) = PlacementOwnerStateActive" "pRecoveryRef (reserveRow cmd v now) = []"
  "pName (reserveRow cmd v now) = specName (cmSpec cmd)" "pSpec (reserveRow cmd v now) = cmSpec cmd"
  "pCustomHostnames (reserveRow cmd v now) = []" "pExposedPortRoutes (reserveRow cmd v now) = Map.empty"
  "pOwnerRef (reserveRow cmd v now) = trimSpace (cmOwnerRef cmd)"
  by (simp_all add: reserveRow_def zeroPlacement_def Let_def)

text \<open>A reservation is written on indexes that hold no row under its identifier.\<close>

lemma reserveFresh_ok:
  assumes "addressesOk env" "coreOk env f" "indexOk ((fsPlacements f)(cmSandboxID cmd := None)) f"
    "trimSpace (cmSandboxID cmd) = cmSandboxID cmd" "cmSandboxID cmd \<noteq> []"
    "validateNameUniqueLocked (cmSandboxID cmd) (specName (cmSpec cmd)) (fsNameIndex f) = None"
  shows "fsmOk env (snd (reserveFresh env cmd now f))"
proof -
  define i where "i = cmSandboxID cmd"
  define p where "p = reserveRow cmd (fsVersion f) now"
  define rows where "rows = (fsPlacements f)(i := None)"
  have none: "rows i = None" and upd: "rows(i := nu) = (fsPlacements f)(i := nu)" for nu by (simp_all add: rows_def)
  have idx: "indexOk rows f" using assms(3) by (simp add: i_def rows_def)
  have i: "trimSpace i = i" "i \<noteq> []" using assms(4,5) by (simp_all add: i_def)
  have w: "writable i p" using i by (simp add: p_def i_def writable_def rowOk_def settledRow_def reserveRow_fields)
  note h = storedRow_keys[OF w, of env]
  have free: "validateNameUniqueLocked i (pName p) (fsNameIndex f) = None" using assms(6) by (simp add: i_def p_def reserveRow_fields)
  define k where "k = (\<lambda>f::placementFSM. claimShardLocked i
     (f\<lparr>fsNameIndex := claimNameLocked i (pName p) (fsNameIndex f),
        fsOwnerRefIndex := claimOwnerRefLocked i (pOwnerRef p) (fsOwnerRefIndex f),
        fsPending := claimPendingReservationLocked i p (fsPending f)\<rparr>))"
  have res: "IsReserved p" "IsReserved (storedRow env i p)" by (simp_all add: p_def IsReserved_def reserveRow_fields)
  have "attachOk (rows(i \<mapsto> storedRow env i p)) (fsVolumes f)" using none by (intro attach_keep[OF indexD(8)[OF idx]]) simp
  moreover have "ownersOk (rows(i \<mapsto> storedRow env i p)) (fsOwnerIndex f)"
    using owners_absent[OF indexD(4)[OF idx], of i _ "Some (storedRow env i p)"] res none by (simp add: IsReserved_def)
  moreover have "reservedOk (rows(i \<mapsto> storedRow env i p)) (claimPendingReservationLocked i p (fsPending f))"
    using reserved_claim[of rows i "fsPending f" "storedRow env i p" p] indexD(5)[OF idx] i res h none
    by (simp add: sameKeys_def fun_upd_idem)
  moreover have "uniqCovers hostKeys (rows(i \<mapsto> storedRow env i p)) (fsCustomHostnameIndex f)"
    "portsOk (rows(i \<mapsto> storedRow env i p)) (fsHostPortIndex f)"
    using hosts_weaken[OF indexD(6)[OF idx], of i _ "Some (storedRow env i p)"] ports_weaken[OF indexD(7)[OF idx], of i _ "Some (storedRow env i p)"]
    by (simp_all add: p_def reserveRow_fields)
  ultimately have "indexOk (rows(i \<mapsto> storedRow env i p)) (k f)"
    using shards_claim[OF indexD(2)[OF idx], of i "storedRow env i p"] h i names_insert[OF indexD(1)[OF idx] none free]
      ownerRef_insert[OF indexD(3)[OF idx] none i(1), of "storedRow env i p" p]
    by (simp add: indexOk_def k_def sameKeys_def)
  then have "indexOk ((fsPlacements f)(i \<mapsto> storedRow env i p)) (k (snd (storePlacementLocked env i p f)))"
    using i(2) by (simp add: indexOk_def k_def upd)
  then have "fsmOk env (snd (storeThen env i p f k))" by (intro fsmOk_stored[OF assms(1,2) w]) (simp_all add: k_def)
  with assms(6) show ?thesis unfolding k_def p_def by (simp add: reserveFresh_def i_def[symmetric] Let_def)
qed

lemma reserveExpired_ok:
  assumes "fsmOk env f" "fullPlacementLocked i f = Some q" "IsReserved q"
  shows "coreOk env (reserveExpired i q f)" "indexOk ((fsPlacements (reserveExpired i q f))(i := None)) (reserveExpired i q f)"
proof -
  from existing_row[OF assms(1,2)] obtain r where r: "fsPlacements f i = Some r" "sameKeys q r" "writable i q" "i \<noteq> []" "trimSpace i = i"
    and core: "coreOk env f" and idx: "indexOk (fsPlacements f) f" by metis
  have name: "placementName q = pName r" using r(2,3) by (simp add: writable_def settled_name sameKeys_def)
  have "ownersOk ((fsPlacements f)(i := None)) (fsOwnerIndex f)"
    using owners_absent[OF indexD(4)[OF idx], of i r None] r(1,2) assms(3) by (simp add: sameKeys_def IsReserved_def)
  moreover have "reservedOk ((fsPlacements f)(i := None)) (releasePending i q (fsPending f))"
    using reserved_settle[OF indexD(5)[OF idx] r(1,2), of None] assms(3) by simp
  moreover have "attachOk ((fsPlacements f)(i := None)) (releaseVolumeAttachmentsForIncarnationLocked i (pIncarnationID q) (fsVolumes f))"
    using attach_release[OF indexD(8)[OF idx] r(1,5,4), of "pIncarnationID q" None] r(2) by (simp add: sameKeys_def)
  moreover have "idxExact ownerRefKeys ((fsPlacements f)(i := None)) (releaseOwnerRefLocked i (pOwnerRef q) (fsOwnerRefIndex f))"
    using ownerRef_remove[OF indexD(3)[OF idx] r(1,5), of q] r(2) by (simp add: sameKeys_def)
  moreover have "portsOk ((fsPlacements f)(i := None)) (fsHostPortIndex f)"
    using ports_weaken[OF indexD(7)[OF idx], of i "fsHostPortIndex f" None] by simp
  ultimately show "indexOk ((fsPlacements (reserveExpired i q f))(i := None)) (reserveExpired i q f)"
    using r(1,4) indexD[OF idx] nameIndex.remove[OF indexD(1)[OF idx] r(1)]
    by (simp add: indexOk_def reserveExpired_def name shards_release uniqCovers_remove_row)
  show "coreOk env (reserveExpired i q f)" using core by (simp add: reserveExpired_def)
qed

lemma reserveRetry_ok:
  assumes "addressesOk env" "fsmOk env f" "fullPlacementLocked (cmSandboxID cmd) f = Some q" "IsReserved q"
  shows "fsmOk env (snd (reserveRetry env cmd now q f))"
proof (cases "reserveRetryGuard cmd q")
  case None
  define i where "i = cmSandboxID cmd"
  from assms(3) have q: "fullPlacementLocked i f = Some q" by (simp add: i_def)
  from existing_row[OF assms(2) q] obtain r where r: "fsPlacements f i = Some r" "sameKeys q r" "writable i q" "i \<noteq> []" "trimSpace i = i"
    and core: "coreOk env f" and idx: "indexOk (fsPlacements f) f" by metis
  define p where "p = reserveRetryRow cmd (fsVersion f) now q"
  have keys: "sameKeys p (q\<lparr>pOwnerRef := pOwnerRef p\<rparr>)" by (simp add: p_def reserveRetryRow_def sameKeys_def)
  have w: "writable i p" using r(3) by (simp add: p_def reserveRetryRow_def writable_def rowOk_def settledRow_def payloadOf_def)
  note h = storedRow_keys[OF w, of env]
  define k where "k = (\<lambda>f::placementFSM. f\<lparr>fsOwnerRefIndex := (if pOwnerRef p \<noteq> pOwnerRef q
        then claimOwnerRefLocked i (pOwnerRef p) (releaseOwnerRefLocked i (pOwnerRef q) (fsOwnerRefIndex f)) else fsOwnerRefIndex f),
      fsPending := refreshPendingReservationExpiryLocked i (cmExpiresUnix cmd) (fsPending f)\<rparr>)"
  let ?rows = "(fsPlacements f)(i \<mapsto> storedRow env i p)"
  have "idxExact ownerRefKeys ?rows (fsOwnerRefIndex (k f))"
    using ownerRef_replace[OF indexD(3)[OF idx] r(1,5), of "storedRow env i p" p q] ownerRef_keep[OF indexD(3)[OF idx] r(1), of "storedRow env i p"]
      h r(2) by (simp add: k_def sameKeys_def)
  moreover have "reservedOk ?rows (fsPending (k f))"
    using reserved_refresh[OF reserved_keep[OF indexD(5)[OF idx] r(1), of "storedRow env i p"]] h keys r(2)
    by (simp add: k_def sameKeys_def IsReserved_def)
  ultimately have "indexOk ?rows (k f)"
    using indexD[OF idx] r(1,2) h keys
    by (auto simp: indexOk_def k_def sameKeys_def intro: names_keep shards_keep owners_keep hosts_keep ports_keep attach_keep)
  then have "indexOk ?rows (k (snd (storePlacementLocked env i p f)))"
    by (cases "pOwnerRef p = pOwnerRef q") (simp_all add: indexOk_def k_def)
  then have "fsmOk env (snd (storeThen env i p f k))" by (intro fsmOk_stored[OF assms(1) core w]) (simp_all add: k_def)
  with None show ?thesis unfolding k_def p_def by (simp add: reserveRetry_def i_def[symmetric] Let_def)
qed (use assms in \<open>simp add: reserveRetry_def Let_def\<close>)

end
