(* ===== verification/Placement_Snapshot.thy ===== *)
theory Placement_Snapshot
  imports Placement_Run "HOL-Library.Product_Lexorder"
begin

text \<open>
  Snapshots of the placement state machine (\<^verbatim>\<open>Snapshot\<close>, \<^verbatim>\<open>Persist\<close> and \<^verbatim>\<open>Restore\<close> of
  \<^verbatim>\<open>internal/cluster/fsm.go\<close> with the snapshot functions of its tables).  A snapshot carries the tables; every index
  is rebuilt from the rows.  The gob encoding between the two is taken to give back the envelope it was given, a nil map
  being the empty one; loops over a Go map run in key order.
\<close>

section \<open>The envelope\<close>

record placementSnapshotRow =
  snPlacement :: Placement
  snRecovery :: placementRecovery

record fsmSnapshotPayload =
  spVersion :: nat
  spRows :: "placementSnapshotRow list"
  spPlacements :: "string \<rightharpoonup> Placement"
  spRecovery :: "string \<rightharpoonup> placementRecovery"
  spDrainedNodes :: "string set"
  spAuditACLs :: "string \<rightharpoonup> AuditACL"
  spVolumes :: "Volume list"
  spVolumeAttachments :: "VolumeAttachment list"
  spStorageRetirements :: "string \<rightharpoonup> NodeStorageRetirement"
  spStorageObligations :: "string \<rightharpoonup> StorageObligation"
  spObligationReports :: "string \<rightharpoonup> StorageObligationReport"
  spArtifactCatalog :: artifactCatalog
  spEgressProfiles :: "EgressProfileRecord list"
  spSnapshotNodes :: "string \<rightharpoonup> string"
  spAPITokens :: "TokenRecord list"
  spWarmPools :: "WarmPoolRecord list"
  spIdentityKeys :: "KeySet option"
  spIdentityRoles :: "IdentityRoleRecord list"
  spTeamQuotas :: "TeamQuotaRecord list"
  spVolumeReclaims :: "VolumeReclaim list"

definition emptyRecovery :: placementRecovery where
  "emptyRecovery = \<lparr>prSpec = None, prSecretRef = [], prSecretVersion = 0\<rparr>"

definition emptyPayload :: fsmSnapshotPayload where
  "emptyPayload =
     \<lparr>spVersion = 0, spRows = [], spPlacements = Map.empty, spRecovery = Map.empty, spDrainedNodes = {},
      spAuditACLs = Map.empty, spVolumes = [], spVolumeAttachments = [], spStorageRetirements = Map.empty,
      spStorageObligations = Map.empty, spObligationReports = Map.empty, spArtifactCatalog = Map.empty,
      spEgressProfiles = [], spSnapshotNodes = Map.empty, spAPITokens = [], spWarmPools = [], spIdentityKeys = None,
      spIdentityRoles = [], spTeamQuotas = [], spVolumeReclaims = []\<rparr>"

section \<open>Taking a snapshot\<close>

definition cloneHotPlacement :: "Placement \<Rightarrow> Placement" where
  "cloneHotPlacement p = p\<lparr>pSpec := None, pSecretRef := [], pSecretVersion := 0\<rparr>"

definition volumesSnapshotLocked :: "volumeState \<Rightarrow> Volume list" where
  "volumesSnapshotLocked v = sortedRows (volumes v)"

definition volumeAttachmentsSnapshotLocked :: "volumeState \<Rightarrow> VolumeAttachment list" where
  "volumeAttachmentsSnapshotLocked v = sortedRows (volumeAttachments v)"

definition volumeReclaimsSnapshotLocked :: "volumeState \<Rightarrow> VolumeReclaim list" where
  "volumeReclaimsSnapshotLocked v = sortedRows (volumeReclaims v)"

definition egressProfilesSnapshotLocked :: "egressProfileState \<Rightarrow> EgressProfileRecord list" where
  "egressProfilesSnapshotLocked e = sortedRows (egressProfiles e)"

definition teamQuotasSnapshotLocked :: "teamQuotaState \<Rightarrow> TeamQuotaRecord list" where
  "teamQuotasSnapshotLocked q = sortedRows (teamQuotas q)"

definition snapshotRow :: "Placement \<Rightarrow> placementSnapshotRow" where
  "snapshotRow p = \<lparr>snPlacement = cloneHotPlacement p, snRecovery = emptyRecovery\<rparr>"

definition snapshotOf :: "placementFSM \<Rightarrow> fsmSnapshotPayload" where
  "snapshotOf f =
     emptyPayload\<lparr>spVersion := fsVersion f, spRows := map snapshotRow (sortedRows (fsPlacements f)),
       spDrainedNodes := drainedNodes (fsStorage f),
       spStorageRetirements := storageRetirements (fsStorage f),
       spStorageObligations := storageObligations (fsStorage f),
       spObligationReports := (\<lambda>k. map_option (\<lambda>r. r\<lparr>srOwed := normalizeOwed (srOwed r)\<rparr>) (obligationReports (fsStorage f) k)),
       spArtifactCatalog := fsArtifactCatalog f,
       spAuditACLs := auditACLs (fsAudit f),
       spVolumes := volumesSnapshotLocked (fsVolumes f),
       spVolumeAttachments := volumeAttachmentsSnapshotLocked (fsVolumes f),
       spVolumeReclaims := volumeReclaimsSnapshotLocked (fsVolumes f),
       spEgressProfiles := egressProfilesSnapshotLocked (fsEgress f),
       spTeamQuotas := teamQuotasSnapshotLocked (fsQuotas f),
       spSnapshotNodes := fsSnapshotNodeIndex f,
       spAPITokens := tokensSnapshot (fsTokens f),
       spWarmPools := warmPoolsSnapshotLocked (fsWarmPools f),
       spIdentityKeys := Some (fst (identitySnapshotLocked (fsIdentity f))),
       spIdentityRoles := snd (identitySnapshotLocked (fsIdentity f))\<rparr>"

text \<open>The oldest format: the bare table, with the highest row version for want of a better one.\<close>

definition legacyPayload :: "(string \<rightharpoonup> Placement) \<Rightarrow> fsmSnapshotPayload" where
  "legacyPayload rows =
     emptyPayload\<lparr>spPlacements := rows, spVersion := fold (\<lambda>p v. max (pVersion p) v) (sortedRows rows) 0\<rparr>"

section \<open>Restoring the tables\<close>

definition payloadPlacements :: "fsmSnapshotPayload \<Rightarrow> (string \<rightharpoonup> Placement)" where
  "payloadPlacements sp =
     (if spRows sp = [] then spPlacements sp
      else rebuildRows (\<lambda>p. pSandboxID p \<noteq> []) pSandboxID (map snPlacement (spRows sp)))"

definition payloadRecovery :: "fsmSnapshotPayload \<Rightarrow> (string \<rightharpoonup> placementRecovery)" where
  "payloadRecovery sp =
     (if spRows sp = [] then spRecovery sp
      else map_option snRecovery \<circ>
        rebuildRows (\<lambda>row. pSandboxID (snPlacement row) \<noteq> [] \<and> \<not> recoveryEmpty (snRecovery row))
          (\<lambda>row. pSandboxID (snPlacement row)) (spRows sp))"

definition restoreVolume :: "Volume \<Rightarrow> volumeState \<Rightarrow> volumeState" where
  "restoreVolume v s =
     (let tenant = trimSpace (vTenant v); i = trimSpace (vID v); name = trimSpace (vName v)
      in if tenant = [] \<or> i = [] then s
         else let s = s\<lparr>volumes := (volumes s)(volumeKey tenant i \<mapsto> v)\<rparr>
              in if name = [] then s else s\<lparr>volumeNameIndex := (volumeNameIndex s)(volumeNameKey tenant name \<mapsto> i)\<rparr>)"

definition restoreAttachment :: "(string \<rightharpoonup> Placement) \<Rightarrow> VolumeAttachment \<Rightarrow> volumeState \<Rightarrow> volumeState" where
  "restoreAttachment placements a0 s =
     (let a = a0\<lparr>vaTenant := trimSpace (vaTenant a0), vaVolumeID := trimSpace (vaVolumeID a0),
                 vaSandboxID := trimSpace (vaSandboxID a0), vaIncarnationID := trimSpace (vaIncarnationID a0),
                 vaTarget := trimSpace (vaTarget a0), vaSource := trimSpace (vaSource a0)\<rparr>
      in if vaTenant a = [] \<or> vaVolumeID a = [] \<or> vaSandboxID a = [] \<or> vaIncarnationID a = [] \<or> vaTarget a = [] \<or> vaSource a = []
         then s
         else if volumes s (volumeKey (vaTenant a) (vaVolumeID a)) = None then s
         else (case placements (vaSandboxID a) of
                 None \<Rightarrow> s
               | Some p \<Rightarrow> if trimSpace (pIncarnationID p) \<noteq> vaIncarnationID a then s else putVolumeAttachmentLocked a s))"

definition restoreReclaim :: "VolumeReclaim \<Rightarrow> volumeState \<Rightarrow> volumeState" where
  "restoreReclaim r0 s =
     (let r = r0\<lparr>vrTenant := trimSpace (vrTenant r0), vrVolumeID := trimSpace (vrVolumeID r0)\<rparr>
      in if vrTenant r = [] \<or> vrVolumeID r = [] then s else putVolumeReclaimLocked r s)"

definition restoreVolumeReclaimsLocked :: "VolumeReclaim list \<Rightarrow> volumeState \<Rightarrow> volumeState" where
  "restoreVolumeReclaimsLocked rs s =
     fold restoreReclaim rs (s\<lparr>volumeReclaims := Map.empty, volumeReclaimsByNode := Map.empty\<rparr>)"

definition restoreVolumes :: "fsmSnapshotPayload \<Rightarrow> volumeState" where
  "restoreVolumes sp =
     restoreVolumeReclaimsLocked (spVolumeReclaims sp)
       (fold (restoreAttachment (payloadPlacements sp)) (spVolumeAttachments sp)
         (fold restoreVolume (spVolumes sp) newVolumeState))"

definition restoreEgressProfilesLocked :: "EgressProfileRecord list \<Rightarrow> egressProfileState" where
  "restoreEgressProfilesLocked records = \<lparr>egressProfiles = rebuildRows (\<lambda>_. True) epKey records, egressProfileRefs = Map.empty\<rparr>"

definition restoreTeamQuotasLocked :: "TeamQuotaRecord list \<Rightarrow> teamQuotaState" where
  "restoreTeamQuotasLocked records =
     newTeamQuotaState\<lparr>teamQuotas := rebuildRows (\<lambda>r. trimSpace (tqTeam r) \<noteq> []) tqTeam records\<rparr>"

definition restoreAudit :: "(string \<rightharpoonup> AuditACL) \<Rightarrow> auditState" where
  "restoreAudit acls =
     fold (\<lambda>acl s. retainAuditACLLocked acl maxRetainedAuditACLs s) (sortedRows acls)
       (newAuditState\<lparr>auditACLByVersion := Some [], auditACLByExpiry := Some []\<rparr>)"

section \<open>Restoring the rows\<close>

text \<open>The row of the envelope, with the payload an older envelope kept beside it.\<close>

definition restoredRow :: "fsmEnv \<Rightarrow> (string \<rightharpoonup> placementRecovery) \<Rightarrow> string \<Rightarrow> Placement \<Rightarrow> Placement" where
  "restoredRow env recovery i p =
     (let full = (if pSandboxID p = [] then p\<lparr>pSandboxID := i\<rparr> else p);
          rec = (case recovery i of None \<Rightarrow> snd (splitPlacement env p) | Some rec \<Rightarrow> rec)
      in if recoveryEmpty rec then full else attachPlacementRecovery full rec)"

definition claimRestored :: "string \<Rightarrow> Placement \<Rightarrow> placementFSM \<Rightarrow> placementFSM" where
  "claimRestored i indexed f0 =
     (let name = placementName indexed; routes = exposedPortRoutesForPlacement indexed;
          f = claimShardLocked i (f0\<lparr>fsNameIndex := (if name = [] then fsNameIndex f0 else (fsNameIndex f0)(name \<mapsto> i))\<rparr>);
          f = f\<lparr>fsOwnerRefIndex := claimOwnerRefLocked i (pOwnerRef indexed) (fsOwnerRefIndex f),
                fsHostPortIndex := fold (\<lambda>port. claimHostPortLocked i port (the (routes port))) (sorted_list_of_set (dom routes)) (fsHostPortIndex f),
                fsCustomHostnameIndex := fold (claimCustomHostnameLocked i) (pCustomHostnames indexed) (fsCustomHostnameIndex f)\<rparr>
      in if IsReserved indexed then f\<lparr>fsPending := claimPendingReservationLocked i indexed (fsPending f)\<rparr>
         else f\<lparr>fsOwnerIndex := claimOwnerLocked i indexed (fsOwnerIndex f)\<rparr>)"

fun restoreRows ::
  "fsmEnv \<Rightarrow> (string \<rightharpoonup> Placement) \<Rightarrow> (string \<rightharpoonup> placementRecovery) \<Rightarrow> string list \<Rightarrow> placementFSM \<Rightarrow> fsmError option \<times> placementFSM" where
  "restoreRows env placements recovery [] f = (None, f)"
| "restoreRows env placements recovery (i # is) f =
     (case storePlacementLocked env i (restoredRow env recovery i (the (placements i))) f of
        (Some e, f) \<Rightarrow> (Some e, f)
      | (None, f) \<Rightarrow>
          restoreRows env placements recovery is
            (claimRestored i (case fullPlacementLocked i f of None \<Rightarrow> zeroPlacement | Some p \<Rightarrow> p) f))"

text \<open>The machine with every derived table empty, just before the rows are put back.\<close>

definition restoreBase :: "fsmSnapshotPayload \<Rightarrow> placementFSM \<Rightarrow> placementFSM" where
  "restoreBase sp f =
     f\<lparr>fsPlacements := Map.empty, fsRecovery := Map.empty, fsVersion := spVersion sp,
       fsChanges := resetPlacementChanges (spVersion sp) (fsChanges f),
       fsNameIndex := Map.empty, fsShardIndex := Map.empty, fsPlacementIDs := {}, fsOwnerRefIndex := Map.empty,
       fsHostPortIndex := Map.empty, fsOwnerIndex := Map.empty, fsPending := newPendingState, fsDeletingIndex := {},
       fsCustomHostnameIndex := Map.empty,
       fsEgress := restoreEgressProfilesLocked (spEgressProfiles sp),
       fsQuotas := restoreTeamQuotasLocked (spTeamQuotas sp),
       fsTokens := tokensRestore (spAPITokens sp) (spVersion sp) (fsTokens f),
       fsWarmPools := restoreWarmPoolsLocked (spWarmPools sp) (spVersion sp),
       fsIdentity := restoreIdentityLocked (spIdentityKeys sp) (spIdentityRoles sp),
       fsAudit := restoreAudit (spAuditACLs sp),
       fsVolumes := restoreVolumes sp\<rparr>"

definition Restore :: "fsmEnv \<Rightarrow> fsmSnapshotPayload \<Rightarrow> placementFSM \<Rightarrow> fsmError option \<times> placementFSM" where
  "Restore env sp f0 =
     (let rows = payloadPlacements sp
      in case restoreRows env rows (payloadRecovery sp) (sorted_list_of_set (dom rows)) (restoreBase sp f0) of
           (Some e, f) \<Rightarrow> (Some e, f)
         | (None, f) \<Rightarrow>
             (None, f\<lparr>fsStorage := \<lparr>drainedNodes = spDrainedNodes sp, storageRetirements = spStorageRetirements sp,
                                    storageObligations = spStorageObligations sp, obligationReports = spObligationReports sp\<rparr>,
                      fsSnapshotNodeIndex := spSnapshotNodes sp,
                      fsArtifactCatalog := spArtifactCatalog sp,
                      fsChanges := resetPlacementChanges (spVersion sp) (fsChanges f)\<rparr>))"

end
