(* ===== verification/Placement_Restore.thy ===== *)
theory Placement_Restore
  imports Placement_Snapshot
begin

text \<open>
  A machine restored from a snapshot satisfies the invariant of the machine the snapshot was taken of: the loop over the
  rows rebuilds every index, one row at a time, and ends with the table of the source.  The source is described by its
  table and by the uniqueness that its indexes give.
\<close>

section \<open>One index at a time\<close>

lemma map_le_at: "rows \<subseteq>\<^sub>m R \<Longrightarrow> rows j = Some r \<Longrightarrow> R j = Some r"
  by (metis domI map_le_def)

lemma restore_name:
  assumes "uniqExact nameKeys R nm" "rows \<subseteq>\<^sub>m R" "R i = Some p" "rows i = None" "uniqExact nameKeys rows m"
    and "trimSpace (pName p) = pName p"
  shows "uniqExact nameKeys (rows(i \<mapsto> p)) (if pName p = [] then m else m(pName p \<mapsto> i))"
proof -
  have "validateNameUniqueLocked i (pName p) m = None"
  proof -
    have "j = i" if "m (pName p) = Some j" "pName p \<noteq> []" for j
    proof -
      from that(1) assms(5) obtain r where r: "rows j = Some r" "pName p \<in> nameKeys j r" unfolding uniqExact_def by blast
      with assms(2) have "R j = Some r" by (simp add: map_le_at)
      with r(2) assms(1) have "nm (pName p) = Some j" unfolding uniqExact_def by blast
      moreover have "nm (pName p) = Some i" using assms(1,3,6) that(2) unfolding uniqExact_def by (auto simp: nameKeys_def)
      ultimately show ?thesis by simp
    qed
    then show ?thesis using assms(6) by (auto simp: validateNameUniqueLocked_def Let_def split: option.split)
  qed
  from names_insert[OF assms(5,4) this refl] assms(6) show ?thesis by (simp add: claimNameLocked_def Let_def)
qed

lemma claim_hosts_at:
  "i \<noteq> [] \<Longrightarrow> [] \<notin> set hs \<Longrightarrow> fold (claimCustomHostnameLocked i) hs m h = (if h \<in> set hs then Some i else m h)"
  by (induction hs arbitrary: m) (auto simp: claimCustomHostnameLocked_def)

lemma restore_hosts:
  assumes "uniqCovers hostKeys R hm" "rows \<subseteq>\<^sub>m R" "R i = Some p" "uniqCovers hostKeys rows m"
    and "i \<noteq> []" "[] \<notin> set (pCustomHostnames p)"
  shows "uniqCovers hostKeys (rows(i \<mapsto> p)) (fold (claimCustomHostnameLocked i) (pCustomHostnames p) m)"
proof -
  have "h \<notin> set (pCustomHostnames p)" if "j \<noteq> i" "rows j = Some r" "h \<in> set (pCustomHostnames r)" for j r h
  proof
    assume "h \<in> set (pCustomHostnames p)"
    with assms(1,3) have "hm h = Some i" by (auto simp: uniqCovers_def hostKeys_def)
    moreover have "hm h = Some j" using assms(1) map_le_at[OF assms(2) that(2)] that(3) by (simp add: uniqCovers_def hostKeys_def)
    ultimately show False using that(1) by simp
  qed
  with assms(4-6) show ?thesis by (auto simp: uniqCovers_def hostKeys_def claim_hosts_at)
qed

lemma claim_ports_other:
  "(\<And>port r. port \<in> set ps \<Longrightarrow> routes port = Some r \<Longrightarrow> tcpRoute r \<Longrightarrow> rtHostPort r \<noteq> hp) \<Longrightarrow> set ps \<subseteq> dom routes \<Longrightarrow>
   fold (\<lambda>port. claimHostPortLocked i port (the (routes port))) ps m hp = m hp"
  by (induction ps arbitrary: m) (force simp: claimHostPortLocked_def)+

lemma claim_ports_own:
  assumes "distinct ps" "set ps \<subseteq> dom routes" "port \<in> set ps" "routes port = Some r" "tcpRoute r"
    and "\<And>a b s t. routes a = Some s \<Longrightarrow> routes b = Some t \<Longrightarrow> tcpRoute s \<Longrightarrow> tcpRoute t \<Longrightarrow> rtHostPort s = rtHostPort t \<Longrightarrow> a = b"
  shows "fold (\<lambda>port. claimHostPortLocked i port (the (routes port))) ps m (rtHostPort r) = Some \<lparr>hpSandboxID = i, hpPort = port\<rparr>"
  using assms(1-3)
proof (induction ps arbitrary: m)
  case (Cons a ps)
  show ?case
  proof (cases "a = port")
    case True
    have "rtHostPort t \<noteq> rtHostPort r" if "b \<in> set ps" "routes b = Some t" "tcpRoute t" for b t
      using assms(6)[OF that(2) assms(4) that(3) assms(5)] that(1) True Cons.prems(1) by auto
    then have "fold (\<lambda>port. claimHostPortLocked i port (the (routes port))) ps m' (rtHostPort r) = m' (rtHostPort r)" for m'
      using Cons.prems(2) by (intro claim_ports_other) auto
    with True assms(4,5) show ?thesis by (simp add: claimHostPortLocked_def[of i port r])
  qed (use Cons in simp)
qed simp

lemma restore_ports:
  assumes "portsOk R pm" "rows \<subseteq>\<^sub>m R" "R i = Some p" "rows i = None" "portsOk rows m"
    and "pExposedPortRoutes q = pExposedPortRoutes p" "finite (dom (pExposedPortRoutes p))"
  shows "portsOk (rows(i \<mapsto> p)) (fold (\<lambda>port. claimHostPortLocked i port (the (exposedPortRoutesForPlacement q port)))
    (sorted_list_of_set (dom (exposedPortRoutesForPlacement q))) m)"
proof -
  let ?routes = "exposedPortRoutesForPlacement q" and ?ps = "sorted_list_of_set (dom (exposedPortRoutesForPlacement q))"
  have tcp: "pExposedPortRoutes p port = Some r" if "?routes port = Some r" "tcpRoute r" for port r
    using that assms(6) by (auto simp: exposedPortRoutesForPlacement_def tcpRoute_def split: if_splits)
  have sub: "set ?ps \<subseteq> dom ?routes" by (cases "finite (dom ?routes)") auto
  have uniq: "i = j \<and> a = b" if "R j = Some r" "pExposedPortRoutes p a = Some s" "tcpRoute s" "pExposedPortRoutes r b = Some t"
      "tcpRoute t" "rtHostPort s = rtHostPort t" for j r a b s t
    using portsD[OF assms(1,3) that(2,3)] portsD[OF assms(1) that(1,4,5)] that(6) by simp
  show ?thesis
  proof (rule portsI)
    fix j r port t assume j: "(rows(i \<mapsto> p)) j = Some r" and t: "pExposedPortRoutes r port = Some t" "tcpRoute t"
    show "fold (\<lambda>port. claimHostPortLocked i port (the (?routes port))) ?ps m (rtHostPort t) = Some \<lparr>hpSandboxID = j, hpPort = port\<rparr>"
    proof (cases "j = i")
      case True
      with j t have r: "?routes = pExposedPortRoutes p" "pExposedPortRoutes p port = Some t"
        using assms(6) by (auto simp: exposedPortRoutesForPlacement_def)
      have "port \<in> set ?ps" using r assms(7) by (simp add: domI)
      moreover have "a = b" if "?routes a = Some s" "?routes b = Some u" "tcpRoute s" "tcpRoute u" "rtHostPort s = rtHostPort u" for a b s u
        using uniq[OF assms(3)] tcp that by blast
      ultimately show ?thesis using claim_ports_own[of ?ps ?routes port t i m] r t(2) sub True by simp
    next
      case False
      with j have row: "rows j = Some r" by simp
      with assms(2) have "R j = Some r" by (simp add: map_le_at)
      then have "fold (\<lambda>port. claimHostPortLocked i port (the (?routes port))) ?ps m (rtHostPort t) = m (rtHostPort t)"
        using uniq[OF _ tcp _ t] False sub by (intro claim_ports_other) fastforce+
      with portsD[OF assms(5) row t] show ?thesis by simp
    qed
  qed
qed

section \<open>One row\<close>

lemma storedRow_hotRow: "hotRow p \<Longrightarrow> storedRow env i p = p"
  by (simp add: storedRow_def hotPart_def splitPlacement_def fieldsFromSpec_def hotRow_def payloadOf_def recoveryEmpty_def specName_def Let_def)

text \<open>The indexes while the rows come back; the attachments are restored before the rows they need.\<close>

definition looseIndex :: "placementFSM \<Rightarrow> bool" where
  "looseIndex f \<longleftrightarrow> indexOk (fsPlacements f) (f\<lparr>fsVolumes := newVolumeState\<rparr>)"

lemma attachOk_none: "attachOk rows newVolumeState"
  using volumesWf_new by (simp add: attachOk_def newVolumeState_def)

lemma claimRestored_fields:
  assumes "i \<noteq> []"
  shows "fsPlacements (claimRestored i q g) = fsPlacements g"
    "fsNameIndex (claimRestored i q g) = (if placementName q = [] then fsNameIndex g else (fsNameIndex g)(placementName q \<mapsto> i))"
    "fsShardIndex (claimRestored i q g) = claimShard i (fsShardIndex g)"
    "fsPlacementIDs (claimRestored i q g) = insert i (fsPlacementIDs g)"
    "fsOwnerRefIndex (claimRestored i q g) = claimOwnerRefLocked i (pOwnerRef q) (fsOwnerRefIndex g)"
    "fsHostPortIndex (claimRestored i q g) = fold (\<lambda>port. claimHostPortLocked i port (the (exposedPortRoutesForPlacement q port)))
       (sorted_list_of_set (dom (exposedPortRoutesForPlacement q))) (fsHostPortIndex g)"
    "fsCustomHostnameIndex (claimRestored i q g) = fold (claimCustomHostnameLocked i) (pCustomHostnames q) (fsCustomHostnameIndex g)"
    "fsPending (claimRestored i q g) = (if IsReserved q then claimPendingReservationLocked i q (fsPending g) else fsPending g)"
    "fsOwnerIndex (claimRestored i q g) = (if IsReserved q then fsOwnerIndex g else claimOwnerLocked i q (fsOwnerIndex g))"
    "derivedOk (claimRestored i q g) = derivedOk g"
  using assms by (simp_all add: claimRestored_def derivedOk_def claimShardLocked_def Let_def)

lemma restore_step:
  assumes src: "fsmOk env f" and le: "fsPlacements g \<subseteq>\<^sub>m fsPlacements f" and none: "fsPlacements g i = None"
    and row: "fsPlacements f i = Some p" and full: "fullPlacementLocked i f = Some q" and idx: "looseIndex g"
  shows "looseIndex (claimRestored i q (snd (storePlacementLocked env i p g)))"
proof -
  define rows where "rows = fsPlacements g"
  have ok: "coreOk env f" "indexOk (fsPlacements f) f" using src by (simp_all add: fsmOk_def)
  have hot: "hotRow p" "rowOk i p" using ok(1) row by (simp_all add: coreOk_def payloadsOk_def)
  then have i: "i \<noteq> []" "trimSpace i = i" by (simp_all add: rowOk_def)
  from existing_row[OF src full] row have k: "sameKeys q p" "writable i q" by auto
  have name: "placementName q = pName p" "trimSpace (pName p) = pName p"
    using settled_name[of q] k by (simp_all add: writable_def settledRow_def sameKeys_def)
  note R = indexD[OF ok(2)]
  note g = indexD[OF idx[unfolded looseIndex_def], simplified, folded rows_def]
  have le': "rows \<subseteq>\<^sub>m fsPlacements f" and none': "rows i = None" using le none by (simp_all add: rows_def)
  have tbl: "fsPlacements (snd (storePlacementLocked env i p g)) = rows(i \<mapsto> p)"
    using i by (simp add: storePlacement_eq storedRow_hotRow[OF hot(1)] rows_def)
  have "uniqExact nameKeys (rows(i \<mapsto> p)) (if pName p = [] then fsNameIndex g else (fsNameIndex g)(pName p \<mapsto> i))"
    by (rule restore_name[OF R(1) le' row none' g(1) name(2)])
  moreover have "shardsOk (rows(i \<mapsto> p)) (claimShard i (fsShardIndex g)) (insert i (fsPlacementIDs g))" by (rule shards_claim[OF g(2)])
  moreover have "idxExact ownerRefKeys (rows(i \<mapsto> p)) (claimOwnerRefLocked i (pOwnerRef q) (fsOwnerRefIndex g))"
    using ownerRef_insert[OF g(3) none' i(2), of p q] k(1) by (simp add: sameKeys_def)
  moreover have "ownersOk (rows(i \<mapsto> p)) (if IsReserved q then fsOwnerIndex g else claimOwnerLocked i q (fsOwnerIndex g))"
    using owners_insert[OF g(4) disjI1[OF none'] i(1), of p q] owners_absent[OF g(4) disjI1[OF none'], of "Some p"] k(1)
    by (auto simp: sameKeys_def row_state)
  moreover have "reservedOk (rows(i \<mapsto> p)) (if IsReserved q then claimPendingReservationLocked i q (fsPending g) else fsPending g)"
    using reserved_claim[of rows i "fsPending g" p q] reserved_outside[OF g(5), of i] g(5) i(1) k(1) none'
    by (auto simp: sameKeys_def row_state fun_upd_idem)
  moreover have "uniqCovers hostKeys (rows(i \<mapsto> p)) (fold (claimCustomHostnameLocked i) (pCustomHostnames q) (fsCustomHostnameIndex g))"
    using restore_hosts[OF R(6) le' row g(6) i(1)] hot(2) k(1) by (simp add: sameKeys_def rowOk_def)
  moreover have "portsOk (rows(i \<mapsto> p)) (fold (\<lambda>port. claimHostPortLocked i port (the (exposedPortRoutesForPlacement q port)))
       (sorted_list_of_set (dom (exposedPortRoutesForPlacement q))) (fsHostPortIndex g))"
    using restore_ports[OF R(7) le' row none' g(7), of q] hot(2) k(1) by (simp add: sameKeys_def rowOk_def)
  ultimately show ?thesis
    unfolding looseIndex_def indexOk_def
    by (cases "IsReserved q"; cases "pName p = []") (simp_all add: claimRestored_fields[OF i(1)] tbl name(1) attachOk_none)
qed

section \<open>All rows\<close>

text \<open>What the loop over the rows leaves alone.\<close>

definition sameTables :: "placementFSM \<Rightarrow> placementFSM \<Rightarrow> bool" where
  "sameTables g g' \<longleftrightarrow>
     fsRecoveryStore g' = fsRecoveryStore g \<and> fsVersion g' = fsVersion g \<and> fsVolumes g' = fsVolumes g \<and> fsTokens g' = fsTokens g \<and>
     fsWarmPools g' = fsWarmPools g \<and> fsIdentity g' = fsIdentity g \<and> fsAudit g' = fsAudit g \<and>
     egressProfiles (fsEgress g') = egressProfiles (fsEgress g) \<and> teamQuotas (fsQuotas g') = teamQuotas (fsQuotas g)"

lemma reindex_quotas: "teamQuotas (reindexTeamUsageLocked i nu q) = teamQuotas q"
  by (simp add: reindex_decomp enterTeamUsage_def split: option.split)

lemma restore_row:
  assumes "hotRow p" "i \<noteq> []" "trimSpace i = i" "fsRecovery g = Map.empty"
  shows "storePlacementLocked env i p g = (None, snd (storePlacementLocked env i p g))"
    "fsPlacements (snd (storePlacementLocked env i p g)) = (fsPlacements g)(i \<mapsto> p)"
    "fsRecovery (snd (storePlacementLocked env i p g)) = Map.empty"
    "sameTables g (claimRestored i q (snd (storePlacementLocked env i p g)))"
    "fsRecovery (claimRestored i q (snd (storePlacementLocked env i p g))) = Map.empty"
  using assms
  by (simp_all add: storePlacement_eq storedRow_hotRow sameTables_def claimRestored_def claimShardLocked_def reindex_quotas Let_def
      payloadOf_def recoveryEmpty_def hotRow_def)

lemma full_same:
  assumes "fsPlacements g i = fsPlacements f i" "fsRecovery g = Map.empty" "fsRecovery f = Map.empty"
    and "\<And>p. fsPlacements f i = Some p \<Longrightarrow> pRecoveryRef p \<noteq> [] \<Longrightarrow> fsRecoveryStore g (pRecoveryRef p) = fsRecoveryStore f (pRecoveryRef p)"
  shows "fullPlacementLocked i g = fullPlacementLocked i f"
  using assms by (simp add: fullPlacementLocked_def resolveRecoveryRef_def storeGet_def split: option.split)

lemma restore_rows:
  assumes src: "fsmOk env f"
    and refs: "\<And>i p. fsPlacements f i = Some p \<Longrightarrow> pRecoveryRef p \<noteq> [] \<Longrightarrow> st (pRecoveryRef p) = fsRecoveryStore f (pRecoveryRef p)"
    and "distinct is" "set is \<subseteq> dom (fsPlacements f)" "set is \<inter> dom (fsPlacements g) = {}" "fsPlacements g \<subseteq>\<^sub>m fsPlacements f"
    and "looseIndex g" "derivedOk g" "fsRecovery g = Map.empty" "fsRecoveryStore g = st"
  shows "\<exists>g'. restoreRows env (fsPlacements f) Map.empty is g = (None, g') \<and> looseIndex g' \<and> derivedOk g' \<and> fsRecovery g' = Map.empty \<and>
    fsPlacements g' = (\<lambda>j. if j \<in> set is then fsPlacements f j else fsPlacements g j) \<and> sameTables g g'"
  using assms(3-)
proof (induction "is" arbitrary: g)
  case Nil
  then show ?case by (simp add: sameTables_def)
next
  case (Cons i "is")
  have core: "coreOk env f" using src by (simp add: fsmOk_def)
  from Cons.prems(2) obtain p where p: "fsPlacements f i = Some p" by auto
  then have row: "hotRow p" "rowOk i p" "fsRecovery f = Map.empty" using core by (simp_all add: coreOk_def payloadsOk_def)
  then have i: "i \<noteq> []" "trimSpace i = i" "pSandboxID p = i" by (simp_all add: rowOk_def)
  define g1 where "g1 = snd (storePlacementLocked env i p g)"
  obtain q where q: "fullPlacementLocked i f = Some q" using p full_None[of i f] by force
  have restored: "restoredRow env Map.empty i p = p"
    using row(1) i by (simp add: restoredRow_def splitPlacement_def hotRow_def recoveryEmpty_def Let_def)
  note st = restore_row[where env = env, OF row(1) i(1,2) Cons.prems(7), folded g1_def]
  have full: "fullPlacementLocked i g1 = Some q"
    using q refs[OF p] p st(2) Cons.prems(8) row
    by (subst full_same[of g1 i f, OF _ st(3) row(3)]) (simp_all add: g1_def storePlacement_eq i payloadOf_def recoveryEmpty_def hotRow_def)
  let ?h = "claimRestored i q g1"
  have none: "fsPlacements g i = None" using Cons.prems(3) by auto
  have h: "fsPlacements ?h = (fsPlacements g)(i \<mapsto> p)" by (simp add: claimRestored_fields[OF i(1)] st(2))
  have "looseIndex ?h" using restore_step[OF src Cons.prems(4) none p q Cons.prems(5)] by (simp add: g1_def)
  moreover have "derivedOk ?h" using derived_store[OF Cons.prems(6), of i env p] i by (simp add: claimRestored_fields[OF i(1)] g1_def)
  moreover have "fsPlacements ?h \<subseteq>\<^sub>m fsPlacements f" using Cons.prems(4) p by (auto simp: h map_le_def)
  moreover have "fsRecoveryStore ?h = st" using st(4)[of q] Cons.prems(8) by (simp add: sameTables_def)
  moreover have "distinct is" "set is \<subseteq> dom (fsPlacements f)" "set is \<inter> dom (fsPlacements ?h) = {}"
    using Cons.prems(1-3) by (auto simp: h)
  ultimately obtain g' where g': "restoreRows env (fsPlacements f) Map.empty is ?h = (None, g')" "looseIndex g'" "derivedOk g'"
      "fsRecovery g' = Map.empty" "fsPlacements g' = (\<lambda>j. if j \<in> set is then fsPlacements f j else fsPlacements ?h j)" "sameTables ?h g'"
    using Cons.IH[of ?h] st(5)[of q] by blast
  have "restoreRows env (fsPlacements f) Map.empty (i # is) g = (None, g')"
    by (simp add: p restored st(1) full g'(1))
  moreover have "fsPlacements g' = (\<lambda>j. if j \<in> set (i # is) then fsPlacements f j else fsPlacements g j)"
    using g'(5) p by (auto simp: h)
  moreover have "sameTables g g'" using g'(6) st(4)[of q] by (simp add: sameTables_def)
  ultimately show ?case using g'(2-4) by blast
qed

section \<open>Volumes\<close>

lemma restoreVolume_fold:
  "volumes (fold restoreVolume vs s) =
     fold (\<lambda>v m. if trimSpace (vTenant v) \<noteq> [] \<and> trimSpace (vID v) \<noteq> []
                  then m(volumeKey (trimSpace (vTenant v)) (trimSpace (vID v)) \<mapsto> v) else m) vs (volumes s)"
  "volumeAttachments (fold restoreVolume vs s) = volumeAttachments s"
  "volumeAttachmentsByVolume (fold restoreVolume vs s) = volumeAttachmentsByVolume s"
  "volumeAttachmentsBySandbox (fold restoreVolume vs s) = volumeAttachmentsBySandbox s"
  "volumeReclaims (fold restoreVolume vs s) = volumeReclaims s"
  "volumeReclaimsByNode (fold restoreVolume vs s) = volumeReclaimsByNode s"
  by (induction vs arbitrary: s) (simp_all add: restoreVolume_def Let_def)

lemma restore_volume_rows:
  assumes "volumesWf v"
  shows "volumes (fold restoreVolume (volumesSnapshotLocked v) newVolumeState) = volumes v"
    "volumesWf (fold restoreVolume (volumesSnapshotLocked v) newVolumeState)"
    "volumeAttachments (fold restoreVolume (volumesSnapshotLocked v) newVolumeState) = Map.empty"
proof -
  let ?s = "fold restoreVolume (volumesSnapshotLocked v) newVolumeState"
  have ok: "finite (dom (volumes v))" "volumeRowsOk v" using assms by (simp_all add: volumesWf_def)
  have "rebuildRows (\<lambda>v. trimSpace (vTenant v) \<noteq> [] \<and> trimSpace (vID v) \<noteq> [])
      (\<lambda>v. volumeKey (trimSpace (vTenant v)) (trimSpace (vID v))) (sortedRows (volumes v)) = volumes v"
    using ok by (intro rebuild_sortedRows) (auto simp: volumeRowsOk_def)
  then show rows: "volumes ?s = volumes v"
    by (simp add: restoreVolume_fold volumesSnapshotLocked_def rebuildRows_def newVolumeState_def)
  show none: "volumeAttachments ?s = Map.empty" by (simp add: restoreVolume_fold newVolumeState_def)
  show "volumesWf ?s"
    using ok volumesWf_new rows none by (simp add: volumesWf_def attachmentsOk_def volumeRowsOk_def restoreVolume_fold newVolumeState_def)
qed

lemma put_attachments_at:
  "volumeAttachments (fold putVolumeAttachmentLocked as s) = fold (\<lambda>a m. m(attachmentKey a \<mapsto> a)) as (volumeAttachments s)"
proof (induction as arbitrary: s)
  case (Cons a as)
  have "volumeAttachments (putVolumeAttachmentLocked a s) = (volumeAttachments s)(attachmentKey a \<mapsto> a)"
    by (auto simp: putVolumeAttachmentLocked_def releaseVolumeAttachmentKeyLocked_def Let_def split: option.split)
  with Cons show ?case by simp
qed simp

lemma restore_attachments:
  assumes "attachOk rows v" "volumesWf s" "volumes s = volumes v" "set as \<subseteq> ran (volumeAttachments v)"
  shows "fold (restoreAttachment rows) as s = fold putVolumeAttachmentLocked as s \<and> volumesWf (fold putVolumeAttachmentLocked as s)"
  using assms(2-4)
proof (induction as arbitrary: s)
  case (Cons a as)
  from Cons.prems(3) obtain key where key: "volumeAttachments v key = Some a" by (auto simp: ran_def)
  have wf: "attachmentClean a" "volumes v (attachmentVolume a) \<noteq> None"
    using assms(1) key by (auto simp: attachOk_def volumesWf_def attachmentsOk_def)
  have one: "restoreAttachment rows a s = putVolumeAttachmentLocked a s"
    using wf attachD[OF assms(1) key] Cons.prems(2) by (auto simp: restoreAttachment_def attachmentClean_def attachmentVolume_def Let_def)
  have "volumesWf (putVolumeAttachmentLocked a s)" using put_attachment_wf[OF Cons.prems(1) wf(1)] wf(2) Cons.prems(2) by simp
  with Cons one show ?case by simp
qed simp

lemma restore_reclaims:
  "volumesWf s \<Longrightarrow> volumesWf (fold restoreReclaim rs s)" "volumes (fold restoreReclaim rs s) = volumes s"
  "volumeAttachments (fold restoreReclaim rs s) = volumeAttachments s"
  by (induction rs arbitrary: s) (simp_all add: restoreReclaim_def put_reclaim_wf Let_def)

lemma restore_volumes:
  assumes "attachOk rows v" "payloadPlacements sp = rows" "spVolumes sp = volumesSnapshotLocked v"
    "spVolumeAttachments sp = volumeAttachmentsSnapshotLocked v"
  shows "volumes (restoreVolumes sp) = volumes v" "volumeAttachments (restoreVolumes sp) = volumeAttachments v"
    "attachOk rows (restoreVolumes sp)"
proof -
  have wf: "volumesWf v" using assms(1) by (simp add: attachOk_def)
  let ?s = "fold restoreVolume (volumesSnapshotLocked v) newVolumeState" and ?as = "volumeAttachmentsSnapshotLocked v"
  note s = restore_volume_rows[OF wf]
  have fin: "finite (dom (volumeAttachments v))" using wf by (simp add: volumesWf_def)
  then have "set ?as \<subseteq> ran (volumeAttachments v)" by (simp add: volumeAttachmentsSnapshotLocked_def set_sortedRows)
  note as = restore_attachments[OF assms(1) s(2,1) this]
  have reset: "t\<lparr>volumeReclaims := Map.empty, volumeReclaimsByNode := Map.empty\<rparr> = t"
    if "volumeReclaims t = Map.empty" "volumeReclaimsByNode t = Map.empty" for t :: volumeState using that by simp
  have rec: "volumeReclaims (fold putVolumeAttachmentLocked xs t) = volumeReclaims t"
    "volumeReclaimsByNode (fold putVolumeAttachmentLocked xs t) = volumeReclaimsByNode t"
    "volumes (fold putVolumeAttachmentLocked xs t) = volumes t" for xs t
    by (induction xs arbitrary: t)
      (simp_all add: putVolumeAttachmentLocked_def releaseVolumeAttachmentKeyLocked_def Let_def split: option.split)
  have eq: "restoreVolumes sp = fold restoreReclaim (spVolumeReclaims sp) (fold putVolumeAttachmentLocked ?as ?s)"
  proof -
    have "volumeReclaims ?s = Map.empty" "volumeReclaimsByNode ?s = Map.empty" by (simp_all add: restoreVolume_fold newVolumeState_def)
    then have "(fold putVolumeAttachmentLocked ?as ?s)\<lparr>volumeReclaims := Map.empty, volumeReclaimsByNode := Map.empty\<rparr> = fold putVolumeAttachmentLocked ?as ?s"
      by (intro reset) (simp_all add: rec)
    with assms(2-4) as show ?thesis by (simp add: restoreVolumes_def restoreVolumeReclaimsLocked_def)
  qed
  have keyed: "rebuildRows (\<lambda>_. True) attachmentKey ?as = volumeAttachments v"
    unfolding volumeAttachmentsSnapshotLocked_def using wf fin by (intro rebuild_sortedRows) (auto simp: volumesWf_def attachmentsOk_def)
  show "volumes (restoreVolumes sp) = volumes v" by (simp add: eq restore_reclaims rec s)
  show at: "volumeAttachments (restoreVolumes sp) = volumeAttachments v"
    using keyed by (simp add: eq restore_reclaims put_attachments_at s rebuildRows_def)
  show "attachOk rows (restoreVolumes sp)"
    using assms(1) restore_reclaims(1)[OF conjunct2[OF as]] by (simp add: attachOk_def at) (simp add: eq)
qed

section \<open>The restored machine\<close>

text \<open>The receiving machine has, in its own store, the payloads the snapshot refers to.\<close>

definition blobsFor :: "fsmEnv \<Rightarrow> placementFSM \<Rightarrow> placementFSM \<Rightarrow> bool" where
  "blobsFor env f h \<longleftrightarrow> storeOk env (fsRecoveryStore h) \<and>
     (\<forall>i p. fsPlacements f i = Some p \<longrightarrow> pRecoveryRef p \<noteq> [] \<longrightarrow> fsRecoveryStore h (pRecoveryRef p) = fsRecoveryStore f (pRecoveryRef p))"

lemma snapshot_rows:
  assumes "coreOk env f"
  shows "payloadPlacements (snapshotOf f) = fsPlacements f" "payloadRecovery (snapshotOf f) = Map.empty"
proof -
  have fin: "finite (dom (fsPlacements f))" and row: "\<And>i p. fsPlacements f i = Some p \<Longrightarrow> hotRow p \<and> rowOk i p"
    using assms by (auto simp: coreOk_def payloadsOk_def)
  have hot: "cloneHotPlacement p = p" if "hotRow p" for p using that by (simp add: cloneHotPlacement_def hotRow_def)
  have rows: "map snPlacement (spRows (snapshotOf f)) = sortedRows (fsPlacements f)"
    using set_sortedRows[OF fin] row hot by (auto simp: snapshotOf_def snapshotRow_def comp_def ran_def intro!: map_idI)
  have "rebuildRows (\<lambda>p. pSandboxID p \<noteq> []) pSandboxID (sortedRows (fsPlacements f)) = fsPlacements f"
    using row by (intro rebuild_sortedRows[OF fin]) (auto simp: rowOk_def)
  moreover have "fsPlacements f = Map.empty" if "spRows (snapshotOf f) = []"
    using that fin by (auto simp: snapshotOf_def sortedRows_def dom_def)
  ultimately show "payloadPlacements (snapshotOf f) = fsPlacements f"
    by (auto simp: payloadPlacements_def rows) (simp add: snapshotOf_def emptyPayload_def)
  have "fold (\<lambda>r m. if P r then (m :: string \<rightharpoonup> placementSnapshotRow)(k r \<mapsto> r) else m) rs m = m" if "\<forall>r \<in> set rs. \<not> P r" for P k rs m
    using that by (induction rs arbitrary: m) auto
  moreover have "\<forall>row \<in> set (spRows (snapshotOf f)). recoveryEmpty (snRecovery row)"
    by (auto simp: snapshotOf_def snapshotRow_def emptyRecovery_def recoveryEmpty_def)
  ultimately show "payloadRecovery (snapshotOf f) = Map.empty"
    by (auto simp: payloadRecovery_def rebuildRows_def) (simp add: snapshotOf_def emptyPayload_def)
qed

lemma restoreBase_ok: "looseIndex (restoreBase sp h)" "derivedOk (restoreBase sp h)"
proof -
  show "looseIndex (restoreBase sp h)"
    using pendingOk_new volumesWf_new
    by (simp add: looseIndex_def indexOk_def restoreBase_def shardsOk_def ownersOk_def reservedOk_def portsOk_def attachOk_none
        newPendingState_def uniqCovers_def idxWf_def)
  show "derivedOk (restoreBase sp h)"
    using usageExact_new by (simp add: derivedOk_def restoreBase_def restoreEgressProfilesLocked_def restoreTeamQuotasLocked_def usageExact_def
        usageRows_def newTeamQuotaState_def usageOf_def teamMembers_def)
qed

lemma restore_ok:
  assumes "fsmOk env f" "blobsFor env f h"
  shows "\<exists>g. Restore env (snapshotOf f) h = (None, g) \<and> fsmOk env g \<and> fsPlacements g = fsPlacements f \<and>
    (\<forall>i. fullPlacementLocked i g = fullPlacementLocked i f) \<and> volumes (fsVolumes g) = volumes (fsVolumes f) \<and>
    volumeAttachments (fsVolumes g) = volumeAttachments (fsVolumes f) \<and> sameTables (restoreBase (snapshotOf f) h) g \<and>
    drainedNodes (fsStorage g) = drainedNodes (fsStorage f) \<and> storageRetirements (fsStorage g) = storageRetirements (fsStorage f) \<and>
    storageObligations (fsStorage g) = storageObligations (fsStorage f) \<and> fsSnapshotNodeIndex g = fsSnapshotNodeIndex f \<and>
    fsArtifactCatalog g = fsArtifactCatalog f"
proof -
  let ?sp = "snapshotOf f" and ?is = "sorted_list_of_set (dom (fsPlacements f))"
  have core: "coreOk env f" and idx: "indexOk (fsPlacements f) f" using assms(1) by (simp_all add: fsmOk_def)
  then have fin: "finite (dom (fsPlacements f))" and rec: "fsRecovery f = Map.empty" by (simp_all add: coreOk_def payloadsOk_def)
  have base: "fsPlacements (restoreBase ?sp h) = Map.empty" "fsRecovery (restoreBase ?sp h) = Map.empty"
    "fsRecoveryStore (restoreBase ?sp h) = fsRecoveryStore h" by (simp_all add: restoreBase_def)
  have refs: "\<And>i p. fsPlacements f i = Some p \<Longrightarrow> pRecoveryRef p \<noteq> [] \<Longrightarrow> fsRecoveryStore h (pRecoveryRef p) = fsRecoveryStore f (pRecoveryRef p)"
    and st: "storeOk env (fsRecoveryStore h)" using assms(2) by (auto simp: blobsFor_def)
  have "\<exists>g. restoreRows env (fsPlacements f) Map.empty ?is (restoreBase ?sp h) = (None, g) \<and> looseIndex g \<and> derivedOk g \<and>
      fsRecovery g = Map.empty \<and> fsPlacements g = (\<lambda>j. if j \<in> set ?is then fsPlacements f j else fsPlacements (restoreBase ?sp h) j) \<and>
      sameTables (restoreBase ?sp h) g"
    by (rule restore_rows[where st = "fsRecoveryStore h", OF assms(1) refs]) (simp_all add: base fin restoreBase_ok)
  then obtain g where g: "restoreRows env (fsPlacements f) Map.empty ?is (restoreBase ?sp h) = (None, g)" "looseIndex g" "derivedOk g"
      "fsRecovery g = Map.empty" "fsPlacements g = (\<lambda>j. if j \<in> set ?is then fsPlacements f j else fsPlacements (restoreBase ?sp h) j)"
      "sameTables (restoreBase ?sp h) g"
    by blast
  have tbl: "fsPlacements g = fsPlacements f" using g(5) fin base(1) by (auto simp: domIff)
  define g' where "g' = snd (Restore env ?sp h)"
  have res: "Restore env ?sp h = (None, g')"
    using g(1) by (simp add: g'_def Restore_def snapshot_rows[OF core] Let_def)
  have eq: "g' = g\<lparr>fsStorage := \<lparr>drainedNodes = spDrainedNodes ?sp, storageRetirements = spStorageRetirements ?sp,
      storageObligations = spStorageObligations ?sp, obligationReports = spObligationReports ?sp\<rparr>,
      fsSnapshotNodeIndex := spSnapshotNodes ?sp, fsArtifactCatalog := spArtifactCatalog ?sp,
      fsChanges := resetPlacementChanges (spVersion ?sp) (fsChanges g)\<rparr>"
    using g(1) by (simp add: g'_def Restore_def snapshot_rows[OF core] Let_def)
  have same: "sameTables (restoreBase ?sp h) g'" using g(6) by (simp add: sameTables_def eq)
  then have g': "fsPlacements g' = fsPlacements f" "fsRecovery g' = Map.empty" "fsRecoveryStore g' = fsRecoveryStore h" "fsVolumes g' = restoreVolumes ?sp"
    using g(4) tbl base(3) by (simp_all add: eq sameTables_def restoreBase_def)
  have full: "fullPlacementLocked i g' = fullPlacementLocked i f" for i
    using refs by (intro full_same) (simp_all add: g' rec)
  have "spVolumes ?sp = volumesSnapshotLocked (fsVolumes f)" "spVolumeAttachments ?sp = volumeAttachmentsSnapshotLocked (fsVolumes f)"
    by (simp_all add: snapshotOf_def)
  note vol = restore_volumes[OF indexD(8)[OF idx] snapshot_rows(1)[OF core] this]
  have "payloadsOk env g'"
    using core st refs unfolding payloadsOk_def coreOk_def g' full by simp
  moreover have "derivedOk g'" using g(3) by (simp add: eq derivedOk_def)
  moreover have "indexOk (fsPlacements g') g'"
    using indexD[OF g(2)[unfolded looseIndex_def]] vol(3) g'(4) unfolding indexOk_def by (simp add: eq tbl)
  ultimately have "fsmOk env g'" by (simp add: fsmOk_def coreOk_def)
  with res g'(1,4) full vol(1,2) same show ?thesis by (auto simp: eq snapshotOf_def)
qed

end
