(* ===== verification/Placement_Machine.thy ===== *)
theory Placement_Machine
  imports Placement_Restore
begin

text \<open>
  Runs of the placement state machine.  A batch of reservations keeps the invariant because its validation makes every
  later name check succeed; the operations on the other tables keep it because they do not touch the rows or, for volume
  attachments, check the row first.  The step relation closes the machine under log entries that pass the proposer's
  check and under restoring a snapshot, and the invariant holds in every state it reaches.
\<close>

section \<open>Reservations\<close>

text \<open>The one path on which the code leaves the indexes inconsistent: a reservation takes over an expired one whose
  identifier it shares, has already released the old row's index entries, and then finds its own name taken.\<close>

definition expiredNameClash :: "command \<Rightarrow> int \<Rightarrow> placementFSM \<Rightarrow> bool" where
  "expiredNameClash cmd now f \<longleftrightarrow>
     (case fullPlacementLocked (cmSandboxID cmd) f of
        None \<Rightarrow> False
      | Some existing \<Rightarrow> IsReserved existing \<and> now > pExpiresUnix existing \<and>
          validateNameUniqueLocked (cmSandboxID cmd) (specName (cmSpec cmd)) (fsNameIndex f) \<noteq> None)"

lemma validate_release:
  "validateNameUniqueLocked i name m = None \<Longrightarrow> validateNameUniqueLocked i name (releaseNameLocked i other m) = None"
  by (auto simp: validateNameUniqueLocked_def releaseNameLocked_def Let_def split: option.splits if_splits)

lemma reservePlacement_ok:
  assumes "addressesOk env" "fsmOk env f" "trimSpace (cmSandboxID cmd) = cmSandboxID cmd" "\<not> expiredNameClash cmd now f"
  shows "fsmOk env (snd (reservePlacementLocked env cmd now f))"
proof (cases "cmSandboxID cmd = [] \<or> cmOwnerNodeID cmd = [] \<or> validateSecret cmd \<noteq> None")
  case False
  then have ne: "cmSandboxID cmd \<noteq> []" by simp
  show ?thesis
  proof (cases "fullPlacementLocked (cmSandboxID cmd) f")
    case None
    then have rows: "(fsPlacements f)(cmSandboxID cmd := None) = fsPlacements f" by (auto simp: full_None)
    have "fsmOk env (snd (reserveFresh env cmd now f))"
    proof (cases "validateNameUniqueLocked (cmSandboxID cmd) (specName (cmSpec cmd)) (fsNameIndex f)")
      case None
      with reserveFresh_ok[OF assms(1) _ _ assms(3) ne None] assms(2) rows show ?thesis by (simp add: fsmOk_def)
    qed (use assms(2) in \<open>simp add: reserveFresh_def Let_def\<close>)
    with None False show ?thesis by (auto simp: reservePlacementLocked_def)
  next
    case (Some q)
    have "fsmOk env (snd (reserveFresh env cmd now (reserveExpired (cmSandboxID cmd) q f)))" if q: "IsReserved q" "now > pExpiresUnix q"
    proof -
      have "validateNameUniqueLocked (cmSandboxID cmd) (specName (cmSpec cmd)) (fsNameIndex f) = None"
        using assms(4) Some q by (simp add: expiredNameClash_def)
      then have "validateNameUniqueLocked (cmSandboxID cmd) (specName (cmSpec cmd)) (fsNameIndex (reserveExpired (cmSandboxID cmd) q f)) = None"
        by (simp add: reserveExpired_def validate_release)
      from reserveFresh_ok[OF assms(1) reserveExpired_ok[OF assms(2) Some q(1)] assms(3) ne this] show ?thesis .
    qed
    with Some False reserveRetry_ok[OF assms(1,2) Some] assms(2) show ?thesis by (auto simp: reservePlacementLocked_def)
  qed
qed (use assms(2) in \<open>auto simp: reservePlacementLocked_def split: option.split\<close>)

text \<open>What a reservation does to the name index: it claims its own name and at most frees others.\<close>

definition namesShrink :: "string \<Rightarrow> (string \<rightharpoonup> string) \<Rightarrow> (string \<rightharpoonup> string) \<Rightarrow> bool" where
  "namesShrink own m m' \<longleftrightarrow> (\<forall>k. k \<noteq> own \<longrightarrow> m' k = m k \<or> m' k = None)"

lemma storeThen_names:
  assumes "\<And>g. fsNameIndex g = fsNameIndex f \<Longrightarrow> namesShrink n m (fsNameIndex (k g))" "namesShrink n m (fsNameIndex f)"
  shows "namesShrink n m (fsNameIndex (snd (storeThen env i p f k)))"
proof (cases "storePlacementLocked env i p f")
  case (Pair e g)
  then have "fsNameIndex g = fsNameIndex f" using store_frame(2)[of env i p f] by simp
  with Pair assms show ?thesis by (auto simp: storeThen_def split: option.split)
qed

lemma namesShrink_basic:
  "namesShrink n m m" "namesShrink n m m' \<Longrightarrow> namesShrink n m (releaseNameLocked i other m')"
  "namesShrink n m m' \<Longrightarrow> trimSpace n = n \<Longrightarrow> namesShrink n m (claimNameLocked i n m')"
  by (auto simp: namesShrink_def releaseNameLocked_def claimNameLocked_def Let_def)

lemma reserveFresh_names:
  assumes "namesShrink (specName (cmSpec cmd)) m (fsNameIndex f)"
  shows "namesShrink (specName (cmSpec cmd)) m (fsNameIndex (snd (reserveFresh env cmd now f)))"
proof (cases "validateNameUniqueLocked (cmSandboxID cmd) (specName (cmSpec cmd)) (fsNameIndex f)")
  case None
  then show ?thesis unfolding reserveFresh_def Let_def
    by (simp, intro storeThen_names assms) (simp add: assms reserveRow_fields namesShrink_basic(3))
qed (use assms in \<open>simp add: reserveFresh_def Let_def\<close>)

lemma reserve_names:
  "namesShrink (specName (cmSpec cmd)) (fsNameIndex f) (fsNameIndex (snd (reservePlacementLocked env cmd now f)))"
proof -
  let ?n = "specName (cmSpec cmd)"
  have "namesShrink ?n (fsNameIndex f) (fsNameIndex (snd (reserveRetry env cmd now q f)))" for q
  proof (cases "reserveRetryGuard cmd q")
    case None
    then show ?thesis unfolding reserveRetry_def Let_def
      by (simp, intro storeThen_names) (simp_all add: namesShrink_basic(1))
  qed (simp add: reserveRetry_def Let_def namesShrink_basic(1))
  moreover have "namesShrink ?n (fsNameIndex f) (fsNameIndex (snd (reserveFresh env cmd now (reserveExpired i q f))))" for i q
    by (rule reserveFresh_names) (simp add: reserveExpired_def namesShrink_basic)
  moreover have "namesShrink ?n (fsNameIndex f) (fsNameIndex (snd (reserveFresh env cmd now f)))"
    by (rule reserveFresh_names) (rule namesShrink_basic)
  ultimately show ?thesis by (simp add: reservePlacementLocked_def namesShrink_basic split: option.split)
qed

section \<open>Batches\<close>

definition nameOfReservation :: "reservationCommand \<Rightarrow> string" where
  "nameOfReservation r = specName (rcSpec r)"

fun namesApart :: "reservationCommand list \<Rightarrow> bool" where
  "namesApart [] = True"
| "namesApart (r # rs) = ((\<forall>r' \<in> set rs. nameOfReservation r' = nameOfReservation r \<longrightarrow> nameOfReservation r = []) \<and> namesApart rs)"

definition namesFree :: "reservationCommand list \<Rightarrow> (string \<rightharpoonup> string) \<Rightarrow> bool" where
  "namesFree rs m \<longleftrightarrow> (\<forall>r \<in> set rs. validateNameUniqueLocked (rcSandboxID r) (nameOfReservation r) m = None)"

lemma validate_blank: "validateNameUniqueLocked i [] m = None"
  by (simp add: validateNameUniqueLocked_def)

lemma validateBatch_spec:
  assumes "validateReservationBatchLocked now f ids seen rs = None"
  shows "namesFree rs (fsNameIndex f) \<and> namesApart rs \<and>
    (\<forall>r \<in> set rs. rcSandboxID r \<notin> ids \<and> (nameOfReservation r \<noteq> [] \<longrightarrow> seen (nameOfReservation r) \<in> {None, Some (rcSandboxID r)}))"
  using assms
proof (induction rs arbitrary: ids seen)
  case (Cons r rs)
  let ?i = "rcSandboxID r" and ?n = "nameOfReservation r"
  show ?case
  proof (cases "?n = []")
    case True
    with Cons.prems have "validateReservationBatchLocked now f (insert ?i ids) seen rs = None" "?i \<notin> ids"
      by (auto simp: nameOfReservation_def Let_def split: if_splits)
    with Cons.IH[OF this(1)] True show ?thesis by (auto simp: namesFree_def validate_blank)
  next
    case False
    with Cons.prems have rest: "validateReservationBatchLocked now f (insert ?i ids) (seen(?n \<mapsto> ?i)) rs = None"
      and this: "?i \<notin> ids" "validateNameUniqueLocked ?i ?n (fsNameIndex f) = None" "seen ?n \<in> {None, Some ?i}"
      by (auto simp: nameOfReservation_def Let_def split: if_splits option.splits)
    from Cons.IH[OF rest] this show ?thesis by (fastforce simp: namesFree_def split: if_splits)
  qed
qed (simp add: namesFree_def)

lemma namesFree_shrink:
  assumes "namesFree (r # rs) m" "namesApart (r # rs)" "namesShrink (nameOfReservation r) m m'"
  shows "namesFree rs m'"
  unfolding namesFree_def
proof
  fix r'
  assume r': "r' \<in> set rs"
  have "nameOfReservation r' = [] \<or> m' (nameOfReservation r') = m (nameOfReservation r') \<or> m' (nameOfReservation r') = None"
    using assms(2,3) r' by (auto simp: namesShrink_def)
  moreover have "validateNameUniqueLocked (rcSandboxID r') (nameOfReservation r') m = None"
    using assms(1) r' by (simp add: namesFree_def)
  moreover have "trimSpace (nameOfReservation r') = nameOfReservation r'" by (simp add: nameOfReservation_def)
  ultimately show "validateNameUniqueLocked (rcSandboxID r') (nameOfReservation r') m' = None"
    by (auto simp: validateNameUniqueLocked_def Let_def split: option.splits if_splits)
qed

lemma commandFromReservation_fields [simp]:
  "cmSandboxID (commandFromReservation r) = rcSandboxID r" "cmSpec (commandFromReservation r) = rcSpec r"
  "cmOwnerNodeID (commandFromReservation r) = rcOwnerNodeID r"
  by (simp_all add: commandFromReservation_def)

lemma reserveAll_ok:
  assumes "addressesOk env" "fsmOk env f" "namesFree rs (fsNameIndex f)" "namesApart rs"
    "\<forall>r \<in> set rs. trimSpace (rcSandboxID r) = rcSandboxID r"
  shows "fsmOk env (snd (reserveAll env now rs f))"
  using assms(2-)
proof (induction rs arbitrary: f)
  case (Cons r rs)
  let ?c = "commandFromReservation r"
  obtain e g where step: "reservePlacementLocked env ?c now f = (e, g)" by force
  have "\<not> expiredNameClash ?c now f"
    using Cons.prems(2) by (auto simp: expiredNameClash_def namesFree_def nameOfReservation_def split: option.split)
  from reservePlacement_ok[OF assms(1) Cons.prems(1) _ this] step Cons.prems(4) have ok: "fsmOk env g" by simp
  have "namesShrink (nameOfReservation r) (fsNameIndex f) (fsNameIndex g)"
    using reserve_names[of ?c f env now] step by (simp add: nameOfReservation_def)
  from namesFree_shrink[OF Cons.prems(2,3) this] Cons.IH[OF ok] Cons.prems(3,4) ok step show ?case
    by (auto split: option.split)
qed simp

lemma opReserveBatch_ok:
  assumes "addressesOk env" "fsmOk env f" "\<forall>r \<in> set (cmReservations cmd). trimSpace (rcSandboxID r) = rcSandboxID r"
  shows "fsmOk env (snd (opReserveBatch env cmd now f))"
proof (cases "validateReservationBatchLocked now f {} Map.empty (cmReservations cmd)")
  case None
  from validateBatch_spec[OF None] reserveAll_ok[OF assms(1,2) _ _ assms(3)] None assms(2) show ?thesis
    by (simp add: opReserveBatch_def)
qed (use assms(2) in \<open>simp add: opReserveBatch_def\<close>)

section \<open>The other tables\<close>

lemma fsmOk_frame [simp]:
  "fsmOk env (f\<lparr>fsVersion := v\<rparr>) = fsmOk env f" "fsmOk env (f\<lparr>fsAudit := m9\<rparr>) = fsmOk env f"
  "fsmOk env (f\<lparr>fsSnapshotNodeIndex := m10\<rparr>) = fsmOk env f" "fsmOk env (f\<lparr>fsStorage := m11\<rparr>) = fsmOk env f"
  "fsmOk env (f\<lparr>fsArtifactCatalog := m12\<rparr>) = fsmOk env f" "fsmOk env (f\<lparr>fsTokens := m15\<rparr>) = fsmOk env f"
  "fsmOk env (f\<lparr>fsWarmPools := m16\<rparr>) = fsmOk env f" "fsmOk env (f\<lparr>fsIdentity := m17\<rparr>) = fsmOk env f"
  by (simp_all add: fsmOk_def indexOk_def)

lemma fsmOk_volumes: "fsmOk env f \<Longrightarrow> attachOk (fsPlacements f) v \<Longrightarrow> fsmOk env (f\<lparr>fsVolumes := v\<rparr>)"
  by (simp add: fsmOk_def indexOk_def)

lemma fsmOk_egress:
  "fsmOk env f \<Longrightarrow> egressProfileRefs s = egressProfileRefs (fsEgress f) \<Longrightarrow> fsmOk env (f\<lparr>fsEgress := s\<rparr>)"
  by (simp add: fsmOk_def indexOk_def coreOk_def payloadsOk_def derivedOk_def)

lemma fsmOk_quotas:
  assumes "fsmOk env f" "teamUsage q = teamUsage (fsQuotas f)" "teamUsageEntries q = teamUsageEntries (fsQuotas f)"
  shows "fsmOk env (f\<lparr>fsQuotas := q\<rparr>)"
proof -
  have "usageExact q = usageExact (fsQuotas f)" "usageRows rows q = usageRows rows (fsQuotas f)" for rows
    using assms(2,3) by (simp_all add: usageExact_def usageRows_def teamMembers_def memberMemory_def usageOf_def)
  with assms(1) show ?thesis by (simp add: fsmOk_def indexOk_def coreOk_def payloadsOk_def derivedOk_def)
qed

lemma applyStorage_ok: "fsmOk env f \<Longrightarrow> fsmOk env (snd (applyStorage cmd f))"
  by (cases "cmOp cmd") (simp_all add: applyStorage_def case_prod_beta split: option.split prod.split)

lemma applyRecords_ok:
  assumes "fsmOk env f"
  shows "fsmOk env (snd (applyRecords env cmd f))"
proof -
  have "egressProfileRefs (snd (applyPutEgressProfileLocked rows inp stamp s)) = egressProfileRefs s"
    "egressProfileRefs (snd (applyDeleteEgressProfileLocked inp s)) = egressProfileRefs s" for rows inp stamp s
    by (simp_all add: applyPutEgressProfileLocked_def applyDeleteEgressProfileLocked_def Let_def split: option.split)
  moreover have "teamUsage (snd (applyPutTeamQuotaLocked inp stamp q)) = teamUsage q"
    "teamUsageEntries (snd (applyPutTeamQuotaLocked inp stamp q)) = teamUsageEntries q"
    "teamUsage (snd (applyDeleteTeamQuotaLocked inp q)) = teamUsage q"
    "teamUsageEntries (snd (applyDeleteTeamQuotaLocked inp q)) = teamUsageEntries q" for inp stamp q
    by (simp_all add: applyPutTeamQuotaLocked_def applyDeleteTeamQuotaLocked_def Let_def split: option.split)
  ultimately show ?thesis
    using assms by (cases "cmOp cmd") (simp_all add: applyRecords_def case_prod_beta fsmOk_egress fsmOk_quotas)
qed

text \<open>Attachments: only a put adds one, and only for a row that exists under that incarnation.\<close>

lemma put_attachment_at:
  "volumeAttachments (putVolumeAttachmentLocked a v) = (volumeAttachments v)(attachmentKey a \<mapsto> a)"
  by (auto simp: putVolumeAttachmentLocked_def releaseVolumeAttachmentKeyLocked_def Let_def split: option.split)

lemma put_fold_from:
  "volumeAttachments (fold putVolumeAttachmentLocked cs v) key = Some a \<Longrightarrow> a \<in> set cs \<or> volumeAttachments v key = Some a"
proof (induction cs arbitrary: v)
  case (Cons c cs)
  from Cons.IH[of "putVolumeAttachmentLocked c v"] Cons.prems show ?case by (auto simp: put_attachment_at split: if_splits)
qed simp

lemma cleanAttachment_current:
  assumes "cleanAttachment now rows v a = Inr c"
  shows "\<exists>p. rows (vaSandboxID c) = Some p \<and> trimSpace (pIncarnationID p) = vaIncarnationID c \<and> vaIncarnationID c \<noteq> []"
  using assms
  by (auto simp: cleanAttachment_def requireCurrentPlacementIncarnation_def Let_def split: if_splits option.splits)

lemma attach_put:
  assumes "attachOk rows v"
  shows "attachOk rows (snd (applyPutVolumeAttach now rows as v))"
proof (cases "cleanAttachments now rows v as")
  case (Inr cs)
  have wf: "volumesWf (snd (applyPutVolumeAttach now rows as v))" using assms by (simp add: attachOk_def put_attachments_wf)
  have "\<exists>p. rows (vaSandboxID a) = Some p \<and> trimSpace (pIncarnationID p) = vaIncarnationID a \<and> vaIncarnationID a \<noteq> []"
    if "volumeAttachments (fold putVolumeAttachmentLocked cs v) key = Some a" for key a
    using put_fold_from[OF that] cleanAttachments_ok[OF Inr, of a] cleanAttachment_current[of now rows v] attachD[OF assms] by blast
  with wf Inr show ?thesis unfolding attachOk_def by (simp add: applyPutVolumeAttach_def)
qed (use assms in \<open>simp add: applyPutVolumeAttach_def\<close>)

lemma attach_delete:
  assumes "attachOk rows v"
  shows "attachOk rows (snd (applyDeleteVolumeAttach rows i inc v))"
proof -
  have "attachOk rows (releaseVolumeAttachmentsForIncarnationLocked (trimSpace i) inc v)"
  proof (rule attach_sub[OF assms])
    show "volumesWf (releaseVolumeAttachmentsForIncarnationLocked (trimSpace i) inc v)"
      using assms by (simp add: attachOk_def releaseVolumeAttachmentsForIncarnationLocked_def release_attachments_wf Let_def)
  qed (auto simp: releaseVolumeAttachmentsForIncarnationLocked_def Let_def intro: release_attachments_sub split: if_splits)
  with assms show ?thesis by (simp add: applyDeleteVolumeAttach_def Let_def split: option.split)
qed

lemma attach_same:
  assumes "attachOk rows v" "volumesWf v'" "volumeAttachments v' = volumeAttachments v"
  shows "attachOk rows v'"
  using assms by (simp add: attachOk_def)

lemma recordDeleted_attachments:
  "volumeAttachments (recordDeletedVolumeReclaimLocked row source node stamp v) = volumeAttachments v"
  by (simp add: recordDeletedVolumeReclaimLocked_def Let_def split: option.split)

lemma delete_reclaim_attachments: "volumeAttachments (deleteVolumeReclaimLocked key v) = volumeAttachments v"
  by (simp add: deleteVolumeReclaimLocked_def split: option.split)

lemma applyVolumes_ok:
  assumes "fsmOk env f"
  shows "fsmOk env (snd (applyVolumes cmd now f))"
proof -
  have at: "attachOk (fsPlacements f) (fsVolumes f)" and wf: "volumesWf (fsVolumes f)"
    using assms by (simp_all add: fsmOk_def indexOk_def attachOk_def)
  note step = volumeStep_wf[OF wf]
  have "attachOk (fsPlacements f) (snd (applyUpsertVolume now inp n (fsVolumes f)))" for inp n
    using step[of "UpsertVolume now inp n"] by (intro attach_same[OF at]) (simp_all add: applyUpsertVolume_def Let_def split: option.split)
  moreover have "attachOk (fsPlacements f) (snd (applyDeleteVolume t i node source stamp (fsVolumes f)))" for t i node source stamp
    using step[of "DeleteVolume t i node source stamp"]
    by (intro attach_same[OF at]) (simp_all add: applyDeleteVolume_def recordDeleted_attachments Let_def split: option.split)
  moreover have "attachOk (fsPlacements f) (snd (applyAckVolumeReclaimLocked inp (fsVolumes f)))" for inp
    using step[of "AckVolumeReclaim inp"]
    by (intro attach_same[OF at]) (simp_all add: applyAckVolumeReclaimLocked_def delete_reclaim_attachments split: option.split sum.split)
  moreover have "attachOk (fsPlacements f) (snd (applyClaimVolumeReclaimLocked inp node (fsVolumes f)))" for inp node
    using step[of "ClaimVolumeReclaim inp node"]
    by (intro attach_same[OF at]) (simp_all add: applyClaimVolumeReclaimLocked_def Let_def split: option.split sum.split)
  ultimately show ?thesis
    using assms attach_put[OF at] attach_delete[OF at] at
    by (cases "cmOp cmd") (simp_all add: applyVolumes_def case_prod_beta fsmOk_volumes)
qed

section \<open>Runs\<close>

text \<open>A log entry as the cluster proposes it: the command passed the proposer's check, its sandbox identifiers carry no
  surrounding white space, and it does not meet the defective path of a single reservation.\<close>

definition admissible :: "command \<Rightarrow> int \<Rightarrow> placementFSM \<Rightarrow> bool" where
  "admissible cmd now f \<longleftrightarrow> validateCommandLifecycle cmd = None \<and> trimSpace (cmSandboxID cmd) = cmSandboxID cmd \<and>
     list_all (\<lambda>r. trimSpace (rcSandboxID r) = rcSandboxID r) (cmReservations cmd) \<and>
     (cmOp cmd = OpReserve \<longrightarrow> \<not> expiredNameClash cmd now f)"

inductive reaches :: "fsmEnv \<Rightarrow> placementFSM \<Rightarrow> bool" for env where
  reach_start: "reaches env (newPlacementFSM\<lparr>fsChanges := changes\<rparr>)"
| reach_entry: "reaches env f \<Longrightarrow> admissible cmd now f \<Longrightarrow> reaches env (snd (applyLog env cmd index now f))"
| reach_restore: "reaches env f \<Longrightarrow> blobsFor env f h \<Longrightarrow> reaches env (snd (Restore env (snapshotOf f) h))"

lemma clash_version [simp]: "expiredNameClash cmd now (f\<lparr>fsVersion := v\<rparr>) = expiredNameClash cmd now f"
  by (simp add: expiredNameClash_def cong: option.case_cong)

lemma applyPlacement_ok:
  assumes "addressesOk env" "fsmOk env f" "admissible cmd now f"
  shows "fsmOk env (snd (applyPlacement env cmd index now f))"
proof -
  have clean: "trimSpace (cmSandboxID cmd) = cmSandboxID cmd" "\<forall>r \<in> set (cmReservations cmd). trimSpace (rcSandboxID r) = rcSandboxID r"
    using assms(3) by (simp_all add: admissible_def list_all_iff)
  have place: "cmSandboxID cmd \<noteq> []" if "cmOp cmd = OpPlace"
    using assms(3) that by (auto simp: admissible_def validateCommandLifecycle_def)
  show ?thesis
    using assms clean place
    by (cases "cmOp cmd")
       (simp_all add: applyPlacement_def apfst_def opPlace_ok reservePlacement_ok opReserveBatch_ok opCancelReserve_ok
         opBeginDelete_ok opDelete_ok opReassign_ok opOrphanOwner_ok opClaimOrphan_ok opUpsertSpec_ok
         opUpdateSecretRecipients_ok opAddExposedPort_ok opRemoveExposedPort_ok opAddCustomDomain_ok opRemoveCustomDomain_ok
         admissible_def)
qed

lemma applyLog_ok:
  assumes "addressesOk env" "fsmOk env f" "admissible cmd now f"
  shows "fsmOk env (snd (applyLog env cmd index now f))"
proof -
  let ?f = "f\<lparr>fsVersion := index\<rparr>"
  have ok: "fsmOk env ?f" using assms(2) by simp
  moreover have "admissible cmd now ?f" using assms(3) by (simp add: admissible_def)
  ultimately show ?thesis
    using applyPlacement_ok[OF assms(1) ok] applyStorage_ok[OF ok] applyVolumes_ok[OF ok] applyRecords_ok[OF ok]
    by (simp add: applyLog_def Let_def)
qed

lemma reaches_ok:
  assumes "addressesOk env" "reaches env f"
  shows "fsmOk env f"
  using assms(2)
proof (induction rule: reaches.induct)
  case (reach_restore f h)
  from restore_ok[OF reach_restore.IH reach_restore.hyps(2)] show ?case by auto
qed (auto simp: fsmOk_new intro: applyLog_ok[OF assms(1)])

end
