(* ===== verification/Content_Address.thy ===== *)
theory Content_Address
  imports Placement_Invariant
begin

text \<open>
  A content address with the two properties the state machine relies on: different payloads have different addresses, and
  no address is empty.  The real one is the SHA-256 of a JSON record, for which the first property is an assumption of
  collision freedom; this one writes the record out with self-delimiting encodings and has it outright.  It is the
  instance the examples run on.
\<close>

definition encStr :: "string \<Rightarrow> string" where
  "encStr s = concat (map (\<lambda>c. [CHR ''c'', c]) s) @ ''.''"

definition encNat :: "nat \<Rightarrow> string" where
  "encNat n = replicate n (CHR ''x'') @ ''.''"

definition encInt :: "int \<Rightarrow> string" where
  "encInt k = (if k < 0 then CHR ''-'' else CHR ''+'') # encNat (nat \<bar>k\<bar>)"

definition encRat :: "rat \<Rightarrow> string" where
  "encRat r = encInt (fst (quotient_of r)) @ encInt (snd (quotient_of r))"

definition encOpt :: "('a \<Rightarrow> string) \<Rightarrow> 'a option \<Rightarrow> string" where
  "encOpt e v = (case v of None \<Rightarrow> ''n'' | Some a \<Rightarrow> CHR ''s'' # e a)"

definition encStrs :: "string list \<Rightarrow> string" where
  "encStrs ss = concat (map (\<lambda>s. CHR ''c'' # encStr s) ss) @ ''.''"

definition encBool :: "bool \<Rightarrow> string" where
  "encBool b = (if b then ''t'' else ''f'')"

definition encSpec :: "CreateSandboxRequest \<Rightarrow> string" where
  "encSpec s = encStr (srName s) @ encStr (srImage s) @ encRat (srCPU s) @ encInt (srMemoryMB s) @ encInt (srDiskGB s) @
     encStr (srRuntime s) @ encStr (srTemplateID s) @ encInt (srOverlaySizeGB s) @ encStr (srModuleRef s) @
     encOpt encInt (srGPUCount s) @ encStrs (srNetworkAllowOut s) @ encStrs (srEgressProfiles s) @
     encOpt encBool (srAllowPublicTraffic s) @ encStr (srOther s)"

definition plainRef :: "string \<Rightarrow> placementRecovery \<Rightarrow> string" where
  "plainRef i rec = encStr i @ encOpt encSpec (prSpec rec) @ encStr (prSecretRef rec) @ encInt (prSecretVersion rec)"

section \<open>Self-delimiting\<close>

lemma encStr_iff [simp]: "encStr a @ x = encStr b @ y \<longleftrightarrow> a = b \<and> x = y"
proof (induction a arbitrary: b)
  case Nil
  then show ?case by (cases b) (auto simp: encStr_def)
next
  case (Cons c a)
  then show ?case by (cases b) (auto simp: encStr_def)
qed

lemma encNat_iff [simp]: "encNat a @ x = encNat b @ y \<longleftrightarrow> a = b \<and> x = y"
proof (induction a arbitrary: b)
  case 0
  then show ?case by (cases b) (auto simp: encNat_def)
next
  case (Suc a)
  then show ?case by (cases b) (auto simp: encNat_def)
qed

lemma encInt_iff [simp]: "encInt a @ x = encInt b @ y \<longleftrightarrow> a = b \<and> x = y"
  by (auto simp: encInt_def)

lemma encRat_iff [simp]: "encRat a @ x = encRat b @ y \<longleftrightarrow> a = b \<and> x = y"
  using quotient_of_inject_eq[of a b] by (auto simp: encRat_def prod_eq_iff)

lemma encStrs_iff [simp]: "encStrs a @ x = encStrs b @ y \<longleftrightarrow> a = b \<and> x = y"
proof (induction a arbitrary: b)
  case Nil
  then show ?case by (cases b) (auto simp: encStrs_def)
next
  case (Cons s a)
  then show ?case by (cases b) (auto simp: encStrs_def)
qed

lemma encBool_iff [simp]: "encBool a @ x = encBool b @ y \<longleftrightarrow> a = b \<and> x = y"
  by (auto simp: encBool_def)

lemma encOpt_iff:
  assumes "\<And>a b x y. e a @ x = e b @ y \<longleftrightarrow> a = b \<and> x = y"
  shows "encOpt e a @ x = encOpt e b @ y \<longleftrightarrow> a = b \<and> x = y"
  using assms by (cases a; cases b) (auto simp: encOpt_def)

lemmas encOpt_iffs [simp] = encOpt_iff[OF encInt_iff] encOpt_iff[OF encBool_iff]

lemma encSpec_iff [simp]: "encSpec s @ x = encSpec t @ y \<longleftrightarrow> s = t \<and> x = y"
proof -
  have "encSpec s @ x = encSpec t @ y \<longleftrightarrow>
    (srName s = srName t \<and> srImage s = srImage t \<and> srCPU s = srCPU t \<and> srMemoryMB s = srMemoryMB t \<and> srDiskGB s = srDiskGB t \<and>
     srRuntime s = srRuntime t \<and> srTemplateID s = srTemplateID t \<and> srOverlaySizeGB s = srOverlaySizeGB t \<and>
     srModuleRef s = srModuleRef t \<and> srGPUCount s = srGPUCount t \<and> srNetworkAllowOut s = srNetworkAllowOut t \<and>
     srEgressProfiles s = srEgressProfiles t \<and> srAllowPublicTraffic s = srAllowPublicTraffic t \<and> srOther s = srOther t) \<and> x = y"
    by (simp add: encSpec_def)
  then show ?thesis by auto
qed

lemma plainRef_inject: "plainRef i r = plainRef j q \<longleftrightarrow> i = j \<and> r = q"
proof -
  have "plainRef i r @ [] = plainRef j q @ [] \<longleftrightarrow>
    i = j \<and> prSpec r = prSpec q \<and> prSecretRef r = prSecretRef q \<and> prSecretVersion r = prSecretVersion q"
    unfolding plainRef_def append_assoc encStr_iff encOpt_iff[OF encSpec_iff] encInt_iff by auto
  then show ?thesis by auto
qed

definition plainEnv :: fsmEnv where
  "plainEnv = \<lparr>envRecoveryRef = plainRef, envCountHostnames = (\<lambda>hs. Some (int (length hs))), envKeyID = Some\<rparr>"

lemma plainEnv_ok: "addressesOk plainEnv"
  unfolding addressesOk_def plainEnv_def
  by (auto simp: inj_def plainRef_inject) (simp add: plainRef_def encStr_def)

end
