(* ===== verification/Placement_Example.thy ===== *)
theory Placement_Example
  imports Placement_Machine Content_Address
begin

text \<open>A small log applied to an empty state machine, with the content address of \<^verbatim>\<open>Content_Address\<close>: a sandbox named
  \<^verbatim>\<open>web\<close> is placed on \<^verbatim>\<open>node-a\<close> for a tenant. The general results are instantiated at its states.\<close>

definition webSpec :: CreateSandboxRequest where
  "webSpec = \<lparr>srName = ''web'', srImage = ''alpine'', srCPU = 1, srMemoryMB = 2, srDiskGB = 0, srRuntime = [], srTemplateID = [],
     srOverlaySizeGB = 0, srModuleRef = [], srGPUCount = None, srNetworkAllowOut = [], srEgressProfiles = [],
     srAllowPublicTraffic = None, srOther = []\<rparr>"

definition webPlace :: command where
  "webPlace = (zeroCommand OpPlace)\<lparr>cmSandboxID := ''sb'', cmOwnerNodeID := ''na'', cmIncarnationID := ''i1'', cmSpec := Some webSpec,
     cmOwnerRef := ''team:red''\<rparr>"

definition webStart :: placementFSM where
  "webStart = newPlacementFSM\<lparr>fsChanges := fsChanges newPlacementFSM\<rparr>"

definition webState :: placementFSM where
  "webState = snd (applyLog plainEnv webPlace 7 100 webStart)"

lemma webPlace_admissible: "admissible webPlace now f"
  by (simp add: visibleChar_def admissible_def webPlace_def zeroCommand_def validateCommandLifecycle_def requireIncarnation_def orElse_def
      validateSecret_def hasSecretUpdate_def placementSecrets_def hasUpdate_def)

lemma webState_reaches: "reaches plainEnv webState"
  unfolding webState_def webStart_def by (rule reach_entry[OF reach_start webPlace_admissible])

text \<open>The row and what the state holds.\<close>

definition webRow :: Placement where
  "webRow = zeroPlacement\<lparr>pSandboxID := ''sb'', pOwnerNodeID := ''na'', pVersion := 7, pCreatedUnix := 100, pUpdatedUnix := 100,
     pName := ''web'', pSpec := Some webSpec, pIncarnationID := ''i1'', pOwnerRef := ''team:red''\<rparr>"

lemma webState_eq:
  "webState = opPlaceClaim ''sb'' webRow (snd (storePlacementLocked plainEnv ''sb'' webRow (webStart\<lparr>fsVersion := 7\<rparr>)))"
proof -
  have "fsPlacements webStart ''sb'' = None" "fsNameIndex webStart = Map.empty" by (simp_all add: webStart_def newPlacementFSM_def)
  then have full: "fullPlacementLocked ''sb'' (webStart\<lparr>fsVersion := 7\<rparr>) = None" by (simp add: full_None)
  have row: "opPlaceRow webPlace None 7 100 = webRow"
    by (simp add: opPlaceRow_def webPlace_def zeroCommand_def webRow_def webSpec_def placeName_def specName_def
        applyCommandSecretUpdate_def placementSecrets_def zeroPlacement_def visibleChar_def)
  have ok: "writable ''sb'' webRow"
    by (simp add: writable_def rowOk_def settledRow_def webRow_def webSpec_def zeroPlacement_def specName_def visibleChar_def
        recoveryEmpty_def payloadOf_def)
  have "opPlaceGuard webPlace None (fsNameIndex webStart) = None"
    by (simp add: opPlaceGuard_def webPlace_def zeroCommand_def validateSecret_def hasSecretUpdate_def
        placementSecrets_def hasUpdate_def validateNameUniqueLocked_def webStart_def newPlacementFSM_def Let_def)
  moreover have "cmSandboxID webPlace = ''sb''" "cmOp webPlace = OpPlace" by (simp_all add: webPlace_def zeroCommand_def)
  ultimately show ?thesis using full row
    by (simp add: webState_def applyLog_def placementOps_def applyPlacement_def opPlace_def opPlaceRelease_def storeThen_eq[OF ok] Let_def)
qed

lemma web_sandbox: "''sb'' \<noteq> []" "trimSpace ''sb'' = ''sb''" by (simp_all add: visibleChar_def)

lemma web_rows: "fsPlacements webState = [''sb'' \<mapsto> storedRow plainEnv ''sb'' webRow]"
  by (simp add: webState_eq opPlaceClaim_def storePlacement_eq web_sandbox webStart_def newPlacementFSM_def)

lemma web_names: "fsNameIndex webState = [''web'' \<mapsto> ''sb'']"
  by (simp add: webState_eq opPlaceClaim_def webStart_def newPlacementFSM_def claimNameLocked_def webRow_def Let_def visibleChar_def)

text \<open>A row as its readers see it, found from the row of the table.\<close>

lemma storeThen_rows:
  assumes "trimSpace i \<noteq> []" "\<And>g. fsPlacements (k g) = fsPlacements g"
  shows "fsPlacements (snd (storeThen env i p f k)) = (fsPlacements f)(i \<mapsto> storedRow env i p)"
  using assms by (simp add: storeThen_def storePlacement_eq)

lemma web_full:
  obtains q where "fullPlacementLocked ''sb'' webState = Some q" "sameKeys q webRow" "pExpiresUnix q = 0"
proof -
  have ok: "fsmOk plainEnv webState" by (rule reaches_ok[OF plainEnv_ok webState_reaches])
  obtain q where q: "fullPlacementLocked ''sb'' webState = Some q" using full_None[of "''sb''" webState] by (auto simp: web_rows)
  from full_row[OF _ q, of plainEnv] ok obtain rec where "q = attachPlacementRecovery (storedRow plainEnv ''sb'' webRow) rec"
    by (auto simp: web_rows fsmOk_def)
  then have "sameKeys q webRow" "pExpiresUnix q = 0"
    by (simp_all add: sameKeys_def webRow_def zeroPlacement_def)
  with q that show ?thesis by blast
qed

text \<open>The sandbox is given a hostname, then a TCP port.\<close>

definition webDomain :: command where
  "webDomain = (zeroCommand OpAddCustomDomain)\<lparr>cmSandboxID := ''sb'', cmExpectedIncarnationID := ''i1'', cmHostname := ''a.b''\<rparr>"

definition hostState :: placementFSM where
  "hostState = snd (applyLog plainEnv webDomain 8 101 webState)"

lemma web_start_empty: "fsCustomHostnameIndex webState = Map.empty" "fsHostPortIndex webState = Map.empty" "fsVolumes webState = newVolumeState"
  by (simp_all add: webState_eq opPlaceClaim_def webStart_def newPlacementFSM_def)

lemma host_row:
  obtains r where "fsPlacements hostState ''sb'' = Some r" "pCustomHostnames r = [''a.b'']" "pIncarnationID r = ''i1''" "pState r = PlacementStatePlaced"
    "pExposedPortRoutes r = Map.empty" "fsHostPortIndex hostState = Map.empty"
proof -
  obtain q where q: "fullPlacementLocked ''sb'' webState = Some q" "sameKeys q webRow" by (rule web_full)
  from q(2) have q': "pCustomHostnames q = []" "pIncarnationID q = ''i1''" "pState q = PlacementStatePlaced" "pExposedPortRoutes q = Map.empty"
    by (simp_all add: sameKeys_def webRow_def zeroPlacement_def)
  have "opAddCustomDomainGuard webDomain (Some q) Map.empty = None"
    using q' by (simp add: opAddCustomDomainGuard_def webDomain_def zeroCommand_def mutationGuard_def whenErr_def orElse_def IsDeleting_def
        requireCurrentPlacementIncarnation_def existingHasHostname_def Let_def visibleChar_def)
  then have st: "hostState = snd (storeThen plainEnv ''sb'' (addDomainRow webDomain 8 101 q) (webState\<lparr>fsVersion := 8\<rparr>)
      (\<lambda>f. f\<lparr>fsCustomHostnameIndex := claimCustomHostnameLocked ''sb'' ''a.b'' (fsCustomHostnameIndex f)\<rparr>))"
    using q(1) by (simp add: hostState_def applyLog_def placementOps_def applyPlacement_def opAddCustomDomain_def Let_def
        webDomain_def zeroCommand_def web_start_empty case_prod_beta)
  show ?thesis
    by (rule that[of "storedRow plainEnv ''sb'' (addDomainRow webDomain 8 101 q)"])
      (simp_all add: st storeThen_rows web_sandbox addDomainRow_def q' webDomain_def zeroCommand_def insertSortedHostname_def
         storeThen_def storePlacement_eq web_start_empty)
qed

definition webPort :: command where
  "webPort = (zeroCommand OpAddExposedPort)\<lparr>cmSandboxID := ''sb'', cmExpectedIncarnationID := ''i1'', cmPort := 80, cmProtocol := ''tcp'',
     cmHostPort := 9000\<rparr>"

definition portState :: placementFSM where
  "portState = snd (applyLog plainEnv webPort 9 102 hostState)"

lemma webDomain_admissible: "admissible webDomain now f"
  and webPort_admissible: "admissible webPort now f"
  by (simp_all add: webDomain_def webPort_def admissible_def zeroCommand_def validateCommandLifecycle_def requireIncarnation_def visibleChar_def)

lemma portState_reaches: "reaches plainEnv portState"
  unfolding portState_def hostState_def
  by (rule reach_entry[OF reach_entry[OF webState_reaches webDomain_admissible] webPort_admissible])

lemma port_row:
  obtains r where "fsPlacements portState ''sb'' = Some r" "pCustomHostnames r = [''a.b'']"
    "pExposedPortRoutes r 80 = Some \<lparr>rtProtocol = ''tcp'', rtHostPort = 9000, rtPublicURL = [], rtVisibility = []\<rparr>"
proof -
  obtain r where r: "fsPlacements hostState ''sb'' = Some r" "pCustomHostnames r = [''a.b'']" "pIncarnationID r = ''i1''"
      "pState r = PlacementStatePlaced" "pExposedPortRoutes r = Map.empty" "fsHostPortIndex hostState = Map.empty"
    by (rule host_row)
  have ok: "fsmOk plainEnv hostState" unfolding hostState_def
    by (rule reaches_ok[OF plainEnv_ok reach_entry[OF webState_reaches webDomain_admissible]])
  obtain q where q: "fullPlacementLocked ''sb'' hostState = Some q" using full_None[of "''sb''" hostState] r(1) by force
  have q': "pCustomHostnames q = [''a.b'']" "pIncarnationID q = ''i1''" "pState q = PlacementStatePlaced" "pExposedPortRoutes q = Map.empty"
    using full_row[OF _ q, of plainEnv] ok r by (auto simp: fsmOk_def)
  have "opAddExposedPortGuard webPort (Some q) Map.empty = None"
    using q' by (simp add: opAddExposedPortGuard_def webPort_def zeroCommand_def mutationGuard_def whenErr_def orElse_def IsDeleting_def
        requireCurrentPlacementIncarnation_def validateHostPortAvailableLocked_def portRoute_def routeOfCommand_def zeroRoute_def
        Let_def visibleChar_def)
  then have st: "fsPlacements portState = fsPlacements (snd (storeThen plainEnv ''sb'' (addPortRow webPort 9 102 q)
      (hostState\<lparr>fsVersion := 9, fsHostPortIndex := claimHostPortLocked ''sb'' 80 (routeOfCommand webPort q)
         (releaseHostPortLocked ''sb'' 80 (portRoute q 80) Map.empty)\<rparr>) id))"
    using q r(6) by (simp add: portState_def applyLog_def placementOps_def applyPlacement_def opAddExposedPort_def Let_def
        webPort_def zeroCommand_def case_prod_beta)
  show ?thesis
    by (rule that[of "storedRow plainEnv ''sb'' (addPortRow webPort 9 102 q)"])
      (simp_all add: st storeThen_rows web_sandbox addPortRow_def routeOfCommand_def q' webPort_def zeroCommand_def Let_def)
qed

text \<open>A volume is created and attached to the sandbox.\<close>

definition volumeState1 :: placementFSM where
  "volumeState1 = snd (applyLog plainEnv ((zeroCommand OpUpsertVolume)\<lparr>cmVolume := Some exampleVolume\<rparr>) 8 1 webState)"

definition volumeState2 :: placementFSM where
  "volumeState2 = snd (applyLog plainEnv ((zeroCommand OpPutVolumeAttach)\<lparr>cmVolumeAttachments := [exampleAttachment]\<rparr>) 9 2 volumeState1)"

lemma volumeState2_reaches: "reaches plainEnv volumeState2"
  unfolding volumeState1_def volumeState2_def
  by (intro reach_entry webState_reaches)
    (simp_all add: admissible_def zeroCommand_def validateCommandLifecycle_def requireIncarnation_def exampleAttachment_def visibleChar_def)

lemma volume_attached:
  "volumeAttachments (fsVolumes volumeState2) (volumeAttachmentKey ''t'' ''v1'' ''sb'' ''x'') = Some (exampleAttachment\<lparr>vaCreatedAt := Some 2000000000\<rparr>)"
proof -
  have "fsPlacements volumeState1 = [''sb'' \<mapsto> storedRow plainEnv ''sb'' webRow]"
    by (simp add: volumeState1_def applyLog_def zeroCommand_def placementOps_def storageOps_def volumeOps_def applyVolumes_def web_rows case_prod_beta)
  moreover have "fsVolumes volumeState1 = snd (applyUpsertVolume 1 (Some exampleVolume) 0 newVolumeState)"
    by (simp add: volumeState1_def applyLog_def zeroCommand_def placementOps_def storageOps_def volumeOps_def applyVolumes_def web_start_empty case_prod_beta)
  ultimately show ?thesis
    by (simp add: volumeState2_def applyLog_def zeroCommand_def placementOps_def storageOps_def volumeOps_def applyVolumes_def case_prod_beta
        volume_example_simps webRow_def)
qed

text \<open>A second sandbox is reserved without a name; once the reservation has expired, it is asked for again under a name that
  is taken.\<close>

definition bareReserve :: command where
  "bareReserve = (zeroCommand OpReserve)\<lparr>cmSandboxID := ''s2'', cmOwnerNodeID := ''nb'', cmIncarnationID := ''i2'', cmExpiresUnix := 150\<rparr>"

definition namedReserve :: command where
  "namedReserve = (zeroCommand OpReserve)\<lparr>cmSandboxID := ''s2'', cmOwnerNodeID := ''nb'', cmIncarnationID := ''i2'', cmExpiresUnix := 250,
     cmSpec := Some webSpec\<rparr>"

definition reservedState :: placementFSM where
  "reservedState = snd (applyLog plainEnv bareReserve 8 110 webState)"

lemma reservedState_reaches: "reaches plainEnv reservedState"
  unfolding reservedState_def
proof (rule reach_entry[OF webState_reaches])
  have "fullPlacementLocked ''s2'' webState = None" by (simp add: full_None web_rows)
  then show "admissible bareReserve 110 webState"
    by (simp add: bareReserve_def admissible_def zeroCommand_def validateCommandLifecycle_def requireIncarnation_def orElse_def
        validateSecret_def hasSecretUpdate_def placementSecrets_def hasUpdate_def expiredNameClash_def visibleChar_def)
qed

lemma reserved_rows:
  "fsPlacements reservedState = (fsPlacements webState)(''s2'' \<mapsto> storedRow plainEnv ''s2'' (reserveRow bareReserve 8 110))"
  "fsNameIndex reservedState = [''web'' \<mapsto> ''sb'']"
proof -
  have full: "fullPlacementLocked ''s2'' (webState\<lparr>fsVersion := 8\<rparr>) = None" by (simp add: full_None web_rows)
  have eq: "reservedState = snd (storeThen plainEnv ''s2'' (reserveRow bareReserve 8 110) (webState\<lparr>fsVersion := 8\<rparr>) (\<lambda>f.
            claimShardLocked ''s2''
              (f\<lparr>fsNameIndex := claimNameLocked ''s2'' (pName (reserveRow bareReserve 8 110)) (fsNameIndex f),
                 fsOwnerRefIndex := claimOwnerRefLocked ''s2'' (pOwnerRef (reserveRow bareReserve 8 110)) (fsOwnerRefIndex f),
                 fsPending := claimPendingReservationLocked ''s2'' (reserveRow bareReserve 8 110) (fsPending f)\<rparr>)))"
    using full by (simp add: reservedState_def applyLog_def placementOps_def applyPlacement_def reservePlacementLocked_def reserveFresh_def
        bareReserve_def zeroCommand_def validateSecret_def hasSecretUpdate_def placementSecrets_def hasUpdate_def Let_def
        validateNameUniqueLocked_def specName_def case_prod_beta)
  have name: "pName (reserveRow bareReserve 8 110) = []" by (simp add: reserveRow_def bareReserve_def zeroCommand_def specName_def Let_def)
  show "fsPlacements reservedState = (fsPlacements webState)(''s2'' \<mapsto> storedRow plainEnv ''s2'' (reserveRow bareReserve 8 110))"
    "fsNameIndex reservedState = [''web'' \<mapsto> ''sb'']"
    unfolding eq by (simp_all add: name storeThen_def storePlacement_eq visibleChar_def claimNameLocked_def claimShardLocked_def web_names)
qed

lemma reserved_clash: "expiredNameClash namedReserve 200 reservedState"
proof -
  obtain q where q: "fullPlacementLocked ''s2'' reservedState = Some q"
    using full_None[of "''s2''" reservedState] by (auto simp: reserved_rows)
  have "fsmOk plainEnv reservedState" by (rule reaches_ok[OF plainEnv_ok reservedState_reaches])
  with full_row[OF _ q, of plainEnv] have "pState q = PlacementStateReserved" "pExpiresUnix q = 150"
    by (auto simp: fsmOk_def reserved_rows reserveRow_def bareReserve_def zeroCommand_def Let_def)
  with q show ?thesis
    by (simp add: expiredNameClash_def namedReserve_def zeroCommand_def IsReserved_def validateNameUniqueLocked_def specName_def webSpec_def
        reserved_rows visibleChar_def Let_def)
qed

end
