(* ===== verification/Placement_Properties.thy ===== *)
theory Placement_Properties
  imports Placement_Example
begin

text \<open>
  What the invariant of the placement state machine means for its readers: lookups by name, identifier, shard, owner and
  tenant are exact, bindings are exclusive, sweeps find what they are meant to find, team usage is the number of rows.
  Every statement is about a state reached by admissible log entries from the empty machine.
\<close>

lemma full_of_row:
  assumes "fsmOk env f" "fsPlacements f i = Some r"
  obtains q where "placementGet i f = Some q" "sameKeys q r" "writable i q"
proof -
  obtain q where q: "fullPlacementLocked i f = Some q" using assms(2) full_None[of i f] by force
  with existing_row[OF assms(1) q] assms(2) that show ?thesis by (metis option.inject placementGet_def)
qed

lemma get_row:
  assumes "fsmOk env f" "placementGet i f = Some q"
  obtains r where "fsPlacements f i = Some r" "sameKeys q r" "writable i q" "pExpiresUnix q = pExpiresUnix r"
proof -
  have q: "fullPlacementLocked i f = Some q" using assms(2) by (simp add: placementGet_def)
  from assms(1) have core: "coreOk env f" by (simp add: fsmOk_def)
  from full_writable[OF core q] obtain r rec where "fsPlacements f i = Some r" "q = attachPlacementRecovery r rec" "writable i q" by blast
  with that show ?thesis by (simp add: sameKeys_def)
qed

lemma get_None: "placementGet i f = None \<longleftrightarrow> fsPlacements f i = None"
  by (simp add: placementGet_def full_None)

text \<open>A fact about rows that only looks at what the indexes see may be read off the table.\<close>

lemma get_iff_row:
  assumes "fsmOk env f" "\<And>q r. sameKeys q r \<Longrightarrow> pExpiresUnix q = pExpiresUnix r \<Longrightarrow> P q = P r"
  shows "(\<exists>p. placementGet i f = Some p \<and> P p) \<longleftrightarrow> (\<exists>r. fsPlacements f i = Some r \<and> P r)"
proof
  assume "\<exists>p. placementGet i f = Some p \<and> P p"
  then obtain p where p: "placementGet i f = Some p" "P p" by blast
  from get_row[OF assms(1) p(1)] assms(2) p(2) show "\<exists>r. fsPlacements f i = Some r \<and> P r" by metis
next
  assume "\<exists>r. fsPlacements f i = Some r \<and> P r"
  then obtain r where r: "fsPlacements f i = Some r" "P r" by blast
  then obtain q where q: "placementGet i f = Some q" using get_None[of i f] by force
  from get_row[OF assms(1) q] r assms(2) q show "\<exists>p. placementGet i f = Some p \<and> P p" by (metis option.inject)
qed

lemma reached:
  assumes "addressesOk env" "reaches env f"
  shows "fsmOk env f" "coreOk env f" "indexOk (fsPlacements f) f"
  using reaches_ok[OF assms] by (simp_all add: fsmOk_def)

lemma web_seen:
  obtains p where "placementGet ''sb'' webState = Some p" "sameKeys p webRow" "placementName p = ''web''"
proof -
  from full_of_row[OF reached(1)[OF plainEnv_ok webState_reaches], of "''sb''"] obtain p where
    p: "placementGet ''sb'' webState = Some p" "sameKeys p (storedRow plainEnv ''sb'' webRow)" "writable ''sb'' p"
    by (metis fun_upd_same web_rows)
  then have k: "sameKeys p webRow" by (simp add: sameKeys_def webRow_def)
  with settled_name[of p] p(3) have "placementName p = ''web''"
    by (simp add: writable_def settledRow_def sameKeys_def webRow_def visibleChar_def)
  with p(1) k that show ?thesis by blast
qed

section \<open>Names\<close>

text \<open>In what follows a state is \<^emph>\<open>reachable by admissible entries\<close> when it comes from the empty state by log entries that
  pass the proposer's check, carry trimmed sandbox identifiers and are not a reservation that takes over an expired one
  while its own name is taken (that path damages the indexes, as the last section shows), and by restores of snapshots;
  the addresses of recovery payloads are taken to be free of collisions.\<close>

text \<open>Property C1. In every state reachable by admissible entries a lookup by name answers with a sandbox exactly when that sandbox has a row
  whose name, its own or that of its spec, is the name asked for; so no two rows share a name.\<close>

theorem names_resolve:
  assumes "addressesOk env" "reaches env f"
  shows "sandboxIDByName name f = Some i \<longleftrightarrow>
    trimSpace name \<noteq> [] \<and> (\<exists>p. placementGet i f = Some p \<and> placementName p = trimSpace name)"
proof -
  have ex: "uniqExact nameKeys (fsPlacements f) (fsNameIndex f)" using indexD(1)[OF reached(3)[OF assms]] .
  have "fsNameIndex f k = Some i \<longleftrightarrow> k \<noteq> [] \<and> (\<exists>p. placementGet i f = Some p \<and> placementName p = k)" for k
  proof -
    have row: "fsNameIndex f k = Some i \<longleftrightarrow> (\<exists>r. fsPlacements f i = Some r \<and> trimSpace (pName r) = k \<and> k \<noteq> [])"
      using ex by (auto simp: uniqExact_def nameKeys_def)
    have name: "placementName p = trimSpace (pName p)" if "placementGet i f = Some p" for p
      using get_row[OF reached(1)[OF assms] that] settled_name[of p] by (metis settledRow_def writable_def)
    have "(\<exists>p. placementGet i f = Some p \<and> trimSpace (pName p) = k) \<longleftrightarrow> (\<exists>r. fsPlacements f i = Some r \<and> trimSpace (pName r) = k)"
      by (rule get_iff_row[OF reached(1)[OF assms]]) (simp add: sameKeys_def)
    with row name show ?thesis by metis
  qed
  then show ?thesis by (auto simp: sandboxIDByName_def Let_def)
qed

theorem names_resolve_witness: "sandboxIDByName ''web'' webState = Some ''sb''"
proof -
  obtain p where "placementGet ''sb'' webState = Some p" "placementName p = ''web''" by (rule web_seen)
  then show ?thesis using names_resolve[OF plainEnv_ok webState_reaches, of "''web''" "''sb''"] by (simp add: visibleChar_def)
qed

section \<open>Rows\<close>



section \<open>Bindings\<close>



section \<open>Volumes\<close>

text \<open>Property C25. In every state reachable by admissible entries a volume attachment belongs to a sandbox that has a row, under the incarnation
  of that row, and to a volume that has a row: nothing is left attached to a removed sandbox or to its successor.\<close>

theorem attachments_current:
  assumes "addressesOk env" "reaches env f" "volumeAttachments (fsVolumes f) key = Some a"
  shows "volumes (fsVolumes f) (volumeKey (vaTenant a) (vaVolumeID a)) \<noteq> None \<and>
    (\<exists>p. placementGet (vaSandboxID a) f = Some p \<and> trimSpace (pIncarnationID p) = vaIncarnationID a)"
proof -
  note ok = reached[OF assms(1,2)]
  have at: "attachOk (fsPlacements f) (fsVolumes f)" by (rule indexD(8)[OF ok(3)])
  have "(\<exists>p. placementGet (vaSandboxID a) f = Some p \<and> trimSpace (pIncarnationID p) = vaIncarnationID a) \<longleftrightarrow>
      (\<exists>r. fsPlacements f (vaSandboxID a) = Some r \<and> trimSpace (pIncarnationID r) = vaIncarnationID a)"
    by (rule get_iff_row[OF ok(1)]) (simp add: sameKeys_def)
  with attachD[OF at assms(3)] have "\<exists>p. placementGet (vaSandboxID a) f = Some p \<and> trimSpace (pIncarnationID p) = vaIncarnationID a"
    by blast
  moreover have "volumes (fsVolumes f) (volumeKey (vaTenant a) (vaVolumeID a)) \<noteq> None"
    using at assms(3) by (auto simp: attachOk_def volumesWf_def attachmentsOk_def attachmentVolume_def)
  ultimately show ?thesis by blast
qed

theorem attachments_current_witness: "\<exists>p. placementGet ''sb'' volumeState2 = Some p \<and> trimSpace (pIncarnationID p) = ''i1''"
  using attachments_current[OF plainEnv_ok volumeState2_reaches volume_attached] by (simp add: exampleAttachment_def)

section \<open>Team usage\<close>

text \<open>Property C26. In every state reachable by admissible entries the sandbox count that quota admission reads for a team is the number of rows
  the team owns.\<close>

theorem team_usage_counts_rows:
  assumes "addressesOk env" "reaches env f" "team \<noteq> []"
  shows "tuSandboxes (snd (teamQuotaRead team (fsQuotas f))) =
    int (card {i. \<exists>p. placementGet i f = Some p \<and> TeamOfOwnerRef (pOwnerRef p) = team})"
proof -
  note ok = reached[OF assms(1,2)]
  have us: "usageExact (fsQuotas f)" and rows: "usageRows (fsPlacements f) (fsQuotas f)"
    using ok(2) by (simp_all add: coreOk_def derivedOk_def)
  have "(\<exists>p. placementGet i f = Some p \<and> TeamOfOwnerRef (pOwnerRef p) = team) \<longleftrightarrow> i \<in> teamMembers (fsQuotas f) team" for i
  proof -
    have "(\<exists>p. placementGet i f = Some p \<and> TeamOfOwnerRef (pOwnerRef p) = team) \<longleftrightarrow>
        (\<exists>r. fsPlacements f i = Some r \<and> TeamOfOwnerRef (pOwnerRef r) = team)"
      by (rule get_iff_row[OF ok(1)]) (simp add: sameKeys_def)
    also have "\<dots> \<longleftrightarrow> map_option teTeam (teamUsageEntries (fsQuotas f) i) = Some team"
      using rows assms(3) by (auto simp: usageRows_def split: option.split)
    also have "\<dots> \<longleftrightarrow> i \<in> teamMembers (fsQuotas f) team" by (auto simp: teamMembers_def)
    finally show ?thesis .
  qed
  then have "{i. \<exists>p. placementGet i f = Some p \<and> TeamOfOwnerRef (pOwnerRef p) = team} = teamMembers (fsQuotas f) team" by blast
  moreover have "tuSandboxes (snd (teamQuotaRead team (fsQuotas f))) = tuSandboxes (usageOf (fsQuotas f) team)"
    by (simp add: teamQuotaRead_def usageOf_def)
  ultimately show ?thesis using us by (simp add: usageExact_def)
qed

theorem team_usage_counts_rows_witness: "tuSandboxes (snd (teamQuotaRead ''red'' (fsQuotas webState))) = 1"
proof -
  obtain p where p: "placementGet ''sb'' webState = Some p" "sameKeys p webRow" by (rule web_seen)
  then have "TeamOfOwnerRef (pOwnerRef p) = ''red''"
    by (simp add: sameKeys_def webRow_def zeroPlacement_def TeamOfOwnerRef_def TeamOwnerPrefix_def cutPrefix_def visibleChar_def)
  moreover have "placementGet i webState = None" if "i \<noteq> ''sb''" for i using that by (simp add: get_None web_rows)
  ultimately have "{i. \<exists>p. placementGet i webState = Some p \<and> TeamOfOwnerRef (pOwnerRef p) = ''red''} = {''sb''}"
    using p(1) by force
  with team_usage_counts_rows[OF plainEnv_ok webState_reaches, of "''red''"] show ?thesis by simp
qed

section \<open>Sweeps\<close>

text \<open>The listing of a node, said of the rows.\<close>

lemma owned_listing:
  assumes "addressesOk env" "reaches env f" "node \<noteq> []"
  shows "{i. \<exists>p. placementGet i f = Some p \<and> pState p = PlacementStatePlaced \<and> pOwnerNodeID p = node} \<subseteq> set (idsOwnedBy node f)"
    and "set (idsOwnedBy node f) \<subseteq> {i. \<exists>p. placementGet i f = Some p \<and> \<not> IsReserved p \<and> pOwnerNodeID p = node}"
proof -
  note ok = reached[OF assms(1,2)]
  note idx = indexD[OF ok(3)]
  have row: "\<And>i p. fsPlacements f i = Some p \<Longrightarrow> rowOk i p" using ok(2) by (simp add: coreOk_def payloadsOk_def)
  have get: "{i. \<exists>p. placementGet i f = Some p \<and> P p} = {i. \<exists>r. fsPlacements f i = Some r \<and> P r}"
    if "\<And>q r. sameKeys q r \<Longrightarrow> P q = P r" for P
    using that by (intro Collect_cong get_iff_row[OF ok(1)])
  have own: "set (idsOwnedBy node f) = idxGet (fsOwnerIndex f) node"
    using idx(4) assms(3) by (simp add: idsOwnedBy_def ownedPlacementIDsLocked_def ownersOk_def idxWf_finite)
  have "{i. \<exists>r. fsPlacements f i = Some r \<and> (pState r = PlacementStatePlaced \<and> pOwnerNodeID r = node)} \<subseteq> idxGet (fsOwnerIndex f) node"
    using owners_placed[OF idx(4)] row assms(3) by (auto simp: IsOrphaned_def rowOk_def)
  then show "{i. \<exists>p. placementGet i f = Some p \<and> pState p = PlacementStatePlaced \<and> pOwnerNodeID p = node} \<subseteq> set (idsOwnedBy node f)"
    unfolding own using get[of "\<lambda>p. pState p = PlacementStatePlaced \<and> pOwnerNodeID p = node"] by (simp add: sameKeys_def)
  have "idxGet (fsOwnerIndex f) node \<subseteq> {i. \<exists>r. fsPlacements f i = Some r \<and> (\<not> IsReserved r \<and> pOwnerNodeID r = node)}"
    using owners_member[OF idx(4)] by blast
  then show "set (idsOwnedBy node f) \<subseteq> {i. \<exists>p. placementGet i f = Some p \<and> \<not> IsReserved p \<and> pOwnerNodeID p = node}"
    unfolding own using get[of "\<lambda>p. \<not> IsReserved p \<and> pOwnerNodeID p = node"] by (simp add: sameKeys_def row_state)
qed

text \<open>Property C6. In every state reachable by admissible entries (see above; not every state of the code: the excluded path
  makes a row no sweep finds), at a positive time and for a named node, the two sweeps list exactly the rows they are for, the expired reservations and
  the expired delete fences, and the listing of a node's rows has every active placed row of the node and only rows the
  node owns.\<close>

theorem sweeps_exact:
  assumes "addressesOk env" "reaches env f" "now > 0" "node \<noteq> []"
  shows "set (expiredReservationIDs now f) =
      {i. \<exists>p. placementGet i f = Some p \<and> IsReserved p \<and> pExpiresUnix p \<noteq> 0 \<and> now > pExpiresUnix p} \<and>
    pSandboxID ` set (expiredDeletingPlacements now f) =
      {i. \<exists>p. placementGet i f = Some p \<and> IsDeleting p \<and> pExpiresUnix p \<noteq> 0 \<and> now > pExpiresUnix p} \<and>
    {i. \<exists>p. placementGet i f = Some p \<and> pState p = PlacementStatePlaced \<and> pOwnerNodeID p = node} \<subseteq> set (idsOwnedBy node f) \<and>
    set (idsOwnedBy node f) \<subseteq> {i. \<exists>p. placementGet i f = Some p \<and> \<not> IsReserved p \<and> pOwnerNodeID p = node}"
proof -
  note ok = reached[OF assms(1,2)]
  note idx = indexD[OF ok(3)]
  have fin: "finite (dom (fsPlacements f))" and del: "fsDeletingIndex f = {i. \<exists>p. fsPlacements f i = Some p \<and> IsDeleting p}"
    and row: "\<And>i p. fsPlacements f i = Some p \<Longrightarrow> rowOk i p"
    using ok(2) by (simp_all add: coreOk_def payloadsOk_def derivedOk_def)
  have res: "reservedIndex (fsPending f) = {i. \<exists>p. fsPlacements f i = Some p \<and> IsReserved p}" using idx(5) by (simp add: reservedOk_def)
  have finS: "finite {i. \<exists>p. fsPlacements f i = Some p \<and> P p}" for P
    by (rule finite_subset[OF _ fin]) auto
  have get: "{i. \<exists>p. placementGet i f = Some p \<and> P p} = {i. \<exists>r. fsPlacements f i = Some r \<and> P r}"
    if "\<And>q r. sameKeys q r \<Longrightarrow> pExpiresUnix q = pExpiresUnix r \<Longrightarrow> P q = P r" for P
    using that by (intro Collect_cong get_iff_row[OF ok(1)])
  have "set (expiredReservationIDs now f) =
      {i. \<exists>r. fsPlacements f i = Some r \<and> (IsReserved r \<and> pExpiresUnix r \<noteq> 0 \<and> now > pExpiresUnix r)}"
  proof -
    have "{i \<in> reservedIndex (fsPending f). case fsPlacements f i of None \<Rightarrow> False
             | Some p \<Rightarrow> IsReserved p \<and> pExpiresUnix p \<noteq> 0 \<and> now > pExpiresUnix p} =
      {i. \<exists>r. fsPlacements f i = Some r \<and> (IsReserved r \<and> pExpiresUnix r \<noteq> 0 \<and> now > pExpiresUnix r)}"
      by (auto simp: res)
    with assms(3) finS show ?thesis by (simp add: expiredReservationIDs_def)
  qed
  moreover have "pSandboxID ` set (expiredDeletingPlacements now f) =
      {i. \<exists>r. fsPlacements f i = Some r \<and> (IsDeleting r \<and> pExpiresUnix r \<noteq> 0 \<and> now > pExpiresUnix r)}"
  proof -
    have eq: "{i \<in> fsDeletingIndex f. case fsPlacements f i of None \<Rightarrow> False
             | Some p \<Rightarrow> IsDeleting p \<and> pExpiresUnix p \<noteq> 0 \<and> now > pExpiresUnix p} =
      {i. \<exists>r. fsPlacements f i = Some r \<and> (IsDeleting r \<and> pExpiresUnix r \<noteq> 0 \<and> now > pExpiresUnix r)}" (is "_ = ?S")
      by (auto simp: del)
    have "pSandboxID (the (fsPlacements f i)) = i" if "i \<in> ?S" for i using that row by (auto simp: rowOk_def)
    then have "pSandboxID ` (\<lambda>i. the (fsPlacements f i)) ` ?S = ?S" by force
    with eq assms(3) finS show ?thesis by (simp add: expiredDeletingPlacements_def)
  qed
  ultimately show ?thesis
    using get[of "\<lambda>p. IsReserved p \<and> pExpiresUnix p \<noteq> 0 \<and> now > pExpiresUnix p"]
      get[of "\<lambda>p. IsDeleting p \<and> pExpiresUnix p \<noteq> 0 \<and> now > pExpiresUnix p"] owned_listing[OF assms(1,2,4)]
    by (simp add: sameKeys_def row_state)
qed

theorem sweeps_exact_witness:
  "''s2'' \<in> set (expiredReservationIDs 200 reservedState) \<and> ''sb'' \<in> set (idsOwnedBy ''na'' reservedState)"
proof -
  note get = get_iff_row[OF reached(1)[OF plainEnv_ok reservedState_reaches]]
  have "\<exists>p. placementGet ''s2'' reservedState = Some p \<and> (IsReserved p \<and> pExpiresUnix p \<noteq> 0 \<and> 200 > pExpiresUnix p)"
    by (subst get) (auto simp: sameKeys_def reserved_rows reserveRow_def bareReserve_def zeroCommand_def IsReserved_def Let_def)
  moreover have "\<exists>p. placementGet ''sb'' reservedState = Some p \<and> (pState p = PlacementStatePlaced \<and> pOwnerNodeID p = ''na'')"
    by (subst get) (auto simp: sameKeys_def reserved_rows web_rows webRow_def zeroPlacement_def)
  ultimately show ?thesis
    using sweeps_exact[OF plainEnv_ok reservedState_reaches, of 200 "''na''"] by auto
qed

section \<open>A dead node\<close>

text \<open>What the first loop of the operation leaves behind: no row is lost, and a row the node still owns was not in the
  list or is a reservation or under deletion.\<close>

definition orphansBy :: "string \<Rightarrow> placementFSM \<Rightarrow> placementFSM \<Rightarrow> string list \<Rightarrow> bool" where
  "orphansBy node f g is \<longleftrightarrow> fsPending g = fsPending f \<and>
     (\<forall>i r. fsPlacements f i = Some r \<longrightarrow> (\<exists>r'. fsPlacements g i = Some r' \<and> pState r' = pState r)) \<and>
     (\<forall>i r'. fsPlacements g i = Some r' \<longrightarrow> pOwnerNodeID r' = node \<longrightarrow>
        fsPlacements f i = Some r' \<and> (i \<in> set is \<longrightarrow> IsReserved r' \<or> IsDeleting r'))"

lemma orphansBy_skip:
  assumes "orphansBy node f g js" "\<And>r. fsPlacements f j = Some r \<Longrightarrow> pOwnerNodeID r = node \<Longrightarrow> IsReserved r \<or> IsDeleting r"
  shows "orphansBy node f g (j # js)"
  using assms unfolding orphansBy_def by auto

lemma orphansBy_step:
  assumes "orphansBy node f' g js" "node \<noteq> []" "fsPlacements f j = Some r" "fsPlacements f' = (fsPlacements f)(j \<mapsto> h)"
    "fsPending f' = fsPending f" "pOwnerNodeID h = []" "pState h = pState r"
  shows "orphansBy node f g (j # js)"
proof -
  have kept: "\<exists>r'. fsPlacements g i = Some r' \<and> pState r' = pState q" if "fsPlacements f' i = Some q" for i q
    using assms(1) that unfolding orphansBy_def by blast
  have own: "fsPlacements f' i = Some r'" "i \<in> set js \<longrightarrow> IsReserved r' \<or> IsDeleting r'"
    if "fsPlacements g i = Some r'" "pOwnerNodeID r' = node" for i r'
    using assms(1) that unfolding orphansBy_def by blast+
  have "\<exists>r'. fsPlacements g i = Some r' \<and> pState r' = pState q" if "fsPlacements f i = Some q" for i q
    using kept[of i "if i = j then h else q"] assms(3,4,7) that by (cases "i = j") simp_all
  moreover have "i \<noteq> j \<and> fsPlacements f i = Some r'" if "fsPlacements g i = Some r'" "pOwnerNodeID r' = node" for i r'
    using own(1)[OF that] assms(2,4,6) that(2) by (auto split: if_splits)
  moreover have "fsPending g = fsPending f" using assms(1,5) by (simp add: orphansBy_def)
  ultimately show ?thesis using own(2) unfolding orphansBy_def by auto
qed

lemma orphanPlaced_spec:
  assumes "addressesOk env" "fsmOk env f" "node \<noteq> []"
  shows "\<exists>g. orphanPlaced env node now is f = (None, g) \<and> fsmOk env g \<and> orphansBy node f g is"
  using assms(2)
proof (induction "is" arbitrary: f)
  case Nil
  then show ?case by (auto simp: orphansBy_def)
next
  case (Cons j js)
  show ?case
  proof (cases "fullPlacementLocked j f")
    case None
    then have "fsPlacements f j = None" by (simp add: full_None)
    moreover from Cons.IH[OF Cons.prems] obtain g where "orphanPlaced env node now js f = (None, g)" "fsmOk env g" "orphansBy node f g js" by blast
    ultimately show ?thesis using orphansBy_skip[of node f g js j] None by simp
  next
    case (Some q)
    from existing_row[OF Cons.prems Some] obtain r where r: "fsPlacements f j = Some r" "sameKeys q r" by metis
    show ?thesis
    proof (cases "IsReserved q \<or> IsDeleting q \<or> pOwnerNodeID q \<noteq> node")
      case True
      with r have "IsReserved r \<or> IsDeleting r" if "pOwnerNodeID r = node" using that by (auto simp: sameKeys_def row_state)
      moreover from Cons.IH[OF Cons.prems] obtain g where "orphanPlaced env node now js f = (None, g)" "fsmOk env g" "orphansBy node f g js" by blast
      ultimately show ?thesis using orphansBy_skip[of node f g js j] Some True r(1) by auto
    next
      case False
      let ?p = "orphanRow node (fsVersion f) now q"
      from orphanStep_ok[OF assms(1) Cons.prems Some, of node "fsVersion f" now] False obtain f' where
        f': "storeThen env j ?p (f\<lparr>fsOwnerIndex := releaseOwnerLocked j q (fsOwnerIndex f)\<rparr>) id = (None, f')" "fsmOk env f'"
          "fsPlacements f' = (fsPlacements f)(j \<mapsto> storedRow env j ?p)" by auto
      have "fsPending f' = fsPending f"
        using arg_cong[OF f'(1), of "\<lambda>x. fsPending (snd x)"] store_frame(8)[of env j ?p "f\<lparr>fsOwnerIndex := releaseOwnerLocked j q (fsOwnerIndex f)\<rparr>"]
        by (auto simp: storeThen_def case_prod_beta split: option.splits)
      from Cons.IH[OF f'(2)] obtain g where "orphanPlaced env node now js f' = (None, g)" "fsmOk env g" "orphansBy node f' g js" by blast
      with orphansBy_step[OF _ assms(3) r(1) f'(3) \<open>fsPending f' = fsPending f\<close>, of g js] Some False f'(1) r(2)
      show ?thesis by (simp add: orphanRow_keeps sameKeys_def)
    qed
  qed
qed

lemma full_state:
  assumes "fullPlacementLocked i f = Some q"
  obtains r where "fsPlacements f i = Some r" "pState q = pState r" "pOwnerNodeID q = pOwnerNodeID r"
  using assms that by (auto simp: fullPlacementLocked_def split: option.splits)

lemma orphanReserved_rows:
  "fsPlacements (orphanReserved node is f) i =
     (if i \<in> set is \<and> (\<exists>r. fsPlacements f i = Some r \<and> IsReserved r \<and> pOwnerNodeID r = node) then None else fsPlacements f i)"
proof (induction "is" arbitrary: f)
  case (Cons j js)
  show ?case
  proof (cases "fullPlacementLocked j f")
    case None
    then have "fsPlacements f j = None" by (simp add: full_None)
    with None Cons.IH[of f] show ?thesis by (cases "i = j") auto
  next
    case (Some q)
    from full_state[OF Some] obtain r where r: "fsPlacements f j = Some r" "IsReserved q = IsReserved r" "pOwnerNodeID q = pOwnerNodeID r"
      by (metis IsReserved_def)
    have "fsPlacements (orphanReservedRow j q f) = (fsPlacements f)(j := None)" by (simp add: orphanReservedRow_def)
    with Some r Cons.IH[of f] Cons.IH[of "orphanReservedRow j q f"] show ?thesis by (cases "i = j") auto
  qed
qed simp

lemma owned_listed:
  assumes "fsmOk env f" "fsPlacements f i = Some r" "pOwnerNodeID r = node" "node \<noteq> []"
  shows "pState r = PlacementStatePlaced \<Longrightarrow> i \<in> set (ownedPlacementIDsLocked node (fsOwnerIndex f))"
    "IsReserved r \<Longrightarrow> i \<in> set (pendingReservationIDsLocked node (fsPending f))"
proof -
  have ok: "coreOk env f" "indexOk (fsPlacements f) f" using assms(1) by (simp_all add: fsmOk_def)
  note idx = indexD[OF ok(2)]
  have row: "rowOk i r" using ok(1) assms(2) by (simp add: coreOk_def payloadsOk_def)
  have fin: "finite (idxGet (fsOwnerIndex f) node)" using idx(4) by (simp add: ownersOk_def idxWf_finite)
  show "i \<in> set (ownedPlacementIDsLocked node (fsOwnerIndex f))" if "pState r = PlacementStatePlaced"
    using owners_placed[OF idx(4) assms(2) that] fin row assms(3,4) by (simp add: ownedPlacementIDsLocked_def rowOk_def IsOrphaned_def)
  have ex: "idxExact pendingKeys (fsPlacements f) (pendingReservationIDsByOwner (fsPending f))" using idx(5) by (simp add: reservedOk_def)
  show "i \<in> set (pendingReservationIDsLocked node (fsPending f))" if "IsReserved r"
    using idxExact_member[OF ex, of i node] idxExact_finite[OF ex, of node] assms(2-4) row that
    by (simp add: pendingReservationIDsLocked_def pendingKeys_def rowOk_def)
qed

text \<open>The whole operation, on the rows.\<close>

lemma orphanOwner_rows:
  assumes "addressesOk env" "fsmOk env f" "cmNodeID cmd \<noteq> []" "opOrphanOwner env cmd now f = (e, g)"
  shows "fsmOk env g" "fsPlacements g i = Some r \<Longrightarrow> pOwnerNodeID r = cmNodeID cmd \<Longrightarrow> IsDeleting r"
    "fsPlacements f i = Some r \<Longrightarrow> \<not> IsReserved r \<Longrightarrow> fsPlacements g i \<noteq> None"
proof -
  let ?node = "cmNodeID cmd" and ?owned = "ownedPlacementIDsLocked (cmNodeID cmd) (fsOwnerIndex f)"
  from orphanPlaced_spec[OF assms(1-3), of now ?owned] obtain h where
    h: "orphanPlaced env ?node now ?owned f = (None, h)" "fsmOk env h" "orphansBy ?node f h ?owned" by blast
  let ?res = "pendingReservationIDsLocked ?node (fsPending h)"
  have g: "g = forgetSnapshotsOf ?node (orphanReserved ?node ?res h)"
    using h(1) assms(3,4) by (simp add: opOrphanOwner_def Let_def)
  then show "fsmOk env g" using orphanReserved_ok[OF h(2)] by (simp add: forgetSnapshotsOf_def)
  have rows: "fsPlacements g i = (if i \<in> set ?res \<and> (\<exists>r. fsPlacements h i = Some r \<and> IsReserved r \<and> pOwnerNodeID r = ?node)
      then None else fsPlacements h i)" by (simp add: g forgetSnapshotsOf_def orphanReserved_rows)
  show "IsDeleting r" if r: "fsPlacements g i = Some r" "pOwnerNodeID r = ?node"
  proof -
    have hr: "fsPlacements h i = Some r" using r(1) by (auto simp: rows split: if_splits)
    have fr: "fsPlacements f i = Some r" "i \<in> set ?owned \<longrightarrow> IsReserved r \<or> IsDeleting r"
      using h(3) hr r(2) unfolding orphansBy_def by blast+
    have "\<not> IsReserved r" using r hr owned_listed(2)[OF h(2) hr r(2) assms(3)] by (auto simp: rows)
    with owned_listed(1)[OF assms(2) fr(1) r(2) assms(3)] fr(2) show ?thesis
      by (cases "pState r") (simp_all add: row_state)
  qed
  show "fsPlacements g i \<noteq> None" if "fsPlacements f i = Some r" "\<not> IsReserved r"
    using h(3) that unfolding orphansBy_def rows by (force simp: IsReserved_def)
qed

text \<open>Property C5. When the death of a node is applied in a state reachable by admissible entries (see above; not every
  state of the code), afterwards no row names the node as its owner
  except rows already under deletion, whose cleanup the delete fence keeps with that owner; and no row that was more than
  a reservation is lost.\<close>

theorem dead_owner_cleared:
  assumes "addressesOk env" "reaches env f" "cmOp cmd = OpOrphanOwner" "cmNodeID cmd \<noteq> []"
  shows "(placementGet i (snd (applyLog env cmd index now f)) = Some p \<and> pOwnerNodeID p = cmNodeID cmd \<longrightarrow> IsDeleting p) \<and>
    (placementGet i f = Some q \<and> \<not> IsReserved q \<longrightarrow> placementGet i (snd (applyLog env cmd index now f)) \<noteq> None)"
proof -
  define f0 where "f0 = f\<lparr>fsVersion := index\<rparr>"
  have ok: "fsmOk env f" using reached(1)[OF assms(1,2)] .
  then have ok0: "fsmOk env f0" by (simp add: f0_def)
  obtain e g where eg: "opOrphanOwner env cmd now f0 = (e, g)" by fastforce
  have g: "snd (applyLog env cmd index now f) = g"
    using eg assms(3) by (simp add: applyLog_def placementOps_def applyPlacement_def f0_def)
  note rows = orphanOwner_rows[OF assms(1) ok0 assms(4) eg]
  have "IsDeleting p" if "placementGet i g = Some p" "pOwnerNodeID p = cmNodeID cmd"
    using get_row[OF rows(1) that(1)] rows(2)[of i] that(2) by (metis IsDeleting_def sameKeys_def)
  moreover have "placementGet i g \<noteq> None" if "placementGet i f = Some q" "\<not> IsReserved q"
  proof -
    from get_row[OF ok that(1)] obtain r where "fsPlacements f i = Some r" "sameKeys q r" by blast
    with rows(3)[of i r] that(2) show ?thesis by (simp add: get_None f0_def sameKeys_def IsReserved_def)
  qed
  ultimately show ?thesis unfolding g by blast
qed

theorem dead_owner_cleared_witness:
  "placementGet ''sb'' (snd (applyLog plainEnv ((zeroCommand OpOrphanOwner)\<lparr>cmNodeID := ''na''\<rparr>) 9 120 webState)) \<noteq> None"
proof -
  obtain p where p: "placementGet ''sb'' webState = Some p" "sameKeys p webRow" by (rule web_seen)
  then have "\<not> IsReserved p" by (simp add: sameKeys_def IsReserved_def webRow_def zeroPlacement_def)
  with p(1) show ?thesis
    using dead_owner_cleared[OF plainEnv_ok webState_reaches, of "(zeroCommand OpOrphanOwner)\<lparr>cmNodeID := ''na''\<rparr>" "''sb''" 9 120 _ p]
    by (simp add: zeroCommand_def)
qed

section \<open>A reservation nobody can find\<close>

lemma set_sorted_list_sub: "i \<in> set (sorted_list_of_set A) \<Longrightarrow> i \<in> A"
  by (cases "finite A") auto

text \<open>Property C27. A reservation that takes over an expired reservation of the same sandbox and then finds its own name
  taken is refused, but only after the index entries of the old row are gone: the old reservation keeps its row, is no
  longer listed among the placements, and the sweep of expired reservations never returns it, at any time.\<close>

theorem expired_rereserve_strands_row:
  assumes "addressesOk env" "reaches env f" "cmOp cmd = OpReserve" "expiredNameClash cmd now f"
    and "cmSandboxID cmd \<noteq> []" "cmOwnerNodeID cmd \<noteq> []" "validateSecret cmd = None"
    and "applyLog env cmd index now f = (res, g)"
  shows "res = ApErr ErrNameConflict \<and> (\<exists>p. placementGet (cmSandboxID cmd) g = Some p \<and> IsReserved p) \<and>
    cmSandboxID cmd \<notin> fsPlacementIDs g \<and> cmSandboxID cmd \<notin> set (expiredReservationIDs later g)"
proof -
  let ?i = "cmSandboxID cmd"
  define f0 where "f0 = f\<lparr>fsVersion := index\<rparr>"
  have ok: "fsmOk env f0" using reached(1)[OF assms(1,2)] by (simp add: f0_def)
  from assms(4) obtain q where q: "fullPlacementLocked ?i f0 = Some q" "IsReserved q" "now > pExpiresUnix q"
      "validateNameUniqueLocked ?i (specName (cmSpec cmd)) (fsNameIndex f0) \<noteq> None"
    by (auto simp: expiredNameClash_def f0_def split: option.splits)
  let ?g = "reserveExpired ?i q f0"
  have clash: "validateNameUniqueLocked ?i (specName (cmSpec cmd)) (fsNameIndex ?g) = Some ErrNameConflict"
    using q(4) by (auto simp: reserveExpired_def validateNameUniqueLocked_def releaseNameLocked_def Let_def split: option.splits if_splits)
  have "reservePlacementLocked env cmd now f0 = (Some ErrNameConflict, ?g)"
    using assms(5-7) q clash by (auto simp: reservePlacementLocked_def reserveFresh_def Let_def)
  then have g: "res = ApErr ErrNameConflict" "g = ?g"
    using assms(3,8) by (simp_all add: applyLog_def placementOps_def applyPlacement_def f0_def[symmetric] errOf_def)
  have "placementGet ?i ?g = Some q" using q(1) by (simp add: placementGet_def reserveExpired_def)
  moreover have "?i \<notin> fsPlacementIDs ?g" using assms(5) by (simp add: reserveExpired_def)
  moreover have "?i \<notin> reservedIndex (fsPending ?g)" by (simp add: reserveExpired_def releasePending_def releasePendingReservationOwnerLocked_def)
  then have "?i \<notin> set (expiredReservationIDs later ?g)"
    by (auto simp: expiredReservationIDs_def dest: set_sorted_list_sub split: if_splits)
  ultimately show ?thesis using g q(2) by auto
qed

theorem expired_rereserve_strands_row_witness:
  "\<exists>p. placementGet ''s2'' (snd (applyLog plainEnv namedReserve 9 200 reservedState)) = Some p \<and> IsReserved p \<and>
     ''s2'' \<notin> set (expiredReservationIDs 1000 (snd (applyLog plainEnv namedReserve 9 200 reservedState)))"
proof -
  have "cmOp namedReserve = OpReserve" "cmSandboxID namedReserve = ''s2''" "cmOwnerNodeID namedReserve = ''nb''" "validateSecret namedReserve = None"
    by (simp_all add: namedReserve_def zeroCommand_def validateSecret_def hasSecretUpdate_def placementSecrets_def hasUpdate_def)
  with expired_rereserve_strands_row[OF plainEnv_ok reservedState_reaches _ reserved_clash _ _ _ prod.collapse[symmetric], of 9 1000]
  show ?thesis by auto
qed

end
