(* ===== verification/Placement_Pages.thy ===== *)
theory Placement_Pages
  imports Placement_Properties Paging Name_Key
begin

text \<open>
  Listing placements: the shard read \<^verbatim>\<open>placementsForShards\<close> and the paged read \<^verbatim>\<open>placementPage\<close> of
  \<^verbatim>\<open>internal/cluster/fsm.go\<close>.  A page is bounded by a row count and by the bytes its rows take; the JSON
  length of a row is a parameter (\<^verbatim>\<open>None\<close> where the encoder fails).  A panic of the shard hash, which divides by
  the shard count modulo \<open>2 ^ 32\<close>, is the result \<^verbatim>\<open>None\<close>.
\<close>

section \<open>The reads\<close>

text \<open>Whether a filter asks for a sandbox; an empty list of shards has been read as all of them before.\<close>

definition wantShard :: "PlacementShardFilter \<Rightarrow> bool \<Rightarrow> string \<Rightarrow> bool option" where
  "wantShard flt allS i =
     (if allS then Some True
      else map_option (\<lambda>shard. shard \<in> set (sfShards flt)) (PlacementShardForSandbox i (sfShardCount flt)))"

fun keepWanted :: "(string \<Rightarrow> bool option) \<Rightarrow> string list \<Rightarrow> string list option" where
  "keepWanted want [] = Some []"
| "keepWanted want (i # is) =
     (case want i of
        None \<Rightarrow> None
      | Some w \<Rightarrow> map_option (\<lambda>out. if w then i # out else out) (keepWanted want is))"

text \<open>The rows of some shards, in the order of the identifiers where the code has the order of a Go map.\<close>

definition placementsForShards :: "PlacementShardFilter \<Rightarrow> placementFSM \<Rightarrow> Placement list option" where
  "placementsForShards flt0 f =
     (let flt = filterNormalize flt0; rows = (\<lambda>is. map (\<lambda>i. cloneHotPlacement (the (fsPlacements f i))) is)
      in if noShards flt then Some []
         else if allShards flt then Some (rows (sorted_list_of_set (dom (fsPlacements f))))
         else if sfShardCount flt \<noteq> DefaultPlacementShardCount
         then map_option rows (keepWanted (wantShard flt False) (sorted_list_of_set (dom (fsPlacements f))))
         else Some (rows (filter (\<lambda>i. fsPlacements f i \<noteq> None)
                (concat (map (\<lambda>shard. sorted_list_of_set (idxGet (fsShardIndex f) shard)) (sfShards flt))))))"

text \<open>The callback that walks an ordered set: it passes what the cursor has seen and what the filter does not want, and
  stops when the page is full.\<close>

fun ascendIDs :: "(string \<Rightarrow> bool option) \<Rightarrow> string \<Rightarrow> int \<Rightarrow> string list \<Rightarrow> string list \<Rightarrow> string list option" where
  "ascendIDs want token limit ids [] = Some ids"
| "ascendIDs want token limit ids (i # is) =
     (if token \<noteq> [] \<and> i \<le> token then ascendIDs want token limit ids is
      else (case want i of
              None \<Rightarrow> None
            | Some False \<Rightarrow> ascendIDs want token limit ids is
            | Some True \<Rightarrow> if int (length (ids @ [i])) < limit then ascendIDs want token limit (ids @ [i]) is
                           else Some (ids @ [i])))"

definition ascendFrom :: "(string \<Rightarrow> bool option) \<Rightarrow> string \<Rightarrow> int \<Rightarrow> string set \<Rightarrow> string list option" where
  "ascendFrom want token limit tree = ascendIDs want token limit [] (filter (\<lambda>i. token \<le> i) (sorted_list_of_set tree))"

definition pagePlacementIDsByOwnerNodeLocked ::
  "PlacementPageRequest \<Rightarrow> string \<Rightarrow> PlacementShardFilter \<Rightarrow> bool \<Rightarrow> placementFSM \<Rightarrow> string list option" where
  "pagePlacementIDsByOwnerNodeLocked req ownerNodeID flt allS f =
     ascendFrom (wantShard flt allS) (prPageToken req) (prLimit req) (idxGet (fsOwnerIndex f) ownerNodeID)"

definition pagePlacementIDsByOwnerRefLocked ::
  "PlacementPageRequest \<Rightarrow> string \<Rightarrow> PlacementShardFilter \<Rightarrow> bool \<Rightarrow> placementFSM \<Rightarrow> string list option" where
  "pagePlacementIDsByOwnerRefLocked req ownerRef flt allS f =
     ascendFrom (wantShard flt allS) (prPageToken req) (prLimit req) (idxGet (fsOwnerRefIndex f) ownerRef)"

definition pagePlacementIDsFromTreeLocked ::
  "PlacementPageRequest \<Rightarrow> PlacementShardFilter \<Rightarrow> bool \<Rightarrow> placementFSM \<Rightarrow> string list option" where
  "pagePlacementIDsFromTreeLocked req flt allS f =
     ascendFrom (wantShard flt allS) (prPageToken req) (prLimit req) (fsPlacementIDs f)"

text \<open>The fallback without an index.\<close>

definition scanKeeps :: "PlacementPageRequest \<Rightarrow> string \<Rightarrow> Placement \<Rightarrow> bool" where
  "scanKeeps req i p \<longleftrightarrow>
     \<not> (prPageToken req \<noteq> [] \<and> i \<le> prPageToken req) \<and>
     (trimSpace (prOwnerNodeID req) \<noteq> [] \<longrightarrow>
        trimSpace (pOwnerNodeID p) = trimSpace (prOwnerNodeID req) \<and> \<not> IsReserved p \<and> \<not> IsOrphaned p) \<and>
     (trimSpace (prOwnerRef req) \<noteq> [] \<longrightarrow> trimSpace (pOwnerRef p) \<noteq> [] \<and> trimSpace (pOwnerRef p) = trimSpace (prOwnerRef req))"

definition pagePlacementIDsByScanLocked ::
  "PlacementPageRequest \<Rightarrow> PlacementShardFilter \<Rightarrow> bool \<Rightarrow> placementFSM \<Rightarrow> string list option" where
  "pagePlacementIDsByScanLocked req flt allS f =
     map_option (\<lambda>ids. take (nat (prLimit req)) (sort ids))
       (keepWanted (wantShard flt allS)
         (filter (\<lambda>i. scanKeeps req i (the (fsPlacements f i))) (sorted_list_of_set (dom (fsPlacements f)))))"

definition pagePlacementIDsLocked ::
  "PlacementPageRequest \<Rightarrow> PlacementShardFilter \<Rightarrow> bool \<Rightarrow> placementFSM \<Rightarrow> string list option" where
  "pagePlacementIDsLocked req flt allS f =
     (if trimSpace (prOwnerNodeID req) \<noteq> [] then pagePlacementIDsByOwnerNodeLocked req (trimSpace (prOwnerNodeID req)) flt allS f
      else if trimSpace (prOwnerRef req) \<noteq> [] then pagePlacementIDsByOwnerRefLocked req (trimSpace (prOwnerRef req)) flt allS f
      else if allS \<or> sfShardCount flt \<noteq> DefaultPlacementShardCount \<or> length (sfShards flt) > 1024
      then pagePlacementIDsFromTreeLocked req flt allS f
      else Some (take (nat (prLimit req)) (sort (filter (\<lambda>i. \<not> (prPageToken req \<noteq> [] \<and> i \<le> prPageToken req))
             (concat (map (\<lambda>shard. sorted_list_of_set (idxGet (fsShardIndex f) shard)) (sfShards flt)))))))"

text \<open>A name within the namespace of a tenant.\<close>

definition sandboxIDByOwnerName :: "string \<Rightarrow> string \<Rightarrow> placementFSM \<Rightarrow> string option" where
  "sandboxIDByOwnerName ownerRef name f =
     resolveOwnerName ownerRef name
       (\<lambda>key. case fsNameIndex f key of
                None \<Rightarrow> None
              | Some i \<Rightarrow> (case fsPlacements f i of None \<Rightarrow> None | Some p \<Rightarrow> Some (i, pOwnerRef p)))"

section \<open>Pages\<close>

record PlacementPageResponse =
  ppPlacements :: "Placement list"
  ppNextPageToken :: string
  ppAuthoritative :: bool
  ppSkippedSandboxIDs :: "string list"

definition placementPageByteBudget :: int where "placementPageByteBudget = 12 * 2 ^ 20"

definition encodedPlacementSize :: "(Placement \<Rightarrow> nat option) \<Rightarrow> Placement \<Rightarrow> int" where
  "encodedPlacementSize jsonLen p =
     (case jsonLen p of None \<Rightarrow> placementPageByteBudget + 1 | Some n \<Rightarrow> int n + 1)"

text \<open>The loop that fills a page: the rows, the identifiers passed over, the identifiers it has dealt with, and whether it
  stopped before the end.\<close>

fun fillPage ::
  "(Placement \<Rightarrow> int) \<Rightarrow> (string \<Rightarrow> Placement) \<Rightarrow> int \<Rightarrow> Placement list \<Rightarrow> string list \<Rightarrow> string list \<Rightarrow> string list \<Rightarrow>
   Placement list \<times> string list \<times> string list \<times> bool" where
  "fillPage cost row budget out skipped gone [] = (out, skipped, gone, False)"
| "fillPage cost row budget out skipped gone (i # is) =
     (if cost (row i) > budget \<and> out = [] then fillPage cost row budget out (skipped @ [i]) (gone @ [i]) is
      else if cost (row i) > budget then (out, skipped, gone, True)
      else fillPage cost row (budget - cost (row i)) (out @ [row i]) skipped (gone @ [i]) is)"

definition hotRowOf :: "placementFSM \<Rightarrow> string \<Rightarrow> Placement" where
  "hotRowOf f i = cloneHotPlacement (case fsPlacements f i of None \<Rightarrow> zeroPlacement | Some p \<Rightarrow> p)"

definition pageOf :: "(Placement \<Rightarrow> nat option) \<Rightarrow> placementFSM \<Rightarrow> int \<Rightarrow> string list \<Rightarrow> PlacementPageResponse" where
  "pageOf jsonLen f limit ids =
     (let more = int (length ids) > limit;
          (out, skipped, ids, trimmed) =
            fillPage (encodedPlacementSize jsonLen) (hotRowOf f) placementPageByteBudget [] [] []
              (if more then take (nat limit) ids else ids);
          nxt = (if (more \<or> trimmed) \<and> ids \<noteq> [] then last ids else []);
          nxt = (if trimmed \<and> nxt = [] \<and> out \<noteq> [] then pSandboxID (last out) else nxt)
      in \<lparr>ppPlacements = out, ppNextPageToken = nxt, ppAuthoritative = True, ppSkippedSandboxIDs = skipped\<rparr>)"

definition placementPage ::
  "(Placement \<Rightarrow> nat option) \<Rightarrow> PlacementPageRequest \<Rightarrow> placementFSM \<Rightarrow> PlacementPageResponse option" where
  "placementPage jsonLen req0 f =
     (let req = pageNormalize req0; flt = filterNormalize (prShardFilter req)
      in if noShards flt
         then Some \<lparr>ppPlacements = [], ppNextPageToken = [], ppAuthoritative = True, ppSkippedSandboxIDs = []\<rparr>
         else map_option (pageOf jsonLen f (prLimit req))
                (pagePlacementIDsLocked (req\<lparr>prLimit := prLimit req + 1\<rparr>) flt (allShards flt) f))"

section \<open>What one page holds\<close>

lemma ascend_spec:
  assumes "\<And>i. want i = Some (w i)" "int (length ids) < limit"
  shows "ascendIDs want token limit ids is =
    Some (ids @ take (nat limit - length ids) (filter (\<lambda>i. \<not> (token \<noteq> [] \<and> i \<le> token) \<and> w i) is))"
  using assms(2)
proof (induction "is" arbitrary: ids)
  case (Cons i "is")
  show ?case
  proof (cases "\<not> (token \<noteq> [] \<and> i \<le> token) \<and> w i")
    case True
    have "nat limit - length ids = Suc (nat limit - Suc (length ids))" using Cons.prems by simp
    then show ?thesis using True Cons.IH[of "ids @ [i]"] assms(1) Cons.prems by (auto simp: not_less)
  next
    case False
    with assms(1)[of i] Cons.IH[OF Cons.prems] show ?thesis by (cases "w i") auto
  qed
qed simp

lemma keepWanted_spec: "(\<And>i. want i = Some (w i)) \<Longrightarrow> keepWanted want is = Some (filter w is)"
  by (induction "is") auto

text \<open>What a client learns about a sandbox: its row, or that the row is too wide to be sent.\<close>

definition pageEntry :: "(Placement \<Rightarrow> int) \<Rightarrow> (string \<Rightarrow> Placement) \<Rightarrow> int \<Rightarrow> string \<Rightarrow> string + Placement" where
  "pageEntry cost row budget i = (if cost (row i) > budget then Inl i else Inr (row i))"

lemma fill_spec:
  assumes "fillPage cost row budget out skipped gone is = (out', skipped', gone', trimmed)"
    and "if out = [] then budget = full else budget \<le> full" "\<And>p. cost p \<ge> 0"
  shows "\<exists>n \<le> length is. gone' = gone @ take n is \<and>
    map Inl skipped' @ map Inr out' = map Inl skipped @ map Inr out @ map (pageEntry cost row full) (take n is) \<and>
    (if trimmed then n < length is \<and> out' \<noteq> [] else n = length is)"
  using assms
proof (induction cost row budget out skipped gone "is" rule: fillPage.induct)
  case (2 cost row budget out skipped gone i "is")
  consider (skip) "cost (row i) > budget" "out = []" | (stop) "cost (row i) > budget" "out \<noteq> []" | (take) "cost (row i) \<le> budget"
    by linarith
  then show ?case
  proof cases
    case skip
    with "2.IH"(1) "2.prems" obtain n where "n \<le> length is" "gone' = (gone @ [i]) @ take n is"
      "map Inl skipped' @ map Inr out' = map Inl (skipped @ [i]) @ map Inr out @ map (pageEntry cost row full) (take n is)"
      "if trimmed then n < length is \<and> out' \<noteq> [] else n = length is" by auto
    with skip "2.prems"(2) show ?thesis by (intro exI[of _ "Suc n"]) (auto simp: pageEntry_def)
  next
    case stop
    with "2.prems"(1) show ?thesis by (intro exI[of _ 0]) auto
  next
    case take
    have "if out @ [row i] = [] then budget - cost (row i) = full else budget - cost (row i) \<le> full"
      using "2.prems"(2) "2.prems"(3)[of "row i"] by (auto split: if_splits)
    with take "2.IH"(2) "2.prems"(1,3) obtain n where "n \<le> length is" "gone' = (gone @ [i]) @ take n is"
      "map Inl skipped' @ map Inr out' = map Inl skipped @ map Inr (out @ [row i]) @ map (pageEntry cost row full) (take n is)"
      "if trimmed then n < length is \<and> out' \<noteq> [] else n = length is" by auto
    with take "2.prems"(2) show ?thesis by (intro exI[of _ "Suc n"]) (auto simp: pageEntry_def split: if_splits)
  qed
qed auto

section \<open>Which identifiers a page draws from\<close>

lemma filter_sorted_list: "finite A \<Longrightarrow> filter P (sorted_list_of_set A) = sorted_list_of_set {i \<in> A. P i}"
  for A :: "string set"
  by (rule sorted_distinct_set_unique) (auto simp: sorted_wrt_filter)

lemma sort_filter:
  fixes xs :: "string list"
  assumes "distinct xs" "set xs = A"
  shows "sort (filter P xs) = filter P (sorted_list_of_set A)"
proof (rule sorted_distinct_set_unique)
  have "finite A" using assms(2) by auto
  then show "sorted (filter P (sorted_list_of_set A))" "distinct (filter P (sorted_list_of_set A))"
    "set (sort (filter P xs)) = set (filter P (sorted_list_of_set A))" using assms(2) by (auto simp: sorted_wrt_filter)
qed (use assms(1) in simp_all)

lemma behind_token: "i \<noteq> [] \<Longrightarrow> \<not> (token \<noteq> [] \<and> i \<le> token) \<longleftrightarrow> token < i" for i token :: string
  by (cases token; cases i) (auto simp: not_le)

lemma ascendFrom_spec:
  assumes "\<And>i. want i = Some (w i)" "limit > 0" "finite tree" "[] \<notin> tree"
  shows "ascendFrom want token limit tree = Some (take (nat limit) (filter (\<lambda>i. token < i) (sorted_list_of_set {i \<in> tree. w i})))"
proof -
  have "filter (\<lambda>i. \<not> (token \<noteq> [] \<and> i \<le> token) \<and> w i) (filter (\<lambda>i. token \<le> i) (sorted_list_of_set tree)) =
      filter (\<lambda>i. token < i) (filter w (sorted_list_of_set tree))"
    unfolding filter_filter
  proof (rule filter_cong[OF refl])
    fix i assume "i \<in> set (sorted_list_of_set tree)"
    then have "i \<noteq> []" using assms(3,4) by auto
    from behind_token[OF this, of token]
    show "(token \<le> i \<and> \<not> (token \<noteq> [] \<and> i \<le> token) \<and> w i) = (w i \<and> token < i)" by (metis order.strict_implies_order)
  qed
  with ascend_spec[where want = want and w = w and ids = "[]" and limit = limit and token = token] assms(1-3) show ?thesis
    by (simp add: ascendFrom_def filter_sorted_list)
qed

text \<open>What a request lists, said of the rows and not of the indexes.\<close>

definition shardWanted :: "PlacementShardFilter \<Rightarrow> string \<Rightarrow> bool" where
  "shardWanted flt i \<longleftrightarrow> (let flt = filterNormalize flt
     in \<not> sfNone flt \<and> (sfShards flt = [] \<or> uint (fnv32a i) mod sfShardCount flt \<in> set (sfShards flt)))"

definition pageListed :: "PlacementPageRequest \<Rightarrow> placementFSM \<Rightarrow> string set" where
  "pageListed req f = {i. shardWanted (prShardFilter req) i \<and>
     (if trimSpace (prOwnerNodeID req) \<noteq> [] then i \<in> set (idsOwnedBy (trimSpace (prOwnerNodeID req)) f)
      else \<exists>p. placementGet i f = Some p \<and>
             (trimSpace (prOwnerRef req) = [] \<or> trimSpace (pOwnerRef p) = trimSpace (prOwnerRef req)))}"

definition shardCountOk :: "PlacementShardFilter \<Rightarrow> bool" where
  "shardCountOk flt \<longleftrightarrow> sfShardCount (filterNormalize flt) < 2 ^ 32"

lemma count_pos: "sfShardCount (filterNormalize flt) > 0"
  by (simp add: filterNormalize_def DefaultPlacementShardCount_def Let_def)

lemma wantShard_spec:
  assumes "shardCountOk flt" "\<not> sfNone (filterNormalize flt)"
  shows "wantShard (filterNormalize flt) (allShards (filterNormalize flt)) i = Some (shardWanted flt i)"
  using assms count_pos[of flt]
  by (auto simp: wantShard_def shardWanted_def allShards_def filterNormalize_idem PlacementShardForSandbox_def shardCountOk_def Let_def)

lemma page_trees:
  assumes "fsmOk env f"
  shows "finite (idxGet (fsOwnerIndex f) n)" "[] \<notin> idxGet (fsOwnerIndex f) n"
    "finite (idxGet (fsOwnerRefIndex f) n)" "[] \<notin> idxGet (fsOwnerRefIndex f) n"
    "finite (fsPlacementIDs f)" "[] \<notin> fsPlacementIDs f" "fsPlacementIDs f = {i. \<exists>p. placementGet i f = Some p}"
    "n \<noteq> [] \<Longrightarrow> idxGet (fsOwnerRefIndex f) n = {i. \<exists>p. placementGet i f = Some p \<and> trimSpace (pOwnerRef p) = n}"
    "idxGet (fsShardIndex f) s = {i. (\<exists>p. placementGet i f = Some p) \<and> s = uint (fnv32a i) mod 16384}"
    "placementGet [] f = None"
proof -
  have ok: "coreOk env f" "indexOk (fsPlacements f) f" using assms by (simp_all add: fsmOk_def)
  note idx = indexD[OF ok(2)]
  have fin: "finite (dom (fsPlacements f))" and row: "\<And>i p. fsPlacements f i = Some p \<Longrightarrow> i \<noteq> [] \<and> trimSpace i = i"
    using ok(1) by (auto simp: coreOk_def payloadsOk_def rowOk_def)
  have get: "(\<exists>p. placementGet i f = Some p) \<longleftrightarrow> i \<in> dom (fsPlacements f)" for i
    using get_None[of i f] by (auto simp: dom_def)
  show "finite (idxGet (fsOwnerIndex f) n)" using idx(4) by (simp add: ownersOk_def idxWf_finite)
  show "[] \<notin> idxGet (fsOwnerIndex f) n" using owners_member[OF idx(4), of "[]" n] row by blast
  show "finite (idxGet (fsOwnerRefIndex f) n)" by (rule idxExact_finite[OF idx(3)])
  show "[] \<notin> idxGet (fsOwnerRefIndex f) n" using idxExact_member[OF idx(3), of "[]" n] row by auto
  show ids: "fsPlacementIDs f = {i. \<exists>p. placementGet i f = Some p}" using idx(2) get by (auto simp: shardsOk_def)
  show "finite (fsPlacementIDs f)" "[] \<notin> fsPlacementIDs f" "placementGet [] f = None"
    using fin row idx(2) get_None[of "[]" f] by (auto simp: shardsOk_def)
  show "idxGet (fsOwnerRefIndex f) n = {i. \<exists>p. placementGet i f = Some p \<and> trimSpace (pOwnerRef p) = n}" if "n \<noteq> []"
  proof -
    have "(\<exists>p. placementGet i f = Some p \<and> trimSpace (pOwnerRef p) = n) \<longleftrightarrow> (\<exists>r. fsPlacements f i = Some r \<and> trimSpace (pOwnerRef r) = n)" for i
      by (rule get_iff_row[OF assms]) (simp add: sameKeys_def)
    with row that show ?thesis by (auto simp: idxExact_member[OF idx(3)] ownerRefKeys_def)
  qed
  show "idxGet (fsShardIndex f) s = {i. (\<exists>p. placementGet i f = Some p) \<and> s = uint (fnv32a i) mod 16384}"
    using idx(2) get by (auto simp: shardsOk_def idxExact_member shardKeys_def PlacementShardForSandbox_def DefaultPlacementShardCount_def)
qed

lemma pageListed_finite:
  assumes "fsmOk env f"
  shows "finite (pageListed req f)" "[] \<notin> pageListed req f"
proof -
  note t = page_trees(1,2)[OF assms, of "trimSpace (prOwnerNodeID req)"] page_trees(5-7,10)[OF assms]
  have "pageListed req f \<subseteq> idxGet (fsOwnerIndex f) (trimSpace (prOwnerNodeID req)) \<union> fsPlacementIDs f"
    using t by (auto simp: pageListed_def idsOwnedBy_def ownedPlacementIDsLocked_def split: if_splits)
  with t show "finite (pageListed req f)" "[] \<notin> pageListed req f" by (auto elim: finite_subset)
qed

lemma shard_lists:
  assumes "fsmOk env f" "sfShardCount (filterNormalize flt) = DefaultPlacementShardCount" "sfShards (filterNormalize flt) \<noteq> []"
    "\<not> sfNone (filterNormalize flt)"
  shows "distinct (concat (map (\<lambda>shard. sorted_list_of_set (idxGet (fsShardIndex f) shard)) (sfShards (filterNormalize flt))))"
    "set (concat (map (\<lambda>shard. sorted_list_of_set (idxGet (fsShardIndex f) shard)) (sfShards (filterNormalize flt)))) =
       {i. (\<exists>p. placementGet i f = Some p) \<and> shardWanted flt i}"
proof -
  note t = page_trees(5,7,9)[OF assms(1)]
  have fin: "finite (idxGet (fsShardIndex f) s)" for s
    by (rule finite_subset[OF _ t(1)]) (auto simp: t)
  have shard: "i \<in> idxGet (fsShardIndex f) s \<longleftrightarrow> (\<exists>p. placementGet i f = Some p) \<and> s = uint (fnv32a i) mod 16384" for i s
    by (simp add: t)
  have distinct_shards: "distinct (concat (map (\<lambda>shard. sorted_list_of_set (idxGet (fsShardIndex f) shard)) ss))" if "distinct ss" for ss
    using that shard by (induction ss) (auto simp: fin)
  have "distinct (sfShards (filterNormalize flt))"
    using assms(3) distinct_dedupShards by (auto simp: filterNormalize_def Let_def split: if_splits)
  then show "distinct (concat (map (\<lambda>shard. sorted_list_of_set (idxGet (fsShardIndex f) shard)) (sfShards (filterNormalize flt))))"
    by (rule distinct_shards)
  show "set (concat (map (\<lambda>shard. sorted_list_of_set (idxGet (fsShardIndex f) shard)) (sfShards (filterNormalize flt)))) =
       {i. (\<exists>p. placementGet i f = Some p) \<and> shardWanted flt i}"
    using assms(2-4) by (auto simp: fin shard shardWanted_def DefaultPlacementShardCount_def Let_def)
qed

lemma page_ids:
  assumes "fsmOk env f" "shardCountOk (prShardFilter req)" "\<not> sfNone (filterNormalize (prShardFilter req))" "prLimit req > 0"
  shows "pagePlacementIDsLocked req (filterNormalize (prShardFilter req)) (allShards (filterNormalize (prShardFilter req))) f =
    Some (take (nat (prLimit req)) (filter (\<lambda>i. prPageToken req < i) (sorted_list_of_set (pageListed req f))))"
proof -
  let ?flt = "filterNormalize (prShardFilter req)"
  let ?want = "wantShard ?flt (allShards ?flt)" and ?w = "shardWanted (prShardFilter req)"
  have want: "?want i = Some (?w i)" for i by (rule wantShard_spec[OF assms(2,3)])
  note tree = ascendFrom_spec[where want = ?want and w = ?w and limit = "prLimit req" and token = "prPageToken req", OF want assms(4)]
  consider (node) "trimSpace (prOwnerNodeID req) \<noteq> []" | (ref) "trimSpace (prOwnerNodeID req) = []" "trimSpace (prOwnerRef req) \<noteq> []"
    | (table) "trimSpace (prOwnerNodeID req) = []" "trimSpace (prOwnerRef req) = []" by blast
  then show ?thesis
  proof cases
    case node
    then have "pageListed req f = {i \<in> idxGet (fsOwnerIndex f) (trimSpace (prOwnerNodeID req)). ?w i}"
      using page_trees(1)[OF assms(1)] by (auto simp: pageListed_def idsOwnedBy_def ownedPlacementIDsLocked_def)
    with node tree[OF page_trees(1,2)[OF assms(1)]] show ?thesis
      by (simp add: pagePlacementIDsLocked_def pagePlacementIDsByOwnerNodeLocked_def)
  next
    case ref
    then have "pageListed req f = {i \<in> idxGet (fsOwnerRefIndex f) (trimSpace (prOwnerRef req)). ?w i}"
      using page_trees(8)[OF assms(1)] by (auto simp: pageListed_def)
    with ref tree[OF page_trees(3,4)[OF assms(1)]] show ?thesis
      by (simp add: pagePlacementIDsLocked_def pagePlacementIDsByOwnerRefLocked_def)
  next
    case table
    then have listed: "pageListed req f = {i \<in> fsPlacementIDs f. ?w i}" using page_trees(7)[OF assms(1)] by (auto simp: pageListed_def)
    show ?thesis
    proof (cases "allShards ?flt \<or> sfShardCount ?flt \<noteq> DefaultPlacementShardCount \<or> length (sfShards ?flt) > 1024")
      case True
      with table listed tree[OF page_trees(5,6)[OF assms(1)]] show ?thesis
        by (simp add: pagePlacementIDsLocked_def pagePlacementIDsFromTreeLocked_def)
    next
      case False
      let ?ids = "concat (map (\<lambda>shard. sorted_list_of_set (idxGet (fsShardIndex f) shard)) (sfShards ?flt))"
      have "sfShards ?flt \<noteq> []" using False assms(3) by (auto simp: allShards_def filterNormalize_idem Let_def)
      from shard_lists[OF assms(1) _ this assms(3)] False have ids: "distinct ?ids" "set ?ids = pageListed req f"
        using listed page_trees(7)[OF assms(1)] by auto
      have "filter (\<lambda>i. \<not> (prPageToken req \<noteq> [] \<and> i \<le> prPageToken req)) ?ids = filter (\<lambda>i. prPageToken req < i) ?ids"
        using pageListed_finite(2)[OF assms(1), of req] ids(2) by (intro filter_cong behind_token) auto
      moreover have "sort (filter (\<lambda>i. prPageToken req < i) ?ids) = filter (\<lambda>i. prPageToken req < i) (sorted_list_of_set (pageListed req f))"
        by (rule sort_filter[OF ids])
      ultimately show ?thesis using False table by (simp add: pagePlacementIDsLocked_def)
    qed
  qed
qed

section \<open>Reading every page\<close>

text \<open>What a client takes from a page: the sandboxes it was told about, and the next cursor.\<close>

definition pageSeen :: "PlacementPageResponse \<Rightarrow> (string + Placement) list \<times> string" where
  "pageSeen r = (map Inl (ppSkippedSandboxIDs r) @ map Inr (ppPlacements r), ppNextPageToken r)"

definition pageRead ::
  "(Placement \<Rightarrow> nat option) \<Rightarrow> PlacementPageRequest \<Rightarrow> placementFSM \<Rightarrow> string \<Rightarrow> (string + Placement) list \<times> string" where
  "pageRead jsonLen req f token = pageSeen (the (placementPage jsonLen (req\<lparr>prPageToken := token\<rparr>) f))"

definition pageItem :: "(Placement \<Rightarrow> nat option) \<Rightarrow> placementFSM \<Rightarrow> string \<Rightarrow> string + Placement" where
  "pageItem jsonLen f = pageEntry (encodedPlacementSize jsonLen) (hotRowOf f) placementPageByteBudget"

lemma pageNormalize_limit: "prLimit (pageNormalize req) > 0"
  by (simp add: pageNormalize_def DefaultPlacementPageLimit_def MaxPlacementPageLimit_def Let_def)

lemma pageOf_run:
  assumes "l > 0" "[] \<notin> set behind"
  shows "pageSeen (pageOf jsonLen f l (take (nat (l + 1)) behind)) = (map (pageItem jsonLen f) behind, []) \<or>
    (\<exists>n > 0. n < length behind \<and>
       pageSeen (pageOf jsonLen f l (take (nat (l + 1)) behind)) = (map (pageItem jsonLen f) (take n behind), behind ! (n - 1)))"
proof -
  let ?X = "take (nat (l + 1)) behind" and ?ids = "take (nat l) behind"
  obtain out skipped gone trimmed where fill:
    "fillPage (encodedPlacementSize jsonLen) (hotRowOf f) placementPageByteBudget [] [] [] ?ids = (out, skipped, gone, trimmed)"
    by (metis prod_cases4)
  have "encodedPlacementSize jsonLen p \<ge> 0" for p
    by (simp add: encodedPlacementSize_def placementPageByteBudget_def split: option.split)
  from fill_spec[OF fill, of placementPageByteBudget] this obtain n where
    n: "n \<le> length ?ids" "gone = take n ?ids" "map Inl skipped @ map Inr out = map (pageItem jsonLen f) (take n ?ids)"
      "if trimmed then n < length ?ids \<and> out \<noteq> [] else n = length ?ids"
    by (auto simp: pageItem_def)
  have more: "int (length ?X) > l \<longleftrightarrow> nat l < length behind" and cut: "(if nat l < length behind then take (nat l) ?X else ?X) = ?ids"
    using assms(1) by auto
  have pos: "n > 0" if "trimmed \<or> nat l < length behind" using that n assms(1) by (cases n) (auto split: if_splits)
  have last: "gone \<noteq> [] \<and> last gone = behind ! (n - 1) \<and> last gone \<noteq> []" if "n > 0"
  proof -
    have "n \<le> length behind" "gone = take n behind" using n(1,2) by simp_all
    moreover from this that have "gone \<noteq> []" by auto
    ultimately have "last gone = behind ! (n - 1)" "behind ! (n - 1) \<in> set behind"
      using that by (simp_all add: last_conv_nth min_def)
    with assms(2) \<open>gone \<noteq> []\<close> show ?thesis by metis
  qed
  have page: "pageSeen (pageOf jsonLen f l ?X) =
      (map (pageItem jsonLen f) (take n ?ids), if trimmed \<or> nat l < length behind then last gone else [])"
    unfolding pageOf_def Let_def more cut fill n(3)[symmetric] using last pos by (auto simp: pageSeen_def)
  show ?thesis
  proof (cases "trimmed \<or> nat l < length behind")
    case True
    with n have "n < length behind" "take n ?ids = take n behind" by (auto split: if_splits)
    with True pos last page show ?thesis by auto
  next
    case False
    with n page show ?thesis by simp
  qed
qed

lemma placementPage_run:
  assumes "fsmOk env f" "shardCountOk (prShardFilter req)"
  shows "\<exists>r. placementPage jsonLen (req\<lparr>prPageToken := token\<rparr>) f = Some r \<and>
    (let behind = filter (\<lambda>i. token < i) (sorted_list_of_set (pageListed req f))
     in pageSeen r = (map (pageItem jsonLen f) behind, []) \<or>
        (\<exists>n > 0. n < length behind \<and> pageSeen r = (map (pageItem jsonLen f) (take n behind), behind ! (n - 1))))"
proof (cases "sfNone (filterNormalize (prShardFilter req))")
  case True
  then show ?thesis
    by (simp add: placementPage_def pageNormalize_def filterNormalize_idem noShards_def pageSeen_def pageListed_def shardWanted_def Let_def)
next
  case False
  define l where "l = prLimit (pageNormalize req)"
  define q where "q = (pageNormalize req)\<lparr>prPageToken := token, prLimit := l + 1\<rparr>"
  define behind where "behind = filter (\<lambda>i. token < i) (sorted_list_of_set (pageListed req f))"
  have l: "l > 0" by (simp add: l_def pageNormalize_limit)
  have "shardCountOk (prShardFilter q)" "\<not> sfNone (filterNormalize (prShardFilter q))"
    using assms(2) False by (simp_all add: q_def shardCountOk_def pageNormalize_def filterNormalize_idem Let_def)
  moreover have "pageListed q f = pageListed req f"
    by (simp add: q_def pageListed_def pageNormalize_def shardWanted_def filterNormalize_idem Let_def)
  ultimately have ids: "pagePlacementIDsLocked q (filterNormalize (prShardFilter q)) (allShards (filterNormalize (prShardFilter q))) f =
      Some (take (nat (l + 1)) behind)"
    using page_ids[OF assms(1), of q] l by (simp add: q_def behind_def)
  have "pageNormalize (req\<lparr>prPageToken := token\<rparr>) = (pageNormalize req)\<lparr>prPageToken := token\<rparr>" by (simp add: pageNormalize_def Let_def)
  moreover have "\<not> noShards (filterNormalize (prShardFilter (pageNormalize req)))"
    using False by (simp add: noShards_def pageNormalize_def filterNormalize_idem Let_def)
  moreover have "(pageNormalize req)\<lparr>prPageToken := token, prLimit := l + 1\<rparr> = q" "prShardFilter (pageNormalize req) = prShardFilter q"
    by (simp_all add: q_def)
  ultimately have "placementPage jsonLen (req\<lparr>prPageToken := token\<rparr>) f = Some (pageOf jsonLen f l (take (nat (l + 1)) behind))"
    using ids by (simp add: placementPage_def l_def[symmetric] Let_def)
  moreover have "[] \<notin> set behind" by (auto simp: behind_def)
  ultimately show ?thesis using pageOf_run[OF l, of behind jsonLen f] by (simp add: behind_def[symmetric] Let_def)
qed

interpretation placementPages: keyset_pages
  "\<lambda>(env, jsonLen :: Placement \<Rightarrow> nat option, req, f). fsmOk env f \<and> shardCountOk (prShardFilter req)"
  "\<lambda>(env, jsonLen, req, f). map (\<lambda>i. (i, pageItem jsonLen f i)) (sorted_list_of_set (pageListed req f))"
  "\<lambda>(env, jsonLen, req, f). pageRead jsonLen req f"
proof (unfold_locales, goal_cases)
  case (1 s)
  then show ?case by (auto simp: comp_def)
next
  case (2 s)
  then show ?case using pageListed_finite by (force simp: image_image)
next
  case (3 s token out nxt)
  obtain env jsonLen req f where s: "s = (env, jsonLen, req, f)" by (metis prod_cases4)
  have behind: "keysBehind token (map (\<lambda>i. (i, pageItem jsonLen f i)) (sorted_list_of_set (pageListed req f))) =
      map (\<lambda>i. (i, pageItem jsonLen f i)) (filter (\<lambda>i. token < i) (sorted_list_of_set (pageListed req f)))"
    by (simp add: keysBehind_def filter_map comp_def)
  from 3 s have "fsmOk env f" "shardCountOk (prShardFilter req)" by simp_all
  from placementPage_run[OF this, of jsonLen token] 3(2) show ?case
    unfolding s prod.case behind Let_def pageRead_def by (auto simp: take_map comp_def)
qed

text \<open>Property C7. Listing placements page by page is complete. In a state reachable by admissible entries (log entries that
  pass the proposer's check, carry trimmed identifiers and are not a reservation that takes over an expired one while its
  own name is taken; not every state of the code) and for any request whose shard count fits 32 bits no page fails, and a
  client that follows the cursors comes to an end having been told exactly once, in the order of the identifiers, about
  every row the request asks for: all rows or the rows of a tenant, of all or of some shards, with the row, or, where the
  row alone is wider than a page may be, with its identifier.  A request for a node lists every placed row of the node and
  only rows the node owns that are more than a reservation.\<close>

theorem placement_pages_complete:
  assumes "addressesOk env" "reaches env f" "shardCountOk (prShardFilter req)" "card (pageListed req f) < reads"
  shows "(\<forall>token. placementPage jsonLen (req\<lparr>prPageToken := token\<rparr>) f \<noteq> None) \<and>
    walkPages reads (pageRead jsonLen req f) [] = Some (map (pageItem jsonLen f) (sorted_list_of_set (pageListed req f))) \<and>
    (trimSpace (prOwnerNodeID req) \<noteq> [] \<longrightarrow>
       {i. shardWanted (prShardFilter req) i \<and> (\<exists>p. placementGet i f = Some p \<and> pState p = PlacementStatePlaced \<and>
          pOwnerNodeID p = trimSpace (prOwnerNodeID req))} \<subseteq> pageListed req f \<and>
       pageListed req f \<subseteq> {i. shardWanted (prShardFilter req) i \<and> (\<exists>p. placementGet i f = Some p \<and> \<not> IsReserved p \<and>
          pOwnerNodeID p = trimSpace (prOwnerNodeID req))})"
proof -
  have node: "{i. shardWanted (prShardFilter req) i \<and> (\<exists>p. placementGet i f = Some p \<and> pState p = PlacementStatePlaced \<and>
          pOwnerNodeID p = trimSpace (prOwnerNodeID req))} \<subseteq> pageListed req f \<and>
       pageListed req f \<subseteq> {i. shardWanted (prShardFilter req) i \<and> (\<exists>p. placementGet i f = Some p \<and> \<not> IsReserved p \<and>
          pOwnerNodeID p = trimSpace (prOwnerNodeID req))}" if "trimSpace (prOwnerNodeID req) \<noteq> []"
    using owned_listing[OF assms(1,2) that] that unfolding pageListed_def by auto
  have ok: "fsmOk env f" by (rule reached(1)[OF assms(1,2)])
  have "length (sorted_list_of_set (pageListed req f)) = card (pageListed req f)" by simp
  with placementPages.walk_complete[of "(env, jsonLen, req, f)" reads] ok assms(3,4)
  have "walkPages reads (pageRead jsonLen req f) [] = Some (map (pageItem jsonLen f) (sorted_list_of_set (pageListed req f)))"
    by (simp add: comp_def)
  moreover have "\<forall>token. placementPage jsonLen (req\<lparr>prPageToken := token\<rparr>) f \<noteq> None"
    using placementPage_run[OF ok assms(3)] by (metis option.distinct(1))
  ultimately show ?thesis using node by blast
qed

theorem placement_pages_complete_witness:
  "walkPages 2 (pageRead (\<lambda>p. Some 100) \<lparr>prLimit = 1, prPageToken = [], prShardFilter = zeroShardFilter, prOwnerRef = [], prOwnerNodeID = []\<rparr>
     webState) [] = Some [Inr (hotRowOf webState ''sb'')]"
proof -
  let ?req = "\<lparr>prLimit = 1, prPageToken = [], prShardFilter = zeroShardFilter, prOwnerRef = [], prOwnerNodeID = []\<rparr>"
  have "placementGet i webState = None" if "i \<noteq> ''sb''" for i using that by (simp add: get_None web_rows)
  moreover have "\<exists>p. placementGet ''sb'' webState = Some p" using get_None[of "''sb''" webState] by (auto simp: web_rows)
  ultimately have listed: "pageListed ?req webState = {''sb''}"
    by (force simp: pageListed_def shardWanted_def zeroShardFilter_def filterNormalize_def)
  have "shardCountOk (prShardFilter ?req)" by (simp add: shardCountOk_def zeroShardFilter_def filterNormalize_def DefaultPlacementShardCount_def)
  from placement_pages_complete[OF plainEnv_ok webState_reaches this, of 2 "\<lambda>p. Some 100"] show ?thesis
    by (simp add: listed pageItem_def pageEntry_def encodedPlacementSize_def placementPageByteBudget_def)
qed

section \<open>The ingress ring\<close>

lemma ingress_wants:
  assumes "CanServeIngressRole role" "node \<in> set (ingressShardNodeIDs members)" "F = IngressShardFilterForNode score members node role"
    and "PlacementShardForSandbox i DefaultPlacementShardCount = Some shard"
  shows "wantShard (filterNormalize F) (allShards (filterNormalize F)) i =
    Some (length (ingressShardNodeIDs members) \<le> 10 \<or> sfShards F = [] \<or> node \<in> ioNodeID ` set (ingressOwnersForShard score members shard))"
proof (cases "length (ingressShardNodeIDs members) \<le> 10")
  case True
  from small_tier_filter[OF assms(1,2) ingress_ids_nonempty[OF assms(2)] this] assms(3)
  have "F = zeroShardFilter" by simp
  with True show ?thesis by (simp add: wantShard_def allShards_def zeroShardFilter_def filterNormalize_def)
next
  case False
  then have big: "10 < length (ingressShardNodeIDs members)" by simp
  note ne = ingress_ids_nonempty[OF assms(2)]
  have n: "set (sfShards (filterNormalize F)) = set (sfShards F)" "allShards F \<longleftrightarrow> sfShards F = []"
    using sharded_filter_normal[OF big assms(2) ne assms(1)] assms(3) by simp_all
  have count: "sfShardCount (filterNormalize F) = DefaultPlacementShardCount"
    using assms(2) ne False assms(1) by (simp add: assms(3) IngressShardFilterForNode_def ingressShardFilterForIDs_def filterNormalize_def
        MaxReplicatedIngressRouteNodes_def DefaultPlacementShardCount_def Let_def)
  have sh: "0 \<le> shard" "shard < 16384" using assms(4) by (auto simp: PlacementShard_default)
  have "shard \<in> set (sfShards F) \<longleftrightarrow> node \<in> ioNodeID ` set (ingressOwnersForShard score members shard)"
    using sharded_filter_iff[OF assms(1,2) ne big, of shard score] sh assms(3) by simp
  moreover have "allShards (filterNormalize F) = allShards F" by (simp add: allShards_def filterNormalize_idem)
  ultimately show ?thesis using False n assms(4) by (simp add: wantShard_def count)
qed

text \<open>Property C30.  Route installation and route lookup agree, from one membership view: an ingress node that the route
  lookup of a sandbox names as an owner reads that sandbox with its shard filter, and a node of a tier of at most ten, or
  one whose filter names some shard, reads exactly the sandboxes whose route names it.\<close>

theorem ingress_install_matches_lookup:
  assumes "CanServeIngressRole role" "node \<in> set (ingressShardNodeIDs members)"
    and "F = IngressShardFilterForNode score members node role" "want = wantShard (filterNormalize F) (allShards (filterNormalize F))"
  shows "\<exists>owners. IngressRouteForSandbox score members sandboxID = Some owners \<and>
    (node \<in> ioNodeID ` set owners \<longrightarrow> want sandboxID = Some True) \<and>
    (length (ingressShardNodeIDs members) \<le> 10 \<or> sfShards F \<noteq> [] \<longrightarrow> want sandboxID = Some (node \<in> ioNodeID ` set owners))"
proof -
  obtain shard where shard: "PlacementShardForSandbox sandboxID DefaultPlacementShardCount = Some shard"
    by (simp add: PlacementShard_default)
  note w = ingress_wants[OF assms(1-3) shard]
  have route: "IngressRouteForSandbox score members sandboxID = Some (ingressOwnersForShard score members shard)"
    by (simp add: IngressRouteForSandbox_def shard)
  have "node \<in> ioNodeID ` set (ingressOwnersForShard score members shard)" if "length (ingressShardNodeIDs members) \<le> 10"
    using small_tier_filter[OF assms(1,2) ingress_ids_nonempty[OF assms(2)] that] by blast
  with route w show ?thesis unfolding assms(4) by auto
qed

text \<open>A ring of eleven nodes in which the last node wins the even shards.\<close>

definition evenToK :: "int \<Rightarrow> string \<Rightarrow> nat" where
  "evenToK shard node = (if shard mod 2 = 0 \<and> node = ''k'' then 1 else 0)"

lemma evenToK_owners:
  "ioNodeID ` set (ingressOwnersForShard evenToK ringOfEleven shard) = (if shard mod 2 = 0 then {''k'', ''a''} else {''a'', ''b''})"
proof -
  have "10 < length (ingressShardNodeIDs ringOfEleven)" by (simp add: ringOfEleven_ids)
  note names = owners_names[OF this, of evenToK shard]
  have "rendezvousIngressOwnerIndexes evenToK shard (map (\<lambda>c. [c]) ''abcdefghijk'') 2 = (if shard mod 2 = 0 then [10, 0] else [0, 1])"
    by (simp add: rendezvousIngressOwnerIndexes_def rendezvousIngressTopTwo_def evenToK_def)
  then show ?thesis unfolding names ringOfEleven_ids by simp
qed

lemma evenToK_filter: "sfShards (IngressShardFilterForNode evenToK ringOfEleven ''k'' []) \<noteq> []"
proof -
  have "(0::int) \<in> set (sfShards (IngressShardFilterForNode evenToK ringOfEleven ''k'' []))"
    by (subst sharded_filter_iff) (simp_all add: CanServeIngressRole_def ringOfEleven_ids evenToK_owners)
  then show ?thesis by auto
qed

lemma two_shards:
  "PlacementShardForSandbox ''a'' DefaultPlacementShardCount = Some 10540"
  "PlacementShardForSandbox ''b'' DefaultPlacementShardCount = Some 11749"
  by code_simp+

theorem ingress_install_matches_lookup_witness:
  "wantShard (filterNormalize (IngressShardFilterForNode evenToK ringOfEleven ''k'' []))
     (allShards (filterNormalize (IngressShardFilterForNode evenToK ringOfEleven ''k'' []))) ''a'' = Some True \<and>
   wantShard (filterNormalize (IngressShardFilterForNode evenToK ringOfEleven ''k'' []))
     (allShards (filterNormalize (IngressShardFilterForNode evenToK ringOfEleven ''k'' []))) ''b'' = Some False"
proof -
  have k: "CanServeIngressRole []" "''k'' \<in> set (ingressShardNodeIDs ringOfEleven)"
    by (simp_all add: CanServeIngressRole_def ringOfEleven_ids)
  show ?thesis
    using ingress_install_matches_lookup[OF k refl refl, of evenToK "''a''"] ingress_install_matches_lookup[OF k refl refl, of evenToK "''b''"]
      evenToK_filter evenToK_owners[of 10540] evenToK_owners[of 11749]
    by (simp add: IngressRouteForSandbox_def two_shards)
qed

section \<open>The other listings\<close>

text \<open>The fallback scan finds what the indexes find, unless a node is asked for.\<close>

theorem scan_agrees_with_index:
  assumes "fsmOk env f" "shardCountOk (prShardFilter req)" "\<not> sfNone (filterNormalize (prShardFilter req))" "prLimit req > 0"
    and "trimSpace (prOwnerNodeID req) = []"
  shows "pagePlacementIDsByScanLocked req (filterNormalize (prShardFilter req)) (allShards (filterNormalize (prShardFilter req))) f =
    pagePlacementIDsLocked req (filterNormalize (prShardFilter req)) (allShards (filterNormalize (prShardFilter req))) f"
proof -
  let ?w = "shardWanted (prShardFilter req)" and ?ids = "sorted_list_of_set (dom (fsPlacements f))"
  have fin: "finite (dom (fsPlacements f))" and row: "\<And>i p. fsPlacements f i = Some p \<Longrightarrow> i \<noteq> []"
    using assms(1) by (auto simp: fsmOk_def coreOk_def payloadsOk_def rowOk_def)
  have get: "(\<exists>p. placementGet i f = Some p \<and> Q (trimSpace (pOwnerRef p))) \<longleftrightarrow> (\<exists>r. fsPlacements f i = Some r \<and> Q (trimSpace (pOwnerRef r)))" for i Q
    by (rule get_iff_row[OF assms(1)]) (simp add: sameKeys_def)
  have keeps: "scanKeeps req i p \<longleftrightarrow> prPageToken req < i \<and> (trimSpace (prOwnerRef req) = [] \<or> trimSpace (pOwnerRef p) = trimSpace (prOwnerRef req))"
    if "fsPlacements f i = Some p" for i p
    using behind_token[OF row[OF that], of "prPageToken req"] assms(5) by (auto simp: scanKeeps_def)
  have "{i \<in> dom (fsPlacements f). scanKeeps req i (the (fsPlacements f i)) \<and> ?w i} = {i \<in> pageListed req f. prPageToken req < i}"
    using keeps get[of _ "\<lambda>r. trimSpace (prOwnerRef req) = [] \<or> r = trimSpace (prOwnerRef req)"] assms(5)
    by (auto simp: pageListed_def dom_def)
  then have "filter ?w (filter (\<lambda>i. scanKeeps req i (the (fsPlacements f i))) ?ids) = filter (\<lambda>i. prPageToken req < i) (sorted_list_of_set (pageListed req f))"
    using fin pageListed_finite(1)[OF assms(1), of req] by (simp add: filter_sorted_list)
  moreover have "sort (filter (\<lambda>i. prPageToken req < i) (sorted_list_of_set (pageListed req f))) =
      filter (\<lambda>i. prPageToken req < i) (sorted_list_of_set (pageListed req f))"
    by (rule sort_filter) (simp_all add: pageListed_finite[OF assms(1)])
  ultimately show ?thesis
    by (simp add: pagePlacementIDsByScanLocked_def page_ids[OF assms(1-4)] keepWanted_spec[OF wantShard_spec[OF assms(2,3)]])
qed

text \<open>A name asked for by a tenant gives a row under the tenant's own key, or a row of the tenant under the plain name.\<close>

theorem owner_name_resolves:
  assumes "fsmOk env f" "sandboxIDByOwnerName ownerRef name f = Some i"
  shows "\<exists>p. placementGet i f = Some p \<and>
    (trimSpace (pName p) = QualifiedSandboxName (trimSpace ownerRef) (trimSpace name) \<and> trimSpace ownerRef \<noteq> [] \<or>
     trimSpace (pName p) = trimSpace name \<and> trimSpace (pOwnerRef p) = trimSpace ownerRef)"
proof -
  have ex: "uniqExact nameKeys (fsPlacements f) (fsNameIndex f)" using assms(1) indexD(1) by (auto simp: fsmOk_def)
  have name: "fsNameIndex f k = Some j \<longleftrightarrow> (\<exists>r. fsPlacements f j = Some r \<and> trimSpace (pName r) = k \<and> k \<noteq> [])" for k j
    using ex by (auto simp: uniqExact_def nameKeys_def)
  have "\<exists>r. fsPlacements f i = Some r \<and>
    (trimSpace (pName r) = QualifiedSandboxName (trimSpace ownerRef) (trimSpace name) \<and> trimSpace ownerRef \<noteq> [] \<or>
     trimSpace (pName r) = trimSpace name \<and> trimSpace (pOwnerRef r) = trimSpace ownerRef)"
    using assms(2) by (auto simp: sandboxIDByOwnerName_def resolveOwnerName_def Let_def name split: if_splits option.splits)
  then show ?thesis by (subst get_iff_row[OF assms(1)]) (auto simp: sameKeys_def)
qed

end
