(* ===== verification/Placement_Tables.thy ===== *)
theory Placement_Tables
  imports Placement_Example
begin

text \<open>
  The tables that live beside the placement rows: egress profiles, team quotas, API tokens, warm pools and identity roles.
  Their rows stay under their own keys whatever the log says, which is what makes a snapshot of them, a list of rows, the
  whole table.  The operations on placements leave these tables alone.
\<close>

section \<open>Placement operations keep the other tables\<close>

definition tables ::
  "placementFSM \<Rightarrow> (EgressProfileKey \<rightharpoonup> EgressProfileRecord) \<times> (string \<rightharpoonup> TeamQuotaRecord) \<times> (string \<rightharpoonup> TokenRecord) \<times>
     (string \<rightharpoonup> WarmPoolRecord) \<times> identityState" where
  "tables f = (egressProfiles (fsEgress f), teamQuotas (fsQuotas f), tsByID (fsTokens f), warmPools (fsWarmPools f), fsIdentity f)"

lemma tables_frame [simp]:
  "tables (f\<lparr>fsChanges := a\<rparr>) = tables f" "tables (f\<lparr>fsPlacements := b\<rparr>) = tables f" "tables (f\<lparr>fsRecovery := c\<rparr>) = tables f"
  "tables (f\<lparr>fsRecoveryStore := d\<rparr>) = tables f" "tables (f\<lparr>fsVersion := e\<rparr>) = tables f" "tables (f\<lparr>fsNameIndex := g\<rparr>) = tables f"
  "tables (f\<lparr>fsShardIndex := h\<rparr>) = tables f" "tables (f\<lparr>fsPlacementIDs := i\<rparr>) = tables f" "tables (f\<lparr>fsOwnerRefIndex := j\<rparr>) = tables f"
  "tables (f\<lparr>fsHostPortIndex := k\<rparr>) = tables f" "tables (f\<lparr>fsOwnerIndex := l\<rparr>) = tables f" "tables (f\<lparr>fsPending := m\<rparr>) = tables f"
  "tables (f\<lparr>fsDeletingIndex := n\<rparr>) = tables f" "tables (f\<lparr>fsStorage := q\<rparr>) = tables f" "tables (f\<lparr>fsArtifactCatalog := r\<rparr>) = tables f"
  "tables (f\<lparr>fsCustomHostnameIndex := s\<rparr>) = tables f" "tables (f\<lparr>fsAudit := t\<rparr>) = tables f" "tables (f\<lparr>fsVolumes := u\<rparr>) = tables f"
  "tables (f\<lparr>fsSnapshotNodeIndex := v\<rparr>) = tables f"
  by (simp_all add: tables_def)

lemma tables_helpers [simp]:
  "tables (claimShardLocked i f) = tables f" "tables (releaseShardLocked i f) = tables f"
  "tables (snd (storePlacementLocked env i p f)) = tables f" "tables (dropRow i f) = tables f"
  by (simp_all add: claimShardLocked_def releaseShardLocked_def storePlacementLocked_def dropRow_def deletePlacementRecoveryLocked_def
      recordPlacementChangeLocked_def putRow_def releaseEgressProfilesLocked_def tables_def reindex_quotas Let_def case_prod_beta storePut_def
      split: option.split)

lemma tables_storeThen [simp]:
  assumes "\<And>g. tables (k g) = tables g"
  shows "tables (snd (storeThen env i p f k)) = tables f"
proof -
  obtain e g where st: "storePlacementLocked env i p f = (e, g)" by fastforce
  with tables_helpers(3)[of env i p f] have "tables g = tables f" by simp
  with st assms show ?thesis by (simp add: storeThen_def split: option.split)
qed

lemma tables_ops [simp]:
  "tables (snd (opPlace env cmd now f)) = tables f"
  "tables (snd (opCancelReserve cmd f)) = tables f"
  "tables (snd (opBeginDelete env cmd now f)) = tables f"
  "tables (snd (opReassign env cmd now f)) = tables f"
  "tables (snd (opClaimOrphan env cmd now f)) = tables f"
  "tables (snd (opUpsertSpec env cmd now f)) = tables f"
  "tables (snd (opUpdateSecretRecipients env cmd now f)) = tables f"
  "tables (snd (opAddExposedPort env cmd now f)) = tables f"
  "tables (snd (opRemoveExposedPort env cmd now f)) = tables f"
  "tables (snd (opAddCustomDomain env cmd now f)) = tables f"
  "tables (snd (opRemoveCustomDomain env cmd now f)) = tables f"
  subgoal by (simp add: opPlace_def opPlaceRelease_def opPlaceClaim_def Let_def case_prod_beta split: option.split)
  subgoal by (simp add: opCancelReserve_def cancelRow_def Let_def split: option.split)
  subgoal by (simp add: opBeginDelete_def Let_def case_prod_beta split: option.split)
  subgoal by (simp add: opReassign_def Let_def case_prod_beta split: option.split)
  subgoal by (simp add: opClaimOrphan_def Let_def case_prod_beta split: option.split)
  subgoal by (simp add: opUpsertSpec_def Let_def case_prod_beta split: option.split)
  subgoal by (simp add: opUpdateSecretRecipients_def Let_def case_prod_beta split: option.split)
  subgoal by (simp add: opAddExposedPort_def Let_def case_prod_beta split: option.split)
  subgoal by (simp add: opRemoveExposedPort_def Let_def case_prod_beta split: option.split)
  subgoal by (simp add: opAddCustomDomain_def Let_def case_prod_beta split: option.split)
  subgoal by (simp add: opRemoveCustomDomain_def Let_def case_prod_beta split: option.split)
  done

lemma tables_reserve [simp]: "tables (snd (reservePlacementLocked env cmd now f)) = tables f"
  by (simp add: reservePlacementLocked_def reserveFresh_def reserveExpired_def reserveRetry_def Let_def split: option.split)

lemma tables_reserveAll [simp]: "tables (snd (reserveAll env now rs f)) = tables f"
proof (induction rs arbitrary: f)
  case (Cons r rs)
  obtain e g where st: "reservePlacementLocked env (commandFromReservation r) now f = (e, g)" by fastforce
  with tables_reserve[of env "commandFromReservation r" now f] have "tables g = tables f" by simp
  with st Cons.IH[of g] show ?case by (simp split: option.split)
qed simp

lemma tables_batch [simp]: "tables (snd (opReserveBatch env cmd now f)) = tables f"
  by (simp add: opReserveBatch_def split: option.split)

lemma tables_delete [simp]: "tables (snd (opDelete cmd index f)) = tables f"
  by (simp add: opDelete_def deleteIndexes_def deleteTail_def Let_def split: option.split)

lemma tables_orphanPlaced [simp]: "tables (snd (orphanPlaced env node now is f)) = tables f"
proof (induction "is" arbitrary: f)
  case (Cons i "is")
  have store: "tables g = tables f" if "storeThen env i p (f\<lparr>fsOwnerIndex := m\<rparr>) id = (e, g)" for e g p m
    using tables_storeThen[of id env i p "f\<lparr>fsOwnerIndex := m\<rparr>"] that by simp
  show ?case using Cons.IH by (auto dest!: store simp: Let_def split: option.split prod.split)
qed simp

lemma tables_orphanReserved [simp]: "tables (orphanReserved node is f) = tables f"
  by (induction "is" arbitrary: f) (auto simp: orphanReservedRow_def split: option.split)

lemma tables_orphan [simp]: "tables (snd (opOrphanOwner env cmd now f)) = tables f"
proof -
  let ?ids = "ownedPlacementIDsLocked (cmNodeID cmd) (fsOwnerIndex f)"
  obtain e g where st: "orphanPlaced env (cmNodeID cmd) now ?ids f = (e, g)" by fastforce
  with tables_orphanPlaced[of env "cmNodeID cmd" now ?ids f] have "tables g = tables f" by simp
  with st show ?thesis by (simp add: opOrphanOwner_def forgetSnapshotsOf_def Let_def split: option.split)
qed

lemma tables_placement: "tables (snd (applyPlacement env cmd index now f)) = tables f"
  by (cases "cmOp cmd") (simp_all add: applyPlacement_def)

section \<open>Rows stay under their keys\<close>

definition keyed :: "('r \<Rightarrow> bool) \<Rightarrow> ('r \<Rightarrow> 'k) \<Rightarrow> ('k \<rightharpoonup> 'r) \<Rightarrow> bool" where
  "keyed ok keyOf m \<longleftrightarrow> finite (dom m) \<and> (\<forall>k r. m k = Some r \<longrightarrow> keyOf r = k \<and> ok r)"

lemma keyed_empty [simp]: "keyed ok keyOf Map.empty"
  by (simp add: keyed_def)

lemma keyed_put [intro]: "keyed ok keyOf m \<Longrightarrow> keyOf r = k \<Longrightarrow> ok r \<Longrightarrow> keyed ok keyOf (m(k \<mapsto> r))"
  by (auto simp: keyed_def)

lemma keyed_drop [intro]: "keyed ok keyOf m \<Longrightarrow> keyed ok keyOf (m(k := None))"
  by (auto simp: keyed_def)

lemma keyed_rebuild: "keyed ok keyOf m \<Longrightarrow> rebuildRows ok keyOf (sortedRows m) = m"
  unfolding keyed_def by (intro rebuild_sortedRows) auto

definition tablesKeyed :: "placementFSM \<Rightarrow> bool" where
  "tablesKeyed f \<longleftrightarrow>
     keyed (\<lambda>_. True) epKey (egressProfiles (fsEgress f)) \<and> keyed (\<lambda>r. trimSpace (tqTeam r) \<noteq> []) tqTeam (teamQuotas (fsQuotas f)) \<and>
     keyed (\<lambda>r. tkID r \<noteq> []) tkID (tsByID (fsTokens f)) \<and> keyed (\<lambda>r. trimSpace (wpImage r) \<noteq> []) wpImage (warmPools (fsWarmPools f)) \<and>
     keyed (\<lambda>_. True) roleKey (idRoles (fsIdentity f))"

lemma tablesKeyed_same: "tables g = tables f \<Longrightarrow> tablesKeyed g = tablesKeyed f"
  by (simp add: tables_def tablesKeyed_def)

lemma keyed_profiles:
  assumes "keyed (\<lambda>_. True) epKey (egressProfiles e)"
  shows "keyed (\<lambda>_. True) epKey (egressProfiles (snd (applyPutEgressProfileLocked rows inp stamp e)))"
    "keyed (\<lambda>_. True) epKey (egressProfiles (snd (applyDeleteEgressProfileLocked inp e)))"
  using assms by (auto simp: applyPutEgressProfileLocked_def applyDeleteEgressProfileLocked_def epKey_def Let_def split: option.split)

lemma keyed_quotas:
  assumes "keyed (\<lambda>r. trimSpace (tqTeam r) \<noteq> []) tqTeam (teamQuotas q)"
  shows "keyed (\<lambda>r. trimSpace (tqTeam r) \<noteq> []) tqTeam (teamQuotas (snd (applyPutTeamQuotaLocked inp stamp q)))"
    "keyed (\<lambda>r. trimSpace (tqTeam r) \<noteq> []) tqTeam (teamQuotas (snd (applyDeleteTeamQuotaLocked inp q)))"
  using assms by (auto simp: applyPutTeamQuotaLocked_def applyDeleteTeamQuotaLocked_def Let_def split: option.split)

lemma tokenValidate_id: "tokenValidate r \<Longrightarrow> tkID r \<noteq> []"
  by (auto simp: tokenValidate_def ValidAPITokenID_def cutPrefix_def APITokenIDPrefix_def)

lemma keyed_tokens:
  assumes "keyed (\<lambda>r. tkID r \<noteq> []) tkID (tsByID s)"
  shows "keyed (\<lambda>r. tkID r \<noteq> []) tkID (tsByID (snd (applyPutAPITokenLocked v inp stamp s)))"
    "keyed (\<lambda>r. tkID r \<noteq> []) tkID (tsByID (snd (applyDeleteAPITokenLocked v i stamp s)))"
  using assms by (auto simp: applyPutAPITokenLocked_def applyDeleteAPITokenLocked_def tokenValidate_id Let_def split: option.split)

lemma keyed_pools:
  assumes "keyed (\<lambda>r. trimSpace (wpImage r) \<noteq> []) wpImage (warmPools w)"
  shows "keyed (\<lambda>r. trimSpace (wpImage r) \<noteq> []) wpImage (warmPools (snd (applyPutWarmPoolLocked v inp stamp w)))"
    "keyed (\<lambda>r. trimSpace (wpImage r) \<noteq> []) wpImage (warmPools (snd (applyDeleteWarmPoolLocked v inp w)))"
  using assms by (auto simp: applyPutWarmPoolLocked_def applyDeleteWarmPoolLocked_def Let_def split: option.split)

lemma keyed_roles:
  assumes "keyed (\<lambda>_. True) roleKey (idRoles st)"
  shows "keyed (\<lambda>_. True) roleKey (idRoles (snd (applyPutIdentityKeysLocked kid w st)))"
    "keyed (\<lambda>_. True) roleKey (idRoles (snd (applyPutIdentityRoleLocked inp stamp st)))"
    "keyed (\<lambda>_. True) roleKey (idRoles (snd (applyDeleteIdentityRoleLocked inp st)))"
  using assms
  by (auto simp: applyPutIdentityKeysLocked_def applyPutIdentityRoleLocked_def applyDeleteIdentityRoleLocked_def roleKey_def Let_def
      split: option.split)

lemma tablesKeyed_apply:
  assumes "tablesKeyed f"
  shows "tablesKeyed (snd (applyLog env cmd index now f))"
proof -
  let ?f = "f\<lparr>fsVersion := index\<rparr>"
  have ok: "tablesKeyed ?f" using assms by (simp add: tablesKeyed_def)
  have "tablesKeyed (snd (applyPlacement env cmd index now ?f))" using tablesKeyed_same[OF tables_placement] ok by blast
  moreover have "tablesKeyed (snd (applyStorage cmd ?f))"
    using ok by (cases "cmOp cmd") (simp_all add: applyStorage_def tablesKeyed_def case_prod_beta split: option.split)
  moreover have "tablesKeyed (snd (applyVolumes cmd now ?f))" using ok by (simp add: applyVolumes_def tablesKeyed_def case_prod_beta)
  moreover have "tablesKeyed (snd (applyRecords env cmd ?f))"
    using ok by (cases "cmOp cmd") (simp_all add: applyRecords_def tablesKeyed_def keyed_profiles keyed_quotas keyed_tokens keyed_pools keyed_roles case_prod_beta)
  ultimately show ?thesis by (simp add: applyLog_def Let_def)
qed

section \<open>The tables come back\<close>

lemma tokens_in_order: "keyed (\<lambda>r. tkID r \<noteq> []) tkID (tsByID s) \<Longrightarrow> tokensSnapshot s = sortedRows (tsByID s)"
proof -
  assume k: "keyed (\<lambda>r. tkID r \<noteq> []) tkID (tsByID s)"
  then have "map tkID (sortedRows (tsByID s)) = sorted_list_of_set (dom (tsByID s))"
    by (auto simp: sortedRows_def keyed_def intro!: map_idI)
  then show ?thesis unfolding tokensSnapshot_def by (intro sort_key_id_if_sorted) simp
qed

lemma tables_base:
  assumes "tablesKeyed f"
  shows "tables (restoreBase (snapshotOf f) h) = tables f"
  using assms
  by (simp add: tables_def tablesKeyed_def restoreBase_def snapshotOf_def restoreEgressProfilesLocked_def egressProfilesSnapshotLocked_def
      restoreTeamQuotasLocked_def teamQuotasSnapshotLocked_def tokensRestore_def tokens_in_order restoreWarmPoolsLocked_def
      warmPoolsSnapshotLocked_def restoreIdentityLocked_def identitySnapshotLocked_def keyed_rebuild)

lemma tables_restored:
  assumes "fsmOk env f" "blobsFor env f h" "tablesKeyed f"
  shows "tables (snd (Restore env (snapshotOf f) h)) = tables f"
proof -
  obtain g where g: "Restore env (snapshotOf f) h = (None, g)" "sameTables (restoreBase (snapshotOf f) h) g"
    using restore_ok[OF assms(1,2)] by blast
  then have "tables g = tables (restoreBase (snapshotOf f) h)" by (simp add: sameTables_def tables_def)
  with g(1) tables_base[OF assms(3)] show ?thesis by simp
qed

lemma reaches_keyed:
  assumes "addressesOk env" "reaches env f"
  shows "tablesKeyed f"
  using assms(2)
proof (induction rule: reaches.induct)
  case (reach_start changes)
  show ?case by (simp add: tablesKeyed_def newPlacementFSM_def newEgressProfileState_def newTeamQuotaState_def newAPITokenState_def
      newWarmPoolState_def identityLocked_def)
next
  case (reach_entry f cmd now index)
  then show ?case by (simp add: tablesKeyed_apply)
next
  case (reach_restore f h)
  from tables_restored[OF reaches_ok[OF assms(1) reach_restore.hyps(1)] reach_restore.hyps(2) reach_restore.IH] reach_restore.IH
  show ?case using tablesKeyed_same by blast
qed

lemma restored_names:
  assumes "fsmOk env f" "fsmOk env g" "fsPlacements g = fsPlacements f"
  shows "fsNameIndex g = fsNameIndex f"
  using assms uniqExact_unique indexD(1) unfolding fsmOk_def by metis

text \<open>Property C4. A snapshot taken in any state reachable by admissible entries (log entries that pass the proposer's check,
  carry trimmed identifiers and are not a reservation that takes over an expired one while its own name is taken; not every
  state of the code) and restored on a node whose recovery store holds the blobs the rows
  name gives the state back: Restore succeeds, every read of a placement and every name resolution answers as before, and
  so do the version, the volumes and their attachments, the drained nodes, the storage retirements and obligations, the
  snapshot locations, the artifact catalog and the tables of egress profiles, team quotas, tokens, warm pools and identity.\<close>

theorem snapshot_restore_roundtrip:
  assumes "addressesOk env" "reaches env f" "blobsFor env f h"
  shows "\<exists>g. Restore env (snapshotOf f) h = (None, g) \<and> (\<forall>i. placementGet i g = placementGet i f) \<and>
    (\<forall>name. sandboxIDByName name g = sandboxIDByName name f) \<and> fsVersion g = fsVersion f \<and>
    volumes (fsVolumes g) = volumes (fsVolumes f) \<and> volumeAttachments (fsVolumes g) = volumeAttachments (fsVolumes f) \<and>
    drainedNodes (fsStorage g) = drainedNodes (fsStorage f) \<and> storageRetirements (fsStorage g) = storageRetirements (fsStorage f) \<and>
    storageObligations (fsStorage g) = storageObligations (fsStorage f) \<and> fsSnapshotNodeIndex g = fsSnapshotNodeIndex f \<and>
    fsArtifactCatalog g = fsArtifactCatalog f \<and> tables g = tables f"
proof -
  have ok: "fsmOk env f" using reaches_ok assms by blast
  obtain g where g: "Restore env (snapshotOf f) h = (None, g)" "fsmOk env g" "fsPlacements g = fsPlacements f"
    "\<forall>i. fullPlacementLocked i g = fullPlacementLocked i f" "volumes (fsVolumes g) = volumes (fsVolumes f)"
    "volumeAttachments (fsVolumes g) = volumeAttachments (fsVolumes f)" "sameTables (restoreBase (snapshotOf f) h) g"
    "drainedNodes (fsStorage g) = drainedNodes (fsStorage f)" "storageRetirements (fsStorage g) = storageRetirements (fsStorage f)"
    "storageObligations (fsStorage g) = storageObligations (fsStorage f)" "fsSnapshotNodeIndex g = fsSnapshotNodeIndex f"
    "fsArtifactCatalog g = fsArtifactCatalog f"
    using restore_ok[OF ok assms(3)] by blast
  have "tables g = tables f" using tables_restored[OF ok assms(3) reaches_keyed[OF assms(1,2)]] g(1) by simp
  moreover have "fsVersion g = fsVersion f" using g(7) by (simp add: sameTables_def restoreBase_def snapshotOf_def)
  ultimately show ?thesis
    using g restored_names[OF ok g(2,3)] by (intro exI[of _ g]) (simp add: placementGet_def sandboxIDByName_def Let_def)
qed

text \<open>A fresh node that holds the blobs comes up with the sandbox under its name.\<close>

definition freshNode :: placementFSM where
  "freshNode = newPlacementFSM\<lparr>fsRecoveryStore := fsRecoveryStore webState\<rparr>"

theorem snapshot_restore_roundtrip_witness:
  "sandboxIDByName ''web'' (snd (Restore plainEnv (snapshotOf webState) freshNode)) = Some ''sb''"
proof -
  have "coreOk plainEnv webState" using reaches_ok[OF plainEnv_ok webState_reaches] by (simp add: fsmOk_def)
  then have blobs: "blobsFor plainEnv webState freshNode" by (simp add: blobsFor_def freshNode_def coreOk_def payloadsOk_def)
  obtain g where "Restore plainEnv (snapshotOf webState) freshNode = (None, g)" "sandboxIDByName ''web'' g = sandboxIDByName ''web'' webState"
    using snapshot_restore_roundtrip[OF plainEnv_ok webState_reaches blobs] by blast
  then show ?thesis by (simp add: sandboxIDByName_def web_names Let_def visibleChar_def)
qed

end
