(* ===== verification/Netip.thy ===== *)
theory Netip
  imports Secret_Handles "HOL-Library.Word"
begin

text \<open>
  The part of Go's \<^verbatim>\<open>net/netip\<close>, \<^verbatim>\<open>strconv\<close> and \<^verbatim>\<open>strings\<close> that the egress policy of \<^verbatim>\<open>pkg/egresspolicy\<close> stands on: IP
  addresses with their zones, prefixes, the classes of addresses, and the textual forms in both directions.  An address
  is a 32-bit or a 128-bit word; the zone of an IPv6 address is part of it, and a prefix contains no address that has one.
\<close>

unbundle bit_operations_syntax

section \<open>Characters and strings\<close>

definition isHexDigit :: "char \<Rightarrow> bool" where
  "isHexDigit c \<longleftrightarrow> isDigit c \<or> (CHR ''a'' \<le> c \<and> c \<le> CHR ''f'') \<or> (CHR ''A'' \<le> c \<and> c \<le> CHR ''F'')"

definition hexDigitVal :: "char \<Rightarrow> nat" where
  "hexDigitVal c =
     (if isDigit c then of_char c - 48 else if CHR ''a'' \<le> c then of_char c - 87 else of_char c - 55)"

definition hexVal :: "string \<Rightarrow> nat" where
  "hexVal s = foldl (\<lambda>a c. a * 16 + hexDigitVal c) 0 s"

definition decVal :: "string \<Rightarrow> nat" where
  "decVal s = foldl (\<lambda>a c. a * 10 + (of_char c - 48)) 0 s"

text \<open>\<^verbatim>\<open>strconv.ParseUint\<close> in base ten: no sign, no spaces, and a value of at most the given bits.\<close>

definition parseUint :: "nat \<Rightarrow> string \<Rightarrow> nat option" where
  "parseUint bits s =
     (if s = [] \<or> \<not> list_all isDigit s then None else if decVal s < 2 ^ bits then Some (decVal s) else None)"

definition hexChar :: "nat \<Rightarrow> char" where
  "hexChar d = char_of (if d < 10 then 48 + d else 87 + d)"

fun hexStr :: "nat \<Rightarrow> string" where
  "hexStr n = (if n < 16 then [hexChar n] else hexStr (n div 16) @ [hexChar (n mod 16)])"

declare hexStr.simps [simp del]

definition trimSet :: "string \<Rightarrow> string \<Rightarrow> string" where
  "trimSet cs s = rev (dropWhile (\<lambda>c. c \<in> set cs) (rev (dropWhile (\<lambda>c. c \<in> set cs) s)))"

text \<open>The text before and after the last occurrence of a byte.\<close>

definition cutLast :: "char \<Rightarrow> string \<Rightarrow> (string \<times> string) option" where
  "cutLast sep s = map_option (\<lambda>(a, b). (rev b, rev a)) (cutAt sep (rev s))"

section \<open>Addresses\<close>

datatype Addr = AddrZero | Addr4 "32 word" | Addr6 "128 word" string

fun addrBitLen :: "Addr \<Rightarrow> nat" where
  "addrBitLen AddrZero = 0"
| "addrBitLen (Addr4 a) = 32"
| "addrBitLen (Addr6 a z) = 128"

fun addrHasZone :: "Addr \<Rightarrow> bool" where
  "addrHasZone (Addr6 a z) = (z \<noteq> [])"
| "addrHasZone _ = False"

definition addrIs4 :: "Addr \<Rightarrow> bool" where "addrIs4 ip \<longleftrightarrow> addrBitLen ip = 32"

fun Is4In6 :: "Addr \<Rightarrow> bool" where
  "Is4In6 (Addr6 a z) \<longleftrightarrow> drop_bit 32 a = 0xffff"
| "Is4In6 _ \<longleftrightarrow> False"

fun Unmap :: "Addr \<Rightarrow> Addr" where
  "Unmap (Addr6 a z) = (if drop_bit 32 a = 0xffff then Addr4 (ucast a) else Addr6 a z)"
| "Unmap ip = ip"

definition v4byte :: "32 word \<Rightarrow> nat \<Rightarrow> nat" where
  "v4byte a k = unat (drop_bit (8 * (3 - k)) a AND 0xff)"

definition v6u16 :: "128 word \<Rightarrow> nat \<Rightarrow> nat" where
  "v6u16 a k = unat (drop_bit (16 * (7 - k)) a AND 0xffff)"

fun loopbackRange :: "Addr \<Rightarrow> bool" where
  "loopbackRange (Addr4 a) \<longleftrightarrow> v4byte a 0 = 127"
| "loopbackRange (Addr6 a z) \<longleftrightarrow> a = 1"
| "loopbackRange AddrZero \<longleftrightarrow> False"

fun multicastRange :: "Addr \<Rightarrow> bool" where
  "multicastRange (Addr4 a) \<longleftrightarrow> v4byte a 0 div 16 = 14"
| "multicastRange (Addr6 a z) \<longleftrightarrow> v6u16 a 0 div 256 = 0xff"
| "multicastRange AddrZero \<longleftrightarrow> False"

fun linkLocalRange :: "Addr \<Rightarrow> bool" where
  "linkLocalRange (Addr4 a) \<longleftrightarrow> v4byte a 0 = 169 \<and> v4byte a 1 = 254"
| "linkLocalRange (Addr6 a z) \<longleftrightarrow> v6u16 a 0 div 64 = 0xfe80 div 64"
| "linkLocalRange AddrZero \<longleftrightarrow> False"

fun linkLocalMulticastRange :: "Addr \<Rightarrow> bool" where
  "linkLocalMulticastRange (Addr4 a) \<longleftrightarrow> v4byte a 0 = 224 \<and> v4byte a 1 = 0 \<and> v4byte a 2 = 0"
| "linkLocalMulticastRange (Addr6 a z) \<longleftrightarrow> v6u16 a 0 div 256 = 0xff \<and> v6u16 a 0 mod 16 = 2"
| "linkLocalMulticastRange AddrZero \<longleftrightarrow> False"

fun privateRange :: "Addr \<Rightarrow> bool" where
  "privateRange (Addr4 a) \<longleftrightarrow>
     v4byte a 0 = 10 \<or> (v4byte a 0 = 172 \<and> v4byte a 1 div 16 = 1) \<or> (v4byte a 0 = 192 \<and> v4byte a 1 = 168)"
| "privateRange (Addr6 a z) \<longleftrightarrow> v6u16 a 0 div 512 = 0xfc00 div 512"
| "privateRange AddrZero \<longleftrightarrow> False"

text \<open>The exported predicates look at the IPv4 address inside a mapped one.\<close>

definition IsLoopback :: "Addr \<Rightarrow> bool" where "IsLoopback ip = loopbackRange (Unmap ip)"
definition IsMulticast :: "Addr \<Rightarrow> bool" where "IsMulticast ip = multicastRange (Unmap ip)"
definition IsLinkLocalUnicast :: "Addr \<Rightarrow> bool" where "IsLinkLocalUnicast ip = linkLocalRange (Unmap ip)"
definition IsLinkLocalMulticast :: "Addr \<Rightarrow> bool" where "IsLinkLocalMulticast ip = linkLocalMulticastRange (Unmap ip)"
definition IsPrivateAddr :: "Addr \<Rightarrow> bool" where "IsPrivateAddr ip = privateRange (Unmap ip)"
definition IsUnspecified :: "Addr \<Rightarrow> bool" where "IsUnspecified ip \<longleftrightarrow> ip = Addr4 0 \<or> ip = Addr6 0 []"
definition addrIsValid :: "Addr \<Rightarrow> bool" where "addrIsValid ip \<longleftrightarrow> ip \<noteq> AddrZero"

section \<open>Prefixes\<close>

text \<open>A prefix of -1 bits is Go's invalid prefix.\<close>

record Prefix =
  pfIP :: Addr
  pfBits :: int

fun withoutZone :: "Addr \<Rightarrow> Addr" where
  "withoutZone (Addr6 a z) = Addr6 a []"
| "withoutZone ip = ip"

definition PrefixFrom :: "Addr \<Rightarrow> int \<Rightarrow> Prefix" where
  "PrefixFrom ip bits =
     \<lparr>pfIP = withoutZone ip, pfBits = (if ip \<noteq> AddrZero \<and> 0 \<le> bits \<and> bits \<le> int (addrBitLen ip) then bits else -1)\<rparr>"

fun sameTop :: "nat \<Rightarrow> Addr \<Rightarrow> Addr \<Rightarrow> bool" where
  "sameTop n (Addr4 a) (Addr4 b) \<longleftrightarrow> drop_bit (32 - n) (a XOR b) = 0"
| "sameTop n (Addr6 a y) (Addr6 b z) \<longleftrightarrow> drop_bit (128 - n) (a XOR b) = 0"
| "sameTop n _ _ \<longleftrightarrow> False"

definition prefixContains :: "Prefix \<Rightarrow> Addr \<Rightarrow> bool" where
  "prefixContains p ip \<longleftrightarrow> 0 \<le> pfBits p \<and> \<not> addrHasZone ip \<and> sameTop (nat (pfBits p)) (pfIP p) ip"

fun maskAddr :: "nat \<Rightarrow> Addr \<Rightarrow> Addr" where
  "maskAddr n (Addr4 a) = Addr4 (push_bit (32 - n) (drop_bit (32 - n) a))"
| "maskAddr n (Addr6 a z) = Addr6 (push_bit (128 - n) (drop_bit (128 - n) a)) z"
| "maskAddr n AddrZero = AddrZero"

definition prefixMasked :: "Prefix \<Rightarrow> Prefix" where
  "prefixMasked p =
     (if pfBits p < 0 then \<lparr>pfIP = AddrZero, pfBits = -1\<rparr> else p\<lparr>pfIP := maskAddr (nat (pfBits p)) (pfIP p)\<rparr>)"

section \<open>Reading addresses\<close>

text \<open>The decimal fields of an IPv4 address: at most three digits up to 255, no leading zero, no empty field.\<close>

fun v4Fields :: "string \<Rightarrow> nat \<Rightarrow> nat \<Rightarrow> nat list \<Rightarrow> nat list option" where
  "v4Fields [] val digLen fs = (if length fs < 3 then None else Some (fs @ [val]))"
| "v4Fields (c # cs) val digLen fs =
     (if isDigit c then
        (if digLen = 1 \<and> val = 0 then None
         else let val' = val * 10 + (of_char c - 48) in if val' > 255 then None else v4Fields cs val' (digLen + 1) fs)
      else if c = CHR ''.'' then
        (if digLen = 0 \<or> cs = [] then None
         else if length fs = 3 then None
         else v4Fields cs 0 0 (fs @ [val]))
      else None)"

definition fieldsVal :: "nat \<Rightarrow> nat list \<Rightarrow> 'w::len word" where
  "fieldsVal width fs = foldl (\<lambda>a b. push_bit width a + of_nat b) 0 fs"

definition parseIPv4 :: "string \<Rightarrow> Addr option" where
  "parseIPv4 s = map_option (\<lambda>bs. Addr4 (fieldsVal 8 bs)) (v4Fields s 0 0 [])"

text \<open>The groups of an IPv6 address read so far and where the ellipsis stood; an IPv4 tail gives the last two groups.\<close>

function v6Loop :: "string \<Rightarrow> nat list \<Rightarrow> nat option \<Rightarrow> (string \<times> nat list \<times> nat option) option" where
  "v6Loop s gs ell =
     (if length gs \<ge> 8 then Some (s, gs, ell)
      else let hex = takeWhile isHexDigit s; rest = dropWhile isHexDigit s
           in if length hex > 4 \<or> hex = [] then None
              else if rest \<noteq> [] \<and> hd rest = CHR ''.'' then
                (if ell = None \<and> length gs \<noteq> 6 then None
                 else if length gs > 6 then None
                 else (case v4Fields s 0 0 [] of
                         Some [a, b, c, d] \<Rightarrow> Some ([], gs @ [a * 256 + b, c * 256 + d], ell)
                       | _ \<Rightarrow> None))
              else if rest = [] then Some ([], gs @ [hexVal hex], ell)
              else if hd rest \<noteq> CHR '':'' \<or> length rest = 1 then None
              else if hd (tl rest) \<noteq> CHR '':'' then v6Loop (tl rest) (gs @ [hexVal hex]) ell
              else if ell \<noteq> None then None
              else if tl (tl rest) = [] then Some ([], gs @ [hexVal hex], Some (length gs + 1))
              else v6Loop (tl (tl rest)) (gs @ [hexVal hex]) (Some (length gs + 1)))"
  by pat_completeness auto
termination
  by (relation "measure (\<lambda>(s, gs, ell). 8 - length gs)") auto

declare v6Loop.simps [simp del]

definition v6Expand :: "nat list \<Rightarrow> nat option \<Rightarrow> nat list option" where
  "v6Expand gs ell =
     (if length gs < 8 then map_option (\<lambda>e. take e gs @ replicate (8 - length gs) 0 @ drop e gs) ell
      else if ell \<noteq> None then None else Some gs)"

definition v6Addr :: "nat list \<Rightarrow> string \<Rightarrow> Addr" where
  "v6Addr gs zone = Addr6 (fieldsVal 16 gs) zone"

definition parseIPv6 :: "string \<Rightarrow> Addr option" where
  "parseIPv6 s0 =
     (case (case cutAt CHR ''%'' s0 of None \<Rightarrow> Some (s0, []) | Some (s, zone) \<Rightarrow> if zone = [] then None else Some (s, zone)) of
        None \<Rightarrow> None
      | Some (s, zone) \<Rightarrow>
          let lead = take 2 s = ''::''
          in if lead \<and> length s = 2 then Some (Addr6 0 zone)
             else (case v6Loop (if lead then drop 2 s else s) [] (if lead then Some 0 else None) of
                     Some ([], gs, ell) \<Rightarrow> map_option (\<lambda>gs. v6Addr gs zone) (v6Expand gs ell)
                   | _ \<Rightarrow> None))"

definition ParseAddr :: "string \<Rightarrow> Addr option" where
  "ParseAddr s =
     (case find (\<lambda>c. c \<in> set ''.:%'') s of
        None \<Rightarrow> None
      | Some c \<Rightarrow> if c = CHR ''.'' then parseIPv4 s else if c = CHR '':'' then parseIPv6 s else None)"

definition ParsePrefix :: "string \<Rightarrow> Prefix option" where
  "ParsePrefix s =
     (case cutLast CHR ''/'' s of
        None \<Rightarrow> None
      | Some (a, b) \<Rightarrow>
          (case ParseAddr a of
             None \<Rightarrow> None
           | Some ip \<Rightarrow>
               if addrHasZone ip then None
               else if length b > 1 \<and> (b ! 0 < CHR ''1'' \<or> b ! 0 > CHR ''9'') then None
               else (case atoi b of
                       None \<Rightarrow> None
                     | Some bits \<Rightarrow> if bits < 0 \<or> bits > int (addrBitLen ip) then None else Some (PrefixFrom ip bits))))"

definition ParseAddrPort :: "string \<Rightarrow> (Addr \<times> nat) option" where
  "ParseAddrPort s =
     (case cutLast CHR '':'' s of
        None \<Rightarrow> None
      | Some (ip, port) \<Rightarrow>
          if ip = [] \<or> port = [] then None
          else let v6 = (ip ! 0 = CHR ''['')
               in if v6 \<and> (length ip < 2 \<or> last ip \<noteq> CHR '']'') then None
                  else (case (parseUint 16 port, ParseAddr (if v6 then butlast (tl ip) else ip)) of
                          (Some n, Some a) \<Rightarrow> if v6 = addrIs4 a then None else Some (a, n)
                        | _ \<Rightarrow> None))"

section \<open>Printing addresses\<close>

definition v4Str :: "32 word \<Rightarrow> string" where
  "v4Str a = itoaNat (v4byte a 0) @ ''.'' @ itoaNat (v4byte a 1) @ ''.'' @ itoaNat (v4byte a 2) @ ''.'' @ itoaNat (v4byte a 3)"

text \<open>The first longest run of two or more zero groups is written as an ellipsis.\<close>

definition zeroRun :: "nat list \<Rightarrow> nat \<Rightarrow> nat" where
  "zeroRun gs i = length (takeWhile (\<lambda>g. g = 0) (drop i gs))"

fun longestRun :: "nat list \<Rightarrow> nat list \<Rightarrow> nat \<times> nat \<Rightarrow> nat \<times> nat" where
  "longestRun gs [] best = best"
| "longestRun gs (i # is) best = longestRun gs is (if zeroRun gs i \<ge> 2 \<and> zeroRun gs i > snd best then (i, zeroRun gs i) else best)"

definition joinWith :: "string \<Rightarrow> string list \<Rightarrow> string" where
  "joinWith sep xs = concat (map (\<lambda>(i, x). if i = 0 then x else sep @ x) (enumerate 0 xs))"

definition v6Str :: "128 word \<Rightarrow> string" where
  "v6Str a =
     (let gs = map (v6u16 a) [0..<8]; (start, n) = longestRun gs [0..<8] (0, 0)
      in if n = 0 then joinWith '':'' (map hexStr gs)
         else joinWith '':'' (map hexStr (take start gs)) @ ''::'' @ joinWith '':'' (map hexStr (drop (start + n) gs)))"

fun addrString :: "Addr \<Rightarrow> string" where
  "addrString AddrZero = ''invalid IP''"
| "addrString (Addr4 a) = v4Str a"
| "addrString (Addr6 a z) =
     (if drop_bit 32 a = 0xffff then ''::ffff:'' @ v4Str (ucast a) else v6Str a) @ (if z = [] then [] else CHR ''%'' # z)"

definition prefixString :: "Prefix \<Rightarrow> string" where
  "prefixString p = (if pfBits p < 0 then ''invalid Prefix'' else addrString (pfIP p) @ ''/'' @ itoa (pfBits p))"

end
