(* ===== verification/Egress_Glob.thy ===== *)
theory Egress_Glob
  imports Prelude
begin

text \<open>
  The matchers behind the method and path rules of an egress policy (\<^verbatim>\<open>matchSegment\<close>, \<^verbatim>\<open>matchPathGlob\<close> and
  \<^verbatim>\<open>validPathGlob\<close> of \<^verbatim>\<open>pkg/egresspolicy/rules.go\<close>), next to the reference definition of what a pattern means.
  Go's \<^verbatim>\<open>strings.Split\<close> by a single byte is \<^verbatim>\<open>splitOn\<close>.
\<close>

section \<open>Splitting\<close>

fun splitOn :: "char \<Rightarrow> string \<Rightarrow> string list" where
  "splitOn sep [] = [[]]"
| "splitOn sep (c # cs) = (if c = sep then [] # splitOn sep cs else (c # hd (splitOn sep cs)) # tl (splitOn sep cs))"

lemma splitOn_ne [simp]: "splitOn sep s \<noteq> []"
  by (cases s) simp_all

lemma splitOn_clean: "x \<in> set (splitOn sep s) \<Longrightarrow> sep \<notin> set x"
proof (induction s arbitrary: x)
  case (Cons c cs)
  have "hd (splitOn sep cs) \<in> set (splitOn sep cs)" "set (tl (splitOn sep cs)) \<subseteq> set (splitOn sep cs)"
    by (simp_all add: list.set_sel(2) subsetI)
  with Cons show ?case by (auto split: if_splits)
qed simp

section \<open>What a pattern means\<close>

text \<open>Within a segment a star stands for any run of characters and every other character for itself.\<close>

fun segGlob :: "string \<Rightarrow> string \<Rightarrow> bool" where
  "segGlob [] s \<longleftrightarrow> s = []"
| "segGlob (c # p) s \<longleftrightarrow>
     (if c = CHR ''*'' then \<exists>k \<le> length s. segGlob p (drop k s)
      else s \<noteq> [] \<and> hd s = c \<and> segGlob p (tl s))"

text \<open>Between segments a double star stands for any number of whole segments.\<close>

fun pathGlob :: "string list \<Rightarrow> string list \<Rightarrow> bool" where
  "pathGlob [] xs \<longleftrightarrow> xs = []"
| "pathGlob (p # ps) xs \<longleftrightarrow>
     (if p = ''**'' then \<exists>k \<le> length xs. pathGlob ps (drop k xs)
      else xs \<noteq> [] \<and> segGlob p (hd xs) \<and> pathGlob ps (tl xs))"

section \<open>One segment\<close>

text \<open>The loop of \<^verbatim>\<open>matchSegment\<close>: \<^verbatim>\<open>star\<close> is the last star passed (the source's -1 is \<^verbatim>\<open>None\<close>) and \<^verbatim>\<open>mark\<close> where the text
  stood when its run was last extended.\<close>

function segmentLoop :: "string \<Rightarrow> string \<Rightarrow> nat \<Rightarrow> nat \<Rightarrow> nat option \<Rightarrow> nat \<Rightarrow> bool" where
  "segmentLoop p s pi si star mark =
     (if si < length s then
        (if pi < length p \<and> p ! pi = CHR ''*'' then segmentLoop p s (pi + 1) si (Some pi) si
         else if pi < length p \<and> p ! pi = s ! si then segmentLoop p s (pi + 1) (si + 1) star mark
         else (case star of
                 Some st \<Rightarrow> segmentLoop p s (st + 1) (mark + 1) star (mark + 1)
               | None \<Rightarrow> False))
      else dropWhile (\<lambda>c. c = CHR ''*'') (drop pi p) = [])"
  by pat_completeness auto
termination
  by (relation "measures [\<lambda>(p, s, pi, si, star, mark). if si < mark then 1 else 0,
        \<lambda>(p, s, pi, si, star, mark). length s - mark, \<lambda>(p, s, pi, si, star, mark). length p - pi]") auto

declare segmentLoop.simps [simp del]

definition matchSegment :: "string \<Rightarrow> string \<Rightarrow> bool" where
  "matchSegment p s = segmentLoop p s 0 0 None 0"

lemma segGlob_literal:
  "CHR ''*'' \<notin> set w \<Longrightarrow> segGlob (w @ q) s \<longleftrightarrow> take (length w) s = w \<and> segGlob q (drop (length w) s)"
proof (induction w arbitrary: s)
  case (Cons c w)
  then show ?case by (cases s) auto
qed simp

lemma segGlob_Nil: "segGlob p [] \<longleftrightarrow> dropWhile (\<lambda>c. c = CHR ''*'') p = []"
  by (induction p) auto

text \<open>What the loop has seen: since its last star it has matched a run of literal characters.\<close>

definition starOk :: "string \<Rightarrow> string \<Rightarrow> nat \<Rightarrow> nat \<Rightarrow> nat option \<Rightarrow> nat \<Rightarrow> bool" where
  "starOk p s pi si star mark \<longleftrightarrow>
     (\<forall>st. star = Some st \<longrightarrow>
        (\<exists>w. CHR ''*'' \<notin> set w \<and> drop (Suc st) p = w @ drop pi p \<and> si = mark + length w \<and> drop mark s = w @ drop si s))"

text \<open>What it will answer: the rest matches here, or the star's run can be extended so that it does.\<close>

definition meets :: "string \<Rightarrow> string \<Rightarrow> nat \<Rightarrow> nat \<Rightarrow> nat option \<Rightarrow> nat \<Rightarrow> bool" where
  "meets p s pi si star mark \<longleftrightarrow>
     segGlob (drop pi p) (drop si s) \<or>
     (\<exists>st k. star = Some st \<and> mark < k \<and> k \<le> length s \<and> segGlob (drop (Suc st) p) (drop k s))"

lemma later_run:
  assumes "starOk p s pi si (Some st) mark" "segGlob (drop (Suc st) p) (drop k s)" "mark < k" "k \<le> length s"
  shows "\<exists>j. si < j \<and> j \<le> length s \<and> segGlob (drop pi p) (drop j s)"
proof -
  obtain w where w: "CHR ''*'' \<notin> set w" "drop (Suc st) p = w @ drop pi p" "si = mark + length w"
    using assms(1) by (auto simp: starOk_def)
  from assms(2) w(1,2) have *: "take (length w) (drop k s) = w" "segGlob (drop pi p) (drop (k + length w) s)"
    by (simp_all add: segGlob_literal add.commute)
  from arg_cong[OF *(1), of length] assms(4) have "k + length w \<le> length s" by simp
  with * w(3) assms(3) show ?thesis by (intro exI[of _ "k + length w"]) simp
qed

lemma segGlob_star: "segGlob (CHR ''*'' # p) (drop i s) \<longleftrightarrow> (\<exists>k. i \<le> k \<and> k \<le> length s \<and> segGlob p (drop k s))" if "i \<le> length s"
proof
  assume "segGlob (CHR ''*'' # p) (drop i s)"
  then obtain k where "k \<le> length s - i" "segGlob p (drop (i + k) s)" by (auto simp: add.commute)
  with that show "\<exists>k. i \<le> k \<and> k \<le> length s \<and> segGlob p (drop k s)" by (intro exI[of _ "i + k"]) simp
next
  assume "\<exists>k. i \<le> k \<and> k \<le> length s \<and> segGlob p (drop k s)"
  then obtain k where "i \<le> k" "k \<le> length s" "segGlob p (drop k s)" by blast
  then show "segGlob (CHR ''*'' # p) (drop i s)" by (auto intro!: exI[of _ "k - i"])
qed

lemma meets_star:
  assumes "starOk p s pi si star mark" "si < length s" "pi < length p" "p ! pi = CHR ''*''"
  shows "meets p s (pi + 1) si (Some pi) si = meets p s pi si star mark" "starOk p s (pi + 1) si (Some pi) si"
proof -
  have d: "drop pi p = CHR ''*'' # drop (Suc pi) p" using assms by (metis Cons_nth_drop_Suc)
  have "meets p s (pi + 1) si (Some pi) si \<longleftrightarrow> (\<exists>k. si \<le> k \<and> k \<le> length s \<and> segGlob (drop (Suc pi) p) (drop k s))"
    using assms(2) by (auto simp: meets_def le_less)
  also have "\<dots> \<longleftrightarrow> segGlob (drop pi p) (drop si s)"
    using segGlob_star[of si s "drop (Suc pi) p"] assms(2) unfolding d by simp
  also have "\<dots> \<longleftrightarrow> meets p s pi si star mark"
  proof -
    have "segGlob (drop pi p) (drop si s)" if "star = Some st" "mark < k" "k \<le> length s" "segGlob (drop (Suc st) p) (drop k s)" for st k
    proof -
      from later_run[OF assms(1)[unfolded that(1)] that(4,2,3)] obtain j where
        j: "si < j" "j \<le> length s" "segGlob (drop pi p) (drop j s)" by blast
      then have "\<exists>k. j \<le> k \<and> k \<le> length s \<and> segGlob (drop (Suc pi) p) (drop k s)"
        using segGlob_star[of j s "drop (Suc pi) p"] by (simp add: d del: segGlob.simps)
      with j(1) have "\<exists>k. si \<le> k \<and> k \<le> length s \<and> segGlob (drop (Suc pi) p) (drop k s)" using le_trans less_imp_le by blast
      then show ?thesis using segGlob_star[of si s "drop (Suc pi) p"] assms(2) by (simp add: d del: segGlob.simps)
    qed
    then show ?thesis by (auto simp: meets_def simp del: segGlob.simps)
  qed
  finally show "meets p s (pi + 1) si (Some pi) si = meets p s pi si star mark" .
  show "starOk p s (pi + 1) si (Some pi) si" by (auto simp: starOk_def)
qed

lemma meets_literal:
  assumes "starOk p s pi si star mark" "si < length s" "pi < length p" "p ! pi = s ! si" "p ! pi \<noteq> CHR ''*''"
  shows "meets p s (pi + 1) (si + 1) star mark = meets p s pi si star mark" "starOk p s (pi + 1) (si + 1) star mark"
proof -
  have d: "drop pi p = s ! si # drop (Suc pi) p" "drop si s = s ! si # drop (Suc si) s"
    using assms by (metis Cons_nth_drop_Suc)+
  then show "meets p s (pi + 1) (si + 1) star mark = meets p s pi si star mark" using assms(4,5) by (auto simp: meets_def)
  show "starOk p s (pi + 1) (si + 1) star mark"
    unfolding starOk_def
  proof (intro allI impI)
    fix st assume "star = Some st"
    with assms(1) obtain w where "CHR ''*'' \<notin> set w" "drop (Suc st) p = w @ drop pi p" "si = mark + length w" "drop mark s = w @ drop si s"
      by (auto simp: starOk_def)
    with d assms(4,5) show "\<exists>w. CHR ''*'' \<notin> set w \<and> drop (Suc st) p = w @ drop (pi + 1) p \<and> si + 1 = mark + length w \<and> drop mark s = w @ drop (si + 1) s"
      by (intro exI[of _ "w @ [s ! si]"]) auto
  qed
qed

lemma meets_mismatch:
  assumes "starOk p s pi si star mark" "si < length s" "\<not> (pi < length p \<and> p ! pi = CHR ''*'')" "\<not> (pi < length p \<and> p ! pi = s ! si)"
  shows "star = None \<Longrightarrow> \<not> meets p s pi si star mark"
    and "star = Some st \<Longrightarrow> meets p s (st + 1) (mark + 1) star (mark + 1) = meets p s pi si star mark"
    and "star = Some st \<Longrightarrow> starOk p s (st + 1) (mark + 1) star (mark + 1)"
    and "star = Some st \<Longrightarrow> mark + 1 \<le> length s"
proof -
  have here: "\<not> segGlob (drop pi p) (drop si s)"
  proof (cases "pi < length p")
    case True
    then have "drop pi p = p ! pi # drop (Suc pi) p" by (metis Cons_nth_drop_Suc)
    with True assms show ?thesis by (simp add: hd_drop_conv_nth)
  qed (use assms(2) in simp)
  then show "star = None \<Longrightarrow> \<not> meets p s pi si star mark" by (simp add: meets_def)
  assume st: "star = Some st"
  then show m: "mark + 1 \<le> length s" using assms(1,2) by (auto simp: starOk_def)
  have "(\<exists>k. mark < k \<and> k \<le> length s \<and> segGlob (drop (Suc st) p) (drop k s)) \<longleftrightarrow>
      segGlob (drop (Suc st) p) (drop (Suc mark) s) \<or> (\<exists>k. Suc mark < k \<and> k \<le> length s \<and> segGlob (drop (Suc st) p) (drop k s))"
    using m by (metis Suc_eq_plus1 Suc_lessI lessI less_trans)
  with here show "meets p s (st + 1) (mark + 1) star (mark + 1) = meets p s pi si star mark" by (simp add: meets_def st)
  show "starOk p s (st + 1) (mark + 1) star (mark + 1)" by (auto simp: starOk_def st)
qed

lemma meets_end:
  assumes "starOk p s pi si star mark" "si = length s"
  shows "meets p s pi si star mark \<longleftrightarrow> dropWhile (\<lambda>c. c = CHR ''*'') (drop pi p) = []"
proof -
  have "\<not> (mark < k \<and> k \<le> length s \<and> segGlob (drop (Suc st) p) (drop k s))" if "star = Some st" for st k
    using later_run[of p s pi si st mark k] assms that by auto
  then show ?thesis by (auto simp: meets_def segGlob_Nil assms(2))
qed

lemma segmentLoop_meets:
  assumes "starOk p s pi si star mark" "si \<le> length s"
  shows "segmentLoop p s pi si star mark = meets p s pi si star mark"
  using assms
proof (induction p s pi si star mark rule: segmentLoop.induct)
  case (1 p s pi si star mark)
  note step = segmentLoop.simps[of p s pi si star mark]
  show ?case
  proof (cases "si < length s")
    case False
    with "1.prems" step meets_end[OF "1.prems"(1)] show ?thesis by simp
  next
    case lt: True
    consider (star) "pi < length p" "p ! pi = CHR ''*''" | (lit) "pi < length p" "p ! pi = s ! si" "p ! pi \<noteq> CHR ''*''"
      | (miss) "\<not> (pi < length p \<and> p ! pi = CHR ''*'')" "\<not> (pi < length p \<and> p ! pi = s ! si)" by blast
    then show ?thesis
    proof cases
      case star
      then show ?thesis using "1.IH"(1)[OF lt] meets_star[OF "1.prems"(1) lt star] lt step "1.prems"(2) by simp
    next
      case lit
      then show ?thesis using "1.IH"(2)[OF lt] meets_literal[OF "1.prems"(1) lt lit] lt step by simp
    next
      case miss
      note m = meets_mismatch[OF "1.prems"(1) lt miss]
      show ?thesis
      proof (cases star)
        case (Some st)
        then show ?thesis using "1.IH"(3)[OF lt miss Some] m(2-4)[OF Some] lt step miss by auto
      qed (use m(1) step lt miss in auto)
    qed
  qed
qed

lemma matchSegment_glob: "matchSegment p s = segGlob p s"
  unfolding matchSegment_def by (subst segmentLoop_meets) (simp_all add: starOk_def meets_def)

section \<open>A path\<close>

definition validPathGlob :: "string \<Rightarrow> bool" where
  "validPathGlob p = list_all (\<lambda>seg. sublist ''**'' seg \<longrightarrow> seg = ''**'') (splitOn CHR ''/'' (tl p))"

text \<open>One pattern segment of \<^verbatim>\<open>matchPathGlob\<close>: from the prefixes of the path the pattern reached so far to those it reaches
  with this segment.\<close>

function reachLoop :: "string \<Rightarrow> string list \<Rightarrow> bool list \<Rightarrow> bool list \<Rightarrow> nat \<Rightarrow> bool list" where
  "reachLoop p xs reach nxt j =
     (if j > length xs then nxt
      else if \<not> reach ! j then reachLoop p xs reach nxt (j + 1)
      else if p = ''**'' then map (\<lambda>k. k \<ge> j \<or> nxt ! k) [0..<length xs + 1]
      else reachLoop p xs reach (if j < length xs \<and> matchSegment p (xs ! j) then nxt[j + 1 := True] else nxt) (j + 1))"
  by pat_completeness auto
termination
  by (relation "measure (\<lambda>(p, xs, reach, nxt, j). Suc (length xs) - j)") auto

declare reachLoop.simps [simp del]

fun reachAll :: "string list \<Rightarrow> string list \<Rightarrow> bool list \<Rightarrow> bool list" where
  "reachAll [] xs reach = reach"
| "reachAll (p # ps) xs reach = reachAll ps xs (reachLoop p xs reach (replicate (length xs + 1) False) 0)"

definition matchPathGlob :: "string \<Rightarrow> string \<Rightarrow> bool" where
  "matchPathGlob pattern path =
     (let ps = splitOn CHR ''/'' (tl pattern); xs = splitOn CHR ''/'' (tl path)
      in reachAll ps xs ((replicate (length xs + 1) False)[0 := True]) ! length xs)"

lemma reachLoop_reach:
  assumes "length nxt = Suc (length xs)" "k \<le> length xs"
  shows "length (reachLoop p xs reach nxt j) = Suc (length xs) \<and>
    (reachLoop p xs reach nxt j ! k \<longleftrightarrow>
       nxt ! k \<or> (if p = ''**'' then \<exists>i. j \<le> i \<and> i \<le> k \<and> reach ! i
                 else k > 0 \<and> j \<le> k - 1 \<and> reach ! (k - 1) \<and> matchSegment p (xs ! (k - 1))))"
  using assms
proof (induction p xs reach nxt j rule: reachLoop.induct)
  case (1 p xs reach nxt j)
  note step = reachLoop.simps[of p xs reach nxt j]
  consider (over) "j > length xs" | (no) "j \<le> length xs" "\<not> reach ! j" | (dbl) "j \<le> length xs" "reach ! j" "p = ''**''"
    | (seg) "j \<le> length xs" "reach ! j" "p \<noteq> ''**''" by linarith
  then show ?case
  proof cases
    case over
    with "1.prems" step show ?thesis by auto
  next
    case no
    have "(\<exists>i\<ge>Suc j. i \<le> k \<and> reach ! i) = (\<exists>i\<ge>j. i \<le> k \<and> reach ! i)" using no(2) by (metis Suc_leD Suc_leI le_neq_implies_less)
    moreover have "(Suc j \<le> k - 1 \<and> reach ! (k - 1)) = (j \<le> k - 1 \<and> reach ! (k - 1))" using no(2) by (metis Suc_leD Suc_leI le_neq_implies_less)
    ultimately show ?thesis using "1.IH"(1)[OF _ no(2) "1.prems"] no step by auto
  next
    case dbl
    with "1.prems" step show ?thesis by (auto simp del: upt_Suc)
  next
    case seg
    let ?n = "if j < length xs \<and> matchSegment p (xs ! j) then nxt[j + 1 := True] else nxt"
    have "length ?n = Suc (length xs)" using "1.prems" by simp
    moreover have "?n ! k \<longleftrightarrow> nxt ! k \<or> (k > 0 \<and> j = k - 1 \<and> matchSegment p (xs ! (k - 1)))"
      using "1.prems" by (auto simp: nth_list_update)
    moreover have "j \<le> k - 1 \<longleftrightarrow> j = k - 1 \<or> Suc j \<le> k - 1" by auto
    ultimately show ?thesis using "1.IH"(2) seg "1.prems"(2) step by auto
  qed
qed

lemma pathGlob_swap:
  "(\<exists>k \<le> length xs. \<exists>m \<le> length xs - k. P (take m (drop k xs))) \<longleftrightarrow> (\<exists>m \<le> length xs. \<exists>k \<le> m. P (drop k (take m xs)))"
proof
  assume "\<exists>k \<le> length xs. \<exists>m \<le> length xs - k. P (take m (drop k xs))"
  then obtain k m where "k \<le> length xs" "m \<le> length xs - k" "P (take m (drop k xs))" by blast
  then show "\<exists>m \<le> length xs. \<exists>k \<le> m. P (drop k (take m xs))"
    by (intro exI[of _ "k + m"] conjI exI[of _ k]) (simp_all add: drop_take)
next
  assume "\<exists>m \<le> length xs. \<exists>k \<le> m. P (drop k (take m xs))"
  then obtain k m where "m \<le> length xs" "k \<le> m" "P (drop k (take m xs))" by blast
  then show "\<exists>k \<le> length xs. \<exists>m \<le> length xs - k. P (take m (drop k xs))"
    by (intro exI[of _ k] conjI exI[of _ "m - k"]) (simp_all add: drop_take)
qed

lemma pathGlob_snoc:
  "pathGlob (ps @ [p]) xs \<longleftrightarrow>
     (if p = ''**'' then \<exists>k \<le> length xs. pathGlob ps (take k xs)
      else xs \<noteq> [] \<and> pathGlob ps (butlast xs) \<and> segGlob p (last xs))"
proof (induction ps arbitrary: xs)
  case Nil
  show ?case by (cases xs) (auto simp: butlast_conv_take)
next
  case (Cons q ps)
  show ?case
  proof (cases "q = ''**''")
    case False
    show ?thesis
    proof (cases xs)
      case (Cons x ys)
      then show ?thesis
      proof (cases "p = ''**''")
        case True
        have "(\<exists>k \<le> Suc (length ys). pathGlob (q # ps) (take k (x # ys))) \<longleftrightarrow> segGlob q x \<and> (\<exists>k \<le> length ys. pathGlob ps (take k ys))"
        proof
          assume "\<exists>k \<le> Suc (length ys). pathGlob (q # ps) (take k (x # ys))"
          then obtain k where "k \<le> Suc (length ys)" "pathGlob (q # ps) (take k (x # ys))" by blast
          with False show "segGlob q x \<and> (\<exists>k \<le> length ys. pathGlob ps (take k ys))" by (cases k) auto
        next
          assume "segGlob q x \<and> (\<exists>k \<le> length ys. pathGlob ps (take k ys))"
          then obtain k where "segGlob q x" "k \<le> length ys" "pathGlob ps (take k ys)" by blast
          with False show "\<exists>k \<le> Suc (length ys). pathGlob (q # ps) (take k (x # ys))" by (intro exI[of _ "Suc k"]) simp
        qed
        with True Cons False Cons.IH[of ys] show ?thesis by simp
      qed (use False Cons.IH[of ys] Cons in auto)
    qed (use False in auto)
  next
    case True
    show ?thesis
    proof (cases "p = ''**''")
      case dbl: True
      have "pathGlob ((q # ps) @ [p]) xs \<longleftrightarrow> (\<exists>k \<le> length xs. \<exists>m \<le> length xs - k. pathGlob ps (take m (drop k xs)))"
        using True dbl by (simp add: Cons.IH[unfolded dbl])
      also have "\<dots> \<longleftrightarrow> (\<exists>m \<le> length xs. \<exists>k \<le> m. pathGlob ps (drop k (take m xs)))" by (rule pathGlob_swap)
      also have "\<dots> \<longleftrightarrow> (\<exists>m \<le> length xs. pathGlob (q # ps) (take m xs))" using True by (intro arg_cong[of _ _ Ex] ext) (auto intro: le_trans)
      finally show ?thesis using dbl by simp
    next
      case seg: False
      have "pathGlob ((q # ps) @ [p]) xs \<longleftrightarrow> (\<exists>k \<le> length xs. k < length xs \<and> pathGlob ps (drop k (butlast xs)) \<and> segGlob p (last xs))"
        using True seg by (auto simp: Cons.IH last_drop butlast_drop not_le intro!: arg_cong[of _ _ Ex] ext)
      also have "\<dots> \<longleftrightarrow> xs \<noteq> [] \<and> (\<exists>k \<le> length xs - 1. pathGlob ps (drop k (butlast xs))) \<and> segGlob p (last xs)"
        by (cases xs) (auto simp: less_Suc_eq_le intro: le_SucI)
      finally show ?thesis using True seg by simp
    qed
  qed
qed

lemma pathGlob_snoc_take:
  assumes "j \<le> length xs"
  shows "pathGlob (ps @ [p]) (take j xs) \<longleftrightarrow>
    (if p = ''**'' then \<exists>i \<le> j. pathGlob ps (take i xs) else j > 0 \<and> pathGlob ps (take (j - 1) xs) \<and> matchSegment p (xs ! (j - 1)))"
proof (cases "p = ''**''")
  case True
  then show ?thesis using assms pathGlob_snoc[of ps p "take j xs"] by (auto simp: min_def)
next
  case False
  have "last (take j xs) = xs ! (j - 1)" if "j > 0" using that assms by (subst last_conv_nth) (auto simp: min_def)
  moreover have "butlast (take j xs) = take (j - 1) xs" using assms by (simp add: butlast_take)
  moreover have "take j xs \<noteq> [] \<longleftrightarrow> j > 0" using assms by (cases xs) auto
  ultimately show ?thesis using False by (auto simp: pathGlob_snoc matchSegment_glob)
qed

lemma reachAll_prefix:
  assumes "length reach = Suc (length xs)" "\<And>j. j \<le> length xs \<Longrightarrow> reach ! j \<longleftrightarrow> pathGlob done (take j xs)" "k \<le> length xs"
  shows "reachAll ps xs reach ! k \<longleftrightarrow> pathGlob (done @ ps) (take k xs)"
  using assms
proof (induction ps xs reach arbitrary: "done" rule: reachAll.induct)
  case (2 p ps xs reach)
  let ?n = "replicate (length xs + 1) False"
  let ?r = "reachLoop p xs reach ?n 0"
  have r: "?r ! j \<longleftrightarrow> pathGlob (done @ [p]) (take j xs)" if "j \<le> length xs" for j
  proof -
    have "?r ! j \<longleftrightarrow> (if p = ''**'' then \<exists>i \<le> j. reach ! i else j > 0 \<and> reach ! (j - 1) \<and> matchSegment p (xs ! (j - 1)))"
      using reachLoop_reach[of ?n xs j p reach 0] that by (simp del: replicate_Suc replicate_add)
    also have "(\<exists>i \<le> j. reach ! i) \<longleftrightarrow> (\<exists>i \<le> j. pathGlob done (take i xs))" using that "2.prems"(2) by (meson le_trans)
    also have "reach ! (j - 1) \<longleftrightarrow> pathGlob done (take (j - 1) xs)" using that "2.prems"(2)[of "j - 1"] by simp
    also note pathGlob_snoc_take[OF that, symmetric]
    finally show ?thesis .
  qed
  have "length ?r = Suc (length xs)" using reachLoop_reach[of ?n xs 0] by simp
  from "2.IH"[of "done @ [p]", OF this r "2.prems"(3)] show ?case by simp
qed simp

lemma matchPathGlob_segments:
  "matchPathGlob pattern path \<longleftrightarrow> pathGlob (splitOn CHR ''/'' (tl pattern)) (splitOn CHR ''/'' (tl path))"
proof -
  let ?xs = "splitOn CHR ''/'' (tl path)"
  have "(replicate (length ?xs + 1) False)[0 := True] ! j \<longleftrightarrow> pathGlob [] (take j ?xs)" if "j \<le> length ?xs" for j
    using that by (cases j) auto
  from reachAll_prefix[OF _ this, of "length ?xs"] show ?thesis by (simp add: matchPathGlob_def Let_def)
qed

section \<open>The matchers are the patterns' meaning\<close>

text \<open>Property C21. The two matchers compute what patterns mean: the single-backtrack loop over one segment agrees with the reference
  meaning of stars on every pattern and text, and the table of reachable prefixes over a whole path agrees with the
  reference meaning of double stars, so both always end and neither admits nor refuses a path by accident.\<close>

theorem glob_matchers_correct:
  "(matchSegment p s \<longleftrightarrow> segGlob p s) \<and>
   (matchPathGlob pattern path \<longleftrightarrow> pathGlob (splitOn CHR ''/'' (tl pattern)) (splitOn CHR ''/'' (tl path)))"
  by (simp add: matchSegment_glob matchPathGlob_segments)

end
