(* ===== verification/Egress_Entry.thy ===== *)
theory Egress_Entry
  imports Netip Egress_Glob
begin

text \<open>
  The grammar of egress policies (\<^verbatim>\<open>pkg/egresspolicy/entry.go\<close>): an entry of an allow or deny list is a network, an exact
  hostname or a wildcard, the last two with an optional port.  The IDNA mapping of \<^verbatim>\<open>golang.org/x/net/idna\<close>, the table of
  public suffixes, the lower-casing of text that is not ASCII and the hexadecimal SHA-256 digest are parameters, collected
  in \<^verbatim>\<open>egressEnv\<close>; the texts of the error messages are constructors.
\<close>

record egressEnv =
  eeToLower :: "string \<Rightarrow> string"
  eeToASCII :: "string \<Rightarrow> string option"
  eePublicSuffix :: "string \<Rightarrow> string \<times> bool"
  eeSHA256 :: "string \<Rightarrow> string"

section \<open>Entries\<close>

definition MaxInlineHostnames :: int where "MaxInlineHostnames = 64"
definition MaxHostnameLength :: nat where "MaxHostnameLength = 253"
definition maxLabelLength :: nat where "maxLabelLength = 63"
definition maxRawEntryLength :: nat where "maxRawEntryLength = 1024"

datatype entryReason =
  ReasonEmpty | ReasonLong | ReasonNotUTF8 | ReasonNotCIDR | ReasonIPLiteral | ReasonNotEntry | ReasonEmptyPort | ReasonBadPort
  | ReasonRedundantPort | ReasonInnerWildcard | ReasonEmptyHost | ReasonNotHostname | ReasonLongHost | ReasonEmptyLabel
  | ReasonLongLabel | ReasonBadChar | ReasonHyphen | ReasonLooksLikeIP | ReasonPublicSuffix | ReasonHostInDeny

datatype Kind = KindCIDR | KindHost | KindWildcard

record Entry =
  enKind :: Kind
  enPrefix :: Prefix
  enHost :: string
  enPort :: nat

definition noPrefix :: Prefix where "noPrefix = \<lparr>pfIP = AddrZero, pfBits = -1\<rparr>"

definition IsHostname :: "Entry \<Rightarrow> bool" where
  "IsHostname e \<longleftrightarrow> enKind e = KindHost \<or> enKind e = KindWildcard"

definition entryString :: "Entry \<Rightarrow> string" where
  "entryString e =
     (let suffix = (if enPort e \<noteq> 0 then '':'' @ itoa (int (enPort e)) else [])
      in case enKind e of
           KindCIDR \<Rightarrow> prefixString (enPrefix e)
         | KindHost \<Rightarrow> enHost e @ suffix
         | KindWildcard \<Rightarrow> ''*.'' @ enHost e @ suffix)"

definition coversName :: "Entry \<Rightarrow> string \<Rightarrow> bool" where
  "coversName e name =
     (case enKind e of
        KindHost \<Rightarrow> name = enHost e
      | KindWildcard \<Rightarrow>
          length name > length (enHost e) + 1 \<and> suffix (enHost e) name \<and> name ! (length name - length (enHost e) - 1) = CHR ''.''
      | KindCIDR \<Rightarrow> False)"

definition coversPort :: "Entry \<Rightarrow> nat \<Rightarrow> bool" where
  "coversPort e port \<longleftrightarrow>
     (if port = 0 then True else if enPort e = 0 then port = 80 \<or> port = 443 else port = enPort e)"

section \<open>Text\<close>

definition isASCIIChar :: "char \<Rightarrow> bool" where "isASCIIChar c \<longleftrightarrow> (of_char c :: nat) < 128"

definition isASCII :: "string \<Rightarrow> bool" where "isASCII s = list_all isASCIIChar s"

definition lowerChar :: "char \<Rightarrow> char" where
  "lowerChar c = (if CHR ''A'' \<le> c \<and> c \<le> CHR ''Z'' then char_of (of_char c + 32 :: nat) else c)"

definition toLower :: "egressEnv \<Rightarrow> string \<Rightarrow> string" where
  "toLower env s = (if isASCII s then map lowerChar s else eeToLower env s)"

text \<open>\<^verbatim>\<open>utf8.ValidString\<close>: how many continuation bytes a lead byte asks for and the range of the first of them.\<close>

definition utf8Lead :: "nat \<Rightarrow> (nat \<times> nat \<times> nat) option" where
  "utf8Lead n =
     (if n < 128 then Some (0, 0, 0)
      else if 194 \<le> n \<and> n \<le> 223 then Some (1, 128, 191)
      else if n = 224 then Some (2, 160, 191)
      else if n = 237 then Some (2, 128, 159)
      else if 225 \<le> n \<and> n \<le> 239 then Some (2, 128, 191)
      else if n = 240 then Some (3, 144, 191)
      else if 241 \<le> n \<and> n \<le> 243 then Some (3, 128, 191)
      else if n = 244 then Some (3, 128, 143)
      else None)"

definition byteIn :: "nat \<Rightarrow> nat \<Rightarrow> char \<Rightarrow> bool" where
  "byteIn lo hi c \<longleftrightarrow> lo \<le> (of_char c :: nat) \<and> (of_char c :: nat) \<le> hi"

function utf8Valid :: "string \<Rightarrow> bool" where
  "utf8Valid [] = True"
| "utf8Valid (c # s) =
     (case utf8Lead (of_char c) of
        None \<Rightarrow> False
      | Some (need, lo, hi) \<Rightarrow>
          length s \<ge> need \<and> (need > 0 \<longrightarrow> byteIn lo hi (hd s)) \<and> list_all (byteIn 128 191) (take (need - 1) (tl s)) \<and>
          utf8Valid (drop need s))"
  by pat_completeness auto
termination
  by (relation "measure length") auto

definition trimSuffixDot :: "string \<Rightarrow> string" where
  "trimSuffixDot s = (if s \<noteq> [] \<and> last s = CHR ''.'' then butlast s else s)"

section \<open>Names\<close>

definition labelReason :: "bool \<Rightarrow> string \<Rightarrow> entryReason option" where
  "labelReason strict l =
     (if l = [] then Some ReasonEmptyLabel
      else if length l > maxLabelLength then Some ReasonLongLabel
      else if \<not> list_all (\<lambda>c. (CHR ''a'' \<le> c \<and> c \<le> CHR ''z'') \<or> isDigit c \<or> c = CHR ''-'' \<or> c = CHR ''_'') l then Some ReasonBadChar
      else if strict \<and> (hd l = CHR ''-'' \<or> last l = CHR ''-'') then Some ReasonHyphen
      else None)"

definition validateLabels :: "string \<Rightarrow> bool \<Rightarrow> entryReason option" where
  "validateLabels name strict =
     (let labels = splitOn CHR ''.'' name
      in case filter (\<lambda>r. r \<noteq> None) (map (labelReason strict) labels) of
           r # _ \<Rightarrow> r
         | [] \<Rightarrow> if trimSet ''0123456789'' (last labels) = [] then Some ReasonLooksLikeIP else None)"

definition normalizeHostname :: "egressEnv \<Rightarrow> string \<Rightarrow> entryReason + string" where
  "normalizeHostname env s0 =
     (let s = trimSuffixDot s0
      in if s = [] then Inl ReasonEmptyHost
         else (case eeToASCII env s of
                 None \<Rightarrow> Inl ReasonNotHostname
               | Some ascii \<Rightarrow>
                   if length ascii > MaxHostnameLength then Inl ReasonLongHost
                   else (case validateLabels ascii True of Some r \<Rightarrow> Inl r | None \<Rightarrow> Inr ascii)))"

definition isPublicSuffix :: "egressEnv \<Rightarrow> string \<Rightarrow> bool" where
  "isPublicSuffix env name \<longleftrightarrow> fst (eePublicSuffix env name) = name"

definition canonicalName :: "egressEnv \<Rightarrow> string \<Rightarrow> string" where
  "canonicalName env name0 =
     (let name = trimSuffixDot (trimSpace name0)
      in if name = [] \<or> length name > maxRawEntryLength then []
         else let mapped = (if isASCII name then Some (map lowerChar name)
                            else if \<not> utf8Valid name then None else eeToASCII env name)
              in case mapped of
                   None \<Rightarrow> []
                 | Some name \<Rightarrow> if length name > MaxHostnameLength \<or> validateLabels name False \<noteq> None then [] else name)"

section \<open>Parsing\<close>

definition parsePort :: "string \<Rightarrow> entryReason + nat" where
  "parsePort s =
     (if s = [] then Inl ReasonEmptyPort
      else (case parseUint 16 s of
              None \<Rightarrow> Inl ReasonBadPort
            | Some n \<Rightarrow> if n = 0 then Inl ReasonBadPort else Inr n))"

definition isIPLiteral :: "string \<Rightarrow> bool" where
  "isIPLiteral s \<longleftrightarrow>
     ParseAddr s \<noteq> None \<or> ParseAddrPort s \<noteq> None \<or> prefix ''['' s \<or>
     (case cutAt CHR '':'' s of None \<Rightarrow> False | Some (host, _) \<Rightarrow> ParseAddr host \<noteq> None)"

definition parseCIDR :: "string \<Rightarrow> entryReason + Entry" where
  "parseCIDR s =
     (case ParsePrefix s of
        None \<Rightarrow> Inl ReasonNotCIDR
      | Some p \<Rightarrow>
          let p = (if Is4In6 (pfIP p) \<and> pfBits p \<ge> 96 then PrefixFrom (Unmap (pfIP p)) (pfBits p - 96) else p)
          in Inr \<lparr>enKind = KindCIDR, enPrefix = prefixMasked p, enHost = [], enPort = 0\<rparr>)"

definition entryPort :: "string option \<Rightarrow> entryReason + nat" where
  "entryPort portStr =
     (case portStr of
        None \<Rightarrow> Inr 0
      | Some s \<Rightarrow>
          if CHR '':'' \<in> set s then Inl ReasonNotEntry
          else (case parsePort s of
                  Inl r \<Rightarrow> Inl r
                | Inr p \<Rightarrow> if p = 80 \<or> p = 443 then Inl ReasonRedundantPort else Inr p))"

definition splitWildcard :: "string \<Rightarrow> Kind \<times> string" where
  "splitWildcard lower =
     (if prefix ''*.'' lower then (KindWildcard, drop 2 lower)
      else if prefix ''.'' lower then (KindWildcard, drop 1 lower)
      else (KindHost, lower))"

definition parseHost :: "egressEnv \<Rightarrow> string \<Rightarrow> nat \<Rightarrow> entryReason + Entry" where
  "parseHost env host port =
     (let (kind, lower) = splitWildcard (toLower env host)
      in if CHR ''*'' \<in> set lower then Inl ReasonInnerWildcard
         else (case normalizeHostname env lower of
                 Inl r \<Rightarrow> Inl r
               | Inr name \<Rightarrow>
                   if kind = KindWildcard \<and> isPublicSuffix env name then Inl ReasonPublicSuffix
                   else Inr \<lparr>enKind = kind, enPrefix = noPrefix, enHost = name, enPort = port\<rparr>))"

definition parseEntry :: "egressEnv \<Rightarrow> string \<Rightarrow> entryReason + Entry" where
  "parseEntry env raw =
     (let s = trimSpace raw
      in if s = [] then Inl ReasonEmpty
         else if length s > maxRawEntryLength then Inl ReasonLong
         else if \<not> utf8Valid s then Inl ReasonNotUTF8
         else if CHR ''/'' \<in> set s then parseCIDR s
         else if isIPLiteral s then Inl ReasonIPLiteral
         else let (host, portStr) = (case cutAt CHR '':'' s of None \<Rightarrow> (s, None) | Some (h, p) \<Rightarrow> (h, Some p))
              in case entryPort portStr of
                   Inl r \<Rightarrow> Inl r
                 | Inr port \<Rightarrow> parseHost env host port)"

section \<open>Lists\<close>

datatype egressError =
  BadEntry string entryReason | TooManyHostnames nat | BadMode | LearnNotEmpty

definition CountHostnames :: "Entry list \<Rightarrow> nat" where
  "CountHostnames es = length (filter IsHostname es)"

fun parseListLoop :: "egressEnv \<Rightarrow> bool \<Rightarrow> string list \<Rightarrow> string set \<Rightarrow> egressError + Entry list" where
  "parseListLoop env hostnamesOK [] seen = Inr []"
| "parseListLoop env hostnamesOK (raw # raws) seen =
     (case parseEntry env raw of
        Inl r \<Rightarrow> Inl (BadEntry raw r)
      | Inr e \<Rightarrow>
          if \<not> hostnamesOK \<and> enKind e \<noteq> KindCIDR then Inl (BadEntry raw ReasonHostInDeny)
          else if entryString e \<in> seen then parseListLoop env hostnamesOK raws seen
          else map_sum id ((#) e) (parseListLoop env hostnamesOK raws (insert (entryString e) seen)))"

definition parseList :: "egressEnv \<Rightarrow> string list \<Rightarrow> bool \<Rightarrow> egressError + Entry list" where
  "parseList env entries hostnamesOK = parseListLoop env hostnamesOK entries {}"

definition ParseAllowList :: "egressEnv \<Rightarrow> string list \<Rightarrow> int \<Rightarrow> egressError + Entry list" where
  "ParseAllowList env entries maxHostnames =
     (case parseList env entries True of
        Inl e \<Rightarrow> Inl e
      | Inr out \<Rightarrow> if int (CountHostnames out) > maxHostnames then Inl (TooManyHostnames (CountHostnames out)) else Inr out)"

definition ParseDenyList :: "egressEnv \<Rightarrow> string list \<Rightarrow> egressError + Entry list" where
  "ParseDenyList env entries = parseList env entries False"

end
