(* ===== verification/Egress_Policy.thy ===== *)
theory Egress_Policy
  imports Egress_Entry
begin

text \<open>
  The compiled egress policy (\<^verbatim>\<open>pkg/egresspolicy/policy.go\<close>): \<^verbatim>\<open>Compile\<close> indexes the entries of a specification and the
  \<^verbatim>\<open>Match\<close> functions decide a connection by those indexes.  The reference decision \<^verbatim>\<open>decideName\<close> and \<^verbatim>\<open>decideIP\<close> is the
  documented precedence read off the lists themselves; the indexes are shown to implement it.
\<close>

section \<open>The policy\<close>

definition ModeEnforce :: string where "ModeEnforce = ''enforce''"
definition ModeLearn :: string where "ModeLearn = ''learn''"
definition RuleBlockAll :: string where "RuleBlockAll = ''network_block_all''"

datatype Verdict = VerdictAllow | VerdictDeny

record Spec =
  spAllowOut :: "string list"
  spDenyOut :: "string list"
  spBlockAll :: bool
  spMode :: string
  spMaxHostnames :: int

record Policy =
  poBlockAll :: bool
  poMode :: string
  poVerdict :: Verdict
  poAllow :: "Entry list"
  poDeny :: "Entry list"
  poExact :: "string \<rightharpoonup> Entry list"
  poWild :: "string \<rightharpoonup> Entry list"
  poAllowCIDRs :: "Prefix list"
  poDenyCIDRs :: "Prefix list"
  poHostnames :: nat
  poHash :: string

definition normalizeMode :: "string \<Rightarrow> egressError + string" where
  "normalizeMode m =
     (if m = [] \<or> m = ModeEnforce then Inr ModeEnforce else if m = ModeLearn then Inr ModeLearn else Inl BadMode)"

definition isDenyAll :: "Prefix \<Rightarrow> bool" where
  "isDenyAll p \<longleftrightarrow> pfBits p = 0 \<and> addrIs4 (pfIP p)"

definition sortMostSpecific :: "Prefix list \<Rightarrow> Prefix list" where
  "sortMostSpecific ps = sort_key (\<lambda>p. - pfBits p) ps"

definition entriesAt :: "(string \<rightharpoonup> Entry list) \<Rightarrow> string \<Rightarrow> Entry list" where
  "entriesAt m k = (case m k of None \<Rightarrow> [] | Some es \<Rightarrow> es)"

definition addEntry :: "Entry \<Rightarrow> Policy \<Rightarrow> Policy" where
  "addEntry e p =
     (case enKind e of
        KindCIDR \<Rightarrow> p\<lparr>poAllowCIDRs := poAllowCIDRs p @ [enPrefix e]\<rparr>
      | KindHost \<Rightarrow> p\<lparr>poExact := (poExact p)(enHost e \<mapsto> entriesAt (poExact p) (enHost e) @ [e]), poHostnames := poHostnames p + 1\<rparr>
      | KindWildcard \<Rightarrow> p\<lparr>poWild := (poWild p)(enHost e \<mapsto> entriesAt (poWild p) (enHost e) @ [e]), poHostnames := poHostnames p + 1\<rparr>)"

definition sortPorts :: "(string \<rightharpoonup> Entry list) \<Rightarrow> (string \<rightharpoonup> Entry list)" where
  "sortPorts m = (\<lambda>k. map_option (sort_key enPort) (m k))"

definition formatBool :: "bool \<Rightarrow> string" where
  "formatBool b = (if b then ''true'' else ''false'')"

definition canon :: "Entry list \<Rightarrow> string" where
  "canon es = joinWith '','' (sort (map entryString es))"

definition newline :: string where "newline = [char_of (10 :: nat)]"

definition computeHash :: "egressEnv \<Rightarrow> bool \<Rightarrow> string \<Rightarrow> Entry list \<Rightarrow> Entry list \<Rightarrow> string" where
  "computeHash env blockAll mode allow deny =
     eeSHA256 env
       (''egresspolicy/v1'' @ newline @ ''block_all='' @ formatBool blockAll @ newline @ ''mode='' @ mode @
        newline @ ''allow='' @ canon allow @ newline @ ''deny='' @ canon deny @ newline)"

definition buildVerdict :: "bool \<Rightarrow> string \<Rightarrow> Entry list \<Rightarrow> Entry list \<Rightarrow> bool \<Rightarrow> Verdict" where
  "buildVerdict blockAll mode allow deny denyAll =
     (if blockAll then VerdictDeny
      else if mode = ModeLearn then VerdictAllow
      else if allow \<noteq> [] \<and> (deny = [] \<or> denyAll) then VerdictDeny
      else VerdictAllow)"

definition emptyPolicy :: Policy where
  "emptyPolicy =
     \<lparr>poBlockAll = False, poMode = [], poVerdict = VerdictAllow, poAllow = [], poDeny = [], poExact = Map.empty, poWild = Map.empty,
      poAllowCIDRs = [], poDenyCIDRs = [], poHostnames = 0, poHash = []\<rparr>"

definition build :: "egressEnv \<Rightarrow> bool \<Rightarrow> string \<Rightarrow> Entry list \<Rightarrow> Entry list \<Rightarrow> Policy" where
  "build env blockAll0 mode allow deny =
     (let denyAll = list_ex (\<lambda>e. isDenyAll (enPrefix e)) deny;
          p = fold addEntry allow emptyPolicy;
          blockAll = (blockAll0 \<or> (denyAll \<and> allow = []))
      in p\<lparr>poBlockAll := blockAll, poMode := mode, poVerdict := buildVerdict blockAll mode allow deny denyAll,
           poAllow := allow, poDeny := deny,
           poExact := sortPorts (poExact p), poWild := sortPorts (poWild p),
           poAllowCIDRs := sortMostSpecific (poAllowCIDRs p), poDenyCIDRs := sortMostSpecific (map enPrefix deny),
           poHash := computeHash env blockAll mode allow deny\<rparr>)"

definition Compile :: "egressEnv \<Rightarrow> Spec \<Rightarrow> egressError + Policy" where
  "Compile env spec =
     (case normalizeMode (spMode spec) of
        Inl e \<Rightarrow> Inl e
      | Inr mode \<Rightarrow>
          let maxHostnames = (if spMaxHostnames spec \<le> 0 then MaxInlineHostnames else spMaxHostnames spec)
          in case ParseAllowList env (spAllowOut spec) maxHostnames of
               Inl e \<Rightarrow> Inl e
             | Inr allow \<Rightarrow>
                 (case ParseDenyList env (spDenyOut spec) of
                    Inl e \<Rightarrow> Inl e
                  | Inr deny \<Rightarrow>
                      if mode = ModeLearn \<and> (allow \<noteq> [] \<or> deny \<noteq> [] \<or> spBlockAll spec) then Inl LearnNotEmpty
                      else Inr (build env (spBlockAll spec) mode allow deny)))"

definition GatewayMode :: "Policy \<Rightarrow> bool" where
  "GatewayMode p \<longleftrightarrow> \<not> poBlockAll p \<and> (poHostnames p > 0 \<or> poMode p = ModeLearn)"

definition NeedsGateway :: "egressEnv \<Rightarrow> string list \<Rightarrow> string list \<Rightarrow> bool \<Rightarrow> bool" where
  "NeedsGateway env allow deny blockAll \<longleftrightarrow>
     \<not> (blockAll \<or> allow = []) \<and>
     (case Compile env \<lparr>spAllowOut = allow, spDenyOut = deny, spBlockAll = False, spMode = [], spMaxHostnames = 0\<rparr> of
        Inl _ \<Rightarrow> False
      | Inr p \<Rightarrow> GatewayMode p)"

definition NeedsGatewayWith :: "egressEnv \<Rightarrow> string list \<Rightarrow> string list \<Rightarrow> bool \<Rightarrow> bool \<Rightarrow> int \<Rightarrow> bool" where
  "NeedsGatewayWith env allow deny blockAll learn profiles \<longleftrightarrow>
     \<not> blockAll \<and> (learn \<or> profiles > 0 \<or> NeedsGateway env allow deny blockAll)"

section \<open>Matching\<close>

definition firstContaining :: "Prefix list \<Rightarrow> Addr \<Rightarrow> Prefix option" where
  "firstContaining ps ip = find (\<lambda>p. prefixContains p ip) ps"

definition allowCIDRContains :: "Policy \<Rightarrow> Addr \<Rightarrow> bool" where
  "allowCIDRContains p ip \<longleftrightarrow> firstContaining (poAllowCIDRs p) ip \<noteq> None"

definition MatchIP :: "Policy \<Rightarrow> Addr \<Rightarrow> nat \<Rightarrow> bool \<times> string" where
  "MatchIP p ip0 port =
     (if poBlockAll p then (False, RuleBlockAll)
      else if poMode p = ModeLearn then (True, [])
      else let ip = Unmap ip0
           in case firstContaining (poAllowCIDRs p) ip of
                Some pfx \<Rightarrow> (True, prefixString pfx)
              | None \<Rightarrow>
                  (case firstContaining (poDenyCIDRs p) ip of
                     Some pfx \<Rightarrow> (False, prefixString pfx)
                   | None \<Rightarrow> (poVerdict p = VerdictAllow, [])))"

fun wildLoop :: "(string \<rightharpoonup> Entry list) \<Rightarrow> nat \<Rightarrow> string \<Rightarrow> Entry option" where
  "wildLoop wild port [] = None"
| "wildLoop wild port (c # rest) =
     (if c = CHR ''.'' then
        (case find (\<lambda>e. coversPort e port) (entriesAt wild rest) of
           Some e \<Rightarrow> Some e
         | None \<Rightarrow> wildLoop wild port rest)
      else wildLoop wild port rest)"

definition matchName :: "Policy \<Rightarrow> string \<Rightarrow> nat \<Rightarrow> Entry option" where
  "matchName p name port =
     (if poHostnames p = 0 then None
      else (case find (\<lambda>e. coversPort e port) (entriesAt (poExact p) name) of
              Some e \<Rightarrow> Some e
            | None \<Rightarrow> wildLoop (poWild p) port name))"

definition MatchHostPort :: "egressEnv \<Rightarrow> Policy \<Rightarrow> string \<Rightarrow> nat \<Rightarrow> bool \<times> string" where
  "MatchHostPort env p name port =
     (case ParseAddr (trimSet ''[]'' name) of
        Some ip \<Rightarrow> MatchIP p ip port
      | None \<Rightarrow>
          if poBlockAll p then (False, RuleBlockAll)
          else if poMode p = ModeLearn then (True, [])
          else let c = canonicalName env name
               in case (if c = [] then None else matchName p c port) of
                    Some e \<Rightarrow> (True, entryString e)
                  | None \<Rightarrow> (poVerdict p = VerdictAllow, []))"

definition MatchHost :: "egressEnv \<Rightarrow> Policy \<Rightarrow> string \<Rightarrow> bool \<times> string" where
  "MatchHost env p name = MatchHostPort env p name 0"

section \<open>The indexes hold the lists\<close>

lemma coversName_wild:
  assumes "enKind e = KindWildcard"
  shows "coversName e name \<longleftrightarrow> (\<exists>l. l \<noteq> [] \<and> name = l @ CHR ''.'' # enHost e)"
proof
  assume c: "coversName e name"
  then obtain m where m: "name = m @ enHost e" and len: "length name > length (enHost e) + 1"
    and dot: "name ! (length name - length (enHost e) - 1) = CHR ''.''" using assms by (auto simp: coversName_def suffix_def)
  then have "length m > 1" "m ! (length m - 1) = CHR ''.''" by (auto simp: nth_append split: if_splits)
  then have "m = butlast m @ [CHR ''.'']" "butlast m \<noteq> []"
    by (metis append_butlast_last_id last_conv_nth length_greater_0_conv less_trans zero_less_one)
       (metis \<open>length m > 1\<close> length_butlast list.size(3) zero_less_diff less_irrefl)
  then show "\<exists>l. l \<noteq> [] \<and> name = l @ CHR ''.'' # enHost e" using m by (metis append.assoc append_Cons append_Nil)
next
  assume "\<exists>l. l \<noteq> [] \<and> name = l @ CHR ''.'' # enHost e"
  then show "coversName e name" using assms by (auto simp: coversName_def suffix_def nth_append)
qed

text \<open>Both a policy and a ceiling are built by adding entries one by one to tables that file them by host
  or by network.  The contract of such a table: adding an entry appends what the entry files under a key
  and nothing else.  Then building from a list files, under every key, what the entries of the list file there.\<close>

locale entry_table =
  fixes add :: "Entry \<Rightarrow> 's \<Rightarrow> 's"
    and look :: "'s \<Rightarrow> 'k \<Rightarrow> 'v list"
    and files :: "Entry \<Rightarrow> 'k \<Rightarrow> 'v list"
  assumes add_look: "look (add e s) k = look s k @ files e k"
begin

lemma fold_look: "look (fold add es s) k = look s k @ concat (map (\<lambda>e. files e k) es)"
  by (induction es arbitrary: s) (simp_all add: add_look)

lemma fold_look_set: "set (look (fold add es s) k) = set (look s k) \<union> (\<Union>e \<in> set es. set (files e k))"
  by (simp add: fold_look)

end

definition filesAt :: "Kind \<Rightarrow> Entry \<Rightarrow> string \<Rightarrow> Entry list" where
  "filesAt k e h = (if enKind e = k \<and> enHost e = h then [e] else [])"

definition filesNetwork :: "Entry \<Rightarrow> unit \<Rightarrow> Prefix list" where
  "filesNetwork e u = (if enKind e = KindCIDR then [enPrefix e] else [])"

interpretation exactNames: entry_table addEntry "\<lambda>p. entriesAt (poExact p)" "filesAt KindHost"
  by unfold_locales (simp add: addEntry_def entriesAt_def filesAt_def split: Kind.split)

interpretation wildNames: entry_table addEntry "\<lambda>p. entriesAt (poWild p)" "filesAt KindWildcard"
  by unfold_locales (simp add: addEntry_def entriesAt_def filesAt_def split: Kind.split)

interpretation allowedNetworks: entry_table addEntry "\<lambda>p u. poAllowCIDRs p" filesNetwork
  by unfold_locales (simp add: addEntry_def filesNetwork_def split: Kind.split)

lemma filesAt_all: "(\<Union>e \<in> set es. set (filesAt k e h)) = {e \<in> set es. enKind e = k \<and> enHost e = h}"
  by (auto simp: filesAt_def)

lemma filesNetwork_all: "(\<Union>e \<in> set es. set (filesNetwork e u)) = enPrefix ` {e \<in> set es. enKind e = KindCIDR}"
  by (auto simp: filesNetwork_def)

lemma addEntry_hostnames: "poHostnames (fold addEntry es p) = poHostnames p + CountHostnames es"
  by (induction es arbitrary: p)
     (auto simp: addEntry_def CountHostnames_def IsHostname_def split: Kind.split)

lemma entriesAt_sort [simp]: "set (entriesAt (sortPorts m) h) = set (entriesAt m h)"
  by (simp add: entriesAt_def sortPorts_def split: option.split)

lemma build_fields:
  "set (entriesAt (poExact (build env b m allow deny)) h) = {e \<in> set allow. enKind e = KindHost \<and> enHost e = h}"
  "set (entriesAt (poWild (build env b m allow deny)) h) = {e \<in> set allow. enKind e = KindWildcard \<and> enHost e = h}"
  "set (poAllowCIDRs (build env b m allow deny)) = enPrefix ` {e \<in> set allow. enKind e = KindCIDR}"
  "set (poDenyCIDRs (build env b m allow deny)) = enPrefix ` set deny"
  "poHostnames (build env b m allow deny) = CountHostnames allow"
  by (simp_all add: build_def Let_def sortMostSpecific_def emptyPolicy_def entriesAt_def[of Map.empty] addEntry_hostnames
        exactNames.fold_look_set wildNames.fold_look_set allowedNetworks.fold_look_set[where k = "()"] filesAt_all filesNetwork_all)

section \<open>The decision, read off the lists\<close>

definition allowsName :: "Entry list \<Rightarrow> string \<Rightarrow> nat \<Rightarrow> bool" where
  "allowsName es name port = list_ex (\<lambda>e. coversName e name \<and> coversPort e port) es"

definition holdsIP :: "Entry list \<Rightarrow> Addr \<Rightarrow> bool" where
  "holdsIP es ip = list_ex (\<lambda>e. enKind e = KindCIDR \<and> prefixContains (enPrefix e) ip) es"

text \<open>The documented outcome for a destination that no entry decides.\<close>

definition defaultAllows :: "Entry list \<Rightarrow> Entry list \<Rightarrow> bool" where
  "defaultAllows allow deny \<longleftrightarrow> allow = [] \<or> (deny \<noteq> [] \<and> \<not> list_ex (\<lambda>e. isDenyAll (enPrefix e)) deny)"

definition blocksAll :: "bool \<Rightarrow> Entry list \<Rightarrow> Entry list \<Rightarrow> bool" where
  "blocksAll b allow deny \<longleftrightarrow> b \<or> (allow = [] \<and> list_ex (\<lambda>e. isDenyAll (enPrefix e)) deny)"

definition decideName :: "bool \<Rightarrow> string \<Rightarrow> Entry list \<Rightarrow> Entry list \<Rightarrow> string \<Rightarrow> nat \<Rightarrow> bool" where
  "decideName b mode allow deny name port \<longleftrightarrow>
     \<not> blocksAll b allow deny \<and>
     (mode = ModeLearn \<or> (name \<noteq> [] \<and> allowsName allow name port) \<or> defaultAllows allow deny)"

definition decideIP :: "bool \<Rightarrow> string \<Rightarrow> Entry list \<Rightarrow> Entry list \<Rightarrow> Addr \<Rightarrow> bool" where
  "decideIP b mode allow deny ip \<longleftrightarrow>
     \<not> blocksAll b allow deny \<and>
     (mode = ModeLearn \<or> holdsIP allow ip \<or> (\<not> holdsIP deny ip \<and> defaultAllows allow deny))"

lemma wildLoop_find:
  "(case wildLoop wild port s of
      Some e \<Rightarrow> coversPort e port \<and> (\<exists>l rest. s = l @ CHR ''.'' # rest \<and> e \<in> set (entriesAt wild rest))
    | None \<Rightarrow> \<forall>l rest. s = l @ CHR ''.'' # rest \<longrightarrow> (\<forall>e \<in> set (entriesAt wild rest). \<not> coversPort e port))"
proof (induction s)
  case (Cons c s)
  have head: "(c # s = l @ CHR ''.'' # rest) \<longleftrightarrow> (l = [] \<and> c = CHR ''.'' \<and> s = rest) \<or> (\<exists>l'. l = c # l' \<and> s = l' @ CHR ''.'' # rest)" for l rest
    by (cases l) auto
  show ?case
  proof (cases "c = CHR ''.'' \<and> (\<exists>e \<in> set (entriesAt wild s). coversPort e port)")
    case True
    then obtain e where e: "find (\<lambda>e. coversPort e port) (entriesAt wild s) = Some e"
      by (metis (no_types, lifting) find_None_iff not_Some_eq)
    then have "coversPort e port" "e \<in> set (entriesAt wild s)" by (auto simp: find_Some_iff)
    with True e show ?thesis by (simp add: head) blast
  next
    case False
    then have "c = CHR ''.'' \<Longrightarrow> find (\<lambda>e. coversPort e port) (entriesAt wild s) = None" by (simp add: find_None_iff)
    then have eq: "wildLoop wild port (c # s) = wildLoop wild port s" by simp
    show ?thesis
    proof (cases "wildLoop wild port s")
      case None
      with Cons False eq show ?thesis by (auto simp: head)
    next
      case (Some e)
      with Cons eq show ?thesis by (simp add: head) blast
    qed
  qed
qed simp

lemma validateLabels_None:
  assumes "validateLabels name strict = None"
  shows "list_all (\<lambda>l. labelReason strict l = None) (splitOn CHR ''.'' name)"
    and "trimSet ''0123456789'' (last (splitOn CHR ''.'' name)) \<noteq> []"
proof -
  let ?rs = "filter (\<lambda>r. r \<noteq> None) (map (labelReason strict) (splitOn CHR ''.'' name))"
  have "?rs = []"
  proof (cases ?rs)
    case (Cons r rs)
    then have "r \<in> set ?rs" by simp
    then have "r \<noteq> None" by simp
    with Cons assms show ?thesis by (simp add: validateLabels_def Let_def)
  qed simp
  then show "list_all (\<lambda>l. labelReason strict l = None) (splitOn CHR ''.'' name)" by (simp add: filter_empty_conv list_all_iff)
  from assms \<open>?rs = []\<close> show "trimSet ''0123456789'' (last (splitOn CHR ''.'' name)) \<noteq> []"
    by (auto simp: validateLabels_def Let_def split: if_splits)
qed

lemma canonicalName_valid: "canonicalName env n \<noteq> [] \<Longrightarrow> validateLabels (canonicalName env n) False = None"
  by (auto simp: canonicalName_def Let_def split: option.splits if_splits)

lemma canonicalName_head: "canonicalName env n = c # cs \<Longrightarrow> c \<noteq> CHR ''.''"
  using canonicalName_valid[of env n] validateLabels_None(1)[of "canonicalName env n" False] by (auto simp: labelReason_def)

lemma matchName_lists:
  assumes "name = c # cs" "c \<noteq> CHR ''.''"
  shows "case matchName (build env b m allow deny) name port of
    Some e \<Rightarrow> e \<in> set allow \<and> coversName e name \<and> coversPort e port
  | None \<Rightarrow> \<not> allowsName allow name port"
proof -
  let ?p = "build env b m allow deny"
  let ?x = "find (\<lambda>e. coversPort e port) (entriesAt (poExact ?p) name)"
  have wild: "e \<in> set allow \<and> coversName e name \<and> enKind e = KindWildcard \<longleftrightarrow> (\<exists>l rest. name = l @ CHR ''.'' # rest \<and> e \<in> set (entriesAt (poWild ?p) rest))" for e
  proof -
    have "l \<noteq> []" if "name = l @ CHR ''.'' # rest" for l rest using that assms by (cases l) auto
    then show ?thesis unfolding build_fields by (auto simp: coversName_wild)
  qed
  have exact: "e \<in> set allow \<and> coversName e name \<and> enKind e = KindHost \<longleftrightarrow> e \<in> set (entriesAt (poExact ?p) name)" for e
    unfolding build_fields by (auto simp: coversName_def)
  have kinds: "coversName e name \<Longrightarrow> enKind e = KindHost \<or> enKind e = KindWildcard" for e
    by (auto simp: coversName_def split: Kind.splits)
  show ?thesis
  proof (cases "CountHostnames allow = 0")
    case True
    then have "\<not> allowsName allow name port" using kinds
      by (auto simp: CountHostnames_def filter_empty_conv IsHostname_def allowsName_def list_ex_iff)
    with True show ?thesis by (simp add: matchName_def build_fields)
  next
    case n: False
    show ?thesis
    proof (cases ?x)
      case (Some e)
      then have "coversPort e port" "e \<in> set (entriesAt (poExact ?p) name)" by (auto simp: find_Some_iff)
      with Some n exact[of e] show ?thesis by (simp add: matchName_def build_fields)
    next
      case None
      then have no: "\<forall>e \<in> set (entriesAt (poExact ?p) name). \<not> coversPort e port" by (simp add: find_None_iff)
      note found = wildLoop_find[where wild = "poWild ?p" and port = port and s = name]
      have eq: "matchName ?p name port = wildLoop (poWild ?p) port name" using None n by (simp add: matchName_def build_fields)
      show ?thesis
      proof (cases "wildLoop (poWild ?p) port name")
        case (Some e)
        with found wild[of e] eq show ?thesis by auto
      next
        case w: None
        have "\<not> (coversName e name \<and> coversPort e port)" if "e \<in> set allow" for e
          using found[unfolded w] no kinds[of e] exact[of e] wild[of e] that by auto
        then show ?thesis using eq w by (simp add: allowsName_def list_ex_iff)
      qed
    qed
  qed
qed

lemma firstContaining_iff: "firstContaining ps ip = None \<longleftrightarrow> (\<forall>p \<in> set ps. \<not> prefixContains p ip)"
  by (auto simp: firstContaining_def find_None_iff)

lemma build_head:
  "poBlockAll (build env b m allow deny) = blocksAll b allow deny" "poMode (build env b m allow deny) = m"
  "poAllow (build env b m allow deny) = allow" "poDeny (build env b m allow deny) = deny"
  by (auto simp: build_def Let_def blocksAll_def)

lemma build_verdict:
  assumes "\<not> blocksAll b allow deny" "m \<noteq> ModeLearn"
  shows "poVerdict (build env b m allow deny) = VerdictAllow \<longleftrightarrow> defaultAllows allow deny"
  using assms by (auto simp: build_def Let_def buildVerdict_def blocksAll_def defaultAllows_def)

lemma MatchIP_build:
  assumes "\<forall>e \<in> set deny. enKind e = KindCIDR"
  shows "fst (MatchIP (build env b m allow deny) ip port) = decideIP b m allow deny (Unmap ip)"
proof -
  let ?p = "build env b m allow deny"
  have a: "firstContaining (poAllowCIDRs ?p) (Unmap ip) = None \<longleftrightarrow> \<not> holdsIP allow (Unmap ip)"
    unfolding firstContaining_iff build_fields by (auto simp: holdsIP_def list_ex_iff)
  have d: "firstContaining (poDenyCIDRs ?p) (Unmap ip) = None \<longleftrightarrow> \<not> holdsIP deny (Unmap ip)"
    unfolding firstContaining_iff build_fields using assms by (auto simp: holdsIP_def list_ex_iff)
  show ?thesis
  proof (cases "blocksAll b allow deny \<or> m = ModeLearn")
    case False
    with build_verdict[of b allow deny m env] a d show ?thesis
      by (auto simp: MatchIP_def decideIP_def build_head Let_def split: option.split)
  qed (auto simp: MatchIP_def decideIP_def build_head)
qed

lemma MatchHostPort_build:
  assumes "ParseAddr (trimSet ''[]'' name) = None"
  shows "fst (MatchHostPort env (build env b m allow deny) name port) = decideName b m allow deny (canonicalName env name) port"
proof -
  let ?p = "build env b m allow deny" and ?c = "canonicalName env name"
  show ?thesis
  proof (cases "blocksAll b allow deny \<or> m = ModeLearn")
    case False
    note v = build_verdict[of b allow deny m env]
    show ?thesis
    proof (cases ?c)
      case Nil
      with False v assms show ?thesis by (auto simp: MatchHostPort_def decideName_def build_head)
    next
      case (Cons c cs)
      from matchName_lists[OF Cons canonicalName_head[OF Cons], where env = env and b = b and m = m and allow = allow and deny = deny and port = port] False v assms Cons show ?thesis
        by (cases "matchName ?p ?c port") (auto simp: MatchHostPort_def decideName_def build_head allowsName_def list_ex_iff)
    qed
  qed (use assms in \<open>auto simp: MatchHostPort_def decideName_def build_head\<close>)
qed

lemma parseListLoop_kinds: "parseListLoop env False raws seen = Inr out \<Longrightarrow> e \<in> set out \<Longrightarrow> enKind e = KindCIDR"
proof (induction raws arbitrary: seen out)
  case (Cons raw raws)
  then show ?case by (auto split: sum.splits if_splits simp: map_sum_def)
qed simp

lemma Compile_build:
  assumes "Compile env spec = Inr p"
  obtains allow deny where "p = build env (spBlockAll spec) (poMode p) allow deny" "\<forall>e \<in> set deny. enKind e = KindCIDR"
    "ParseAllowList env (spAllowOut spec) (if spMaxHostnames spec \<le> 0 then MaxInlineHostnames else spMaxHostnames spec) = Inr allow"
    "ParseDenyList env (spDenyOut spec) = Inr deny" "poAllow p = allow" "poDeny p = deny"
proof -
  from assms obtain mode allow deny where *: "p = build env (spBlockAll spec) mode allow deny"
    "ParseAllowList env (spAllowOut spec) (if spMaxHostnames spec \<le> 0 then MaxInlineHostnames else spMaxHostnames spec) = Inr allow"
    "ParseDenyList env (spDenyOut spec) = Inr deny"
    by (auto simp: Compile_def Let_def split: sum.splits if_splits)
  then have "\<forall>e \<in> set deny. enKind e = KindCIDR" by (auto simp: ParseDenyList_def parseList_def dest: parseListLoop_kinds)
  with * show ?thesis by (intro that[of allow deny]) (simp_all add: build_head)
qed

text \<open>Property C18. A compiled policy decides every connection by its lists alone, with the documented precedence: block-all (or a
  deny of everything without an allow list) refuses; learn mode admits; a name is admitted by an allow entry that covers it
  and its port; an address by an allow network, and otherwise refused by a deny network; what no entry decides is refused
  exactly when there is an allow list and the deny list is empty or denies everything.  The name is the canonical one, an
  IP literal is matched as an address with its IPv4-mapped form undone.\<close>

theorem policy_decides_by_lists:
  assumes "Compile env spec = Inr p"
  shows "fst (MatchHostPort env p name port) =
    (case ParseAddr (trimSet ''[]'' name) of
       Some ip \<Rightarrow> decideIP (spBlockAll spec) (poMode p) (poAllow p) (poDeny p) (Unmap ip)
     | None \<Rightarrow> decideName (spBlockAll spec) (poMode p) (poAllow p) (poDeny p) (canonicalName env name) port)"
proof -
  obtain allow deny where p: "p = build env (spBlockAll spec) (poMode p) allow deny" "\<forall>e \<in> set deny. enKind e = KindCIDR"
    and lists: "poAllow p = allow" "poDeny p = deny" using Compile_build[OF assms] by metis
  show ?thesis
  proof (cases "ParseAddr (trimSet ''[]'' name)")
    case None
    then show ?thesis using MatchHostPort_build[OF None, of env "spBlockAll spec" "poMode p" allow deny port] p(1) lists by simp
  next
    case (Some ip)
    then have "MatchHostPort env p name port = MatchIP p ip port" by (simp add: MatchHostPort_def)
    with Some MatchIP_build[OF p(2), of env "spBlockAll spec" "poMode p" allow ip port] p(1) lists show ?thesis by simp
  qed
qed

definition plainEgress :: egressEnv where
  "plainEgress =
     \<lparr>eeToLower = id, eeToASCII = Some, eePublicSuffix = (\<lambda>name. (last (splitOn CHR ''.'' name), True)), eeSHA256 = id\<rparr>"

definition webSpecOut :: Spec where
  "webSpecOut = \<lparr>spAllowOut = [''*.a.io''], spDenyOut = [], spBlockAll = False, spMode = [], spMaxHostnames = 0\<rparr>"

lemmas [entry_eval] = parseEntry_def parseHost_def entryPort_def isIPLiteral_def splitWildcard_def normalizeHostname_def isPublicSuffix_def
  validateLabels_def labelReason_def trimSuffixDot_def toLower_def isASCII_def isASCIIChar_def lowerChar_def utf8Lead_def byteIn_def
  ParseAddr_def parseIPv4_def ParseAddrPort_def cutLast_def trimSet_def isDigit_def MaxHostnameLength_def maxLabelLength_def
  maxRawEntryLength_def Let_def

lemma wildcard_entry:
  "parseEntry plainEgress ''*.a.io'' = Inr \<lparr>enKind = KindWildcard, enPrefix = noPrefix, enHost = ''a.io'', enPort = 0\<rparr>"
  by (simp add: entry_eval plainEgress_def visibleChar_def)

definition webEntry :: Entry where
  "webEntry = \<lparr>enKind = KindWildcard, enPrefix = noPrefix, enHost = ''a.io'', enPort = 0\<rparr>"

definition webPolicy :: Policy where "webPolicy = build plainEgress False ModeEnforce [webEntry] []"

lemma webPolicy_compiled: "Compile plainEgress webSpecOut = Inr webPolicy"
  by (simp add: Compile_def webSpecOut_def normalizeMode_def ParseAllowList_def ParseDenyList_def parseList_def wildcard_entry webPolicy_def
      webEntry_def CountHostnames_def IsHostname_def MaxInlineHostnames_def ModeEnforce_def ModeLearn_def)

lemma plain_names:
  "canonicalName plainEgress ''x.a.io'' = ''x.a.io''" "canonicalName plainEgress ''y.io'' = ''y.io''"
  "ParseAddr (trimSet ''[]'' ''x.a.io'') = None" "ParseAddr (trimSet ''[]'' ''y.io'') = None"
  by (simp_all add: canonicalName_def entry_eval visibleChar_def)

theorem policy_decides_by_lists_witness:
  "fst (MatchHostPort plainEgress webPolicy ''x.a.io'' 443) \<and> \<not> fst (MatchHostPort plainEgress webPolicy ''y.io'' 443)"
proof -
  have "poAllow webPolicy = [webEntry]" "poDeny webPolicy = []" "poMode webPolicy = ModeEnforce" by (simp_all add: webPolicy_def build_head)
  then show ?thesis
    using policy_decides_by_lists[OF webPolicy_compiled, of "''x.a.io''" 443] policy_decides_by_lists[OF webPolicy_compiled, of "''y.io''" 443]
    by (simp add: plain_names decideName_def allowsName_def defaultAllows_def blocksAll_def webSpecOut_def webEntry_def coversName_def
        coversPort_def suffix_def ModeEnforce_def ModeLearn_def)
qed

end
