(* ===== verification/Egress_Rules.thy ===== *)
theory Egress_Rules
  imports Egress_Policy
begin

text \<open>
  Method, path and binary rules that refine the hosts an allow list admits (\<^verbatim>\<open>pkg/egresspolicy/rules.go\<close>).  A compiled
  rule list is a list of rules; the source's nil list behaves as the empty one in every operation.  Of the standard
  library the theory models \<^verbatim>\<open>path.Clean\<close> on rooted paths, \<^verbatim>\<open>url.PathUnescape\<close> and \<^verbatim>\<open>http.CanonicalHeaderKey\<close>.
\<close>

section \<open>Library functions\<close>

text \<open>The rooted case of \<^verbatim>\<open>path.Clean\<close>: empty and dot segments vanish, a double dot drops the segment before it.\<close>

fun cleanSegments :: "string list \<Rightarrow> string list \<Rightarrow> string list" where
  "cleanSegments out [] = out"
| "cleanSegments out (x # xs) =
     (if x = [] \<or> x = ''.'' then cleanSegments out xs
      else if x = ''..'' then cleanSegments (butlast out) xs
      else cleanSegments (out @ [x]) xs)"

definition cleanRooted :: "string \<Rightarrow> string" where
  "cleanRooted p = ''/'' @ joinWith ''/'' (cleanSegments [] (splitOn CHR ''/'' (tl p)))"

fun pathUnescape :: "string \<Rightarrow> string option" where
  "pathUnescape [] = Some []"
| "pathUnescape (c # s) =
     (if c \<noteq> CHR ''%'' then map_option ((#) c) (pathUnescape s)
      else (case s of
              a # b # rest \<Rightarrow>
                if isHexDigit a \<and> isHexDigit b
                then map_option ((#) (char_of (hexDigitVal a * 16 + hexDigitVal b))) (pathUnescape rest)
                else None
            | _ \<Rightarrow> None))"

definition headerByte :: "char \<Rightarrow> bool" where
  "headerByte c \<longleftrightarrow> isDigit c \<or> (CHR ''a'' \<le> c \<and> c \<le> CHR ''z'') \<or> (CHR ''A'' \<le> c \<and> c \<le> CHR ''Z'') \<or> c \<in> set ''!#$%&*+-.^_`|~'' \<or> of_char c = (39 :: nat)"

definition upperChar :: "char \<Rightarrow> char" where
  "upperChar c = (if CHR ''a'' \<le> c \<and> c \<le> CHR ''z'' then char_of (of_char c - 32 :: nat) else c)"

fun headerCase :: "bool \<Rightarrow> string \<Rightarrow> string" where
  "headerCase up [] = []"
| "headerCase up (c # s) = (if up then upperChar c else lowerChar c) # headerCase (c = CHR ''-'') s"

definition CanonicalHeaderKey :: "string \<Rightarrow> string" where
  "CanonicalHeaderKey h = (if list_all headerByte h then headerCase True h else h)"

section \<open>Rules\<close>

definition MaxRules :: nat where "MaxRules = 32"
definition maxRuleBinaries :: nat where "maxRuleBinaries = 16"
definition maxRuleMethods :: nat where "maxRuleMethods = 16"
definition maxRulePaths :: nat where "maxRulePaths = 32"
definition maxRulePathLen :: nat where "maxRulePathLen = 256"
definition maxRuleTokenLen :: nat where "maxRuleTokenLen = 32"
definition maxRequestPathLen :: nat where "maxRequestPathLen = 4096"

record InjectSpec =
  inHeader :: string
  inSecretRef :: string

record RuleSpec =
  rsHost :: string
  rsPorts :: "nat list"
  rsMethods :: "string list"
  rsPaths :: "string list"
  rsInspect :: bool
  rsInject :: "InjectSpec option"
  rsBinaries :: "string list"

record Rule =
  ruIndex :: nat
  ruHost :: Entry
  ruPorts :: "nat list"
  ruMethods :: "string list"
  ruPaths :: "string list"
  ruInspect :: bool
  ruInject :: "InjectSpec option"
  ruBinaries :: "string list"

datatype ruleReason =
  RuleBadHost | RuleBadHeader | RuleBadSecretRef | RuleInjectNeedsInspect | RuleManyBinaries | RuleBadBinary | RuleBadPort
  | RuleEncryptedPort | RuleInjectInClear | RuleNotAllowed | RuleManyMethods | RuleBadMethod | RuleManyPaths | RuleBadPath

datatype ruleError = TooManyRules | RulesNeedAllowList | BadRule nat ruleReason

definition isEnvKey :: "string \<Rightarrow> bool" where
  "isEnvKey k \<longleftrightarrow>
     k \<noteq> [] \<and> length k \<le> 128 \<and>
     list_all (\<lambda>(i, c). c = CHR ''_'' \<or> (CHR ''A'' \<le> c \<and> c \<le> CHR ''Z'') \<or> (CHR ''a'' \<le> c \<and> c \<le> CHR ''z'') \<or> (i > 0 \<and> isDigit c)) (enumerate 0 k)"

definition InjectEnvKey :: "string \<Rightarrow> string option" where
  "InjectEnvKey ref = (case cutPrefix ref ''env:'' of None \<Rightarrow> None | Some key \<Rightarrow> if isEnvKey key then Some key else None)"

definition reservedInjectHeaders :: "string list" where
  "reservedInjectHeaders =
     [''host'', ''content-length'', ''transfer-encoding'', ''connection'', ''upgrade'', ''te'', ''trailer'', ''keep-alive'',
      ''proxy-authorization'', ''proxy-connection'']"

definition isHeaderToken :: "string \<Rightarrow> bool" where
  "isHeaderToken h \<longleftrightarrow>
     h \<noteq> [] \<and> length h \<le> 64 \<and>
     list_all (\<lambda>c. c = CHR ''-'' \<or> isDigit c \<or> (CHR ''A'' \<le> c \<and> c \<le> CHR ''Z'') \<or> (CHR ''a'' \<le> c \<and> c \<le> CHR ''z'')) h"

definition isMethodToken :: "string \<Rightarrow> bool" where
  "isMethodToken m \<longleftrightarrow>
     m \<noteq> [] \<and> length m \<le> maxRuleTokenLen \<and> list_all (\<lambda>c. (CHR ''A'' \<le> c \<and> c \<le> CHR ''Z'') \<or> c = CHR ''-'' \<or> c = CHR ''_'') m"

section \<open>Compiling\<close>

text \<open>The first error of a list of checks.\<close>

fun firstError :: "('a \<Rightarrow> 'e option) \<Rightarrow> 'a list \<Rightarrow> 'e option" where
  "firstError f [] = None"
| "firstError f (x # xs) = (case f x of Some e \<Rightarrow> Some e | None \<Rightarrow> firstError f xs)"

definition ruleInject :: "egressEnv \<Rightarrow> RuleSpec \<Rightarrow> ruleReason + InjectSpec option" where
  "ruleInject env s =
     (case rsInject s of
        None \<Rightarrow> Inr None
      | Some i \<Rightarrow>
          let h = CanonicalHeaderKey (trimSpace (inHeader i))
          in if \<not> isHeaderToken h \<or> toLower env h \<in> set reservedInjectHeaders then Inl RuleBadHeader
             else if InjectEnvKey (inSecretRef i) = None then Inl RuleBadSecretRef
             else if \<not> rsInspect s then Inl RuleInjectNeedsInspect
             else Inr (Some \<lparr>inHeader = h, inSecretRef = inSecretRef i\<rparr>))"

definition rulePorts :: "RuleSpec \<Rightarrow> nat list" where
  "rulePorts s = (if rsPorts s = [] then (if rsInspect s then [443] else [80]) else rsPorts s)"

definition badBinary :: "string \<Rightarrow> ruleReason option" where
  "badBinary b =
     (if \<not> prefix ''/'' b \<or> length b > maxRulePathLen \<or> cleanRooted b \<noteq> b \<or> char_of (0 :: nat) \<in> set b then Some RuleBadBinary else None)"

definition connOnly :: "RuleSpec \<Rightarrow> bool" where
  "connOnly s \<longleftrightarrow> rsBinaries s \<noteq> [] \<and> rsMethods s = [] \<and> rsPaths s = [] \<and> rsInject s = None \<and> \<not> rsInspect s"

definition ruleProbe :: "Entry \<Rightarrow> string" where
  "ruleProbe e = (if enKind e = KindWildcard then ''aerolvm-rule.'' @ enHost e else enHost e)"

definition badPort :: "egressEnv \<Rightarrow> RuleSpec \<Rightarrow> Policy option \<Rightarrow> Entry \<Rightarrow> nat \<Rightarrow> ruleReason option" where
  "badPort env s pol e p =
     (if p \<noteq> 80 \<and> p \<noteq> 443 \<and> \<not> connOnly s then Some RuleBadPort
      else if p = 443 \<and> \<not> rsInspect s \<and> \<not> connOnly s then Some RuleEncryptedPort
      else if p = 80 \<and> rsInject s \<noteq> None then Some RuleInjectInClear
      else (case pol of
              None \<Rightarrow> None
            | Some pol \<Rightarrow>
                let (ok, rule) = MatchHostPort env pol (ruleProbe e) p in if \<not> ok \<or> rule = [] then Some RuleNotAllowed else None))"

definition badMethod :: "string \<Rightarrow> ruleReason option" where
  "badMethod m = (if isMethodToken m then None else Some RuleBadMethod)"

definition badPath :: "string \<Rightarrow> ruleReason option" where
  "badPath p =
     (if \<not> prefix ''/'' p \<or> length p > maxRulePathLen \<or> list_ex (\<lambda>c. c \<in> set ''?# %'' \<or> of_char c = (9 :: nat)) p \<or> \<not> validPathGlob p
      then Some RuleBadPath else None)"

definition compileRule :: "egressEnv \<Rightarrow> nat \<Rightarrow> RuleSpec \<Rightarrow> Policy option \<Rightarrow> ruleReason + Rule" where
  "compileRule env i s pol =
     (case parseEntry env (rsHost s) of
        Inl _ \<Rightarrow> Inl RuleBadHost
      | Inr e \<Rightarrow>
          if \<not> IsHostname e \<or> enPort e \<noteq> 0 then Inl RuleBadHost
          else (case ruleInject env s of
                  Inl r \<Rightarrow> Inl r
                | Inr inject \<Rightarrow>
                    if length (rsBinaries s) > maxRuleBinaries then Inl RuleManyBinaries
                    else (case firstError badBinary (rsBinaries s) of
                            Some r \<Rightarrow> Inl r
                          | None \<Rightarrow>
                              (case firstError (badPort env s pol e) (rulePorts s) of
                                 Some r \<Rightarrow> Inl r
                               | None \<Rightarrow>
                                   if length (rsMethods s) > maxRuleMethods then Inl RuleManyMethods
                                   else (case firstError badMethod (rsMethods s) of
                                           Some r \<Rightarrow> Inl r
                                         | None \<Rightarrow>
                                             if length (rsPaths s) > maxRulePaths then Inl RuleManyPaths
                                             else (case firstError badPath (rsPaths s) of
                                                     Some r \<Rightarrow> Inl r
                                                   | None \<Rightarrow>
                                                       Inr \<lparr>ruIndex = i, ruHost = e, ruPorts = rulePorts s, ruMethods = rsMethods s,
                                                            ruPaths = rsPaths s, ruInspect = rsInspect s, ruInject = inject,
                                                            ruBinaries = rsBinaries s\<rparr>))))))"

fun compileAll :: "egressEnv \<Rightarrow> Policy option \<Rightarrow> nat \<Rightarrow> RuleSpec list \<Rightarrow> ruleError + Rule list" where
  "compileAll env pol i [] = Inr []"
| "compileAll env pol i (s # ss) =
     (case compileRule env i s pol of
        Inl r \<Rightarrow> Inl (BadRule i r)
      | Inr r \<Rightarrow> map_sum id ((#) r) (compileAll env pol (i + 1) ss))"

definition CompileRules :: "egressEnv \<Rightarrow> RuleSpec list \<Rightarrow> Policy option \<Rightarrow> ruleError + Rule list" where
  "CompileRules env specs pol =
     (if specs = [] then Inr []
      else if length specs > MaxRules then Inl TooManyRules
      else if (case pol of None \<Rightarrow> False | Some pol \<Rightarrow> poBlockAll pol \<or> poMode pol = ModeLearn) then Inl RulesNeedAllowList
      else compileAll env pol 0 specs)"

section \<open>Deciding\<close>

record RuleDecision =
  rdRuled :: bool
  rdAllowed :: bool
  rdRule :: "Rule option"

definition ruleCovers :: "Rule \<Rightarrow> string \<Rightarrow> nat \<Rightarrow> bool" where
  "ruleCovers r name port \<longleftrightarrow> name \<noteq> [] \<and> coversName (ruHost r) name \<and> port \<in> set (ruPorts r)"

definition ruleAdmits :: "Rule \<Rightarrow> string \<Rightarrow> string \<Rightarrow> bool" where
  "ruleAdmits r method path \<longleftrightarrow>
     \<not> (ruMethods r \<noteq> [] \<and> method \<notin> set (ruMethods r)) \<and>
     (ruPaths r = [] \<or> list_ex (\<lambda>p. matchPathGlob p path) (ruPaths r))"

fun decideLoop :: "Rule list \<Rightarrow> string \<Rightarrow> nat \<Rightarrow> string \<Rightarrow> string \<Rightarrow> RuleDecision \<Rightarrow> RuleDecision" where
  "decideLoop [] name port method path d = d"
| "decideLoop (r # rs) name port method path d =
     (if \<not> ruleCovers r name port then decideLoop rs name port method path d
      else if ruleAdmits r method path then \<lparr>rdRuled = True, rdAllowed = True, rdRule = Some r\<rparr>
      else decideLoop rs name port method path (d\<lparr>rdRuled := True\<rparr>))"

definition Decide :: "egressEnv \<Rightarrow> Rule list \<Rightarrow> string \<Rightarrow> nat \<Rightarrow> string \<Rightarrow> string \<Rightarrow> RuleDecision" where
  "Decide env rs host port method path =
     decideLoop rs (canonicalName env host) port method path \<lparr>rdRuled = False, rdAllowed = False, rdRule = None\<rparr>"

definition admitsBinary :: "Rule \<Rightarrow> (string \<Rightarrow> bool) \<Rightarrow> bool" where
  "admitsBinary r isBin = list_ex isBin (ruBinaries r)"

fun admitLoop :: "Rule list \<Rightarrow> string \<Rightarrow> nat \<Rightarrow> (string \<Rightarrow> bool) \<Rightarrow> Rule list \<Rightarrow> bool \<Rightarrow> bool \<Rightarrow> Rule list \<times> bool \<times> bool" where
  "admitLoop [] name port isBin out ruled admitted = (out, ruled, admitted)"
| "admitLoop (r # rs) name port isBin out ruled admitted =
     (if \<not> ruleCovers r name port then admitLoop rs name port isBin (out @ [r]) ruled admitted
      else if ruBinaries r = [] \<or> admitsBinary r isBin then admitLoop rs name port isBin (out @ [r]) True True
      else admitLoop rs name port isBin out True admitted)"

definition AdmitConn :: "egressEnv \<Rightarrow> Rule list \<Rightarrow> string \<Rightarrow> nat \<Rightarrow> (string \<Rightarrow> bool) \<Rightarrow> Rule list option" where
  "AdmitConn env rs host port isBin =
     (let (out, ruled, admitted) = admitLoop rs (canonicalName env host) port isBin [] False False
      in if ruled \<and> \<not> admitted then None else Some out)"

definition anyFor :: "egressEnv \<Rightarrow> Rule list \<Rightarrow> string \<Rightarrow> nat \<Rightarrow> (Rule \<Rightarrow> bool) \<Rightarrow> bool" where
  "anyFor env rs host port pred = (let name = canonicalName env host in list_ex (\<lambda>r. ruleCovers r name port \<and> pred r) rs)"

definition CanonicalRequestPath :: "egressEnv \<Rightarrow> string \<Rightarrow> string option" where
  "CanonicalRequestPath env rawPath =
     (if rawPath = [] \<or> rawPath ! 0 \<noteq> CHR ''/'' \<or> length rawPath > maxRequestPathLen then None
      else let lower = toLower env rawPath
           in if sublist ''%2f'' lower \<or> sublist ''%5c'' lower \<or> of_char ` set rawPath \<inter> {92 :: nat} \<noteq> {} then None
              else (case pathUnescape rawPath of
                      None \<Rightarrow> None
                    | Some decoded \<Rightarrow>
                        let segs = splitOn CHR ''/'' (tl decoded)
                        in if list_ex (\<lambda>(i, seg). (seg = [] \<and> i \<noteq> length segs - 1) \<or> seg = ''.'' \<or> seg = ''..'') (enumerate 0 segs)
                           then None else Some decoded))"

section \<open>Decisions as a whole\<close>

lemma decideLoop_iff:
  "rdAllowed (decideLoop rs name port method path d) \<longleftrightarrow> rdAllowed d \<or> list_ex (\<lambda>r. ruleCovers r name port \<and> ruleAdmits r method path) rs"
  "rdRuled (decideLoop rs name port method path d) \<longleftrightarrow> rdRuled d \<or> list_ex (\<lambda>r. ruleCovers r name port) rs"
  by (induction rs arbitrary: d) auto

lemma Decide_iff:
  "rdAllowed (Decide env rs host port method path) \<longleftrightarrow>
     (\<exists>r \<in> set rs. ruleCovers r (canonicalName env host) port \<and> ruleAdmits r method path)"
  "rdRuled (Decide env rs host port method path) \<longleftrightarrow> (\<exists>r \<in> set rs. ruleCovers r (canonicalName env host) port)"
  by (auto simp: Decide_def decideLoop_iff list_ex_iff)

abbreviation admittedBy :: "(string \<Rightarrow> bool) \<Rightarrow> Rule \<Rightarrow> bool" where
  "admittedBy isBin r \<equiv> ruBinaries r = [] \<or> admitsBinary r isBin"

lemma admitLoop_filter:
  "admitLoop rs name port isBin out ruled admitted =
     (out @ filter (\<lambda>r. \<not> ruleCovers r name port \<or> admittedBy isBin r) rs,
      ruled \<or> list_ex (\<lambda>r. ruleCovers r name port) rs,
      admitted \<or> list_ex (\<lambda>r. ruleCovers r name port \<and> admittedBy isBin r) rs)"
  by (induction rs arbitrary: out ruled admitted) auto

lemma AdmitConn_iff:
  "AdmitConn env rs host port isBin =
     (let name = canonicalName env host
      in if (\<exists>r \<in> set rs. ruleCovers r name port) \<and> \<not> (\<exists>r \<in> set rs. ruleCovers r name port \<and> admittedBy isBin r) then None
         else Some (filter (\<lambda>r. \<not> ruleCovers r name port \<or> admittedBy isBin r) rs))"
  by (auto simp: AdmitConn_def admitLoop_filter Let_def list_ex_iff)

text \<open>Holding a connection to the rules' binaries and then its requests to the rules is sound and complete: when the
  connection is admitted, a request on it is allowed exactly when one rule for its host and port names no binary or one
  that is the process, and admits the method and the path; the connection stays ruled exactly when it was; and when the
  connection is refused, a rule names its host and port and none of those rules admits the process.\<close>

theorem admitted_requests_decided:
  "case AdmitConn env rs host port isBin of
    Some rs' \<Rightarrow>
      (rdAllowed (Decide env rs' host port verb path) \<longleftrightarrow>
         (\<exists>r \<in> set rs. ruleCovers r (canonicalName env host) port \<and> (ruBinaries r = [] \<or> list_ex isBin (ruBinaries r)) \<and>
            ruleAdmits r verb path)) \<and>
      (rdRuled (Decide env rs' host port verb path) \<longleftrightarrow> rdRuled (Decide env rs host port verb path))
  | None \<Rightarrow>
      rdRuled (Decide env rs host port verb path) \<and>
      (\<forall>r \<in> set rs. ruleCovers r (canonicalName env host) port \<longrightarrow> ruBinaries r \<noteq> [] \<and> \<not> list_ex isBin (ruBinaries r))"
  unfolding AdmitConn_iff Let_def
  by (auto simp: Decide_iff admitsBinary_def split: option.split if_splits)

section \<open>Paths\<close>

definition pathSegments :: "string \<Rightarrow> string list" where
  "pathSegments p = splitOn CHR ''/'' (tl p)"

lemma segGlob_self: "CHR ''*'' \<notin> set p \<Longrightarrow> segGlob p s \<longleftrightarrow> s = p"
  using segGlob_literal[of p "[]" s] by (auto simp: take_all_iff)

lemma pathGlob_literal_prefix:
  assumes "\<forall>x \<in> set pre. CHR ''*'' \<notin> set x" "pathGlob (pre @ ps) xs"
  shows "prefix pre xs"
  using assms
proof (induction pre arbitrary: xs)
  case (Cons x pre)
  then have "x \<noteq> ''**''" by auto
  with Cons show ?case by (cases xs) (auto simp: segGlob_self)
qed simp

lemma CanonicalRequestPath_segments:
  assumes "CanonicalRequestPath env raw = Some path"
  shows "''.'' \<notin> set (pathSegments path)" "''..'' \<notin> set (pathSegments path)" "[] \<notin> set (butlast (pathSegments path))"
proof -
  let ?segs = "pathSegments path"
  have "\<not> list_ex (\<lambda>(i, seg). (seg = [] \<and> i \<noteq> length ?segs - 1) \<or> seg = ''.'' \<or> seg = ''..'') (enumerate 0 ?segs)"
    using assms by (auto simp: CanonicalRequestPath_def pathSegments_def Let_def split: if_splits option.splits)
  then have *: "\<not> ((?segs ! i = [] \<and> i \<noteq> length ?segs - 1) \<or> ?segs ! i = ''.'' \<or> ?segs ! i = ''..'')" if "i < length ?segs" for i
    using that by (auto simp: list_ex_iff in_set_enumerate_eq)
  then show "''.'' \<notin> set ?segs" "''..'' \<notin> set ?segs" by (auto simp: in_set_conv_nth)
  show "[] \<notin> set (butlast ?segs)"
  proof
    assume "[] \<in> set (butlast ?segs)"
    then obtain i where "i < length ?segs - 1" "butlast ?segs ! i = []" by (auto simp: in_set_conv_nth)
    moreover from this have "i < length ?segs" by linarith
    ultimately show False using *[of i] by (simp add: nth_butlast)
  qed
qed

text \<open>Property C20. When every rule for a host and port confines its paths to one literal directory, an allowed request whose path
  the proxy canonicalised lies in that directory: the segments of the decoded path start with those of the directory, none
  of them is a dot or a double dot, and none but the last is empty, so no server can resolve the request outside it.\<close>

theorem ruled_paths_stay_inside:
  assumes "CanonicalRequestPath env raw = Some path" "rdAllowed (Decide env rs host port method path)"
    and "\<forall>r \<in> set rs. ruleCovers r (canonicalName env host) port \<longrightarrow>
           ruPaths r \<noteq> [] \<and> (\<forall>pat \<in> set (ruPaths r). prefix dir (pathSegments pat))"
    and "\<forall>x \<in> set dir. CHR ''*'' \<notin> set x"
  shows "prefix dir (pathSegments path) \<and> ''.'' \<notin> set (pathSegments path) \<and> ''..'' \<notin> set (pathSegments path) \<and>
    [] \<notin> set (butlast (pathSegments path))"
proof -
  obtain r where r: "r \<in> set rs" "ruleCovers r (canonicalName env host) port" "ruleAdmits r method path"
    using assms(2) by (auto simp: Decide_iff)
  with assms(3) have "ruPaths r \<noteq> []" and pre: "\<forall>pat \<in> set (ruPaths r). prefix dir (pathSegments pat)" by auto
  with r(3) obtain pat where pat: "pat \<in> set (ruPaths r)" "pathGlob (pathSegments pat) (pathSegments path)"
    by (auto simp: ruleAdmits_def list_ex_iff matchPathGlob_segments pathSegments_def)
  then obtain ps where "pathSegments pat = dir @ ps" using pre by (auto simp: prefix_def)
  with pat(2) assms(4) have "prefix dir (pathSegments path)" by (metis pathGlob_literal_prefix)
  with CanonicalRequestPath_segments[OF assms(1)] show ?thesis by simp
qed

section \<open>Injected credentials\<close>

lemma firstError_None: "firstError f xs = None \<longleftrightarrow> (\<forall>x \<in> set xs. f x = None)"
  by (induction xs) (auto split: option.split)

lemma compileRule_Inr:
  assumes "compileRule env i s pol = Inr r"
  shows "\<forall>p \<in> set (ruPorts r). badPort env s pol (ruHost r) p = None" "ruPorts r = rulePorts s" "ruInspect r = rsInspect s"
    "ruleInject env s = Inr (ruInject r)" "IsHostname (ruHost r)" "\<forall>p \<in> set (ruPaths r). badPath p = None"
  using assms by (auto simp: compileRule_def firstError_None split: sum.splits if_splits option.splits)

lemma badPort_None:
  assumes "badPort env s pol e p = None"
  shows "pol = Some q \<Longrightarrow> fst (MatchHostPort env q (ruleProbe e) p)" "rsInject s \<noteq> None \<Longrightarrow> p = 443"
  using assms by (simp_all add: badPort_def connOnly_def case_prod_beta Let_def split: if_split_asm)

lemma ruleInject_Some:
  assumes "ruleInject env s = Inr (Some i)"
  shows "rsInject s \<noteq> None \<and> rsInspect s \<and> isHeaderToken (inHeader i) \<and> toLower env (inHeader i) \<notin> set reservedInjectHeaders \<and>
    InjectEnvKey (inSecretRef i) \<noteq> None"
  using assms by (cases "rsInject s") (auto simp: ruleInject_def Let_def split: if_split_asm)

lemma compileAll_Inr:
  "compileAll env pol i specs = Inr rs \<Longrightarrow> r \<in> set rs \<Longrightarrow> \<exists>j s. s \<in> set specs \<and> compileRule env j s pol = Inr r"
proof (induction specs arbitrary: i rs)
  case (Cons s specs)
  then obtain r' rs' where "compileRule env i s pol = Inr r'" "compileAll env pol (i + 1) specs = Inr rs'" "rs = r' # rs'"
    by (auto simp: map_sum_def split: sum.splits)
  with Cons.IH[of "i + 1" rs'] Cons.prems(2) show ?case by (cases "r = r'") auto
qed simp

lemma CompileRules_Inr:
  assumes "CompileRules env specs pol = Inr rs" "r \<in> set rs"
  obtains j s where "s \<in> set specs" "compileRule env j s pol = Inr r"
  using assms compileAll_Inr[of env pol 0 specs rs r] by (auto simp: CompileRules_def split: if_splits)

text \<open>A compiled rule that injects a credential works inside TLS only: it inspects, 443 is its only port, its header
  is a plain token that neither frames nor routes the request, and its value comes from a well-formed environment key;
  and a rule compiled against a policy names a host that policy admits on every port of the rule.\<close>

theorem injected_credentials_stay_in_tls:
  assumes "CompileRules env specs pol = Inr rs" "r \<in> set rs"
  shows "(case ruInject r of
            None \<Rightarrow> True
          | Some i \<Rightarrow> ruInspect r \<and> set (ruPorts r) = {443} \<and> isHeaderToken (inHeader i) \<and>
              toLower env (inHeader i) \<notin> set reservedInjectHeaders \<and> InjectEnvKey (inSecretRef i) \<noteq> None) \<and>
    (case pol of
       None \<Rightarrow> True
     | Some p \<Rightarrow> (\<forall>port \<in> set (ruPorts r). fst (MatchHostPort env p (ruleProbe (ruHost r)) port)))"
proof -
  obtain j s where s: "s \<in> set specs" "compileRule env j s pol = Inr r" using CompileRules_Inr[OF assms] .
  note r = compileRule_Inr[OF s(2)]
  have "fst (MatchHostPort env p (ruleProbe (ruHost r)) port)" if "pol = Some p" "port \<in> set (ruPorts r)" for p port
    using badPort_None(1) r(1) that by blast
  moreover have "ruInspect r \<and> set (ruPorts r) = {443} \<and> isHeaderToken (inHeader i) \<and>
      toLower env (inHeader i) \<notin> set reservedInjectHeaders \<and> InjectEnvKey (inSecretRef i) \<noteq> None" if "ruInject r = Some i" for i
  proof -
    from r(4) that have i0: "rsInject s \<noteq> None \<and> rsInspect s \<and> isHeaderToken (inHeader i) \<and>
        toLower env (inHeader i) \<notin> set reservedInjectHeaders \<and> InjectEnvKey (inSecretRef i) \<noteq> None"
      by (intro ruleInject_Some) simp
    then have "\<forall>port \<in> set (ruPorts r). port = 443" using r(1) badPort_None(2) by blast
    moreover have "ruPorts r \<noteq> []" using r(2) by (simp add: rulePorts_def)
    ultimately have "set (ruPorts r) = {443}" by (cases "ruPorts r") auto
    with i0 r(3) show ?thesis by simp
  qed
  ultimately show ?thesis by (cases "ruInject r"; cases pol) simp_all
qed

section \<open>An example\<close>

definition apiEntry :: Entry where
  "apiEntry = \<lparr>enKind = KindHost, enPrefix = noPrefix, enHost = ''a.io'', enPort = 0\<rparr>"

definition apiRule :: Rule where
  "apiRule = \<lparr>ruIndex = 0, ruHost = apiEntry, ruPorts = [443], ruMethods = [''GET''], ruPaths = [''/r/**''], ruInspect = True,
     ruInject = Some \<lparr>inHeader = ''X-Key'', inSecretRef = ''env:K''\<rparr>, ruBinaries = [''/b'']\<rparr>"

definition apiSpec :: RuleSpec where
  "apiSpec = \<lparr>rsHost = ''a.io'', rsPorts = [], rsMethods = [''GET''], rsPaths = [''/r/**''], rsInspect = True,
     rsInject = Some \<lparr>inHeader = ''x-key'', inSecretRef = ''env:K''\<rparr>, rsBinaries = [''/b'']\<rparr>"

lemma apiEntry_parsed: "parseEntry plainEgress ''a.io'' = Inr apiEntry"
  by (simp add: entry_eval plainEgress_def apiEntry_def visibleChar_def)

lemma api_name: "canonicalName plainEgress ''a.io'' = ''a.io''"
  by (simp add: canonicalName_def entry_eval visibleChar_def)

lemma api_covers: "ruleCovers apiRule ''a.io'' 443"
  by (simp add: ruleCovers_def apiRule_def apiEntry_def coversName_def)

lemma api_admits: "ruleAdmits apiRule ''GET'' ''/r/x''"
  by (simp add: ruleAdmits_def apiRule_def matchPathGlob_segments) (rule exI[of _ 1], simp)

lemma char_codes:
  "char_of (120 :: nat) = CHR ''x''" "char_of (107 :: nat) = CHR ''k''" "char_of (88 :: nat) = CHR ''X''"
  "char_of (75 :: nat) = CHR ''K''" "char_of (0 :: nat) = CHR 0x00"
  by code_simp+

lemma api_path: "CanonicalRequestPath plainEgress ''/r/%78'' = Some ''/r/x''"
  by (simp add: CanonicalRequestPath_def maxRequestPathLen_def toLower_def isASCII_def isASCIIChar_def lowerChar_def sublist_Cons_right
      isHexDigit_def isDigit_def hexDigitVal_def char_codes)

lemma apiSpec_compiled: "CompileRules plainEgress [apiSpec] None = Inr [apiRule]"
  by (simp add: CompileRules_def MaxRules_def compileRule_def apiSpec_def apiEntry_parsed IsHostname_def apiEntry_def ruleInject_def
      CanonicalHeaderKey_def headerByte_def isDigit_def upperChar_def lowerChar_def isHeaderToken_def toLower_def isASCII_def
      isASCIIChar_def reservedInjectHeaders_def InjectEnvKey_def cutPrefix_def isEnvKey_def maxRuleBinaries_def badBinary_def
      maxRulePathLen_def cleanRooted_def joinWith_def badPort_def rulePorts_def maxRuleMethods_def badMethod_def isMethodToken_def
      maxRuleTokenLen_def maxRulePaths_def badPath_def validPathGlob_def sublist_Cons_right apiRule_def Let_def visibleChar_def char_codes)

theorem admitted_requests_decided_witness:
  "case AdmitConn plainEgress [apiRule] ''a.io'' 443 (\<lambda>b. b = ''/b'') of
     None \<Rightarrow> False
   | Some rs \<Rightarrow> rdAllowed (Decide plainEgress rs ''a.io'' 443 ''GET'' ''/r/x'')"
proof -
  have conn: "AdmitConn plainEgress [apiRule] ''a.io'' 443 (\<lambda>b. b = ''/b'') = Some [apiRule]"
    using api_covers by (simp add: AdmitConn_def api_name admitsBinary_def) (simp add: apiRule_def)
  show ?thesis
    using admitted_requests_decided[where env = plainEgress and rs = "[apiRule]" and host = "''a.io''" and port = 443 and
        isBin = "\<lambda>b. b = ''/b''" and verb = "''GET''" and path = "''/r/x''"] api_covers api_admits
    by (simp add: conn api_name) (simp add: apiRule_def)
qed

theorem ruled_paths_stay_inside_witness:
  "CanonicalRequestPath plainEgress ''/r/%78'' = Some ''/r/x'' \<and> prefix [''r''] (pathSegments ''/r/x'') \<and>
   ''..'' \<notin> set (pathSegments ''/r/x'')"
proof -
  have "rdAllowed (Decide plainEgress [apiRule] ''a.io'' 443 ''GET'' ''/r/x'')"
    using api_covers api_admits by (simp add: Decide_iff api_name)
  moreover have "\<forall>r \<in> set [apiRule]. ruleCovers r (canonicalName plainEgress ''a.io'') 443 \<longrightarrow>
      ruPaths r \<noteq> [] \<and> (\<forall>pat \<in> set (ruPaths r). prefix [''r''] (pathSegments pat))"
    by (simp add: apiRule_def pathSegments_def)
  ultimately show ?thesis using ruled_paths_stay_inside[OF api_path, of "[apiRule]" "''a.io''" 443 "''GET''" "[''r'']"] api_path by simp
qed

theorem injected_credentials_stay_in_tls_witness:
  "CompileRules plainEgress [apiSpec] None = Inr [apiRule] \<and> ruInject apiRule \<noteq> None \<and> set (ruPorts apiRule) = {443}"
  using injected_credentials_stay_in_tls[OF apiSpec_compiled, of apiRule] apiSpec_compiled by (simp add: apiRule_def)

end
