(* ===== verification/Egress_Ceiling.thy ===== *)
theory Egress_Ceiling
  imports Egress_Policy Egress_Profiles
begin

text \<open>
  The operator's ceiling (\<^verbatim>\<open>pkg/egresspolicy/ceiling.go\<close>): a list that every allow entry of every policy must fit inside.
  The theory shows what fitting gives for the connections a policy admits, and that the ports of ceiling wildcards are
  not looked at.
\<close>

record Ceiling =
  ceHosts :: "string \<rightharpoonup> Entry list"
  ceWild :: "string set"
  ceCIDRs :: "Prefix list"

datatype ceilingError = CeilingShape | CeilingEntry string

definition addCeiling :: "Entry \<Rightarrow> Ceiling \<Rightarrow> Ceiling" where
  "addCeiling e c =
     (case enKind e of
        KindCIDR \<Rightarrow> c\<lparr>ceCIDRs := ceCIDRs c @ [enPrefix e]\<rparr>
      | KindHost \<Rightarrow> c\<lparr>ceHosts := (ceHosts c)(enHost e \<mapsto> entriesAt (ceHosts c) (enHost e) @ [e])\<rparr>
      | KindWildcard \<Rightarrow> c\<lparr>ceWild := insert (enHost e) (ceWild c)\<rparr>)"

definition ceilingOf :: "Entry list \<Rightarrow> Ceiling" where
  "ceilingOf entries = fold addCeiling entries \<lparr>ceHosts = Map.empty, ceWild = {}, ceCIDRs = []\<rparr>"

definition NewCeiling :: "egressEnv \<Rightarrow> string list \<Rightarrow> egressError + Ceiling option" where
  "NewCeiling env allow =
     (case ParseAllowList env allow MaxUnionHostnames of
        Inl e \<Rightarrow> Inl e
      | Inr entries \<Rightarrow> if entries = [] then Inr None else Inr (Some (ceilingOf entries)))"

fun underDots :: "string set \<Rightarrow> string \<Rightarrow> bool" where
  "underDots wild [] \<longleftrightarrow> False"
| "underDots wild (ch # rest) \<longleftrightarrow> (ch = CHR ''.'' \<and> rest \<in> wild) \<or> underDots wild rest"

definition underWildcard :: "Ceiling \<Rightarrow> string \<Rightarrow> bool \<Rightarrow> bool" where
  "underWildcard c name orEqual \<longleftrightarrow> (orEqual \<and> name \<in> ceWild c) \<or> underDots (ceWild c) name"

definition prefixInside :: "Prefix \<Rightarrow> Prefix \<Rightarrow> bool" where
  "prefixInside outer p \<longleftrightarrow>
     addrBitLen (pfIP outer) = addrBitLen (pfIP p) \<and> pfBits outer \<le> pfBits p \<and> prefixContains outer (pfIP p)"

definition ceilingCovers :: "Ceiling \<Rightarrow> Entry \<Rightarrow> bool" where
  "ceilingCovers c e \<longleftrightarrow>
     (case enKind e of
        KindCIDR \<Rightarrow> list_ex (\<lambda>cp. prefixInside cp (enPrefix e)) (ceCIDRs c)
      | KindHost \<Rightarrow> list_ex (\<lambda>ch. enPort ch = 0 \<or> enPort ch = enPort e) (entriesAt (ceHosts c) (enHost e)) \<or> underWildcard c (enHost e) False
      | KindWildcard \<Rightarrow> underWildcard c (enHost e) True)"

definition Fits :: "Ceiling option \<Rightarrow> Policy \<Rightarrow> ceilingError option" where
  "Fits c0 p =
     (case c0 of
        None \<Rightarrow> None
      | Some c \<Rightarrow>
          if poBlockAll p \<or> poMode p = ModeLearn then None
          else if poVerdict p = VerdictAllow then Some CeilingShape
          else (case find (\<lambda>e. \<not> ceilingCovers c e) (poAllow p) of
                  None \<Rightarrow> None
                | Some e \<Rightarrow> Some (CeilingEntry (entryString e))))"

section \<open>What fitting gives\<close>

interpretation ceilingNames: entry_table addCeiling "\<lambda>c. entriesAt (ceHosts c)" "filesAt KindHost"
  by unfold_locales (simp add: addCeiling_def entriesAt_def filesAt_def split: Kind.split)

interpretation ceilingNetworks: entry_table addCeiling "\<lambda>c u. ceCIDRs c" filesNetwork
  by unfold_locales (simp add: addCeiling_def filesNetwork_def split: Kind.split)

lemma addCeiling_wild: "ceWild (fold addCeiling es c) = ceWild c \<union> enHost ` {e \<in> set es. enKind e = KindWildcard}"
  by (induction es arbitrary: c) (auto simp: addCeiling_def split: Kind.splits)

lemma ceilingOf_fields:
  "set (entriesAt (ceHosts (ceilingOf es)) h) = {e \<in> set es. enKind e = KindHost \<and> enHost e = h}"
  "ceWild (ceilingOf es) = enHost ` {e \<in> set es. enKind e = KindWildcard}"
  "set (ceCIDRs (ceilingOf es)) = enPrefix ` {e \<in> set es. enKind e = KindCIDR}"
  by (simp_all add: ceilingOf_def entriesAt_def[of Map.empty] addCeiling_wild
        ceilingNames.fold_look_set ceilingNetworks.fold_look_set[where k = "()"] filesAt_all filesNetwork_all)

lemma underDots_iff: "underDots wild s \<longleftrightarrow> (\<exists>l w. s = l @ CHR ''.'' # w \<and> w \<in> wild)"
proof (induction s)
  case (Cons c s)
  have "(c # s = l @ CHR ''.'' # w) \<longleftrightarrow> (l = [] \<and> c = CHR ''.'' \<and> s = w) \<or> (\<exists>l'. l = c # l' \<and> s = l' @ CHR ''.'' # w)" for l w
    by (cases l) auto
  with Cons show ?case by simp blast
qed simp

lemma top_bits_trans:
  fixes x y z :: "'w::len word"
  assumes "drop_bit i (x XOR y) = 0" "drop_bit j (y XOR z) = 0" "j \<le> i"
  shows "drop_bit i (x XOR z) = 0"
proof -
  have "drop_bit i (y XOR z) = drop_bit (i - j) (drop_bit j (y XOR z))" using assms(3) by simp
  then have "drop_bit i (y XOR z) = 0" unfolding assms(2) by simp
  moreover have "x XOR z = (x XOR y) XOR (y XOR z)" by (simp add: xor.assoc xor.left_commute)
  ultimately show ?thesis using assms(1) by (metis drop_bit_xor xor.right_neutral)
qed

lemma sameTop_trans:
  assumes "sameTop n a b" "sameTop m b c" "n \<le> m"
  shows "sameTop n a c"
  using assms by (cases a; cases b; cases c) (auto simp del: drop_bit_xor elim!: top_bits_trans)

lemma prefixInside_contains:
  assumes "prefixInside outer p" "prefixContains p ip"
  shows "prefixContains outer ip"
  using assms sameTop_trans[of "nat (pfBits outer)" "pfIP outer" "pfIP p" "nat (pfBits p)" ip]
  by (auto simp: prefixInside_def prefixContains_def nat_mono)

lemma parsed_host_head:
  assumes "parseEntry env raw = Inr e" "IsHostname e"
  shows "validateLabels (enHost e) True = None" "length (enHost e) \<le> MaxHostnameLength"
proof -
  have "\<exists>s. normalizeHostname env s = Inr (enHost e)"
    using assms by (auto simp: parseEntry_def parseHost_def parseCIDR_def IsHostname_def Let_def split: if_splits sum.splits option.splits prod.splits)
  then obtain s where "normalizeHostname env s = Inr (enHost e)" by blast
  then show "validateLabels (enHost e) True = None" "length (enHost e) \<le> MaxHostnameLength"
    by (auto simp: normalizeHostname_def Let_def split: if_splits option.splits)
qed

lemma parseListLoop_parsed: "parseListLoop env ok raws seen = Inr out \<Longrightarrow> e \<in> set out \<Longrightarrow> \<exists>raw \<in> set raws. parseEntry env raw = Inr e"
proof (induction raws arbitrary: seen out)
  case (Cons raw raws)
  then show ?case by (fastforce split: sum.splits if_splits simp: map_sum_def)
qed simp

lemma allow_host_head:
  assumes "ParseAllowList env raws k = Inr allow" "e \<in> set allow" "IsHostname e" "enHost e = l @ CHR ''.'' # w"
  shows "l \<noteq> []"
proof
  assume "l = []"
  from assms(1,2) obtain raw where "parseEntry env raw = Inr e"
    using parseListLoop_parsed[of env True raws "{}" allow e] by (auto simp: ParseAllowList_def parseList_def split: sum.splits if_splits)
  from validateLabels_None(1)[OF parsed_host_head(1)[OF this assms(3)]] assms(4) \<open>l = []\<close> show False by (simp add: labelReason_def)
qed

text \<open>What an allow entry under the ceiling opens, the ceiling names: the name is under a ceiling host or wildcard, and under a
  ceiling host that carries a port it is that port.\<close>

lemma covered_name:
  assumes "ceilingCovers (ceilingOf ces) e" "coversName e name" "coversPort e port"
    and "\<And>l w. enKind e = KindHost \<Longrightarrow> enHost e = l @ CHR ''.'' # w \<Longrightarrow> l \<noteq> []"
  shows "\<exists>ce \<in> set ces. coversName ce name \<and> (enKind ce = KindWildcard \<or> enPort ce = 0 \<or> coversPort ce port)"
proof (cases "enKind e")
  case KindCIDR
  with assms(2) show ?thesis by (simp add: coversName_def)
next
  case host: KindHost
  then have name: "name = enHost e" using assms(2) by (simp add: coversName_def)
  from assms(1) host consider ce where "ce \<in> set ces" "enKind ce = KindHost" "enHost ce = enHost e" "enPort ce = 0 \<or> enPort ce = enPort e"
    | l w where "enHost e = l @ CHR ''.'' # w" "w \<in> ceWild (ceilingOf ces)"
    by (auto simp: ceilingCovers_def underWildcard_def underDots_iff list_ex_iff ceilingOf_fields)
  then show ?thesis
  proof cases
    case 1
    then show ?thesis using assms(3) name by (intro bexI[of _ ce]) (auto simp: coversName_def coversPort_def)
  next
    case 2
    then obtain ce where "ce \<in> set ces" "enKind ce = KindWildcard" "enHost ce = w" by (auto simp: ceilingOf_fields)
    with 2 name assms(4)[OF host 2(1)] show ?thesis by (intro bexI[of _ ce]) (auto simp: coversName_wild)
  qed
next
  case wild: KindWildcard
  then obtain l where l: "l \<noteq> []" "name = l @ CHR ''.'' # enHost e" using assms(2) by (auto simp: coversName_wild)
  from assms(1) wild obtain m w where w: "CHR ''.'' # enHost e = m @ CHR ''.'' # w" "w \<in> ceWild (ceilingOf ces)"
    by (auto simp: ceilingCovers_def underWildcard_def underDots_iff) (metis append_Cons)
  then obtain ce where "ce \<in> set ces" "enKind ce = KindWildcard" "enHost ce = w" by (auto simp: ceilingOf_fields)
  with l w(1) show ?thesis by (intro bexI[of _ ce]) (auto simp: coversName_wild intro!: exI[of _ "l @ m"])
qed

lemma Fits_None:
  assumes "Fits (Some c) p = None" "\<not> poBlockAll p" "poMode p \<noteq> ModeLearn"
  shows "poVerdict p \<noteq> VerdictAllow" "\<forall>e \<in> set (poAllow p). ceilingCovers c e"
  using assms by (auto simp: Fits_def find_None_iff split: option.splits if_splits)

lemma covered_ip:
  assumes "holdsIP allow ip" "\<forall>e \<in> set allow. ceilingCovers (ceilingOf ces) e"
  shows "holdsIP ces ip"
proof -
  obtain e where e: "e \<in> set allow" "enKind e = KindCIDR" "prefixContains (enPrefix e) ip" using assms(1) by (auto simp: holdsIP_def list_ex_iff)
  with assms(2) have "ceilingCovers (ceilingOf ces) e" by blast
  with e(2) obtain ce where "ce \<in> set ces" "enKind ce = KindCIDR" "prefixInside (enPrefix ce) (enPrefix e)"
    by (auto simp: ceilingCovers_def list_ex_iff ceilingOf_fields)
  with prefixInside_contains e(3) show ?thesis by (auto simp: holdsIP_def list_ex_iff)
qed

text \<open>Property C22. A policy that is not in learn mode and fits the operator's ceiling admits only what the ceiling names: an address it admits lies in a
  ceiling network, and a name it admits is covered by a ceiling entry, which is a wildcard, a bare host, or a host whose
  port admits the connection.  A policy in learn mode is left out: it passes the fit
  whatever it lists and its matcher admits everything, so that the caller has to confine it.\<close>

theorem fitting_policy_stays_under_ceiling:
  assumes "NewCeiling env raws = Inr (Some c)" "ParseAllowList env raws MaxUnionHostnames = Inr ces" "Compile env spec = Inr p"
    and "Fits (Some c) p = None" "poMode p \<noteq> ModeLearn" "fst (MatchHostPort env p name port)"
  shows "case ParseAddr (trimSet ''[]'' name) of
    Some ip \<Rightarrow> holdsIP ces (Unmap ip)
  | None \<Rightarrow> \<exists>ce \<in> set ces. coversName ce (canonicalName env name) \<and> (enKind ce = KindWildcard \<or> enPort ce = 0 \<or> coversPort ce port)"
proof -
  obtain allow deny where p: "p = build env (spBlockAll spec) (poMode p) allow deny" "\<forall>e \<in> set deny. enKind e = KindCIDR"
    and lists: "poAllow p = allow" and parsed: "\<exists>k. ParseAllowList env (spAllowOut spec) k = Inr allow" using Compile_build[OF assms(3)] by metis
  have c: "c = ceilingOf ces" using assms(1,2) by (auto simp: NewCeiling_def split: if_splits)
  have nb: "\<not> blocksAll (spBlockAll spec) allow deny"
  proof
    assume "blocksAll (spBlockAll spec) allow deny"
    then have "poBlockAll p" using build_head(1) p(1) by metis
    with assms(6) show False by (auto simp: MatchHostPort_def MatchIP_def split: option.splits)
  qed
  then have "\<not> poBlockAll p" using build_head(1) p(1) by metis
  note fits = Fits_None[OF assms(4) this assms(5)]
  then have nd: "\<not> defaultAllows allow deny" using build_verdict[OF nb assms(5), of env] p(1) by simp
  from fits(2) have covers: "\<forall>e \<in> set allow. ceilingCovers (ceilingOf ces) e" by (simp add: c lists)
  show ?thesis
  proof (cases "ParseAddr (trimSet ''[]'' name)")
    case None
    have "decideName (spBlockAll spec) (poMode p) allow deny (canonicalName env name) port"
      using MatchHostPort_build[OF None, of env "spBlockAll spec" "poMode p" allow deny port] p(1) assms(6) by simp
    then obtain e where e: "e \<in> set allow" "coversName e (canonicalName env name)" "coversPort e port"
      using nd assms(5) by (auto simp: decideName_def allowsName_def list_ex_iff)
    have "l \<noteq> []" if "enKind e = KindHost" "enHost e = l @ CHR ''.'' # w" for l w
      using parsed allow_host_head e(1) that by (metis IsHostname_def)
    with covered_name[OF _ e(2,3)] covers e(1) None show ?thesis by simp
  next
    case (Some ip)
    then have "fst (MatchIP p ip port)" using assms(6) by (simp add: MatchHostPort_def)
    then have "decideIP (spBlockAll spec) (poMode p) allow deny (Unmap ip)"
      using MatchIP_build[OF p(2), of env "spBlockAll spec" "poMode p" allow ip port] p(1) by simp
    then have "holdsIP allow (Unmap ip)" using nd assms(5) by (simp add: decideIP_def)
    with Some covered_ip[OF _ covers] show ?thesis by simp
  qed
qed

section \<open>Ports of ceiling wildcards\<close>

definition portWild :: Entry where
  "portWild = \<lparr>enKind = KindWildcard, enPrefix = noPrefix, enHost = ''a.io'', enPort = 8443\<rparr>"

definition bareWildCeiling :: Ceiling where "bareWildCeiling = ceilingOf [webEntry]"

lemma bareWild_compiled: "ParseAllowList plainEgress [''*.a.io''] MaxUnionHostnames = Inr [webEntry]"
  "NewCeiling plainEgress [''*.a.io''] = Inr (Some bareWildCeiling)"
  by (simp_all add: NewCeiling_def ParseAllowList_def parseList_def wildcard_entry webEntry_def bareWildCeiling_def
      CountHostnames_def IsHostname_def MaxUnionHostnames_def)

lemma webPolicy_head: "poMode webPolicy \<noteq> ModeLearn" "\<not> poBlockAll webPolicy" "poAllow webPolicy = [webEntry]" "poVerdict webPolicy = VerdictDeny"
  by (simp_all add: webPolicy_def build_def Let_def buildVerdict_def ModeEnforce_def ModeLearn_def)

lemma webPolicy_admits: "fst (MatchHostPort plainEgress webPolicy ''x.a.io'' 443)"
  unfolding webPolicy_def MatchHostPort_build[OF plain_names(3)]
  by (simp add: plain_names decideName_def allowsName_def blocksAll_def webEntry_def coversName_def coversPort_def suffix_def)

theorem fitting_policy_stays_under_ceiling_witness:
  "Fits (Some bareWildCeiling) webPolicy = None \<and>
   list_ex (\<lambda>ce. coversName ce ''x.a.io'' \<and> (enKind ce = KindWildcard \<or> enPort ce = 0 \<or> coversPort ce 443)) [webEntry]"
proof -
  have "Fits (Some bareWildCeiling) webPolicy = None"
    by (simp add: Fits_def webPolicy_head bareWildCeiling_def ceilingCovers_def webEntry_def underWildcard_def ceilingOf_def addCeiling_def)
  with fitting_policy_stays_under_ceiling[OF bareWild_compiled(2,1) webPolicy_compiled this webPolicy_head(1) webPolicy_admits]
  show ?thesis by (simp add: plain_names)
qed

lemma portWild_parsed: "parseEntry plainEgress ''*.a.io:8443'' = Inr portWild"
  by (simp add: entry_eval parsePort_def parseUint_def decVal_def plainEgress_def portWild_def visibleChar_def)

definition portSpec :: Spec where
  "portSpec = \<lparr>spAllowOut = [''*.a.io:8443''], spDenyOut = [], spBlockAll = False, spMode = [], spMaxHostnames = 0\<rparr>"

definition portPolicy :: Policy where "portPolicy = build plainEgress False ModeEnforce [portWild] []"

text \<open>A ceiling that names a wildcard on one port does not confine policies to that port.  Under the ceiling
  \<^verbatim>\<open>*.a.io:8443\<close> a policy that allows \<^verbatim>\<open>*.a.io\<close>, that is ports 80 and 443, fits, and admits a connection to port 443 which the
  same list used as an allow list refuses.\<close>

theorem ceiling_wildcard_port_ignored:
  "NewCeiling plainEgress [''*.a.io:8443''] = Inr (Some (ceilingOf [portWild])) \<and>
   Compile plainEgress webSpecOut = Inr webPolicy \<and> Fits (Some (ceilingOf [portWild])) webPolicy = None \<and>
   fst (MatchHostPort plainEgress webPolicy ''x.a.io'' 443) \<and>
   Compile plainEgress portSpec = Inr portPolicy \<and> \<not> fst (MatchHostPort plainEgress portPolicy ''x.a.io'' 443)"
proof (intro conjI)
  show "NewCeiling plainEgress [''*.a.io:8443''] = Inr (Some (ceilingOf [portWild]))"
    by (simp add: NewCeiling_def ParseAllowList_def parseList_def portWild_parsed CountHostnames_def portWild_def IsHostname_def MaxUnionHostnames_def)
  show "Fits (Some (ceilingOf [portWild])) webPolicy = None"
    by (simp add: Fits_def webPolicy_head ceilingCovers_def webEntry_def portWild_def underWildcard_def ceilingOf_def addCeiling_def)
  show "Compile plainEgress portSpec = Inr portPolicy"
    by (simp add: Compile_def portSpec_def normalizeMode_def ParseAllowList_def ParseDenyList_def parseList_def portWild_parsed portPolicy_def
        portWild_def CountHostnames_def IsHostname_def MaxInlineHostnames_def ModeEnforce_def ModeLearn_def)
  show "\<not> fst (MatchHostPort plainEgress portPolicy ''x.a.io'' 443)"
    unfolding portPolicy_def MatchHostPort_build[OF plain_names(3)]
    by (simp add: decideName_def allowsName_def defaultAllows_def portWild_def coversPort_def ModeEnforce_def ModeLearn_def)
qed (rule webPolicy_compiled webPolicy_admits)+

end
