(* ===== verification/Egress_Dial.thy ===== *)
theory Egress_Dial
  imports Egress_Ceiling
begin

text \<open>
  The dial guard every egress dialer shares (\<^verbatim>\<open>pkg/egresspolicy/dial.go\<close> with the metadata endpoints of \<^verbatim>\<open>metadata.go\<close> and
  the node guard of \<^verbatim>\<open>node.go\<close>).  It runs on the resolved address.  The addresses of the node's interfaces and the ports
  the node serves to its sandboxes, which the source reads from the system and keeps in the process, are arguments.
\<close>

section \<open>Address spaces\<close>

definition mustPrefix :: "string \<Rightarrow> Prefix" where
  "mustPrefix s = (case ParsePrefix s of None \<Rightarrow> noPrefix | Some p \<Rightarrow> p)"

definition MetadataPrefixes :: "Prefix list" where
  "MetadataPrefixes = map mustPrefix
     [''169.254.169.254/32'', ''169.254.170.2/32'', ''169.254.170.23/32'', ''168.63.129.16/32'', ''100.100.100.200/32'',
      ''fd00:ec2::254/128'', ''fd00:ec2::23/128'']"

definition thisNetwork :: Prefix where "thisNetwork = mustPrefix ''0.0.0.0/8''"
definition broadcast :: Addr where "broadcast = Addr4 0xffffffff"
definition sharedAddress :: Prefix where "sharedAddress = mustPrefix ''100.64.0.0/10''"

definition internalSpace :: "Prefix list" where
  "internalSpace = [mustPrefix ''10.0.0.0/8'', mustPrefix ''172.16.0.0/12'', mustPrefix ''192.168.0.0/16'', sharedAddress, mustPrefix ''fc00::/7'']"

definition isPrivate :: "Addr \<Rightarrow> bool" where
  "isPrivate ip \<longleftrightarrow> IsPrivateAddr ip \<or> prefixContains sharedAddress ip"

section \<open>The internal zone\<close>

record InternalZone =
  izSuffixes :: "Entry list"
  izCIDRs :: "Prefix list"

datatype zoneError = ZoneSuffix string entryReason | ZoneSuffixKind string | ZoneSuffixPort string | ZonePublicSuffix string
  | ZoneCIDR string | ZoneOutside string | ZoneEmpty

definition isICANNSuffix :: "egressEnv \<Rightarrow> string \<Rightarrow> bool" where
  "isICANNSuffix env name \<longleftrightarrow> snd (eePublicSuffix env name) \<and> fst (eePublicSuffix env name) = name"

definition insideInternalSpace :: "Prefix \<Rightarrow> bool" where
  "insideInternalSpace p = list_ex (\<lambda>s. prefixInside s p) internalSpace"

definition zoneSuffix :: "egressEnv \<Rightarrow> string \<Rightarrow> zoneError + Entry" where
  "zoneSuffix env raw =
     (let s = trimSpace raw; wildcard = prefix ''*.'' s; s = (if wildcard then drop 2 s else s)
      in case parseEntry env s of
           Inl r \<Rightarrow> Inl (ZoneSuffix raw r)
         | Inr e \<Rightarrow>
             if enKind e \<noteq> KindHost then Inl (ZoneSuffixKind raw)
             else if enPort e \<noteq> 0 then Inl (ZoneSuffixPort raw)
             else if isICANNSuffix env (enHost e) then Inl (ZonePublicSuffix raw)
             else Inr (if wildcard then e\<lparr>enKind := KindWildcard\<rparr> else e))"

definition zoneCIDR :: "string \<Rightarrow> zoneError + Prefix" where
  "zoneCIDR raw =
     (case ParsePrefix (trimSpace raw) of
        None \<Rightarrow> Inl (ZoneCIDR raw)
      | Some p \<Rightarrow> let p = prefixMasked p in if insideInternalSpace p then Inr p else Inl (ZoneOutside raw))"

fun collect :: "('a \<Rightarrow> 'e + 'b) \<Rightarrow> 'a list \<Rightarrow> 'e + 'b list" where
  "collect f [] = Inr []"
| "collect f (x # xs) = (case f x of Inl e \<Rightarrow> Inl e | Inr y \<Rightarrow> map_sum id ((#) y) (collect f xs))"

definition NewInternalZone :: "egressEnv \<Rightarrow> string list \<Rightarrow> string list \<Rightarrow> zoneError + InternalZone" where
  "NewInternalZone env names cidrs =
     (case collect (zoneSuffix env) names of
        Inl e \<Rightarrow> Inl e
      | Inr ss \<Rightarrow>
          (case collect zoneCIDR cidrs of
             Inl e \<Rightarrow> Inl e
           | Inr cs \<Rightarrow> if ss = [] \<or> cs = [] then Inl ZoneEmpty else Inr \<lparr>izSuffixes = ss, izCIDRs = cs\<rparr>))"

definition zoneCoversName :: "egressEnv \<Rightarrow> InternalZone \<Rightarrow> string \<Rightarrow> bool" where
  "zoneCoversName env z name \<longleftrightarrow>
     (let c = canonicalName env name
      in c \<noteq> [] \<and>
         list_ex (\<lambda>s. (enKind s = KindHost \<and> c = enHost s) \<or> coversName (s\<lparr>enKind := KindWildcard\<rparr>) c) (izSuffixes z))"

definition zoneCovers :: "egressEnv \<Rightarrow> InternalZone \<Rightarrow> string \<Rightarrow> Addr \<Rightarrow> bool" where
  "zoneCovers env z name ip \<longleftrightarrow> zoneCoversName env z name \<and> firstContaining (izCIDRs z) (Unmap ip) \<noteq> None"

section \<open>The guard\<close>

datatype DialReason = DialReasonInvalid | DialReasonLoopback | DialReasonLinkLocal | DialReasonUnspecified | DialReasonMulticast
  | DialReasonPrivate | DialReasonDenyFloor | DialReasonDenyCIDR | DialReasonBlockAll | DialReasonNotAllowed | DialReasonNode

record DialError =
  deAddr :: string
  deReason :: DialReason
  deRule :: string

record DialTarget =
  dtName :: string
  dtNameAllowed :: bool
  dtIP :: Addr
  dtPort :: nat

record DialGuard =
  dgStrict :: bool
  dgZone :: "InternalZone option"
  dgZoneInStrict :: bool
  dgDenyFloor :: "Prefix list"

definition refuse :: "Addr \<Rightarrow> DialReason \<Rightarrow> string \<Rightarrow> DialError option" where
  "refuse ip reason rule = Some \<lparr>deAddr = addrString ip, deReason = reason, deRule = rule\<rparr>"

definition CheckNode :: "Addr set \<Rightarrow> nat list \<Rightarrow> Addr \<Rightarrow> nat \<Rightarrow> DialError option" where
  "CheckNode nodeAddrs nodePorts ip0 port =
     (let ip = Unmap ip0
      in if \<not> addrIsValid ip then Some \<lparr>deAddr = ''invalid AddrPort'', deReason = DialReasonInvalid, deRule = []\<rparr>
         else if IsLoopback ip then refuse ip DialReasonLoopback []
         else if IsUnspecified ip \<or> prefixContains thisNetwork ip then refuse ip DialReasonUnspecified []
         else if ip \<notin> nodeAddrs \<or> port \<in> set nodePorts then None
         else refuse ip DialReasonNode [])"

definition CheckFloor :: "DialGuard \<Rightarrow> Addr \<Rightarrow> DialError option" where
  "CheckFloor g ip0 =
     (let ip = Unmap ip0
      in case firstContaining MetadataPrefixes ip of
           Some pfx \<Rightarrow> refuse ip DialReasonDenyFloor (prefixString pfx)
         | None \<Rightarrow>
             (case firstContaining (dgDenyFloor g) ip of
                Some pfx \<Rightarrow> refuse ip DialReasonDenyFloor (prefixString pfx)
              | None \<Rightarrow> None))"

definition zoned :: "egressEnv \<Rightarrow> DialGuard \<Rightarrow> string \<Rightarrow> Addr \<Rightarrow> bool" where
  "zoned env g name ip \<longleftrightarrow>
     (case dgZone g of None \<Rightarrow> False | Some z \<Rightarrow> (\<not> dgStrict g \<or> dgZoneInStrict g) \<and> zoneCovers env z name ip)"

definition alwaysBlocked :: "Addr \<Rightarrow> DialError option" where
  "alwaysBlocked ip =
     (if \<not> addrIsValid ip then Some \<lparr>deAddr = ''invalid AddrPort'', deReason = DialReasonInvalid, deRule = []\<rparr>
      else if IsLoopback ip then refuse ip DialReasonLoopback []
      else if IsLinkLocalUnicast ip \<or> IsLinkLocalMulticast ip then refuse ip DialReasonLinkLocal []
      else if IsUnspecified ip \<or> prefixContains thisNetwork ip then refuse ip DialReasonUnspecified []
      else if IsMulticast ip \<or> ip = broadcast then refuse ip DialReasonMulticast []
      else None)"

definition policyCheck :: "Policy option \<Rightarrow> DialTarget \<Rightarrow> Addr \<Rightarrow> DialError option" where
  "policyCheck p t ip =
     (case p of
        None \<Rightarrow> None
      | Some pol \<Rightarrow>
          if dtNameAllowed t then None
          else let (allowed, rule) = MatchIP pol ip (dtPort t)
               in if allowed then None
                  else if rule = [] then refuse ip DialReasonNotAllowed []
                  else if rule = RuleBlockAll then refuse ip DialReasonBlockAll []
                  else refuse ip DialReasonDenyCIDR rule)"

definition dialCheck :: "egressEnv \<Rightarrow> Addr set \<Rightarrow> nat list \<Rightarrow> DialGuard \<Rightarrow> Policy option \<Rightarrow> DialTarget \<Rightarrow> DialError option" where
  "dialCheck env nodeAddrs nodePorts g p t =
     (let ip = Unmap (dtIP t)
      in case alwaysBlocked ip of
           Some e \<Rightarrow> Some e
         | None \<Rightarrow>
             (case CheckNode nodeAddrs nodePorts (dtIP t) (dtPort t) of
                Some e \<Rightarrow> Some e
              | None \<Rightarrow>
                  (case CheckFloor g (dtIP t) of
                     Some e \<Rightarrow> Some e
                   | None \<Rightarrow>
                       if isPrivate ip \<and> \<not> zoned env g (dtName t) ip \<and>
                          (dgStrict g \<or> (case p of None \<Rightarrow> True | Some pol \<Rightarrow> \<not> allowCIDRContains pol ip))
                       then refuse ip DialReasonPrivate []
                       else policyCheck p t ip)))"

section \<open>What a dial that passes is\<close>

lemma refuse_Some [simp]: "refuse ip reason rule \<noteq> None"
  by (simp add: refuse_def)

lemma alwaysBlocked_None:
  assumes "alwaysBlocked ip = None"
  shows "addrIsValid ip \<and> \<not> IsLoopback ip \<and> \<not> IsLinkLocalUnicast ip \<and> \<not> IsLinkLocalMulticast ip \<and> \<not> IsUnspecified ip \<and>
    \<not> prefixContains thisNetwork ip \<and> \<not> IsMulticast ip \<and> ip \<noteq> broadcast"
  using assms by (auto simp: alwaysBlocked_def split: if_splits)

lemma CheckNode_None: "CheckNode nodeAddrs nodePorts ip port = None \<Longrightarrow> Unmap ip \<in> nodeAddrs \<Longrightarrow> port \<in> set nodePorts"
  by (auto simp: CheckNode_def Let_def split: if_splits)

lemma CheckFloor_None:
  "CheckFloor g ip = None \<Longrightarrow> pfx \<in> set MetadataPrefixes \<union> set (dgDenyFloor g) \<Longrightarrow> \<not> prefixContains pfx (Unmap ip)"
  by (auto simp: CheckFloor_def Let_def firstContaining_iff split: option.splits)

lemma policyCheck_None: "policyCheck (Some pol) t ip = None \<Longrightarrow> dtNameAllowed t \<or> fst (MatchIP pol ip (dtPort t))"
  by (auto simp: policyCheck_def Let_def case_prod_beta split: if_splits)

lemma dialCheck_None:
  assumes "dialCheck env nodeAddrs nodePorts g p t = None"
  shows "alwaysBlocked (Unmap (dtIP t)) = None" "CheckNode nodeAddrs nodePorts (dtIP t) (dtPort t) = None" "CheckFloor g (dtIP t) = None"
    "policyCheck p t (Unmap (dtIP t)) = None"
    "isPrivate (Unmap (dtIP t)) \<Longrightarrow> zoned env g (dtName t) (Unmap (dtIP t)) \<or>
       (\<not> dgStrict g \<and> (\<exists>pol. p = Some pol \<and> allowCIDRContains pol (Unmap (dtIP t))))"
  using assms by (auto simp: dialCheck_def Let_def split: option.splits if_splits)

section \<open>Private space\<close>

lemma prefix_words:
  "mustPrefix ''10.0.0.0/8'' = \<lparr>pfIP = Addr4 0x0a000000, pfBits = 8\<rparr>"
  "mustPrefix ''172.16.0.0/12'' = \<lparr>pfIP = Addr4 0xac100000, pfBits = 12\<rparr>"
  "mustPrefix ''192.168.0.0/16'' = \<lparr>pfIP = Addr4 0xc0a80000, pfBits = 16\<rparr>"
  "mustPrefix ''0.0.0.0/8'' = \<lparr>pfIP = Addr4 0, pfBits = 8\<rparr>"
  "sharedAddress = \<lparr>pfIP = Addr4 0x64400000, pfBits = 10\<rparr>"
  by (simp_all add: sharedAddress_def mustPrefix_def ParsePrefix_def cutLast_def ParseAddr_def parseIPv4_def isDigit_def fieldsVal_def
      atoi_def digitVal_def PrefixFrom_def)

lemma replicate_7: "replicate 7 x = [x, x, x, x, x, x, x]"
  by (simp add: eval_nat_numeral)

lemma ula_words: "mustPrefix ''fc00::/7'' = \<lparr>pfIP = Addr6 0xfc000000000000000000000000000000 [], pfBits = 7\<rparr>"
  by (simp add: mustPrefix_def ParsePrefix_def cutLast_def ParseAddr_def parseIPv6_def v6Loop.simps isHexDigit_def isDigit_def hexVal_def
      hexDigitVal_def v6Expand_def v6Addr_def fieldsVal_def atoi_def digitVal_def PrefixFrom_def replicate_7)

lemma top_bits_word:
  fixes a x :: "'w::len word"
  assumes "drop_bit k (a XOR x) = 0"
  shows "drop_bit k x = drop_bit k a"
  using assms by (metis drop_bit_xor xor.left_neutral xor.right_neutral xor_self_eq xor.assoc)

lemma internal_is_private:
  assumes "s \<in> set internalSpace" "prefixContains s ip"
  shows "isPrivate ip"
proof -
  have top: "drop_bit 4 (drop_bit 16 x AND 0xff) = drop_bit 20 x AND 0xf" for x :: "32 word"
    by (simp add: drop_bit_and)
  show ?thesis
  proof (cases "s = sharedAddress")
    case True
    with assms(2) show ?thesis by (simp add: isPrivate_def)
  next
    case False
    show ?thesis
    proof (cases ip)
      case (Addr4 x)
      with assms False consider "drop_bit 24 (0x0a000000 XOR x) = 0" | "drop_bit 20 (0xac100000 XOR x) = 0" | "drop_bit 16 (0xc0a80000 XOR x) = 0"
        by (auto simp: internalSpace_def prefix_words ula_words prefixContains_def simp del: drop_bit_xor)
      then show ?thesis
      proof cases
        case 1
        from top_bits_word[OF this] show ?thesis by (simp add: isPrivate_def IsPrivateAddr_def Addr4 v4byte_def)
      next
        case 2
        from top_bits_word[OF this] have "drop_bit 20 x = 0xac1" by simp
        moreover have "drop_bit 24 x = drop_bit 4 (drop_bit 20 x)" by simp
        moreover have "unat (drop_bit 16 x AND 0xff) div 16 = unat (drop_bit 4 (drop_bit 16 x AND 0xff))" by (simp only: unat_drop_bit_eq) (simp add: drop_bit_eq_div)
        ultimately show ?thesis by (simp add: isPrivate_def IsPrivateAddr_def Addr4 v4byte_def top)
      next
        case 3
        from top_bits_word[OF this] have "drop_bit 16 x = 0xc0a8" by simp
        moreover have "drop_bit 24 x = drop_bit 8 (drop_bit 16 x)" by simp
        ultimately show ?thesis by (simp add: isPrivate_def IsPrivateAddr_def Addr4 v4byte_def)
      qed
    next
      case (Addr6 x z)
      with assms False have "drop_bit 121 (0xfc000000000000000000000000000000 XOR x) = 0"
        by (auto simp: internalSpace_def prefix_words ula_words prefixContains_def simp del: drop_bit_xor)
      from top_bits_word[OF this] have t: "drop_bit 121 x = 0x7e" by simp
      have split: "drop_bit 121 x = drop_bit 89 (drop_bit 32 x)" by simp
      have "drop_bit 32 x \<noteq> 0xffff"
      proof
        assume "drop_bit 32 x = 0xffff"
        with split have "drop_bit 121 x = drop_bit 89 0xffff" by (simp only:)
        with t show False by simp
      qed
      moreover have "unat (drop_bit 112 x AND 0xffff) div 512 = unat (drop_bit 9 (drop_bit 112 x AND 0xffff))"
        by (simp only: unat_drop_bit_eq) (simp add: drop_bit_eq_div)
      moreover have "drop_bit 9 (drop_bit 112 x AND 0xffff) = drop_bit 121 x AND 0x7f" by (simp add: drop_bit_and)
      ultimately show ?thesis using t by (simp add: isPrivate_def IsPrivateAddr_def Addr6 v6u16_def)
    qed (use assms(2) in \<open>simp add: prefixContains_def\<close>)
  qed
qed

lemma collect_Inr: "collect f xs = Inr ys \<Longrightarrow> y \<in> set ys \<Longrightarrow> \<exists>x \<in> set xs. f x = Inr y"
proof (induction xs arbitrary: ys)
  case (Cons x xs)
  then obtain y' ys' where "f x = Inr y'" "collect f xs = Inr ys'" "ys = y' # ys'" by (auto simp: map_sum_def split: sum.splits)
  with Cons.IH[of ys'] Cons.prems(2) show ?case by (cases "y = y'") auto
qed simp

lemma zone_prefix_inside:
  assumes "NewInternalZone env ns cs = Inr z" "pfx \<in> set (izCIDRs z)"
  shows "insideInternalSpace pfx"
proof -
  from assms obtain ps where "collect zoneCIDR cs = Inr ps" "pfx \<in> set ps"
    by (auto simp: NewInternalZone_def split: sum.splits if_splits)
  then obtain raw where "zoneCIDR raw = Inr pfx" using collect_Inr by metis
  then show ?thesis by (auto simp: zoneCIDR_def Let_def split: option.splits if_splits)
qed

section \<open>Properties\<close>

text \<open>The operator's internal zone opens internal space only: an address it covers for a name lies in RFC 1918, RFC 6598
  or unique-local space, and the name is one of its suffixes or under one, so no zone configuration that loads can open
  a public address or the host itself.\<close>

theorem zone_opens_internal_space_only:
  assumes "NewInternalZone env ns cs = Inr z" "zoneCovers env z name ip"
  shows "isPrivate (Unmap ip) \<and>
    (\<exists>s \<in> set (izSuffixes z). (enKind s = KindHost \<and> canonicalName env name = enHost s) \<or>
       suffix (CHR ''.'' # enHost s) (canonicalName env name))"
proof
  obtain pfx where pfx: "pfx \<in> set (izCIDRs z)" "prefixContains pfx (Unmap ip)"
    using assms(2) by (auto simp: zoneCovers_def firstContaining_iff)
  then obtain s where "s \<in> set internalSpace" "prefixInside s pfx"
    using zone_prefix_inside[OF assms(1)] by (auto simp: insideInternalSpace_def list_ex_iff)
  with pfx(2) show "isPrivate (Unmap ip)" using internal_is_private prefixInside_contains by blast
  from assms(2) obtain s where "s \<in> set (izSuffixes z)"
    "(enKind s = KindHost \<and> canonicalName env name = enHost s) \<or> coversName (s\<lparr>enKind := KindWildcard\<rparr>) (canonicalName env name)"
    by (auto simp: zoneCovers_def zoneCoversName_def Let_def list_ex_iff)
  then show "\<exists>s \<in> set (izSuffixes z). (enKind s = KindHost \<and> canonicalName env name = enHost s) \<or>
      suffix (CHR ''.'' # enHost s) (canonicalName env name)"
    by (intro bexI[of _ s]) (auto simp: coversName_wild suffix_def)
qed

text \<open>Property C19. A dial the guard lets through goes to a valid address that is not loopback, link-local, unspecified, multicast or
  broadcast, in no metadata endpoint and in no network of the operator's floor, and to one of the node's own addresses
  only on a port the node serves; a private address was opened by the internal zone or, outside strict mode, by an allow
  network of the policy; and with a policy either the name matched an allow rule or the policy admits the address.\<close>

theorem passed_dial_is_safe:
  assumes "dialCheck env nodeAddrs nodePorts g p t = None" "Unmap (dtIP t) = ip"
  shows "addrIsValid ip \<and> \<not> IsLoopback ip \<and> \<not> IsLinkLocalUnicast ip \<and> \<not> IsLinkLocalMulticast ip \<and> \<not> IsUnspecified ip \<and>
    \<not> IsMulticast ip \<and> ip \<noteq> broadcast \<and> (\<forall>pfx \<in> set MetadataPrefixes \<union> set (dgDenyFloor g). \<not> prefixContains pfx ip) \<and>
    (ip \<in> nodeAddrs \<longrightarrow> dtPort t \<in> set nodePorts) \<and>
    (isPrivate ip \<longrightarrow> zoned env g (dtName t) ip \<or> (\<not> dgStrict g \<and> (\<exists>pol. p = Some pol \<and> allowCIDRContains pol ip))) \<and>
    (case p of None \<Rightarrow> True | Some pol \<Rightarrow> dtNameAllowed t \<or> fst (MatchIP pol ip (dtPort t)))"
  using alwaysBlocked_None[OF dialCheck_None(1)[OF assms(1)]] CheckNode_None[OF dialCheck_None(2)[OF assms(1)]]
    CheckFloor_None[OF dialCheck_None(3)[OF assms(1)]] dialCheck_None(4,5)[OF assms(1)] policyCheck_None assms(2)
  by (auto split: option.split)

definition openGuard :: DialGuard where
  "openGuard = \<lparr>dgStrict = False, dgZone = None, dgZoneInStrict = False, dgDenyFloor = []\<rparr>"

definition dialTo :: "Addr \<Rightarrow> DialTarget" where
  "dialTo ip = \<lparr>dtName = [], dtNameAllowed = False, dtIP = ip, dtPort = 443\<rparr>"

text \<open>Property C24. The zone of an IPv6 address takes it past the guard: the unspecified address is refused as such, but written with
  any zone it passes every check when the sandbox has no policy, whatever the floor and the rest of the configuration, as
  long as the node's own list does not hold that very spelling.\<close>

theorem zoned_unspecified_passes_guard:
  assumes "zone \<noteq> []" "Addr6 0 zone \<notin> nodeAddrs"
  shows "dialCheck env nodeAddrs nodePorts g None (dialTo (Addr6 0 zone)) = None \<and>
    (\<exists>e. dialCheck env nodeAddrs nodePorts g None (dialTo (Addr6 0 [])) = Some e \<and> deReason e = DialReasonUnspecified)"
proof -
  have none: "\<not> prefixContains pfx (Addr6 0 zone)" for pfx using assms(1) by (simp add: prefixContains_def)
  have ranges: "\<not> IsLoopback (Addr6 0 y)" "\<not> IsLinkLocalUnicast (Addr6 0 y)" "\<not> IsLinkLocalMulticast (Addr6 0 y)" "\<not> IsMulticast (Addr6 0 y)"
    "\<not> IsPrivateAddr (Addr6 0 y)" for y
    by (simp_all add: IsLoopback_def IsLinkLocalUnicast_def IsLinkLocalMulticast_def IsMulticast_def IsPrivateAddr_def v6u16_def)
  have "alwaysBlocked (Addr6 0 zone) = None" using ranges none assms(1)
    by (simp add: alwaysBlocked_def addrIsValid_def IsUnspecified_def broadcast_def)
  moreover have "CheckNode nodeAddrs nodePorts (Addr6 0 zone) 443 = None" using ranges none assms
    by (simp add: CheckNode_def addrIsValid_def IsUnspecified_def)
  moreover have "CheckFloor g (Addr6 0 zone) = None" using none by (simp add: CheckFloor_def firstContaining_iff[THEN iffD2])
  moreover have "\<not> isPrivate (Addr6 0 zone)" using ranges none by (simp add: isPrivate_def)
  ultimately have "dialCheck env nodeAddrs nodePorts g None (dialTo (Addr6 0 zone)) = None"
    by (simp add: dialCheck_def dialTo_def policyCheck_def)
  moreover have "alwaysBlocked (Addr6 0 []) = refuse (Addr6 0 []) DialReasonUnspecified []"
    using ranges by (simp add: alwaysBlocked_def addrIsValid_def IsUnspecified_def)
  ultimately show ?thesis by (simp add: dialCheck_def dialTo_def refuse_def)
qed

theorem zoned_unspecified_passes_guard_witness:
  "dialCheck plainEgress {Addr4 0x0a000001} [] openGuard None (dialTo (Addr6 0 ''lo'')) = None"
  using zoned_unspecified_passes_guard[of "''lo''" "{Addr4 0x0a000001}" plainEgress "[]" openGuard] by simp

definition corpZone :: InternalZone where
  "corpZone = \<lparr>izSuffixes = [\<lparr>enKind = KindHost, enPrefix = noPrefix, enHost = ''x.b'', enPort = 0\<rparr>],
     izCIDRs = [\<lparr>pfIP = Addr4 0x0a000000, pfBits = 8\<rparr>]\<rparr>"

lemma corpZone_loaded: "NewInternalZone plainEgress [''x.b''] [''10.0.0.0/8''] = Inr corpZone"
proof -
  have e: "parseEntry plainEgress ''x.b'' = Inr \<lparr>enKind = KindHost, enPrefix = noPrefix, enHost = ''x.b'', enPort = 0\<rparr>"
    by (simp add: entry_eval plainEgress_def visibleChar_def)
  have "zoneSuffix plainEgress ''x.b'' = Inr \<lparr>enKind = KindHost, enPrefix = noPrefix, enHost = ''x.b'', enPort = 0\<rparr>"
    by (simp add: zoneSuffix_def e visibleChar_def isICANNSuffix_def Let_def) (simp add: plainEgress_def)
  moreover have p: "ParsePrefix ''10.0.0.0/8'' = Some \<lparr>pfIP = Addr4 0x0a000000, pfBits = 8\<rparr>"
    by (simp add: ParsePrefix_def cutLast_def ParseAddr_def parseIPv4_def isDigit_def fieldsVal_def atoi_def digitVal_def PrefixFrom_def)
  have "zoneCIDR ''10.0.0.0/8'' = Inr \<lparr>pfIP = Addr4 0x0a000000, pfBits = 8\<rparr>"
    by (simp add: zoneCIDR_def p visibleChar_def prefixMasked_def insideInternalSpace_def internalSpace_def prefix_words prefixInside_def
        prefixContains_def Let_def)
  ultimately show ?thesis by (simp add: NewInternalZone_def corpZone_def)
qed

theorem zone_opens_internal_space_only_witness: "zoneCovers plainEgress corpZone ''x.b'' (Addr4 0x0a000001) \<and> isPrivate (Addr4 0x0a000001)"
proof -
  have "canonicalName plainEgress ''x.b'' = ''x.b''" by (simp add: canonicalName_def entry_eval visibleChar_def)
  then have "zoneCovers plainEgress corpZone ''x.b'' (Addr4 0x0a000001)"
    by (simp add: zoneCovers_def zoneCoversName_def corpZone_def firstContaining_def prefixContains_def)
  with zone_opens_internal_space_only[OF corpZone_loaded this] show ?thesis by simp
qed

lemma replicate_5: "replicate 5 x = [x, x, x, x, x]"
  by (simp add: eval_nat_numeral)

lemma metadata_v4:
  "mustPrefix ''169.254.169.254/32'' = \<lparr>pfIP = Addr4 0xa9fea9fe, pfBits = 32\<rparr>"
  "mustPrefix ''169.254.170.2/32'' = \<lparr>pfIP = Addr4 0xa9feaa02, pfBits = 32\<rparr>"
  "mustPrefix ''169.254.170.23/32'' = \<lparr>pfIP = Addr4 0xa9feaa17, pfBits = 32\<rparr>"
  "mustPrefix ''168.63.129.16/32'' = \<lparr>pfIP = Addr4 0xa83f8110, pfBits = 32\<rparr>"
  "mustPrefix ''100.100.100.200/32'' = \<lparr>pfIP = Addr4 0x646464c8, pfBits = 32\<rparr>"
  by (simp_all add: mustPrefix_def ParsePrefix_def cutLast_def ParseAddr_def parseIPv4_def isDigit_def fieldsVal_def atoi_def digitVal_def
      PrefixFrom_def)

lemma metadata_v6:
  "mustPrefix ''fd00:ec2::254/128'' = \<lparr>pfIP = Addr6 0xfd000ec2000000000000000000000254 [], pfBits = 128\<rparr>"
  "mustPrefix ''fd00:ec2::23/128'' = \<lparr>pfIP = Addr6 0xfd000ec2000000000000000000000023 [], pfBits = 128\<rparr>"
  by (simp_all add: mustPrefix_def ParsePrefix_def cutLast_def ParseAddr_def parseIPv6_def v6Loop.simps isHexDigit_def isDigit_def hexVal_def
      hexDigitVal_def v6Expand_def v6Addr_def fieldsVal_def atoi_def digitVal_def PrefixFrom_def replicate_5)

theorem passed_dial_is_safe_witness:
  "dialCheck plainEgress {} [] openGuard None (dialTo (Addr4 0x01010101)) = None \<and> \<not> IsLoopback (Addr4 0x01010101)"
proof -
  have none: "firstContaining MetadataPrefixes (Addr4 0x01010101) = None"
    by (simp add: MetadataPrefixes_def metadata_v4 metadata_v6 firstContaining_def prefixContains_def)
  have "dialCheck plainEgress {} [] openGuard None (dialTo (Addr4 0x01010101)) = None"
    by (simp add: dialCheck_def dialTo_def openGuard_def alwaysBlocked_def addrIsValid_def IsLoopback_def IsLinkLocalUnicast_def
        IsLinkLocalMulticast_def IsUnspecified_def IsMulticast_def broadcast_def thisNetwork_def prefix_words prefixContains_def v4byte_def
        CheckNode_def CheckFloor_def none firstContaining_def[of "[]"] isPrivate_def IsPrivateAddr_def policyCheck_def Let_def)
  with passed_dial_is_safe[OF this] show ?thesis by (simp add: dialTo_def)
qed

end
