(* ===== verification/Egress_Roundtrip.thy ===== *)
theory Egress_Roundtrip
  imports Egress_Ceiling
begin

text \<open>
  The canonical form of a hostname entry reads back as the entry (\<^verbatim>\<open>String\<close> and \<^verbatim>\<open>ParseEntry\<close> of
  \<^verbatim>\<open>pkg/egresspolicy/entry.go\<close>), which is what makes it a key for deduplication and hashing.
\<close>

section \<open>Characters of a canonical name\<close>

definition hostChar :: "char \<Rightarrow> bool" where
  "hostChar c \<longleftrightarrow> (CHR ''a'' \<le> c \<and> c \<le> CHR ''z'') \<or> isDigit c \<or> c = CHR ''-'' \<or> c = CHR ''_'' \<or> c = CHR ''.''"

lemma hostChar_code: "hostChar c \<Longrightarrow> 44 < (of_char c :: nat) \<and> (of_char c :: nat) < 123 \<and> of_char c \<noteq> (47 :: nat) \<and> of_char c \<noteq> (58 :: nat) \<and>
    (of_char c < (58 :: nat) \<or> 91 < (of_char c :: nat))"
  by (auto simp: hostChar_def isDigit_def less_eq_char_def)

lemma splitOn_member: "c \<in> set s \<Longrightarrow> c = sep \<or> (\<exists>l \<in> set (splitOn sep s). c \<in> set l)"
proof (induction s)
  case (Cons x s)
  obtain w ws where "splitOn sep s = w # ws" by (cases "splitOn sep s") auto
  with Cons show ?case by auto
qed simp

lemma splitOn_tl: "sep \<in> set s \<Longrightarrow> tl (splitOn sep s) \<noteq> []"
  by (induction s) auto

lemma splitOn_last: "s \<noteq> [] \<Longrightarrow> last s = sep \<Longrightarrow> last (splitOn sep s) = []"
proof (induction s)
  case (Cons c s)
  obtain w ws where w: "splitOn sep s = w # ws" by (cases "splitOn sep s") auto
  have "s \<noteq> [] \<Longrightarrow> ws \<noteq> []" using splitOn_tl[of sep s] w Cons.prems(2) last_in_set[of s] by auto
  with w Cons show ?case by (cases "s = []") auto
qed simp

lemma splitOn_last_member: "c \<in> set (last (splitOn sep s)) \<Longrightarrow> c \<in> set s"
proof (induction s)
  case (Cons x s)
  obtain w ws where w: "splitOn sep s = w # ws" by (cases "splitOn sep s") auto
  with Cons show ?case by (cases "ws = []") (auto split: if_splits)
qed simp

lemma trimSet_member: "trimSet cs s \<noteq> [] \<Longrightarrow> \<exists>c \<in> set s. c \<notin> set cs"
  by (auto simp: trimSet_def dest: set_dropWhileD)

lemma digit_listed: "isDigit c \<Longrightarrow> c \<in> set ''0123456789''"
proof -
  assume "isDigit c"
  then have "(of_char c :: nat) \<in> set [48..<58]" unfolding isDigit_def set_upt by simp
  moreover have "c = char_of (of_char c :: nat)" by simp
  ultimately have "c \<in> set (map char_of [48..<58 :: nat])" by (metis image_eqI list.set_map)
  moreover have "map char_of [48..<58 :: nat] = ''0123456789''" by code_simp
  ultimately show ?thesis by simp
qed

lemma canonical_host:
  assumes "validateLabels h True = None"
  shows "list_all hostChar h" "h \<noteq> []" "hd h \<noteq> CHR ''.''" "last h \<noteq> CHR ''.''" "\<exists>c \<in> set h. \<not> isDigit c \<and> c \<noteq> CHR ''.''"
proof -
  note labels = validateLabels_None[OF assms]
  have ok: "l \<noteq> [] \<and> list_all (\<lambda>c. hostChar c \<and> c \<noteq> CHR ''.'') l" if "l \<in> set (splitOn CHR ''.'' h)" for l
    using labels(1) that splitOn_clean[OF that] by (auto simp: list_all_iff labelReason_def hostChar_def split: if_splits)
  show "list_all hostChar h" using splitOn_member[of _ h "CHR ''.''"] ok by (auto simp: list_all_iff hostChar_def)
  show ne: "h \<noteq> []" using ok[of "[]"] by (cases h) auto
  show "hd h \<noteq> CHR ''.''" using ok[of "[]"] ne by (cases h) auto
  have last: "last (splitOn CHR ''.'' h) \<in> set (splitOn CHR ''.'' h)" by simp
  then show "last h \<noteq> CHR ''.''" using ok splitOn_last[OF ne] by metis
  from trimSet_member[OF labels(2)] obtain c where c: "c \<in> set (last (splitOn CHR ''.'' h))" "c \<notin> set ''0123456789''" by blast
  then have "\<not> isDigit c" using digit_listed by blast
  moreover have "c \<noteq> CHR ''.''" using ok[OF last] c(1) by (auto simp: list_all_iff)
  ultimately show "\<exists>c \<in> set h. \<not> isDigit c \<and> c \<noteq> CHR ''.''" using splitOn_last_member[OF c(1)] by blast
qed

section \<open>Decimal ports\<close>

lemma itoaNat_digits: "list_all isDigit (itoaNat n) \<and> itoaNat n \<noteq> []"
proof (induction n rule: itoaNat.induct)
  case (1 n)
  have eq: "itoaNat n = (if n < 10 then [char_of (48 + n)] else itoaNat (n div 10) @ [char_of (48 + n mod 10)])" by (rule itoaNat.simps)
  have "isDigit (char_of (48 + m))" if "m < 10" for m :: nat using that by (simp add: isDigit_def)
  then show ?case using 1 unfolding eq by simp
qed

lemma decVal_snoc: "decVal (s @ [c]) = decVal s * 10 + (of_char c - 48)"
  by (simp add: decVal_def)

lemma decVal_itoaNat: "decVal (itoaNat n) = n"
proof (induction n rule: itoaNat.induct)
  case (1 n)
  show ?case
  proof (cases "n < 10")
    case True
    then show ?thesis by (subst itoaNat.simps) (simp add: decVal_def)
  next
    case False
    then have "decVal (itoaNat n) = decVal (itoaNat (n div 10)) * 10 + n mod 10"
      by (subst itoaNat.simps) (simp add: decVal_snoc)
    with 1 False show ?thesis by simp
  qed
qed

lemma itoaNat_length: "n < 100000 \<Longrightarrow> length (itoaNat n) \<le> 5"
proof -
  have step: "length (itoaNat m) \<le> Suc k" if "m div 10 = 0 \<or> length (itoaNat (m div 10)) \<le> k" for m k
    using that by (subst itoaNat.simps) auto
  assume "n < 100000"
  then show ?thesis using step[of n 4] step[of "n div 10" 3] step[of "n div 100" 2] step[of "n div 1000" 1] step[of "n div 10000" 0]
    by (simp add: div_mult2_eq[symmetric])
qed

section \<open>A canonical name is no address\<close>

lemma v4Fields_chars: "v4Fields s v d fs = Some bs \<Longrightarrow> list_all (\<lambda>c. isDigit c \<or> c = CHR ''.'') s"
  by (induction s v d fs rule: v4Fields.induct) (auto simp: Let_def split: if_splits)

lemma cutAt_None: "sep \<notin> set s \<Longrightarrow> cutAt sep s = None"
  by (induction s) auto

lemma find_member: "find P s = Some c \<Longrightarrow> c \<in> set s"
  by (induction s) (auto split: if_splits)

lemma find_first: "\<forall>c \<in> set a. \<not> P c \<Longrightarrow> P c \<Longrightarrow> find P (a @ c # b) = Some c"
  by (induction a) auto

lemma ParseAddr_name:
  assumes "CHR '':'' \<notin> set s" "\<exists>c \<in> set s. \<not> isDigit c \<and> c \<noteq> CHR ''.''"
  shows "ParseAddr s = None"
proof -
  have "parseIPv4 s = None"
    using v4Fields_chars[of s 0 0 "[]"] assms(2) by (cases "v4Fields s 0 0 []") (auto simp: parseIPv4_def list_all_iff)
  moreover have "c \<in> set s" if "find (\<lambda>c. c \<in> set ''.:%'') s = Some c" for c using that by (rule find_member)
  ultimately show ?thesis using assms(1) by (cases "find (\<lambda>c. c \<in> set ''.:%'') s") (auto simp: ParseAddr_def)
qed

lemma v6_one_colon:
  assumes "CHR '':'' \<notin> set h" "CHR ''.'' \<notin> set h" "list_all isDigit ds" "ds \<noteq> []"
  shows "case v6Loop (h @ CHR '':'' # ds) [] None of Some ([], gs, ell) \<Rightarrow> v6Expand gs ell = None | _ \<Rightarrow> True"
proof (cases "list_all isHexDigit h")
  case True
  have colon: "\<not> isHexDigit (CHR '':'')" by (simp add: isHexDigit_def isDigit_def)
  have hex: "takeWhile isHexDigit (h @ CHR '':'' # ds) = h" "dropWhile isHexDigit (h @ CHR '':'' # ds) = CHR '':'' # ds"
    using True colon by (simp_all add: takeWhile_append dropWhile_append list_all_iff)
  have "takeWhile isHexDigit ds = ds" "dropWhile isHexDigit ds = []" using assms(3) by (auto simp: list_all_iff isHexDigit_def takeWhile_eq_all_conv)
  moreover have "hd ds \<noteq> CHR '':''" using assms(3,4) by (cases ds) (auto simp: isDigit_def)
  ultimately show ?thesis using assms(4)
    by (simp add: v6Loop.simps[of "h @ CHR '':'' # ds"] v6Loop.simps[of ds] hex Let_def v6Expand_def)
next
  case False
  then have "\<exists>x \<in> set h. \<not> isHexDigit x" by (auto simp: list_all_iff)
  from split_list_first_prop[OF this] obtain a c b where h: "h = a @ c # b" "list_all isHexDigit a" "\<not> isHexDigit c"
    by (auto simp: list_all_iff)
  then have "dropWhile isHexDigit (h @ CHR '':'' # ds) = c # b @ CHR '':'' # ds"
    by (simp add: dropWhile_append list_all_iff)
  moreover have "c \<noteq> CHR '':''" "c \<noteq> CHR ''.''" using assms(1,2) h(1) by auto
  ultimately show ?thesis by (simp add: v6Loop.simps[of "h @ CHR '':'' # ds"] Let_def)
qed

lemma ParseAddr_name_port:
  assumes "CHR '':'' \<notin> set h" "CHR ''%'' \<notin> set h" "h \<noteq> []" "list_all isDigit ds" "ds \<noteq> []"
  shows "ParseAddr (h @ CHR '':'' # ds) = None"
proof (cases "CHR ''.'' \<in> set h")
  case True
  then obtain a b where ab: "h = a @ CHR ''.'' # b" "CHR ''.'' \<notin> set a" by (meson split_list_first)
  then have "find (\<lambda>c. c \<in> set ''.:%'') (h @ CHR '':'' # ds) = Some (CHR ''.'')"
    using assms(1,2) find_first[of a "\<lambda>c. c \<in> set ''.:%''" "CHR ''.''" "b @ CHR '':'' # ds"] by auto
  moreover have "parseIPv4 (h @ CHR '':'' # ds) = None"
    using v4Fields_chars[of "h @ CHR '':'' # ds" 0 0 "[]"] by (cases "v4Fields (h @ CHR '':'' # ds) 0 0 []") (auto simp: parseIPv4_def isDigit_def)
  ultimately show ?thesis by (simp add: ParseAddr_def)
next
  case False
  have find: "find (\<lambda>c. c \<in> set ''.:%'') (h @ CHR '':'' # ds) = Some (CHR '':'')"
    using assms(1,2) False by (intro find_first) auto
  have "CHR ''%'' \<notin> set (h @ CHR '':'' # ds)" using assms(2,4) by (auto simp: list_all_iff isDigit_def)
  then have cut: "cutAt CHR ''%'' (h @ CHR '':'' # ds) = None" by (rule cutAt_None)
  have "take 2 (h @ CHR '':'' # ds) \<noteq> ''::''" using assms(1,3) by (cases h) auto
  with find cut v6_one_colon[OF assms(1) False assms(4,5)] show ?thesis
    by (auto simp: ParseAddr_def parseIPv6_def Let_def split: option.split list.split)
qed

section \<open>Reading the canonical form back\<close>

lemma utf8_ascii: "list_all isASCIIChar s \<Longrightarrow> utf8Valid s"
proof (induction s rule: utf8Valid.induct)
  case (2 c s)
  then show ?case by (auto simp: utf8Lead_def isASCIIChar_def)
qed simp

text \<open>The parts of a parsed hostname entry.\<close>

lemma parsed_hostname:
  assumes "parseEntry env raw = Inr e" "IsHostname e"
  shows "\<exists>s. eeToASCII env s = Some (enHost e)" "validateLabels (enHost e) True = None" "length (enHost e) \<le> 253"
    "enPrefix e = noPrefix" "enPort e < 65536" "enPort e \<noteq> 80" "enPort e \<noteq> 443"
    "enKind e = KindWildcard \<Longrightarrow> \<not> isPublicSuffix env (enHost e)"
proof -
  obtain host port portStr where p: "entryPort portStr = Inr port" "parseHost env host port = Inr e"
    using assms by (auto simp: parseEntry_def parseCIDR_def IsHostname_def Let_def split: if_splits sum.splits option.splits prod.splits)
  from p(1) have "port < 65536 \<and> port \<noteq> 80 \<and> port \<noteq> 443"
    by (auto simp: entryPort_def parsePort_def parseUint_def split: option.splits if_splits sum.splits)
  moreover from p(2) have "enPort e = port" "enPrefix e = noPrefix" "enKind e = KindWildcard \<Longrightarrow> \<not> isPublicSuffix env (enHost e)"
    by (auto simp: parseHost_def Let_def split: if_splits sum.splits prod.splits)
  ultimately show "enPrefix e = noPrefix" "enPort e < 65536" "enPort e \<noteq> 80" "enPort e \<noteq> 443"
    "enKind e = KindWildcard \<Longrightarrow> \<not> isPublicSuffix env (enHost e)" by simp_all
  from p(2) obtain s where "normalizeHostname env s = Inr (enHost e)"
    by (auto simp: parseHost_def Let_def split: if_splits sum.splits prod.splits)
  then show "\<exists>s. eeToASCII env s = Some (enHost e)" by (auto simp: normalizeHostname_def Let_def split: if_splits option.splits)
  show "validateLabels (enHost e) True = None" "length (enHost e) \<le> 253" using parsed_host_head[OF assms] by (simp_all add: MaxHostnameLength_def)
qed

lemma host_chars:
  assumes "list_all hostChar h"
  shows "list_all isASCIIChar h" "list_all visibleChar h" "map lowerChar h = h" "CHR ''/'' \<notin> set h" "CHR '':'' \<notin> set h" "CHR ''*'' \<notin> set h"
    "CHR ''%'' \<notin> set h" "CHR ''['' \<notin> set h"
proof -
  have c: "44 < (of_char c :: nat)" "(of_char c :: nat) < 123" "of_char c \<noteq> (47 :: nat)" "of_char c \<noteq> (58 :: nat)"
    "of_char c < (58 :: nat) \<or> 91 < (of_char c :: nat)" if "c \<in> set h" for c
    using assms that hostChar_code[of c] by (auto simp: list_all_iff)
  show "list_all isASCIIChar h" "list_all visibleChar h" using c by (force simp: list_all_iff isASCIIChar_def visibleChar_def)+
  show "map lowerChar h = h" using c by (intro map_idI) (force simp: lowerChar_def less_eq_char_def)
  show "CHR ''/'' \<notin> set h" "CHR '':'' \<notin> set h" "CHR ''*'' \<notin> set h" "CHR ''%'' \<notin> set h" "CHR ''['' \<notin> set h" using c by force+
qed

lemma parseHost_canonical:
  assumes "validateLabels h True = None" "length h \<le> 253" "eeToASCII env h = Some h"
  shows "parseHost env h port = Inr \<lparr>enKind = KindHost, enPrefix = noPrefix, enHost = h, enPort = port\<rparr>"
    and "\<not> isPublicSuffix env h \<Longrightarrow>
      parseHost env (''*.'' @ h) port = Inr \<lparr>enKind = KindWildcard, enPrefix = noPrefix, enHost = h, enPort = port\<rparr>"
proof -
  note host = canonical_host[OF assms(1)] and chars = host_chars[OF canonical_host(1)[OF assms(1)]]
  have "normalizeHostname env h = Inr h" using assms host(2,4) by (simp add: normalizeHostname_def trimSuffixDot_def MaxHostnameLength_def)
  moreover have "toLower env h = h" "toLower env (''*.'' @ h) = ''*.'' @ h" using chars(1,3)
    by (simp_all add: toLower_def isASCII_def isASCIIChar_def lowerChar_def)
  moreover have "splitWildcard h = (KindHost, h)" "splitWildcard (''*.'' @ h) = (KindWildcard, h)"
    using host(2,3) chars(6) by (cases h; auto simp: splitWildcard_def)+
  ultimately show "parseHost env h port = Inr \<lparr>enKind = KindHost, enPrefix = noPrefix, enHost = h, enPort = port\<rparr>"
    "\<not> isPublicSuffix env h \<Longrightarrow> parseHost env (''*.'' @ h) port = Inr \<lparr>enKind = KindWildcard, enPrefix = noPrefix, enHost = h, enPort = port\<rparr>"
    using chars(6) by (simp_all add: parseHost_def)
qed

lemma cutLast_digits: "CHR '':'' \<notin> set ds \<Longrightarrow> cutLast CHR '':'' (x @ CHR '':'' # ds) = Some (x, ds)"
  by (simp add: cutLast_def cutAt_append)

lemma read_back:
  assumes "list_all isASCIIChar x" "list_all visibleChar x" "CHR ''/'' \<notin> set x" "CHR '':'' \<notin> set x" "CHR ''%'' \<notin> set x" "CHR ''['' \<notin> set x"
    and "\<exists>c \<in> set x. \<not> isDigit c \<and> c \<noteq> CHR ''.''" "length x \<le> 255" "port < 65536" "port \<noteq> 80" "port \<noteq> 443" "parseHost env x port = Inr e"
  shows "parseEntry env (x @ (if port \<noteq> 0 then '':'' @ itoa (int port) else [])) = Inr e"
proof (cases "port = 0")
  case True
  have x: "x \<noteq> []" using assms(7) by auto
  have "\<not> isIPLiteral x"
    using ParseAddr_name[OF assms(4,7)] assms(4,6) cutAt_None[of "CHR '':''" "rev x"] cutAt_None[OF assms(4)] x
    by (cases x) (auto simp: isIPLiteral_def ParseAddrPort_def cutLast_def)
  with assms x True show ?thesis
    by (simp add: parseEntry_def trimSpace_visible utf8_ascii maxRawEntryLength_def cutAt_None entryPort_def)
next
  case False
  define ds where "ds = itoaNat port"
  have ds: "list_all isDigit ds" "ds \<noteq> []" "length ds \<le> 5" "decVal ds = port"
    using itoaNat_digits itoaNat_length[of port] decVal_itoaNat assms(9) by (auto simp: ds_def)
  let ?s = "x @ CHR '':'' # ds"
  have x: "x \<noteq> []" using assms(7) by auto
  have digit: "(of_char c :: nat) \<ge> 48 \<and> (of_char c :: nat) \<le> 57" if "c \<in> set ds" for c using ds(1) that by (auto simp: list_all_iff isDigit_def)
  then have nc: "CHR '':'' \<notin> set ds" "CHR ''/'' \<notin> set ds" by force+
  have chars: "list_all isASCIIChar ?s" "list_all visibleChar ?s" "CHR ''/'' \<notin> set ?s"
    using assms(1-3) digit nc by (force simp: list_all_iff isASCIIChar_def visibleChar_def)+
  have "x ! 0 \<noteq> CHR ''[''" using assms(6) x by (cases x) auto
  then have "ParseAddrPort ?s = None"
    unfolding ParseAddrPort_def cutLast_digits[OF nc(1)] using ParseAddr_name[OF assms(4,7)] by (auto split: option.split)
  moreover have "ParseAddr ?s = None" by (rule ParseAddr_name_port[OF assms(4,5) x ds(1,2)])
  ultimately have "\<not> isIPLiteral ?s"
    using ParseAddr_name[OF assms(4,7)] assms(6) x cutAt_append[OF assms(4)] by (cases x) (auto simp: isIPLiteral_def)
  moreover have "entryPort (Some ds) = Inr port"
    using ds nc(1) False assms(9-11) by (simp add: entryPort_def parsePort_def parseUint_def)
  moreover have "x @ (if port \<noteq> 0 then '':'' @ itoa (int port) else []) = ?s" using False by (simp add: itoa_def ds_def)
  moreover have "length ?s \<le> maxRawEntryLength" using assms(8) ds(3) by (simp add: maxRawEntryLength_def)
  ultimately show ?thesis using chars assms(12) cutAt_append[OF assms(4)]
    by (simp add: parseEntry_def trimSpace_visible utf8_ascii)
qed

text \<open>Property C23. The canonical form of a hostname entry reads back as that entry: whatever text it was parsed from, printing the entry
  and parsing the result gives the same kind, host and port, as long as the IDNA mapping leaves a name it produced alone.\<close>

theorem entry_reads_back:
  assumes "parseEntry env raw = Inr e" "IsHostname e"
    and "\<forall>s a. eeToASCII env s = Some a \<longrightarrow> validateLabels a True = None \<longrightarrow> eeToASCII env a = Some a"
  shows "parseEntry env (entryString e) = Inr e"
proof -
  note parts = parsed_hostname[OF assms(1,2)]
  then have idna: "eeToASCII env (enHost e) = Some (enHost e)" using assms(3) by blast
  note host = canonical_host[OF parts(2)] and chars = host_chars[OF canonical_host(1)[OF parts(2)]]
    and parse = parseHost_canonical[OF parts(2,3) idna, of "enPort e"]
  show ?thesis
  proof (cases "enKind e")
    case KindCIDR
    with assms(2) show ?thesis by (simp add: IsHostname_def)
  next
    case KindHost
    then have "parseHost env (enHost e) (enPort e) = Inr e" using parse(1) parts(4) by simp
    with read_back[OF chars(1,2,4,5,7,8) host(5) _ parts(5,6,7)] parts(3) KindHost show ?thesis by (simp add: entryString_def)
  next
    case KindWildcard
    let ?x = "''*.'' @ enHost e"
    have "parseHost env ?x (enPort e) = Inr e" using parse(2) parts(4,8) KindWildcard by simp
    moreover have "list_all isASCIIChar ?x" "list_all visibleChar ?x" "CHR ''/'' \<notin> set ?x" "CHR '':'' \<notin> set ?x" "CHR ''%'' \<notin> set ?x" "CHR ''['' \<notin> set ?x"
      "\<exists>c \<in> set ?x. \<not> isDigit c \<and> c \<noteq> CHR ''.''" "length ?x \<le> 255"
      using chars parts(3) by (simp_all add: isASCIIChar_def visibleChar_def isDigit_def)
    ultimately show ?thesis using read_back[of ?x "enPort e" env e] parts(5-7) KindWildcard by (simp add: entryString_def)
  qed
qed

theorem entry_reads_back_witness: "parseEntry plainEgress (entryString webEntry) = Inr webEntry"
  using entry_reads_back[of plainEgress "''*.a.io''" webEntry] wildcard_entry by (simp add: webEntry_def IsHostname_def plainEgress_def)

end
