(* ===== verification/Capacity_Admitter.thy ===== *)
theory Capacity_Admitter
  imports Placement_Types
begin

text \<open>
  Admission control of one host (\<^verbatim>\<open>pkg/capacity\<close>): \<^verbatim>\<open>capacity.go\<close> (\<^verbatim>\<open>Admitter\<close> with
  \<^verbatim>\<open>Admit\<close>, \<^verbatim>\<open>AdmitOwned\<close>, \<^verbatim>\<open>Release\<close>, \<^verbatim>\<open>Reserve\<close>, \<^verbatim>\<open>SetParkReclaimable\<close>, \<^verbatim>\<open>Snapshot\<close>,
  \<^verbatim>\<open>CanAdmitRequest\<close>), \<^verbatim>\<open>slot_limit.go\<close>, the pools of \<^verbatim>\<open>slots.go\<close> and the warm-pool gate of
  \<^verbatim>\<open>parkgate.go\<close>.

  The state is the admitter's record; every operation that takes its lock is one function on it.  What the
  code reads from outside is an argument: the free memory of \<^verbatim>\<open>MemProbe\<close> and the resident size of
  \<^verbatim>\<open>RSSSource\<close> (\<^term>\<open>None\<close> when there is no probe, it fails, or the sampler is not ready), the order in
  which Go walks the set of reclaimable slots, and the pools that give slots back, which are functions on the
  admitter because they run without its lock.  The texts of refusals are constructors.  \<^verbatim>\<open>float64\<close> is exact
  rational arithmetic, and the conversion \<^verbatim>\<open>int(x)\<close> truncates toward zero.
\<close>

section \<open>Requests, limits and state\<close>

record Request = capacityRequest +
  rqGPUVendor :: string
  rqTemplateID :: string
  rqModuleRef :: string
  rqRequiredNodeID :: string
  rqNeedsEgressGateway :: bool
  rqNeedsMediatedEgress :: bool
  rqLabels :: "(string \<times> string) list"

definition noRequest :: Request where
  "noRequest =
     \<lparr>crCPU = 0, crMemoryMB = 0, crDiskGB = 0, crGPUs = 0, crRuntime = [], rqGPUVendor = [], rqTemplateID = [], rqModuleRef = [],
      rqRequiredNodeID = [], rqNeedsEgressGateway = False, rqNeedsMediatedEgress = False, rqLabels = []\<rparr>"

record Limits =
  liCPUReservationRatio :: rat
  liMemoryReservationRatio :: rat
  liDiskReservationRatio :: rat
  liMemoryFloorRatio :: rat
  liCPUOverProvisionFactor :: rat
  liMemoryOverProvisionFactor :: rat
  liRSSWatermarkRatio :: rat

record HostInfo =
  hiCPUCores :: int
  hiMemoryTotalMB :: int
  hiDiskTotalGB :: int
  hiGPUCount :: int
  hiGPUVendor :: string
  hiSupportedRuntimes :: "string list"
  hiLabels :: "(string \<times> string) list"

record SlotLimit =
  slName :: string
  slPool :: string
  slRuntimes :: "string list"
  slTotal :: int

record SlotPool =
  spName :: string
  spRuntimes :: "string list"
  spTotal :: int
  spFree :: int

record Admitter =
  adHost :: HostInfo
  adLimits :: Limits
  adReservations :: "string \<rightharpoonup> Request"
  adTotalCPU :: rat
  adTotalMemMB :: int
  adTotalDiskGB :: int
  adTotalGPUs :: int
  adReclaimable :: "string set"
  adParkedCPU :: rat
  adParkedMemMB :: int
  adParkedDiskGB :: int
  adParkedSlots :: int
  adSlotLimit :: SlotLimit
  adSlotUsed :: int
  adSlotParked :: int

text \<open>One locked pass reads the outside world once.\<close>

record Readings =
  rdFreeMB :: "int option"
  rdRSSMB :: "int option"
  rdOrder :: "string set \<Rightarrow> string list"

datatype capReason =
    CPUExceeded | MemoryExceeded | DiskExceeded | SlotsExceeded
  | HostHasNoGPUs | GPUExceeded | GPUVendorMismatch | RuntimeUnsupported | MemoryFloorBreached | BelowRSSWatermark

datatype admitError =
    CapacityExceeded "capReason list"
  | SlotPoolExhausted string "capReason list"
  | ReservationHeld

definition noSlotLimit :: SlotLimit where
  "noSlotLimit = \<lparr>slName = [], slPool = [], slRuntimes = [], slTotal = 0\<rparr>"

definition NewAdmitter :: "HostInfo \<Rightarrow> Limits \<Rightarrow> Admitter" where
  "NewAdmitter host limits =
     \<lparr>adHost = (if hiSupportedRuntimes host = [] then host\<lparr>hiSupportedRuntimes := [''docker'']\<rparr> else host), adLimits = limits,
      adReservations = Map.empty, adTotalCPU = 0, adTotalMemMB = 0, adTotalDiskGB = 0, adTotalGPUs = 0, adReclaimable = {},
      adParkedCPU = 0, adParkedMemMB = 0, adParkedDiskGB = 0, adParkedSlots = 0, adSlotLimit = noSlotLimit, adSlotUsed = 0,
      adSlotParked = 0\<rparr>"

section \<open>Counting\<close>

definition parkReservationPrefix :: string where "parkReservationPrefix = ''park:''"

definition ParkReservationID :: "string \<Rightarrow> string" where
  "ParkReservationID slotID = parkReservationPrefix @ trimSpace slotID"

definition isParkReservation :: "string \<Rightarrow> bool" where
  "isParkReservation i = prefix parkReservationPrefix i"

definition slotServes :: "SlotLimit \<Rightarrow> string \<Rightarrow> bool" where
  "slotServes l runtime \<longleftrightarrow> slTotal l > 0 \<and> runtime \<in> set (slRuntimes l)"

definition addParkedLocked :: "Request \<Rightarrow> Admitter \<Rightarrow> Admitter" where
  "addParkedLocked req a =
     a\<lparr>adParkedCPU := adParkedCPU a + crCPU req, adParkedMemMB := adParkedMemMB a + crMemoryMB req,
       adParkedDiskGB := adParkedDiskGB a + crDiskGB req, adParkedSlots := adParkedSlots a + 1,
       adSlotParked := (if slotServes (adSlotLimit a) (crRuntime req) then adSlotParked a + 1 else adSlotParked a)\<rparr>"

definition subtractParkedLocked :: "Request \<Rightarrow> Admitter \<Rightarrow> Admitter" where
  "subtractParkedLocked req a =
     a\<lparr>adParkedCPU := adParkedCPU a - crCPU req, adParkedMemMB := adParkedMemMB a - crMemoryMB req,
       adParkedDiskGB := adParkedDiskGB a - crDiskGB req, adParkedSlots := adParkedSlots a - 1,
       adSlotParked := (if slotServes (adSlotLimit a) (crRuntime req) then adSlotParked a - 1 else adSlotParked a)\<rparr>"

definition addLocked :: "string \<Rightarrow> Request \<Rightarrow> Admitter \<Rightarrow> Admitter" where
  "addLocked i req a =
     (let a = a\<lparr>adTotalCPU := adTotalCPU a + crCPU req, adTotalMemMB := adTotalMemMB a + crMemoryMB req,
                adTotalDiskGB := adTotalDiskGB a + crDiskGB req, adTotalGPUs := adTotalGPUs a + crGPUs req,
                adSlotUsed := (if slotServes (adSlotLimit a) (crRuntime req) then adSlotUsed a + 1 else adSlotUsed a)\<rparr>
      in if i \<in> adReclaimable a then addParkedLocked req a else a)"

definition subtractLocked :: "string \<Rightarrow> Request \<Rightarrow> Admitter \<Rightarrow> Admitter" where
  "subtractLocked i req a =
     (let a = a\<lparr>adTotalCPU := adTotalCPU a - crCPU req, adTotalMemMB := adTotalMemMB a - crMemoryMB req,
                adTotalDiskGB := adTotalDiskGB a - crDiskGB req, adTotalGPUs := adTotalGPUs a - crGPUs req,
                adSlotUsed := (if slotServes (adSlotLimit a) (crRuntime req) then adSlotUsed a - 1 else adSlotUsed a)\<rparr>
      in if i \<in> adReclaimable a then subtractParkedLocked req a else a)"

definition SetParkReclaimable :: "string \<Rightarrow> bool \<Rightarrow> Admitter \<Rightarrow> Admitter" where
  "SetParkReclaimable i ready a =
     (if \<not> isParkReservation i then a
      else case adReservations a i of
             Some req \<Rightarrow>
               if ready \<and> i \<notin> adReclaimable a then addParkedLocked req (a\<lparr>adReclaimable := insert i (adReclaimable a)\<rparr>)
               else if \<not> ready \<and> i \<in> adReclaimable a then subtractParkedLocked req (a\<lparr>adReclaimable := adReclaimable a - {i}\<rparr>)
               else a
           | None \<Rightarrow>
               if \<not> ready \<and> i \<in> adReclaimable a then subtractParkedLocked noRequest (a\<lparr>adReclaimable := adReclaimable a - {i}\<rparr>)
               else a)"

text \<open>Recording a reservation under an identifier, which replaces one it already holds.\<close>

definition Reserve :: "string \<Rightarrow> Request \<Rightarrow> Admitter \<Rightarrow> Admitter" where
  "Reserve i req a =
     (let a = (case adReservations a i of Some prior \<Rightarrow> subtractLocked i prior a | None \<Rightarrow> a)
      in addLocked i req (a\<lparr>adReservations := (adReservations a)(i \<mapsto> req)\<rparr>))"

definition Release :: "string \<Rightarrow> Admitter \<Rightarrow> Admitter" where
  "Release i a =
     (case adReservations a i of
        None \<Rightarrow> a
      | Some prior \<Rightarrow>
          let a = subtractLocked i prior (a\<lparr>adReservations := (adReservations a)(i := None)\<rparr>)
          in a\<lparr>adReclaimable := adReclaimable a - {i}\<rparr>)"

definition SetSlotLimit :: "SlotLimit \<Rightarrow> Admitter \<Rightarrow> Admitter" where
  "SetSlotLimit l a =
     (let served = filter (\<lambda>i. case adReservations a i of None \<Rightarrow> False | Some req \<Rightarrow> slotServes l (crRuntime req))
                     (sorted_list_of_set (dom (adReservations a)))
      in a\<lparr>adSlotLimit := l, adSlotUsed := int (length served),
           adSlotParked := int (length (filter (\<lambda>i. i \<in> adReclaimable a) served))\<rparr>)"

definition AdmitterSlotPool :: "Admitter \<Rightarrow> SlotPool option" where
  "AdmitterSlotPool a =
     (let l = adSlotLimit a
      in if slTotal l \<le> 0 then None
         else Some \<lparr>spName = slName l, spRuntimes = slRuntimes l, spTotal = slTotal l,
                    spFree = max (slTotal l - adSlotUsed a + adSlotParked a) 0\<rparr>)"

section \<open>Budgets\<close>

definition truncRat :: "rat \<Rightarrow> int" where
  "truncRat r = (if r \<ge> 0 then floor r else ceiling r)"

definition overProvision :: "rat \<Rightarrow> rat" where
  "overProvision factor = (if factor < 1 then 1 else factor)"

definition cpuBudget :: "Admitter \<Rightarrow> rat" where
  "cpuBudget a =
     (let budget = of_int (hiCPUCores (adHost a)) * liCPUReservationRatio (adLimits a) * overProvision (liCPUOverProvisionFactor (adLimits a))
      in if budget < 1 / 100 then 1 / 100 else budget)"

definition memBudgetMB :: "Admitter \<Rightarrow> int" where
  "memBudgetMB a =
     truncRat (of_int (hiMemoryTotalMB (adHost a)) * liMemoryReservationRatio (adLimits a) *
               overProvision (liMemoryOverProvisionFactor (adLimits a)))"

definition diskBudgetGB :: "Admitter \<Rightarrow> int" where
  "diskBudgetGB a =
     (if liDiskReservationRatio (adLimits a) \<le> 0 \<or> hiDiskTotalGB (adHost a) \<le> 0 then 0
      else truncRat (of_int (hiDiskTotalGB (adHost a)) * liDiskReservationRatio (adLimits a)))"

definition memoryFloorMB :: "Admitter \<Rightarrow> int" where
  "memoryFloorMB a =
     (if liMemoryFloorRatio (adLimits a) \<le> 0 \<or> hiMemoryTotalMB (adHost a) \<le> 0 then 0
      else truncRat (of_int (hiMemoryTotalMB (adHost a)) * liMemoryFloorRatio (adLimits a)))"

definition rssWatermarkMB :: "Admitter \<Rightarrow> int" where
  "rssWatermarkMB a =
     (if liRSSWatermarkRatio (adLimits a) \<le> 0 \<or> hiMemoryTotalMB (adHost a) \<le> 0 then 0
      else truncRat (of_int (hiMemoryTotalMB (adHost a)) * liRSSWatermarkRatio (adLimits a)))"

definition runtimeSupported :: "Admitter \<Rightarrow> string \<Rightarrow> bool" where
  "runtimeSupported a runtime \<longleftrightarrow>
     hiSupportedRuntimes (adHost a) = [] \<or> runtime \<in> set (hiSupportedRuntimes (adHost a))"

section \<open>Admission\<close>

text \<open>The checks against the three budgets and the slot pool, on the totals a request would lead to.\<close>

definition budgetReasons :: "Admitter \<Rightarrow> rat \<Rightarrow> int \<Rightarrow> int \<Rightarrow> string \<Rightarrow> int \<Rightarrow> capReason list" where
  "budgetReasons a projectedCPU projectedMem projectedDisk runtime held =
     (if liCPUReservationRatio (adLimits a) > 0 \<and> hiCPUCores (adHost a) > 0 \<and> projectedCPU > cpuBudget a then [CPUExceeded] else []) @
     (if liMemoryReservationRatio (adLimits a) > 0 \<and> hiMemoryTotalMB (adHost a) > 0 \<and> projectedMem > memBudgetMB a
      then [MemoryExceeded] else []) @
     (if liDiskReservationRatio (adLimits a) > 0 \<and> hiDiskTotalGB (adHost a) > 0 \<and> projectedDisk > diskBudgetGB a
      then [DiskExceeded] else []) @
     (if slotServes (adSlotLimit a) runtime \<and> held + 1 > slTotal (adSlotLimit a) then [SlotsExceeded] else [])"

text \<open>The checks no reclaimed slot can help: GPUs, runtime and live memory.\<close>

definition hostReasons :: "Readings \<Rightarrow> Request \<Rightarrow> int \<Rightarrow> Admitter \<Rightarrow> capReason list" where
  "hostReasons rd req projectedGPUs a =
     (if crGPUs req > 0
      then (if hiGPUCount (adHost a) \<le> 0 then [HostHasNoGPUs]
            else if projectedGPUs > hiGPUCount (adHost a) then [GPUExceeded] else []) @
           (if rqGPUVendor req \<noteq> [] \<and> hiGPUVendor (adHost a) \<noteq> [] \<and> rqGPUVendor req \<noteq> hiGPUVendor (adHost a)
            then [GPUVendorMismatch] else [])
      else []) @
     (if crRuntime req \<noteq> [] \<and> \<not> runtimeSupported a (crRuntime req) then [RuntimeUnsupported] else []) @
     (case rdFreeMB rd of
        None \<Rightarrow> []
      | Some free \<Rightarrow> if memoryFloorMB a > 0 \<and> free - crMemoryMB req < memoryFloorMB a then [MemoryFloorBreached] else []) @
     (case rdRSSMB rd of
        None \<Rightarrow> []
      | Some actual \<Rightarrow>
          if rssWatermarkMB a > 0 \<and> hiMemoryTotalMB (adHost a) - actual - crMemoryMB req < rssWatermarkMB a
          then [BelowRSSWatermark] else [])"

text \<open>How many reclaimable slots, in the order Go walks them, cover the shortfall on every axis.\<close>

fun coverLoop :: "Admitter \<Rightarrow> rat \<Rightarrow> int \<Rightarrow> int \<Rightarrow> int \<Rightarrow> string list \<Rightarrow> rat \<Rightarrow> int \<Rightarrow> int \<Rightarrow> int \<Rightarrow> nat \<Rightarrow> nat" where
  "coverLoop a cpu mem disk slotsOver [] fCPU fMem fDisk fSlots slots = 0"
| "coverLoop a cpu mem disk slotsOver (i # rest) fCPU fMem fDisk fSlots slots =
     (let r = (case adReservations a i of Some r \<Rightarrow> r | None \<Rightarrow> noRequest);
          fCPU = fCPU + crCPU r; fMem = fMem + crMemoryMB r; fDisk = fDisk + crDiskGB r;
          fSlots = (if slotServes (adSlotLimit a) (crRuntime r) then fSlots + 1 else fSlots);
          slots = slots + 1
      in if fCPU \<ge> cpu \<and> fMem \<ge> mem \<and> fDisk \<ge> disk \<and> fSlots \<ge> slotsOver then slots
         else coverLoop a cpu mem disk slotsOver rest fCPU fMem fDisk fSlots slots)"

definition parkedSlotsCoveringLocked :: "Readings \<Rightarrow> rat \<Rightarrow> int \<Rightarrow> int \<Rightarrow> int \<Rightarrow> Admitter \<Rightarrow> nat" where
  "parkedSlotsCoveringLocked rd cpu mem disk slotsOver a =
     (if adParkedSlots a = 0 \<or> adParkedCPU a < cpu \<or> adParkedMemMB a < mem \<or> adParkedDiskGB a < disk \<or> adSlotParked a < slotsOver
      then 0 else coverLoop a cpu mem disk slotsOver (rdOrder rd (adReclaimable a)) 0 0 0 0 0)"

definition shortBy :: "bool \<Rightarrow> 'n::linordered_idom \<Rightarrow> 'n \<Rightarrow> 'n" where
  "shortBy checked projected budget = (if checked \<and> projected > budget then projected - budget else 0)"

definition admitOnce :: "Readings \<Rightarrow> string \<Rightarrow> Request \<Rightarrow> bool \<Rightarrow> Admitter \<Rightarrow> (nat \<times> admitError option) \<times> Admitter" where
  "admitOnce rd i req onlyNew a =
     (let prior = adReservations a i
      in if prior \<noteq> None \<and> onlyNew then ((0, Some ReservationHeld), a)
         else
           let was = (case prior of Some p \<Rightarrow> p | None \<Rightarrow> noRequest);
               projectedCPU = adTotalCPU a + crCPU req - crCPU was;
               projectedMem = adTotalMemMB a + crMemoryMB req - crMemoryMB was;
               projectedDisk = adTotalDiskGB a + crDiskGB req - crDiskGB was;
               projectedGPUs = adTotalGPUs a + crGPUs req - crGPUs was;
               held = (if prior \<noteq> None \<and> slotServes (adSlotLimit a) (crRuntime was) then adSlotUsed a - 1 else adSlotUsed a);
               budget = budgetReasons a projectedCPU projectedMem projectedDisk (crRuntime req) held;
               other = hostReasons rd req projectedGPUs a;
               reasons = budget @ other
           in if reasons \<noteq> []
              then let err = (if SlotsExceeded \<in> set reasons then SlotPoolExhausted (trimSpace (slPool (adSlotLimit a))) reasons
                              else CapacityExceeded reasons)
                   in if other \<noteq> [] \<or> isParkReservation i then ((0, Some err), a)
                      else ((parkedSlotsCoveringLocked rd
                               (shortBy (CPUExceeded \<in> set budget) projectedCPU (cpuBudget a))
                               (shortBy (MemoryExceeded \<in> set budget) projectedMem (memBudgetMB a))
                               (shortBy (DiskExceeded \<in> set budget) projectedDisk (diskBudgetGB a))
                               (shortBy (SlotsExceeded \<in> set budget) (held + 1) (slTotal (adSlotLimit a))) a, Some err), a)
              else ((0, None), Reserve i req a))"

text \<open>A pool gives up to the asked number of slots back and says how many it gave.\<close>

type_synonym ParkReclaimer = "int \<Rightarrow> Admitter \<Rightarrow> int \<times> Admitter"

fun reclaimFrom :: "ParkReclaimer list \<Rightarrow> int \<Rightarrow> int \<Rightarrow> Admitter \<Rightarrow> int \<times> Admitter" where
  "reclaimFrom [] slots freed a = (freed, a)"
| "reclaimFrom (reclaim # rest) slots freed a =
     (if freed \<ge> slots then (freed, a)
      else let (n, a) = reclaim (slots - freed) a in reclaimFrom rest slots (freed + n) a)"

fun admitRounds ::
  "(nat \<Rightarrow> Readings) \<Rightarrow> ParkReclaimer list \<Rightarrow> string \<Rightarrow> Request \<Rightarrow> bool \<Rightarrow> nat \<Rightarrow> (nat \<times> admitError option) \<times> Admitter
     \<Rightarrow> admitError option \<times> Admitter" where
  "admitRounds rds reclaimers i req onlyNew 0 ((slots, err), a) = (err, a)"
| "admitRounds rds reclaimers i req onlyNew (Suc left) ((slots, err), a) =
     (if err = None \<or> slots = 0 then (err, a)
      else let (freed, a) = reclaimFrom reclaimers (int slots) 0 a
           in if freed = 0 then (err, a)
              else admitRounds rds reclaimers i req onlyNew left (admitOnce (rds left) i req onlyNew a))"

definition admit ::
  "(nat \<Rightarrow> Readings) \<Rightarrow> ParkReclaimer list \<Rightarrow> string \<Rightarrow> Request \<Rightarrow> bool \<Rightarrow> Admitter \<Rightarrow> admitError option \<times> Admitter" where
  "admit rds reclaimers i req onlyNew a = admitRounds rds reclaimers i req onlyNew 2 (admitOnce (rds 2) i req onlyNew a)"

definition Admit ::
  "(nat \<Rightarrow> Readings) \<Rightarrow> ParkReclaimer list \<Rightarrow> string \<Rightarrow> Request \<Rightarrow> Admitter \<Rightarrow> admitError option \<times> Admitter" where
  "Admit rds reclaimers i req a = admit rds reclaimers i req False a"

definition AdmitOwned ::
  "(nat \<Rightarrow> Readings) \<Rightarrow> ParkReclaimer list \<Rightarrow> string \<Rightarrow> Request \<Rightarrow> Admitter \<Rightarrow> (bool \<times> admitError option) \<times> Admitter" where
  "AdmitOwned rds reclaimers i req a =
     (let (err, a) = admit rds reclaimers i req True a
      in if err = Some ReservationHeld then ((False, None), a) else ((err = None, err), a))"

section \<open>Probes and the heartbeat\<close>

definition dryRun :: "Readings \<Rightarrow> Request \<Rightarrow> bool \<Rightarrow> Admitter \<Rightarrow> bool \<times> capReason list" where
  "dryRun rd req excludeParked a =
     (let totalCPU = (if excludeParked then adTotalCPU a - adParkedCPU a else adTotalCPU a);
          totalMem = (if excludeParked then adTotalMemMB a - adParkedMemMB a else adTotalMemMB a);
          totalDisk = (if excludeParked then adTotalDiskGB a - adParkedDiskGB a else adTotalDiskGB a);
          slotHeld = (if excludeParked then adSlotUsed a - adSlotParked a else adSlotUsed a);
          reasons = budgetReasons a (totalCPU + crCPU req) (totalMem + crMemoryMB req) (totalDisk + crDiskGB req) (crRuntime req) slotHeld @
                    hostReasons rd req (adTotalGPUs a + crGPUs req) a
      in (reasons = [], reasons))"

definition CanAdmitRequest :: "Readings \<Rightarrow> Request \<Rightarrow> Admitter \<Rightarrow> bool \<times> capReason list" where
  "CanAdmitRequest rd req a = dryRun rd req False a"

record Snapshot =
  snHostCPUCores :: int
  snHostMemoryTotalMB :: int
  snHostDiskTotalGB :: int
  snReservedCPU :: rat
  snReservedMemoryMB :: int
  snReservedDiskGB :: int
  snReservedGPUs :: int
  snAvailableCPU :: rat
  snAvailableMemoryMB :: int
  snAvailableDiskGB :: int
  snAvailableGPUs :: int
  snLiveMemoryFreeMB :: int
  snSandboxesActive :: int
  snParkedCPU :: rat
  snParkedMemoryMB :: int
  snParkedDiskGB :: int
  snParkedSlots :: int
  snCanAdmit :: bool
  snReasons :: "capReason list"
  snCPUBudget :: rat
  snMemoryBudgetMB :: int
  snDiskBudgetGB :: int
  snGPUCount :: int
  snGPUVendor :: string
  snSupportedRuntimes :: "string list"
  snEgressGatewayReady :: bool
  snMediatedEgress :: bool
  snSlotPools :: "SlotPool list"
  snLocalTemplateInventoryKnown :: bool
  snLocalTemplateIDs :: "string list"
  snLocalWasmModuleInventoryKnown :: bool
  snLocalWasmModuleIDs :: "string list"
  snLabels :: "(string \<times> string) list"

text \<open>What the admitter reports.  The fields the service overlays afterwards (gateway, slot pools, template
  and module inventories) start at their zero value.\<close>

definition TakeSnapshot :: "Readings \<Rightarrow> Admitter \<Rightarrow> Snapshot" where
  "TakeSnapshot rd a =
     (let (canAdmit, reasons) = dryRun rd (noRequest\<lparr>crCPU := 1, crMemoryMB := 1\<rparr>) True a
      in \<lparr>snHostCPUCores = hiCPUCores (adHost a), snHostMemoryTotalMB = hiMemoryTotalMB (adHost a),
          snHostDiskTotalGB = hiDiskTotalGB (adHost a),
          snReservedCPU = adTotalCPU a, snReservedMemoryMB = adTotalMemMB a, snReservedDiskGB = adTotalDiskGB a,
          snReservedGPUs = adTotalGPUs a,
          snAvailableCPU = max (cpuBudget a - adTotalCPU a) 0, snAvailableMemoryMB = max (memBudgetMB a - adTotalMemMB a) 0,
          snAvailableDiskGB = max (diskBudgetGB a - adTotalDiskGB a) 0, snAvailableGPUs = max (hiGPUCount (adHost a) - adTotalGPUs a) 0,
          snLiveMemoryFreeMB = (case rdFreeMB rd of Some v \<Rightarrow> v | None \<Rightarrow> 0),
          snSandboxesActive = int (card (dom (adReservations a))),
          snParkedCPU = adParkedCPU a, snParkedMemoryMB = adParkedMemMB a, snParkedDiskGB = adParkedDiskGB a, snParkedSlots = adParkedSlots a,
          snCanAdmit = canAdmit, snReasons = reasons,
          snCPUBudget = cpuBudget a, snMemoryBudgetMB = memBudgetMB a, snDiskBudgetGB = diskBudgetGB a,
          snGPUCount = hiGPUCount (adHost a), snGPUVendor = hiGPUVendor (adHost a),
          snSupportedRuntimes = hiSupportedRuntimes (adHost a), snEgressGatewayReady = False, snMediatedEgress = True,
          snSlotPools = [], snLocalTemplateInventoryKnown = False, snLocalTemplateIDs = [],
          snLocalWasmModuleInventoryKnown = False, snLocalWasmModuleIDs = [], snLabels = hiLabels (adHost a)\<rparr>)"

definition slotPoolServes :: "SlotPool \<Rightarrow> string \<Rightarrow> bool" where
  "slotPoolServes p runtime \<longleftrightarrow> runtime \<in> set (spRuntimes p)"

definition SlotPoolFor :: "Snapshot \<Rightarrow> string \<Rightarrow> SlotPool option" where
  "SlotPoolFor s runtime = find (\<lambda>p. slotPoolServes p runtime) (snSlotPools s)"

section \<open>The warm-pool gate\<close>

definition CanPark :: "Readings \<Rightarrow> Request \<Rightarrow> Request \<Rightarrow> Admitter \<Rightarrow> bool" where
  "CanPark rd guardShape shape a \<longleftrightarrow>
     snCanAdmit (TakeSnapshot rd a) \<and>
     fst (CanAdmitRequest rd
       (noRequest\<lparr>crCPU := crCPU shape + crCPU guardShape, crMemoryMB := crMemoryMB shape + crMemoryMB guardShape,
                  crDiskGB := crDiskGB shape + crDiskGB guardShape, crGPUs := crGPUs shape + crGPUs guardShape,
                  rqGPUVendor := rqGPUVendor shape, crRuntime := crRuntime shape\<rparr>) a)"

definition ParkReservation ::
  "(nat \<Rightarrow> Readings) \<Rightarrow> ParkReclaimer list \<Rightarrow> string \<Rightarrow> Request \<Rightarrow> Admitter \<Rightarrow> admitError option \<times> Admitter" where
  "ParkReservation rds reclaimers slotID shape a =
     Admit rds reclaimers (ParkReservationID slotID)
       (noRequest\<lparr>crCPU := crCPU shape, crMemoryMB := crMemoryMB shape, crDiskGB := crDiskGB shape, crGPUs := crGPUs shape,
                  rqGPUVendor := rqGPUVendor shape, crRuntime := crRuntime shape\<rparr>) a"

definition MarkParkReady :: "string \<Rightarrow> bool \<Rightarrow> Admitter \<Rightarrow> Admitter" where
  "MarkParkReady slotID ready a = SetParkReclaimable (ParkReservationID slotID) ready a"

definition ReleasePark :: "string \<Rightarrow> Admitter \<Rightarrow> Admitter" where
  "ReleasePark slotID a = Release (ParkReservationID slotID) a"

end
