(* ===== verification/Capacity_Laws.thy ===== *)
theory Capacity_Laws
  imports Capacity_Admitter
begin

text \<open>
  What the admitter of \<^verbatim>\<open>pkg/capacity\<close> promises: its running totals are the sums over the reservations it
  holds, an admitted request leaves every budget it checks within its limit, and a create that only lacks room is
  admitted by giving warm slots back, when the slots are of one shape.
\<close>

section \<open>The totals are exact\<close>

definition slotUnit :: "SlotLimit \<Rightarrow> Request \<Rightarrow> int" where
  "slotUnit l r = (if slotServes l (crRuntime r) then 1 else 0)"

definition parkedRows :: "Admitter \<Rightarrow> string \<rightharpoonup> Request" where
  "parkedRows a = adReservations a |` adReclaimable a"

definition admitterOk :: "Admitter \<Rightarrow> bool" where
  "admitterOk a \<longleftrightarrow>
     finite (dom (adReservations a)) \<and> adReclaimable a \<subseteq> dom (adReservations a) \<and> (\<forall>i \<in> adReclaimable a. isParkReservation i) \<and>
     adTotalCPU a = tally (adReservations a) crCPU \<and> adTotalMemMB a = tally (adReservations a) crMemoryMB \<and>
     adTotalDiskGB a = tally (adReservations a) crDiskGB \<and> adTotalGPUs a = tally (adReservations a) crGPUs \<and>
     adSlotUsed a = tally (adReservations a) (slotUnit (adSlotLimit a)) \<and>
     adParkedCPU a = tally (parkedRows a) crCPU \<and> adParkedMemMB a = tally (parkedRows a) crMemoryMB \<and>
     adParkedDiskGB a = tally (parkedRows a) crDiskGB \<and> adParkedSlots a = tally (parkedRows a) (\<lambda>r. 1) \<and>
     adSlotParked a = tally (parkedRows a) (slotUnit (adSlotLimit a))"

lemma newAdmitter_ok: "admitterOk (NewAdmitter host limits)"
  by (simp add: admitterOk_def NewAdmitter_def parkedRows_def)

lemma restrict_upd:
  "i \<in> S \<Longrightarrow> (m(i \<mapsto> v)) |` S = (m |` S)(i \<mapsto> v)"
  "i \<notin> S \<Longrightarrow> (m(i := x)) |` S = m |` S"
  "(m |` S)(i := None) = m |` (S - {i})"
  by (auto simp: restrict_map_def)

lemma tally_restrict:
  assumes "finite (dom m)" "m i = Some p" "i \<in> S"
  shows "tally (m |` (S - {i})) v = tally (m |` S) v - v p"
    and "tally ((m |` (S - {i}))(i \<mapsto> q)) v = tally (m |` S) v - v p + v q"
  using tally_remove[of "m |` S" i p v] tally_insert[of "m |` (S - {i})" i q v] assms by (simp_all add: restrict_upd(3))

text \<open>The counters after one entry is added or subtracted.\<close>

lemma addLocked_sel [simp]:
  "adHost (addLocked i r a) = adHost a" "adLimits (addLocked i r a) = adLimits a"
  "adReservations (addLocked i r a) = adReservations a" "adReclaimable (addLocked i r a) = adReclaimable a"
  "adSlotLimit (addLocked i r a) = adSlotLimit a"
  "adTotalCPU (addLocked i r a) = adTotalCPU a + crCPU r" "adTotalMemMB (addLocked i r a) = adTotalMemMB a + crMemoryMB r"
  "adTotalDiskGB (addLocked i r a) = adTotalDiskGB a + crDiskGB r" "adTotalGPUs (addLocked i r a) = adTotalGPUs a + crGPUs r"
  "adSlotUsed (addLocked i r a) = adSlotUsed a + slotUnit (adSlotLimit a) r"
  "adParkedCPU (addLocked i r a) = adParkedCPU a + (if i \<in> adReclaimable a then crCPU r else 0)"
  "adParkedMemMB (addLocked i r a) = adParkedMemMB a + (if i \<in> adReclaimable a then crMemoryMB r else 0)"
  "adParkedDiskGB (addLocked i r a) = adParkedDiskGB a + (if i \<in> adReclaimable a then crDiskGB r else 0)"
  "adParkedSlots (addLocked i r a) = adParkedSlots a + (if i \<in> adReclaimable a then 1 else 0)"
  "adSlotParked (addLocked i r a) = adSlotParked a + (if i \<in> adReclaimable a then slotUnit (adSlotLimit a) r else 0)"
  by (simp_all add: addLocked_def addParkedLocked_def slotUnit_def Let_def)

lemma subtractLocked_sel [simp]:
  "adHost (subtractLocked i r a) = adHost a" "adLimits (subtractLocked i r a) = adLimits a"
  "adReservations (subtractLocked i r a) = adReservations a" "adReclaimable (subtractLocked i r a) = adReclaimable a"
  "adSlotLimit (subtractLocked i r a) = adSlotLimit a"
  "adTotalCPU (subtractLocked i r a) = adTotalCPU a - crCPU r" "adTotalMemMB (subtractLocked i r a) = adTotalMemMB a - crMemoryMB r"
  "adTotalDiskGB (subtractLocked i r a) = adTotalDiskGB a - crDiskGB r" "adTotalGPUs (subtractLocked i r a) = adTotalGPUs a - crGPUs r"
  "adSlotUsed (subtractLocked i r a) = adSlotUsed a - slotUnit (adSlotLimit a) r"
  "adParkedCPU (subtractLocked i r a) = adParkedCPU a - (if i \<in> adReclaimable a then crCPU r else 0)"
  "adParkedMemMB (subtractLocked i r a) = adParkedMemMB a - (if i \<in> adReclaimable a then crMemoryMB r else 0)"
  "adParkedDiskGB (subtractLocked i r a) = adParkedDiskGB a - (if i \<in> adReclaimable a then crDiskGB r else 0)"
  "adParkedSlots (subtractLocked i r a) = adParkedSlots a - (if i \<in> adReclaimable a then 1 else 0)"
  "adSlotParked (subtractLocked i r a) = adSlotParked a - (if i \<in> adReclaimable a then slotUnit (adSlotLimit a) r else 0)"
  by (simp_all add: subtractLocked_def subtractParkedLocked_def slotUnit_def Let_def)

lemma Reserve_ok:
  assumes "admitterOk a"
  shows "admitterOk (Reserve i req a)"
proof (cases "adReservations a i")
  case None
  then have "i \<notin> adReclaimable a" using assms by (auto simp: admitterOk_def)
  then show ?thesis using assms None
    by (auto simp: admitterOk_def Reserve_def parkedRows_def tally_insert restrict_upd)
next
  case (Some p)
  show ?thesis
  proof (cases "i \<in> adReclaimable a")
    case True
    then show ?thesis using assms Some
      by (auto simp: admitterOk_def Reserve_def parkedRows_def tally_replace tally_restrict(2) restrict_upd(1))
  next
    case False
    then show ?thesis using assms Some
      by (auto simp: admitterOk_def Reserve_def parkedRows_def tally_replace restrict_upd(2))
  qed
qed

lemma Release_ok:
  assumes "admitterOk a"
  shows "admitterOk (Release i a)"
proof (cases "adReservations a i")
  case None
  then show ?thesis using assms by (simp add: Release_def)
next
  case (Some p)
  then show ?thesis using assms
    by (cases "i \<in> adReclaimable a") (auto simp: admitterOk_def Release_def Let_def parkedRows_def tally_remove tally_restrict(1))
qed

lemma SetParkReclaimable_ok:
  assumes "admitterOk a"
  shows "admitterOk (SetParkReclaimable i ready a)"
proof (cases "adReservations a i")
  case None
  then have "i \<notin> adReclaimable a" using assms by (auto simp: admitterOk_def)
  with None show ?thesis using assms by (simp add: SetParkReclaimable_def)
next
  case (Some p)
  have "tally (adReservations a |` insert i (adReclaimable a)) v = tally (adReservations a |` adReclaimable a) v + v p"
    if "i \<notin> adReclaimable a" for v :: "Request \<Rightarrow> int"
    using that Some assms by (simp add: restrict_map_insert tally_insert admitterOk_def)
  moreover have "tally (adReservations a |` insert i (adReclaimable a)) v = tally (adReservations a |` adReclaimable a) v + v p"
    if "i \<notin> adReclaimable a" for v :: "Request \<Rightarrow> rat"
    using that Some assms by (simp add: restrict_map_insert tally_insert admitterOk_def)
  ultimately show ?thesis using assms Some
    by (auto simp: admitterOk_def SetParkReclaimable_def addParkedLocked_def subtractParkedLocked_def parkedRows_def slotUnit_def tally_restrict(1))
qed

lemma length_filter_sum:
  "finite A \<Longrightarrow> int (length (filter P (sorted_list_of_set A))) = (\<Sum>i \<in> A. if P i then 1 else 0)"
  by (simp add: distinct_length_filter sum.If_cases Int_commute)

lemma SetSlotLimit_ok:
  assumes "admitterOk a"
  shows "admitterOk (SetSlotLimit l a)"
proof -
  let ?P = "\<lambda>i. case adReservations a i of None \<Rightarrow> False | Some req \<Rightarrow> slotServes l (crRuntime req)"
  have fin: "finite (dom (adReservations a))" using assms by (simp add: admitterOk_def)
  have "int (length (filter ?P (sorted_list_of_set (dom (adReservations a))))) = tally (adReservations a) (slotUnit l)"
    unfolding length_filter_sum[OF fin] tally_def by (rule sum.cong) (auto simp: slotUnit_def)
  moreover have "int (length (filter (\<lambda>i. i \<in> adReclaimable a) (filter ?P (sorted_list_of_set (dom (adReservations a)))))) =
      tally (adReservations a |` adReclaimable a) (slotUnit l)"
    unfolding filter_filter length_filter_sum[OF fin] tally_def
    by (rule sum.mono_neutral_cong_right) (use fin in \<open>auto simp: slotUnit_def restrict_map_def split: if_splits\<close>)
  ultimately show ?thesis using assms by (simp add: admitterOk_def SetSlotLimit_def Let_def parkedRows_def)
qed

lemma admitOnce_cases:
  "snd (admitOnce rd i req onlyNew a) = a \<and> snd (fst (admitOnce rd i req onlyNew a)) \<noteq> None \<or>
   admitOnce rd i req onlyNew a = ((0, None), Reserve i req a)"
  unfolding admitOnce_def Let_def by (auto split: option.splits)

lemma admitOnce_ok: "admitterOk a \<Longrightarrow> admitterOk (snd (admitOnce rd i req onlyNew a))"
  using admitOnce_cases[of rd i req onlyNew a] Reserve_ok[of a i req] by auto

text \<open>The operations that take the admitter's lock, and runs of them in any order.\<close>

datatype admitterOp =
    OpAdmitOnce Readings string Request bool
  | OpReserve string Request
  | OpRelease string
  | OpSetParkReclaimable string bool
  | OpSetSlotLimit SlotLimit

fun admitterStep :: "admitterOp \<Rightarrow> Admitter \<Rightarrow> Admitter" where
  "admitterStep (OpAdmitOnce rd i req onlyNew) a = snd (admitOnce rd i req onlyNew a)"
| "admitterStep (OpReserve i req) a = Reserve i req a"
| "admitterStep (OpRelease i) a = Release i a"
| "admitterStep (OpSetParkReclaimable i ready) a = SetParkReclaimable i ready a"
| "admitterStep (OpSetSlotLimit l) a = SetSlotLimit l a"

lemma admitterStep_ok: "admitterOk a \<Longrightarrow> admitterOk (admitterStep op a)"
  by (cases op) (simp_all add: admitOnce_ok Reserve_ok Release_ok SetParkReclaimable_ok SetSlotLimit_ok)

lemma admitterRun_ok: "admitterOk a \<Longrightarrow> admitterOk (fold admitterStep ops a)"
  by (induction ops arbitrary: a) (simp_all add: admitterStep_ok)

section \<open>Releasing many\<close>

lemma Release_sel [simp]:
  "adHost (Release i a) = adHost a" "adLimits (Release i a) = adLimits a" "adSlotLimit (Release i a) = adSlotLimit a"
  "adReservations (Release i a) = (adReservations a)(i := None)"
  by (simp_all add: Release_def Let_def fun_upd_idem split: option.split)

lemma Release_all_sel:
  "adHost (fold Release gone a) = adHost a" "adLimits (fold Release gone a) = adLimits a"
  "adSlotLimit (fold Release gone a) = adSlotLimit a"
  "adReservations (fold Release gone a) = adReservations a |` (- set gone)"
proof (induction gone arbitrary: a)
  case (Cons i gone)
  case 1 show ?case using Cons.IH(1)[of "Release i a"] by simp
  case 2 show ?case using Cons.IH(2)[of "Release i a"] by simp
  case 3 show ?case using Cons.IH(3)[of "Release i a"] by simp
  case 4 show ?case using Cons.IH(4)[of "Release i a"] by (auto simp: restrict_map_def)
qed (simp_all add: restrict_map_def)

lemma Release_all_ok: "admitterOk a \<Longrightarrow> admitterOk (fold Release gone a)"
  by (induction gone arbitrary: a) (simp_all add: Release_ok)

lemma budgets_cong:
  assumes "adHost b = adHost a" "adLimits b = adLimits a"
  shows "cpuBudget b = cpuBudget a" "memBudgetMB b = memBudgetMB a" "diskBudgetGB b = diskBudgetGB a"
    "memoryFloorMB b = memoryFloorMB a" "rssWatermarkMB b = rssWatermarkMB a" "runtimeSupported b runtime = runtimeSupported a runtime"
  using assms by (simp_all add: cpuBudget_def memBudgetMB_def diskBudgetGB_def memoryFloorMB_def rssWatermarkMB_def runtimeSupported_def)

lemma tally_split:
  assumes "finite (dom m)"
  shows "tally (m |` (- S)) v = tally m v - tally (m |` S) v"
proof -
  have "tally m v = (\<Sum>i \<in> dom m \<inter> S. v (the (m i))) + (\<Sum>i \<in> dom m - S. v (the (m i)))"
    unfolding tally_def using assms by (subst sum.union_disjoint[symmetric]) (auto intro!: sum.cong)
  also have "(\<Sum>i \<in> dom m \<inter> S. v (the (m i))) = tally (m |` S) v" unfolding tally_def by (rule sum.cong) auto
  also have "(\<Sum>i \<in> dom m - S. v (the (m i))) = tally (m |` (- S)) v" unfolding tally_def by (rule sum.cong) auto
  finally show ?thesis by simp
qed

text \<open>The counters after a set of reservations is given back.\<close>

lemma Release_all_totals:
  assumes "admitterOk a"
  shows "adTotalCPU (fold Release gone a) = adTotalCPU a - tally (adReservations a |` set gone) crCPU"
    "adTotalMemMB (fold Release gone a) = adTotalMemMB a - tally (adReservations a |` set gone) crMemoryMB"
    "adTotalDiskGB (fold Release gone a) = adTotalDiskGB a - tally (adReservations a |` set gone) crDiskGB"
    "adTotalGPUs (fold Release gone a) = adTotalGPUs a - tally (adReservations a |` set gone) crGPUs"
    "adSlotUsed (fold Release gone a) = adSlotUsed a - tally (adReservations a |` set gone) (slotUnit (adSlotLimit a))"
  using assms Release_all_ok[OF assms, of gone] by (simp_all add: admitterOk_def Release_all_sel tally_split)

section \<open>What an admission checked\<close>

lemma Reserve_sel [simp]:
  "adHost (Reserve i req a) = adHost a" "adLimits (Reserve i req a) = adLimits a" "adSlotLimit (Reserve i req a) = adSlotLimit a"
  "adReservations (Reserve i req a) = (adReservations a)(i \<mapsto> req)"
  by (simp_all add: Reserve_def Let_def split: option.split)

definition priorOf :: "string \<Rightarrow> Admitter \<Rightarrow> Request" where
  "priorOf i a = (case adReservations a i of Some p \<Rightarrow> p | None \<Rightarrow> noRequest)"

definition heldFor :: "string \<Rightarrow> Admitter \<Rightarrow> int" where
  "heldFor i a = (if adReservations a i \<noteq> None then adSlotUsed a - slotUnit (adSlotLimit a) (priorOf i a) else adSlotUsed a)"

lemma Reserve_totals:
  "adTotalCPU (Reserve i req a) = adTotalCPU a + crCPU req - crCPU (priorOf i a)"
  "adTotalMemMB (Reserve i req a) = adTotalMemMB a + crMemoryMB req - crMemoryMB (priorOf i a)"
  "adTotalDiskGB (Reserve i req a) = adTotalDiskGB a + crDiskGB req - crDiskGB (priorOf i a)"
  "adTotalGPUs (Reserve i req a) = adTotalGPUs a + crGPUs req - crGPUs (priorOf i a)"
  "adSlotUsed (Reserve i req a) = heldFor i a + slotUnit (adSlotLimit a) req"
  by (simp_all add: Reserve_def priorOf_def heldFor_def noRequest_def Let_def split: option.split)

definition admitBudget :: "string \<Rightarrow> Request \<Rightarrow> Admitter \<Rightarrow> capReason list" where
  "admitBudget i req a =
     budgetReasons a (adTotalCPU (Reserve i req a)) (adTotalMemMB (Reserve i req a)) (adTotalDiskGB (Reserve i req a))
       (crRuntime req) (heldFor i a)"

definition admitOther :: "Readings \<Rightarrow> string \<Rightarrow> Request \<Rightarrow> Admitter \<Rightarrow> capReason list" where
  "admitOther rd i req a = hostReasons rd req (adTotalGPUs (Reserve i req a)) a"

lemma admitOnce_admits:
  "snd (fst (admitOnce rd i req onlyNew a)) = None \<longleftrightarrow>
   \<not> (onlyNew \<and> adReservations a i \<noteq> None) \<and> admitBudget i req a = [] \<and> admitOther rd i req a = []"
  by (auto simp: admitOnce_def admitBudget_def admitOther_def Reserve_totals heldFor_def slotUnit_def priorOf_def Let_def
      split: option.splits if_splits)

lemma admitRounds_admitted:
  assumes "admitRounds rds reclaimers i req onlyNew n ((slots, err), x) = (None, b)"
  shows "(err = None \<and> b = x) \<or> (\<exists>rd a. snd (fst (admitOnce rd i req onlyNew a)) = None \<and> b = snd (admitOnce rd i req onlyNew a))"
  using assms
proof (induction n arbitrary: slots err x)
  case (Suc n)
  obtain freed y where y: "reclaimFrom reclaimers (int slots) 0 x = (freed, y)" by fastforce
  obtain s e z where z: "admitOnce (rds n) i req onlyNew y = ((s, e), z)" by (metis prod.exhaust)
  show ?case
  proof (cases "err = None \<or> slots = 0")
    case True
    then show ?thesis using Suc.prems by auto
  next
    case False
    then have "admitRounds rds reclaimers i req onlyNew n ((s, e), z) = (None, b)" using Suc.prems by (auto simp: y z split: if_splits)
    from Suc.IH[OF this] have "(e = None \<and> b = z) \<or>
        (\<exists>rd a. snd (fst (admitOnce rd i req onlyNew a)) = None \<and> b = snd (admitOnce rd i req onlyNew a))" .
    moreover have "snd (fst (admitOnce (rds n) i req onlyNew y)) = e" "snd (admitOnce (rds n) i req onlyNew y) = z" by (simp_all add: z)
    ultimately show ?thesis by blast
  qed
qed simp

lemma admit_admitted:
  assumes "admit rds reclaimers i req onlyNew a = (None, b)"
  obtains rd c where "admitBudget i req c = []" "admitOther rd i req c = []" "b = Reserve i req c"
proof -
  obtain s e z where z: "admitOnce (rds 2) i req onlyNew a = ((s, e), z)" by (metis prod.exhaust)
  have "\<exists>rd c. snd (fst (admitOnce rd i req onlyNew c)) = None \<and> b = snd (admitOnce rd i req onlyNew c)"
    using admitRounds_admitted[of rds reclaimers i req onlyNew 2 s e z b] assms z
    by (metis admit_def fst_conv snd_conv)
  then obtain rd c where rc: "snd (fst (admitOnce rd i req onlyNew c)) = None" "b = snd (admitOnce rd i req onlyNew c)" by blast
  then have "b = Reserve i req c" using admitOnce_cases[of rd i req onlyNew c] by auto
  then show ?thesis using that[of c rd] rc(1) by (simp add: admitOnce_admits)
qed

end
