(* ===== verification/Capacity_Properties.thy ===== *)
theory Capacity_Properties
  imports Capacity_Laws
begin

text \<open>
  Properties of host admission: exact totals, budgets kept by every admitted create, the meaning of the flag a
  heartbeat carries, and giving warm slots back.
\<close>

section \<open>Reclaiming slots of one shape\<close>

lemma coverLoop_uniform:
  assumes "\<And>j. j \<in> set order \<Longrightarrow> adReservations a j = Some shape"
    and "coverLoop a cpu mem disk slotsOver order fCPU fMem fDisk fSlots n = k" "0 < k"
  shows "\<exists>m. k = n + m \<and> cpu \<le> fCPU + of_nat m * crCPU shape \<and> mem \<le> fMem + int m * crMemoryMB shape \<and>
             disk \<le> fDisk + int m * crDiskGB shape \<and> slotsOver \<le> fSlots + int m * slotUnit (adSlotLimit a) shape"
  using assms
proof (induction order arbitrary: fCPU fMem fDisk fSlots n)
  case (Cons j order)
  let ?u = "slotUnit (adSlotLimit a) shape"
  let ?stop = "cpu \<le> fCPU + crCPU shape \<and> mem \<le> fMem + crMemoryMB shape \<and> disk \<le> fDisk + crDiskGB shape \<and> slotsOver \<le> fSlots + ?u"
  have step: "coverLoop a cpu mem disk slotsOver (j # order) fCPU fMem fDisk fSlots n =
      (if ?stop then n + 1
       else coverLoop a cpu mem disk slotsOver order (fCPU + crCPU shape) (fMem + crMemoryMB shape) (fDisk + crDiskGB shape) (fSlots + ?u) (n + 1))"
    using Cons.prems(1)[of j] by (auto simp: slotUnit_def Let_def)
  show ?case
  proof (cases ?stop)
    case True
    then show ?thesis using Cons.prems(2) step by (intro exI[of _ 1]) simp
  next
    case False
    have go: "coverLoop a cpu mem disk slotsOver order (fCPU + crCPU shape) (fMem + crMemoryMB shape) (fDisk + crDiskGB shape)
        (fSlots + ?u) (n + 1) = k" using Cons.prems(2) unfolding step if_not_P[OF False] .
    from Cons.IH[OF Cons.prems(1) go Cons.prems(3)] obtain m where "k = n + 1 + m" "cpu \<le> fCPU + crCPU shape + of_nat m * crCPU shape"
        "mem \<le> fMem + crMemoryMB shape + int m * crMemoryMB shape" "disk \<le> fDisk + crDiskGB shape + int m * crDiskGB shape"
        "slotsOver \<le> fSlots + ?u + int m * ?u" by auto
    then show ?thesis by (intro exI[of _ "Suc m"]) (simp add: algebra_simps)
  qed
qed simp

lemma tally_uniform:
  assumes "distinct gone" "\<And>j. j \<in> set gone \<Longrightarrow> m j = Some shape"
  shows "tally (m |` set gone) v = of_nat (length gone) * v shape"
proof -
  have "dom (m |` set gone) = set gone" using assms(2) by auto
  then have "tally (m |` set gone) v = (\<Sum>j \<in> set gone. v shape)" unfolding tally_def
    by (intro sum.cong) (simp_all add: assms(2))
  then show ?thesis using assms(1) by (simp add: distinct_card)
qed

text \<open>A refusal that asks for slots is one on budgets only, and says by how much each is short.\<close>

lemma admitOnce_asks:
  assumes "admitOnce rd i req onlyNew a = ((slots, Some err), b)" "0 < slots"
  shows "b = a" "\<not> (onlyNew \<and> adReservations a i \<noteq> None)" "admitOther rd i req a = []" "\<not> isParkReservation i"
    and "slots = coverLoop a
           (shortBy (CPUExceeded \<in> set (admitBudget i req a)) (adTotalCPU (Reserve i req a)) (cpuBudget a))
           (shortBy (MemoryExceeded \<in> set (admitBudget i req a)) (adTotalMemMB (Reserve i req a)) (memBudgetMB a))
           (shortBy (DiskExceeded \<in> set (admitBudget i req a)) (adTotalDiskGB (Reserve i req a)) (diskBudgetGB a))
           (shortBy (SlotsExceeded \<in> set (admitBudget i req a)) (heldFor i a + 1) (slTotal (adSlotLimit a)))
           (rdOrder rd (adReclaimable a)) 0 0 0 0 0"
  using assms
  by (auto simp: admitOnce_def admitBudget_def admitOther_def Reserve_totals heldFor_def slotUnit_def priorOf_def Let_def
      parkedSlotsCoveringLocked_def split: option.splits if_splits)

lemma slotUnit_nonneg [simp]: "0 \<le> slotUnit l r"
  by (simp add: slotUnit_def)

lemma reclaimed_totals:
  assumes "admitterOk a" "distinct gone" "\<And>j. j \<in> set gone \<Longrightarrow> adReservations a j = Some shape" "i \<notin> set gone"
  shows "adTotalCPU (Reserve i req (fold Release gone a)) = adTotalCPU (Reserve i req a) - of_nat (length gone) * crCPU shape"
    "adTotalMemMB (Reserve i req (fold Release gone a)) = adTotalMemMB (Reserve i req a) - int (length gone) * crMemoryMB shape"
    "adTotalDiskGB (Reserve i req (fold Release gone a)) = adTotalDiskGB (Reserve i req a) - int (length gone) * crDiskGB shape"
    "adTotalGPUs (Reserve i req (fold Release gone a)) = adTotalGPUs (Reserve i req a) - int (length gone) * crGPUs shape"
    "heldFor i (fold Release gone a) = heldFor i a - int (length gone) * slotUnit (adSlotLimit a) shape"
proof -
  have "priorOf i (fold Release gone a) = priorOf i a" using assms(4) by (simp add: priorOf_def Release_all_sel)
  moreover have "adReservations (fold Release gone a) i = adReservations a i" using assms(4) by (simp add: Release_all_sel)
  ultimately show "adTotalCPU (Reserve i req (fold Release gone a)) = adTotalCPU (Reserve i req a) - of_nat (length gone) * crCPU shape"
    "adTotalMemMB (Reserve i req (fold Release gone a)) = adTotalMemMB (Reserve i req a) - int (length gone) * crMemoryMB shape"
    "adTotalDiskGB (Reserve i req (fold Release gone a)) = adTotalDiskGB (Reserve i req a) - int (length gone) * crDiskGB shape"
    "adTotalGPUs (Reserve i req (fold Release gone a)) = adTotalGPUs (Reserve i req a) - int (length gone) * crGPUs shape"
    "heldFor i (fold Release gone a) = heldFor i a - int (length gone) * slotUnit (adSlotLimit a) shape"
    by (simp_all add: Reserve_totals heldFor_def Release_all_sel Release_all_totals[OF assms(1)] tally_uniform[OF assms(2,3)])
qed

lemma shortBy_covered:
  "shortBy checked projected budget \<le> freed \<Longrightarrow> checked \<or> projected \<le> budget \<longrightarrow> projected - freed \<le> budget"
  by (auto simp: shortBy_def split: if_splits)

lemma budgetReasons_set:
  "CPUExceeded \<in> set (budgetReasons a c m d runtime held) \<longleftrightarrow>
     0 < liCPUReservationRatio (adLimits a) \<and> 0 < hiCPUCores (adHost a) \<and> cpuBudget a < c"
  "MemoryExceeded \<in> set (budgetReasons a c m d runtime held) \<longleftrightarrow>
     0 < liMemoryReservationRatio (adLimits a) \<and> 0 < hiMemoryTotalMB (adHost a) \<and> memBudgetMB a < m"
  "DiskExceeded \<in> set (budgetReasons a c m d runtime held) \<longleftrightarrow>
     0 < liDiskReservationRatio (adLimits a) \<and> 0 < hiDiskTotalGB (adHost a) \<and> diskBudgetGB a < d"
  "SlotsExceeded \<in> set (budgetReasons a c m d runtime held) \<longleftrightarrow>
     slotServes (adSlotLimit a) runtime \<and> slTotal (adSlotLimit a) < held + 1"
  by (auto simp: budgetReasons_def)

lemma budgetReasons_nil:
  "budgetReasons a c m d runtime held = [] \<longleftrightarrow>
     CPUExceeded \<notin> set (budgetReasons a c m d runtime held) \<and> MemoryExceeded \<notin> set (budgetReasons a c m d runtime held) \<and>
     DiskExceeded \<notin> set (budgetReasons a c m d runtime held) \<and> SlotsExceeded \<notin> set (budgetReasons a c m d runtime held)"
  by (auto simp: budgetReasons_def)

lemma hostReasons_mono:
  assumes "hostReasons rd req g a = []" "h \<le> g" "adHost b = adHost a" "adLimits b = adLimits a"
  shows "hostReasons rd req h b = []"
proof -
  have gpu: "\<not> h > n" if "\<not> g > n" for n using that assms(2) by simp
  show ?thesis using assms(1)
    unfolding hostReasons_def append_is_Nil_conv budgets_cong[OF assms(3,4)] assms(3)
    by (elim conjE, intro conjI) (auto split: if_splits dest!: gpu)
qed

lemma reclaimed_fits:
  assumes "admitterOk a" "distinct gone" "set gone \<subseteq> adReclaimable a" "length gone = slots"
    and "\<And>j. j \<in> adReclaimable a \<Longrightarrow> adReservations a j = Some shape" "0 \<le> crGPUs shape"
    and "set (rdOrder rd (adReclaimable a)) \<subseteq> adReclaimable a"
    and "admitOnce rd i req onlyNew a = ((slots, Some err), b)" "0 < slots"
  shows "snd (fst (admitOnce rd i req onlyNew (fold Release gone a))) = None"
proof -
  note ask = admitOnce_asks[OF assms(8,9)]
  let ?b = "fold Release gone a"
  let ?u = "slotUnit (adSlotLimit a) shape"
  have out: "i \<notin> set gone" using assms(1,3) ask(4) by (auto simp: admitterOk_def)
  have sh: "adReservations a j = Some shape" if "j \<in> set gone" for j using that assms(3,5) by auto
  note tot = reclaimed_totals[OF assms(1,2) sh out, unfolded assms(4)]
  have ord: "adReservations a j = Some shape" if "j \<in> set (rdOrder rd (adReclaimable a))" for j using that assms(5,7) by auto
  from coverLoop_uniform[OF ord ask(5)[symmetric] assms(9)]
  have cov: "shortBy (CPUExceeded \<in> set (admitBudget i req a)) (adTotalCPU (Reserve i req a)) (cpuBudget a) \<le> of_nat slots * crCPU shape"
    "shortBy (MemoryExceeded \<in> set (admitBudget i req a)) (adTotalMemMB (Reserve i req a)) (memBudgetMB a) \<le> int slots * crMemoryMB shape"
    "shortBy (DiskExceeded \<in> set (admitBudget i req a)) (adTotalDiskGB (Reserve i req a)) (diskBudgetGB a) \<le> int slots * crDiskGB shape"
    "shortBy (SlotsExceeded \<in> set (admitBudget i req a)) (heldFor i a + 1) (slTotal (adSlotLimit a)) \<le> int slots * ?u"
    by auto
  have same: "adHost ?b = adHost a" "adLimits ?b = adLimits a" "adSlotLimit ?b = adSlotLimit a" by (simp_all add: Release_all_sel)
  note set = budgetReasons_set admitBudget_def tot budgets_cong[OF same(1,2)] same
  have "CPUExceeded \<notin> set (admitBudget i req ?b)" using shortBy_covered[OF cov(1)] by (auto simp: set)
  moreover have "MemoryExceeded \<notin> set (admitBudget i req ?b)" using shortBy_covered[OF cov(2)] by (auto simp: set)
  moreover have "DiskExceeded \<notin> set (admitBudget i req ?b)" using shortBy_covered[OF cov(3)] by (auto simp: set)
  moreover have "SlotsExceeded \<notin> set (admitBudget i req ?b)" using shortBy_covered[OF cov(4)] by (auto simp: set)
  ultimately have "admitBudget i req ?b = []" unfolding admitBudget_def by (subst budgetReasons_nil) blast
  moreover have "admitOther rd i req ?b = []" unfolding admitOther_def
    by (rule hostReasons_mono[OF ask(3)[unfolded admitOther_def] _ same(1,2)]) (use assms(6) in \<open>simp add: tot\<close>)
  moreover have "adReservations ?b i = adReservations a i" using out by (simp add: Release_all_sel)
  ultimately show ?thesis using ask(2) by (simp add: admitOnce_admits)
qed

section \<open>A host to run the properties on\<close>

definition smallHost :: HostInfo where
  "smallHost = \<lparr>hiCPUCores = 4, hiMemoryTotalMB = 100, hiDiskTotalGB = 0, hiGPUCount = 0, hiGPUVendor = [], hiSupportedRuntimes = [],
                hiLabels = []\<rparr>"

definition memoryLimits :: Limits where
  "memoryLimits = \<lparr>liCPUReservationRatio = 0, liMemoryReservationRatio = 1, liDiskReservationRatio = 0, liMemoryFloorRatio = 0,
                   liCPUOverProvisionFactor = 0, liMemoryOverProvisionFactor = 0, liRSSWatermarkRatio = 0\<rparr>"

definition memoryAsk :: "int \<Rightarrow> Request" where
  "memoryAsk mb = noRequest\<lparr>crMemoryMB := mb\<rparr>"

definition parkedHost :: "(string \<times> int) list \<Rightarrow> Admitter" where
  "parkedHost slots =
     fold admitterStep
       (OpReserve ''x'' (memoryAsk 40) # concat (map (\<lambda>(i, mb). [OpReserve i (memoryAsk mb), OpSetParkReclaimable i True]) slots))
       (NewAdmitter smallHost memoryLimits)"

lemma parkedHost_ok: "admitterOk (parkedHost slots)"
  unfolding parkedHost_def by (rule admitterRun_ok[OF newAdmitter_ok])

definition quietReadings :: "string list \<Rightarrow> Readings" where
  "quietReadings order = \<lparr>rdFreeMB = None, rdRSSMB = None, rdOrder = (\<lambda>S. filter (\<lambda>i. i \<in> S) order)\<rparr>"

text \<open>A pool that gives slots back in a fixed order.\<close>

definition poolGiving :: "string list \<Rightarrow> ParkReclaimer" where
  "poolGiving order n a =
     (let gone = take (nat n) (filter (\<lambda>i. i \<in> adReclaimable a) order) in (int (length gone), fold Release gone a))"

definition evenHost :: Admitter where
  "evenHost = parkedHost [(''park:a'', 20), (''park:b'', 20), (''park:c'', 20)]"

definition mixedHost :: Admitter where
  "mixedHost = parkedHost [(''park:a'', 10), (''park:b'', 10), (''park:c'', 40)]"

lemmas host_eval = parkedHost_def smallHost_def memoryLimits_def memoryAsk_def NewAdmitter_def noSlotLimit_def noRequest_def
  Reserve_def Release_def addLocked_def subtractLocked_def addParkedLocked_def subtractParkedLocked_def SetParkReclaimable_def
  isParkReservation_def parkReservationPrefix_def slotServes_def Let_def

lemma evenHost_state:
  "adReservations evenHost = [''x'' \<mapsto> memoryAsk 40, ''park:a'' \<mapsto> memoryAsk 20, ''park:b'' \<mapsto> memoryAsk 20, ''park:c'' \<mapsto> memoryAsk 20]"
  "adReclaimable evenHost = {''park:a'', ''park:b'', ''park:c''}" "adTotalMemMB evenHost = 100" "adParkedMemMB evenHost = 60"
  "adHost evenHost = smallHost\<lparr>hiSupportedRuntimes := [''docker'']\<rparr>" "adLimits evenHost = memoryLimits" "adSlotLimit evenHost = noSlotLimit"
  "adTotalCPU evenHost = 0" "adTotalDiskGB evenHost = 0" "adTotalGPUs evenHost = 0" "adParkedCPU evenHost = 0" "adParkedDiskGB evenHost = 0"
  "adParkedSlots evenHost = 3" "adSlotUsed evenHost = 0" "adSlotParked evenHost = 0"
  by (auto simp: evenHost_def host_eval)

lemma mixedHost_state:
  "adReservations mixedHost = [''x'' \<mapsto> memoryAsk 40, ''park:a'' \<mapsto> memoryAsk 10, ''park:b'' \<mapsto> memoryAsk 10, ''park:c'' \<mapsto> memoryAsk 40]"
  "adReclaimable mixedHost = {''park:a'', ''park:b'', ''park:c''}" "adTotalMemMB mixedHost = 100" "adParkedMemMB mixedHost = 60"
  "adHost mixedHost = smallHost\<lparr>hiSupportedRuntimes := [''docker'']\<rparr>" "adLimits mixedHost = memoryLimits" "adSlotLimit mixedHost = noSlotLimit"
  "adTotalCPU mixedHost = 0" "adTotalDiskGB mixedHost = 0" "adTotalGPUs mixedHost = 0" "adParkedCPU mixedHost = 0" "adParkedDiskGB mixedHost = 0"
  "adParkedSlots mixedHost = 3" "adSlotUsed mixedHost = 0" "adSlotParked mixedHost = 0"
  by (auto simp: mixedHost_def host_eval)

section \<open>Properties\<close>

text \<open>Property C12.  The admitter's running totals never drift.  After any sequence of admissions, replayed reservations, releases,
  warm-slot marks and slot-pool changes, in any order and with repeats and unknown identifiers, the totals kept in integers (memory,
  disk, GPUs, used network slots) are the sums over the reservations held, and the parked totals of memory, disk and slots are the sums
  over the reclaimable slots, each of which is a held warm-pool reservation.  Nothing is claimed of the CPU totals, which the code keeps
  in floating point, where adding and subtracting rounds.\<close>

theorem admitter_totals_exact:
  "let a = fold admitterStep ops (NewAdmitter host limits);
       rows = adReservations a; parks = adReservations a |` adReclaimable a
   in adTotalMemMB a = tally rows crMemoryMB \<and> adTotalDiskGB a = tally rows crDiskGB \<and>
      adTotalGPUs a = tally rows crGPUs \<and> adSlotUsed a = tally rows (slotUnit (adSlotLimit a)) \<and>
      adParkedMemMB a = tally parks crMemoryMB \<and> adParkedDiskGB a = tally parks crDiskGB \<and>
      adParkedSlots a = int (card (adReclaimable a)) \<and> adSlotParked a = tally parks (slotUnit (adSlotLimit a)) \<and>
      adReclaimable a \<subseteq> {i. isParkReservation i \<and> rows i \<noteq> None}"
proof -
  have ok: "admitterOk (fold admitterStep ops (NewAdmitter host limits))" by (rule admitterRun_ok[OF newAdmitter_ok])
  have "tally (adReservations a |` adReclaimable a) (\<lambda>r. 1 :: int) = int (card (adReclaimable a))" if "admitterOk a" for a
    using that by (simp add: tally_def admitterOk_def Int_absorb1)
  with ok show ?thesis by (auto simp: Let_def admitterOk_def parkedRows_def)
qed

text \<open>Property C11.  A create that is admitted fits.  Whatever the pools gave back and whatever happened between the rounds, when
  \<^verbatim>\<open>Admit\<close> accepts a request the request is recorded under its identifier and, in the state it leaves, the reserved CPU, memory and
  disk are within every budget the operator enabled, the used network slots are within the pool that serves the request's runtime, the
  reserved GPUs are within the host's when the request asks for GPUs, and the host supports the runtime asked for.\<close>

theorem admitted_create_fits:
  assumes "Admit rds reclaimers i req a = (None, b)"
  shows "adReservations b i = Some req \<and>
    (0 < liCPUReservationRatio (adLimits b) \<and> 0 < hiCPUCores (adHost b) \<longrightarrow> adTotalCPU b \<le> cpuBudget b) \<and>
    (0 < liMemoryReservationRatio (adLimits b) \<and> 0 < hiMemoryTotalMB (adHost b) \<longrightarrow> adTotalMemMB b \<le> memBudgetMB b) \<and>
    (0 < liDiskReservationRatio (adLimits b) \<and> 0 < hiDiskTotalGB (adHost b) \<longrightarrow> adTotalDiskGB b \<le> diskBudgetGB b) \<and>
    (slotServes (adSlotLimit b) (crRuntime req) \<longrightarrow> adSlotUsed b \<le> slTotal (adSlotLimit b)) \<and>
    (0 < crGPUs req \<longrightarrow> adTotalGPUs b \<le> hiGPUCount (adHost b)) \<and>
    (crRuntime req \<noteq> [] \<longrightarrow> runtimeSupported b (crRuntime req))"
proof -
  from assms obtain rd c where c: "admitBudget i req c = []" "admitOther rd i req c = []" "b = Reserve i req c"
    by (auto simp: Admit_def elim: admit_admitted)
  have same: "adHost b = adHost c" "adLimits b = adLimits c" "adSlotLimit b = adSlotLimit c" by (simp_all add: c(3))
  have none: "x \<notin> set (admitBudget i req c)" for x by (simp add: c(1))
  have "0 < liCPUReservationRatio (adLimits b) \<and> 0 < hiCPUCores (adHost b) \<longrightarrow> adTotalCPU b \<le> cpuBudget b"
    using none[of CPUExceeded] unfolding admitBudget_def budgetReasons_set budgets_cong[OF same(1,2)] same by (auto simp: c(3))
  moreover have "0 < liMemoryReservationRatio (adLimits b) \<and> 0 < hiMemoryTotalMB (adHost b) \<longrightarrow> adTotalMemMB b \<le> memBudgetMB b"
    using none[of MemoryExceeded] unfolding admitBudget_def budgetReasons_set budgets_cong[OF same(1,2)] same by (auto simp: c(3))
  moreover have "0 < liDiskReservationRatio (adLimits b) \<and> 0 < hiDiskTotalGB (adHost b) \<longrightarrow> adTotalDiskGB b \<le> diskBudgetGB b"
    using none[of DiskExceeded] unfolding admitBudget_def budgetReasons_set budgets_cong[OF same(1,2)] same by (auto simp: c(3))
  moreover have "slotServes (adSlotLimit b) (crRuntime req) \<longrightarrow> adSlotUsed b \<le> slTotal (adSlotLimit b)"
    using none[of SlotsExceeded] unfolding admitBudget_def budgetReasons_set same by (auto simp: c(3) Reserve_totals(5) slotUnit_def)
  moreover have "0 < crGPUs req \<longrightarrow> adTotalGPUs b \<le> hiGPUCount (adHost b)" "crRuntime req \<noteq> [] \<longrightarrow> runtimeSupported b (crRuntime req)"
    using c(2) unfolding admitOther_def hostReasons_def budgets_cong[OF same(1,2)] same c(3)[symmetric] by (auto split: if_splits)
  ultimately show ?thesis by (simp add: c(3))
qed

theorem admitted_create_fits_witness:
  "\<exists>b. Admit (\<lambda>n. quietReadings []) [] ''web'' (memoryAsk 60) (parkedHost []) = (None, b) \<and> adTotalMemMB b \<le> memBudgetMB b"
proof -
  let ?r = "Admit (\<lambda>n. quietReadings []) [] ''web'' (memoryAsk 60) (parkedHost [])"
  have none: "fst ?r = None"
    by (simp add: Admit_def admit_def numeral_2_eq_2 admitOnce_def budgetReasons_def hostReasons_def memBudgetMB_def truncRat_def
        overProvision_def quietReadings_def host_eval)
  then obtain b where b: "?r = (None, b)" by (metis prod.collapse)
  from admitted_create_fits[OF b] have "0 < liMemoryReservationRatio (adLimits b) \<and> 0 < hiMemoryTotalMB (adHost b) \<longrightarrow> adTotalMemMB b \<le> memBudgetMB b"
    by blast
  moreover have "adLimits b = memoryLimits" "hiMemoryTotalMB (adHost b) = 100"
    using arg_cong[OF b, of snd] by (auto simp: Admit_def admit_def numeral_2_eq_2 admitOnce_def budgetReasons_def hostReasons_def memBudgetMB_def
        truncRat_def overProvision_def quietReadings_def host_eval)
  ultimately show ?thesis using b by (auto simp: memoryLimits_def)
qed

text \<open>Property C13.  Warm slots give way to a real create.  On a host whose reclaimable slots all have one shape, let a create be refused
  for room only, with some number of slots that would cover the shortfall, and let the pool give back any that many of them.  Then
  \<^verbatim>\<open>Admit\<close> ends with the create admitted, in one round of reclaiming.\<close>

theorem reclaim_admits_create:
  assumes "admitterOk a" "admitOnce rd i req False a = ((slots, Some err), b)" "0 < slots"
    and "\<forall>j \<in> adReclaimable a. adReservations a j = Some shape" "0 \<le> crGPUs shape"
    and "set (rdOrder rd (adReclaimable a)) \<subseteq> adReclaimable a"
    and "reclaim (int slots) a = (int slots, fold Release gone a)"
    and "distinct gone" "length gone = slots" "set gone \<subseteq> adReclaimable a"
  shows "Admit (\<lambda>n. rd) [reclaim] i req a = (None, Reserve i req (fold Release gone a))"
proof -
  have fits: "snd (fst (admitOnce rd i req False (fold Release gone a))) = None"
    by (rule reclaimed_fits[OF assms(1,8,10,9) _ assms(5,6,2,3)]) (use assms(4) in auto)
  then have again: "admitOnce rd i req False (fold Release gone a) = ((0, None), Reserve i req (fold Release gone a))"
    using admitOnce_cases[of rd i req False "fold Release gone a"] by auto
  have "b = a" by (rule admitOnce_asks(1)[OF assms(2,3)])
  then show ?thesis using assms(2,3,7) by (simp add: Admit_def admit_def numeral_2_eq_2 again)
qed

lemmas admit_eval = Admit_def admit_def numeral_2_eq_2 admitOnce_def budgetReasons_def hostReasons_def memBudgetMB_def truncRat_def
  overProvision_def parkedSlotsCoveringLocked_def shortBy_def memoryFloorMB_def rssWatermarkMB_def

lemma evenHost_asks:
  "fst (admitOnce (quietReadings [''park:c'', ''park:a'', ''park:b'']) ''web'' (memoryAsk 30) False evenHost) =
   (2, Some (CapacityExceeded [MemoryExceeded]))"
  by (simp add: admit_eval evenHost_state smallHost_def memoryLimits_def memoryAsk_def noRequest_def noSlotLimit_def slotServes_def
      quietReadings_def isParkReservation_def parkReservationPrefix_def Let_def)

theorem reclaim_admits_create_witness:
  "fst (Admit (\<lambda>n. quietReadings [''park:c'', ''park:a'', ''park:b'']) [poolGiving [''park:a'', ''park:b'', ''park:c'']] ''web'' (memoryAsk 30)
      evenHost) = None"
proof -
  let ?rd = "quietReadings [''park:c'', ''park:a'', ''park:b'']"
  obtain b where b: "admitOnce ?rd ''web'' (memoryAsk 30) False evenHost = ((2, Some (CapacityExceeded [MemoryExceeded])), b)"
    using evenHost_asks by (metis prod.collapse)
  have "admitterOk evenHost" unfolding evenHost_def by (rule parkedHost_ok)
  from reclaim_admits_create[OF this b, where reclaim = "poolGiving [''park:a'', ''park:b'', ''park:c'']" and
      gone = "[''park:a'', ''park:b'']" and shape = "memoryAsk 20"]
  show ?thesis by (simp add: evenHost_state quietReadings_def poolGiving_def memoryAsk_def noRequest_def Let_def subset_iff)
qed

text \<open>The flag a heartbeat carries means what placement reads from it: with the parked slots left out, the dry run answers
  yes exactly when the request would be admitted, under an identifier that holds nothing, once every reclaimable slot had been given back.\<close>

theorem dry_run_counts_parks_as_free:
  assumes "admitterOk a" "adReservations a i = None" "set gone = adReclaimable a"
    and "\<forall>j \<in> adReclaimable a. \<forall>r. adReservations a j = Some r \<longrightarrow> crGPUs r = 0"
  shows "fst (dryRun rd req True a) \<longleftrightarrow> snd (fst (admitOnce rd i req onlyNew (fold Release gone a))) = None"
proof -
  let ?b = "fold Release gone a"
  have gpus: "tally (adReservations a |` adReclaimable a) crGPUs = 0"
    unfolding tally_def by (rule sum.neutral) (use assms(4) in auto)
  note tot = Release_all_totals[OF assms(1), of gone, unfolded assms(3)]
  have same: "adHost ?b = adHost a" "adLimits ?b = adLimits a" "adSlotLimit ?b = adSlotLimit a" by (simp_all add: Release_all_sel)
  have new: "adReservations ?b i = None" using assms(2) by (simp add: Release_all_sel restrict_map_def)
  have "admitBudget i req ?b = budgetReasons a (adTotalCPU a - adParkedCPU a + crCPU req) (adTotalMemMB a - adParkedMemMB a + crMemoryMB req)
      (adTotalDiskGB a - adParkedDiskGB a + crDiskGB req) (crRuntime req) (adSlotUsed a - adSlotParked a)"
    using assms(1) new
    by (simp add: admitBudget_def budgetReasons_def Reserve_totals priorOf_def heldFor_def noRequest_def tot admitterOk_def parkedRows_def
        same budgets_cong[OF same(1,2)] cong: if_cong)
  moreover have "admitOther rd i req ?b = hostReasons rd req (adTotalGPUs a + crGPUs req) a"
    using new
    by (simp add: admitOther_def hostReasons_def Reserve_totals priorOf_def noRequest_def tot gpus same budgets_cong[OF same(1,2)]
        cong: if_cong option.case_cong)
  ultimately show ?thesis using new by (simp add: admitOnce_admits dryRun_def Let_def)
qed

theorem dry_run_counts_parks_as_free_witness:
  "fst (dryRun (quietReadings []) (memoryAsk 60) True evenHost) \<longleftrightarrow>
   snd (fst (admitOnce (quietReadings []) ''web'' (memoryAsk 60) True (fold Release [''park:a'', ''park:b'', ''park:c''] evenHost))) = None"
proof -
  have "admitterOk evenHost" unfolding evenHost_def by (rule parkedHost_ok)
  from dry_run_counts_parks_as_free[OF this, where i = "''web''" and gone = "[''park:a'', ''park:b'', ''park:c'']" and onlyNew = True
      and rd = "quietReadings []" and req = "memoryAsk 60"]
  show ?thesis by (simp add: evenHost_state memoryAsk_def noRequest_def)
qed

section \<open>Reclaiming slots of several shapes\<close>

lemma tally_list:
  assumes "distinct gone" "\<And>j. j \<in> set gone \<Longrightarrow> m j \<noteq> None"
  shows "tally (m |` set gone) v = sum_list (map (\<lambda>j. v (the (m j))) gone)"
proof -
  have "dom (m |` set gone) = set gone" using assms(2) by auto
  then have "tally (m |` set gone) v = (\<Sum>j \<in> set gone. v (the (m j)))" unfolding tally_def by (intro sum.cong) simp_all
  then show ?thesis using assms(1) by (simp add: sum_list_distinct_conv_sum_set)
qed

lemma tally_nonneg:
  assumes "\<And>j r. m j = Some r \<Longrightarrow> 0 \<le> v r"
  shows "0 \<le> tally m v"
  unfolding tally_def by (rule sum_nonneg) (use assms in auto)

definition plainSlot :: "Request \<Rightarrow> bool" where
  "plainSlot r \<longleftrightarrow> 0 \<le> crCPU r \<and> 0 \<le> crMemoryMB r \<and> 0 \<le> crDiskGB r \<and> 0 \<le> crGPUs r"

text \<open>Giving slots back breaks no budget, and mends the memory budget exactly when they hold the shortfall.\<close>

lemma budgets_after_release:
  assumes "admitterOk a" "i \<notin> set gone" "\<And>j r. j \<in> set gone \<Longrightarrow> adReservations a j = Some r \<Longrightarrow> plainSlot r"
  shows "x \<in> set (admitBudget i req (fold Release gone a)) \<Longrightarrow> x \<in> set (admitBudget i req a)"
    and "MemoryExceeded \<in> set (admitBudget i req a) \<Longrightarrow>
      MemoryExceeded \<in> set (admitBudget i req (fold Release gone a)) \<longleftrightarrow>
      tally (adReservations a |` set gone) crMemoryMB < adTotalMemMB (Reserve i req a) - memBudgetMB a"
    and "admitOther rd i req a = [] \<Longrightarrow> admitOther rd i req (fold Release gone a) = []"
proof -
  let ?b = "fold Release gone a" and ?g = "adReservations a |` set gone"
  have same: "adHost ?b = adHost a" "adLimits ?b = adLimits a" "adSlotLimit ?b = adSlotLimit a" by (simp_all add: Release_all_sel)
  have res: "adReservations ?b i = adReservations a i" using assms(2) by (simp add: Release_all_sel)
  then have prior: "priorOf i ?b = priorOf i a" by (simp add: priorOf_def)
  note tot = Release_all_totals[OF assms(1), of gone]
  have pos: "0 \<le> tally ?g crCPU" "0 \<le> tally ?g crMemoryMB" "0 \<le> tally ?g crDiskGB" "0 \<le> tally ?g crGPUs"
      "0 \<le> tally ?g (slotUnit (adSlotLimit a))"
    by (rule tally_nonneg; use assms(3) in \<open>force simp: plainSlot_def restrict_map_def split: if_splits\<close>)+
  have totals: "adTotalCPU (Reserve i req ?b) = adTotalCPU (Reserve i req a) - tally ?g crCPU"
      "adTotalMemMB (Reserve i req ?b) = adTotalMemMB (Reserve i req a) - tally ?g crMemoryMB"
      "adTotalDiskGB (Reserve i req ?b) = adTotalDiskGB (Reserve i req a) - tally ?g crDiskGB"
      "adTotalGPUs (Reserve i req ?b) = adTotalGPUs (Reserve i req a) - tally ?g crGPUs"
      "heldFor i ?b = heldFor i a - tally ?g (slotUnit (adSlotLimit a))"
    by (simp_all add: Reserve_totals heldFor_def tot prior res same)
  note set = budgetReasons_set admitBudget_def totals budgets_cong[OF same(1,2)] same
  show "x \<in> set (admitBudget i req ?b) \<Longrightarrow> x \<in> set (admitBudget i req a)"
    using pos by (cases x) (auto simp: set, auto simp: budgetReasons_def)
  show "MemoryExceeded \<in> set (admitBudget i req a) \<Longrightarrow> MemoryExceeded \<in> set (admitBudget i req ?b) \<longleftrightarrow>
      tally ?g crMemoryMB < adTotalMemMB (Reserve i req a) - memBudgetMB a"
    by (auto simp: set)
  show "admitOther rd i req a = [] \<Longrightarrow> admitOther rd i req ?b = []"
    unfolding admitOther_def by (erule hostReasons_mono[OF _ _ same(1,2)]) (use pos in \<open>simp add: totals\<close>)
qed

lemma admitOnce_reasons:
  assumes "admitOnce rd i req onlyNew a = ((slots, Some (CapacityExceeded reasons)), b)"
  shows "reasons = admitBudget i req a @ admitOther rd i req a"
  using assms
  by (auto simp: admitOnce_def admitBudget_def admitOther_def Reserve_totals heldFor_def slotUnit_def priorOf_def Let_def
      split: option.splits if_splits)

lemma Release_reclaimable: "adReclaimable a - {g} \<subseteq> adReclaimable (Release g a)"
  by (auto simp: Release_def Let_def split: option.split)

lemma refused_again:
  assumes "MemoryExceeded \<in> set (admitBudget i req b)"
  obtains n e where "admitOnce rd i req onlyNew b = ((n, Some e), b)"
proof -
  have "snd (fst (admitOnce rd i req onlyNew b)) \<noteq> None" using assms by (auto simp: admitOnce_admits)
  then show ?thesis using admitOnce_cases[of rd i req onlyNew b] that by (metis not_Some_eq prod.collapse snd_conv fst_conv)
qed

text \<open>Property C17.  With slots of different shapes reclaiming can fall short.  Let a create under a new identifier be refused for memory
  only, with one slot that would do, and let some reclaimable slot hold the whole shortfall; let the pool, which chooses what it gives
  back, give one smaller slot and then another, which together hold less than the shortfall.  Then \<^verbatim>\<open>Admit\<close> refuses the create, because
  it reclaims at most twice, although the large slot is still parked and giving it back would admit the create.\<close>

theorem mixed_parks_refused:
  assumes "admitterOk a" "adReservations a i = None" "admitOnce rd i req False a = ((1, Some (CapacityExceeded [MemoryExceeded])), a)"
    and "{small1, small2, large} \<subseteq> adReclaimable a" "distinct [small1, small2, large]"
    and "\<forall>j \<in> {small1, small2, large}. plainSlot (the (adReservations a j))"
    and "short = adTotalMemMB a + crMemoryMB req - memBudgetMB a" "mem = (\<lambda>j. crMemoryMB (the (adReservations a j)))"
    and "mem small1 + mem small2 < short" "short \<le> mem large"
    and "reclaim 1 a = (1, Release small1 a)"
    and "reclaim (int (fst (fst (admitOnce rd i req False (Release small1 a))))) (Release small1 a) = (1, Release small2 (Release small1 a))"
  shows "\<exists>err b. Admit (\<lambda>n. rd) [reclaim] i req a = (Some err, b) \<and> large \<in> adReclaimable b \<and>
           fst (Admit (\<lambda>n. rd) [] i req (Release large b)) = None"
proof -
  let ?a1 = "Release small1 a" and ?a2 = "Release small2 (Release small1 a)"
  note ask = admitOnce_asks[OF assms(3)]
  have other: "admitOther rd i req a = []" by (rule ask(3)) simp
  have budget: "admitBudget i req a = [MemoryExceeded]" using admitOnce_reasons[OF assms(3)] other by simp
  have out: "i \<notin> {small1, small2, large}" using assms(1,4) ask(4) by (auto simp: admitterOk_def)
  have some: "adReservations a j \<noteq> None" if "j \<in> {small1, small2, large}" for j using assms(1,4) that by (auto simp: admitterOk_def)
  have plain: "plainSlot r" if "j \<in> {small1, small2, large}" "adReservations a j = Some r" for j r
    using assms(6) that by (metis option.sel)
  have nonneg: "0 \<le> mem j" if "j \<in> {small1, small2, large}" for j using assms(6) that by (auto simp: assms(8) plainSlot_def)
  have short: "adTotalMemMB (Reserve i req a) - memBudgetMB a = short"
    using assms(2) by (simp add: Reserve_totals priorOf_def noRequest_def assms(7))
  have after: "MemoryExceeded \<in> set (admitBudget i req (fold Release gone a)) \<longleftrightarrow> sum_list (map mem gone) < short"
      "admitBudget i req (fold Release gone a) = [] \<longleftrightarrow> short \<le> sum_list (map mem gone)"
      "admitOther rd i req (fold Release gone a) = []"
    if "set gone \<subseteq> {small1, small2, large}" "distinct gone" for gone
  proof -
    have g: "i \<notin> set gone" "\<And>j r. j \<in> set gone \<Longrightarrow> adReservations a j = Some r \<Longrightarrow> plainSlot r" using out plain that(1) by blast+
    have "tally (adReservations a |` set gone) crMemoryMB = sum_list (map mem gone)"
      using tally_list[OF that(2), of "adReservations a" crMemoryMB] some that(1) by (simp add: assms(8) subset_iff)
    then show mem: "MemoryExceeded \<in> set (admitBudget i req (fold Release gone a)) \<longleftrightarrow> sum_list (map mem gone) < short"
      using budgets_after_release(2)[OF assms(1) g, where req = req] budget short by simp
    have "set (admitBudget i req (fold Release gone a)) \<subseteq> {MemoryExceeded}"
      using budgets_after_release(1)[OF assms(1) g, where req = req] budget by auto
    with mem show "admitBudget i req (fold Release gone a) = [] \<longleftrightarrow> short \<le> sum_list (map mem gone)"
      by (cases "admitBudget i req (fold Release gone a)") auto
    show "admitOther rd i req (fold Release gone a) = []" by (rule budgets_after_release(3)[OF assms(1) g other])
  qed
  have fold: "?a1 = fold Release [small1] a" "?a2 = fold Release [small1, small2] a"
      "Release large ?a1 = fold Release [small1, large] a" "Release large ?a2 = fold Release [small1, small2, large] a" by simp_all
  have "MemoryExceeded \<in> set (admitBudget i req ?a1)" "MemoryExceeded \<in> set (admitBudget i req ?a2)"
    unfolding fold using after(1)[of "[small1]"] after(1)[of "[small1, small2]"] assms(5,9) nonneg[of small2] by simp_all
  then obtain n1 e1 n2 e2 where again: "admitOnce rd i req False ?a1 = ((n1, Some e1), ?a1)" "admitOnce rd i req False ?a2 = ((n2, Some e2), ?a2)"
    by (metis refused_again)
  then obtain err b where b: "Admit (\<lambda>n. rd) [reclaim] i req a = (Some err, b)" "b = ?a1 \<or> b = ?a2"
    using assms(3,11,12) by (cases "n1 = 0") (simp_all add: Admit_def admit_def numeral_2_eq_2)
  have "admitBudget i req (Release large b) = [] \<and> admitOther rd i req (Release large b) = []"
    using b(2)
  proof
    assume "b = ?a1"
    then show ?thesis
      using after(2,3)[of "[small1, large]"] assms(5,10) nonneg[of small1] by simp
  next
    assume "b = ?a2"
    then show ?thesis
      using after(2,3)[of "[small1, small2, large]"] assms(5,10) nonneg[of small1] nonneg[of small2] by simp
  qed
  then have "snd (fst (admitOnce rd i req False (Release large b))) = None" by (simp add: admitOnce_admits)
  then have "fst (Admit (\<lambda>n. rd) [] i req (Release large b)) = None"
    using admitOnce_cases[of rd i req False "Release large b"] by (auto simp: Admit_def admit_def numeral_2_eq_2)
  moreover have "large \<in> adReclaimable b"
    using b(2) assms(4,5) Release_reclaimable[of a small1] Release_reclaimable[of ?a1 small2] by auto
  ultimately show ?thesis using b(1) by blast
qed

lemma mixedHost_asks:
  "admitOnce (quietReadings [''park:c'', ''park:a'', ''park:b'']) ''web'' (memoryAsk 40) False mixedHost =
     ((1, Some (CapacityExceeded [MemoryExceeded])), mixedHost)"
  "fst (fst (admitOnce (quietReadings [''park:c'', ''park:a'', ''park:b'']) ''web'' (memoryAsk 40) False (Release ''park:a'' mixedHost))) = 1"
  by (simp_all add: admit_eval mixedHost_state smallHost_def memoryLimits_def memoryAsk_def noRequest_def noSlotLimit_def slotServes_def
      quietReadings_def isParkReservation_def parkReservationPrefix_def Release_def subtractLocked_def subtractParkedLocked_def Let_def)

theorem mixed_parks_refused_witness:
  "\<exists>err b. Admit (\<lambda>n. quietReadings [''park:c'', ''park:a'', ''park:b'']) [poolGiving [''park:a'', ''park:b'', ''park:c'']] ''web'' (memoryAsk 40)
     mixedHost = (Some err, b) \<and> ''park:c'' \<in> adReclaimable b \<and>
   fst (Admit (\<lambda>n. quietReadings [''park:c'', ''park:a'', ''park:b'']) [] ''web'' (memoryAsk 40) (Release ''park:c'' b)) = None"
proof (rule mixed_parks_refused[OF _ _ mixedHost_asks(1), where ?small1.0 = "''park:a''" and ?small2.0 = "''park:b''" and short = 40 and
      mem = "\<lambda>j. crMemoryMB (the (adReservations mixedHost j))"])
  show "admitterOk mixedHost" unfolding mixedHost_def by (rule parkedHost_ok)
  show "poolGiving [''park:a'', ''park:b'', ''park:c''] (int (fst (fst (admitOnce (quietReadings [''park:c'', ''park:a'', ''park:b''])
      ''web'' (memoryAsk 40) False (Release ''park:a'' mixedHost))))) (Release ''park:a'' mixedHost) =
    (1, Release ''park:b'' (Release ''park:a'' mixedHost))"
    unfolding mixedHost_asks(2) by (simp add: poolGiving_def Release_def subtractLocked_def subtractParkedLocked_def mixedHost_state Let_def)
qed (simp_all add: mixedHost_state plainSlot_def memoryAsk_def noRequest_def memBudgetMB_def truncRat_def overProvision_def
     smallHost_def memoryLimits_def poolGiving_def Release_def subtractLocked_def subtractParkedLocked_def Let_def)

end
