(* ===== verification/Scheduler.thy ===== *)
theory Scheduler
  imports Capacity_Properties Shards Artifact_Catalog Pending_Reservations "HOL-Library.Word" "HOL-Library.Product_Lexorder"
begin

text \<open>
  Placement of a sandbox on a worker (\<^verbatim>\<open>internal/cluster/placement.go\<close>): the fit of one member, the network slots, the
  headroom score, \<^verbatim>\<open>SelectPlacementWithCandidates\<close> with its filters and its two random choices, the leader's
  re-check \<^verbatim>\<open>admitReservationCommands\<close> and the recipients of sealed secrets; the topology rule of \<^verbatim>\<open>topology.go\<close>
  and the label rule of \<^verbatim>\<open>pkg/models/placement.go\<close>.

  The members with their heartbeats, the loads of reservations in flight and the drained nodes, which the code reads
  from gossip and from the replicated state, are arguments, as are the two numbers \<^verbatim>\<open>rand.Intn\<close> returns.  A
  reservation carries the request \<^verbatim>\<open>capacityRequestFromSpec\<close> derives from its spec.  Counting rejections for the
  metrics is left out, except the one count the error of an empty candidate set reads.
\<close>

section \<open>Members and roles\<close>

record SchedMember = Member +
  smCapacity :: Snapshot
  smCapacityStale :: bool

definition roleIn :: "string set \<Rightarrow> string \<Rightarrow> bool" where
  "roleIn roles trimmed = list_ex (\<lambda>raw. toLower (trimSpace raw) \<in> roles) (splitOn (CHR '','') trimmed)"

definition CanOwnSandboxRole :: "string \<Rightarrow> bool" where
  "CanOwnSandboxRole role = (let trimmed = trimSpace role in trimmed = [] \<or> roleIn {''worker'', ''mixed''} trimmed)"

definition CanServeControlPlaneRole :: "string \<Rightarrow> bool" where
  "CanServeControlPlaneRole role = (let trimmed = trimSpace role in trimmed = [] \<or> roleIn {''server'', ''mixed''} trimmed)"

definition hasCapacitySnapshot :: "Snapshot \<Rightarrow> bool" where
  "hasCapacitySnapshot s \<longleftrightarrow> snHostCPUCores s > 0 \<or> snHostMemoryTotalMB s > 0"

definition LabelsSatisfy :: "(string \<times> string) list \<Rightarrow> (string \<times> string) list \<Rightarrow> bool" where
  "LabelsSatisfy held want = list_all (\<lambda>(k, v). map_of held k = Some v) want"

section \<open>Topology\<close>

record topologyRoleSet =
  trServer :: bool
  trWorker :: bool
  trIngress :: bool
  trLegacyMixed :: bool

definition topologyRoles :: "string \<Rightarrow> topologyRoleSet" where
  "topologyRoles role =
     (let trimmed = trimSpace role
      in if trimmed = [] then \<lparr>trServer = True, trWorker = True, trIngress = True, trLegacyMixed = True\<rparr>
         else \<lparr>trServer = roleIn {''server'', ''mixed''} trimmed, trWorker = roleIn {''worker'', ''mixed''} trimmed,
               trIngress = roleIn {''ingress'', ''mixed''} trimmed, trLegacyMixed = roleIn {''mixed''} trimmed\<rparr>)"

definition roleCount :: "topologyRoleSet \<Rightarrow> nat" where
  "roleCount r = of_bool (trServer r) + of_bool (trWorker r) + of_bool (trIngress r)"

definition dedicated :: "topologyRoleSet \<Rightarrow> bool" where
  "dedicated r \<longleftrightarrow> \<not> trLegacyMixed r \<and> roleCount r = 1"

datatype topologyError = MixedNodes "string list" | MissingTiers "string list" | TooManyServers nat

definition LargeClusterTopologyError :: "'m Member_scheme list \<Rightarrow> topologyError option" where
  "LargeClusterTopologyError members =
     (let live = filter (\<lambda>m. mAlive m \<and> trimSpace (mNodeID m) \<noteq> []) members;
          roles = map (\<lambda>m. topologyRoles (mRole m)) live;
          server = length (filter trServer roles);
          worker = length (filter trWorker roles);
          ingress = length (filter trIngress roles);
          mixedNodes = map (\<lambda>m. trimSpace (mNodeID m)) (filter (\<lambda>m. \<not> dedicated (topologyRoles (mRole m))) live);
          missing = (if server = 0 then [''server''] else []) @ (if worker = 0 then [''worker''] else []) @
                    (if ingress = 0 then [''ingress''] else [])
      in if length live \<le> 10 then None
         else if mixedNodes \<noteq> [] then Some (MixedNodes mixedNodes)
         else if missing \<noteq> [] then Some (MissingTiers missing)
         else if server > 7 then Some (TooManyServers server)
         else None)"

section \<open>The heartbeat\<close>

text \<open>What a node overlays on its admitter's report before it publishes it; \<^term>\<open>None\<close> is an overlay that is not installed or whose
  inventory is not known yet.  The template catalogue overlay, which placement does not read, is left out.\<close>

record localOverlay =
  loTemplates :: "string list option"
  loModules :: "string list option"
  loGatewayReady :: "bool option"
  loSlotPools :: "SlotPool list option"

definition refreshLocal :: "localOverlay \<Rightarrow> Readings \<Rightarrow> Admitter \<Rightarrow> Snapshot" where
  "refreshLocal ov rd a =
     (let snap = TakeSnapshot rd a;
          snap = (case loTemplates ov of None \<Rightarrow> snap
                  | Some ids \<Rightarrow> snap\<lparr>snLocalTemplateInventoryKnown := True, snLocalTemplateIDs := ids\<rparr>);
          snap = (case loModules ov of None \<Rightarrow> snap
                  | Some refs \<Rightarrow> snap\<lparr>snLocalWasmModuleInventoryKnown := True, snLocalWasmModuleIDs := refs\<rparr>);
          snap = (case loGatewayReady ov of None \<Rightarrow> snap | Some ready \<Rightarrow> snap\<lparr>snEgressGatewayReady := ready\<rparr>)
      in case loSlotPools ov of None \<Rightarrow> snap | Some pools \<Rightarrow> snap\<lparr>snSlotPools := pools\<rparr>)"

text \<open>The slot pools of a node whose containers run on the docker engine and that offers neither Firecracker nor WASM: the one
  its admitter counts.\<close>

definition dockerSlotPools :: "Admitter \<Rightarrow> SlotPool list" where
  "dockerSlotPools a = (case AdmitterSlotPool a of None \<Rightarrow> [] | Some pool \<Rightarrow> [pool])"

section \<open>The fit of one member\<close>

datatype fitVerdict = FitOK | FitIncompatible | FitNoRoom

definition fitIncompatibleWith :: "SchedMember \<Rightarrow> Request \<Rightarrow> bool" where
  "fitIncompatibleWith m req \<longleftrightarrow>
     (let cap = smCapacity m
      in smCapacityStale m \<or> \<not> hasCapacitySnapshot cap \<or>
         (crGPUs req > 0 \<and>
          (snGPUCount cap < crGPUs req \<or> (rqGPUVendor req \<noteq> [] \<and> snGPUVendor cap \<noteq> [] \<and> rqGPUVendor req \<noteq> snGPUVendor cap))) \<or>
         \<not> LabelsSatisfy (snLabels cap) (rqLabels req) \<or>
         (crRuntime req \<noteq> [] \<and> snSupportedRuntimes cap \<noteq> [] \<and> crRuntime req \<notin> set (snSupportedRuntimes cap)) \<or>
         (rqTemplateID req \<noteq> [] \<and> snLocalTemplateInventoryKnown cap \<and> rqTemplateID req \<notin> set (snLocalTemplateIDs cap)) \<or>
         (crRuntime req = ''wasm'' \<and> rqModuleRef req \<noteq> [] \<and> snLocalWasmModuleInventoryKnown cap \<and>
          rqModuleRef req \<notin> set (snLocalWasmModuleIDs cap)))"

definition nodeFitVerdict :: "SchedMember \<Rightarrow> Request \<Rightarrow> 'x capacityRequest_scheme \<Rightarrow> fitVerdict" where
  "nodeFitVerdict m req extraReserved =
     (let cap = smCapacity m;
          reservedCPU = max (snReservedCPU cap - snParkedCPU cap) 0;
          reservedMemMB = max (snReservedMemoryMB cap - snParkedMemoryMB cap) 0;
          reservedDiskGB = max (snReservedDiskGB cap - snParkedDiskGB cap) 0
      in if fitIncompatibleWith m req then FitIncompatible
         else if \<not> snCanAdmit cap \<and> snReasons cap \<noteq> [] then FitNoRoom
         else if snCPUBudget cap > 0 \<and> reservedCPU + crCPU extraReserved + crCPU req > snCPUBudget cap then FitNoRoom
         else if snMemoryBudgetMB cap > 0 \<and> reservedMemMB + crMemoryMB extraReserved + crMemoryMB req > snMemoryBudgetMB cap then FitNoRoom
         else if snDiskBudgetGB cap > 0 \<and> reservedDiskGB + crDiskGB extraReserved + crDiskGB req > snDiskBudgetGB cap then FitNoRoom
         else FitOK)"

definition nodeFits :: "SchedMember \<Rightarrow> Request \<Rightarrow> 'x capacityRequest_scheme \<Rightarrow> bool" where
  "nodeFits m req extraReserved \<longleftrightarrow> nodeFitVerdict m req extraReserved = FitOK"

type_synonym runtimeCounts = "string \<rightharpoonup> int"

definition countOf :: "runtimeCounts \<Rightarrow> string \<Rightarrow> int" where
  "countOf m rt = (case m rt of None \<Rightarrow> 0 | Some n \<Rightarrow> n)"

definition freeSlotsAfterPending :: "SchedMember \<Rightarrow> Request \<Rightarrow> runtimeCounts \<Rightarrow> (int \<times> int) option" where
  "freeSlotsAfterPending m req pendingByRuntime =
     (case SlotPoolFor (smCapacity m) (crRuntime req) of
        None \<Rightarrow> None
      | Some pool \<Rightarrow> Some (spFree pool - sum_list (map (countOf pendingByRuntime) (spRuntimes pool)), spTotal pool))"

definition slotsFit :: "SchedMember \<Rightarrow> Request \<Rightarrow> runtimeCounts \<Rightarrow> bool" where
  "slotsFit m req pendingByRuntime \<longleftrightarrow>
     (case freeSlotsAfterPending m req pendingByRuntime of None \<Rightarrow> True | Some (free, poolTotal) \<Rightarrow> free \<ge> 1)"

section \<open>The score\<close>

definition headroomAxes :: "SchedMember \<Rightarrow> Request \<Rightarrow> 'x capacityRequest_scheme \<Rightarrow> (rat \<times> nat) option" where
  "headroomAxes m req extra =
     (let cap = smCapacity m
      in if snHostCPUCores cap = 0 \<and> snHostMemoryTotalMB cap = 0 then None
         else
           let cpuScore = (if snCPUBudget cap > 0
                           then (snCPUBudget cap - snReservedCPU cap - crCPU extra - crCPU req) / snCPUBudget cap else 1);
               memScore = (if snMemoryBudgetMB cap > 0
                           then of_int (snMemoryBudgetMB cap - snReservedMemoryMB cap - crMemoryMB extra - crMemoryMB req) /
                                of_int (snMemoryBudgetMB cap) else 1)
           in if snDiskBudgetGB cap > 0
              then Some (cpuScore + memScore +
                         of_int (snDiskBudgetGB cap - snReservedDiskGB cap - crDiskGB extra - crDiskGB req) / of_int (snDiskBudgetGB cap), 3)
              else Some (cpuScore + memScore, 2))"

definition headroomScore :: "SchedMember \<Rightarrow> Request \<Rightarrow> 'x capacityRequest_scheme \<Rightarrow> rat" where
  "headroomScore m req extra = (case headroomAxes m req extra of None \<Rightarrow> 1 / 2 | Some (acc, axes) \<Rightarrow> acc / of_nat axes)"

definition placementScore :: "SchedMember \<Rightarrow> Request \<Rightarrow> 'x capacityRequest_scheme \<Rightarrow> runtimeCounts \<Rightarrow> rat" where
  "placementScore m req extra pendingByRuntime =
     (case headroomAxes m req extra of
        None \<Rightarrow> headroomScore m req extra
      | Some (acc, axes) \<Rightarrow>
          (case freeSlotsAfterPending m req pendingByRuntime of
             None \<Rightarrow> acc / of_nat axes
           | Some (free, poolTotal) \<Rightarrow>
               if poolTotal > 0 then (acc + of_int (free - 1) / of_int poolTotal) / of_nat (axes + 1) else acc / of_nat axes))"

section \<open>Choosing a worker\<close>

record PlacementTarget =
  ptNodeID :: string
  ptAPIURL :: string
  ptDataPlaneHost :: string
  ptInternalURL :: string
  ptIsSelf :: bool

text \<open>What one selection reads: the node it runs on, the drained nodes and the loads in flight.\<close>

record schedState =
  scSelf :: PlacementTarget
  scDrained :: "string set"
  scPending :: "string \<rightharpoonup> capacityRequest"
  scPendingRuntimes :: "string \<rightharpoonup> runtimeCounts"

definition pendingOn :: "(string \<rightharpoonup> capacityRequest) \<Rightarrow> string \<Rightarrow> capacityRequest" where
  "pendingOn pending n = (case pending n of None \<Rightarrow> zeroRequest | Some r \<Rightarrow> r)"

definition runtimesOn :: "(string \<rightharpoonup> runtimeCounts) \<Rightarrow> string \<Rightarrow> runtimeCounts" where
  "runtimesOn pending n = (case pending n of None \<Rightarrow> Map.empty | Some r \<Rightarrow> r)"

datatype placementError =
    ErrInvalidTopology topologyError
  | ErrArtifactNodeUnavailable string
  | ErrPlacementUnsatisfiable "(string \<times> string) list"
  | ErrNoEgressGatewayTarget
  | ErrClusterAtCapacity
  | ErrNoPlacementTarget

record selection =
  slCandidates :: "SchedMember list"
  slRequiredReachable :: bool
  slLabelMatched :: bool
  slGatewayRejected :: bool
  slFull :: bool

definition emptySelection :: selection where
  "emptySelection = \<lparr>slCandidates = [], slRequiredReachable = False, slLabelMatched = False, slGatewayRejected = False, slFull = False\<rparr>"

definition considerMember :: "schedState \<Rightarrow> Request \<Rightarrow> SchedMember \<Rightarrow> selection \<Rightarrow> selection" where
  "considerMember c req m s =
     (if \<not> mAlive m then s
      else if \<not> CanOwnSandboxRole (mRole m) then s
      else if rqRequiredNodeID req \<noteq> [] \<and> mNodeID m \<noteq> rqRequiredNodeID req then s
      else if mAPIURL m = [] \<and> mNodeID m \<noteq> ptNodeID (scSelf c) then s
      else if smCapacityStale m \<or> \<not> hasCapacitySnapshot (smCapacity m)
      then (if rqLabels req \<noteq> [] \<and> hasCapacitySnapshot (smCapacity m) \<and> LabelsSatisfy (snLabels (smCapacity m)) (rqLabels req)
            then s\<lparr>slLabelMatched := True\<rparr> else s)
      else
        let s = (if rqRequiredNodeID req \<noteq> [] \<and> mNodeID m = rqRequiredNodeID req then s\<lparr>slRequiredReachable := True\<rparr> else s)
        in if rqLabels req \<noteq> [] \<and> \<not> LabelsSatisfy (snLabels (smCapacity m)) (rqLabels req) then s
           else
             let s = (if rqLabels req \<noteq> [] then s\<lparr>slLabelMatched := True\<rparr> else s)
             in if mNodeID m \<in> scDrained c then s
                else if rqNeedsEgressGateway req \<and> \<not> snEgressGatewayReady (smCapacity m) then s\<lparr>slGatewayRejected := True\<rparr>
                else if rqNeedsMediatedEgress req \<and> \<not> snMediatedEgress (smCapacity m) then s
                else (case nodeFitVerdict m req (pendingOn (scPending c) (mNodeID m)) of
                        FitIncompatible \<Rightarrow> s
                      | FitNoRoom \<Rightarrow> s\<lparr>slFull := True\<rparr>
                      | FitOK \<Rightarrow>
                          if \<not> slotsFit m req (runtimesOn (scPendingRuntimes c) (mNodeID m)) then s\<lparr>slFull := True\<rparr>
                          else s\<lparr>slCandidates := slCandidates s @ [m]\<rparr>))"

definition noPlacementTargetError :: "Request \<Rightarrow> selection \<Rightarrow> placementError" where
  "noPlacementTargetError req s =
     (if rqRequiredNodeID req \<noteq> [] \<and> \<not> slRequiredReachable s then ErrArtifactNodeUnavailable (rqRequiredNodeID req)
      else if rqLabels req \<noteq> [] \<and> \<not> slLabelMatched s then ErrPlacementUnsatisfiable (rqLabels req)
      else if rqNeedsEgressGateway req \<and> slGatewayRejected s then ErrNoEgressGatewayTarget
      else if slFull s then ErrClusterAtCapacity
      else ErrNoPlacementTarget)"

definition pickTwo :: "nat \<Rightarrow> nat \<Rightarrow> SchedMember list \<Rightarrow> SchedMember \<times> SchedMember" where
  "pickTwo i j c =
     (if length c = 1 then (c ! 0, c ! 0) else let j = (if j \<ge> i then j + 1 else j) in (c ! i, c ! j))"

definition scoreOn :: "schedState \<Rightarrow> Request \<Rightarrow> SchedMember \<Rightarrow> rat" where
  "scoreOn c req m = placementScore m req (pendingOn (scPending c) (mNodeID m)) (runtimesOn (scPendingRuntimes c) (mNodeID m))"

definition targetOf :: "schedState \<Rightarrow> SchedMember \<Rightarrow> PlacementTarget" where
  "targetOf c winner =
     (if mNodeID winner = ptNodeID (scSelf c) then (scSelf c)\<lparr>ptIsSelf := True\<rparr>
      else \<lparr>ptNodeID = mNodeID winner, ptAPIURL = mAPIURL winner, ptDataPlaneHost = mDataPlaneHost winner,
            ptInternalURL = mInternalURL winner, ptIsSelf = False\<rparr>)"

definition selectAmong ::
  "schedState \<Rightarrow> nat \<Rightarrow> nat \<Rightarrow> Request \<Rightarrow> SchedMember list \<Rightarrow> placementError + PlacementTarget \<times> SchedMember list" where
  "selectAmong c i j req all =
     (case LargeClusterTopologyError all of
        Some e \<Rightarrow> Inl (ErrInvalidTopology e)
      | None \<Rightarrow>
          let s = fold (considerMember c req) all emptySelection
          in if slCandidates s = [] then Inl (noPlacementTargetError req s)
             else let (a, b) = pickTwo i j (slCandidates s);
                      winner = (if mNodeID a \<noteq> mNodeID b \<and> scoreOn c req b > scoreOn c req a then b else a)
                  in Inr (targetOf c winner, slCandidates s))"

text \<open>Adding to each member's template inventory the templates the replicated catalogue says it holds.\<close>

definition catalogueTemplates :: "artifactCatalog \<Rightarrow> string list \<Rightarrow> string \<Rightarrow> string list" where
  "catalogueTemplates cat templateIDs n =
     filter (\<lambda>i. n \<in> set (artifactCatalogHolders ''template'' [] i cat))
       (rev (remdups (rev (filter (\<lambda>i. i \<noteq> []) (map trimSpace templateIDs)))))"

definition withCatalogueTemplateHolders :: "artifactCatalog \<Rightarrow> string list \<Rightarrow> SchedMember list \<Rightarrow> SchedMember list" where
  "withCatalogueTemplateHolders cat templateIDs members =
     map (\<lambda>m. let ids = catalogueTemplates cat templateIDs (mNodeID m); cap = smCapacity m
              in if ids = [] \<or> \<not> snLocalTemplateInventoryKnown cap then m
                 else m\<lparr>smCapacity := cap\<lparr>snLocalTemplateIDs :=
                          snLocalTemplateIDs cap @ filter (\<lambda>i. i \<notin> set (snLocalTemplateIDs cap)) ids\<rparr>\<rparr>) members"

definition SelectPlacementWithCandidates ::
  "schedState \<Rightarrow> artifactCatalog \<Rightarrow> nat \<Rightarrow> nat \<Rightarrow> Request \<Rightarrow> SchedMember list
     \<Rightarrow> placementError + PlacementTarget \<times> SchedMember list" where
  "SelectPlacementWithCandidates c cat i j req members =
     selectAmong c i j req (withCatalogueTemplateHolders cat [rqTemplateID req] members)"

definition SelectPlacement ::
  "schedState \<Rightarrow> artifactCatalog \<Rightarrow> nat \<Rightarrow> nat \<Rightarrow> Request \<Rightarrow> SchedMember list \<Rightarrow> placementError + PlacementTarget" where
  "SelectPlacement c cat i j req members =
     (case SelectPlacementWithCandidates c cat i j req members of Inl e \<Rightarrow> Inl e | Inr (target, _) \<Rightarrow> Inr target)"

section \<open>The leader's check of a reservation\<close>

record reservationAsk =
  raSandboxID :: string
  raOwnerNodeID :: string
  raRequest :: Request

datatype reserveError =
    ReservationMissingID
  | WorkerNotAlive string
  | WorkerNoHeartbeat string
  | CreateBackpressure string int
  | WorkerLacksLabels string "(string \<times> string) list"
  | WorkerCannotFit string string
  | WorkerNoSlot string string

record batchState =
  bsPending :: "string \<rightharpoonup> capacityRequest"
  bsCounts :: "string \<rightharpoonup> int"
  bsRuntimes :: "string \<rightharpoonup> runtimeCounts"

definition emptyBatch :: batchState where
  "emptyBatch = \<lparr>bsPending = Map.empty, bsCounts = Map.empty, bsRuntimes = Map.empty\<rparr>"

definition addResources :: "capacityRequest \<Rightarrow> 'x capacityRequest_scheme \<Rightarrow> capacityRequest" where
  "addResources e r = e\<lparr>crCPU := crCPU e + crCPU r, crMemoryMB := crMemoryMB e + crMemoryMB r,
                        crDiskGB := crDiskGB e + crDiskGB r, crGPUs := crGPUs e + crGPUs r\<rparr>"

definition membersByID :: "SchedMember list \<Rightarrow> string \<rightharpoonup> SchedMember" where
  "membersByID members = fold (\<lambda>m byID. if mNodeID m \<noteq> [] then byID(mNodeID m \<mapsto> m) else byID) members Map.empty"

text \<open>What the leader has counted in flight before the batch.\<close>

record inFlight =
  ifPending :: "string \<rightharpoonup> capacityRequest"
  ifRuntimes :: "string \<rightharpoonup> runtimeCounts"
  ifCounts :: "string \<rightharpoonup> int"
  ifMaxPerWorker :: int

definition batchRuntimesOf :: "inFlight \<Rightarrow> batchState \<Rightarrow> string \<Rightarrow> runtimeCounts" where
  "batchRuntimesOf p s n = (case bsRuntimes s n of Some rts \<Rightarrow> rts | None \<Rightarrow> runtimesOn (ifRuntimes p) n)"

definition admitReservation ::
  "(string \<rightharpoonup> SchedMember) \<Rightarrow> inFlight \<Rightarrow> reservationAsk \<Rightarrow> batchState \<Rightarrow> reserveError + batchState" where
  "admitReservation byID p r s =
     (let n = raOwnerNodeID r; req = raRequest r
      in if raSandboxID r = [] \<or> n = [] then Inl ReservationMissingID
         else case byID n of
           None \<Rightarrow> Inl (WorkerNotAlive n)
         | Some m \<Rightarrow>
             let pendingNow = countOf (ifCounts p) n + countOf (bsCounts s) n;
                 extra = addResources (pendingOn (ifPending p) n) (pendingOn (bsPending s) n);
                 byRuntime = batchRuntimesOf p s n
             in if \<not> mAlive m \<or> \<not> CanOwnSandboxRole (mRole m) then Inl (WorkerNotAlive n)
                else if smCapacityStale m \<or> \<not> hasCapacitySnapshot (smCapacity m) then Inl (WorkerNoHeartbeat n)
                else if ifMaxPerWorker p > 0 \<and> pendingNow \<ge> ifMaxPerWorker p then Inl (CreateBackpressure n pendingNow)
                else if \<not> LabelsSatisfy (snLabels (smCapacity m)) (rqLabels req) then Inl (WorkerLacksLabels n (rqLabels req))
                else if \<not> nodeFits m req extra then Inl (WorkerCannotFit n (raSandboxID r))
                else if \<not> slotsFit m req byRuntime then Inl (WorkerNoSlot n (raSandboxID r))
                else Inr (s\<lparr>bsRuntimes := (bsRuntimes s)(n \<mapsto> byRuntime(crRuntime req \<mapsto> countOf byRuntime (crRuntime req) + 1)),
                            bsPending := (bsPending s)(n \<mapsto> addResources (pendingOn (bsPending s) n) req),
                            bsCounts := (bsCounts s)(n \<mapsto> countOf (bsCounts s) n + 1)\<rparr>))"

fun admitBatch ::
  "(string \<rightharpoonup> SchedMember) \<Rightarrow> inFlight \<Rightarrow> reservationAsk list \<Rightarrow> batchState \<Rightarrow> reserveError + batchState" where
  "admitBatch byID p [] s = Inr s"
| "admitBatch byID p (r # rs) s = (case admitReservation byID p r s of Inl e \<Rightarrow> Inl e | Inr s \<Rightarrow> admitBatch byID p rs s)"

definition admitReservationCommands :: "SchedMember list \<Rightarrow> inFlight \<Rightarrow> reservationAsk list \<Rightarrow> reserveError option" where
  "admitReservationCommands members p reservations =
     (case admitBatch (membersByID members) p reservations emptyBatch of Inl e \<Rightarrow> Some e | Inr _ \<Rightarrow> None)"

section \<open>Recipients of sealed secrets\<close>

definition fnv64a :: "string \<Rightarrow> 64 word" where
  "fnv64a s = fold (\<lambda>ch h. xor h (of_nat (of_char ch)) * 1099511628211) s 14695981039346656037"

definition secretRecipientScore :: "string \<Rightarrow> string \<Rightarrow> 64 word" where
  "secretRecipientScore sandboxID nodeID =
     (let x = fnv64a (trimSpace sandboxID @ [char_of (0 :: nat)] @ trimSpace nodeID);
          x = xor x (drop_bit 30 x) * 0xbf58476d1ce4e5b9;
          x = xor x (drop_bit 27 x) * 0x94d049bb133111eb
      in xor x (drop_bit 31 x))"

fun otherCandidates :: "string set \<Rightarrow> 'm Member_scheme list \<Rightarrow> string list" where
  "otherCandidates seen [] = []"
| "otherCandidates seen (m # ms) =
     (let i = trimSpace (mNodeID m)
      in if i = [] \<or> i \<in> seen then otherCandidates seen ms else i # otherCandidates (insert i seen) ms)"

definition SelectSecretRecipients :: "string \<Rightarrow> 'm Member_scheme list \<Rightarrow> string \<Rightarrow> int \<Rightarrow> string list" where
  "SelectSecretRecipients sandboxID candidates ownerID maxBackups =
     (let owner = trimSpace ownerID
      in if owner = [] \<or> candidates = [] then []
         else let rest = sort_key (\<lambda>i. (- int (unat (secretRecipientScore sandboxID i)), i)) (otherCandidates {owner} candidates)
              in owner # take (nat maxBackups) rest)"

end
