(* ===== verification/Scheduler_Properties.thy ===== *)
theory Scheduler_Properties
  imports Scheduler
begin

text \<open>
  Properties of placement: a selection answers with a worker that passes every filter and with none only when there is
  none, its refusals say what is true of the cluster, a worker the fit accepts has the room its own admitter will
  ask for, and a batch of reservations the leader accepts stays within the budgets of every worker it names.
\<close>

section \<open>The candidates\<close>

text \<open>What a worker must be for a request, room aside, and what eligible means in full.\<close>

definition reachable :: "schedState \<Rightarrow> Request \<Rightarrow> SchedMember \<Rightarrow> bool" where
  "reachable c req m \<longleftrightarrow>
     mAlive m \<and> CanOwnSandboxRole (mRole m) \<and> (rqRequiredNodeID req = [] \<or> mNodeID m = rqRequiredNodeID req) \<and>
     (mAPIURL m \<noteq> [] \<or> mNodeID m = ptNodeID (scSelf c))"

definition fresh :: "SchedMember \<Rightarrow> bool" where
  "fresh m \<longleftrightarrow> \<not> smCapacityStale m \<and> hasCapacitySnapshot (smCapacity m)"

definition capable :: "schedState \<Rightarrow> Request \<Rightarrow> SchedMember \<Rightarrow> bool" where
  "capable c req m \<longleftrightarrow>
     reachable c req m \<and> fresh m \<and> LabelsSatisfy (snLabels (smCapacity m)) (rqLabels req) \<and> mNodeID m \<notin> scDrained c \<and>
     (rqNeedsEgressGateway req \<longrightarrow> snEgressGatewayReady (smCapacity m)) \<and> (rqNeedsMediatedEgress req \<longrightarrow> snMediatedEgress (smCapacity m))"

definition verdictOn :: "schedState \<Rightarrow> Request \<Rightarrow> SchedMember \<Rightarrow> fitVerdict" where
  "verdictOn c req m = nodeFitVerdict m req (pendingOn (scPending c) (mNodeID m))"

definition slotOn :: "schedState \<Rightarrow> Request \<Rightarrow> SchedMember \<Rightarrow> bool" where
  "slotOn c req m = slotsFit m req (runtimesOn (scPendingRuntimes c) (mNodeID m))"

definition eligible :: "schedState \<Rightarrow> Request \<Rightarrow> SchedMember \<Rightarrow> bool" where
  "eligible c req m \<longleftrightarrow> capable c req m \<and> verdictOn c req m = FitOK \<and> slotOn c req m"

definition onlyFull :: "schedState \<Rightarrow> Request \<Rightarrow> SchedMember \<Rightarrow> bool" where
  "onlyFull c req m \<longleftrightarrow> capable c req m \<and> (verdictOn c req m = FitNoRoom \<or> (verdictOn c req m = FitOK \<and> \<not> slotOn c req m))"

definition labelled :: "schedState \<Rightarrow> Request \<Rightarrow> SchedMember \<Rightarrow> bool" where
  "labelled c req m \<longleftrightarrow>
     reachable c req m \<and> hasCapacitySnapshot (smCapacity m) \<and> LabelsSatisfy (snLabels (smCapacity m)) (rqLabels req)"

definition lacksGateway :: "schedState \<Rightarrow> Request \<Rightarrow> SchedMember \<Rightarrow> bool" where
  "lacksGateway c req m \<longleftrightarrow>
     reachable c req m \<and> fresh m \<and> LabelsSatisfy (snLabels (smCapacity m)) (rqLabels req) \<and> mNodeID m \<notin> scDrained c \<and>
     \<not> snEgressGatewayReady (smCapacity m)"

text \<open>The fit written out: what a worker must have whatever its load, and the room that is left on it, with the loads in flight counted and
  its reclaimable slots as free.\<close>

definition compatible :: "Request \<Rightarrow> SchedMember \<Rightarrow> bool" where
  "compatible req m \<longleftrightarrow>
     (let cap = smCapacity m
      in (0 < crGPUs req \<longrightarrow>
            crGPUs req \<le> snGPUCount cap \<and> (rqGPUVendor req = [] \<or> snGPUVendor cap = [] \<or> rqGPUVendor req = snGPUVendor cap)) \<and>
         (crRuntime req = [] \<or> snSupportedRuntimes cap = [] \<or> crRuntime req \<in> set (snSupportedRuntimes cap)) \<and>
         (rqTemplateID req = [] \<or> \<not> snLocalTemplateInventoryKnown cap \<or> rqTemplateID req \<in> set (snLocalTemplateIDs cap)) \<and>
         (crRuntime req \<noteq> ''wasm'' \<or> rqModuleRef req = [] \<or> \<not> snLocalWasmModuleInventoryKnown cap \<or>
          rqModuleRef req \<in> set (snLocalWasmModuleIDs cap)))"

definition freeSlots :: "schedState \<Rightarrow> SchedMember \<Rightarrow> SlotPool \<Rightarrow> int" where
  "freeSlots c m pool = spFree pool - (\<Sum>rt\<leftarrow>spRuntimes pool. countOf (runtimesOn (scPendingRuntimes c) (mNodeID m)) rt)"

definition hasRoom :: "schedState \<Rightarrow> Request \<Rightarrow> SchedMember \<Rightarrow> bool" where
  "hasRoom c req m \<longleftrightarrow>
     (let cap = smCapacity m; inflight = pendingOn (scPending c) (mNodeID m)
      in (snCanAdmit cap \<or> snReasons cap = []) \<and>
         (0 < snCPUBudget cap \<longrightarrow> max (snReservedCPU cap - snParkedCPU cap) 0 + crCPU inflight + crCPU req \<le> snCPUBudget cap) \<and>
         (0 < snMemoryBudgetMB cap \<longrightarrow>
            max (snReservedMemoryMB cap - snParkedMemoryMB cap) 0 + crMemoryMB inflight + crMemoryMB req \<le> snMemoryBudgetMB cap) \<and>
         (0 < snDiskBudgetGB cap \<longrightarrow>
            max (snReservedDiskGB cap - snParkedDiskGB cap) 0 + crDiskGB inflight + crDiskGB req \<le> snDiskBudgetGB cap) \<and>
         (\<forall>pool. find (\<lambda>q. crRuntime req \<in> set (spRuntimes q)) (snSlotPools cap) = Some pool \<longrightarrow> 1 \<le> freeSlots c m pool))"




lemma slotOn_iff:
  "slotOn c req m \<longleftrightarrow>
   (\<forall>pool. find (\<lambda>q. crRuntime req \<in> set (spRuntimes q)) (snSlotPools (smCapacity m)) = Some pool \<longrightarrow> 1 \<le> freeSlots c m pool)"
  by (simp add: slotOn_def slotsFit_def freeSlotsAfterPending_def SlotPoolFor_def slotPoolServes_def freeSlots_def split: option.split)

lemma verdict_compatible:
  assumes "capable c req m"
  shows "fitIncompatibleWith m req \<longleftrightarrow> \<not> compatible req m"
proof -
  have ready: "\<not> smCapacityStale m" "hasCapacitySnapshot (smCapacity m)" "LabelsSatisfy (snLabels (smCapacity m)) (rqLabels req)"
    using assms unfolding capable_def fresh_def by blast+
  show ?thesis
    unfolding fitIncompatibleWith_def compatible_def Let_def not_le[symmetric]
    by (simp only: ready simp_thms de_Morgan_conj de_Morgan_disj not_imp not_not)
qed

lemma fit_chain:
  "(if P then FitNoRoom else if Q then FitNoRoom else if R then FitNoRoom else if S then FitNoRoom else FitOK) = FitOK \<longleftrightarrow>
   \<not> P \<and> \<not> Q \<and> \<not> R \<and> \<not> S"
  by simp

lemma eligible_iff: "eligible c req m \<longleftrightarrow> capable c req m \<and> compatible req m \<and> hasRoom c req m"
proof (cases "capable c req m \<and> compatible req m")
  case True
  then have inc: "\<not> fitIncompatibleWith m req" using verdict_compatible[of c req m] by blast
  have "verdictOn c req m = FitOK \<and> slotOn c req m \<longleftrightarrow> hasRoom c req m"
    unfolding verdictOn_def nodeFitVerdict_def hasRoom_def Let_def if_not_P[OF inc] fit_chain slotOn_iff de_Morgan_conj not_not not_less
      imp_conv_disj by blast
  with True show ?thesis unfolding eligible_def by blast
next
  case False
  then have "verdictOn c req m \<noteq> FitOK" if "capable c req m"
    using that verdict_compatible[OF that] by (simp add: verdictOn_def nodeFitVerdict_def Let_def)
  with False show ?thesis unfolding eligible_def by blast
qed

lemma onlyFull_iff: "onlyFull c req m \<longleftrightarrow> capable c req m \<and> compatible req m \<and> \<not> hasRoom c req m"
proof (cases "capable c req m \<and> compatible req m")
  case True
  then have "\<not> fitIncompatibleWith m req" using verdict_compatible[of c req m] by simp
  then have "verdictOn c req m = FitOK \<or> verdictOn c req m = FitNoRoom" by (auto simp: verdictOn_def nodeFitVerdict_def Let_def)
  then show ?thesis using eligible_iff[of c req m] True by (auto simp: onlyFull_def eligible_def)
next
  case False
  then show ?thesis using verdict_compatible[of c req m] by (auto simp: onlyFull_def verdictOn_def nodeFitVerdict_def Let_def)
qed







lemma LabelsSatisfy_nil [simp]: "LabelsSatisfy held []"
  by (simp add: LabelsSatisfy_def)

text \<open>The three ways a member leaves the loop early, and the rest of the loop body.\<close>

lemma consider_unreachable: "\<not> reachable c req m \<Longrightarrow> considerMember c req m s = s"
  unfolding reachable_def considerMember_def by (simp only: de_Morgan_conj de_Morgan_disj not_not) (elim disjE; simp)

lemma consider_stale:
  "reachable c req m \<Longrightarrow> \<not> fresh m \<Longrightarrow>
   considerMember c req m s = (if rqLabels req \<noteq> [] \<and> labelled c req m then s\<lparr>slLabelMatched := True\<rparr> else s)"
  by (auto simp: considerMember_def reachable_def fresh_def labelled_def)

definition reachedNow :: "Request \<Rightarrow> selection \<Rightarrow> selection" where
  "reachedNow req s = (if rqRequiredNodeID req \<noteq> [] then s\<lparr>slRequiredReachable := True\<rparr> else s)"

definition labelledNow :: "Request \<Rightarrow> selection \<Rightarrow> selection" where
  "labelledNow req s = (if rqLabels req \<noteq> [] then s\<lparr>slLabelMatched := True\<rparr> else s)"

lemma consider_fresh:
  assumes "reachable c req m" "fresh m"
  shows "considerMember c req m s =
    (if \<not> LabelsSatisfy (snLabels (smCapacity m)) (rqLabels req) then reachedNow req s
     else let s = labelledNow req (reachedNow req s)
          in if mNodeID m \<in> scDrained c then s
             else if rqNeedsEgressGateway req \<and> \<not> snEgressGatewayReady (smCapacity m) then s\<lparr>slGatewayRejected := True\<rparr>
             else if rqNeedsMediatedEgress req \<and> \<not> snMediatedEgress (smCapacity m) then s
             else (case verdictOn c req m of
                     FitIncompatible \<Rightarrow> s | FitNoRoom \<Rightarrow> s\<lparr>slFull := True\<rparr>
                   | FitOK \<Rightarrow> if \<not> slotOn c req m then s\<lparr>slFull := True\<rparr> else s\<lparr>slCandidates := slCandidates s @ [m]\<rparr>))"
proof -
  have hit: "rqRequiredNodeID req \<noteq> [] \<and> mNodeID m = rqRequiredNodeID req \<longleftrightarrow> rqRequiredNodeID req \<noteq> []"
    using assms(1) by (auto simp: reachable_def)
  have rule: "rqLabels req \<noteq> [] \<and> \<not> LabelsSatisfy (snLabels (smCapacity m)) (rqLabels req) \<longleftrightarrow>
      \<not> LabelsSatisfy (snLabels (smCapacity m)) (rqLabels req)" by (cases "rqLabels req = []") simp_all
  have early: "\<not> (\<not> mAlive m)" "\<not> (\<not> CanOwnSandboxRole (mRole m))" "\<not> (rqRequiredNodeID req \<noteq> [] \<and> mNodeID m \<noteq> rqRequiredNodeID req)"
    "\<not> (mAPIURL m = [] \<and> mNodeID m \<noteq> ptNodeID (scSelf c))" "\<not> (smCapacityStale m \<or> \<not> hasCapacitySnapshot (smCapacity m))"
    using assms by (auto simp: reachable_def fresh_def)
  show ?thesis
    unfolding considerMember_def if_not_P[OF early(1)] if_not_P[OF early(2)] if_not_P[OF early(3)] if_not_P[OF early(4)]
      if_not_P[OF early(5)] hit rule reachedNow_def[symmetric] labelledNow_def[symmetric] verdictOn_def[symmetric] slotOn_def[symmetric]
    by (simp add: Let_def)
qed

lemma now_sel [simp]:
  "slCandidates (reachedNow req s) = slCandidates s" "slFull (reachedNow req s) = slFull s" "slLabelMatched (reachedNow req s) = slLabelMatched s"
  "slCandidates (labelledNow req s) = slCandidates s" "slFull (labelledNow req s) = slFull s"
  "slRequiredReachable (labelledNow req s) = slRequiredReachable s"
  "slRequiredReachable (reachedNow req s) \<longleftrightarrow> slRequiredReachable s \<or> rqRequiredNodeID req \<noteq> []"
  "slLabelMatched (labelledNow req s) \<longleftrightarrow> slLabelMatched s \<or> rqLabels req \<noteq> []"
  "slGatewayRejected (reachedNow req s) = slGatewayRejected s" "slGatewayRejected (labelledNow req s) = slGatewayRejected s"
  by (simp_all add: reachedNow_def labelledNow_def)

lemma consider_effect:
  "slCandidates (considerMember c req m s) = slCandidates s @ (if eligible c req m then [m] else [])"
  "slFull (considerMember c req m s) \<longleftrightarrow> slFull s \<or> onlyFull c req m"
  "slLabelMatched (considerMember c req m s) \<longleftrightarrow> slLabelMatched s \<or> (rqLabels req \<noteq> [] \<and> labelled c req m)"
  "slRequiredReachable (considerMember c req m s) \<longleftrightarrow>
   slRequiredReachable s \<or> (rqRequiredNodeID req \<noteq> [] \<and> reachable c req m \<and> fresh m)"
  "slGatewayRejected (considerMember c req m s) \<longleftrightarrow> slGatewayRejected s \<or> (rqNeedsEgressGateway req \<and> lacksGateway c req m)"
proof -
  consider (away) "\<not> reachable c req m" | (stale) "reachable c req m" "\<not> fresh m" | (ready) "reachable c req m" "fresh m" by blast
  then have "slCandidates (considerMember c req m s) = slCandidates s @ (if eligible c req m then [m] else []) \<and>
    (slFull (considerMember c req m s) \<longleftrightarrow> slFull s \<or> onlyFull c req m) \<and>
    (slLabelMatched (considerMember c req m s) \<longleftrightarrow> slLabelMatched s \<or> (rqLabels req \<noteq> [] \<and> labelled c req m)) \<and>
    (slRequiredReachable (considerMember c req m s) \<longleftrightarrow>
     slRequiredReachable s \<or> (rqRequiredNodeID req \<noteq> [] \<and> reachable c req m \<and> fresh m)) \<and>
    (slGatewayRejected (considerMember c req m s) \<longleftrightarrow> slGatewayRejected s \<or> (rqNeedsEgressGateway req \<and> lacksGateway c req m))"
  proof cases
    case away
    then show ?thesis by (simp add: consider_unreachable eligible_def onlyFull_def capable_def labelled_def lacksGateway_def)
  next
    case stale
    then show ?thesis by (auto simp: consider_stale eligible_def onlyFull_def capable_def lacksGateway_def)
  next
    case ready
    have "labelled c req m \<longleftrightarrow> LabelsSatisfy (snLabels (smCapacity m)) (rqLabels req)" using ready by (simp add: labelled_def fresh_def)
    with ready show ?thesis
      by (cases "verdictOn c req m") (auto simp: consider_fresh eligible_def onlyFull_def capable_def lacksGateway_def Let_def)
  qed
  then show "slCandidates (considerMember c req m s) = slCandidates s @ (if eligible c req m then [m] else [])"
    "slFull (considerMember c req m s) \<longleftrightarrow> slFull s \<or> onlyFull c req m"
    "slLabelMatched (considerMember c req m s) \<longleftrightarrow> slLabelMatched s \<or> (rqLabels req \<noteq> [] \<and> labelled c req m)"
    "slRequiredReachable (considerMember c req m s) \<longleftrightarrow>
     slRequiredReachable s \<or> (rqRequiredNodeID req \<noteq> [] \<and> reachable c req m \<and> fresh m)"
    "slGatewayRejected (considerMember c req m s) \<longleftrightarrow> slGatewayRejected s \<or> (rqNeedsEgressGateway req \<and> lacksGateway c req m)" by blast+
qed

lemma selection_fold:
  "slCandidates (fold (considerMember c req) all s) = slCandidates s @ filter (eligible c req) all"
  "slFull (fold (considerMember c req) all s) \<longleftrightarrow> slFull s \<or> (\<exists>m \<in> set all. onlyFull c req m)"
  "slLabelMatched (fold (considerMember c req) all s) \<longleftrightarrow> slLabelMatched s \<or> (rqLabels req \<noteq> [] \<and> (\<exists>m \<in> set all. labelled c req m))"
  "slRequiredReachable (fold (considerMember c req) all s) \<longleftrightarrow>
   slRequiredReachable s \<or> (rqRequiredNodeID req \<noteq> [] \<and> (\<exists>m \<in> set all. reachable c req m \<and> fresh m))"
  "slGatewayRejected (fold (considerMember c req) all s) \<longleftrightarrow>
   slGatewayRejected s \<or> (rqNeedsEgressGateway req \<and> (\<exists>m \<in> set all. lacksGateway c req m))"
proof (induction all arbitrary: s)
  case (Cons m all)
  case 1 show ?case by (simp add: Cons.IH(1)[of "considerMember c req m s"] consider_effect(1))
  case 2 show ?case by (auto simp: Cons.IH(2)[of "considerMember c req m s"] consider_effect(2))
  case 3 show ?case by (auto simp: Cons.IH(3)[of "considerMember c req m s"] consider_effect(3))
  case 4 show ?case by (auto simp: Cons.IH(4)[of "considerMember c req m s"] consider_effect(4))
  case 5 show ?case by (auto simp: Cons.IH(5)[of "considerMember c req m s"] consider_effect(5))
qed simp_all

lemma selection_all:
  "slCandidates (fold (considerMember c req) all emptySelection) = filter (eligible c req) all"
  "slFull (fold (considerMember c req) all emptySelection) \<longleftrightarrow> (\<exists>m \<in> set all. onlyFull c req m)"
  "slLabelMatched (fold (considerMember c req) all emptySelection) \<longleftrightarrow> rqLabels req \<noteq> [] \<and> (\<exists>m \<in> set all. labelled c req m)"
  "slRequiredReachable (fold (considerMember c req) all emptySelection) \<longleftrightarrow>
   rqRequiredNodeID req \<noteq> [] \<and> (\<exists>m \<in> set all. reachable c req m \<and> fresh m)"
  "slGatewayRejected (fold (considerMember c req) all emptySelection) \<longleftrightarrow> rqNeedsEgressGateway req \<and> (\<exists>m \<in> set all. lacksGateway c req m)"
  by (simp_all add: selection_fold emptySelection_def)

lemma small_topology:
  assumes "length members \<le> 10"
  shows "LargeClusterTopologyError members = None"
proof -
  have "length (filter (\<lambda>m. mAlive m \<and> trimSpace (mNodeID m) \<noteq> []) members) \<le> 10" using assms by (meson length_filter_le order.trans)
  then show ?thesis by (simp only: LargeClusterTopologyError_def Let_def if_True)
qed

lemma targetOf_node [simp]: "ptNodeID (targetOf c m) = mNodeID m"
  by (simp add: targetOf_def)

section \<open>A cluster to run the properties on\<close>

definition workerOf :: "string \<Rightarrow> Snapshot \<Rightarrow> SchedMember" where
  "workerOf n cap =
     \<lparr>mNodeID = n, mAPIURL = ''http'', mDataPlaneHost = [], mInternalURL = [], mRole = [], mAlive = True, smCapacity = cap,
      smCapacityStale = False\<rparr>"

text \<open>The heartbeat of a worker on the docker engine: what its admitter reports, with its slot pool overlaid.\<close>

definition heartbeatOf :: "Readings \<Rightarrow> Admitter \<Rightarrow> Snapshot" where
  "heartbeatOf rd a =
     refreshLocal \<lparr>loTemplates = None, loModules = None, loGatewayReady = None, loSlotPools = Some (dockerSlotPools a)\<rparr> rd a"

definition idleCluster :: schedState where
  "idleCluster =
     \<lparr>scSelf = \<lparr>ptNodeID = ''s1'', ptAPIURL = [], ptDataPlaneHost = [], ptInternalURL = [], ptIsSelf = True\<rparr>, scDrained = {},
      scPending = Map.empty, scPendingRuntimes = Map.empty\<rparr>"

definition cpuAndMemoryLimits :: Limits where
  "cpuAndMemoryLimits = memoryLimits\<lparr>liCPUReservationRatio := 1\<rparr>"

definition freeWorker :: SchedMember where
  "freeWorker = workerOf ''w1'' (heartbeatOf (quietReadings []) (NewAdmitter smallHost cpuAndMemoryLimits))"

lemmas cluster_eval = workerOf_def heartbeatOf_def refreshLocal_def dockerSlotPools_def freeWorker_def idleCluster_def cpuAndMemoryLimits_def TakeSnapshot_def AdmitterSlotPool_def dryRun_def
  budgetReasons_def hostReasons_def cpuBudget_def memBudgetMB_def diskBudgetGB_def overProvision_def truncRat_def quietReadings_def
  NewAdmitter_def smallHost_def memoryLimits_def memoryAsk_def noRequest_def noSlotLimit_def slotServes_def Let_def

lemma memoryAsk_sel: "rqRequiredNodeID (memoryAsk n) = []" "rqLabels (memoryAsk n) = []" "\<not> rqNeedsEgressGateway (memoryAsk n)"
  by (simp_all add: memoryAsk_def noRequest_def)

lemma legacy_role: "CanOwnSandboxRole []"
  by (simp add: CanOwnSandboxRole_def)

lemma freeWorker_eligible: "eligible idleCluster (memoryAsk 60) freeWorker"
  by (simp add: eligible_def capable_def reachable_def fresh_def verdictOn_def slotOn_def nodeFitVerdict_def fitIncompatibleWith_def
      hasCapacitySnapshot_def slotsFit_def freeSlotsAfterPending_def SlotPoolFor_def pendingOn_def zeroRequest_def legacy_role cluster_eval)




section \<open>Properties\<close>



text \<open>Property C14.  A refused selection tells the truth.  A topology error is the verdict of the topology rule, which is judged first and
  says nothing of the members; apart from it, a refusal means no member is eligible, and: an unavailable artifact node means that node is not a
  live reachable member with a fresh heartbeat; an unsatisfiable rule means no live reachable worker carries the labels; no gateway target
  means some reachable, fresh, labelled worker that is not drained lacks a ready gateway; at capacity means some worker that can run the
  request was turned away for room alone; and no target means no worker was.\<close>

theorem placement_refusals_truthful:
  assumes "SelectPlacementWithCandidates c cat i j req members = Inl e"
  shows "let all = withCatalogueTemplateHolders cat [rqTemplateID req] members
    in (case e of
          ErrInvalidTopology t \<Rightarrow> LargeClusterTopologyError all = Some t
        | ErrArtifactNodeUnavailable n \<Rightarrow> n = rqRequiredNodeID req \<and> \<not> (\<exists>m \<in> set all. reachable c req m \<and> fresh m)
        | ErrPlacementUnsatisfiable rule \<Rightarrow> rule = rqLabels req \<and> \<not> (\<exists>m \<in> set all. labelled c req m)
        | ErrNoEgressGatewayTarget \<Rightarrow> rqNeedsEgressGateway req \<and>
            (\<exists>m \<in> set all. reachable c req m \<and> fresh m \<and> LabelsSatisfy (snLabels (smCapacity m)) (rqLabels req) \<and>
               mNodeID m \<notin> scDrained c \<and> \<not> snEgressGatewayReady (smCapacity m))
        | ErrClusterAtCapacity \<Rightarrow> \<exists>m \<in> set all. capable c req m \<and> compatible req m \<and> \<not> hasRoom c req m
        | ErrNoPlacementTarget \<Rightarrow> \<not> (\<exists>m \<in> set all. capable c req m \<and> compatible req m \<and> \<not> hasRoom c req m)) \<and>
       (LargeClusterTopologyError all = None \<longrightarrow> \<not> (\<exists>m \<in> set all. capable c req m \<and> compatible req m \<and> hasRoom c req m))"
proof (cases "LargeClusterTopologyError (withCatalogueTemplateHolders cat [rqTemplateID req] members)")
  case (Some t)
  then show ?thesis using assms by (auto simp: SelectPlacementWithCandidates_def selectAmong_def Let_def)
next
  case None
  let ?all = "withCatalogueTemplateHolders cat [rqTemplateID req] members"
  let ?s = "fold (considerMember c req) ?all emptySelection"
  have "filter (eligible c req) ?all = []" "e = noPlacementTargetError req ?s" using assms None
    by (simp_all add: SelectPlacementWithCandidates_def selectAmong_def selection_all(1) Let_def case_prod_beta split: if_splits)
  then show ?thesis using None
    by (auto simp: Let_def noPlacementTargetError_def selection_all(2-5) filter_empty_conv onlyFull_iff eligible_iff lacksGateway_def)
qed

theorem placement_refusals_truthful_witness:
  "SelectPlacementWithCandidates idleCluster Map.empty 0 0 (memoryAsk 101) [freeWorker] = Inl ErrClusterAtCapacity \<and>
   capable idleCluster (memoryAsk 101) freeWorker \<and> \<not> hasRoom idleCluster (memoryAsk 101) freeWorker"
proof -
  have all: "withCatalogueTemplateHolders Map.empty [rqTemplateID (memoryAsk 101)] [freeWorker] = [freeWorker]"
    by (simp add: withCatalogueTemplateHolders_def catalogueTemplates_def artifactCatalogHolders_def)
  have small: "LargeClusterTopologyError [freeWorker] = None" by (rule small_topology) simp
  have full: "onlyFull idleCluster (memoryAsk 101) freeWorker" "\<not> eligible idleCluster (memoryAsk 101) freeWorker"
    by (simp_all add: onlyFull_def eligible_def capable_def reachable_def fresh_def verdictOn_def slotOn_def nodeFitVerdict_def
      fitIncompatibleWith_def hasCapacitySnapshot_def pendingOn_def zeroRequest_def legacy_role cluster_eval)
  have "SelectPlacementWithCandidates idleCluster Map.empty 0 0 (memoryAsk 101) [freeWorker] = Inl ErrClusterAtCapacity"
    using full by (simp add: SelectPlacementWithCandidates_def selectAmong_def all small consider_effect emptySelection_def
        noPlacementTargetError_def memoryAsk_sel Let_def)
  moreover from placement_refusals_truthful[OF this]
  have "\<exists>m \<in> set [freeWorker]. capable idleCluster (memoryAsk 101) m \<and> compatible (memoryAsk 101) m \<and> \<not> hasRoom idleCluster (memoryAsk 101) m"
    unfolding all by simp
  ultimately show ?thesis by simp
qed

section \<open>Placement and admission agree\<close>

lemma heartbeat_sel:
  "snCPUBudget (heartbeatOf rd a) = cpuBudget a" "snMemoryBudgetMB (heartbeatOf rd a) = memBudgetMB a"
  "snDiskBudgetGB (heartbeatOf rd a) = diskBudgetGB a" "snReservedCPU (heartbeatOf rd a) = adTotalCPU a"
  "snReservedMemoryMB (heartbeatOf rd a) = adTotalMemMB a" "snReservedDiskGB (heartbeatOf rd a) = adTotalDiskGB a"
  "snParkedCPU (heartbeatOf rd a) = adParkedCPU a" "snParkedMemoryMB (heartbeatOf rd a) = adParkedMemMB a"
  "snParkedDiskGB (heartbeatOf rd a) = adParkedDiskGB a" "snGPUCount (heartbeatOf rd a) = hiGPUCount (adHost a)"
  "snGPUVendor (heartbeatOf rd a) = hiGPUVendor (adHost a)" "snSupportedRuntimes (heartbeatOf rd a) = hiSupportedRuntimes (adHost a)"
  "snSlotPools (heartbeatOf rd a) = (case AdmitterSlotPool a of None \<Rightarrow> [] | Some pool \<Rightarrow> [pool])"
  by (simp_all add: heartbeatOf_def refreshLocal_def dockerSlotPools_def TakeSnapshot_def case_prod_beta)

lemma nodeFits_budgets:
  assumes "nodeFits m req extra"
  shows "\<not> fitIncompatibleWith m req"
    "0 < snCPUBudget (smCapacity m) \<longrightarrow>
       max (snReservedCPU (smCapacity m) - snParkedCPU (smCapacity m)) 0 + crCPU extra + crCPU req \<le> snCPUBudget (smCapacity m)"
    "0 < snMemoryBudgetMB (smCapacity m) \<longrightarrow>
       max (snReservedMemoryMB (smCapacity m) - snParkedMemoryMB (smCapacity m)) 0 + crMemoryMB extra + crMemoryMB req
         \<le> snMemoryBudgetMB (smCapacity m)"
    "0 < snDiskBudgetGB (smCapacity m) \<longrightarrow>
       max (snReservedDiskGB (smCapacity m) - snParkedDiskGB (smCapacity m)) 0 + crDiskGB extra + crDiskGB req \<le> snDiskBudgetGB (smCapacity m)"
  using assms unfolding nodeFits_def nodeFitVerdict_def Let_def by (auto split: if_splits)

lemma cpuBudget_pos: "0 < cpuBudget a"
  by (simp add: cpuBudget_def Let_def)

lemma slotsFit_room:
  assumes "slotsFit m req pending" "smCapacity m = heartbeatOf rd a" "\<forall>rt. 0 \<le> countOf pending rt" "slotServes (adSlotLimit a) (crRuntime req)"
  shows "adSlotUsed a - adSlotParked a + 1 \<le> slTotal (adSlotLimit a)"
proof -
  have nn: "0 \<le> sum_list (map (countOf pending) rts)" for rts using assms(3) by (induction rts) simp_all
  have "1 \<le> max (slTotal (adSlotLimit a) - adSlotUsed a + adSlotParked a) 0 - sum_list (map (countOf pending) (slRuntimes (adSlotLimit a)))"
    using assms(1,4) unfolding assms(2) slotsFit_def freeSlotsAfterPending_def SlotPoolFor_def heartbeat_sel
    by (simp add: AdmitterSlotPool_def slotServes_def slotPoolServes_def Let_def)
  with nn[of "slRuntimes (adSlotLimit a)"] show ?thesis by (simp add: max_def split: if_splits)
qed

text \<open>Property C10.  A worker the scheduler picks has the room its admitter will ask for, provided the memory and disk budgets the
  worker enforces are positive: a budget whose product rounds down to zero reads as unlimited to the scheduler, while the admitter refuses
  everything against it, and such a worker is left out.  Take the heartbeat of a worker, its admitter's
  report with its slot pool, and a request the fit accepts by budgets and slots with any reservations in flight.  Once its
  reclaimable slots are left out, the worker's own check of the request finds no CPU, memory, disk or slot budget exceeded, no missing or
  wrong GPU and no unsupported runtime: what it may still refuse for is live memory, or GPUs other sandboxes hold.\<close>

theorem placement_fit_admits:
  assumes "nodeFits m req extra" "slotsFit m req pending" "smCapacity m = heartbeatOf rd a"
    and "0 \<le> crCPU extra" "0 \<le> crMemoryMB extra" "0 \<le> crDiskGB extra" "\<forall>rt. 0 \<le> countOf pending rt"
    and "0 < liMemoryReservationRatio (adLimits a) \<and> 0 < hiMemoryTotalMB (adHost a) \<longrightarrow> 0 < memBudgetMB a"
    and "0 < liDiskReservationRatio (adLimits a) \<and> 0 < hiDiskTotalGB (adHost a) \<longrightarrow> 0 < diskBudgetGB a"
  shows "set (snd (dryRun now req True a)) \<subseteq> {GPUExceeded, MemoryFloorBreached, BelowRSSWatermark}"
proof -
  note fit = nodeFits_budgets[OF assms(1), unfolded assms(3) heartbeat_sel]
  let ?b = "budgetReasons a (adTotalCPU a - adParkedCPU a + crCPU req) (adTotalMemMB a - adParkedMemMB a + crMemoryMB req)
      (adTotalDiskGB a - adParkedDiskGB a + crDiskGB req) (crRuntime req) (adSlotUsed a - adSlotParked a)"
  let ?h = "hostReasons now req (adTotalGPUs a + crGPUs req) a"
  have "CPUExceeded \<notin> set ?b" using fit(2) cpuBudget_pos[of a] assms(4) by (auto simp: budgetReasons_set)
  moreover have "MemoryExceeded \<notin> set ?b" using fit(3) assms(5,8) by (auto simp: budgetReasons_set)
  moreover have "DiskExceeded \<notin> set ?b" using fit(4) assms(6,9) by (auto simp: budgetReasons_set)
  moreover have "SlotsExceeded \<notin> set ?b" using slotsFit_room[OF assms(2,3,7)] by (auto simp: budgetReasons_set)
  ultimately have "?b = []" by (subst budgetReasons_nil) blast
  moreover have "set ?h \<subseteq> {GPUExceeded, MemoryFloorBreached, BelowRSSWatermark}"
    using nodeFits_budgets(1)[OF assms(1)] unfolding fitIncompatibleWith_def assms(3) heartbeat_sel Let_def
    by (auto simp: hostReasons_def runtimeSupported_def split: if_splits option.splits)
  ultimately show ?thesis by (simp add: dryRun_def Let_def)
qed

theorem placement_fit_admits_witness:
  "set (snd (dryRun (quietReadings []) (memoryAsk 60) True (NewAdmitter smallHost cpuAndMemoryLimits)))
     \<subseteq> {GPUExceeded, MemoryFloorBreached, BelowRSSWatermark}"
proof (rule placement_fit_admits[where m = freeWorker and rd = "quietReadings []" and extra = zeroRequest and pending = Map.empty])
  show "nodeFits freeWorker (memoryAsk 60) zeroRequest" "slotsFit freeWorker (memoryAsk 60) Map.empty"
    using freeWorker_eligible
    by (simp_all add: eligible_def verdictOn_def slotOn_def nodeFits_def pendingOn_def runtimesOn_def idleCluster_def)
  show "smCapacity freeWorker = heartbeatOf (quietReadings []) (NewAdmitter smallHost cpuAndMemoryLimits)"
    by (simp add: freeWorker_def workerOf_def)
qed (simp_all add: zeroRequest_def countOf_def memBudgetMB_def NewAdmitter_def smallHost_def cpuAndMemoryLimits_def memoryLimits_def
      overProvision_def truncRat_def)

text \<open>Property C15.  A worker with unlimited CPU is never picked.  A CPU ratio of zero turns the admitter's CPU check off, but the budget it
  reports is the floor of one hundredth of a core, and the scheduler reads any positive budget as a limit: it finds no room on that worker for a
  request of more CPU than that, while the worker's own check never refuses it for CPU.\<close>

theorem unlimited_cpu_never_placed:
  assumes "liCPUReservationRatio (adLimits a) = 0" "smCapacity m = heartbeatOf rd a" "1 / 100 < crCPU req" "0 \<le> crCPU extra"
  shows "\<not> nodeFits m req extra \<and> CPUExceeded \<notin> set (snd (dryRun now req True a))"
proof
  have "cpuBudget a = 1 / 100" using assms(1) by (simp add: cpuBudget_def Let_def)
  then show "\<not> nodeFits m req extra"
    using nodeFits_budgets(2)[of m req extra] assms(3,4) unfolding assms(2) heartbeat_sel by auto
  show "CPUExceeded \<notin> set (snd (dryRun now req True a))" using assms(1)
    by (auto simp: dryRun_def budgetReasons_def hostReasons_def Let_def split: if_splits option.splits)
qed

theorem unlimited_cpu_never_placed_witness:
  "\<not> nodeFits (workerOf ''w1'' (heartbeatOf (quietReadings []) (NewAdmitter smallHost memoryLimits))) (noRequest\<lparr>crCPU := 1\<rparr>) zeroRequest \<and>
   CPUExceeded \<notin> set (snd (dryRun (quietReadings []) (noRequest\<lparr>crCPU := 1\<rparr>) True (NewAdmitter smallHost memoryLimits)))"
  by (rule unlimited_cpu_never_placed[where rd = "quietReadings []"])
     (simp_all add: NewAdmitter_def memoryLimits_def workerOf_def noRequest_def zeroRequest_def)

section \<open>A batch of reservations\<close>

definition asksOn :: "string \<Rightarrow> reservationAsk list \<Rightarrow> Request list" where
  "asksOn n rs = map raRequest (filter (\<lambda>r. raOwnerNodeID r = n) rs)"

text \<open>A worker that holds these reservations in flight and these of the batch is within its budgets.\<close>

definition workerWithin :: "SchedMember \<Rightarrow> capacityRequest \<Rightarrow> capacityRequest \<Rightarrow> bool" where
  "workerWithin m pending batch \<longleftrightarrow>
     (let cap = smCapacity m
      in mAlive m \<and> CanOwnSandboxRole (mRole m) \<and> fresh m \<and>
         (0 < snCPUBudget cap \<longrightarrow> max (snReservedCPU cap - snParkedCPU cap) 0 + crCPU pending + crCPU batch \<le> snCPUBudget cap) \<and>
         (0 < snMemoryBudgetMB cap \<longrightarrow>
           max (snReservedMemoryMB cap - snParkedMemoryMB cap) 0 + crMemoryMB pending + crMemoryMB batch \<le> snMemoryBudgetMB cap) \<and>
         (0 < snDiskBudgetGB cap \<longrightarrow>
           max (snReservedDiskGB cap - snParkedDiskGB cap) 0 + crDiskGB pending + crDiskGB batch \<le> snDiskBudgetGB cap))"

definition batchOk :: "(string \<rightharpoonup> SchedMember) \<Rightarrow> inFlight \<Rightarrow> batchState \<Rightarrow> bool" where
  "batchOk byID p s \<longleftrightarrow>
     (\<forall>n. bsPending s n \<noteq> None \<longrightarrow>
        (\<exists>m. byID n = Some m \<and> workerWithin m (pendingOn (ifPending p) n) (pendingOn (bsPending s) n)) \<and>
        (0 < ifMaxPerWorker p \<longrightarrow> countOf (ifCounts p) n + countOf (bsCounts s) n \<le> ifMaxPerWorker p))"

lemma load_upd:
  "pendingOn (f(n \<mapsto> v)) k = (if k = n then v else pendingOn f k)" "countOf (g(n \<mapsto> w)) k = (if k = n then w else countOf g k)"
  by (simp_all add: pendingOn_def countOf_def)

lemma admitReservation_admits:
  assumes "admitReservation byID p r s = Inr t"
  obtains m where "byID (raOwnerNodeID r) = Some m" "mAlive m" "CanOwnSandboxRole (mRole m)" "fresh m"
    "0 < ifMaxPerWorker p \<longrightarrow> countOf (ifCounts p) (raOwnerNodeID r) + countOf (bsCounts s) (raOwnerNodeID r) < ifMaxPerWorker p"
    "nodeFits m (raRequest r) (addResources (pendingOn (ifPending p) (raOwnerNodeID r)) (pendingOn (bsPending s) (raOwnerNodeID r)))"
    "bsPending t = (bsPending s)(raOwnerNodeID r \<mapsto> addResources (pendingOn (bsPending s) (raOwnerNodeID r)) (raRequest r))"
    "bsCounts t = (bsCounts s)(raOwnerNodeID r \<mapsto> countOf (bsCounts s) (raOwnerNodeID r) + 1)"
  using assms by (auto simp: admitReservation_def fresh_def Let_def split: if_splits option.splits)

lemma admitReservation_ok:
  assumes "admitReservation byID p r s = Inr t" "batchOk byID p s"
  shows "batchOk byID p t"
proof -
  let ?n = "raOwnerNodeID r"
  obtain m where m: "byID ?n = Some m" "mAlive m" "CanOwnSandboxRole (mRole m)" "fresh m"
    "0 < ifMaxPerWorker p \<longrightarrow> countOf (ifCounts p) ?n + countOf (bsCounts s) ?n < ifMaxPerWorker p"
    "nodeFits m (raRequest r) (addResources (pendingOn (ifPending p) ?n) (pendingOn (bsPending s) ?n))"
    "bsPending t = (bsPending s)(?n \<mapsto> addResources (pendingOn (bsPending s) ?n) (raRequest r))"
    "bsCounts t = (bsCounts s)(?n \<mapsto> countOf (bsCounts s) ?n + 1)" by (rule admitReservation_admits[OF assms(1)])
  have "workerWithin m (pendingOn (ifPending p) ?n) (addResources (pendingOn (bsPending s) ?n) (raRequest r))"
    using nodeFits_budgets(2-4)[OF m(6)] m(2-4) unfolding workerWithin_def Let_def by (simp add: addResources_def add.assoc)
  then show ?thesis using assms(2) m(1,5) unfolding batchOk_def m(7,8)
    by (auto simp: load_upd)
qed

lemma admitBatch_ok:
  assumes "admitBatch byID p rs s = Inr t" "batchOk byID p s"
  shows "batchOk byID p t \<and>
    (\<forall>n. (bsPending t n = None \<longleftrightarrow> bsPending s n = None \<and> asksOn n rs = []) \<and>
         crCPU (pendingOn (bsPending t) n) = crCPU (pendingOn (bsPending s) n) + sum_list (map crCPU (asksOn n rs)) \<and>
         crMemoryMB (pendingOn (bsPending t) n) = crMemoryMB (pendingOn (bsPending s) n) + sum_list (map crMemoryMB (asksOn n rs)) \<and>
         crDiskGB (pendingOn (bsPending t) n) = crDiskGB (pendingOn (bsPending s) n) + sum_list (map crDiskGB (asksOn n rs)) \<and>
         countOf (bsCounts t) n = countOf (bsCounts s) n + int (length (asksOn n rs)))"
  using assms
proof (induction rs arbitrary: s)
  case Nil
  then show ?case by (simp add: asksOn_def)
next
  case (Cons r rs)
  then obtain u where u: "admitReservation byID p r s = Inr u" "admitBatch byID p rs u = Inr t" by (auto split: sum.splits)
  let ?n = "raOwnerNodeID r"
  obtain m where m: "bsPending u = (bsPending s)(?n \<mapsto> addResources (pendingOn (bsPending s) ?n) (raRequest r))"
    "bsCounts u = (bsCounts s)(?n \<mapsto> countOf (bsCounts s) ?n + 1)" by (rule admitReservation_admits[OF u(1)])
  have "batchOk byID p u" by (rule admitReservation_ok[OF u(1) Cons.prems(2)])
  note IH = Cons.IH[OF u(2) this]
  have step: "bsPending u k = None \<longleftrightarrow> k \<noteq> ?n \<and> bsPending s k = None"
    "pendingOn (bsPending u) k = (if k = ?n then addResources (pendingOn (bsPending s) ?n) (raRequest r) else pendingOn (bsPending s) k)"
    "countOf (bsCounts u) k = (if k = ?n then countOf (bsCounts s) ?n + 1 else countOf (bsCounts s) k)"
    "asksOn k (r # rs) = (if k = ?n then raRequest r # asksOn k rs else asksOn k rs)" for k
    unfolding m load_upd by (simp_all add: asksOn_def)
  show ?case using IH by (simp add: step addResources_def)
qed

lemma membersByID_fold:
  "fold (\<lambda>m byID. if mNodeID m \<noteq> [] then byID(mNodeID m \<mapsto> m) else byID) members f n = Some m \<Longrightarrow>
   (m \<in> set members \<and> mNodeID m = n) \<or> f n = Some m"
proof (induction members arbitrary: f)
  case (Cons a members)
  from Cons.IH[of "if mNodeID a \<noteq> [] then f(mNodeID a \<mapsto> a) else f"] Cons.prems show ?case by (auto split: if_splits)
qed simp

lemma membersByID_Some: "membersByID members n = Some m \<Longrightarrow> m \<in> set members \<and> mNodeID m = n"
  unfolding membersByID_def by (drule membersByID_fold) simp

text \<open>Property C9.  A batch the leader accepts fits every worker it names.  When \<^verbatim>\<open>admitReservationCommands\<close> accepts a batch, the owner of
  each reservation is a known live worker with a fresh heartbeat; what it holds besides warm slots, what is in flight to it and what the
  whole batch asks of it are together within each CPU, memory and disk budget it reports; and its creates in flight, the batch included, are
  within the cap.\<close>

theorem reservation_batch_fits:
  assumes "admitReservationCommands members p rs = None" "r \<in> set rs"
  shows "let n = raOwnerNodeID r; asks = asksOn n rs; pending = pendingOn (ifPending p) n
    in (\<exists>m \<in> set members. mNodeID m = n \<and> mAlive m \<and> CanOwnSandboxRole (mRole m) \<and> fresh m \<and>
          (let cap = smCapacity m
           in (0 < snCPUBudget cap \<longrightarrow>
                max (snReservedCPU cap - snParkedCPU cap) 0 + crCPU pending + sum_list (map crCPU asks) \<le> snCPUBudget cap) \<and>
              (0 < snMemoryBudgetMB cap \<longrightarrow>
                max (snReservedMemoryMB cap - snParkedMemoryMB cap) 0 + crMemoryMB pending + sum_list (map crMemoryMB asks) \<le> snMemoryBudgetMB cap) \<and>
              (0 < snDiskBudgetGB cap \<longrightarrow>
                max (snReservedDiskGB cap - snParkedDiskGB cap) 0 + crDiskGB pending + sum_list (map crDiskGB asks) \<le> snDiskBudgetGB cap))) \<and>
       (0 < ifMaxPerWorker p \<longrightarrow> countOf (ifCounts p) n + int (length asks) \<le> ifMaxPerWorker p)"
proof -
  let ?n = "raOwnerNodeID r"
  obtain t where t: "admitBatch (membersByID members) p rs emptyBatch = Inr t" using assms(1)
    by (auto simp: admitReservationCommands_def split: sum.splits)
  have start: "batchOk (membersByID members) p emptyBatch" "bsPending emptyBatch ?n = None" "countOf (bsCounts emptyBatch) ?n = 0"
    "pendingOn (bsPending emptyBatch) ?n = zeroRequest"
    by (simp_all add: batchOk_def emptyBatch_def countOf_def pendingOn_def)
  have "asksOn ?n rs \<noteq> []" using assms(2) by (auto simp: asksOn_def filter_empty_conv)
  with admitBatch_ok[OF t start(1)] start(2-4) have ok: "batchOk (membersByID members) p t" "bsPending t ?n \<noteq> None"
    "crCPU (pendingOn (bsPending t) ?n) = sum_list (map crCPU (asksOn ?n rs))"
    "crMemoryMB (pendingOn (bsPending t) ?n) = sum_list (map crMemoryMB (asksOn ?n rs))"
    "crDiskGB (pendingOn (bsPending t) ?n) = sum_list (map crDiskGB (asksOn ?n rs))"
    "countOf (bsCounts t) ?n = int (length (asksOn ?n rs))" by (simp_all add: zeroRequest_def)
  from ok(1,2) obtain m where m: "membersByID members ?n = Some m" "workerWithin m (pendingOn (ifPending p) ?n) (pendingOn (bsPending t) ?n)"
    and cap: "0 < ifMaxPerWorker p \<longrightarrow> countOf (ifCounts p) ?n + countOf (bsCounts t) ?n \<le> ifMaxPerWorker p"
    unfolding batchOk_def by blast
  show ?thesis using membersByID_Some[OF m(1)] m(2) cap ok(3-6) unfolding Let_def workerWithin_def by (intro conjI bexI[of _ m]) simp_all
qed

definition idleFlight :: inFlight where
  "idleFlight = \<lparr>ifPending = Map.empty, ifRuntimes = Map.empty, ifCounts = Map.empty, ifMaxPerWorker = 2\<rparr>"

definition askFor :: "string \<Rightarrow> Request \<Rightarrow> reservationAsk" where
  "askFor i req = \<lparr>raSandboxID = i, raOwnerNodeID = ''w1'', raRequest = req\<rparr>"

lemmas batch_eval = admitReservationCommands_def admitReservation_def membersByID_def emptyBatch_def idleFlight_def askFor_def pendingOn_def runtimesOn_def
  batchRuntimesOf_def countOf_def addResources_def zeroRequest_def nodeFits_def nodeFitVerdict_def fitIncompatibleWith_def hasCapacitySnapshot_def
  slotsFit_def freeSlotsAfterPending_def SlotPoolFor_def legacy_role

theorem reservation_batch_fits_witness:
  "\<exists>m \<in> set [freeWorker]. mNodeID m = ''w1'' \<and> mAlive m \<and>
     max (snReservedMemoryMB (smCapacity m) - snParkedMemoryMB (smCapacity m)) 0 + 100 \<le> snMemoryBudgetMB (smCapacity m)"
proof -
  let ?rs = "[askFor ''a'' (memoryAsk 60), askFor ''b'' (memoryAsk 40)]"
  have ok: "admitReservationCommands [freeWorker] idleFlight ?rs = None"
    by (simp add: batch_eval cluster_eval)
  have budget: "snMemoryBudgetMB (smCapacity freeWorker) = 100" by (simp add: cluster_eval)
  from reservation_batch_fits[OF ok, of "askFor ''a'' (memoryAsk 60)"] show ?thesis unfolding Let_def
    by (simp add: askFor_def asksOn_def memoryAsk_def pendingOn_def idleFlight_def zeroRequest_def budget)
qed

definition gpuHost :: Admitter where
  "gpuHost = NewAdmitter (smallHost\<lparr>hiGPUCount := 1\<rparr>) cpuAndMemoryLimits"

definition oneGPU :: Request where
  "oneGPU = noRequest\<lparr>crGPUs := 1\<rparr>"

text \<open>The GPUs of a reservation do not enter the batch: the leader's checks of the later ones do not see them.\<close>

definition sameLoads :: "batchState \<Rightarrow> batchState \<Rightarrow> bool" where
  "sameLoads s t \<longleftrightarrow> bsCounts s = bsCounts t \<and> bsRuntimes s = bsRuntimes t \<and>
     (\<forall>n. crCPU (pendingOn (bsPending s) n) = crCPU (pendingOn (bsPending t) n) \<and>
          crMemoryMB (pendingOn (bsPending s) n) = crMemoryMB (pendingOn (bsPending t) n) \<and>
          crDiskGB (pendingOn (bsPending s) n) = crDiskGB (pendingOn (bsPending t) n))"

definition wholeGPUs :: "SchedMember list \<Rightarrow> reservationAsk \<Rightarrow> reservationAsk" where
  "wholeGPUs members r =
     r\<lparr>raRequest := (raRequest r)\<lparr>crGPUs := snGPUCount (smCapacity (the (membersByID members (raOwnerNodeID r))))\<rparr>\<rparr>"

lemma nodeFits_wholeGPUs:
  assumes "nodeFits m req extra" "rqGPUVendor req = []"
    and "crCPU extra' = crCPU extra" "crMemoryMB extra' = crMemoryMB extra" "crDiskGB extra' = crDiskGB extra"
  shows "nodeFits m (req\<lparr>crGPUs := snGPUCount (smCapacity m)\<rparr>) extra'"
proof -
  have "\<not> fitIncompatibleWith m (req\<lparr>crGPUs := snGPUCount (smCapacity m)\<rparr>)"
    using nodeFits_budgets(1)[OF assms(1)] assms(2) by (auto simp: fitIncompatibleWith_def Let_def)
  then show ?thesis using assms(1,3-5) by (auto simp: nodeFits_def nodeFitVerdict_def Let_def split: if_splits)
qed

lemma slotsFit_runtime: "crRuntime req' = crRuntime req \<Longrightarrow> slotsFit m req' pending = slotsFit m req pending"
  by (simp add: slotsFit_def freeSlotsAfterPending_def)

lemma admitReservation_wholeGPUs:
  assumes "admitReservation (membersByID members) p r s = Inr u" "rqGPUVendor (raRequest r) = []" "sameLoads s t"
  shows "\<exists>v. admitReservation (membersByID members) p (wholeGPUs members r) t = Inr v \<and> sameLoads u v"
proof -
  let ?n = "raOwnerNodeID r" and ?req = "raRequest r"
  obtain m where m: "membersByID members ?n = Some m" using admitReservation_admits[OF assms(1)] by metis
  let ?req' = "?req\<lparr>crGPUs := snGPUCount (smCapacity m)\<rparr>"
  have same: "bsCounts t = bsCounts s" "bsRuntimes t = bsRuntimes s" "batchRuntimesOf p t ?n = batchRuntimesOf p s ?n"
    using assms(3) by (simp_all add: sameLoads_def batchRuntimesOf_def)
  have r': "raSandboxID (wholeGPUs members r) = raSandboxID r" "raOwnerNodeID (wholeGPUs members r) = ?n" "raRequest (wholeGPUs members r) = ?req'"
    using m by (simp_all add: wholeGPUs_def)
  have ex: "crCPU (addResources (pendingOn (ifPending p) ?n) (pendingOn (bsPending t) ?n)) = crCPU (addResources (pendingOn (ifPending p) ?n) (pendingOn (bsPending s) ?n))"
      "crMemoryMB (addResources (pendingOn (ifPending p) ?n) (pendingOn (bsPending t) ?n)) = crMemoryMB (addResources (pendingOn (ifPending p) ?n) (pendingOn (bsPending s) ?n))"
      "crDiskGB (addResources (pendingOn (ifPending p) ?n) (pendingOn (bsPending t) ?n)) = crDiskGB (addResources (pendingOn (ifPending p) ?n) (pendingOn (bsPending s) ?n))"
    using assms(3) by (simp_all add: sameLoads_def addResources_def)
  have fits: "nodeFits m ?req (addResources (pendingOn (ifPending p) ?n) (pendingOn (bsPending s) ?n))"
    using assms(1) m by (auto simp: admitReservation_def Let_def split: if_splits)
  have fits': "nodeFits m ?req' (addResources (pendingOn (ifPending p) ?n) (pendingOn (bsPending t) ?n))"
    by (rule nodeFits_wholeGPUs[OF fits assms(2) ex])
  define v where "v = t\<lparr>bsRuntimes := (bsRuntimes s)(?n \<mapsto> (batchRuntimesOf p s ?n)(crRuntime ?req \<mapsto> countOf (batchRuntimesOf p s ?n) (crRuntime ?req) + 1)),
      bsPending := (bsPending t)(?n \<mapsto> addResources (pendingOn (bsPending t) ?n) ?req'), bsCounts := (bsCounts s)(?n \<mapsto> countOf (bsCounts s) ?n + 1)\<rparr>"
  have "admitReservation (membersByID members) p (wholeGPUs members r) t = Inr v"
    using assms(1) m fits' slotsFit_runtime[of ?req' ?req m]
    unfolding admitReservation_def r' Let_def same v_def by (auto split: if_splits)
  moreover have "u = s\<lparr>bsRuntimes := (bsRuntimes s)(?n \<mapsto> (batchRuntimesOf p s ?n)(crRuntime ?req \<mapsto> countOf (batchRuntimesOf p s ?n) (crRuntime ?req) + 1)),
      bsPending := (bsPending s)(?n \<mapsto> addResources (pendingOn (bsPending s) ?n) ?req), bsCounts := (bsCounts s)(?n \<mapsto> countOf (bsCounts s) ?n + 1)\<rparr>"
    using assms(1) m unfolding admitReservation_def Let_def by (auto split: if_splits)
  ultimately show ?thesis using assms(3) by (auto simp: v_def sameLoads_def load_upd addResources_def)
qed

lemma admitBatch_wholeGPUs:
  assumes "admitBatch (membersByID members) p rs s = Inr u" "\<forall>r \<in> set rs. rqGPUVendor (raRequest r) = []" "sameLoads s t"
  shows "\<exists>v. admitBatch (membersByID members) p (map (wholeGPUs members) rs) t = Inr v"
  using assms
proof (induction rs arbitrary: s t)
  case (Cons r rs)
  then obtain w where w: "admitReservation (membersByID members) p r s = Inr w" "admitBatch (membersByID members) p rs w = Inr u"
    by (auto split: sum.splits)
  from admitReservation_wholeGPUs[OF w(1) _ Cons.prems(3)] Cons.prems(2) obtain v
    where v: "admitReservation (membersByID members) p (wholeGPUs members r) t = Inr v" "sameLoads w v" by auto
  from Cons.IH[OF w(2) _ v(2)] Cons.prems(2) show ?case by (simp add: v(1))
qed simp

lemma asksOn_wholeGPUs:
  "map crGPUs (asksOn n (map (wholeGPUs members) rs)) =
   replicate (length (asksOn n rs)) (snGPUCount (smCapacity (the (membersByID members n))))"
  by (induction rs) (simp_all add: asksOn_def wholeGPUs_def)

text \<open>Property C16.  GPUs in flight are not counted.  Whenever the leader accepts a batch of reservations that name no GPU vendor, it also
  accepts the batch in which every reservation asks for all the GPUs its worker has, so that a worker named by k reservations is promised k
  times its GPUs; while the worker's own admitter refuses every request that takes its GPUs beyond what the host has.\<close>

theorem gpu_batch_overbooked:
  assumes "admitReservationCommands members p rs = None" "\<forall>r \<in> set rs. rqGPUVendor (raRequest r) = []"
  shows "admitReservationCommands members p (map (wholeGPUs members) rs) = None \<and>
    sum_list (map crGPUs (asksOn n (map (wholeGPUs members) rs))) =
      int (length (asksOn n rs)) * snGPUCount (smCapacity (the (membersByID members n))) \<and>
    (adReservations a i = None \<and> 0 < crGPUs req \<and> hiGPUCount (adHost a) < adTotalGPUs a + crGPUs req \<longrightarrow>
       snd (fst (admitOnce rd i req onlyNew a)) \<noteq> None)"
proof -
  obtain u where "admitBatch (membersByID members) p rs emptyBatch = Inr u" using assms(1)
    by (auto simp: admitReservationCommands_def split: sum.splits)
  from admitBatch_wholeGPUs[OF this assms(2), of emptyBatch] obtain v
    where v: "admitBatch (membersByID members) p (map (wholeGPUs members) rs) emptyBatch = Inr v" by (auto simp: sameLoads_def)
  have "admitOther rd i req a \<noteq> []" if "adReservations a i = None" "0 < crGPUs req" "hiGPUCount (adHost a) < adTotalGPUs a + crGPUs req"
    using that by (simp add: admitOther_def hostReasons_def Reserve_totals priorOf_def noRequest_def)
  then show ?thesis using v
    by (simp add: admitReservationCommands_def asksOn_wholeGPUs sum_list_replicate admitOnce_admits)
qed

theorem gpu_batch_overbooked_witness:
  "let members = [workerOf ''w1'' (heartbeatOf (quietReadings []) gpuHost)]; rs = [askFor ''a'' noRequest, askFor ''b'' noRequest]
   in admitReservationCommands members idleFlight (map (wholeGPUs members) rs) = None \<and>
      sum_list (map crGPUs (asksOn ''w1'' (map (wholeGPUs members) rs))) = 2 * hiGPUCount (adHost gpuHost) \<and>
      snd (fst (admitOnce (quietReadings []) ''b'' oneGPU True (Reserve ''a'' oneGPU gpuHost))) \<noteq> None"
proof -
  let ?ms = "[workerOf ''w1'' (heartbeatOf (quietReadings []) gpuHost)]" and ?rs = "[askFor ''a'' noRequest, askFor ''b'' noRequest]"
  have ok: "admitReservationCommands ?ms idleFlight ?rs = None"
    by (simp add: batch_eval cluster_eval gpuHost_def)
  have "\<forall>r \<in> set ?rs. rqGPUVendor (raRequest r) = []" by (simp add: askFor_def noRequest_def)
  note over = gpu_batch_overbooked[OF ok this, of "''w1''" "Reserve ''a'' oneGPU gpuHost" "''b''" oneGPU "quietReadings []" True]
  have count: "int (length (asksOn ''w1'' ?rs)) * snGPUCount (smCapacity (the (membersByID ?ms ''w1''))) = 2 * hiGPUCount (adHost gpuHost)"
    by (simp add: asksOn_def askFor_def membersByID_def workerOf_def heartbeat_sel)
  have "adReservations (Reserve ''a'' oneGPU gpuHost) ''b'' = None \<and> 0 < crGPUs oneGPU \<and>
      hiGPUCount (adHost (Reserve ''a'' oneGPU gpuHost)) < adTotalGPUs (Reserve ''a'' oneGPU gpuHost) + crGPUs oneGPU"
    by (simp add: Reserve_totals(4) priorOf_def gpuHost_def oneGPU_def noRequest_def NewAdmitter_def smallHost_def)
  with over have "snd (fst (admitOnce (quietReadings []) ''b'' oneGPU True (Reserve ''a'' oneGPU gpuHost))) \<noteq> None" by blast
  with over show ?thesis unfolding Let_def count by blast
qed

section \<open>Recipients of sealed secrets\<close>

lemma otherCandidates_set:
  "set (otherCandidates seen ms) = (\<lambda>m. trimSpace (mNodeID m)) ` set ms - insert [] seen"
proof (induction ms arbitrary: seen)
  case (Cons m ms)
  show ?case
  proof (cases "trimSpace (mNodeID m) \<in> insert [] seen")
    case True
    then have "otherCandidates seen (m # ms) = otherCandidates seen ms" by (auto simp: Let_def)
    with Cons.IH[of seen] True show ?thesis by (simp add: insert_Diff_if)
  next
    case False
    then have "otherCandidates seen (m # ms) = trimSpace (mNodeID m) # otherCandidates (insert (trimSpace (mNodeID m)) seen) ms"
      by (auto simp: Let_def)
    with Cons.IH[of "insert (trimSpace (mNodeID m)) seen"] False show ?thesis
      by (simp only: list.set image_insert insert_Diff_if if_False) blast
  qed
qed simp

lemma otherCandidates_distinct: "distinct (otherCandidates seen ms)"
  by (induction ms arbitrary: seen) (simp_all add: Let_def otherCandidates_set)

text \<open>The recipients are the owner first and then distinct other candidates, as many as asked for or all of them when there are fewer.\<close>

theorem secret_recipients_sound:
  assumes "trimSpace ownerID \<noteq> []" "candidates \<noteq> []"
    and "others = (\<lambda>m. trimSpace (mNodeID m)) ` set candidates - {[], trimSpace ownerID}"
  obtains backups where "SelectSecretRecipients sandboxID candidates ownerID maxBackups = trimSpace ownerID # backups"
    and "distinct (trimSpace ownerID # backups)" "set backups \<subseteq> others" "length backups = min (card others) (nat maxBackups)"
proof -
  let ?key = "\<lambda>i. (- int (unat (secretRecipientScore sandboxID i)), i)"
  let ?rest = "sort_key ?key (otherCandidates {trimSpace ownerID} candidates)"
  have rest: "distinct ?rest" "set ?rest = others"
    by (simp_all only: distinct_sort otherCandidates_distinct set_sort otherCandidates_set assms(3))
  have sub: "set (take (nat maxBackups) ?rest) \<subseteq> others" using rest(2) set_take_subset[of "nat maxBackups" ?rest] by blast
  show ?thesis
  proof (rule that)
    show "SelectSecretRecipients sandboxID candidates ownerID maxBackups = trimSpace ownerID # take (nat maxBackups) ?rest"
      using assms(1,2) by (simp only: SelectSecretRecipients_def Let_def if_False de_Morgan_disj simp_thms)
    have "trimSpace ownerID \<notin> set (take (nat maxBackups) ?rest)" using sub assms(3) by blast
    with rest(1) show "distinct (trimSpace ownerID # take (nat maxBackups) ?rest)" by (simp only: distinct.simps distinct_take simp_thms)
    show "length (take (nat maxBackups) ?rest) = min (card others) (nat maxBackups)"
      using distinct_card[OF rest(1)] rest(2) by (simp only: length_take)
  qed (rule sub)
qed

end
