(* ===== verification/Spec2Isabelle.thy ===== *)
theory Spec2Isabelle
  imports Change_Log Secret_Handles Shards Name_Key Team_Quotas Egress_Profiles Warm_Pools Volumes API_Tokens
    Pending_Reservations Audit_Index Identity Artifact_Pages Storage_Obligations Placement_Ops Placement_Pages Placement_Tables
    Egress_Rules Egress_Dial Egress_Roundtrip Scheduler_Properties
begin

text \<open>
  Verification of the control plane of microvm, a cluster that runs sandboxes on a fleet of workers.

  \<^bold>\<open>The program.\<close>  Control-plane nodes replicate one state machine, \<^verbatim>\<open>placementFSM\<close> of \<^verbatim>\<open>internal/cluster/fsm.go\<close>, through a Raft
  log.  A log entry is a \<^verbatim>\<open>command\<close>; \<^verbatim>\<open>apply\<close> changes the placement table (which sandbox is where and in what state), its secondary
  indexes and the tables that live beside it (volumes, egress profiles, team quotas, API tokens, warm pools, cloud identity, the artifact
  catalogue, storage obligations, the audit index), and records the change in a ring that agents poll.  Before an entry is proposed the
  leader chooses a worker from gossiped heartbeats (\<^verbatim>\<open>placement.go\<close>), re-checks reservations and checks quotas; the worker's own
  admitter (\<^verbatim>\<open>pkg/capacity\<close>) decides again when the create arrives.  Ingress nodes read the table by shard (\<^verbatim>\<open>shards.go\<close>).  The egress
  policy of a sandbox (\<^verbatim>\<open>pkg/egresspolicy\<close>) is compiled from lists and decides every connection the sandbox opens.

  \<^bold>\<open>Shared theories.\<close>  \<^verbatim>\<open>Prelude\<close> has Go's byte strings and string functions, the generic lemmas on lists, maps and sums over maps, and
  the rule collections \<^verbatim>\<open>row_state\<close> and \<^verbatim>\<open>entry_eval\<close>.  \<^verbatim>\<open>Index_Laws\<close> states the contracts of a set index and of a unique index as
  locales, interpreted on the index functions of the state machine; \<^verbatim>\<open>Versioned_Store\<close> the contract of operator-managed objects,
  interpreted on profiles, quotas and warm pools; \<^verbatim>\<open>Paging\<close> the contract of paged reads, interpreted on the placement pages and the
  artifact pages.

  \<^bold>\<open>The placement state machine.\<close>  \<^verbatim>\<open>Placement_Types\<close> (rows), \<^verbatim>\<open>Secret_Handles\<close>, \<^verbatim>\<open>Name_Key\<close>, \<^verbatim>\<open>Commands\<close> (log entries and the
  proposer's check) and \<^verbatim>\<open>Recovery\<close> (hot rows and payloads) are the data; \<^verbatim>\<open>Placement_State\<close> is the record \<^verbatim>\<open>placementFSM\<close> with one
  function per index operation and the reads; \<^verbatim>\<open>Placement_Ops\<close> has one definition per operation code of \<^verbatim>\<open>apply\<close>, composed by
  \<^verbatim>\<open>applyLog\<close>; \<^verbatim>\<open>Placement_Snapshot\<close> is \<^verbatim>\<open>Snapshot\<close>, \<^verbatim>\<open>Persist\<close> and \<^verbatim>\<open>Restore\<close>.  \<^verbatim>\<open>Placement_Invariant\<close>, \<^verbatim>\<open>Placement_Indexes\<close>,
  \<^verbatim>\<open>Placement_Run\<close>, \<^verbatim>\<open>Placement_Restore\<close> and \<^verbatim>\<open>Placement_Machine\<close> state the invariant (rows well formed, payloads stored, every index exact
  for the table) and show that every entry and every restore keeps it; the step relation \<^verbatim>\<open>reaches\<close> closes the machine under both.
  \<^verbatim>\<open>Content_Address\<close> and \<^verbatim>\<open>Placement_Example\<close> give a concrete machine to run.  \<^verbatim>\<open>Placement_Properties\<close>, \<^verbatim>\<open>Placement_Tables\<close> and
  \<^verbatim>\<open>Placement_Pages\<close> say what this means for readers: names and hostnames resolve exactly, host ports are exclusive, sweeps and node
  listings find their rows, attachments and team usage match the rows, a snapshot restores the state, pages are complete, a dead node
  loses its rows, and what an ingress node installs is what the route lookup expects of it.

  \<^bold>\<open>Scope of the statements about reachable states.\<close>  They are about states \<^emph>\<open>reachable by admissible entries\<close>.  An entry is admissible
  (\<^verbatim>\<open>admissible\<close> in \<^verbatim>\<open>Placement_Machine\<close>) when it passes the proposer's check \<^verbatim>\<open>validateCommandLifecycle\<close>, its sandbox identifiers
  carry no surrounding white space, and it is not a single reservation that takes over an expired one of the same sandbox while the name it
  asks for is held by another.  That last path is a defect of the code and has its own theorem in \<^verbatim>\<open>Placement_Properties\<close>: it leaves a row
  that no index lists, so the statements are false after it.  They are therefore not about every state the code can be in.  They
  assume that the content addresses of recovery payloads, a SHA-256 in the code, are distinct and non-empty (\<^verbatim>\<open>addressesOk\<close>, shown
  satisfiable in \<^verbatim>\<open>Content_Address\<close>).

  \<^bold>\<open>The tables beside it.\<close>  \<^verbatim>\<open>Change_Log\<close> (\<^verbatim>\<open>placement_changelog.go\<close>): the ring implements a bounded queue under records and resets, and
  the feed has no silent gap.  \<^verbatim>\<open>Team_Quotas\<close> (\<^verbatim>\<open>fsm_team_quotas.go\<close>): usage is exact and an accepted batch keeps a team within its
  limits.  \<^verbatim>\<open>Egress_Profiles\<close>, \<^verbatim>\<open>Warm_Pools\<close>, \<^verbatim>\<open>Volumes\<close> (with the reclaim ledger), \<^verbatim>\<open>API_Tokens\<close> (with the mirror of a worker),
  \<^verbatim>\<open>Identity\<close>, \<^verbatim>\<open>Expiry_Heap\<close> and \<^verbatim>\<open>Pending_Reservations\<close>, \<^verbatim>\<open>Audit_Index\<close>, \<^verbatim>\<open>Artifact_Catalog\<close>, \<^verbatim>\<open>Artifact_Pages\<close> and
  \<^verbatim>\<open>Storage_Obligations\<close> model the files their first paragraph names and show what it says.

  \<^bold>\<open>Placement and capacity.\<close>  \<^verbatim>\<open>Shards\<close> is the shard hash, the filters and the rendezvous ring.  \<^verbatim>\<open>Capacity_Admitter\<close> is the admitter as a
  record with one function per operation that takes its lock; \<^verbatim>\<open>Capacity_Laws\<close> has its invariant and runs, \<^verbatim>\<open>Capacity_Properties\<close> that
  an admitted create fits, when reclaiming warm slots admits a create and when it falls short.  \<^verbatim>\<open>Scheduler\<close> is the heartbeat overlay,
  the fit, the score, the selection, the leader's re-check of a batch and the choice of secret recipients; \<^verbatim>\<open>Scheduler_Properties\<close> compares
  them with filters and scores written out, and the scheduler's fit with the worker's own check.

  \<^bold>\<open>Egress.\<close>  \<^verbatim>\<open>Netip\<close> (addresses), \<^verbatim>\<open>Egress_Entry\<close> (grammar), \<^verbatim>\<open>Egress_Policy\<close> (compilation and matching; the indexes implement the
  documented precedence over the lists), \<^verbatim>\<open>Egress_Glob\<close> and \<^verbatim>\<open>Egress_Rules\<close> (method and path rules), \<^verbatim>\<open>Egress_Ceiling\<close>,
  \<^verbatim>\<open>Egress_Dial\<close> (the guard of every dial) and \<^verbatim>\<open>Egress_Roundtrip\<close>.

  \<^bold>\<open>How the code is rendered.\<close>  Structs are records, errors are values, every early return is a branch, locks disappear because each
  operation is one function on the state.  A nil map or slice is the empty one.  Loops over a Go map run in key order where the result does
  not depend on the order; where it does (the walk over reclaimable slots, the random choices of a selection) the order is an argument.
  Integers are unbounded \<^typ>\<open>int\<close> except where width matters: hashes are words and the shard count is reduced modulo \<open>2 ^ 32\<close>.
  \<^verbatim>\<open>float64\<close> values (CPU counts, ratios, scores) are exact rationals.  Floating-point rounding is not modelled: sums of CPU that the code
  keeps by repeated addition and subtraction may differ from the rational ones in the last digits, so no statement claims exact CPU totals
  of the admitter, and statements that compare CPU with a budget are about the rational values.
  Loops that are not structural have termination proofs; no definition needs fuel except the walk over pages, where a number of reads
  larger than the number of rows is shown to be enough.  Parameters stand for code outside the sources or for tables too large to
  write down: \<^verbatim>\<open>fsmEnv\<close> (content address, hostname count of an allow list, key thumbprint), \<^verbatim>\<open>egressEnv\<close> (IDNA, public suffixes, Unicode
  lower-casing, SHA-256), the rendezvous score, the JSON length of a row, the Unicode case table of a hostname lookup, the host readings
  and the pools of the admitter.  \<^verbatim>\<open>strings.ToLower\<close> of a role token is modelled as far as a comparison with an ASCII word can see it.
  \<^verbatim>\<open>Member\<close>, \<^verbatim>\<open>CreateSandboxRequest\<close> and \<^verbatim>\<open>Snapshot\<close> have the fields the modelled functions read.

  \<^bold>\<open>Not modelled.\<close>  The gob and JSON encodings (a snapshot is taken to decode to what was encoded); gossip, Raft, TLS and the HTTP traffic
  between nodes; agents and watchers (goroutines around the feeds modelled here); the peer fetch of missing recovery payloads; the
  service, store, API, runtimes, proxy configuration, audit log, secret encryption, egress gateway process, toolbox, command line and SDKs,
  which are I/O on the operating system or on other programs.
\<close>

end
